(* ===== verification/Prelude.thy ===== *)
theory Prelude
  imports Main "HOL-Library.Word" "HOL-Library.Signed_Division"
begin

text \<open>
  Shared vocabulary of the development.

  \<^item> Faults and results. The kernel stops on a failed \<open>ASSERT\<close> (threads/utility.h), and a
    C++ array access outside its bounds or a dereference of a null pointer has no defined
    result. A computation that can do one of these returns a value of type \<open>'a res\<close>:
    \<open>Inl\<close> of a fault, or \<open>Inr\<close> of the result. \<open>rbind\<close> is sequencing. \<open>OutOfFuel\<close> is the
    result of a recursion that is deeper than the bound the caller gave; every use of such a
    bound comes with a theorem that a given one is enough.
  \<^item> C++ integer arithmetic on 32-bit \<open>int\<close>: division truncates towards zero
    (\<open>sdiv\<close>, \<open>smod\<close> of the library), a comparison with an unsigned operand converts the
    signed one (\<open>u32\<close>), and the two rounding macros of threads/utility.h.
  \<^item> The in-memory representation of \<open>int\<close> and arrays of \<open>int\<close>: four bytes, little endian
    (the host is an i386), with the round-trip lemmas.
  \<^item> Generic lemmas on lists and words used by several components.
\<close>

section \<open>Faults and results\<close>

datatype fault = AssertFailed | OutOfBounds | NullPointer | UndefinedArith | OutOfFuel

type_synonym 'a res = "fault + 'a"

definition rbind :: "'a res \<Rightarrow> ('a \<Rightarrow> 'b res) \<Rightarrow> 'b res" where
  "rbind m f = (case m of Inl e \<Rightarrow> Inl e | Inr x \<Rightarrow> f x)"

text \<open>The \<open>ASSERT\<close> macro: the kernel aborts when the condition is false.\<close>

definition ASSERT :: "bool \<Rightarrow> unit res" where
  "ASSERT b = (if b then Inr () else Inl AssertFailed)"

text \<open>Array read and write with the bounds of the array written out.\<close>

definition aget :: "'a list \<Rightarrow> int \<Rightarrow> 'a res" where
  "aget xs i = (if 0 \<le> i \<and> i < int (length xs) then Inr (xs ! nat i) else Inl OutOfBounds)"

definition aset :: "'a list \<Rightarrow> int \<Rightarrow> 'a \<Rightarrow> 'a list res" where
  "aset xs i v = (if 0 \<le> i \<and> i < int (length xs) then Inr (xs[nat i := v]) else Inl OutOfBounds)"

named_theorems res_simps \<open>evaluation and inversion of results\<close>
named_theorems carith \<open>C arithmetic on values in range\<close>

lemma rbind_Inl [simp, res_simps]: "rbind (Inl e) f = Inl e"
  by (simp add: rbind_def)

lemma rbind_Inr [simp, res_simps]: "rbind (Inr x) f = f x"
  by (simp add: rbind_def)

lemma rbind_eq_Inr [res_simps]: "rbind m f = Inr y \<longleftrightarrow> (\<exists>x. m = Inr x \<and> f x = Inr y)"
  by (cases m) auto

lemma rbind_InrE:
  assumes "rbind m f = Inr y"
  obtains x where "m = Inr x" "f x = Inr y"
  using assms by (auto simp: rbind_eq_Inr)

lemma rbind_assoc: "rbind (rbind m f) g = rbind m (\<lambda>x. rbind (f x) g)"
  by (cases m) auto

lemma rbind_cong [fundef_cong]: "m = m' \<Longrightarrow> (\<And>x. m' = Inr x \<Longrightarrow> f x = g x) \<Longrightarrow> rbind m f = rbind m' g"
  by (cases m') auto

lemma ASSERT_eq_Inr [simp, res_simps]: "ASSERT b = Inr u \<longleftrightarrow> b"
  by (simp add: ASSERT_def)

lemma ASSERT_True [simp]: "ASSERT True = Inr ()"
  by (simp add: ASSERT_def)

lemma ASSERT_False [simp]: "ASSERT False = Inl AssertFailed"
  by (simp add: ASSERT_def)

lemma aget_Inr [res_simps]:
  "aget xs i = Inr v \<longleftrightarrow> 0 \<le> i \<and> i < int (length xs) \<and> v = xs ! nat i"
  by (auto simp: aget_def)

lemma aset_Inr [res_simps]:
  "aset xs i v = Inr ys \<longleftrightarrow> 0 \<le> i \<and> i < int (length xs) \<and> ys = xs[nat i := v]"
  by (auto simp: aset_def)

lemma aget_ok: "0 \<le> i \<Longrightarrow> i < int (length xs) \<Longrightarrow> aget xs i = Inr (xs ! nat i)"
  by (simp add: aget_def)

lemma aset_ok: "0 \<le> i \<Longrightarrow> i < int (length xs) \<Longrightarrow> aset xs i v = Inr (xs[nat i := v])"
  by (simp add: aset_def)

section \<open>C arithmetic\<close>

text \<open>Conversion of a signed value to \<open>unsigned int\<close> (C++ [conv.integral]).\<close>

definition u32 :: "int \<Rightarrow> int" where
  "u32 x = x mod 2 ^ 32"

text \<open>Conversion of an unsigned value back to \<open>int\<close> (two's complement).\<close>

definition s32 :: "int \<Rightarrow> int" where
  "s32 x = (x + 2 ^ 31) mod 2 ^ 32 - 2 ^ 31"

definition in_int32 :: "int \<Rightarrow> bool" where
  "in_int32 x \<longleftrightarrow> - (2 ^ 31) \<le> x \<and> x < 2 ^ 31"

text \<open>The macros \<open>divRoundDown\<close> and \<open>divRoundUp\<close> of threads/utility.h.\<close>

definition divRoundDown :: "int \<Rightarrow> int \<Rightarrow> int" where
  "divRoundDown n s = n sdiv s"

definition divRoundUp :: "int \<Rightarrow> int \<Rightarrow> int" where
  "divRoundUp n s = n sdiv s + (if n smod s > 0 then 1 else 0)"

lemma sdiv_pos [carith]: "0 \<le> n \<Longrightarrow> 0 < s \<Longrightarrow> (n::int) sdiv s = n div s"
  by (cases "n = 0") (simp_all add: signed_divide_int_def sgn_if)

lemma smod_pos [carith]: "0 \<le> n \<Longrightarrow> 0 < s \<Longrightarrow> (n::int) smod s = n mod s"
  by (simp add: smod_mod_positive)

lemma u32_id [carith]: "0 \<le> x \<Longrightarrow> x < 2 ^ 32 \<Longrightarrow> u32 x = x"
  by (simp add: u32_def)

lemma s32_id [carith]: "in_int32 x \<Longrightarrow> s32 x = x"
  by (simp add: s32_def in_int32_def)

lemma divRoundUp_pos: "0 \<le> n \<Longrightarrow> 0 < s \<Longrightarrow> divRoundUp n s = (n + s - 1) div s"
proof -
  assume n: "0 \<le> n" and s: "0 < s"
  let ?r = "n mod s"
  have r: "0 \<le> ?r" "?r < s" using s by simp_all
  have "n + s - 1 = s * (n div s) + (?r + s - 1)" by (simp add: mult.commute)
  then have "(n + s - 1) div s = n div s + (?r + s - 1) div s"
    using s by (metis div_mult_self2 add.commute less_irrefl)
  moreover have "(?r + s - 1) div s = (if ?r > 0 then 1 else 0)"
  proof (cases "?r > 0")
    case True
    have "(?r + s - 1) div s = ((?r - 1) + 1 * s) div s" by (simp add: algebra_simps)
    also have "\<dots> = (?r - 1) div s + 1" using s by (subst div_mult_self1) simp_all
    also have "(?r - 1) div s = 0" using True r(2) by (intro div_pos_pos_trivial) linarith+
    finally show ?thesis using True by simp
  next
    case False
    with r have "?r = 0" by simp
    with s show ?thesis by (simp add: div_pos_pos_trivial)
  qed
  ultimately show ?thesis using n s by (simp add: divRoundUp_def sdiv_pos smod_pos)
qed

lemma divRoundUp_nonneg: "0 \<le> n \<Longrightarrow> 0 < s \<Longrightarrow> 0 \<le> divRoundUp n s"
  by (simp add: divRoundUp_def sdiv_pos smod_pos pos_imp_zdiv_nonneg_iff)

lemma int_div_less_iff: "0 < (s::int) \<Longrightarrow> a div s < c \<longleftrightarrow> a < c * s"
proof -
  assume s: "0 < s"
  have "c \<le> a div s \<longleftrightarrow> c * s \<le> a"
  proof
    assume "c \<le> a div s"
    then have "c * s \<le> a div s * s" using s by simp
    also have "\<dots> \<le> a" using s by (simp add: minus_mod_eq_div_mult [symmetric])
    finally show "c * s \<le> a" .
  next
    assume "c * s \<le> a"
    then have "c * s div s \<le> a div s" using s by (rule zdiv_mono1)
    then show "c \<le> a div s" using s by simp
  qed
  then show ?thesis by linarith
qed

lemma divRoundUp_le_iff:
  assumes "0 \<le> n" "0 < s"
  shows "divRoundUp n s \<le> k \<longleftrightarrow> n \<le> k * s"
proof -
  have "divRoundUp n s \<le> k \<longleftrightarrow> (n + s - 1) div s < k + 1"
    using assms by (simp add: divRoundUp_pos)
  also have "\<dots> \<longleftrightarrow> n + s - 1 < (k + 1) * s"
    using assms(2) by (rule int_div_less_iff)
  finally show ?thesis by (simp add: algebra_simps) linarith
qed

section \<open>Bytes\<close>

type_synonym byte = "8 word"

text \<open>The four bytes of an \<open>int\<close> in memory, and the \<open>int\<close> four bytes hold.\<close>

definition le32 :: "int \<Rightarrow> byte list" where
  "le32 x = [word_of_int x, word_of_int (x div 2 ^ 8), word_of_int (x div 2 ^ 16), word_of_int (x div 2 ^ 24)]"

definition un_le32 :: "byte list \<Rightarrow> int" where
  "un_le32 bs = s32 (uint (bs ! 0) + 2 ^ 8 * uint (bs ! 1) + 2 ^ 16 * uint (bs ! 2) + 2 ^ 24 * uint (bs ! 3))"

fun un_ints :: "nat \<Rightarrow> byte list \<Rightarrow> int list" where
  "un_ints 0 bs = []"
| "un_ints (Suc n) bs = un_le32 (take 4 bs) # un_ints n (drop 4 bs)"

definition ints_bytes :: "int list \<Rightarrow> byte list" where
  "ints_bytes xs = concat (map le32 xs)"

lemma length_le32 [simp]: "length (le32 x) = 4"
  by (simp add: le32_def)

lemma length_ints_bytes [simp]: "length (ints_bytes xs) = 4 * length xs"
  by (induction xs) (simp_all add: ints_bytes_def)

lemma length_un_ints [simp]: "length (un_ints n bs) = n"
  by (induction n arbitrary: bs) simp_all

lemma base256_digits:
  "(x::int) mod 2 ^ 8 + 2 ^ 8 * (x div 2 ^ 8 mod 2 ^ 8) + 2 ^ 16 * (x div 2 ^ 16 mod 2 ^ 8)
     + 2 ^ 24 * (x div 2 ^ 24 mod 2 ^ 8) = x mod 2 ^ 32"
proof -
  have a: "x mod 2 ^ 16 = x mod 2 ^ 8 + 2 ^ 8 * (x div 2 ^ 8 mod 2 ^ 8)"
    using zmod_zmult2_eq [of "2 ^ 8" x "2 ^ 8"] by simp
  have b: "x mod 2 ^ 24 = x mod 2 ^ 16 + 2 ^ 16 * (x div 2 ^ 16 mod 2 ^ 8)"
    using zmod_zmult2_eq [of "2 ^ 8" x "2 ^ 16"] by simp
  have c: "x mod 2 ^ 32 = x mod 2 ^ 24 + 2 ^ 24 * (x div 2 ^ 24 mod 2 ^ 8)"
    using zmod_zmult2_eq [of "2 ^ 8" x "2 ^ 24"] by simp
  show ?thesis using a b c by simp
qed

lemma un_le32_le32: "un_le32 (le32 x) = s32 x"
proof -
  have "un_le32 (le32 x) = s32 (x mod 2 ^ 8 + 2 ^ 8 * (x div 2 ^ 8 mod 2 ^ 8)
      + 2 ^ 16 * (x div 2 ^ 16 mod 2 ^ 8) + 2 ^ 24 * (x div 2 ^ 24 mod 2 ^ 8))"
    unfolding un_le32_def le32_def by (simp add: uint_word_of_int)
  also have "\<dots> = s32 (x mod 2 ^ 32)" by (simp only: base256_digits)
  finally show ?thesis by (simp add: s32_def mod_add_left_eq)
qed

lemma s32_in_range: "in_int32 (s32 x)"
proof -
  have "0 \<le> (x + 2 ^ 31) mod 2 ^ 32" and "(x + 2 ^ 31) mod 2 ^ 32 < 2 ^ 32" by simp_all
  then show ?thesis unfolding s32_def in_int32_def by simp
qed

lemma un_le32_in_range: "in_int32 (un_le32 bs)"
  by (simp add: un_le32_def s32_in_range)

lemma un_ints_ints_bytes:
  "\<forall>x \<in> set xs. in_int32 x \<Longrightarrow> un_ints (length xs) (ints_bytes xs @ rest) = xs"
  by (induction xs) (simp_all add: ints_bytes_def un_le32_le32 s32_id)

section \<open>Lists\<close>

lemma take_update_ge: "n \<le> i \<Longrightarrow> take n (xs[i := v]) = take n xs"
  by (simp add: take_update_swap list_update_beyond)

lemma set_take_drop_update: "i < length xs \<Longrightarrow> take (Suc i) (xs[i := v]) = take i xs @ [v]"
  by (simp add: take_Suc_conv_app_nth take_update_ge)

lemma take_drop_before:
  "a + k \<le> b \<Longrightarrow> b \<le> length f \<Longrightarrow> take k (drop a (take b f @ g)) = take k (drop a f)"
  by (rule nth_equalityI) (auto simp: nth_append)

lemma take_drop_after:
  "b + length bs \<le> a \<Longrightarrow> b \<le> length f \<Longrightarrow>
   take k (drop a (take b f @ bs @ drop (b + length bs) f)) = take k (drop a f)"
  by (simp add: add.commute)

lemma nth_splice:
  "s \<le> length old \<Longrightarrow> i < s + length xs \<Longrightarrow>
   (take s old @ xs @ zs) ! i = (if i < s then old ! i else xs ! (i - s))"
  by (auto simp: nth_append min_def)

end
