(* ===== verification/Disk.thy ===== *)
theory Disk
  imports Prelude
begin

text \<open>
  The disk: the raw device of machine/disk.cc with its timing, and the synchronous view of
  filesys/synchdisk.cc.

  The device keeps its sectors in one UNIX file behind a magic number. A request transfers the
  sector at once, and returns how many ticks later the completion interrupt is scheduled
  (\<open>Interrupt::Schedule\<close> takes that number); \<open>active\<close> is set until the interrupt.
  The file system sees only \<open>ReadSector\<close> and \<open>WriteSector\<close>, which return when the interrupt has
  come. Their abstraction is a store of 1024 sectors, a function from sector numbers to bytes;
  the locale \<open>sector_store\<close> states its laws, and is interpreted on the abstract store and on the
  device.
\<close>

section \<open>Geometry and timing constants\<close>

definition SectorSize :: int where "SectorSize = 128"
definition SectorsPerTrack :: int where "SectorsPerTrack = 32"
definition NumTracks :: int where "NumTracks = 32"
definition NumSectors :: int where "NumSectors = SectorsPerTrack * NumTracks"

definition RotationTime :: int where "RotationTime = 500"
definition SeekTime :: int where "SeekTime = 500"

definition MagicNumber :: int where "MagicNumber = 0x456789ab"
definition MagicSize :: int where "MagicSize = 4"
definition DiskSize :: int where "DiskSize = MagicSize + NumSectors * SectorSize"

lemmas disk_consts = SectorSize_def SectorsPerTrack_def NumTracks_def NumSectors_def
  RotationTime_def SeekTime_def MagicNumber_def MagicSize_def DiskSize_def

section \<open>The UNIX file behind the device\<close>

text \<open>\<open>Lseek\<close> to \<open>off\<close> from the start, then \<open>Read\<close> (machine/sysdep.cc): a short read aborts.\<close>

definition seek_read :: "byte list \<Rightarrow> int \<Rightarrow> int \<Rightarrow> byte list res" where
  "seek_read f off n =
     rbind (ASSERT (0 \<le> off)) (\<lambda>_.
     let got = take (nat n) (drop (nat off) f)
     in rbind (ASSERT (int (length got) = n)) (\<lambda>_. Inr got))"

text \<open>\<open>Lseek\<close>, then \<open>WriteFile\<close>: a write beyond the end of a UNIX file extends it, and the
  bytes in between read as zero.\<close>

definition seek_write :: "byte list \<Rightarrow> int \<Rightarrow> byte list \<Rightarrow> byte list res" where
  "seek_write f off bs =
     rbind (ASSERT (0 \<le> off)) (\<lambda>_.
     Inr (take (nat off) (f @ replicate (nat off - length f) 0) @ bs @ drop (nat off + length bs) f))"

section \<open>The device\<close>

record disk =
  dfile :: "byte list"
  active :: bool
  lastSector :: int
  bufferInit :: int

text \<open>The constructor. \<open>existing\<close> is the content of the UNIX file, if there is one.\<close>

definition Disk_new :: "byte list option \<Rightarrow> disk res" where
  "Disk_new existing =
     rbind (case existing of
              Some f \<Rightarrow> rbind (seek_read f 0 MagicSize) (\<lambda>m.
                         rbind (ASSERT (un_le32 m = MagicNumber)) (\<lambda>_. Inr f))
            | None \<Rightarrow> rbind (seek_write [] 0 (le32 MagicNumber)) (\<lambda>f.
                       seek_write f (DiskSize - 4) (le32 0)))
       (\<lambda>f. Inr \<lparr>dfile = f, active = False, lastSector = 0, bufferInit = 0\<rparr>)"

definition TimeToSeek :: "disk \<Rightarrow> int \<Rightarrow> int \<Rightarrow> int \<times> int" where
  "TimeToSeek d now newSector =
     (let newTrack = newSector sdiv SectorsPerTrack;
          oldTrack = lastSector d sdiv SectorsPerTrack;
          seek = \<bar>newTrack - oldTrack\<bar> * SeekTime;
          over = (now + seek) smod RotationTime
      in (seek, if over > 0 then RotationTime - over else 0))"

definition ModuloDiff :: "int \<Rightarrow> int \<Rightarrow> int" where
  "ModuloDiff to frm =
     (let toOffset = to smod SectorsPerTrack; fromOffset = frm smod SectorsPerTrack
      in ((toOffset - fromOffset) + SectorsPerTrack) smod SectorsPerTrack)"

definition ComputeLatency :: "disk \<Rightarrow> int \<Rightarrow> int \<Rightarrow> bool \<Rightarrow> int" where
  "ComputeLatency d now newSector writing =
     (let (seek, rotation) = TimeToSeek d now newSector;
          timeAfter = now + seek + rotation
      in if \<not> writing \<and> seek = 0 \<and>
            (timeAfter - bufferInit d) sdiv RotationTime > ModuloDiff newSector (bufferInit d sdiv RotationTime)
         then RotationTime
         else seek + (rotation + ModuloDiff newSector (timeAfter sdiv RotationTime) * RotationTime) + RotationTime)"

definition UpdateLast :: "disk \<Rightarrow> int \<Rightarrow> int \<Rightarrow> disk" where
  "UpdateLast d now newSector =
     (let (seek, rotate) = TimeToSeek d now newSector;
          d' = (if seek \<noteq> 0 then d\<lparr>bufferInit := now + seek + rotate\<rparr> else d)
      in d'\<lparr>lastSector := newSector\<rparr>)"

text \<open>A request returns the data, the delay given to \<open>Interrupt::Schedule\<close>, and the device.\<close>

definition ReadRequest :: "disk \<Rightarrow> int \<Rightarrow> int \<Rightarrow> (byte list \<times> int \<times> disk) res" where
  "ReadRequest d now sectorNumber =
     (let ticks = ComputeLatency d now sectorNumber False in
      rbind (ASSERT (\<not> active d)) (\<lambda>_.
      rbind (ASSERT (sectorNumber \<ge> 0 \<and> sectorNumber < NumSectors)) (\<lambda>_.
      rbind (seek_read (dfile d) (SectorSize * sectorNumber + MagicSize) SectorSize) (\<lambda>data.
      let d' = UpdateLast (d\<lparr>active := True\<rparr>) now sectorNumber
      in Inr (data, ticks, d')))))"

definition WriteRequest :: "disk \<Rightarrow> int \<Rightarrow> int \<Rightarrow> byte list \<Rightarrow> (int \<times> disk) res" where
  "WriteRequest d now sectorNumber data =
     (let ticks = ComputeLatency d now sectorNumber True in
      rbind (ASSERT (\<not> active d)) (\<lambda>_.
      rbind (ASSERT (sectorNumber \<ge> 0 \<and> sectorNumber < NumSectors)) (\<lambda>_.
      rbind (seek_write (dfile d) (SectorSize * sectorNumber + MagicSize) (take (nat SectorSize) data)) (\<lambda>f.
      let d' = UpdateLast (d\<lparr>dfile := f, active := True\<rparr>) now sectorNumber
      in Inr (ticks, d')))))"

text \<open>\<open>HandleInterrupt\<close> clears \<open>active\<close>, then calls the handler, which wakes the waiting thread.\<close>

definition HandleInterrupt :: "disk \<Rightarrow> disk" where
  "HandleInterrupt d = d\<lparr>active := False\<rparr>"

section \<open>The synchronous disk\<close>

text \<open>
  \<open>SynchDisk::ReadSector\<close> and \<open>WriteSector\<close>: the lock admits one request at a time, and \<open>P\<close> on
  the semaphore returns after the completion interrupt, so to the caller a call is the request
  followed by the interrupt. \<open>now\<close> is the time of the request.
\<close>

definition SynchRead :: "disk \<Rightarrow> int \<Rightarrow> int \<Rightarrow> (byte list \<times> disk) res" where
  "SynchRead d now sectorNumber =
     rbind (ReadRequest d now sectorNumber) (\<lambda>(data, ticks, d'). Inr (data, HandleInterrupt d'))"

definition SynchWrite :: "disk \<Rightarrow> int \<Rightarrow> int \<Rightarrow> byte list \<Rightarrow> disk res" where
  "SynchWrite d now sectorNumber data =
     rbind (WriteRequest d now sectorNumber data) (\<lambda>(ticks, d'). Inr (HandleInterrupt d'))"

text \<open>What the file system sees: a store of sectors, and the range check of the device.\<close>

type_synonym store = "int \<Rightarrow> byte list"

definition ReadSector :: "store \<Rightarrow> int \<Rightarrow> byte list res" where
  "ReadSector st n = rbind (ASSERT (n \<ge> 0 \<and> n < NumSectors)) (\<lambda>_. Inr (st n))"

definition WriteSector :: "store \<Rightarrow> int \<Rightarrow> byte list \<Rightarrow> store res" where
  "WriteSector st n data =
     rbind (ASSERT (n \<ge> 0 \<and> n < NumSectors)) (\<lambda>_. Inr (st(n := take (nat SectorSize) data)))"

text \<open>A store all of whose sectors have the length of a sector.\<close>

definition store_wf :: "store \<Rightarrow> bool" where
  "store_wf st \<longleftrightarrow> (\<forall>n. 0 \<le> n \<and> n < NumSectors \<longrightarrow> int (length (st n)) = SectorSize)"

definition disk_wf :: "disk \<Rightarrow> bool" where
  "disk_wf d \<longleftrightarrow> int (length (dfile d)) = DiskSize \<and> \<not> active d"

definition sector_of :: "disk \<Rightarrow> store" where
  "sector_of d n =
     (if 0 \<le> n \<and> n < NumSectors
      then take (nat SectorSize) (drop (nat (SectorSize * n + MagicSize)) (dfile d)) else [])"

section \<open>The interface of a sector store\<close>

locale sector_store =
  fixes inv :: "'s \<Rightarrow> bool"
    and rd :: "'s \<Rightarrow> int \<Rightarrow> byte list res"
    and wr :: "'s \<Rightarrow> int \<Rightarrow> byte list \<Rightarrow> 's res"
  assumes rd_ok: "inv s \<Longrightarrow> 0 \<le> n \<Longrightarrow> n < NumSectors \<Longrightarrow> \<exists>bs. rd s n = Inr bs \<and> int (length bs) = SectorSize"
    and wr_ok: "inv s \<Longrightarrow> 0 \<le> n \<Longrightarrow> n < NumSectors \<Longrightarrow> int (length bs) = SectorSize \<Longrightarrow>
      \<exists>s'. wr s n bs = Inr s' \<and> inv s' \<and> rd s' n = Inr bs \<and> (\<forall>m. m \<noteq> n \<longrightarrow> rd s' m = rd s m)"
    and rd_range: "\<not> (0 \<le> n \<and> n < NumSectors) \<Longrightarrow> inv s \<Longrightarrow> rd s n = Inl AssertFailed"
    and wr_range: "\<not> (0 \<le> n \<and> n < NumSectors) \<Longrightarrow> inv s \<Longrightarrow> wr s n bs = Inl AssertFailed"
begin

lemma wr_Inr_range: "inv s \<Longrightarrow> wr s n bs = Inr s' \<Longrightarrow> 0 \<le> n \<and> n < NumSectors"
  using wr_range by fastforce

lemma rd_after_wr: "inv s \<Longrightarrow> int (length bs) = SectorSize \<Longrightarrow> wr s n bs = Inr s' \<Longrightarrow> rd s' n = Inr bs"
  using wr_Inr_range wr_ok by fastforce

lemma rd_frame: "inv s \<Longrightarrow> int (length bs) = SectorSize \<Longrightarrow> wr s n bs = Inr s' \<Longrightarrow> m \<noteq> n \<Longrightarrow> rd s' m = rd s m"
  using wr_Inr_range wr_ok by fastforce

lemma wr_inv: "inv s \<Longrightarrow> int (length bs) = SectorSize \<Longrightarrow> wr s n bs = Inr s' \<Longrightarrow> inv s'"
  using wr_Inr_range wr_ok by fastforce

text \<open>Two writes to different sectors commute, as far as any later read can tell.\<close>

lemma wr_commute:
  assumes "inv s" "int (length a) = SectorSize" "int (length b) = SectorSize" "m \<noteq> n"
    and "wr s m a = Inr s1" "wr s1 n b = Inr s2" "wr s n b = Inr t1" "wr t1 m a = Inr t2"
  shows "rd s2 k = rd t2 k"
proof -
  have i1: "inv s1" and j1: "inv t1" using assms wr_inv by blast+
  have "rd s2 k = (if k = n then Inr b else if k = m then Inr a else rd s k)"
    using rd_after_wr [OF i1 assms(3,6)] rd_frame [OF i1 assms(3,6)]
      rd_after_wr [OF assms(1,2,5)] rd_frame [OF assms(1,2,5)] by auto
  moreover have "rd t2 k = (if k = n then Inr b else if k = m then Inr a else rd s k)"
    using rd_after_wr [OF j1 assms(2,8)] rd_frame [OF j1 assms(2,8)] assms(4)
      rd_after_wr [OF assms(1,3,7)] rd_frame [OF assms(1,3,7)] by auto
  ultimately show ?thesis by simp
qed

end

interpretation st: sector_store store_wf ReadSector WriteSector
  by unfold_locales (auto simp: ReadSector_def WriteSector_def store_wf_def disk_consts)

section \<open>The device implements the store\<close>

lemma seek_read_ok:
  "0 \<le> off \<Longrightarrow> 0 \<le> n \<Longrightarrow> off + n \<le> int (length f) \<Longrightarrow> seek_read f off n = Inr (take (nat n) (drop (nat off) f))"
proof -
  assume a: "0 \<le> off" "0 \<le> n" "off + n \<le> int (length f)"
  then have "int (length (take (nat n) (drop (nat off) f))) = n" by (simp add: nat_diff_distrib min_def) linarith
  with a(1) show ?thesis by (simp add: seek_read_def Let_def)
qed

lemma seek_write_ok:
  "0 \<le> off \<Longrightarrow> off \<le> int (length f) \<Longrightarrow>
   seek_write f off bs = Inr (take (nat off) f @ bs @ drop (nat off + length bs) f)"
  by (simp add: seek_write_def)

lemma sector_offset:
  "0 \<le> n \<Longrightarrow> n < NumSectors \<Longrightarrow> 0 \<le> SectorSize * n + MagicSize \<and> SectorSize * n + MagicSize + SectorSize \<le> DiskSize"
  by (simp add: disk_consts)

lemma UpdateLast_frame [simp]: "dfile (UpdateLast d now n) = dfile d" "active (UpdateLast d now n) = active d"
  by (simp_all add: UpdateLast_def TimeToSeek_def Let_def)

lemma ReadRequest_ok:
  assumes "disk_wf d" "0 \<le> n" "n < NumSectors"
  shows "ReadRequest d now n
    = Inr (sector_of d n, ComputeLatency d now n False, UpdateLast (d\<lparr>active := True\<rparr>) now n)"
proof -
  have "seek_read (dfile d) (SectorSize * n + MagicSize) SectorSize = Inr (sector_of d n)"
    using assms sector_offset [OF assms(2,3)] SectorSize_def
    by (subst seek_read_ok) (simp_all add: disk_wf_def sector_of_def)
  then show ?thesis using assms by (simp add: ReadRequest_def disk_wf_def)
qed

lemma WriteRequest_ok:
  assumes "disk_wf d" "0 \<le> n" "n < NumSectors" "int (length bs) = SectorSize"
  shows "\<exists>f. WriteRequest d now n bs
      = Inr (ComputeLatency d now n True, UpdateLast (d\<lparr>dfile := f, active := True\<rparr>) now n)
    \<and> f = take (nat (SectorSize * n + MagicSize)) (dfile d) @ bs
         @ drop (nat (SectorSize * n + MagicSize) + length bs) (dfile d)"
proof -
  let ?off = "SectorSize * n + MagicSize"
  have t: "take (nat SectorSize) bs = bs" using assms(4) by simp
  have "?off \<le> int (length (dfile d))" using assms(1) sector_offset [OF assms(2,3)] SectorSize_def
    by (simp add: disk_wf_def)
  then have "seek_write (dfile d) ?off bs
      = Inr (take (nat ?off) (dfile d) @ bs @ drop (nat ?off + length bs) (dfile d))"
    using sector_offset [OF assms(2,3)] by (intro seek_write_ok) simp_all
  then show ?thesis using assms t by (simp add: WriteRequest_def disk_wf_def)
qed

lemma SynchRead_refines:
  assumes "disk_wf d"
  shows "rbind (SynchRead d now n) (\<lambda>(bs, d'). Inr (bs, sector_of d', disk_wf d'))
    = rbind (ReadSector (sector_of d) n) (\<lambda>bs. Inr (bs, sector_of d, True))"
proof (cases "0 \<le> n \<and> n < NumSectors")
  case True
  have "sector_of (HandleInterrupt (UpdateLast (d\<lparr>active := True\<rparr>) now n)) = sector_of d"
    by (rule ext) (simp add: sector_of_def HandleInterrupt_def)
  then show ?thesis using True assms
    by (simp add: SynchRead_def ReadRequest_ok ReadSector_def)
       (simp add: disk_wf_def HandleInterrupt_def)
next
  case False
  then show ?thesis using assms
    by (auto simp: SynchRead_def ReadRequest_def ReadSector_def disk_wf_def Let_def ASSERT_def)
qed

text \<open>Overwriting the bytes of one sector in the file changes that sector only.\<close>

lemma sector_overwrite:
  assumes f: "int (length f) = DiskSize" and n: "0 \<le> n" "n < NumSectors" and bs: "int (length bs) = SectorSize"
    and g: "g = take (nat (SectorSize * n + MagicSize)) f @ bs @ drop (nat (SectorSize * n + MagicSize) + length bs) f"
    and m: "0 \<le> m" "m < NumSectors"
  shows "take (nat SectorSize) (drop (nat (SectorSize * m + MagicSize)) g)
    = (if m = n then bs else take (nat SectorSize) (drop (nat (SectorSize * m + MagicSize)) f))"
proof -
  let ?o = "\<lambda>k. nat (SectorSize * k + MagicSize)"
  have lf: "length f = 131076" and lb: "length bs = 128" using f bs by (simp_all add: disk_consts)
  have o: "?o n = 128 * nat n + 4" "?o m = 128 * nat m + 4" "nat n < 1024" "nat m < 1024"
    using n m by (simp_all add: disk_consts nat_add_distrib nat_mult_distrib)
  consider "m = n" | "nat m < nat n" | "nat n < nat m" using n(1) m(1) by (cases m n rule: linorder_cases) auto
  then show ?thesis
  proof cases
    case 1
    then show ?thesis using g o lf lb by (simp add: SectorSize_def)
  next
    case 2
    then have "nat m + 1 \<le> nat n" by (simp only: Suc_eq_plus1 [symmetric] Suc_le_eq)
    then have "128 * (nat m + 1) \<le> 128 * nat n" by (rule mult_le_mono2)
    then have "128 * nat m + 4 + 128 \<le> 128 * nat n + 4" by (simp only: distrib_left)
    then have "take 128 (drop (?o m) (take (?o n) f @ bs @ drop (?o n + length bs) f)) = take 128 (drop (?o m) f)"
      unfolding o(1,2) using o(3) lf by (intro take_drop_before) simp_all
    with 2 show ?thesis unfolding g by (auto simp: SectorSize_def)
  next
    case 3
    then have "nat n + 1 \<le> nat m" by (simp only: Suc_eq_plus1 [symmetric] Suc_le_eq)
    then have "128 * (nat n + 1) \<le> 128 * nat m" by (rule mult_le_mono2)
    then have "128 * nat n + 4 + 128 \<le> 128 * nat m + 4" by (simp only: distrib_left)
    then have "take 128 (drop (?o m) (take (?o n) f @ bs @ drop (?o n + length bs) f)) = take 128 (drop (?o m) f)"
      unfolding o(1,2) using o(3) lf lb by (intro take_drop_after) simp_all
    with 3 show ?thesis unfolding g by (auto simp: SectorSize_def)
  qed
qed

lemma SynchWrite_refines:
  assumes "disk_wf d" "int (length bs) = SectorSize"
  shows "rbind (SynchWrite d now n bs) (\<lambda>d'. Inr (sector_of d', disk_wf d'))
    = rbind (WriteSector (sector_of d) n bs) (\<lambda>st. Inr (st, True))"
proof (cases "0 \<le> n \<and> n < NumSectors")
  case True
  then obtain f where w: "WriteRequest d now n bs
      = Inr (ComputeLatency d now n True, UpdateLast (d\<lparr>dfile := f, active := True\<rparr>) now n)"
    and f: "f = take (nat (SectorSize * n + MagicSize)) (dfile d) @ bs
         @ drop (nat (SectorSize * n + MagicSize) + length bs) (dfile d)"
    using WriteRequest_ok assms by blast
  let ?d = "HandleInterrupt (UpdateLast (d\<lparr>dfile := f, active := True\<rparr>) now n)"
  have len: "int (length f) = DiskSize"
    using assms True sector_offset [of n] by (simp add: f disk_wf_def min_def) linarith
  have "sector_of ?d m = ((sector_of d)(n := bs)) m" for m
    using assms True sector_overwrite [OF _ _ _ assms(2) f, of m]
    by (auto simp: sector_of_def HandleInterrupt_def disk_wf_def)
  then have "sector_of ?d = (sector_of d)(n := bs)" by blast
  then show ?thesis using True w len assms
    by (simp add: SynchWrite_def WriteSector_def)
       (simp add: disk_wf_def HandleInterrupt_def)
next
  case False
  then show ?thesis using assms
    by (auto simp: SynchWrite_def WriteRequest_def WriteSector_def disk_wf_def Let_def ASSERT_def)
qed

text \<open>The device itself is a sector store: reads leave its content as it is.\<close>

definition dev_read :: "int \<Rightarrow> disk \<Rightarrow> int \<Rightarrow> byte list res" where
  "dev_read now d n = rbind (SynchRead d now n) (\<lambda>(bs, d'). Inr bs)"

lemma dev_read_eq: "disk_wf d \<Longrightarrow> dev_read now d n = ReadSector (sector_of d) n"
  using SynchRead_refines [of d now n]
  by (cases "SynchRead d now n"; cases "ReadSector (sector_of d) n") (auto simp: dev_read_def)

lemma sector_of_wf: "disk_wf d \<Longrightarrow> store_wf (sector_of d)"
  by (auto simp: store_wf_def sector_of_def disk_wf_def disk_consts)

lemma SynchWrite_Inr:
  assumes "disk_wf d" "int (length bs) = SectorSize" "0 \<le> n" "n < NumSectors"
  shows "\<exists>d'. SynchWrite d now n bs = Inr d' \<and> disk_wf d' \<and> sector_of d' = (sector_of d)(n := bs)"
  using SynchWrite_refines [OF assms(1,2), of now n] assms(2-4)
  by (cases "SynchWrite d now n bs") (auto simp: WriteSector_def SectorSize_def)

interpretation dev: sector_store disk_wf "dev_read now" "\<lambda>d. SynchWrite d now"
proof (unfold_locales, goal_cases)
  case (1 s n)
  then show ?case using sector_of_wf [of s] st.rd_ok by (simp add: dev_read_eq)
next
  case (2 s n bs)
  then obtain d' where d': "SynchWrite s now n bs = Inr d'" "disk_wf d'" "sector_of d' = (sector_of s)(n := bs)"
    using SynchWrite_Inr by blast
  with 2 show ?case by (auto simp: dev_read_eq ReadSector_def)
next
  case (3 n s)
  then show ?case by (auto simp: dev_read_eq ReadSector_def ASSERT_def)
next
  case (4 n s bs)
  then show ?case by (auto simp: SynchWrite_def WriteRequest_def disk_wf_def ASSERT_def)
qed

section \<open>Timing\<close>

lemma ModuloDiff_mod: "0 \<le> to \<Longrightarrow> 0 \<le> frm \<Longrightarrow> ModuloDiff to frm = (to - frm) mod 32"
proof -
  assume a: "0 \<le> to" "0 \<le> frm"
  have "0 \<le> to mod 32 - frm mod 32 + 32"
    using pos_mod_bound [of 32 frm] pos_mod_sign [of 32 to] by linarith
  then have "ModuloDiff to frm = (to mod 32 - frm mod 32 + 32) mod 32"
    using a by (simp add: ModuloDiff_def SectorsPerTrack_def smod_pos)
  then show ?thesis by (simp add: mod_diff_eq)
qed

lemma TimeToSeek_aligned:
  assumes "0 \<le> now" "TimeToSeek d now n = (seek, rot)"
  shows "0 \<le> seek" "0 \<le> rot" "rot < 500" "(now + seek + rot) mod 500 = 0"
proof -
  have s: "0 \<le> seek" using assms by (auto simp: TimeToSeek_def Let_def SeekTime_def)
  let ?over = "(now + seek) mod 500"
  have r: "rot = (if ?over > 0 then 500 - ?over else 0)"
    using assms s by (auto simp: TimeToSeek_def Let_def RotationTime_def smod_pos)
  have o: "0 \<le> ?over" "?over < 500" by simp_all
  show "0 \<le> seek" "0 \<le> rot" "rot < 500" using s r o by auto
  show "(now + seek + rot) mod 500 = 0"
  proof (cases "?over > 0")
    case True
    then have e: "now + seek + rot = (now + seek - ?over) + 500" using r by simp
    have "(now + seek - ?over) mod 500 = 0" by (simp add: minus_mod_eq_mult_div)
    then show ?thesis unfolding e by simp
  next
    case False
    with o r show ?thesis by simp
  qed
qed

definition latency_ok :: "disk \<Rightarrow> int \<Rightarrow> int \<Rightarrow> bool" where
  "latency_ok d now n \<longleftrightarrow> 0 \<le> now \<and> 0 \<le> n \<and> n < NumSectors \<and> 0 \<le> lastSector d \<and> lastSector d < NumSectors
     \<and> 0 \<le> bufferInit d"

lemma ComputeLatency_write:
  assumes "0 \<le> now" "0 \<le> n" "TimeToSeek d now n = (seek, rot)"
  shows "ComputeLatency d now n True
    = seek + (rot + (n - (now + seek + rot) div 500) mod 32 * 500) + 500"
  using assms TimeToSeek_aligned [OF assms(1,3)]
  by (simp add: ComputeLatency_def ModuloDiff_mod RotationTime_def sdiv_pos pos_imp_zdiv_nonneg_iff)

text \<open>A write completes on a sector boundary, just when the head has passed the sector.\<close>

lemma write_completion:
  assumes "0 \<le> now" "0 \<le> n"
  shows "(now + ComputeLatency d now n True) mod 500 = 0"
    and "(now + ComputeLatency d now n True) div 500 mod 32 = (n + 1) mod 32"
proof -
  obtain seek rot where tk: "TimeToSeek d now n = (seek, rot)" by force
  let ?t = "now + seek + rot"
  have al: "?t mod 500 = 0" using TimeToSeek_aligned [OF assms(1) tk] by simp
  then obtain q where q: "?t = 500 * q" by (metis mod_0_imp_dvd dvdE)
  let ?k = "(n - q) mod 32"
  have e: "now + ComputeLatency d now n True = 500 * (q + ?k + 1)"
    using ComputeLatency_write [OF assms tk] q by simp
  show "(now + ComputeLatency d now n True) mod 500 = 0" unfolding e by simp
  have "(q + ?k + 1) mod 32 = (q + (n - q) + 1) mod 32"
    by (metis (no_types) mod_add_left_eq mod_add_right_eq)
  then show "(now + ComputeLatency d now n True) div 500 mod 32 = (n + 1) mod 32"
    unfolding e by simp
qed

lemma seek_bound:
  assumes "latency_ok d now n" "TimeToSeek d now n = (seek, rot)"
  shows "seek \<le> 31 * SeekTime"
proof -
  have "0 \<le> n" "n < 1024" "0 \<le> lastSector d" "lastSector d < 1024"
    using assms(1) by (simp_all add: latency_ok_def disk_consts)
  then have "n div 32 \<le> 31" "lastSector d div 32 \<le> 31" "0 \<le> n div 32" "0 \<le> lastSector d div 32"
    by presburger+
  then have "\<bar>n div 32 - lastSector d div 32\<bar> \<le> 31" by linarith
  then show ?thesis using assms
    by (auto simp: TimeToSeek_def Let_def latency_ok_def SeekTime_def SectorsPerTrack_def sdiv_pos)
qed

lemma ComputeLatency_bounds:
  assumes "latency_ok d now n"
  shows "RotationTime \<le> ComputeLatency d now n writing"
    and "ComputeLatency d now n writing < 31 * SeekTime + 33 * RotationTime"
proof -
  obtain seek rot where tk: "TimeToSeek d now n = (seek, rot)" by force
  have p: "0 \<le> now" "0 \<le> n" using assms by (simp_all add: latency_ok_def)
  note al = TimeToSeek_aligned [OF p(1) tk] and sb = seek_bound [OF assms tk]
  let ?k = "(n - (now + seek + rot) div 500) mod 32"
  have k: "0 \<le> ?k" "?k \<le> 31" using pos_mod_bound [of 32 "n - (now + seek + rot) div 500"] by simp_all
  have cl: "ComputeLatency d now n writing = RotationTime \<or>
        ComputeLatency d now n writing = seek + (rot + ?k * 500) + 500"
    using tk p al
    by (simp add: ComputeLatency_def Let_def ModuloDiff_mod RotationTime_def sdiv_pos pos_imp_zdiv_nonneg_iff)
  show "RotationTime \<le> ComputeLatency d now n writing" using cl al k by (auto simp: RotationTime_def)
  show "ComputeLatency d now n writing < 31 * SeekTime + 33 * RotationTime"
    using cl al k sb by (auto simp: RotationTime_def SeekTime_def)
qed

section \<open>What the file system relies on\<close>

definition sample_disk :: disk where
  "sample_disk = \<lparr>dfile = replicate 131076 0, active = False, lastSector = 7, bufferInit = 0\<rparr>"

lemma sample_disk_wf: "disk_wf sample_disk"
  by (simp add: disk_wf_def sample_disk_def disk_consts DiskSize_def MagicSize_def)

text \<open>C22: The simulated disk, with its UNIX file, its magic number and its completion interrupt,
  implements the store of sectors the file system uses: a read returns what the store has in the
  sector and leaves it, a write of a sector updates the store there and nowhere else, both fail on
  the same sector numbers, and the disk is idle again afterwards.\<close>

theorem SynchDisk_refines_store:
  assumes "disk_wf d" and "int (length bs) = SectorSize"
  shows "rbind (SynchRead d now n) (\<lambda>(b, d'). Inr (b, sector_of d', disk_wf d'))
      = rbind (ReadSector (sector_of d) n) (\<lambda>b. Inr (b, sector_of d, True))
    \<and> rbind (SynchWrite d now n bs) (\<lambda>d'. Inr (sector_of d', disk_wf d'))
      = rbind (WriteSector (sector_of d) n bs) (\<lambda>st. Inr (st, True))"
  using SynchRead_refines [OF assms(1)] SynchWrite_refines [OF assms] by blast

theorem SynchDisk_refines_store_witness:
  "rbind (SynchWrite sample_disk 40 3 (replicate 128 1)) (\<lambda>d'. Inr (sector_of d', disk_wf d'))
     = Inr ((sector_of sample_disk)(3 := replicate 128 1), True)"
  using SynchDisk_refines_store [OF sample_disk_wf, of "replicate 128 1" 40 3]
  by (simp add: WriteSector_def disk_consts)

text \<open>The time a request takes: a write ends on a sector boundary, at the moment the head has just
  passed the sector, and no request takes less than one rotation step or as much as a full seek and a
  turn of the disk.\<close>

theorem ComputeLatency_correct:
  assumes "latency_ok d now n"
  shows "(now + ComputeLatency d now n True) mod RotationTime = 0
    \<and> (now + ComputeLatency d now n True) div RotationTime mod SectorsPerTrack = (n + 1) mod SectorsPerTrack
    \<and> RotationTime \<le> ComputeLatency d now n writing
    \<and> ComputeLatency d now n writing < 31 * SeekTime + 33 * RotationTime"
  using write_completion [of now n d] ComputeLatency_bounds [OF assms, of writing] assms
  by (simp add: latency_ok_def RotationTime_def SectorsPerTrack_def)

theorem ComputeLatency_correct_witness:
  "(1234 + ComputeLatency sample_disk 1234 700 True) mod RotationTime = 0"
  using ComputeLatency_correct [of sample_disk 1234 700 True]
  by (simp add: latency_ok_def sample_disk_def disk_consts)

end
