(* ===== verification/Machine.thy ===== *)
theory Machine
  imports Disk
begin

text \<open>
  The simulated workstation as user programs see it (machine/machine.h, machine/machine.cc,
  machine/translate.h, machine/translate.cc): registers, main memory, the software-managed
  TLB and the page table, address translation, and the trap into the kernel.

  The kernel entered by a trap is a parameter \<open>h\<close> (\<open>ExceptionHandler\<close>): a function of the
  exception and the state. The state is the record \<open>machine\<close>, left open for the kernel to
  extend with its own variables.
\<close>

unbundle bit_operations_syntax

section \<open>Data\<close>

definition PageSize :: int where "PageSize = SectorSize"
definition NumPhysPages :: int where "NumPhysPages = 32"
definition MemorySize :: int where "MemorySize = NumPhysPages * PageSize"
definition TLBSize :: int where "TLBSize = 4"

lemma mem_consts: "PageSize = 128" "NumPhysPages = 32" "MemorySize = 4096" "TLBSize = 4"
  by (simp_all add: PageSize_def SectorSize_def NumPhysPages_def MemorySize_def TLBSize_def)

datatype ExceptionType = NoException | SyscallException | PageFaultException | ReadOnlyException
  | BusErrorException | AddressErrorException | OverflowException | IllegalInstrException

abbreviation (input) StackReg :: int where "StackReg \<equiv> 29"
abbreviation (input) RetAddrReg :: int where "RetAddrReg \<equiv> 31"
abbreviation (input) NumGPRegs :: int where "NumGPRegs \<equiv> 32"
abbreviation (input) HiReg :: int where "HiReg \<equiv> 32"
abbreviation (input) LoReg :: int where "LoReg \<equiv> 33"
abbreviation (input) PCReg :: int where "PCReg \<equiv> 34"
abbreviation (input) NextPCReg :: int where "NextPCReg \<equiv> 35"
abbreviation (input) PrevPCReg :: int where "PrevPCReg \<equiv> 36"
abbreviation (input) LoadReg :: int where "LoadReg \<equiv> 37"
abbreviation (input) LoadValueReg :: int where "LoadValueReg \<equiv> 38"
abbreviation (input) BadVAddrReg :: int where "BadVAddrReg \<equiv> 39"
definition NumTotalRegs :: int where "NumTotalRegs = 40"

record translation_entry =
  virtualPage :: int
  physicalPage :: int
  valid :: bool
  readOnly :: bool
  use :: bool
  dirty :: bool

text \<open>\<open>status\<close> is the field of the object \<open>interrupt\<close> that the CPU switches on a trap;
  \<open>totalcnt\<close>, \<open>misscnt\<close> and \<open>Index\<close> are the global counters of translate.cc and exception.cc.\<close>

datatype MachineStatus = IdleMode | SystemMode | UserMode

record machine =
  registers :: "32 word list"
  mainMemory :: "byte list"
  tlb :: "translation_entry list option"
  pageTable :: "translation_entry list option"
  pageTableSize :: int
  frame_bitmap :: "32 word"
  totalcnt :: int
  misscnt :: int
  Index :: int
  status :: MachineStatus

type_synonym 'a kernel = "ExceptionType \<Rightarrow> 'a machine_scheme \<Rightarrow> 'a machine_scheme res"

text \<open>The constructor, in the configuration \<open>USE_TLB\<close>, \<open>USE_BITMAP\<close>. What \<open>new\<close> leaves in the
  fields of a TLB entry besides \<open>valid\<close> is \<open>junk\<close>.\<close>

definition Machine_new :: "(nat \<Rightarrow> translation_entry) \<Rightarrow> 'a machine_scheme \<Rightarrow> 'a machine_scheme" where
  "Machine_new junk s = s\<lparr>registers := replicate (nat NumTotalRegs) 0,
     mainMemory := replicate (nat MemorySize) 0,
     tlb := Some (map (\<lambda>i. (junk i)\<lparr>valid := False\<rparr>) [0..<nat TLBSize]),
     pageTable := None, frame_bitmap := 0\<rparr>"

section \<open>Registers\<close>

definition ReadRegister :: "'a machine_scheme \<Rightarrow> int \<Rightarrow> 32 word res" where
  "ReadRegister s num = rbind (ASSERT (num \<ge> 0 \<and> num < NumTotalRegs)) (\<lambda>_. aget (registers s) num)"

definition WriteRegister :: "'a machine_scheme \<Rightarrow> int \<Rightarrow> 32 word \<Rightarrow> 'a machine_scheme res" where
  "WriteRegister s num value =
     rbind (ASSERT (num \<ge> 0 \<and> num < NumTotalRegs)) (\<lambda>_.
     rbind (aset (registers s) num value) (\<lambda>rs. Inr (s\<lparr>registers := rs\<rparr>)))"

text \<open>\<open>registers[i]\<close> and \<open>registers[i] = v\<close> inside the machine.\<close>

definition reg :: "'a machine_scheme \<Rightarrow> int \<Rightarrow> 32 word res" where
  "reg s i = aget (registers s) i"

definition set_reg :: "'a machine_scheme \<Rightarrow> int \<Rightarrow> 32 word \<Rightarrow> 'a machine_scheme res" where
  "set_reg s i v = rbind (aset (registers s) i v) (\<lambda>rs. Inr (s\<lparr>registers := rs\<rparr>))"

definition DelayedLoad :: "'a machine_scheme \<Rightarrow> int \<Rightarrow> 32 word \<Rightarrow> 'a machine_scheme res" where
  "DelayedLoad s nextReg nextValue =
     rbind (reg s LoadReg) (\<lambda>lr.
     rbind (reg s LoadValueReg) (\<lambda>lv.
     rbind (set_reg s (sint lr) lv) (\<lambda>s.
     rbind (set_reg s LoadReg (word_of_int nextReg)) (\<lambda>s.
     rbind (set_reg s LoadValueReg nextValue) (\<lambda>s.
     set_reg s 0 0)))))"

definition RaiseException :: "'a kernel \<Rightarrow> 'a machine_scheme \<Rightarrow> ExceptionType \<Rightarrow> 32 word \<Rightarrow> 'a machine_scheme res" where
  "RaiseException h s which badVAddr =
     rbind (set_reg s BadVAddrReg badVAddr) (\<lambda>s.
     rbind (DelayedLoad s 0 0) (\<lambda>s.
     rbind (h which (s\<lparr>status := SystemMode\<rparr>)) (\<lambda>s.
     Inr (s\<lparr>status := UserMode\<rparr>))))"

section \<open>Translation\<close>

text \<open>The search of the TLB: \<open>for (entry = NULL, i = 0; i < TLBSize; i++)\<close>.\<close>

function tlb_search :: "translation_entry list \<Rightarrow> int \<Rightarrow> int \<Rightarrow> int option res" where
  "tlb_search t vpn i =
     (if i < TLBSize
      then rbind (aget t i) (\<lambda>e. if valid e \<and> u32 (virtualPage e) = vpn then Inr (Some i) else tlb_search t vpn (i + 1))
      else Inr None)"
  by pat_completeness auto
termination by (relation "measure (\<lambda>(t, vpn, i). nat (TLBSize - i))") auto

declare tlb_search.simps [simp del]

text \<open>What happens once the entry is found: the checks on the entry, then its use and dirty bits
  and the physical address.\<close>

definition access_entry :: "translation_entry \<Rightarrow> int \<Rightarrow> int \<Rightarrow> bool
    \<Rightarrow> (ExceptionType + (translation_entry \<times> int)) res" where
  "access_entry entry offset sz writing =
     (if readOnly entry \<and> writing then Inr (Inl ReadOnlyException)
      else let pageFrame = u32 (physicalPage entry) in
      if pageFrame \<ge> NumPhysPages then Inr (Inl BusErrorException)
      else let e = entry\<lparr>use := True\<rparr>; e = (if writing then e\<lparr>dirty := True\<rparr> else e);
               physAddr = pageFrame * PageSize + offset
           in rbind (ASSERT (physAddr \<ge> 0 \<and> physAddr + sz \<le> MemorySize)) (\<lambda>_. Inr (Inr (e, physAddr))))"

definition Translate :: "'a machine_scheme \<Rightarrow> 32 word \<Rightarrow> int \<Rightarrow> bool
    \<Rightarrow> (ExceptionType \<times> int \<times> 'a machine_scheme) res" where
  "Translate s0 virtAddr sz writing =
     (let s = s0\<lparr>totalcnt := totalcnt s0 + 1\<rparr> in
      if (sz = 4 \<and> virtAddr AND 3 \<noteq> 0) \<or> (sz = 2 \<and> virtAddr AND 1 \<noteq> 0)
      then Inr (AddressErrorException, 0, s)
      else
        rbind (ASSERT (tlb s \<noteq> None \<or> pageTable s \<noteq> None)) (\<lambda>_.
        let vpn = uint virtAddr div PageSize; offset = uint virtAddr mod PageSize in
        case tlb s of
          None \<Rightarrow>
            if vpn \<ge> pageTableSize s then Inr (AddressErrorException, 0, s)
            else (case pageTable s of None \<Rightarrow> Inl NullPointer | Some pt \<Rightarrow>
              rbind (aget pt vpn) (\<lambda>entry.
              if \<not> valid entry then Inr (PageFaultException, 0, s)
              else rbind (access_entry entry offset sz writing) (\<lambda>r.
              case r of Inl exc \<Rightarrow> Inr (exc, 0, s)
              | Inr (e, pa) \<Rightarrow> Inr (NoException, pa, s\<lparr>pageTable := Some (pt[nat vpn := e])\<rparr>))))
        | Some t \<Rightarrow>
            rbind (tlb_search t vpn 0) (\<lambda>found.
            case found of
              None \<Rightarrow> Inr (PageFaultException, 0, s)
            | Some i \<Rightarrow>
                rbind (aget t i) (\<lambda>entry.
                rbind (access_entry entry offset sz writing) (\<lambda>r.
                case r of Inl exc \<Rightarrow> Inr (exc, 0, s)
                | Inr (e, pa) \<Rightarrow> Inr (NoException, pa, s\<lparr>tlb := Some (t[nat i := e])\<rparr>))))))"

section \<open>Memory access\<close>

text \<open>The host is little endian, so \<open>WordToHost\<close> and the others are the identity, and a
  16- or 32-bit access reads and writes the bytes of main memory in that order.\<close>

definition WordToHost :: "32 word \<Rightarrow> 32 word" where "WordToHost w = w"
definition ShortToHost :: "16 word \<Rightarrow> 16 word" where "ShortToHost w = w"
definition WordToMachine :: "32 word \<Rightarrow> 32 word" where "WordToMachine w = WordToHost w"
definition ShortToMachine :: "16 word \<Rightarrow> 16 word" where "ShortToMachine w = ShortToHost w"

definition load8 :: "byte list \<Rightarrow> int \<Rightarrow> byte res" where
  "load8 m pa = aget m pa"

definition load16 :: "byte list \<Rightarrow> int \<Rightarrow> 16 word res" where
  "load16 m pa = rbind (aget m pa) (\<lambda>a. rbind (aget m (pa + 1)) (\<lambda>b.
     Inr (ucast a OR push_bit 8 (ucast b))))"

definition load32 :: "byte list \<Rightarrow> int \<Rightarrow> 32 word res" where
  "load32 m pa = rbind (aget m pa) (\<lambda>a. rbind (aget m (pa + 1)) (\<lambda>b.
     rbind (aget m (pa + 2)) (\<lambda>c. rbind (aget m (pa + 3)) (\<lambda>d.
     Inr (ucast a OR push_bit 8 (ucast b) OR push_bit 16 (ucast c) OR push_bit 24 (ucast d))))))"

definition store8 :: "byte list \<Rightarrow> int \<Rightarrow> byte \<Rightarrow> byte list res" where
  "store8 m pa v = aset m pa v"

definition store16 :: "byte list \<Rightarrow> int \<Rightarrow> 16 word \<Rightarrow> byte list res" where
  "store16 m pa v = rbind (aset m pa (ucast v)) (\<lambda>m. aset m (pa + 1) (ucast (drop_bit 8 v)))"

definition store32 :: "byte list \<Rightarrow> int \<Rightarrow> 32 word \<Rightarrow> byte list res" where
  "store32 m pa v = rbind (aset m pa (ucast v)) (\<lambda>m. rbind (aset m (pa + 1) (ucast (drop_bit 8 v))) (\<lambda>m.
     rbind (aset m (pa + 2) (ucast (drop_bit 16 v))) (\<lambda>m. aset m (pa + 3) (ucast (drop_bit 24 v)))))"

text \<open>\<open>ReadMem\<close> returns whether the read succeeded and the value; a failed translation counts as
  a miss and traps. A byte is a \<open>char\<close>, which is signed; a half word is unsigned.\<close>

definition ReadMem :: "'a kernel \<Rightarrow> 'a machine_scheme \<Rightarrow> 32 word \<Rightarrow> int \<Rightarrow> (bool \<times> 32 word \<times> 'a machine_scheme) res" where
  "ReadMem h s addr sz =
     rbind (Translate s addr sz False) (\<lambda>(exc, pa, s).
     if exc \<noteq> NoException then
       rbind (RaiseException h (s\<lparr>misscnt := misscnt s + 1\<rparr>) exc addr) (\<lambda>s. Inr (False, 0, s))
     else if sz = 1 then rbind (load8 (mainMemory s) pa) (\<lambda>v. Inr (True, scast v, s))
     else if sz = 2 then rbind (load16 (mainMemory s) pa) (\<lambda>v. Inr (True, ucast (ShortToHost v), s))
     else if sz = 4 then rbind (load32 (mainMemory s) pa) (\<lambda>v. Inr (True, WordToHost v, s))
     else Inl AssertFailed)"

definition WriteMem :: "'a kernel \<Rightarrow> 'a machine_scheme \<Rightarrow> 32 word \<Rightarrow> int \<Rightarrow> 32 word \<Rightarrow> (bool \<times> 'a machine_scheme) res" where
  "WriteMem h s addr sz value =
     rbind (Translate s addr sz True) (\<lambda>(exc, pa, s).
     if exc \<noteq> NoException then
       rbind (RaiseException h (s\<lparr>misscnt := misscnt s + 1\<rparr>) exc addr) (\<lambda>s. Inr (False, s))
     else if sz = 1 then
       rbind (store8 (mainMemory s) pa (ucast (value AND 0xff))) (\<lambda>m. Inr (True, s\<lparr>mainMemory := m\<rparr>))
     else if sz = 2 then
       rbind (store16 (mainMemory s) pa (ShortToMachine (ucast (value AND 0xffff)))) (\<lambda>m. Inr (True, s\<lparr>mainMemory := m\<rparr>))
     else if sz = 4 then
       rbind (store32 (mainMemory s) pa (WordToMachine value)) (\<lambda>m. Inr (True, s\<lparr>mainMemory := m\<rparr>))
     else Inl AssertFailed)"

section \<open>The machine in good order\<close>

text \<open>Register 0 holds 0, a pending delayed load goes to a general register, the memory and the
  register file have their sizes, and there is a TLB of four entries or a page table of the
  size it says.\<close>

definition tables_ok :: "translation_entry list option \<Rightarrow> translation_entry list option \<Rightarrow> int \<Rightarrow> bool" where
  "tables_ok ot opt n \<longleftrightarrow> (case ot of Some t \<Rightarrow> int (length t) = TLBSize
        | None \<Rightarrow> (\<exists>pt. opt = Some pt \<and> int (length pt) = n))"

definition machine_shape :: "'a machine_scheme \<Rightarrow> bool" where
  "machine_shape s \<longleftrightarrow> int (length (registers s)) = NumTotalRegs
     \<and> unat (registers s ! 37) < 32 \<and> int (length (mainMemory s)) = MemorySize
     \<and> tables_ok (tlb s) (pageTable s) (pageTableSize s)"

definition machine_ok :: "'a machine_scheme \<Rightarrow> bool" where
  "machine_ok s \<longleftrightarrow> machine_shape s \<and> registers s ! 0 = 0"

lemma machine_shapeD:
  assumes "machine_shape s"
  shows "length (registers s) = 40" "unat (registers s ! 37) < 32" "length (mainMemory s) = 4096"
  using assms by (simp_all add: machine_shape_def NumTotalRegs_def mem_consts)

lemma machine_okD:
  assumes "machine_ok s"
  shows "length (registers s) = 40" "registers s ! 0 = 0" "unat (registers s ! 37) < 32" "length (mainMemory s) = 4096"
    "machine_shape s"
  using assms by (simp_all add: machine_ok_def machine_shapeD)

lemma machine_ok_counters [simp]:
  "machine_ok (s\<lparr>totalcnt := n\<rparr>) = machine_ok s" "machine_ok (s\<lparr>misscnt := n\<rparr>) = machine_ok s"
  "machine_ok (s\<lparr>status := m\<rparr>) = machine_ok s" "machine_ok (s\<lparr>Index := n\<rparr>) = machine_ok s"
  "machine_ok (s\<lparr>frame_bitmap := b\<rparr>) = machine_ok s"
  by (simp_all add: machine_ok_def machine_shape_def)

section \<open>Registers\<close>

lemma reg_ok: "length (registers s) = 40 \<Longrightarrow> 0 \<le> i \<Longrightarrow> i < 40 \<Longrightarrow> reg s i = Inr (registers s ! nat i)"
  by (simp add: reg_def aget_ok)

lemma set_reg_ok: "length (registers s) = 40 \<Longrightarrow> 0 \<le> i \<Longrightarrow> i < 40 \<Longrightarrow>
    set_reg s i v = Inr (s\<lparr>registers := (registers s)[nat i := v]\<rparr>)"
  by (simp add: set_reg_def aset_ok)

lemma sint_small: "unat (w::32 word) < 32 \<Longrightarrow> sint w = int (unat w)"
proof -
  assume "unat w < 32"
  then have "uint w < 32" by (simp only: uint_nat)
  moreover have "- (2 ^ 31) \<le> uint w" by (rule order_trans [of _ 0]) simp_all
  ultimately have "sint w = uint w" by (simp add: sint_uint signed_take_bit_int_eq_self)
  then show "sint w = int (unat w)" by (simp only: uint_nat)
qed

text \<open>A delayed load completes the pending one, schedules the next, and keeps register 0 at 0.\<close>

lemma DelayedLoad_ok:
  assumes "machine_shape s" "0 \<le> r" "r < 32"
  shows "\<exists>s'. DelayedLoad s r v = Inr s' \<and> machine_ok s'
    \<and> s' = s\<lparr>registers := (registers s)[unat (registers s ! 37) := registers s ! 38, 37 := word_of_int r, 38 := v, 0 := 0]\<rparr>"
proof -
  note m = machine_shapeD [OF assms(1)]
  let ?k = "unat (registers s ! 37)"
  note k = m(2)
  have w: "set_reg s (sint (registers s ! 37)) x = Inr (s\<lparr>registers := (registers s)[?k := x]\<rparr>)" for x
  proof -
    have "set_reg s (int ?k) x = Inr (s\<lparr>registers := (registers s)[nat (int ?k) := x]\<rparr>)"
      by (rule set_reg_ok [OF m(1)]) (use k in linarith)+
    then show ?thesis unfolding sint_small [OF k] by (simp only: nat_int)
  qed
  have "uint (word_of_int r :: 32 word) = r" using assms(2,3) by (simp add: uint_word_of_int)
  then have u: "unat (word_of_int r :: 32 word) = nat r" by (simp only: unat_eq_nat_uint)
  have r: "DelayedLoad s r v = Inr (s\<lparr>registers := (registers s)[?k := registers s ! 38, 37 := word_of_int r, 38 := v, 0 := 0]\<rparr>)"
    using m k w by (simp add: DelayedLoad_def reg_ok set_reg_ok)
  have "machine_ok (s\<lparr>registers := (registers s)[?k := registers s ! 38, 37 := word_of_int r, 38 := v, 0 := 0]\<rparr>)"
    using assms m k u by (simp add: machine_ok_def machine_shape_def nat_less_iff)
  with r show ?thesis by blast
qed

section \<open>Translation\<close>

text \<open>Alignment on words.\<close>

lemma and_low_bits: "va AND 3 = 0 \<longleftrightarrow> uint (va::32 word) mod 4 = 0" "va AND 1 = 0 \<longleftrightarrow> uint (va::32 word) mod 2 = 0"
proof -
  have "uint (va AND 3) = uint va mod 4" "uint (va AND 1) = uint va mod 2"
    using take_bit_eq_mask [of 2 "uint va"] take_bit_eq_mask [of 1 "uint va"]
    by (simp_all add: uint_and take_bit_eq_mod mask_eq_exp_minus_1)
  then show "va AND 3 = 0 \<longleftrightarrow> uint (va::32 word) mod 4 = 0" "va AND 1 = 0 \<longleftrightarrow> uint (va::32 word) mod 2 = 0"
    by (simp_all only: uint_0_iff [symmetric])
qed

definition aligned :: "32 word \<Rightarrow> int \<Rightarrow> bool" where
  "aligned va sz \<longleftrightarrow> \<not> ((sz = 4 \<and> va AND 3 \<noteq> 0) \<or> (sz = 2 \<and> va AND 1 \<noteq> 0))"

lemma aligned_offset:
  assumes "aligned va sz" "sz \<in> {1, 2, 4}"
  shows "uint va mod PageSize + sz \<le> PageSize" "uint va mod sz = 0"
proof -
  show a: "uint va mod sz = 0" using assms by (auto simp: aligned_def and_low_bits)
  show "uint va mod PageSize + sz \<le> PageSize" using a assms(2) unfolding mem_consts by safe presburger+
qed

text \<open>The position the TLB search finds: the first valid entry for the page.\<close>

definition tlb_hit :: "translation_entry list \<Rightarrow> int \<Rightarrow> int \<Rightarrow> bool" where
  "tlb_hit t vpn i \<longleftrightarrow> 0 \<le> i \<and> i < int (length t) \<and> valid (t ! nat i) \<and> u32 (virtualPage (t ! nat i)) = vpn"

lemma tlb_search_spec:
  "int (length t) = TLBSize \<Longrightarrow> 0 \<le> i \<Longrightarrow> \<exists>r. tlb_search t vpn i = Inr r \<and>
   (case r of None \<Rightarrow> (\<forall>j. i \<le> j \<longrightarrow> \<not> tlb_hit t vpn j)
    | Some k \<Rightarrow> i \<le> k \<and> tlb_hit t vpn k \<and> (\<forall>j. i \<le> j \<and> j < k \<longrightarrow> \<not> tlb_hit t vpn j))"
proof (induction t vpn i rule: tlb_search.induct)
  case (1 t vpn i)
  show ?case
  proof (cases "i < TLBSize")
    case False
    then show ?thesis using "1.prems" by (simp add: tlb_search.simps [of t] tlb_hit_def)
  next
    case lt: True
    then have g: "aget t i = Inr (t ! nat i)" using "1.prems" by (simp add: aget_ok)
    let ?e = "t ! nat i"
    show ?thesis
    proof (cases "valid ?e \<and> u32 (virtualPage ?e) = vpn")
      case True
      then have "tlb_hit t vpn i" using lt "1.prems" by (simp add: tlb_hit_def)
      moreover have "tlb_search t vpn i = Inr (Some i)" using True lt g by (simp add: tlb_search.simps [of t])
      ultimately show ?thesis by auto
    next
      case False
      then have no: "\<not> tlb_hit t vpn i" by (auto simp: tlb_hit_def)
      from "1.IH" [OF lt g False] "1.prems" obtain r where r: "tlb_search t vpn (i + 1) = Inr r"
        "case r of None \<Rightarrow> (\<forall>j. i + 1 \<le> j \<longrightarrow> \<not> tlb_hit t vpn j)
    | Some k \<Rightarrow> i + 1 \<le> k \<and> tlb_hit t vpn k \<and> (\<forall>j. i + 1 \<le> j \<and> j < k \<longrightarrow> \<not> tlb_hit t vpn j)" by auto
      have st: "i \<le> j \<longleftrightarrow> j = i \<or> i + 1 \<le> j" for j by auto
      have "tlb_search t vpn i = Inr r" using lt g False r(1) by (auto simp: tlb_search.simps [of t])
      then show ?thesis using r(2) no by (auto simp: st split: option.splits)
    qed
  qed
qed

lemma access_entry_ok:
  assumes "0 \<le> off" "off + sz \<le> PageSize"
  shows "\<exists>r. access_entry e off sz w = Inr r \<and>
    (case r of Inl x \<Rightarrow> x \<in> {ReadOnlyException, BusErrorException}
     | Inr (e', pa) \<Rightarrow> pa = u32 (physicalPage e) * PageSize + off \<and> 0 \<le> pa \<and> pa + sz \<le> MemorySize
         \<and> (\<not> readOnly e \<or> \<not> w) \<and> e' = e\<lparr>use := True, dirty := dirty e \<or> w\<rparr>)"
proof -
  have p: "0 \<le> u32 (physicalPage e)" by (simp add: u32_def)
  have "u32 (physicalPage e) * 128 + 128 \<le> 4096" if "u32 (physicalPage e) < 32" using that by simp
  then show ?thesis using assms p
    by (auto simp: access_entry_def mem_consts Let_def)
qed

text \<open>The page table entry or TLB entry that translates a page, when there is one.\<close>

definition entry_for :: "'a machine_scheme \<Rightarrow> int \<Rightarrow> translation_entry option" where
  "entry_for s vpn = (case tlb s of
       Some t \<Rightarrow> (case tlb_search t vpn 0 of Inr (Some i) \<Rightarrow> Some (t ! nat i) | _ \<Rightarrow> None)
     | None \<Rightarrow> (case pageTable s of
          Some pt \<Rightarrow> if vpn < pageTableSize s \<and> valid (pt ! nat vpn) then Some (pt ! nat vpn) else None
        | None \<Rightarrow> None))"

lemma Translate_total:
  assumes ok: "machine_ok s" and sz: "sz \<in> {1, 2, 4}"
  shows "\<exists>exc pa s'. Translate s va sz w = Inr (exc, pa, s') \<and> machine_ok s'
    \<and> registers s' = registers s \<and> mainMemory s' = mainMemory s \<and> exc \<noteq> SyscallException
    \<and> (exc = NoException \<longrightarrow> aligned va sz \<and> 0 \<le> pa \<and> pa + sz \<le> MemorySize
        \<and> (\<exists>e. entry_for s (uint va div PageSize) = Some e \<and> valid e \<and> (\<not> readOnly e \<or> \<not> w)
             \<and> pa = u32 (physicalPage e) * PageSize + uint va mod PageSize))"
proof (cases "aligned va sz")
  case False
  then show ?thesis using ok by (auto simp: Translate_def aligned_def Let_def)
next
  case al: True
  define vpn where "vpn = uint va div PageSize"
  define off where "off = uint va mod PageSize"
  have off: "0 \<le> off" "off + sz \<le> PageSize" using aligned_offset [OF al sz] by (simp_all add: off_def mem_consts)
  have vpn: "0 \<le> vpn" by (simp add: vpn_def mem_consts pos_imp_zdiv_nonneg_iff)
  have g: "\<not> ((sz = 4 \<and> va AND 3 \<noteq> 0) \<or> (sz = 2 \<and> va AND 1 \<noteq> 0))" using al by (simp add: aligned_def)
  show ?thesis
  proof (cases "tlb s")
    case None
    then obtain pt where pt: "pageTable s = Some pt" "int (length pt) = pageTableSize s"
      using ok by (auto simp: machine_ok_def machine_shape_def tables_ok_def)
    show ?thesis
    proof (cases "vpn < pageTableSize s \<and> valid (pt ! nat vpn)")
      case False
      then show ?thesis using g None pt ok vpn
        by (auto simp: Translate_def Let_def vpn_def [symmetric] aget_ok)
    next
      case True
      from access_entry_ok [OF off, of "pt ! nat vpn" w] obtain r where r: "access_entry (pt ! nat vpn) off sz w = Inr r"
        "case r of Inl x \<Rightarrow> x \<in> {ReadOnlyException, BusErrorException}
     | Inr (e', pa) \<Rightarrow> pa = u32 (physicalPage (pt ! nat vpn)) * PageSize + off \<and> 0 \<le> pa \<and> pa + sz \<le> MemorySize
         \<and> (\<not> readOnly (pt ! nat vpn) \<or> \<not> w) \<and> e' = (pt ! nat vpn)\<lparr>use := True, dirty := dirty (pt ! nat vpn) \<or> w\<rparr>" by blast
      show ?thesis using g None pt ok vpn True r al
        by (cases r) (auto simp: Translate_def Let_def vpn_def [symmetric] off_def [symmetric] aget_ok
            machine_ok_def machine_shape_def tables_ok_def entry_for_def)
    qed
  next
    case (Some t)
    then have t4: "int (length t) = TLBSize" using ok by (simp add: machine_ok_def machine_shape_def tables_ok_def)
    from tlb_search_spec [OF t4, of 0 vpn] obtain f where f: "tlb_search t vpn 0 = Inr f"
      "case f of None \<Rightarrow> True | Some k \<Rightarrow> tlb_hit t vpn k" by (auto split: option.splits)
    show ?thesis
    proof (cases f)
      case None
      then show ?thesis using g Some f ok by (auto simp: Translate_def Let_def vpn_def [symmetric])
    next
      case fi: (Some i)
      then have i: "0 \<le> i" "i < int (length t)" "valid (t ! nat i)" using f(2) by (auto simp: tlb_hit_def)
      from access_entry_ok [OF off, of "t ! nat i" w] obtain r where r: "access_entry (t ! nat i) off sz w = Inr r"
        "case r of Inl x \<Rightarrow> x \<in> {ReadOnlyException, BusErrorException}
     | Inr (e', pa) \<Rightarrow> pa = u32 (physicalPage (t ! nat i)) * PageSize + off \<and> 0 \<le> pa \<and> pa + sz \<le> MemorySize
         \<and> (\<not> readOnly (t ! nat i) \<or> \<not> w) \<and> e' = (t ! nat i)\<lparr>use := True, dirty := dirty (t ! nat i) \<or> w\<rparr>" by blast
      show ?thesis using g Some fi f(1) ok i r al
        by (cases r) (auto simp: Translate_def Let_def vpn_def [symmetric] off_def [symmetric] aget_ok
            machine_ok_def machine_shape_def tables_ok_def entry_for_def)
    qed
  qed
qed

lemma access_entry_exc: "access_entry e off sz w \<noteq> Inr (Inl NoException)"
  by (auto simp: access_entry_def Let_def rbind_eq_Inr)

text \<open>What a successful translation changes: the counter, and the use and dirty bits of the one
  entry it went through. With a TLB the page table is not touched.\<close>

lemma Translate_success:
  assumes "machine_ok s" "Translate s va sz w = Inr (NoException, pa, s')"
  defines "vpn \<equiv> uint va div PageSize" and "off \<equiv> uint va mod PageSize"
  shows "aligned va sz \<and> (case tlb s of
      Some t \<Rightarrow> \<exists>i e'. tlb_search t vpn 0 = Inr (Some i) \<and> 0 \<le> i \<and> i < int (length t)
        \<and> access_entry (t ! nat i) off sz w = Inr (Inr (e', pa))
        \<and> s' = s\<lparr>totalcnt := totalcnt s + 1, tlb := Some (t[nat i := e'])\<rparr>
    | None \<Rightarrow> \<exists>pt e'. pageTable s = Some pt \<and> 0 \<le> vpn \<and> vpn < pageTableSize s \<and> valid (pt ! nat vpn)
        \<and> access_entry (pt ! nat vpn) off sz w = Inr (Inr (e', pa))
        \<and> s' = s\<lparr>totalcnt := totalcnt s + 1, pageTable := Some (pt[nat vpn := e'])\<rparr>)"
proof (cases "aligned va sz")
  case False
  then have g: "(sz = 4 \<and> va AND 3 \<noteq> 0) \<or> (sz = 2 \<and> va AND 1 \<noteq> 0)" by (simp add: aligned_def)
  have "Translate s va sz w = Inr (AddressErrorException, 0, s\<lparr>totalcnt := totalcnt s + 1\<rparr>)"
    unfolding Translate_def Let_def using g by simp
  with assms(2) show ?thesis by simp
next
  case True
  then have g: "\<not> ((sz = 4 \<and> va AND 3 \<noteq> 0) \<or> (sz = 2 \<and> va AND 1 \<noteq> 0))" by (simp add: aligned_def)
  have vp: "0 \<le> vpn" by (simp add: vpn_def mem_consts pos_imp_zdiv_nonneg_iff)
  have ne: "tlb s \<noteq> None \<or> pageTable s \<noteq> None" using assms(1) by (auto simp: machine_ok_def machine_shape_def tables_ok_def split: option.splits)
  show ?thesis
  proof (cases "tlb s")
    case (Some t)
    then show ?thesis using assms(2) True g ne
      by (auto simp: Translate_def Let_def vpn_def [symmetric] off_def [symmetric] aget_Inr access_entry_exc
          elim!: rbind_InrE split: option.split_asm sum.split_asm prod.split_asm)
  next
    case None
    then show ?thesis using assms(2) True g ne vp
      by (auto simp: Translate_def Let_def vpn_def [symmetric] off_def [symmetric] aget_Inr access_entry_exc
          elim!: rbind_InrE split: option.split_asm sum.split_asm prod.split_asm if_split_asm)
  qed
qed

lemma tlb_search_update:
  "0 \<le> i \<Longrightarrow> i < int (length t) \<Longrightarrow> valid e = valid (t ! nat i) \<Longrightarrow> virtualPage e = virtualPage (t ! nat i) \<Longrightarrow>
   0 \<le> j \<Longrightarrow> tlb_search (t[nat i := e]) vpn j = tlb_search t vpn j"
proof (induction t vpn j rule: tlb_search.induct)
  case (1 t vpn j)
  show ?case
  proof (cases "j < TLBSize \<and> j < int (length t)")
    case True
    let ?e = "t ! nat j"
    have g: "aget t j = Inr ?e" using True "1.prems" by (simp add: aget_ok)
    have g': "\<exists>f. aget (t[nat i := e]) j = Inr f \<and> valid f = valid ?e \<and> virtualPage f = virtualPage ?e"
      using True "1.prems" by (cases "i = j") (simp_all add: aget_ok nth_list_update)
    then obtain f where f: "aget (t[nat i := e]) j = Inr f" "valid f = valid ?e" "virtualPage f = virtualPage ?e" by blast
    show ?thesis
    proof (cases "valid ?e \<and> u32 (virtualPage ?e) = vpn")
      case hit: True
      then show ?thesis using True g f by (simp add: tlb_search.simps [of _ _ j])
    next
      case False
      have "tlb_search (t[nat i := e]) vpn (j + 1) = tlb_search t vpn (j + 1)"
        using True by (intro "1.IH" [OF _ g False]) (use "1.prems" in simp_all)
      then show ?thesis using True g f False by (auto simp: tlb_search.simps [of _ _ j])
    qed
  next
    case False
    then show ?thesis using "1.prems" by (auto simp: tlb_search.simps [of _ _ j] aget_def)
  qed
qed

lemma access_again:
  assumes "access_entry e off sz w = Inr (Inr (e', pa))"
  shows "\<exists>e''. access_entry e' off sz False = Inr (Inr (e'', pa))" "valid e' = valid e" "virtualPage e' = virtualPage e"
  using assms by (auto simp: access_entry_def Let_def rbind_eq_Inr split: if_splits)

text \<open>A page that could be accessed can be read right after, at the same physical address.\<close>

lemma Translate_again:
  assumes ok: "machine_ok s" and t: "Translate s va sz w = Inr (NoException, pa, s1)"
  shows "\<exists>s2. Translate (s1\<lparr>mainMemory := m\<rparr>) va sz False = Inr (NoException, pa, s2) \<and> mainMemory s2 = m"
proof -
  define vpn where "vpn = uint va div PageSize"
  define off where "off = uint va mod PageSize"
  note S = Translate_success [OF ok t, folded vpn_def off_def]
  have g: "\<not> ((sz = 4 \<and> va AND 3 \<noteq> 0) \<or> (sz = 2 \<and> va AND 1 \<noteq> 0))" using S by (simp add: aligned_def)
  show ?thesis
  proof (cases "tlb s")
    case (Some t)
    with S obtain i e' where i: "tlb_search t vpn 0 = Inr (Some i)" "0 \<le> i" "i < int (length t)"
      and a: "access_entry (t ! nat i) off sz w = Inr (Inr (e', pa))"
      and s1: "s1 = s\<lparr>totalcnt := totalcnt s + 1, tlb := Some (t[nat i := e'])\<rparr>" by auto
    from access_again [OF a] obtain e'' where b: "access_entry e' off sz False = Inr (Inr (e'', pa))"
      and v: "valid e' = valid (t ! nat i)" "virtualPage e' = virtualPage (t ! nat i)" by blast
    have "tlb_search (t[nat i := e']) vpn 0 = Inr (Some i)" using tlb_search_update [OF i(2,3) v, of 0] i(1) by simp
    then show ?thesis using g i b s1
      by (simp add: Translate_def Let_def vpn_def [symmetric] off_def [symmetric] aget_ok)
  next
    case None
    with S obtain pt e' where p: "pageTable s = Some pt" "0 \<le> vpn" "vpn < pageTableSize s" "valid (pt ! nat vpn)"
      and a: "access_entry (pt ! nat vpn) off sz w = Inr (Inr (e', pa))"
      and s1: "s1 = s\<lparr>totalcnt := totalcnt s + 1, pageTable := Some (pt[nat vpn := e'])\<rparr>" by auto
    from access_again [OF a] obtain e'' where b: "access_entry e' off sz False = Inr (Inr (e'', pa))"
      and v: "valid e' = valid (pt ! nat vpn)" by blast
    have "int (length pt) = pageTableSize s" using ok None p(1) by (simp add: machine_ok_def machine_shape_def tables_ok_def)
    then show ?thesis using g p b s1 v None
      by (simp add: Translate_def Let_def vpn_def [symmetric] off_def [symmetric] aget_ok)
  qed
qed

section \<open>Reading back what was written\<close>

lemma load8_store8: "0 \<le> pa \<Longrightarrow> pa < int (length m) \<Longrightarrow>
    \<exists>m'. store8 m pa v = Inr m' \<and> load8 m' pa = Inr v \<and> length m' = length m"
  by (simp add: store8_def load8_def aset_ok aget_ok)

lemma word16_bytes: "ucast (ucast v :: byte) OR push_bit 8 (ucast (ucast (drop_bit 8 v) :: byte)) = (v :: 16 word)"
  by (rule bit_word_eqI) (auto simp: bit_simps)

lemma word32_bytes: "ucast (ucast v :: byte) OR push_bit 8 (ucast (ucast (drop_bit 8 v) :: byte))
    OR push_bit 16 (ucast (ucast (drop_bit 16 v) :: byte)) OR push_bit 24 (ucast (ucast (drop_bit 24 v) :: byte)) = (v :: 32 word)"
proof (rule bit_word_eqI)
  fix n assume "n < LENGTH(32)"
  then consider "n < 8" | "8 \<le> n" "n < 16" | "16 \<le> n" "n < 24" | "24 \<le> n" "n < 32" by fastforce
  then show "bit (ucast (ucast v :: byte) OR push_bit 8 (ucast (ucast (drop_bit 8 v) :: byte))
    OR push_bit 16 (ucast (ucast (drop_bit 16 v) :: byte)) OR push_bit 24 (ucast (ucast (drop_bit 24 v) :: byte)) :: 32 word) n = bit v n"
    by cases (auto simp: bit_simps)
qed

lemma load16_store16: "0 \<le> pa \<Longrightarrow> pa + 2 \<le> int (length m) \<Longrightarrow>
    \<exists>m'. store16 m pa v = Inr m' \<and> load16 m' pa = Inr v \<and> length m' = length m"
  by (simp add: store16_def load16_def aset_ok aget_ok nat_add_distrib word16_bytes)

lemma load32_store32: "0 \<le> pa \<Longrightarrow> pa + 4 \<le> int (length m) \<Longrightarrow>
    \<exists>m'. store32 m pa v = Inr m' \<and> load32 m' pa = Inr v \<and> length m' = length m"
  by (simp add: store32_def load32_def aset_ok aget_ok nat_add_distrib word32_bytes)

text \<open>What a read of \<open>sz\<close> bytes returns of a word written with the same size.\<close>

definition narrow :: "int \<Rightarrow> 32 word \<Rightarrow> 32 word" where
  "narrow sz v = (if sz = 1 then scast (ucast v :: byte) else if sz = 2 then ucast (ucast v :: 16 word) else v)"

lemma mask_byte: "ucast (v AND 0xff :: 32 word) = (ucast v :: byte)" "ucast (v AND 0xffff :: 32 word) = (ucast v :: 16 word)"
proof -
  have m: "(0xff :: 32 word) = mask 8" "(0xffff :: 32 word) = mask 16" by (simp_all add: mask_eq_exp_minus_1)
  show "ucast (v AND 0xff :: 32 word) = (ucast v :: byte)" "ucast (v AND 0xffff :: 32 word) = (ucast v :: 16 word)"
    unfolding m by (auto intro!: bit_word_eqI simp: bit_simps)
qed

lemma WriteMem_ReadMem:
  assumes ok: "machine_ok s" and sz: "sz \<in> {1, 2, 4}" and w: "WriteMem h s va sz v = Inr (True, s1)"
  shows "\<exists>s2. ReadMem h s1 va sz = Inr (True, narrow sz v, s2)"
proof -
  from Translate_total [OF ok sz, of va True] obtain exc pa s' where t: "Translate s va sz True = Inr (exc, pa, s')"
    and m: "mainMemory s' = mainMemory s" and r: "exc = NoException \<longrightarrow> 0 \<le> pa \<and> pa + sz \<le> MemorySize" by blast
  have n: "exc = NoException" using w t by (auto simp: WriteMem_def elim!: rbind_InrE split: if_split_asm)
  have len: "length (mainMemory s') = 4096" using m machine_okD(4) [OF ok] by simp
  have rng: "0 \<le> pa" "pa + sz \<le> int (length (mainMemory s'))" using r n len by (simp_all add: mem_consts)
  consider "sz = 1" | "sz = 2" | "sz = 4" using sz by auto
  then show ?thesis
  proof cases
    case 1
    then obtain m' where m': "store8 (mainMemory s') pa (ucast v) = Inr m'" "load8 m' pa = Inr (ucast v)"
      using load8_store8 [of pa "mainMemory s'" "ucast v"] rng by auto
    have s1: "s1 = s'\<lparr>mainMemory := m'\<rparr>" using w t n 1 m' by (simp add: WriteMem_def mask_byte)
    from Translate_again [OF ok t [unfolded n], of m'] m' 1 s1 show ?thesis
      by (auto simp: ReadMem_def narrow_def)
  next
    case 2
    then obtain m' where m': "store16 (mainMemory s') pa (ucast v) = Inr m'" "load16 m' pa = Inr (ucast v)"
      using load16_store16 [of pa "mainMemory s'" "ucast v"] rng by auto
    have s1: "s1 = s'\<lparr>mainMemory := m'\<rparr>" using w t n 2 m'
      by (simp add: WriteMem_def mask_byte ShortToMachine_def ShortToHost_def)
    from Translate_again [OF ok t [unfolded n], of m'] m' 2 s1 show ?thesis
      by (auto simp: ReadMem_def narrow_def ShortToHost_def)
  next
    case 3
    then obtain m' where m': "store32 (mainMemory s') pa v = Inr m'" "load32 m' pa = Inr v"
      using load32_store32 [of pa "mainMemory s'" v] rng by auto
    have s1: "s1 = s'\<lparr>mainMemory := m'\<rparr>" using w t n 3 m'
      by (simp add: WriteMem_def WordToMachine_def WordToHost_def)
    from Translate_again [OF ok t [unfolded n], of m'] m' 3 s1 show ?thesis
      by (auto simp: ReadMem_def narrow_def WordToHost_def)
  qed
qed

section \<open>Accesses keep the machine in good order\<close>

text \<open>What the machine needs of the kernel behind a trap: it hands the machine back in good order.\<close>

definition kernel_keeps :: "'a kernel \<Rightarrow> bool" where
  "kernel_keeps h \<longleftrightarrow> (\<forall>which s s'. machine_ok s \<longrightarrow> h which s = Inr s' \<longrightarrow> machine_ok s')"

text \<open>The outcome \<open>m\<close> of a step: the state \<open>f\<close> finds in it is in good order, and a fault is one of
  the kernel's.\<close>

definition kept :: "'a kernel \<Rightarrow> ('b \<Rightarrow> 'a machine_scheme) \<Rightarrow> 'b res \<Rightarrow> bool" where
  "kept h f m \<longleftrightarrow> (case m of Inr x \<Rightarrow> machine_ok (f x) | Inl e \<Rightarrow> (\<exists>which s. h which s = Inl e))"

lemma kept_Inr [simp]: "kept h f (Inr x) = machine_ok (f x)"
  by (simp add: kept_def)

lemma kept_rbind: "kept h f m \<Longrightarrow> (\<And>x. m = Inr x \<Longrightarrow> machine_ok (f x) \<Longrightarrow> kept h g (k x)) \<Longrightarrow> kept h g (rbind m k)"
  by (cases m) (auto simp: kept_def)

lemma RaiseException_kept:
  assumes h: "kernel_keeps h" and ok: "machine_ok s"
  shows "kept h (\<lambda>s. s) (RaiseException h s which bad)"
proof -
  note m = machine_okD [OF ok]
  let ?s = "s\<lparr>registers := (registers s)[39 := bad]\<rparr>"
  have s: "set_reg s 39 bad = Inr ?s" using set_reg_ok [OF m(1)] by simp
  have ok1: "machine_ok ?s" using ok m by (simp add: machine_ok_def machine_shape_def)
  obtain s2 where d: "DelayedLoad ?s 0 0 = Inr s2" and ok2: "machine_ok s2"
    using DelayedLoad_ok [OF machine_okD(5) [OF ok1], of 0 0] by auto
  show ?thesis
  proof (cases "h which (s2\<lparr>status := SystemMode\<rparr>)")
    case (Inl e)
    then show ?thesis using s d by (auto simp: RaiseException_def kept_def)
  next
    case (Inr s3)
    moreover have "machine_ok (s2\<lparr>status := SystemMode\<rparr>)" using ok2 by simp
    ultimately have "machine_ok s3" using h unfolding kernel_keeps_def by blast
    with Inr show ?thesis using s d by (simp add: RaiseException_def)
  qed
qed

lemma store_length:
  "store8 m pa a = Inr m' \<Longrightarrow> length m' = length m"
  "store16 m pa b = Inr m' \<Longrightarrow> length m' = length m"
  "store32 m pa c = Inr m' \<Longrightarrow> length m' = length m"
  by (auto simp: store8_def store16_def store32_def aset_Inr elim!: rbind_InrE)

lemma ReadMem_kept:
  assumes h: "kernel_keeps h" and ok: "machine_ok s" and sz: "sz \<in> {1, 2, 4}"
  shows "kept h (\<lambda>(b, v, s). s) (ReadMem h s va sz)"
proof -
  from Translate_total [OF ok sz, of va False] obtain exc pa s1 where t: "Translate s va sz False = Inr (exc, pa, s1)"
    and ok1: "machine_ok s1" and r: "exc = NoException \<longrightarrow> 0 \<le> pa \<and> pa + sz \<le> MemorySize" by blast
  show ?thesis
  proof (cases "exc = NoException")
    case False
    have "kept h (\<lambda>s. s) (RaiseException h (s1\<lparr>misscnt := misscnt s1 + 1\<rparr>) exc va)"
      by (rule RaiseException_kept [OF h]) (simp add: ok1)
    then show ?thesis using t False by (auto simp: ReadMem_def intro: kept_rbind)
  next
    case True
    then show ?thesis using t r ok1 machine_okD(4) [OF ok1] sz
      by (auto simp: ReadMem_def load8_def load16_def load32_def aget_ok mem_consts)
  qed
qed

lemma WriteMem_kept:
  assumes h: "kernel_keeps h" and ok: "machine_ok s" and sz: "sz \<in> {1, 2, 4}"
  shows "kept h (\<lambda>(b, s). s) (WriteMem h s va sz v)"
proof -
  from Translate_total [OF ok sz, of va True] obtain exc pa s1 where t: "Translate s va sz True = Inr (exc, pa, s1)"
    and ok1: "machine_ok s1" and r: "exc = NoException \<longrightarrow> 0 \<le> pa \<and> pa + sz \<le> MemorySize" by blast
  have upd: "length m = length (mainMemory s1) \<Longrightarrow> machine_ok (s1\<lparr>mainMemory := m\<rparr>)" for m
    using ok1 by (simp add: machine_ok_def machine_shape_def)
  show ?thesis
  proof (cases "exc = NoException")
    case False
    have "kept h (\<lambda>s. s) (RaiseException h (s1\<lparr>misscnt := misscnt s1 + 1\<rparr>) exc va)"
      by (rule RaiseException_kept [OF h]) (simp add: ok1)
    then show ?thesis using t False by (auto simp: WriteMem_def intro: kept_rbind)
  next
    case True
    have len: "length (mainMemory s1) = 4096" using machine_okD(4) [OF ok1] .
    then have rng: "0 \<le> pa" "pa + sz \<le> int (length (mainMemory s1))" using r True by (simp_all add: mem_consts)
    consider "sz = 1" | "sz = 2" | "sz = 4" using sz by auto
    then show ?thesis
    proof cases
      case 1
      obtain m where "store8 (mainMemory s1) pa (ucast (v AND 0xff)) = Inr m" "length m = length (mainMemory s1)"
        using load8_store8 [of pa "mainMemory s1" "ucast (v AND 0xff)"] rng 1 by auto
      then show ?thesis using t True 1 upd by (simp add: WriteMem_def)
    next
      case 2
      obtain m where "store16 (mainMemory s1) pa (ShortToMachine (ucast (v AND 0xffff))) = Inr m" "length m = length (mainMemory s1)"
        using load16_store16 [of pa "mainMemory s1" "ShortToMachine (ucast (v AND 0xffff))"] rng 2 by auto
      then show ?thesis using t True 2 upd by (simp add: WriteMem_def)
    next
      case 3
      obtain m where "store32 (mainMemory s1) pa (WordToMachine v) = Inr m" "length m = length (mainMemory s1)"
        using load32_store32 [of pa "mainMemory s1" "WordToMachine v"] rng 3 by auto
      then show ?thesis using t True 3 upd by (simp add: WriteMem_def)
    qed
  qed
qed
end
