(* ===== verification/Mips.thy ===== *)
theory Mips
  imports Machine
begin

text \<open>
  The MIPS R2/3000 simulator (machine/mipssim.h, machine/mipssim.cc): the instruction tables and
  their decoder, the multiplication routine, and \<open>OneInstruction\<close> with its delayed loads, branch
  delay slots and traps. The switch of \<open>OneInstruction\<close> is translated in the order of its cases,
  in groups of a few cases each; every group passes what it does not handle to the next one, and
  the last is the switch's default, \<open>ASSERT(FALSE)\<close>.

  C++ \<open>int\<close> is \<open>32 word\<close>: \<open>+\<close> and \<open>-\<close> wrap around, \<open>>>\<close> of a signed value is
  \<open>signed_drop_bit\<close>, comparisons of signed values are on \<open>sint\<close>. The one operation that stops
  the host, \<open>INT_MIN / -1\<close>, is the fault \<open>UndefinedArith\<close>.
\<close>

section \<open>The instruction tables\<close>

abbreviation (input) OP_ADD :: int where "OP_ADD \<equiv> 1"
abbreviation (input) OP_ADDI :: int where "OP_ADDI \<equiv> 2"
abbreviation (input) OP_ADDIU :: int where "OP_ADDIU \<equiv> 3"
abbreviation (input) OP_ADDU :: int where "OP_ADDU \<equiv> 4"
abbreviation (input) OP_AND :: int where "OP_AND \<equiv> 5"
abbreviation (input) OP_ANDI :: int where "OP_ANDI \<equiv> 6"
abbreviation (input) OP_BEQ :: int where "OP_BEQ \<equiv> 7"
abbreviation (input) OP_BGEZ :: int where "OP_BGEZ \<equiv> 8"
abbreviation (input) OP_BGEZAL :: int where "OP_BGEZAL \<equiv> 9"
abbreviation (input) OP_BGTZ :: int where "OP_BGTZ \<equiv> 10"
abbreviation (input) OP_BLEZ :: int where "OP_BLEZ \<equiv> 11"
abbreviation (input) OP_BLTZ :: int where "OP_BLTZ \<equiv> 12"
abbreviation (input) OP_BLTZAL :: int where "OP_BLTZAL \<equiv> 13"
abbreviation (input) OP_BNE :: int where "OP_BNE \<equiv> 14"
abbreviation (input) OP_DIV :: int where "OP_DIV \<equiv> 16"
abbreviation (input) OP_DIVU :: int where "OP_DIVU \<equiv> 17"
abbreviation (input) OP_J :: int where "OP_J \<equiv> 18"
abbreviation (input) OP_JAL :: int where "OP_JAL \<equiv> 19"
abbreviation (input) OP_JALR :: int where "OP_JALR \<equiv> 20"
abbreviation (input) OP_JR :: int where "OP_JR \<equiv> 21"
abbreviation (input) OP_LB :: int where "OP_LB \<equiv> 22"
abbreviation (input) OP_LBU :: int where "OP_LBU \<equiv> 23"
abbreviation (input) OP_LH :: int where "OP_LH \<equiv> 24"
abbreviation (input) OP_LHU :: int where "OP_LHU \<equiv> 25"
abbreviation (input) OP_LUI :: int where "OP_LUI \<equiv> 26"
abbreviation (input) OP_LW :: int where "OP_LW \<equiv> 27"
abbreviation (input) OP_LWL :: int where "OP_LWL \<equiv> 28"
abbreviation (input) OP_LWR :: int where "OP_LWR \<equiv> 29"
abbreviation (input) OP_MFHI :: int where "OP_MFHI \<equiv> 31"
abbreviation (input) OP_MFLO :: int where "OP_MFLO \<equiv> 32"
abbreviation (input) OP_MTHI :: int where "OP_MTHI \<equiv> 34"
abbreviation (input) OP_MTLO :: int where "OP_MTLO \<equiv> 35"
abbreviation (input) OP_MULT :: int where "OP_MULT \<equiv> 36"
abbreviation (input) OP_MULTU :: int where "OP_MULTU \<equiv> 37"
abbreviation (input) OP_NOR :: int where "OP_NOR \<equiv> 38"
abbreviation (input) OP_OR :: int where "OP_OR \<equiv> 39"
abbreviation (input) OP_ORI :: int where "OP_ORI \<equiv> 40"
abbreviation (input) OP_RFE :: int where "OP_RFE \<equiv> 41"
abbreviation (input) OP_SB :: int where "OP_SB \<equiv> 42"
abbreviation (input) OP_SH :: int where "OP_SH \<equiv> 43"
abbreviation (input) OP_SLL :: int where "OP_SLL \<equiv> 44"
abbreviation (input) OP_SLLV :: int where "OP_SLLV \<equiv> 45"
abbreviation (input) OP_SLT :: int where "OP_SLT \<equiv> 46"
abbreviation (input) OP_SLTI :: int where "OP_SLTI \<equiv> 47"
abbreviation (input) OP_SLTIU :: int where "OP_SLTIU \<equiv> 48"
abbreviation (input) OP_SLTU :: int where "OP_SLTU \<equiv> 49"
abbreviation (input) OP_SRA :: int where "OP_SRA \<equiv> 50"
abbreviation (input) OP_SRAV :: int where "OP_SRAV \<equiv> 51"
abbreviation (input) OP_SRL :: int where "OP_SRL \<equiv> 52"
abbreviation (input) OP_SRLV :: int where "OP_SRLV \<equiv> 53"
abbreviation (input) OP_SUB :: int where "OP_SUB \<equiv> 54"
abbreviation (input) OP_SUBU :: int where "OP_SUBU \<equiv> 55"
abbreviation (input) OP_SW :: int where "OP_SW \<equiv> 56"
abbreviation (input) OP_SWL :: int where "OP_SWL \<equiv> 57"
abbreviation (input) OP_SWR :: int where "OP_SWR \<equiv> 58"
abbreviation (input) OP_XOR :: int where "OP_XOR \<equiv> 59"
abbreviation (input) OP_XORI :: int where "OP_XORI \<equiv> 60"
abbreviation (input) OP_SYSCALL :: int where "OP_SYSCALL \<equiv> 61"
abbreviation (input) OP_UNIMP :: int where "OP_UNIMP \<equiv> 62"
abbreviation (input) OP_RES :: int where "OP_RES \<equiv> 63"
abbreviation (input) MaxOpcode :: int where "MaxOpcode \<equiv> 63"
abbreviation (input) SPECIAL :: int where "SPECIAL \<equiv> 100"
abbreviation (input) BCOND :: int where "BCOND \<equiv> 101"
abbreviation (input) SIGN_BIT :: "32 word" where "SIGN_BIT \<equiv> 0x80000000"
abbreviation (input) R31 :: int where "R31 \<equiv> 31"

datatype InstrFormat = IFMT | JFMT | RFMT

definition opTable :: "(int \<times> InstrFormat) list" where
  "opTable = [
   (SPECIAL, RFMT), (BCOND, IFMT), (OP_J, JFMT), (OP_JAL, JFMT),
   (OP_BEQ, IFMT), (OP_BNE, IFMT), (OP_BLEZ, IFMT), (OP_BGTZ, IFMT),
   (OP_ADDI, IFMT), (OP_ADDIU, IFMT), (OP_SLTI, IFMT), (OP_SLTIU, IFMT),
   (OP_ANDI, IFMT), (OP_ORI, IFMT), (OP_XORI, IFMT), (OP_LUI, IFMT),
   (OP_UNIMP, IFMT), (OP_UNIMP, IFMT), (OP_UNIMP, IFMT), (OP_UNIMP, IFMT),
   (OP_RES, IFMT), (OP_RES, IFMT), (OP_RES, IFMT), (OP_RES, IFMT),
   (OP_RES, IFMT), (OP_RES, IFMT), (OP_RES, IFMT), (OP_RES, IFMT),
   (OP_RES, IFMT), (OP_RES, IFMT), (OP_RES, IFMT), (OP_RES, IFMT),
   (OP_LB, IFMT), (OP_LH, IFMT), (OP_LWL, IFMT), (OP_LW, IFMT),
   (OP_LBU, IFMT), (OP_LHU, IFMT), (OP_LWR, IFMT), (OP_RES, IFMT),
   (OP_SB, IFMT), (OP_SH, IFMT), (OP_SWL, IFMT), (OP_SW, IFMT),
   (OP_RES, IFMT), (OP_RES, IFMT), (OP_SWR, IFMT), (OP_RES, IFMT),
   (OP_UNIMP, IFMT), (OP_UNIMP, IFMT), (OP_UNIMP, IFMT), (OP_UNIMP, IFMT),
   (OP_RES, IFMT), (OP_RES, IFMT), (OP_RES, IFMT), (OP_RES, IFMT),
   (OP_UNIMP, IFMT), (OP_UNIMP, IFMT), (OP_UNIMP, IFMT), (OP_UNIMP, IFMT),
   (OP_RES, IFMT), (OP_RES, IFMT), (OP_RES, IFMT), (OP_RES, IFMT)]"

definition specialTable :: "int list" where
  "specialTable = [
   OP_SLL, OP_RES, OP_SRL, OP_SRA, OP_SLLV, OP_RES, OP_SRLV, OP_SRAV,
   OP_JR, OP_JALR, OP_RES, OP_RES, OP_SYSCALL, OP_UNIMP, OP_RES, OP_RES,
   OP_MFHI, OP_MTHI, OP_MFLO, OP_MTLO, OP_RES, OP_RES, OP_RES, OP_RES,
   OP_MULT, OP_MULTU, OP_DIV, OP_DIVU, OP_RES, OP_RES, OP_RES, OP_RES,
   OP_ADD, OP_ADDU, OP_SUB, OP_SUBU, OP_AND, OP_OR, OP_XOR, OP_NOR,
   OP_RES, OP_RES, OP_SLT, OP_SLTU, OP_RES, OP_RES, OP_RES, OP_RES,
   OP_RES, OP_RES, OP_RES, OP_RES, OP_RES, OP_RES, OP_RES, OP_RES,
   OP_RES, OP_RES, OP_RES, OP_RES, OP_RES, OP_RES, OP_RES, OP_RES]"

text \<open>The mnemonics and operands, for the trace of executed instructions.\<close>

datatype RegType = NONE | RS | RT | RD | EXTRA

definition opStrings :: "(string \<times> RegType list) list" where
  "opStrings = [
   (''Shouldn'' @ [CHR 0x27] @ ''t happen'', [NONE, NONE, NONE]),
   (''ADD r%d,r%d,r%d'', [RD, RS, RT]),
   (''ADDI r%d,r%d,%d'', [RT, RS, EXTRA]),
   (''ADDIU r%d,r%d,%d'', [RT, RS, EXTRA]),
   (''ADDU r%d,r%d,r%d'', [RD, RS, RT]),
   (''AND r%d,r%d,r%d'', [RD, RS, RT]),
   (''ANDI r%d,r%d,%d'', [RT, RS, EXTRA]),
   (''BEQ r%d,r%d,%d'', [RS, RT, EXTRA]),
   (''BGEZ r%d,%d'', [RS, EXTRA, NONE]),
   (''BGEZAL r%d,%d'', [RS, EXTRA, NONE]),
   (''BGTZ r%d,%d'', [RS, EXTRA, NONE]),
   (''BLEZ r%d,%d'', [RS, EXTRA, NONE]),
   (''BLTZ r%d,%d'', [RS, EXTRA, NONE]),
   (''BLTZAL r%d,%d'', [RS, EXTRA, NONE]),
   (''BNE r%d,r%d,%d'', [RS, RT, EXTRA]),
   (''Shouldn'' @ [CHR 0x27] @ ''t happen'', [NONE, NONE, NONE]),
   (''DIV r%d,r%d'', [RS, RT, NONE]),
   (''DIVU r%d,r%d'', [RS, RT, NONE]),
   (''J %d'', [EXTRA, NONE, NONE]),
   (''JAL %d'', [EXTRA, NONE, NONE]),
   (''JALR r%d,r%d'', [RD, RS, NONE]),
   (''JR r%d,r%d'', [RD, RS, NONE]),
   (''LB r%d,%d(r%d)'', [RT, EXTRA, RS]),
   (''LBU r%d,%d(r%d)'', [RT, EXTRA, RS]),
   (''LH r%d,%d(r%d)'', [RT, EXTRA, RS]),
   (''LHU r%d,%d(r%d)'', [RT, EXTRA, RS]),
   (''LUI r%d,%d'', [RT, EXTRA, NONE]),
   (''LW r%d,%d(r%d)'', [RT, EXTRA, RS]),
   (''LWL r%d,%d(r%d)'', [RT, EXTRA, RS]),
   (''LWR r%d,%d(r%d)'', [RT, EXTRA, RS]),
   (''Shouldn'' @ [CHR 0x27] @ ''t happen'', [NONE, NONE, NONE]),
   (''MFHI r%d'', [RD, NONE, NONE]),
   (''MFLO r%d'', [RD, NONE, NONE]),
   (''Shouldn'' @ [CHR 0x27] @ ''t happen'', [NONE, NONE, NONE]),
   (''MTHI r%d'', [RS, NONE, NONE]),
   (''MTLO r%d'', [RS, NONE, NONE]),
   (''MULT r%d,r%d'', [RS, RT, NONE]),
   (''MULTU r%d,r%d'', [RS, RT, NONE]),
   (''NOR r%d,r%d,r%d'', [RD, RS, RT]),
   (''OR r%d,r%d,r%d'', [RD, RS, RT]),
   (''ORI r%d,r%d,%d'', [RT, RS, EXTRA]),
   (''RFE'', [NONE, NONE, NONE]),
   (''SB r%d,%d(r%d)'', [RT, EXTRA, RS]),
   (''SH r%d,%d(r%d)'', [RT, EXTRA, RS]),
   (''SLL r%d,r%d,%d'', [RD, RT, EXTRA]),
   (''SLLV r%d,r%d,r%d'', [RD, RT, RS]),
   (''SLT r%d,r%d,r%d'', [RD, RS, RT]),
   (''SLTI r%d,r%d,%d'', [RT, RS, EXTRA]),
   (''SLTIU r%d,r%d,%d'', [RT, RS, EXTRA]),
   (''SLTU r%d,r%d,r%d'', [RD, RS, RT]),
   (''SRA r%d,r%d,%d'', [RD, RT, EXTRA]),
   (''SRAV r%d,r%d,r%d'', [RD, RT, RS]),
   (''SRL r%d,r%d,%d'', [RD, RT, EXTRA]),
   (''SRLV r%d,r%d,r%d'', [RD, RT, RS]),
   (''SUB r%d,r%d,r%d'', [RD, RS, RT]),
   (''SUBU r%d,r%d,r%d'', [RD, RS, RT]),
   (''SW r%d,%d(r%d)'', [RT, EXTRA, RS]),
   (''SWL r%d,%d(r%d)'', [RT, EXTRA, RS]),
   (''SWR r%d,%d(r%d)'', [RT, EXTRA, RS]),
   (''XOR r%d,r%d,r%d'', [RD, RS, RT]),
   (''XORI r%d,r%d,%d'', [RT, RS, EXTRA]),
   (''SYSCALL'', [NONE, NONE, NONE]),
   (''Unimplemented'', [NONE, NONE, NONE]),
   (''Reserved'', [NONE, NONE, NONE])]"

section \<open>Decoding\<close>

record Instruction =
  i_value :: "32 word"
  opCode :: int
  i_rs :: int
  i_rt :: int
  i_rd :: int
  extra :: "32 word"

definition TypeToReg :: "RegType \<Rightarrow> Instruction \<Rightarrow> int" where
  "TypeToReg r instr = (case r of RS \<Rightarrow> i_rs instr | RT \<Rightarrow> i_rt instr | RD \<Rightarrow> i_rd instr
     | EXTRA \<Rightarrow> sint (extra instr) | NONE \<Rightarrow> -1)"

definition field :: "32 word \<Rightarrow> nat \<Rightarrow> 32 word \<Rightarrow> int" where
  "field v n m = uint (drop_bit n v AND m)"

text \<open>\<open>SPECIAL\<close> (100) and \<open>BCOND\<close> (101) are decoded further.\<close>

definition Decode :: "32 word \<Rightarrow> Instruction res" where
  "Decode value =
     rbind (aget opTable (field value 26 0x3f)) (\<lambda>(op, format).
     let ex = (if format = IFMT then
                 let e = value AND 0xffff in if e AND 0x8000 \<noteq> 0 then e OR 0xffff0000 else e
               else if format = RFMT then drop_bit 6 value AND 0x1f
               else value AND 0x3ffffff)
     in rbind
       (if op = SPECIAL then aget specialTable (uint (value AND 0x3f))
        else if op = BCOND then
          (let i = value AND 0x1f0000 in
           Inr (if i = 0 then OP_BLTZ else if i = 0x10000 then OP_BGEZ
                else if i = 0x100000 then OP_BLTZAL else if i = 0x110000 then OP_BGEZAL else OP_UNIMP))
        else Inr op) (\<lambda>op.
     Inr \<lparr>i_value = value, opCode = op, i_rs = field value 21 0x1f, i_rt = field value 16 0x1f,
          i_rd = field value 11 0x1f, extra = ex\<rparr>))"

text \<open>The text of an instruction in the trace.\<close>

definition disassemble :: "Instruction \<Rightarrow> (string \<times> int list) res" where
  "disassemble instr =
     rbind (aget opStrings (opCode instr)) (\<lambda>(str, args).
     rbind (ASSERT (opCode instr \<le> MaxOpcode)) (\<lambda>_.
     Inr (str, map (\<lambda>r. TypeToReg r instr) args)))"

section \<open>Multiplication\<close>

text \<open>The loop of \<open>Mult\<close>: the bits of \<open>a\<close> one at a time, \<open>a >>= 1\<close> on a signed \<open>int\<close>.\<close>

fun mult_loop :: "nat \<Rightarrow> 32 word \<Rightarrow> 32 word \<Rightarrow> 32 word \<Rightarrow> 32 word \<Rightarrow> 32 word \<Rightarrow> 32 word \<times> 32 word" where
  "mult_loop 0 a bHi bLo hi lo = (hi, lo)"
| "mult_loop (Suc n) a bHi bLo hi lo =
     (let (hi', lo') = (if a AND 1 \<noteq> 0
        then let lo' = lo + bLo; hi' = (if lo' < bLo then hi + 1 else hi) in (hi' + bHi, lo') else (hi, lo))
      in if a AND 1 \<noteq> 0 \<and> a AND 0xfffffffe = 0 then (hi', lo')
         else let bHi' = push_bit 1 bHi; bHi'' = (if bLo AND 0x80000000 \<noteq> 0 then bHi' OR 1 else bHi')
         in mult_loop n (signed_drop_bit 1 a) bHi'' (push_bit 1 bLo) hi' lo')"

text \<open>The high and the low word of the product.\<close>

definition Mult :: "32 word \<Rightarrow> 32 word \<Rightarrow> bool \<Rightarrow> 32 word \<times> 32 word" where
  "Mult a b signedArith =
     (if a = 0 \<or> b = 0 then (0, 0)
      else
        let na = (signedArith \<and> sint a < 0); nb = (signedArith \<and> sint b < 0);
            a' = (if na then - a else a); b' = (if nb then - b else b);
            (hi, lo) = mult_loop 32 a' 0 b' 0 0
        in if na \<noteq> nb then
             let hi' = NOT hi; lo' = NOT lo + 1 in (if lo' = 0 then hi' + 1 else hi', lo')
           else (hi, lo))"

section \<open>Executing one instruction\<close>

text \<open>What the switch leaves behind: the instruction goes on with the next program counter and a
  delayed load, or \<open>OneInstruction\<close> returned because a trap was taken.\<close>

datatype 'a effect = Goes "'a machine_scheme" "32 word" int "32 word" | Returned "'a machine_scheme"

definition put :: "'a machine_scheme \<Rightarrow> int \<Rightarrow> 32 word \<Rightarrow> 32 word \<Rightarrow> 'a effect res" where
  "put s k v pcAfter = rbind (set_reg s k v) (\<lambda>s. Inr (Goes s pcAfter 0 0))"

definition trap :: "'a kernel \<Rightarrow> 'a machine_scheme \<Rightarrow> ExceptionType \<Rightarrow> 32 word \<Rightarrow> 'a effect res" where
  "trap h s which bad = rbind (RaiseException h s which bad) (\<lambda>s. Inr (Returned s))"

definition sign :: "32 word \<Rightarrow> bool" where "sign w \<longleftrightarrow> w AND SIGN_BIT \<noteq> 0"
definition IndexToAddr :: "32 word \<Rightarrow> 32 word" where "IndexToAddr x = push_bit 2 x"

text \<open>\<open>registers[instr->rs]\<close> and \<open>registers[instr->rt]\<close>.\<close>

definition operands :: "'a machine_scheme \<Rightarrow> Instruction \<Rightarrow> ('a machine_scheme \<Rightarrow> 32 word \<Rightarrow> 32 word \<Rightarrow> 'b res) \<Rightarrow> 'b res" where
  "operands s i k = rbind (reg s (i_rs i)) (\<lambda>a. rbind (reg s (i_rt i)) (\<lambda>b. k s a b))"

definition exec_add :: "'a kernel \<Rightarrow> 'a machine_scheme \<Rightarrow> Instruction \<Rightarrow> 32 word \<Rightarrow> 'a effect res \<Rightarrow> 'a effect res" where
  "exec_add h s i pcAfter other = operands s i (\<lambda>s a b. let op = opCode i; ex = extra i in
     if op = OP_ADD then
       let sum = a + b in
       if \<not> sign (a XOR b) \<and> sign (a XOR sum) then trap h s OverflowException 0
       else put s (i_rd i) sum pcAfter
     else if op = OP_ADDI then
       let sum = a + ex in
       if \<not> sign (a XOR ex) \<and> sign (ex XOR sum) then trap h s OverflowException 0
       else put s (i_rt i) sum pcAfter
     else if op = OP_ADDIU then put s (i_rt i) (a + ex) pcAfter
     else if op = OP_ADDU then put s (i_rd i) (a + b) pcAfter
     else if op = OP_AND then put s (i_rd i) (a AND b) pcAfter
     else if op = OP_ANDI then put s (i_rt i) (a AND (ex AND 0xffff)) pcAfter
     else other)"

definition exec_branch :: "'a kernel \<Rightarrow> 'a machine_scheme \<Rightarrow> Instruction \<Rightarrow> 32 word \<Rightarrow> 'a effect res \<Rightarrow> 'a effect res" where
  "exec_branch h s i pcAfter other = operands s i (\<lambda>s a b. let op = opCode i in
     rbind (reg s NextPCReg) (\<lambda>nx.
     let target = nx + IndexToAddr (extra i);
         branch = (\<lambda>s taken. Inr (Goes s (if taken then target else pcAfter) 0 0)) in
     if op = OP_BEQ then branch s (a = b)
     else if op = OP_BGEZAL then
       rbind (set_reg s R31 (nx + 4)) (\<lambda>s. rbind (reg s (i_rs i)) (\<lambda>a. branch s (\<not> sign a)))
     else if op = OP_BGEZ then branch s (\<not> sign a)
     else if op = OP_BGTZ then branch s (sint a > 0)
     else if op = OP_BLEZ then branch s (sint a \<le> 0)
     else if op = OP_BLTZAL then
       rbind (set_reg s R31 (nx + 4)) (\<lambda>s. rbind (reg s (i_rs i)) (\<lambda>a. branch s (sign a)))
     else if op = OP_BLTZ then branch s (sign a)
     else if op = OP_BNE then branch s (a \<noteq> b)
     else other))"

definition exec_div_jump :: "'a kernel \<Rightarrow> 'a machine_scheme \<Rightarrow> Instruction \<Rightarrow> 32 word \<Rightarrow> 'a effect res \<Rightarrow> 'a effect res" where
  "exec_div_jump h s i pcAfter other = operands s i (\<lambda>s a b. let op = opCode i in
     rbind (reg s NextPCReg) (\<lambda>nx.
     let hilo = (\<lambda>l hv. rbind (set_reg s LoReg l) (\<lambda>s. put s HiReg hv pcAfter));
         jump = (pcAfter AND 0xf0000000) OR IndexToAddr (extra i) in
     if op = OP_DIV then
       if b = 0 then hilo 0 0
       else if a = SIGN_BIT \<and> b = -1 then Inl UndefinedArith
       else hilo (word_of_int (sint a sdiv sint b)) (word_of_int (sint a smod sint b))
     else if op = OP_DIVU then
       if b = 0 then hilo 0 0 else hilo (a div b) (a mod b)
     else if op = OP_JAL then rbind (set_reg s R31 (nx + 4)) (\<lambda>s. Inr (Goes s jump 0 0))
     else if op = OP_J then Inr (Goes s jump 0 0)
     else if op = OP_JALR then
       rbind (set_reg s (i_rd i) (nx + 4)) (\<lambda>s. rbind (reg s (i_rs i)) (\<lambda>a. Inr (Goes s a 0 0)))
     else if op = OP_JR then Inr (Goes s a 0 0)
     else other))"

text \<open>\<open>if (!machine->ReadMem(addr, sz, &value)) return;\<close> and the same for \<open>WriteMem\<close>.\<close>

definition reading :: "'a kernel \<Rightarrow> 'a machine_scheme \<Rightarrow> 32 word \<Rightarrow> int
    \<Rightarrow> ('a machine_scheme \<Rightarrow> 32 word \<Rightarrow> 'a effect res) \<Rightarrow> 'a effect res" where
  "reading h s addr sz k = rbind (ReadMem h s addr sz) (\<lambda>(ok, value, s). if \<not> ok then Inr (Returned s) else k s value)"

definition writing_mem :: "'a kernel \<Rightarrow> 'a machine_scheme \<Rightarrow> 32 word \<Rightarrow> int \<Rightarrow> 32 word \<Rightarrow> 32 word \<Rightarrow> 'a effect res" where
  "writing_mem h s addr sz v pcAfter =
     rbind (WriteMem h s addr sz v) (\<lambda>(ok, s). if \<not> ok then Inr (Returned s) else Inr (Goes s pcAfter 0 0))"

definition exec_load :: "'a kernel \<Rightarrow> 'a machine_scheme \<Rightarrow> Instruction \<Rightarrow> 32 word \<Rightarrow> 'a effect res \<Rightarrow> 'a effect res" where
  "exec_load h s i pcAfter other = operands s i (\<lambda>s a b. let op = opCode i; tmp = a + extra i in
     if op = OP_LB \<or> op = OP_LBU then
       reading h s tmp 1 (\<lambda>s value.
         let v = (if value AND 0x80 \<noteq> 0 \<and> op = OP_LB then value OR 0xffffff00 else value AND 0xff)
         in Inr (Goes s pcAfter (i_rt i) v))
     else if op = OP_LH \<or> op = OP_LHU then
       if tmp AND 1 \<noteq> 0 then trap h s AddressErrorException tmp
       else reading h s tmp 2 (\<lambda>s value.
         let v = (if value AND 0x8000 \<noteq> 0 \<and> op = OP_LH then value OR 0xffff0000 else value AND 0xffff)
         in Inr (Goes s pcAfter (i_rt i) v))
     else if op = OP_LUI then put s (i_rt i) (push_bit 16 (extra i)) pcAfter
     else if op = OP_LW then
       if tmp AND 3 \<noteq> 0 then trap h s AddressErrorException tmp
       else reading h s tmp 4 (\<lambda>s value. Inr (Goes s pcAfter (i_rt i) value))
     else other)"

text \<open>\<open>nextLoadValue\<close> of an unaligned load: the pending delayed value of the register, if it is
  the one being loaded, or the register.\<close>

definition merge_source :: "'a machine_scheme \<Rightarrow> Instruction \<Rightarrow> 32 word res" where
  "merge_source s i = rbind (reg s LoadReg) (\<lambda>lr.
     if sint lr = i_rt i then reg s LoadValueReg else reg s (i_rt i))"

definition exec_load_part :: "'a kernel \<Rightarrow> 'a machine_scheme \<Rightarrow> Instruction \<Rightarrow> 32 word \<Rightarrow> 'a effect res \<Rightarrow> 'a effect res" where
  "exec_load_part h s i pcAfter other = operands s i (\<lambda>s a b. let op = opCode i; tmp = a + extra i; k = tmp AND 3 in
     if op = OP_LWL then
       rbind (ASSERT (k = 0)) (\<lambda>_. reading h s tmp 4 (\<lambda>s value.
       rbind (merge_source s i) (\<lambda>nv.
         let v = (if k = 0 then value
                  else if k = 1 then (nv AND 0xff) OR push_bit 8 value
                  else if k = 2 then (nv AND 0xffff) OR push_bit 16 value
                  else (nv AND 0xffffff) OR push_bit 24 value)
         in Inr (Goes s pcAfter (i_rt i) v))))
     else if op = OP_LWR then
       rbind (ASSERT (k = 0)) (\<lambda>_. reading h s tmp 4 (\<lambda>s value.
       rbind (merge_source s i) (\<lambda>nv.
         let v = (if k = 0 then (nv AND 0xffffff00) OR (signed_drop_bit 24 value AND 0xff)
                  else if k = 1 then (nv AND 0xffff0000) OR (signed_drop_bit 16 value AND 0xffff)
                  else if k = 2 then (nv AND 0xff000000) OR (signed_drop_bit 8 value AND 0xffffff)
                  else value)
         in Inr (Goes s pcAfter (i_rt i) v))))
     else other)"

definition exec_mult_logic :: "'a kernel \<Rightarrow> 'a machine_scheme \<Rightarrow> Instruction \<Rightarrow> 32 word \<Rightarrow> 'a effect res \<Rightarrow> 'a effect res" where
  "exec_mult_logic h s i pcAfter other = operands s i (\<lambda>s a b. let op = opCode i;
       mult = (\<lambda>sg. let (hi, lo) = Mult a b sg in rbind (set_reg s HiReg hi) (\<lambda>s. put s LoReg lo pcAfter)) in
     if op = OP_MFHI then rbind (reg s HiReg) (\<lambda>v. put s (i_rd i) v pcAfter)
     else if op = OP_MFLO then rbind (reg s LoReg) (\<lambda>v. put s (i_rd i) v pcAfter)
     else if op = OP_MTHI then put s HiReg a pcAfter
     else if op = OP_MTLO then put s LoReg a pcAfter
     else if op = OP_MULT then mult True
     else if op = OP_MULTU then mult False
     else if op = OP_NOR then put s (i_rd i) (NOT (a OR b)) pcAfter
     else if op = OP_OR then put s (i_rd i) (a OR a) pcAfter
     else if op = OP_ORI then put s (i_rt i) (a OR (extra i AND 0xffff)) pcAfter
     else other)"

definition exec_store_shift :: "'a kernel \<Rightarrow> 'a machine_scheme \<Rightarrow> Instruction \<Rightarrow> 32 word \<Rightarrow> 'a effect res \<Rightarrow> 'a effect res" where
  "exec_store_shift h s i pcAfter other = operands s i (\<lambda>s a b. let op = opCode i in
     if op = OP_SB then writing_mem h s (a + extra i) 1 b pcAfter
     else if op = OP_SH then writing_mem h s (a + extra i) 2 b pcAfter
     else if op = OP_SLL then put s (i_rd i) (push_bit (unat (extra i)) b) pcAfter
     else if op = OP_SLLV then put s (i_rd i) (push_bit (unat (a AND 0x1f)) b) pcAfter
     else other)"

definition exec_compare :: "'a kernel \<Rightarrow> 'a machine_scheme \<Rightarrow> Instruction \<Rightarrow> 32 word \<Rightarrow> 'a effect res \<Rightarrow> 'a effect res" where
  "exec_compare h s i pcAfter other = operands s i (\<lambda>s a b. let op = opCode i in
     if op = OP_SLT then put s (i_rd i) (if sint a < sint b then 1 else 0) pcAfter
     else if op = OP_SLTI then put s (i_rt i) (if sint a < sint (extra i) then 1 else 0) pcAfter
     else if op = OP_SLTIU then put s (i_rt i) (if a < extra i then 1 else 0) pcAfter
     else if op = OP_SLTU then put s (i_rd i) (if a < b then 1 else 0) pcAfter
     else other)"

text \<open>\<open>tmp\<close> is an \<open>int\<close>, so \<open>tmp >>= ...\<close> shifts in the sign for \<open>OP_SRL\<close> and \<open>OP_SRLV\<close> too.\<close>

definition exec_shift_sub :: "'a kernel \<Rightarrow> 'a machine_scheme \<Rightarrow> Instruction \<Rightarrow> 32 word \<Rightarrow> 'a effect res \<Rightarrow> 'a effect res" where
  "exec_shift_sub h s i pcAfter other = operands s i (\<lambda>s a b. let op = opCode i in
     if op = OP_SRA then put s (i_rd i) (signed_drop_bit (unat (extra i)) b) pcAfter
     else if op = OP_SRAV then put s (i_rd i) (signed_drop_bit (unat (a AND 0x1f)) b) pcAfter
     else if op = OP_SRL then put s (i_rd i) (signed_drop_bit (unat (extra i)) b) pcAfter
     else if op = OP_SRLV then put s (i_rd i) (signed_drop_bit (unat (a AND 0x1f)) b) pcAfter
     else if op = OP_SUB then
       let diff = a - b in
       if sign (a XOR b) \<and> sign (a XOR diff) then trap h s OverflowException 0
       else put s (i_rd i) diff pcAfter
     else if op = OP_SUBU then put s (i_rd i) (a - b) pcAfter
     else if op = OP_SW then writing_mem h s (a + extra i) 4 b pcAfter
     else other)"

definition exec_store_part :: "'a kernel \<Rightarrow> 'a machine_scheme \<Rightarrow> Instruction \<Rightarrow> 32 word \<Rightarrow> 'a effect res \<Rightarrow> 'a effect res" where
  "exec_store_part h s i pcAfter other = operands s i (\<lambda>s a b. let op = opCode i; tmp = a + extra i; k = tmp AND 3 in
     if op = OP_SWL then
       rbind (ASSERT (k = 0)) (\<lambda>_. reading h s (tmp AND NOT 3) 4 (\<lambda>s value.
       rbind (reg s (i_rt i)) (\<lambda>b.
         let v = (if k = 0 then b
                  else if k = 1 then (value AND 0xff000000) OR (signed_drop_bit 8 b AND 0xffffff)
                  else if k = 2 then (value AND 0xffff0000) OR (signed_drop_bit 16 b AND 0xffff)
                  else (value AND 0xffffff00) OR (signed_drop_bit 24 b AND 0xff))
         in writing_mem h s (tmp AND NOT 3) 4 v pcAfter)))
     else if op = OP_SWR then
       rbind (ASSERT (k = 0)) (\<lambda>_. reading h s (tmp AND NOT 3) 4 (\<lambda>s value.
       rbind (reg s (i_rt i)) (\<lambda>b.
         let v = (if k = 0 then (value AND 0xffffff) OR push_bit 24 b
                  else if k = 1 then (value AND 0xffff) OR push_bit 16 b
                  else if k = 2 then (value AND 0xff) OR push_bit 8 b
                  else b)
         in writing_mem h s (tmp AND NOT 3) 4 v pcAfter)))
     else other)"

definition exec_rest :: "'a kernel \<Rightarrow> 'a machine_scheme \<Rightarrow> Instruction \<Rightarrow> 32 word \<Rightarrow> 'a effect res" where
  "exec_rest h s i pcAfter = operands s i (\<lambda>s a b. let op = opCode i in
     if op = OP_SYSCALL then trap h s SyscallException 0
     else if op = OP_XOR then put s (i_rd i) (a XOR b) pcAfter
     else if op = OP_XORI then put s (i_rt i) (a XOR (extra i AND 0xffff)) pcAfter
     else if op = OP_RES \<or> op = OP_UNIMP then trap h s IllegalInstrException 0
     else Inl AssertFailed)"

definition execute :: "'a kernel \<Rightarrow> 'a machine_scheme \<Rightarrow> Instruction \<Rightarrow> 32 word \<Rightarrow> 'a effect res" where
  "execute h s i pcAfter =
     exec_add h s i pcAfter (exec_branch h s i pcAfter (exec_div_jump h s i pcAfter
     (exec_load h s i pcAfter (exec_load_part h s i pcAfter (exec_mult_logic h s i pcAfter
     (exec_store_shift h s i pcAfter (exec_compare h s i pcAfter (exec_shift_sub h s i pcAfter
     (exec_store_part h s i pcAfter (exec_rest h s i pcAfter))))))))))"

text \<open>Fetch, decode, execute, then the delayed load and the program counters.\<close>

definition OneInstruction :: "'a kernel \<Rightarrow> 'a machine_scheme \<Rightarrow> 'a machine_scheme res" where
  "OneInstruction h s =
     rbind (reg s PCReg) (\<lambda>pc.
     rbind (ReadMem h s pc 4) (\<lambda>(ok, raw, s).
     if \<not> ok then Inr s
     else
       rbind (Decode raw) (\<lambda>i.
       rbind (reg s NextPCReg) (\<lambda>nx.
       rbind (execute h s i (nx + 4)) (\<lambda>eff.
       case eff of
         Returned s \<Rightarrow> Inr s
       | Goes s pcAfter nextLoadReg nextLoadValue \<Rightarrow>
           rbind (DelayedLoad s nextLoadReg nextLoadValue) (\<lambda>s.
           rbind (reg s PCReg) (\<lambda>pc.
           rbind (set_reg s PrevPCReg pc) (\<lambda>s.
           rbind (reg s NextPCReg) (\<lambda>nx.
           rbind (set_reg s PCReg nx) (\<lambda>s.
           set_reg s NextPCReg pcAfter))))))))))"

text \<open>\<open>Run\<close> repeats an instruction and a clock tick for ever; \<open>run n\<close> is its first \<open>n\<close> rounds.\<close>

fun run :: "'a kernel \<Rightarrow> ('a machine_scheme \<Rightarrow> 'a machine_scheme res) \<Rightarrow> nat \<Rightarrow> 'a machine_scheme \<Rightarrow> 'a machine_scheme res" where
  "run h OneTick 0 s = Inr s"
| "run h OneTick (Suc n) s = rbind (OneInstruction h s) (\<lambda>s. rbind (OneTick s) (run h OneTick n))"

definition Run :: "'a kernel \<Rightarrow> ('a machine_scheme \<Rightarrow> 'a machine_scheme res) \<Rightarrow> nat \<Rightarrow> 'a machine_scheme \<Rightarrow> 'a machine_scheme res" where
  "Run h OneTick n s = run h OneTick n (s\<lparr>status := UserMode\<rparr>)"
end
