(* ===== verification/MipsMult.thy ===== *)
theory MipsMult
  imports Mips
begin

text \<open>
  The double-word product of machine/mipssim.cc: \<open>Mult\<close> leaves in the two result registers the
  64-bit product of its operands, unsigned or signed, for all operands. With it, the facts on
  signs and on carries that the additions and subtractions of the simulator share.
\<close>

section \<open>Multiplication is multiplication\<close>

text \<open>The double word two words make.\<close>

definition dword :: "32 word \<Rightarrow> 32 word \<Rightarrow> int" where
  "dword hi lo = uint hi * 2 ^ 32 + uint lo"

lemma uint_bounds: "0 \<le> uint (w :: 32 word)" "uint (w :: 32 word) < 2 ^ 32"
  using uint_lt2p [of w] by simp_all

lemma uint_carry: "uint (lo + bl) = uint lo + uint bl - (if lo + bl < bl then 2 ^ 32 else 0)" for lo bl :: "32 word"
  using uint_bounds [of lo] uint_bounds [of bl] uint_bounds [of "lo + bl"]
  by (auto simp: word_less_def uint_plus_if')

lemma uint_add_multiple: "\<exists>k. uint (a + b) = uint a + uint b - k * 2 ^ 32" for a b :: "32 word"
  by (rule exI [of _ "if a + b < b then 1 else 0"]) (simp only: uint_carry, simp)

lemma mod64I: "x = y - k * 2 ^ 64 \<Longrightarrow> x mod 2 ^ 64 = y mod (2 ^ 64 :: int)"
proof -
  assume "x = y - k * 2 ^ 64"
  then have "y = x + k * 2 ^ 64" by simp
  then show ?thesis by (simp only: mod_mult_self1)
qed

lemma dword_add:
  "dword ((if lo + bl < bl then hi + 1 else hi) + bh) (lo + bl) mod 2 ^ 64 = (dword hi lo + dword bh bl) mod 2 ^ 64"
proof -
  define c :: int where "c = (if lo + bl < bl then 1 else 0)"
  have lo: "uint (lo + bl) = uint lo + uint bl - c * 2 ^ 32" unfolding uint_carry c_def by simp
  obtain j where j: "uint (if lo + bl < bl then hi + 1 else hi) = uint hi + c - j * 2 ^ 32"
  proof (cases "lo + bl < bl")
    case True
    with uint_add_multiple [of hi 1] that show ?thesis by (auto simp: c_def)
  next
    case False
    with that [of 0] show ?thesis by (simp add: c_def)
  qed
  obtain k where k: "uint ((if lo + bl < bl then hi + 1 else hi) + bh)
      = uint (if lo + bl < bl then hi + 1 else hi) + uint bh - k * 2 ^ 32"
    using uint_add_multiple by blast
  show ?thesis
    by (rule mod64I [where k = "j + k"]) (simp only: dword_def lo k j, simp add: algebra_simps)
qed

lemma sign_bit31: "sign w \<longleftrightarrow> bit w 31" "(w AND 0x80000000 \<noteq> 0) = bit w 31"
  using and_exp_eq_0_iff_not_bit [of w 31] by (simp_all add: sign_def)

lemma bit31_uint: "bit w 31 \<longleftrightarrow> 2 ^ 31 \<le> uint w" for w :: "32 word"
proof -
  have a: "bit (uint w) 31 \<longleftrightarrow> bit w 31" by (simp add: bit_uint_iff)
  have b: "bit (uint w) 31 \<longleftrightarrow> odd (uint w div 2 ^ 31)" by (rule bit_iff_odd)
  define q where "q = uint w div 2 ^ 31"
  have "uint w = 2 ^ 31 * q + uint w mod 2 ^ 31" "0 \<le> uint w mod 2 ^ 31" "uint w mod 2 ^ 31 < 2 ^ 31"
    by (simp_all add: q_def)
  then have "q = (if 2 ^ 31 \<le> uint w then 1 else 0)" using uint_bounds [of w] by auto
  then show ?thesis using a b unfolding q_def [symmetric] by (auto split: if_splits)
qed

lemma dword_shift:
  "dword (if bl AND 0x80000000 \<noteq> 0 then push_bit 1 bh OR 1 else push_bit 1 bh) (push_bit 1 bl) mod 2 ^ 64
   = (2 * dword bh bl) mod 2 ^ 64"
proof -
  have "push_bit 1 bh OR 1 = push_bit 1 bh + (1 :: 32 word)"
    by (subst disjunctive_add [symmetric]) (auto simp: bit_simps mult.commute [of bh 2] bit_double_iff)
  then have hi: "(if bl AND 0x80000000 \<noteq> 0 then push_bit 1 bh OR 1 else push_bit 1 bh)
      = (if bl + bl < bl then bh + 1 else bh) + bh"
  proof -
    define d where "d = bl + bl"
    have u: "uint d = uint bl + uint bl - (if d < bl then 2 ^ 32 else 0)" unfolding d_def by (rule uint_carry)
    have "d < bl \<longleftrightarrow> 2 ^ 31 \<le> uint bl"
      using u uint_bounds [of d] by (cases "d < bl") auto
    then have "bl + bl < bl \<longleftrightarrow> bit bl 31" unfolding d_def bit31_uint .
    moreover have "push_bit 1 bh = bh + bh" by (simp add: push_bit_eq_mult)
    ultimately show ?thesis using \<open>push_bit 1 bh OR 1 = push_bit 1 bh + 1\<close> unfolding sign_bit31(2)
      by (auto simp: add.assoc add.commute [of 1])
  qed
  have lo: "push_bit 1 bl = bl + bl" by (simp add: push_bit_eq_mult)
  show ?thesis unfolding hi lo dword_add by simp
qed

text \<open>The loop: the bits of \<open>a\<close> still to come, times the shifted \<open>b\<close>, are missing from the sum.\<close>

lemma low_bit: "(a AND 1 \<noteq> 0) \<longleftrightarrow> bit a 0" for a :: "32 word"
  using and_exp_eq_0_iff_not_bit [of a 0] by simp

lemma low_bits_step:
  "n \<le> 31 \<Longrightarrow> take_bit (Suc n) (uint a) = (if a AND 1 \<noteq> 0 then 1 else 0) + 2 * take_bit n (uint (signed_drop_bit 1 a))"
  for a :: "32 word"
proof -
  assume n: "n \<le> 31"
  have "take_bit n (uint a div 2) = take_bit n (uint (signed_drop_bit 1 a))"
    using n by (auto intro!: bit_eqI simp: bit_simps bit_Suc [symmetric])
  moreover have "uint a mod 2 = (if a AND 1 \<noteq> 0 then 1 else 0)"
  proof -
    have "bit (uint a) 0 = bit a 0" by (simp add: bit_uint_iff)
    then show ?thesis by (simp add: low_bit bit_0 mod_2_eq_odd)
  qed
  ultimately show ?thesis by (simp add: take_bit_Suc)
qed

lemma no_more_bits: "a AND 0xfffffffe = 0 \<Longrightarrow> a AND 1 \<noteq> 0 \<Longrightarrow> a = 1" for a :: "32 word"
proof -
  assume z: "a AND 0xfffffffe = 0" and o: "a AND 1 \<noteq> 0"
  have e: "(0xfffffffe :: 32 word) = NOT 1" by simp
  have "a = (a AND 1) OR (a AND NOT 1)" by (auto simp: bit_eq_iff bit_or_iff bit_and_iff bit_not_iff)
  then have "a = a AND 1" using z unfolding e by simp
  moreover have "a AND 1 = 1" using o by (simp add: and_one_eq odd_iff_mod_2_eq_one)
  ultimately show "a = 1" by simp
qed

lemma mult_loop_product:
  "n \<le> 32 \<Longrightarrow> mult_loop n a bh bl hi lo = (hi', lo') \<Longrightarrow>
   dword hi' lo' mod 2 ^ 64 = (dword hi lo + take_bit n (uint a) * dword bh bl) mod 2 ^ 64"
proof (induction n arbitrary: a bh bl hi lo)
  case (Suc n)
  let ?odd = "a AND 1 \<noteq> 0"
  define hi1 where "hi1 = (if ?odd then (if lo + bl < bl then hi + 1 else hi) + bh else hi)"
  define lo1 where "lo1 = (if ?odd then lo + bl else lo)"
  define b where "b = dword bh bl"
  have one: "dword hi1 lo1 mod 2 ^ 64 = (dword hi lo + (if ?odd then 1 else 0) * b) mod 2 ^ 64"
    using dword_add [of lo bl hi bh] by (simp add: hi1_def lo1_def b_def)
  show ?case
  proof (cases "?odd \<and> a AND 0xfffffffe = 0")
    case True
    then have "a = 1" using no_more_bits by blast
    then have "take_bit (Suc n) (uint a) = 1" by (simp add: take_bit_Suc)
    moreover have "hi' = hi1" "lo' = lo1" using Suc.prems(2) True by (auto simp: hi1_def lo1_def Let_def)
    ultimately show ?thesis using one True by (simp add: b_def)
  next
    case False
    define bh1 where "bh1 = (if bl AND 0x80000000 \<noteq> 0 then push_bit 1 bh OR 1 else push_bit 1 bh)"
    have rec: "mult_loop n (signed_drop_bit 1 a) bh1 (push_bit 1 bl) hi1 lo1 = (hi', lo')"
      using Suc.prems(2) False by (auto simp: hi1_def lo1_def bh1_def Let_def split: if_splits)
    define t where "t = take_bit n (uint (signed_drop_bit 1 a))"
    define c :: int where "c = (if ?odd then 1 else 0)"
    have sh: "dword bh1 (push_bit 1 bl) mod 2 ^ 64 = (2 * b) mod 2 ^ 64"
      unfolding bh1_def b_def by (rule dword_shift)
    have "dword hi' lo' mod 2 ^ 64 = (dword hi1 lo1 + t * dword bh1 (push_bit 1 bl)) mod 2 ^ 64"
      unfolding t_def using Suc.prems(1) by (intro Suc.IH [OF _ rec]) simp
    also have "\<dots> = ((dword hi lo + c * b) + t * (2 * b)) mod 2 ^ 64"
      using one sh unfolding c_def by (intro mod_add_cong mod_mult_cong) simp_all
    also have "(dword hi lo + c * b) + t * (2 * b) = dword hi lo + (c + 2 * t) * b" by (simp add: algebra_simps)
    also have "c + 2 * t = take_bit (Suc n) (uint a)"
      using low_bits_step [of n a] Suc.prems(1) by (simp only: c_def t_def)
    finally show ?thesis by (simp only: b_def)
  qed
qed simp


lemma sint_uint_cases: "sint w = (if sign w then uint w - 2 ^ 32 else uint w)" for w :: "32 word"
proof -
  have "sint w = take_bit 32 (uint w) - 2 ^ 32 * of_bool (bit (uint w) 31)"
    using signed_take_bit_eq_take_bit_minus [of 31 "uint w"] by (simp add: sint_uint)
  moreover have "bit (uint w) 31 = sign w" by (simp add: bit_uint_iff sign_bit31(1))
  moreover have "take_bit 32 (uint w) = uint w" using uint_bounds [of w] by (intro take_bit_int_eq_self) simp_all
  ultimately show ?thesis by simp
qed

lemma sign_sint: "sign w \<longleftrightarrow> sint w < 0"
  using uint_bounds [of w] sint_uint_cases [of w] by auto

lemma sint_neg: "sint w < 0 \<Longrightarrow> sint w = uint w - 2 ^ 32" "\<not> sint w < 0 \<Longrightarrow> sint w = uint w" for w :: "32 word"
  using uint_bounds [of w] sint_uint_cases [of w] by (cases "sign w"; simp)+

lemma sint_bounds: "- (2 ^ 31) \<le> sint (w :: 32 word)" "sint (w :: 32 word) < 2 ^ 31"
  using sint_ge [of w] sint_lt [of w] by simp_all

lemma dword_bounds: "0 \<le> dword hi lo" "dword hi lo < 2 ^ 64"
  using uint_bounds [of hi] uint_bounds [of lo] by (simp_all add: dword_def)

lemma mult_loop_exact:
  assumes "mult_loop 32 a 0 b 0 0 = (hi, lo)"
  shows "dword hi lo = uint a * uint b"
proof -
  have "dword hi lo mod 2 ^ 64 = (uint a * uint b) mod 2 ^ 64"
    using mult_loop_product [OF _ assms] take_bit_int_eq_self [of "uint a" 32] uint_bounds [of a] by (simp add: dword_def)
  moreover have "uint a * uint b < 2 ^ 32 * 2 ^ 32" using uint_bounds by (intro mult_strict_mono) simp_all
  ultimately show ?thesis using dword_bounds [of hi lo] by (simp add: mod_pos_pos_trivial)
qed

lemma Mult_unsigned_eq: "Mult a b False = (hi, lo) \<Longrightarrow> uint hi * 2 ^ 32 + uint lo = uint a * uint b"
  using mult_loop_exact [of a b] by (auto simp: Mult_def dword_def split: if_splits prod.splits)

text \<open>Negating a double word as \<open>Mult\<close> does.\<close>

lemma uint_not: "uint (NOT w) = 2 ^ 32 - 1 - uint w" for w :: "32 word"
proof -
  have "uint (w + NOT w) = uint w + uint (NOT w) - (if w + NOT w < NOT w then 2 ^ 32 else 0)" by (rule uint_carry)
  moreover have "uint (w + NOT w) = 2 ^ 32 - 1" by (simp add: unsigned_minus_1_eq_mask mask_eq_exp_minus_1)
  ultimately show ?thesis using uint_bounds [of w] uint_bounds [of "NOT w"] by (auto split: if_splits)
qed

lemma dword_negate:
  "dword (if NOT lo + 1 = 0 then NOT hi + 1 else NOT hi) (NOT lo + 1) mod 2 ^ 64 = (- dword hi lo) mod 2 ^ 64"
proof -
  have "NOT lo + 1 < 1 \<longleftrightarrow> NOT lo + 1 = 0" by simp
  then have "dword (if NOT lo + 1 = 0 then NOT hi + 1 else NOT hi) (NOT lo + 1) mod 2 ^ 64
      = (dword (NOT hi) (NOT lo) + dword 0 1) mod 2 ^ 64"
    using dword_add [of "NOT lo" 1 "NOT hi" 0] by simp
  also have "dword (NOT hi) (NOT lo) + dword 0 1 = - dword hi lo - (-1) * 2 ^ 64"
    unfolding dword_def uint_not by (simp add: algebra_simps)
  also have "(- dword hi lo - (-1) * 2 ^ 64) mod 2 ^ 64 = (- dword hi lo) mod 2 ^ 64"
    by (rule mod64I [OF refl])
  finally show ?thesis .
qed

text \<open>The signed value of a double word, and when two agree.\<close>

lemma sdword_eq:
  assumes "dword hi lo mod 2 ^ 64 = v mod 2 ^ 64" "- (2 ^ 63) \<le> v" "v < 2 ^ 63"
  shows "sint hi * 2 ^ 32 + uint lo = v"
proof -
  define x where "x = sint hi * 2 ^ 32 + uint lo"
  have "x = dword hi lo - (if sign hi then 1 else 0) * 2 ^ 64"
    unfolding x_def dword_def sint_uint_cases by simp
  then have "x mod 2 ^ 64 = v mod 2 ^ 64" using mod64I [of x "dword hi lo"] assms(1) by simp
  moreover have "- (2 ^ 63) \<le> x" "x < 2 ^ 63"
  proof -
    define u where "u = uint lo"
    have "0 \<le> u" "u < 2 ^ 32" using uint_bounds [of lo] by (simp_all add: u_def)
    then show "- (2 ^ 63) \<le> x" "x < 2 ^ 63" using sint_bounds [of hi] unfolding x_def u_def [symmetric] by simp_all
  qed
  moreover have "a = b" if "a mod 2 ^ 64 = b mod 2 ^ 64" "- (2 ^ 63) \<le> a" "a < 2 ^ 63" "- (2 ^ 63) \<le> b" "b < 2 ^ 63" for a b :: int
  proof -
    from that(1) obtain k where "a - b = 2 ^ 64 * k" by (metis mod_eq_dvd_iff dvdE)
    moreover from this have "k = 0" using that(2-5) by simp
    ultimately show ?thesis by simp
  qed
  ultimately show ?thesis using assms(2,3) by (simp only: x_def)
qed

lemma magnitude: "uint (if sint a < 0 then - a else a) = \<bar>sint a\<bar>" for a :: "32 word"
proof (cases "sint a < 0")
  case True
  then have s: "sint a = uint a - 2 ^ 32" by (rule sint_neg(1))
  define n where "n = - a"
  have "a \<noteq> 0" using True by auto
  then have "n \<noteq> 0" by (simp add: n_def)
  then have "(a + n < n) = True" by (simp add: n_def word_gt_0)
  moreover have "uint (a + n) = uint a + uint n - (if a + n < n then 2 ^ 32 else 0)" by (rule uint_carry)
  moreover have "uint (a + n) = 0" by (simp add: n_def)
  ultimately have "uint n = 2 ^ 32 - uint a" by simp
  then show ?thesis using True s by (simp add: n_def)
next
  case False
  with sint_neg(2) [OF False] show ?thesis by simp
qed

lemma Mult_signed_eq: "Mult a b True = (hi, lo) \<Longrightarrow> sint hi * 2 ^ 32 + uint lo = sint a * sint b"
proof -
  assume m: "Mult a b True = (hi, lo)"
  define v where "v = sint a * sint b"
  have "\<bar>v\<bar> \<le> 2 ^ 31 * 2 ^ 31" unfolding v_def abs_mult
    using sint_bounds [of a] sint_bounds [of b] by (intro mult_mono) simp_all
  then have r: "- (2 ^ 63) \<le> v" "v < 2 ^ 63" by simp_all
  show ?thesis
  proof (cases "a = 0 \<or> b = 0")
    case True
    with m show ?thesis by (auto simp: Mult_def)
  next
    case False
    let ?a = "if sint a < 0 then - a else a" and ?b = "if sint b < 0 then - b else b"
    obtain h l where ml: "mult_loop 32 ?a 0 ?b 0 0 = (h, l)" by fastforce
    have d: "dword h l = \<bar>v\<bar>" using mult_loop_exact [OF ml] unfolding magnitude by (simp add: v_def abs_mult)
    have "dword hi lo mod 2 ^ 64 = v mod 2 ^ 64"
    proof (cases "(sint a < 0) = (sint b < 0)")
      case True
      then have "v = \<bar>v\<bar>" by (auto simp: v_def abs_mult zero_le_mult_iff mult_nonneg_nonneg mult_nonpos_nonpos)
      moreover have "hi = h" "lo = l" using m ml False True by (auto simp: Mult_def Let_def)
      ultimately show ?thesis using d by simp
    next
      case ne: False
      then have "v = - \<bar>v\<bar>" by (auto simp: v_def abs_mult)
      moreover have "hi = (if NOT l + 1 = 0 then NOT h + 1 else NOT h)" "lo = NOT l + 1"
        using m ml False ne by (auto simp: Mult_def Let_def)
      ultimately show ?thesis using d dword_negate [of l h] by simp
    qed
    from sdword_eq [OF this r] show ?thesis by (simp add: v_def)
  qed
qed

text \<open>The unsigned product: high and low word together are the product of the operands, for every
  pair of words.\<close>

theorem Mult_unsigned: "case Mult a b False of (hi, lo) \<Rightarrow> uint hi * 2 ^ 32 + uint lo = uint a * uint b"
  using Mult_unsigned_eq by (auto split: prod.split)

text \<open>C25: The signed product, the most negative operand included: sign, negation of the operands and of
  the double word together compute the exact product.\<close>

theorem Mult_signed: "case Mult a b True of (hi, lo) \<Rightarrow> sint hi * 2 ^ 32 + uint lo = sint a * sint b"
  using Mult_signed_eq by (auto split: prod.split)

end
