(* ===== verification/MachineSamples.thy ===== *)
theory MachineSamples
  imports Mips
begin

text \<open>
  A small concrete machine on which the theorems about the simulator are applied: one page mapped
  by a page table, a given word as the first instruction, and a kernel that returns from every trap.
\<close>

definition sample_entry :: "bool \<Rightarrow> translation_entry" where
  "sample_entry u = \<lparr>virtualPage = 0, physicalPage = 0, valid = True, readOnly = False, use = u, dirty = False\<rparr>"

definition sample_machine :: "32 word list \<Rightarrow> 32 word \<Rightarrow> machine" where
  "sample_machine rs w = \<lparr>registers = rs,
     mainMemory = [ucast w, ucast (drop_bit 8 w), ucast (drop_bit 16 w), ucast (drop_bit 24 w)] @ replicate 4092 0,
     tlb = None, pageTable = Some [sample_entry False], pageTableSize = 1, frame_bitmap = 0, totalcnt = 0, misscnt = 0,
     Index = 0, status = UserMode\<rparr>"

definition sample_kernel :: "'a kernel" where
  "sample_kernel which s = Inr s"

text \<open>All registers 0 except \<open>NextPC\<close>, which is 4.\<close>

definition sample_regs :: "32 word list" where
  "sample_regs = (replicate 40 0)[35 := 4]"

lemma length_sample_regs [simp]: "length sample_regs = 40"
  by (simp add: sample_regs_def)

lemma sample_regs_nth [simp]: "k < 40 \<Longrightarrow> sample_regs ! k = (if k = 35 then 4 else 0)"
  by (simp add: sample_regs_def nth_list_update)

lemma sample_machine_simps [simp]:
  "registers (sample_machine rs w) = rs" "length (mainMemory (sample_machine rs w)) = 4096"
  by (simp_all add: sample_machine_def)

lemma sample_machine_ok:
  "length rs = 40 \<Longrightarrow> unat (rs ! 37) < 32 \<Longrightarrow> rs ! 0 = 0 \<Longrightarrow> machine_ok (sample_machine rs w)"
  by (simp add: machine_ok_def machine_shape_def sample_machine_def NumTotalRegs_def mem_consts tables_ok_def)

lemma sample_kernel_keeps [simp]: "kernel_keeps sample_kernel"
  by (simp add: kernel_keeps_def sample_kernel_def)

lemma sample_ReadMem:
  fixes rs :: "32 word list" and u :: bool
  shows "ReadMem sample_kernel (sample_machine rs w\<lparr>totalcnt := n, pageTable := Some [sample_entry u]\<rparr>) 0 4
    = Inr (True, w, sample_machine rs w\<lparr>totalcnt := n + 1, pageTable := Some [sample_entry True]\<rparr>)"
proof -
  have "load32 (mainMemory (sample_machine rs w)) 0 = Inr w"
    by (simp add: load32_def sample_machine_def aget_ok word32_bytes)
  then show ?thesis
    by (simp add: ReadMem_def Translate_def sample_machine_def Let_def mem_consts aget_ok sample_entry_def
        access_entry_def u32_def ASSERT_def WordToHost_def)
qed

lemma sample_fetch:
  "ReadMem sample_kernel (sample_machine rs w) 0 4
    = Inr (True, w, sample_machine rs w\<lparr>totalcnt := 1, pageTable := Some [sample_entry True]\<rparr>)"
  using sample_ReadMem [where rs = rs and w = w and n = 0 and u = False] unfolding sample_machine_def by simp

section \<open>What the processor relies on\<close>

text \<open>C23: Translation is total and checked: it returns an exception code or a physical address within
  memory, of an aligned access, through the valid entry of the page that permits it; it never claims a
  system call and changes neither registers nor memory.\<close>

theorem Translate_checked:
  assumes "machine_ok s" and "sz \<in> {1, 2, 4}"
  shows "\<exists>exc pa s'. Translate s va sz w = Inr (exc, pa, s') \<and> machine_ok s'
    \<and> registers s' = registers s \<and> mainMemory s' = mainMemory s \<and> exc \<noteq> SyscallException
    \<and> (exc = NoException \<longrightarrow> aligned va sz \<and> 0 \<le> pa \<and> pa + sz \<le> MemorySize
        \<and> (\<exists>e. entry_for s (uint va div PageSize) = Some e \<and> valid e \<and> (\<not> readOnly e \<or> \<not> w)
             \<and> pa = u32 (physicalPage e) * PageSize + uint va mod PageSize))"
  by (rule Translate_total [OF assms])

theorem Translate_checked_witness:
  "\<exists>exc pa s'. Translate (sample_machine sample_regs 0) 4 4 True = Inr (exc, pa, s') \<and> machine_ok s'"
  using Translate_checked [OF sample_machine_ok [of sample_regs 0], of 4 4 True] by auto

text \<open>C24: What a successful write stores is read back, narrowed to its size, by a read of the same
  virtual address and size; the read succeeds, also where the write went through the TLB.\<close>

theorem WriteMem_then_ReadMem:
  assumes "machine_ok s" and "sz \<in> {1, 2, 4}" and "WriteMem h s va sz v = Inr (True, s1)"
  shows "\<exists>s2. ReadMem h s1 va sz = Inr (True, narrow sz v, s2)"
  by (rule WriteMem_ReadMem [OF assms])

theorem WriteMem_then_ReadMem_witness:
  "\<exists>s1 s2. WriteMem sample_kernel (sample_machine sample_regs 0) 8 4 77 = Inr (True, s1)
     \<and> ReadMem sample_kernel s1 8 4 = Inr (True, 77, s2)"
proof -
  have ok: "machine_ok (sample_machine sample_regs 0)" by (rule sample_machine_ok) simp_all
  obtain s1 where s1: "WriteMem sample_kernel (sample_machine sample_regs 0) 8 4 77 = Inr (True, s1)"
    by (simp add: WriteMem_def Translate_def sample_machine_def Let_def mem_consts aget_ok sample_entry_def
        access_entry_def u32_def ASSERT_def WordToMachine_def WordToHost_def store32_def aset_ok)
  from WriteMem_then_ReadMem [OF ok _ s1] s1 show ?thesis by (simp add: narrow_def)
qed

end
