(* ===== verification/MipsExec.thy ===== *)
theory MipsExec
  imports MipsMult MachineSamples
begin

text \<open>
  What one simulated instruction does to the machine: every word decodes to an operation the
  switch handles; an instruction keeps the machine in good order, and stops the simulator only
  in the two ways named by \<open>cpu_fault\<close>; additions and subtractions trap exactly on signed
  overflow; loads take effect one instruction late and branches behind their delay slot.
\<close>

section \<open>Decoding\<close>

text \<open>The operations that have a case of their own in the switch.\<close>

definition handled :: "int \<Rightarrow> bool" where
  "handled op \<longleftrightarrow> 1 \<le> op \<and> op \<le> 63 \<and> op \<notin> {15, 30, 33, 41}"

lemma length_tables: "length opTable = 64" "length specialTable = 64" "length opStrings = 64"
  by (simp_all add: opTable_def specialTable_def opStrings_def)

lemma opTable_entries: "list_all (\<lambda>(op, f). handled op \<or> op = SPECIAL \<or> op = BCOND) opTable"
  by (simp add: opTable_def handled_def)

lemma specialTable_entries: "list_all handled specialTable"
  by (simp add: specialTable_def handled_def)

lemma and_le: "uint (x AND m) \<le> uint (m :: 32 word)"
  using word_and_le1 [of x m] by (simp add: word_le_def and.commute)

lemma field_range: "0 \<le> field v n m" "field v n m \<le> uint m"
  using and_le [of "drop_bit n v" m] by (simp_all add: field_def)

definition decoded :: "Instruction \<Rightarrow> bool" where
  "decoded i \<longleftrightarrow> 0 \<le> i_rs i \<and> i_rs i < 32 \<and> 0 \<le> i_rt i \<and> i_rt i < 32 \<and> 0 \<le> i_rd i \<and> i_rd i < 32"

lemma Decode_ok:
  "\<exists>i. Decode v = Inr i \<and> i_value i = v \<and> decoded i \<and> handled (opCode i)"
proof -
  let ?k = "field v 26 0x3f" and ?j = "uint (v AND 0x3f)"
  have k: "0 \<le> ?k" "?k < 64" using field_range [of v 26 "0x3f"] by simp_all
  have j: "0 \<le> ?j" "?j < 64" using and_le [of v "0x3f"] by simp_all
  obtain op f where e: "opTable ! nat ?k = (op, f)" by fastforce
  have g: "aget opTable ?k = Inr (op, f)" using k e by (simp add: aget_ok length_tables)
  have "nat ?k < length opTable" using k by (simp add: length_tables nat_less_iff)
  then have oe: "handled op \<or> op = SPECIAL \<or> op = BCOND" using opTable_entries e by (auto simp: list_all_length)
  have gs: "aget specialTable ?j = Inr (specialTable ! nat ?j)" using j by (simp add: aget_ok length_tables)
  have "nat ?j < length specialTable" using j by (simp add: length_tables nat_less_iff del: nat_uint_eq)
  then have se: "handled (specialTable ! nat ?j)" using specialTable_entries by (auto simp: list_all_length)
  have r: "field v n 0x1f < 32" "0 \<le> field v n 0x1f" for n using field_range [of v n "0x1f"] by simp_all
  have b: "handled OP_BLTZ" "handled OP_BGEZ" "handled OP_BLTZAL" "handled OP_BGEZAL" "handled OP_UNIMP"
    by (simp_all add: handled_def)
  show ?thesis using g gs oe se r b by (auto simp: Decode_def Let_def decoded_def)
qed

text \<open>C40: Decoding never runs out of its tables: every word decodes to an instruction whose register
  fields name registers and whose opcode is one the simulator has a case for.\<close>

theorem Decode_total:
  "\<exists>i. Decode v = Inr i \<and> i_value i = v \<and> decoded i \<and> handled (opCode i)"
  by (rule Decode_ok)

text \<open>Every decoded instruction has its own line in the trace.\<close>

definition named_op :: "int \<Rightarrow> bool" where
  "named_op op \<longleftrightarrow> fst (opStrings ! nat op) \<noteq> fst (opStrings ! 0)"

lemma handled_named: "handled op \<Longrightarrow> named_op op"
proof -
  assume h: "handled op"
  have all: "list_all (\<lambda>op. op \<in> {15, 30, 33, 41} \<or> named_op op) [1..63]"
    by code_simp
  then show ?thesis using h by (auto simp: list_all_iff handled_def)
qed

section \<open>Instructions keep the machine in good order\<close>

definition effect_ok :: "'a effect \<Rightarrow> bool" where
  "effect_ok e = (case e of Goes s pc r v \<Rightarrow> machine_shape s \<and> 0 \<le> r \<and> r < 32 | Returned s \<Rightarrow> machine_ok s)"

text \<open>The ways an instruction itself can stop the simulator: an unaligned \<open>LWL\<close>, \<open>LWR\<close>, \<open>SWL\<close> or
  \<open>SWR\<close>, and the quotient \<open>INT_MIN / -1\<close>.\<close>

definition cpu_fault :: "'a machine_scheme \<Rightarrow> Instruction \<Rightarrow> fault \<Rightarrow> bool" where
  "cpu_fault s i e \<longleftrightarrow>
     (let a = registers s ! nat (i_rs i); b = registers s ! nat (i_rt i) in
      (e = AssertFailed \<and> opCode i \<in> {OP_LWL, OP_LWR, OP_SWL, OP_SWR} \<and> (a + extra i) AND 3 \<noteq> 0)
    \<or> (e = UndefinedArith \<and> opCode i = OP_DIV \<and> a = SIGN_BIT \<and> b = -1))"

definition steps :: "(fault \<Rightarrow> bool) \<Rightarrow> 'a kernel \<Rightarrow> 'a effect res \<Rightarrow> bool" where
  "steps F h m \<longleftrightarrow> (case m of Inr e \<Rightarrow> effect_ok e | Inl e \<Rightarrow> F e \<or> (\<exists>which s. h which s = Inl e))"

lemma steps_Inr [simp]: "steps F h (Inr e) = effect_ok e"
  by (simp add: steps_def)

lemma effect_ok_simps [simp]:
  "effect_ok (Goes s pc r v) \<longleftrightarrow> machine_shape s \<and> 0 \<le> r \<and> r < 32" "effect_ok (Returned s) = machine_ok s"
  by (simp_all add: effect_ok_def)

lemma shape_set_reg:
  assumes "machine_shape s" "0 \<le> k" "k < 34"
  shows "set_reg s k v = Inr (s\<lparr>registers := (registers s)[nat k := v]\<rparr>)"
    "machine_shape (s\<lparr>registers := (registers s)[nat k := v]\<rparr>)"
  using assms machine_shapeD [OF assms(1)] by (simp_all add: set_reg_ok machine_shape_def nat_eq_iff)

lemma shape_reg: "machine_shape s \<Longrightarrow> 0 \<le> k \<Longrightarrow> k < 40 \<Longrightarrow> reg s k = Inr (registers s ! nat k)"
  using machine_shapeD(1) by (rule reg_ok)

lemma put_steps: "machine_shape s \<Longrightarrow> 0 \<le> k \<Longrightarrow> k < 34 \<Longrightarrow> steps F h (put s k v pc)"
  using shape_set_reg [of s k v] by (simp add: put_def effect_ok_def)

lemma kept_steps:
  assumes "kept h f m" "\<And>x. m = Inr x \<Longrightarrow> machine_ok (f x) \<Longrightarrow> steps F h (k x)"
  shows "steps F h (rbind m k)"
  using assms by (cases m) (auto simp: kept_def steps_def)

lemma trap_steps: "kernel_keeps h \<Longrightarrow> machine_ok s \<Longrightarrow> steps F h (trap h s which bad)"
  unfolding trap_def by (rule kept_steps [OF RaiseException_kept]) (simp_all add: effect_ok_def)

lemma reading_steps:
  assumes "kernel_keeps h" "machine_ok s" "sz \<in> {1, 2, 4}" "\<And>s v. machine_ok s \<Longrightarrow> steps F h (k s v)"
  shows "steps F h (reading h s addr sz k)"
  unfolding reading_def using assms(4)
  by (intro kept_steps [OF ReadMem_kept [OF assms(1-3)]]) (auto simp: effect_ok_def)

lemma writing_steps:
  assumes "kernel_keeps h" "machine_ok s" "sz \<in> {1, 2, 4}"
  shows "steps F h (writing_mem h s addr sz v pc)"
  unfolding writing_mem_def
  by (intro kept_steps [OF WriteMem_kept [OF assms]]) (auto simp: effect_ok_def machine_okD)

lemma operands_ok:
  "machine_shape s \<Longrightarrow> decoded i \<Longrightarrow> operands s i k = k s (registers s ! nat (i_rs i)) (registers s ! nat (i_rt i))"
  by (simp add: operands_def shape_reg decoded_def)

lemmas exec_simps = operands_ok machine_okD(5) Let_def put_steps trap_steps reading_steps writing_steps

lemma decodedD:
  assumes "decoded i"
  shows "0 \<le> i_rs i" "i_rs i < 32" "0 \<le> i_rt i" "i_rt i < 32" "0 \<le> i_rd i" "i_rd i < 32"
    "i_rt i < 34" "i_rd i < 34" "i_rt i < 40" "i_rs i < 40"
  using assms by (simp_all add: decoded_def)

lemma exec_add_steps:
  assumes h: "kernel_keeps h" and ok: "machine_ok s" and d: "decoded i"
    and other: "opCode i \<notin> {1, 2, 3, 4, 5, 6} \<Longrightarrow> steps F h other"
  shows "steps F h (exec_add h s i pc other)"
  unfolding exec_add_def operands_ok [OF machine_okD(5) [OF ok] d] Let_def
  using h ok decodedD [OF d] other by (auto intro!: put_steps trap_steps simp: machine_okD(5))

lemma exec_branch_steps:
  assumes ok: "machine_ok s" and d: "decoded i"
    and other: "opCode i \<notin> {7, 8, 9, 10, 11, 12, 13, 14} \<Longrightarrow> steps F h other"
  shows "steps F h (exec_branch h s i pc other)"
proof -
  note sh = machine_okD(5) [OF ok]
  have n: "reg s 35 = Inr (registers s ! 35)" using shape_reg [OF sh, of 35] by simp
  note l = shape_set_reg [OF sh, of 31, simplified]
  have r: "\<exists>a. reg (s\<lparr>registers := (registers s)[31 := v]\<rparr>) (i_rs i) = Inr a" for v
    using shape_reg [OF l(2)] decodedD [OF d] by blast
  show ?thesis
    unfolding exec_branch_def operands_ok [OF sh d] Let_def n rbind_Inr
    using sh other l r [of "registers s ! 35 + 4"] by auto
qed

lemma exec_div_jump_steps:
  assumes ok: "machine_ok s" and d: "decoded i" and F: "\<And>e. cpu_fault s i e \<Longrightarrow> F e"
    and other: "opCode i \<notin> {16, 17, 18, 19, 20, 21} \<Longrightarrow> steps F h other"
  shows "steps F h (exec_div_jump h s i pc other)"
proof -
  note sh = machine_okD(5) [OF ok]
  have n: "reg s 35 = Inr (registers s ! 35)" using shape_reg [OF sh, of 35] by simp
  note l = shape_set_reg [OF sh, of 31, simplified]
  have r: "\<exists>s' a. set_reg s (i_rd i) v = Inr s' \<and> machine_shape s' \<and> reg s' (i_rs i) = Inr a" for v
    using shape_set_reg [OF sh, of "i_rd i" v] shape_reg [of "s\<lparr>registers := (registers s)[nat (i_rd i) := v]\<rparr>" "i_rs i"]
      decodedD [OF d] by auto
  have hl: "steps F h (rbind (set_reg s 33 x) (\<lambda>s. put s 32 y pc))" for x y
    using shape_set_reg [OF sh, of 33 x] by (simp add: put_steps)
  have ov: "opCode i = 16 \<Longrightarrow> registers s ! nat (i_rs i) = 0x80000000 \<Longrightarrow> registers s ! nat (i_rt i) = -1 \<Longrightarrow> F UndefinedArith"
    by (rule F) (simp add: cpu_fault_def Let_def)
  show ?thesis
    unfolding exec_div_jump_def operands_ok [OF sh d] Let_def n rbind_Inr
    using sh other l r [of "registers s ! 35 + 4"] hl ov by (auto simp: steps_def [of _ _ "Inl _"])
qed

lemma exec_load_steps:
  assumes h: "kernel_keeps h" and ok: "machine_ok s" and d: "decoded i"
    and other: "opCode i \<notin> {22, 23, 24, 25, 26, 27} \<Longrightarrow> steps F h other"
  shows "steps F h (exec_load h s i pc other)"
  unfolding exec_load_def operands_ok [OF machine_okD(5) [OF ok] d] Let_def
  using h ok decodedD [OF d] other
  by (auto intro!: put_steps trap_steps reading_steps simp: machine_okD(5))

lemma aligned_or_fault:
  assumes "\<And>e. cpu_fault s i e \<Longrightarrow> F e" "opCode i \<in> {28, 29, 57, 58}"
    and "(registers s ! nat (i_rs i) + extra i) AND 3 = 0 \<Longrightarrow> steps F h (k ())"
  shows "steps F h (rbind (ASSERT ((registers s ! nat (i_rs i) + extra i) AND 3 = 0)) k)"
proof (cases "(registers s ! nat (i_rs i) + extra i) AND 3 = 0")
  case True
  with assms(3) show ?thesis by simp
next
  case False
  then have "F AssertFailed" using assms(1,2) by (auto simp: cpu_fault_def Let_def)
  with False show ?thesis by (simp add: steps_def)
qed

lemma merge_source_ok: "machine_ok s \<Longrightarrow> decoded i \<Longrightarrow> \<exists>v. merge_source s i = Inr v"
  using shape_reg [of s 37] shape_reg [of s 38] shape_reg [of s "i_rt i"] machine_okD(5) [of s] decodedD [of i]
  by (auto simp: merge_source_def)

lemma exec_load_part_steps:
  assumes h: "kernel_keeps h" and ok: "machine_ok s" and d: "decoded i" and F: "\<And>e. cpu_fault s i e \<Longrightarrow> F e"
    and other: "opCode i \<notin> {28, 29} \<Longrightarrow> steps F h other"
  shows "steps F h (exec_load_part h s i pc other)"
proof -
  have m: "steps F h (rbind (merge_source s' i) (\<lambda>nv. Inr (Goes s' pc (i_rt i) (g nv))))" if "machine_ok s'" for s' g
    using merge_source_ok [OF that d] decodedD [OF d] that by (auto simp: machine_okD(5))
  show ?thesis
    unfolding exec_load_part_def operands_ok [OF machine_okD(5) [OF ok] d] Let_def
    using h ok other F by (auto intro!: aligned_or_fault reading_steps m)
qed

lemma exec_mult_logic_steps:
  assumes ok: "machine_ok s" and d: "decoded i"
    and other: "opCode i \<notin> {31, 32, 34, 35, 36, 37, 38, 39, 40} \<Longrightarrow> steps F h other"
  shows "steps F h (exec_mult_logic h s i pc other)"
proof -
  note sh = machine_okD(5) [OF ok]
  have n: "reg s 32 = Inr (registers s ! 32)" "reg s 33 = Inr (registers s ! 33)"
    using shape_reg [OF sh, of 32] shape_reg [OF sh, of 33] by simp_all
  have hl: "steps F h (rbind (set_reg s 32 x) (\<lambda>s. put s 33 y pc))" for x y
    using shape_set_reg [OF sh, of 32 x] by (simp add: put_steps)
  show ?thesis
    unfolding exec_mult_logic_def operands_ok [OF sh d] Let_def n rbind_Inr
    using sh other decodedD [OF d] hl by (auto simp: put_steps split: prod.split)
qed

lemma exec_store_shift_steps:
  assumes h: "kernel_keeps h" and ok: "machine_ok s" and d: "decoded i"
    and other: "opCode i \<notin> {42, 43, 44, 45} \<Longrightarrow> steps F h other"
  shows "steps F h (exec_store_shift h s i pc other)"
  unfolding exec_store_shift_def operands_ok [OF machine_okD(5) [OF ok] d] Let_def
  using h ok decodedD [OF d] other by (auto intro!: put_steps writing_steps simp: machine_okD(5))

lemma exec_compare_steps:
  assumes ok: "machine_ok s" and d: "decoded i"
    and other: "opCode i \<notin> {46, 47, 48, 49} \<Longrightarrow> steps F h other"
  shows "steps F h (exec_compare h s i pc other)"
  unfolding exec_compare_def operands_ok [OF machine_okD(5) [OF ok] d] Let_def
  using ok decodedD [OF d] other by (auto intro!: put_steps simp: machine_okD(5))

lemma exec_shift_sub_steps:
  assumes h: "kernel_keeps h" and ok: "machine_ok s" and d: "decoded i"
    and other: "opCode i \<notin> {50, 51, 52, 53, 54, 55, 56} \<Longrightarrow> steps F h other"
  shows "steps F h (exec_shift_sub h s i pc other)"
  unfolding exec_shift_sub_def operands_ok [OF machine_okD(5) [OF ok] d] Let_def
  using h ok decodedD [OF d] other by (auto intro!: put_steps writing_steps trap_steps simp: machine_okD(5))

lemma exec_store_part_steps:
  assumes h: "kernel_keeps h" and ok: "machine_ok s" and d: "decoded i" and F: "\<And>e. cpu_fault s i e \<Longrightarrow> F e"
    and other: "opCode i \<notin> {57, 58} \<Longrightarrow> steps F h other"
  shows "steps F h (exec_store_part h s i pc other)"
proof -
  have m: "steps F h (rbind (reg s' (i_rt i)) (\<lambda>b. writing_mem h s' addr 4 (g b) pc))" if "machine_ok s'" for s' g addr
    using shape_reg [OF machine_okD(5) [OF that]] decodedD [OF d] writing_steps [OF h that] by simp
  show ?thesis
    unfolding exec_store_part_def operands_ok [OF machine_okD(5) [OF ok] d] Let_def
    using h ok other F by (auto intro!: aligned_or_fault reading_steps m)
qed

lemma exec_rest_steps:
  assumes h: "kernel_keeps h" and ok: "machine_ok s" and d: "decoded i" and op: "opCode i \<in> {59, 60, 61, 62, 63}"
  shows "steps F h (exec_rest h s i pc)"
  unfolding exec_rest_def operands_ok [OF machine_okD(5) [OF ok] d] Let_def
  using h ok decodedD [OF d] op by (auto intro!: put_steps trap_steps simp: machine_okD(5))

lemma execute_steps:
  assumes h: "kernel_keeps h" and ok: "machine_ok s" and d: "decoded i" and op: "handled (opCode i)"
  shows "steps (cpu_fault s i) h (execute h s i pc)"
  unfolding execute_def
  apply (rule exec_add_steps [OF h ok d])
  apply (rule exec_branch_steps [OF ok d])
  apply (rule exec_div_jump_steps [OF ok d], assumption)
  apply (rule exec_load_steps [OF h ok d])
  apply (rule exec_load_part_steps [OF h ok d], assumption)
  apply (rule exec_mult_logic_steps [OF ok d])
  apply (rule exec_store_shift_steps [OF h ok d])
  apply (rule exec_compare_steps [OF ok d])
  apply (rule exec_shift_sub_steps [OF h ok d])
  apply (rule exec_store_part_steps [OF h ok d], assumption)
  apply (rule exec_rest_steps [OF h ok d])
  using op apply (simp add: handled_def)
  apply presburger
  done

lemma pc_update:
  assumes "machine_ok s"
  shows "\<exists>s'. rbind (reg s 34) (\<lambda>pc. rbind (set_reg s 36 pc) (\<lambda>s. rbind (reg s 35) (\<lambda>nx.
      rbind (set_reg s 34 nx) (\<lambda>s. set_reg s 35 pcAfter)))) = Inr s' \<and> machine_ok s'
    \<and> s' = s\<lparr>registers := (registers s)[36 := registers s ! 34, 34 := registers s ! 35, 35 := pcAfter]\<rparr>"
  using machine_okD [OF assms] assms
  by (simp add: reg_ok set_reg_ok machine_ok_def machine_shape_def)

text \<open>C18: One instruction keeps the machine in good order (register 0 is 0, the pending load goes to a
  general register, memory and tables keep their sizes). The only faults are the kernel's own, and
  the two the processor has: an unaligned partial access and a division \<open>INT_MIN / -1\<close>.\<close>

theorem OneInstruction_safe:
  assumes h: "kernel_keeps h" and ok: "machine_ok s"
  shows "case OneInstruction h s of
      Inr s' \<Rightarrow> machine_ok s'
    | Inl e \<Rightarrow> (\<exists>which s'. h which s' = Inl e)
        \<or> (\<exists>raw s1 i. ReadMem h s (registers s ! 34) 4 = Inr (True, raw, s1) \<and> Decode raw = Inr i \<and> cpu_fault s1 i e)"
proof -
  have pc: "reg s 34 = Inr (registers s ! 34)" using shape_reg [OF machine_okD(5) [OF ok], of 34] by simp
  note rd = ReadMem_kept [OF h ok, of 4 "registers s ! 34"]
  show ?thesis
  proof (cases "ReadMem h s (registers s ! 34) 4")
    case (Inl e)
    then show ?thesis using pc rd by (auto simp: OneInstruction_def kept_def)
  next
    case (Inr x)
    obtain fetched raw s1 where x: "x = (fetched, raw, s1)" by (cases x)
    have ok1: "machine_ok s1" using rd Inr x by simp
    show ?thesis
    proof (cases fetched)
      case False
      then show ?thesis using pc Inr x ok1 by (simp add: OneInstruction_def)
    next
      case True
      obtain i where i: "Decode raw = Inr i" "decoded i" "handled (opCode i)" using Decode_ok by blast
      have nx: "reg s1 35 = Inr (registers s1 ! 35)" using shape_reg [OF machine_okD(5) [OF ok1], of 35] by simp
      let ?pa = "registers s1 ! 35 + 4"
      note ex = execute_steps [OF h ok1 i(2,3), of ?pa]
      show ?thesis
      proof (cases "execute h s1 i ?pa")
        case (Inl e)
        with ex have "cpu_fault s1 i e \<or> (\<exists>which s. h which s = Inl e)" by (simp add: steps_def)
        then show ?thesis using pc Inr x True i(1) nx Inl by (auto simp: OneInstruction_def)
      next
        case r: (Inr eff)
        show ?thesis
        proof (cases eff)
          case (Returned s2)
          then show ?thesis using pc Inr x True i nx r ex by (simp add: OneInstruction_def)
        next
          case (Goes s2 pcAfter lr lv)
          then have "machine_shape s2" "0 \<le> lr" "lr < 32" using ex r by simp_all
          from DelayedLoad_ok [OF this] obtain s3 where "DelayedLoad s2 lr lv = Inr s3" "machine_ok s3" by blast
          then show ?thesis using pc Inr x True i nx r Goes pc_update [of s3 pcAfter]
            by (auto simp: OneInstruction_def)
        qed
      qed
    qed
  qed
qed

theorem OneInstruction_safe_witness:
  "case OneInstruction sample_kernel (sample_machine sample_regs 0x8C010000) of
      Inr s' \<Rightarrow> machine_ok s'
    | Inl e \<Rightarrow> \<exists>raw s1 i. ReadMem sample_kernel (sample_machine sample_regs 0x8C010000) 0 4 = Inr (True, raw, s1)
        \<and> Decode raw = Inr i \<and> cpu_fault s1 i e"
  using OneInstruction_safe [OF sample_kernel_keeps sample_machine_ok [of sample_regs "0x8C010000"]]
  by (auto simp: sample_kernel_def split: sum.splits)

section \<open>Arithmetic and its traps\<close>

lemma sint_add_s32: "sint (a + b) = s32 (sint a + sint b)" for a b :: "32 word"
  by (simp add: sint_word_ariths signed_take_bit_eq_take_bit_shift s32_def take_bit_eq_mod)

lemma sint_sub_s32: "sint (a - b) = s32 (sint a - sint b)" for a b :: "32 word"
  by (simp add: sint_word_ariths signed_take_bit_eq_take_bit_shift s32_def take_bit_eq_mod)

lemma s32_wrap: "2 ^ 31 \<le> x \<Longrightarrow> x < 2 ^ 32 \<Longrightarrow> s32 x = x - 2 ^ 32"
  "x < - (2 ^ 31) \<Longrightarrow> - (2 ^ 32) \<le> x \<Longrightarrow> s32 x = x + 2 ^ 32"
proof -
  have e: "s32 x = r" if "x + 2 ^ 31 = r + 2 ^ 31 + k * 2 ^ 32" "0 \<le> r + 2 ^ 31" "r + 2 ^ 31 < 2 ^ 32" for r k
    unfolding s32_def that(1) using that(2,3) by simp
  show "2 ^ 31 \<le> x \<Longrightarrow> x < 2 ^ 32 \<Longrightarrow> s32 x = x - 2 ^ 32" by (rule e [of _ 1]) simp_all
  show "x < - (2 ^ 31) \<Longrightarrow> - (2 ^ 32) \<le> x \<Longrightarrow> s32 x = x + 2 ^ 32" by (rule e [of _ "-1"]) simp_all
qed

lemma sign_xor: "sign (a XOR b) \<longleftrightarrow> sign a \<noteq> sign b"
  by (auto simp: sign_bit31 bit_xor_iff)

lemma add_overflow: "(\<not> sign (a XOR b) \<and> sign (a XOR (a + b))) \<longleftrightarrow> \<not> in_int32 (sint a + sint b)"
proof -
  define x where "x = sint a + sint b"
  have s: "sint (a + b) = s32 x" by (simp add: sint_add_s32 x_def)
  have r: "- (2 ^ 32) \<le> x" "x < 2 ^ 32" using sint_bounds [of a] sint_bounds [of b] by (simp_all add: x_def)
  have "sint (a + b) = (if in_int32 x then x else if x < 0 then x + 2 ^ 32 else x - 2 ^ 32)"
    using s s32_id s32_wrap r by (auto simp: in_int32_def)
  then show ?thesis unfolding sign_xor unfolding sign_sint x_def [symmetric]
    using sint_bounds [of a] sint_bounds [of b] r x_def by (auto simp: in_int32_def)
qed

lemma sub_overflow: "(sign (a XOR b) \<and> sign (a XOR (a - b))) \<longleftrightarrow> \<not> in_int32 (sint a - sint b)"
proof -
  define x where "x = sint a - sint b"
  have s: "sint (a - b) = s32 x" by (simp add: sint_sub_s32 x_def)
  have r: "- (2 ^ 32) \<le> x" "x < 2 ^ 32" using sint_bounds [of a] sint_bounds [of b] by (simp_all add: x_def)
  have "sint (a - b) = (if in_int32 x then x else if x < 0 then x + 2 ^ 32 else x - 2 ^ 32)"
    using s s32_id s32_wrap r by (auto simp: in_int32_def)
  then show ?thesis unfolding sign_xor unfolding sign_sint x_def [symmetric]
    using sint_bounds [of a] sint_bounds [of b] r x_def by (auto simp: in_int32_def)
qed

text \<open>Which signed result an instruction computes, for the three that check overflow.\<close>

definition checked_result :: "32 word \<Rightarrow> 32 word \<Rightarrow> Instruction \<Rightarrow> (int \<times> int) option" where
  "checked_result a b i =
     (if opCode i = OP_ADD then Some (i_rd i, sint a + sint b)
      else if opCode i = OP_ADDI then Some (i_rt i, sint a + sint (extra i))
      else if opCode i = OP_SUB then Some (i_rd i, sint a - sint b) else None)"

text \<open>\<open>ADD\<close>, \<open>ADDI\<close> and \<open>SUB\<close> store the result when the mathematical sum or difference fits in 32
  bits, and otherwise raise the overflow exception and store nothing: the sign test of the code is
  exact.\<close>

theorem overflow_traps:
  assumes ok: "machine_ok s" and d: "decoded i"
    and c: "checked_result (registers s ! nat (i_rs i)) (registers s ! nat (i_rt i)) i = Some (k, v)"
  shows "execute h s i pc = (if in_int32 v then put s k (word_of_int v) pc else trap h s OverflowException 0)"
proof -
  let ?a = "registers s ! nat (i_rs i)" and ?b = "registers s ! nat (i_rt i)"
  note op = operands_ok [OF machine_okD(5) [OF ok] d]
  have w: "word_of_int (sint ?a + sint ?b) = ?a + ?b" "word_of_int (sint ?a + sint (extra i)) = ?a + extra i"
      "word_of_int (sint ?a - sint ?b) = ?a - ?b" by simp_all
  have sx: "(\<not> sign (?a XOR extra i) \<and> sign (extra i XOR (?a + extra i))) \<longleftrightarrow> \<not> in_int32 (sint ?a + sint (extra i))"
    using add_overflow [of ?a "extra i"] by (auto simp: sign_xor)
  consider "opCode i = 1" "k = i_rd i" "v = sint ?a + sint ?b" | "opCode i = 2" "k = i_rt i" "v = sint ?a + sint (extra i)"
    | "opCode i = 54" "k = i_rd i" "v = sint ?a - sint ?b"
    using c by (auto simp: checked_result_def split: if_splits)
  then show ?thesis
  proof cases
    case 1
    then show ?thesis using add_overflow [of ?a ?b] w(1) by (simp add: execute_def exec_add_def op Let_def)
  next
    case 2
    then show ?thesis using sx w(2) by (simp add: execute_def exec_add_def op Let_def)
  next
    case 3
    have nx: "reg s 35 = Inr (registers s ! 35)" using shape_reg [OF machine_okD(5) [OF ok], of 35] by simp
    show ?thesis using 3 sub_overflow [of ?a ?b] w(3) nx
      by (simp add: execute_def exec_add_def exec_branch_def exec_div_jump_def exec_load_def exec_load_part_def
          exec_mult_logic_def exec_store_shift_def exec_compare_def exec_shift_sub_def op Let_def)
  qed
qed

definition sample_instr :: "int \<Rightarrow> 32 word \<Rightarrow> Instruction" where
  "sample_instr op ex = \<lparr>i_value = 0, opCode = op, i_rs = 1, i_rt = 1, i_rd = 2, extra = ex\<rparr>"

lemma sample_instr [simp]: "decoded (sample_instr op ex)" "opCode (sample_instr op ex) = op" "i_rs (sample_instr op ex) = 1"
  "i_rt (sample_instr op ex) = 1" "i_rd (sample_instr op ex) = 2" "extra (sample_instr op ex) = ex"
  by (simp_all add: sample_instr_def decoded_def)

lemma sample_machine_reg1 [simp]: "machine_ok (sample_machine (sample_regs[1 := v]) w)"
  by (rule sample_machine_ok) (simp_all add: nth_list_update)

theorem overflow_traps_witness:
  "execute sample_kernel (sample_machine (sample_regs[1 := 0x7fffffff]) 0) (sample_instr OP_ADD 0) 8
    = trap sample_kernel (sample_machine (sample_regs[1 := 0x7fffffff]) 0) OverflowException 0"
  using overflow_traps [OF sample_machine_reg1 [of "0x7fffffff" 0] sample_instr(1) [of OP_ADD 0], of 2 "0xfffffffe" sample_kernel 8]
  by (simp add: checked_result_def in_int32_def)

section \<open>Two instructions that do not do what their names say\<close>

lemmas exec_defs = execute_def exec_add_def exec_branch_def exec_div_jump_def exec_load_def exec_load_part_def
  exec_mult_logic_def exec_store_shift_def exec_compare_def exec_shift_sub_def exec_store_part_def exec_rest_def

lemma signed_shift_neq:
  assumes "sign b" "0 < n" "n < 32"
  shows "signed_drop_bit n b \<noteq> drop_bit n (b :: 32 word)"
proof -
  have "bit (signed_drop_bit n b) 31" "\<not> bit (drop_bit n b) 31"
    using assms bit_imp_le_length [of b "n + 31"] by (auto simp: bit_simps sign_bit31)
  then show ?thesis by auto
qed

text \<open>\<open>SRL\<close> and \<open>SRLV\<close> are logical shifts, but the code shifts a signed \<open>int\<close>: the sign comes in
  from the left, and the result is wrong for every negative operand.\<close>

theorem SRL_is_arithmetic:
  assumes ok: "machine_ok s" and d: "decoded i" and op: "opCode i = OP_SRL"
    and n: "0 < unat (extra i)" "unat (extra i) < 32" and neg: "sign (registers s ! nat (i_rt i))"
  shows "\<exists>v. execute h s i pc = put s (i_rd i) v pc \<and> v = signed_drop_bit (unat (extra i)) (registers s ! nat (i_rt i))
    \<and> v \<noteq> drop_bit (unat (extra i)) (registers s ! nat (i_rt i))"
proof -
  have nx: "reg s 35 = Inr (registers s ! 35)" using shape_reg [OF machine_okD(5) [OF ok], of 35] by simp
  have "execute h s i pc = put s (i_rd i) (signed_drop_bit (unat (extra i)) (registers s ! nat (i_rt i))) pc"
    using op nx by (simp add: exec_defs operands_ok [OF machine_okD(5) [OF ok] d] Let_def)
  then show ?thesis using signed_shift_neq [OF neg n] by blast
qed

theorem SRL_is_arithmetic_witness:
  "\<exists>v. execute sample_kernel (sample_machine (sample_regs[1 := 0x80000000]) 0) (sample_instr OP_SRL 1) 8
      = put (sample_machine (sample_regs[1 := 0x80000000]) 0) 2 v 8 \<and> v \<noteq> drop_bit 1 0x80000000"
  using SRL_is_arithmetic [OF sample_machine_reg1 [of "0x80000000" 0] sample_instr(1,2) [of OP_SRL 1], of sample_kernel 8]
  by (auto simp: sign_def)

text \<open>\<open>OR\<close> writes \<open>rs | rs\<close>: the second operand has no influence.\<close>

theorem OR_ignores_rt:
  assumes ok: "machine_ok s" and d: "decoded i" and op: "opCode i = OP_OR"
  shows "execute h s i pc = put s (i_rd i) (registers s ! nat (i_rs i)) pc"
proof -
  have nx: "reg s 35 = Inr (registers s ! 35)" using shape_reg [OF machine_okD(5) [OF ok], of 35] by simp
  show ?thesis using op nx by (simp add: exec_defs operands_ok [OF machine_okD(5) [OF ok] d] Let_def)
qed

theorem OR_ignores_rt_witness:
  "execute sample_kernel (sample_machine (sample_regs[1 := 6]) 0) (sample_instr OP_OR 0\<lparr>i_rt := 3\<rparr>) 8
    = put (sample_machine (sample_regs[1 := 6]) 0) 2 6 8"
  using OR_ignores_rt [OF sample_machine_reg1 [of 6 0], of "sample_instr OP_OR 0\<lparr>i_rt := 3\<rparr>" sample_kernel 8]
  by (simp add: decoded_def)

section \<open>Delay slots\<close>

lemma ReadMem_success:
  assumes ok: "machine_ok s" and sz: "sz \<in> {1, 2, 4}" and r: "ReadMem h s va sz = Inr (True, v, s')"
  shows "registers s' = registers s" "mainMemory s' = mainMemory s" "machine_ok s'"
proof -
  from Translate_total [OF ok sz, of va False] obtain exc pa s1 where t: "Translate s va sz False = Inr (exc, pa, s1)"
    and m: "machine_ok s1" "registers s1 = registers s" "mainMemory s1 = mainMemory s" by blast
  have "s' = s1" using r t by (auto simp: ReadMem_def elim!: rbind_InrE split: if_split_asm)
  with m show "registers s' = registers s" "mainMemory s' = mainMemory s" "machine_ok s'" by simp_all
qed

text \<open>How an instruction that goes through ends: the pending load arrives, the next one is
  noted, and the program counters move on.\<close>

lemma OneInstruction_goes:
  assumes ok: "machine_ok s" and f: "ReadMem h s (registers s ! 34) 4 = Inr (True, raw, s1)"
    and i: "Decode raw = Inr i" and e: "execute h s1 i (registers s ! 35 + 4) = Inr (Goes s2 pcAfter lr lv)"
    and s2: "machine_shape s2" "0 \<le> lr" "lr < 32"
  shows "\<exists>s3 s'. OneInstruction h s = Inr s' \<and> machine_ok s'
    \<and> s3 = s2\<lparr>registers := (registers s2)[unat (registers s2 ! 37) := registers s2 ! 38, 37 := word_of_int lr, 38 := lv, 0 := 0]\<rparr>
    \<and> s' = s3\<lparr>registers := (registers s3)[36 := registers s3 ! 34, 34 := registers s3 ! 35, 35 := pcAfter]\<rparr>"
proof -
  have pc: "reg s 34 = Inr (registers s ! 34)" using shape_reg [OF machine_okD(5) [OF ok], of 34] by simp
  note s1 = ReadMem_success [OF ok _ f, simplified]
  have nx: "reg s1 35 = Inr (registers s ! 35)" using shape_reg [OF machine_okD(5) [OF s1(3)], of 35] s1(1) by simp
  from DelayedLoad_ok [OF s2] obtain s3 where d: "DelayedLoad s2 lr lv = Inr s3" "machine_ok s3"
    "s3 = s2\<lparr>registers := (registers s2)[unat (registers s2 ! 37) := registers s2 ! 38, 37 := word_of_int lr, 38 := lv, 0 := 0]\<rparr>"
    by blast
  from pc_update [OF d(2), of pcAfter] obtain s' where "rbind (reg s3 34) (\<lambda>pc. rbind (set_reg s3 36 pc) (\<lambda>s. rbind (reg s 35) (\<lambda>nx.
      rbind (set_reg s 34 nx) (\<lambda>s. set_reg s 35 pcAfter)))) = Inr s'" "machine_ok s'"
      "s' = s3\<lparr>registers := (registers s3)[36 := registers s3 ! 34, 34 := registers s3 ! 35, 35 := pcAfter]\<rparr>" by blast
  then show ?thesis using pc f i nx e d by (auto simp: OneInstruction_def)
qed

text \<open>A word load: the register still has its old value for the next instruction (unless an
  earlier load into it arrives now), the loaded word is pending, and PC moves to NextPC.\<close>

theorem LW_delayed:
  assumes ok: "machine_ok s" and f: "ReadMem h s (registers s ! 34) 4 = Inr (True, raw, s1)"
    and i: "Decode raw = Inr i" "opCode i = OP_LW"
    and addr: "addr = registers s ! nat (i_rs i) + extra i" "addr AND 3 = 0"
    and l: "ReadMem h s1 addr 4 = Inr (True, v, s2)"
  shows "\<exists>s'. OneInstruction h s = Inr s' \<and> registers s' ! 37 = word_of_int (i_rt i) \<and> registers s' ! 38 = v
    \<and> registers s' ! 34 = registers s ! 35 \<and> registers s' ! 35 = registers s ! 35 + 4
    \<and> (\<forall>k. 0 < k \<and> k < 32 \<longrightarrow> registers s' ! k
          = (if k = unat (registers s ! 37) then registers s ! 38 else registers s ! k))"
proof -
  note s1 = ReadMem_success [OF ok _ f, simplified] and s2 = ReadMem_success [OF s1(3) _ l, simplified]
  have d: "decoded i" using Decode_ok [of raw] i(1) by auto
  have nx: "reg s1 35 = Inr (registers s ! 35)" using shape_reg [OF machine_okD(5) [OF s1(3)], of 35] s1(1) by simp
  have "execute h s1 i (registers s ! 35 + 4) = Inr (Goes s2 (registers s ! 35 + 4) (i_rt i) v)"
    using i(2) nx l addr s1(1)
    by (simp add: exec_defs operands_ok [OF machine_okD(5) [OF s1(3)] d] Let_def reading_def)
  from OneInstruction_goes [OF ok f i(1) this machine_okD(5) [OF s2(3)] decodedD(3,4) [OF d]]
  show ?thesis using s1(1) s2(1) machine_okD [OF ok] by (auto simp: nth_list_update)
qed

theorem LW_delayed_witness:
  "\<exists>s'. OneInstruction sample_kernel (sample_machine sample_regs 0x8C010000) = Inr s'
     \<and> registers s' ! 37 = 1 \<and> registers s' ! 38 = 0x8C010000 \<and> registers s' ! 34 = 4 \<and> registers s' ! 1 = 0"
proof -
  let ?s = "sample_machine sample_regs 0x8C010000"
  let ?s1 = "?s\<lparr>totalcnt := 1, pageTable := Some [sample_entry True]\<rparr>"
  have ok: "machine_ok ?s" by (rule sample_machine_ok) simp_all
  have i: "Decode 0x8C010000 = Inr \<lparr>i_value = 0x8C010000, opCode = OP_LW, i_rs = 0, i_rt = 1, i_rd = 0, extra = 0\<rparr>"
    by (simp add: Decode_def field_def opTable_def aget_ok Let_def)
  have f: "ReadMem sample_kernel ?s (registers ?s ! 34) 4 = Inr (True, 0x8C010000, ?s1)"
    using sample_fetch [of sample_regs "0x8C010000"] by simp
  have l: "ReadMem sample_kernel ?s1 0 4 = Inr (True, 0x8C010000, ?s\<lparr>totalcnt := 2, pageTable := Some [sample_entry True]\<rparr>)"
    using sample_ReadMem [where rs = sample_regs and w = "0x8C010000" and n = 1 and u = True] by simp
  from LW_delayed [OF ok f i _ _ _ l] show ?thesis by auto
qed

text \<open>A taken branch: the instruction behind it (at NextPC) is executed next, then the target.\<close>

theorem BEQ_delay_slot:
  assumes ok: "machine_ok s" and f: "ReadMem h s (registers s ! 34) 4 = Inr (True, raw, s1)"
    and i: "Decode raw = Inr i" "opCode i = OP_BEQ"
  shows "\<exists>s'. OneInstruction h s = Inr s' \<and> registers s' ! 34 = registers s ! 35
    \<and> registers s' ! 35 = (if registers s ! nat (i_rs i) = registers s ! nat (i_rt i)
        then registers s ! 35 + push_bit 2 (extra i) else registers s ! 35 + 4)"
proof -
  note s1 = ReadMem_success [OF ok _ f, simplified]
  have d: "decoded i" using Decode_ok [of raw] i(1) by auto
  have nx: "reg s1 35 = Inr (registers s ! 35)" using shape_reg [OF machine_okD(5) [OF s1(3)], of 35] s1(1) by simp
  let ?t = "if registers s ! nat (i_rs i) = registers s ! nat (i_rt i)
        then registers s ! 35 + push_bit 2 (extra i) else registers s ! 35 + 4"
  have "execute h s1 i (registers s ! 35 + 4) = Inr (Goes s1 ?t 0 0)"
    using i(2) nx s1(1)
    by (simp add: exec_defs operands_ok [OF machine_okD(5) [OF s1(3)] d] Let_def IndexToAddr_def)
  from OneInstruction_goes [OF ok f i(1) this machine_okD(5) [OF s1(3)]]
  show ?thesis using s1(1) machine_okD [OF ok] by (auto simp: nth_list_update)
qed

theorem BEQ_delay_slot_witness:
  "\<exists>s'. OneInstruction sample_kernel (sample_machine sample_regs 0x10000005) = Inr s'
     \<and> registers s' ! 34 = 4 \<and> registers s' ! 35 = 24"
proof -
  let ?s = "sample_machine sample_regs 0x10000005"
  have ok: "machine_ok ?s" by (rule sample_machine_ok) simp_all
  have i: "Decode 0x10000005 = Inr \<lparr>i_value = 0x10000005, opCode = OP_BEQ, i_rs = 0, i_rt = 0, i_rd = 0, extra = 5\<rparr>"
    by (simp add: Decode_def field_def opTable_def aget_ok Let_def)
  have f: "ReadMem sample_kernel ?s (registers ?s ! 34) 4
      = Inr (True, 0x10000005, ?s\<lparr>totalcnt := 1, pageTable := Some [sample_entry True]\<rparr>)"
    using sample_fetch [of sample_regs "0x10000005"] by simp
  from BEQ_delay_slot [OF ok f i] show ?thesis by auto
qed

end
