(* ===== verification/Lists.thy ===== *)
theory Lists
  imports Prelude "HOL-Library.Multiset"
begin

text \<open>
  The singly linked lists of the kernel (threads/list.h, threads/list.cc), on an explicit heap of
  \<open>ListElement\<close>s. Every operation is shown to implement the operation on the list of items and
  sort keys that the rest of the development uses for a \<open>List\<close>. Items are pointers other than
  NULL; the address \<open>new\<close> returns is an argument, of which the theorems assume that it is not in
  use.
\<close>

section \<open>State and operations\<close>

record 'a list_element =
  nxt :: "nat option"
  key :: int
  item :: 'a

record 'a plist =
  heap :: "nat \<Rightarrow> 'a list_element option"
  first :: "nat option"
  last_elem :: "nat option"
  numInList :: int

definition ListElement :: "'a \<Rightarrow> int \<Rightarrow> 'a list_element" where
  "ListElement itemPtr sortKey = \<lparr>nxt = None, key = sortKey, item = itemPtr\<rparr>"

definition List_new :: "(nat \<Rightarrow> 'a list_element option) \<Rightarrow> 'a plist" where
  "List_new h = \<lparr>heap = h, first = None, last_elem = None, numInList = 0\<rparr>"

text \<open>Following a pointer, and storing into the \<open>next\<close> field of what it points to.\<close>

definition deref :: "(nat \<Rightarrow> 'a list_element option) \<Rightarrow> nat option \<Rightarrow> 'a list_element res" where
  "deref h p = (case p of None \<Rightarrow> Inl NullPointer
     | Some a \<Rightarrow> (case h a of None \<Rightarrow> Inl NullPointer | Some e \<Rightarrow> Inr e))"

definition set_next :: "'a plist \<Rightarrow> nat option \<Rightarrow> nat option \<Rightarrow> 'a plist res" where
  "set_next l p n = rbind (deref (heap l) p) (\<lambda>e. Inr (l\<lparr>heap := (heap l)(the p \<mapsto> e\<lparr>nxt := n\<rparr>)\<rparr>))"

definition IsEmpty :: "'a plist \<Rightarrow> bool" where
  "IsEmpty l \<longleftrightarrow> first l = None"

text \<open>\<open>new ListElement(item, k)\<close> at address \<open>a\<close>.\<close>

definition new_elem :: "nat \<Rightarrow> 'a \<Rightarrow> int \<Rightarrow> 'a plist \<Rightarrow> 'a plist" where
  "new_elem a x k l = l\<lparr>heap := (heap l)(a \<mapsto> ListElement x k)\<rparr>"

definition Append :: "nat \<Rightarrow> 'a \<Rightarrow> 'a plist \<Rightarrow> 'a plist res" where
  "Append a x l0 = (let l = new_elem a x 0 l0 in
     rbind (if IsEmpty l then Inr (l\<lparr>first := Some a, last_elem := Some a\<rparr>)
            else rbind (set_next l (last_elem l) (Some a)) (\<lambda>l. Inr (l\<lparr>last_elem := Some a\<rparr>)))
       (\<lambda>l. Inr (l\<lparr>numInList := numInList l + 1\<rparr>)))"

definition Prepend :: "nat \<Rightarrow> 'a \<Rightarrow> 'a plist \<Rightarrow> 'a plist res" where
  "Prepend a x l0 = (let l = new_elem a x 0 l0 in
     rbind (if IsEmpty l then Inr (l\<lparr>first := Some a, last_elem := Some a\<rparr>)
            else rbind (set_next l (Some a) (first l)) (\<lambda>l. Inr (l\<lparr>first := Some a\<rparr>)))
       (\<lambda>l. Inr (l\<lparr>numInList := numInList l + 1\<rparr>)))"

text \<open>The loop of \<open>SortedInsert\<close>: the element behind which the new one goes. On a cyclic list it
  need not end; \<open>None\<close> is that.\<close>

partial_function (option) insert_pos :: "(nat \<Rightarrow> 'a list_element option) \<Rightarrow> int \<Rightarrow> nat option \<Rightarrow> nat option res option" where
  "insert_pos h sortKey ptr =
     (case deref h ptr of Inl e \<Rightarrow> Some (Inl e)
      | Inr c \<Rightarrow> if nxt c = None then Some (Inr ptr)
          else (case deref h (nxt c) of Inl e \<Rightarrow> Some (Inl e)
                | Inr d \<Rightarrow> if sortKey < key d then Some (Inr ptr) else insert_pos h sortKey (nxt c)))"

text \<open>A loop that does not end has no result.\<close>

definition ends :: "'a res option \<Rightarrow> 'a res" where
  "ends r = (case r of None \<Rightarrow> Inl OutOfFuel | Some x \<Rightarrow> x)"

definition SortedInsert :: "nat \<Rightarrow> 'a \<Rightarrow> int \<Rightarrow> 'a plist \<Rightarrow> 'a plist res" where
  "SortedInsert a x sortKey l0 = (let l = new_elem a x sortKey l0; count = (\<lambda>l. Inr (l\<lparr>numInList := numInList l + 1\<rparr>)) in
     if IsEmpty l then count (l\<lparr>first := Some a, last_elem := Some a\<rparr>)
     else rbind (deref (heap l) (first l)) (\<lambda>f.
       if sortKey < key f then rbind (set_next l (Some a) (first l)) (\<lambda>l. count (l\<lparr>first := Some a\<rparr>))
       else rbind (ends (insert_pos (heap l) sortKey (first l))) (\<lambda>ptr.
         rbind (deref (heap l) ptr) (\<lambda>c.
         if nxt c = None then
           rbind (set_next l (last_elem l) (Some a)) (\<lambda>l. count (l\<lparr>last_elem := Some a\<rparr>))
         else rbind (set_next l (Some a) (nxt c)) (\<lambda>l. rbind (set_next l ptr (Some a)) count)))))"

text \<open>The removed item with its key, or \<open>None\<close> for the NULL that says the list is empty.\<close>

definition SortedRemove :: "'a plist \<Rightarrow> (('a \<times> int) option \<times> 'a plist) res" where
  "SortedRemove l =
     (if IsEmpty l then Inr (None, l)
      else rbind (deref (heap l) (first l)) (\<lambda>e.
        let l' = (if first l = last_elem l then l\<lparr>first := None, last_elem := None\<rparr> else l\<lparr>first := nxt e\<rparr>)
        in Inr (Some (item e, key e),
             l'\<lparr>heap := (heap l')(the (first l) := None), numInList := numInList l' - 1\<rparr>)))"

definition Remove :: "'a plist \<Rightarrow> ('a option \<times> 'a plist) res" where
  "Remove l = rbind (SortedRemove l) (\<lambda>(r, l). Inr (map_option fst r, l))"

text \<open>The loop of \<open>Mapcar\<close>: the items in the order in which the function is applied to them.\<close>

partial_function (option) items_from :: "(nat \<Rightarrow> 'a list_element option) \<Rightarrow> nat option \<Rightarrow> 'a list \<Rightarrow> 'a list res option" where
  "items_from h ptr seen =
     (if ptr = None then Some (Inr seen)
      else (case deref h ptr of Inl e \<Rightarrow> Some (Inl e) | Inr c \<Rightarrow> items_from h (nxt c) (seen @ [item c])))"

definition Mapcar :: "'a plist \<Rightarrow> 'a list res" where
  "Mapcar l = ends (items_from (heap l) (first l) [])"

text \<open>The loop of \<open>Remove(item)\<close>: the element before the one sought, and that one, NULL when there
  is none.\<close>

partial_function (option) find_item :: "(nat \<Rightarrow> 'a list_element option) \<Rightarrow> 'a \<Rightarrow> nat option \<Rightarrow> nat option \<Rightarrow> (nat option \<times> nat option) res option" where
  "find_item h x prev ptr =
     (if ptr = None then Some (Inr (prev, ptr))
      else (case deref h ptr of Inl e \<Rightarrow> Some (Inl e)
            | Inr c \<Rightarrow> if x = item c then Some (Inr (prev, ptr)) else find_item h x ptr (nxt c)))"

definition Remove_item :: "'a \<Rightarrow> 'a plist \<Rightarrow> 'a plist res" where
  "Remove_item x l =
     rbind (deref (heap l) (first l)) (\<lambda>f.
     if x = item f then
       rbind (Remove l) (\<lambda>(removed, l). rbind (ASSERT (removed = Some x)) (\<lambda>_. Inr l))
     else rbind (ends (find_item (heap l) x (first l) (nxt f))) (\<lambda>(prev, ptr).
       rbind (ASSERT (ptr \<noteq> None)) (\<lambda>_.
       rbind (deref (heap l) ptr) (\<lambda>c.
       rbind (set_next l prev (nxt c)) (\<lambda>l.
       let l = (if nxt c = None then l\<lparr>last_elem := prev\<rparr> else l)
       in Inr (l\<lparr>heap := (heap l)(the ptr := None), numInList := numInList l - 1\<rparr>))))))"

text \<open>The destructor: \<open>while (Remove() != NULL);\<close>\<close>

partial_function (option) remove_all :: "'a plist \<Rightarrow> 'a plist res option" where
  "remove_all l = (case Remove l of Inl e \<Rightarrow> Some (Inl e)
     | Inr (r, l) \<Rightarrow> if r = None then Some (Inr l) else remove_all l)"

definition List_delete :: "'a plist \<Rightarrow> 'a plist res" where
  "List_delete l = ends (remove_all l)"

section \<open>The list a heap represents\<close>

text \<open>The elements at the addresses \<open>as\<close>, one after the other from \<open>p\<close>, lead to \<open>q\<close>.\<close>

fun lseg :: "(nat \<Rightarrow> 'a list_element option) \<Rightarrow> nat option \<Rightarrow> nat list \<Rightarrow> nat option \<Rightarrow> bool" where
  "lseg h p [] q \<longleftrightarrow> p = q"
| "lseg h p (a # as) q \<longleftrightarrow> p = Some a \<and> (\<exists>e. h a = Some e \<and> lseg h (nxt e) as q)"

definition entry :: "(nat \<Rightarrow> 'a list_element option) \<Rightarrow> nat \<Rightarrow> 'a \<times> int" where
  "entry h a = (item (the (h a)), key (the (h a)))"

text \<open>The elements are at the addresses \<open>as\<close>, none twice, \<open>last\<close> is the last of them, and the count
  is right.\<close>

definition list_at :: "'a plist \<Rightarrow> nat list \<Rightarrow> bool" where
  "list_at l as \<longleftrightarrow> lseg (heap l) (first l) as None \<and> distinct as
     \<and> last_elem l = (if as = [] then None else Some (last as)) \<and> numInList l = int (length as)"

definition represents :: "'a plist \<Rightarrow> ('a \<times> int) list \<Rightarrow> bool" where
  "represents l xs \<longleftrightarrow> (\<exists>as. list_at l as \<and> xs = map (entry (heap l)) as)"

text \<open>The operations on lists of items with keys.\<close>

definition sorted_insert :: "'a \<Rightarrow> int \<Rightarrow> ('a \<times> int) list \<Rightarrow> ('a \<times> int) list" where
  "sorted_insert x k xs = takeWhile (\<lambda>e. snd e \<le> k) xs @ [(x, k)] @ dropWhile (\<lambda>e. snd e \<le> k) xs"

fun remove_first :: "'a \<Rightarrow> ('a \<times> int) list \<Rightarrow> ('a \<times> int) list" where
  "remove_first x [] = []"
| "remove_first x (e # es) = (if x = fst e then es else e # remove_first x es)"

section \<open>Segments\<close>

lemma lseg_frame [simp]: "a \<notin> set as \<Longrightarrow> lseg (h(a := e)) p as q = lseg h p as q"
  by (induction as arbitrary: p) auto

lemma lseg_append: "lseg h p (xs @ ys) q \<longleftrightarrow> (\<exists>r. lseg h p xs r \<and> lseg h r ys q)"
  by (induction xs arbitrary: p) auto

lemma lseg_dom: "lseg h p as q \<Longrightarrow> a \<in> set as \<Longrightarrow> \<exists>e. h a = Some e"
  by (induction as arbitrary: p) auto

lemma lseg_fresh: "lseg h p as q \<Longrightarrow> h a = None \<Longrightarrow> a \<notin> set as"
  using lseg_dom by fastforce

lemma lseg_None [simp]: "lseg h None as q \<longleftrightarrow> as = [] \<and> q = None"
  by (cases as) auto

lemma entry_frame [simp]: "a \<notin> set as \<Longrightarrow> map (entry (h(a := e))) as = map (entry h) as"
  by (induction as) (auto simp: entry_def)

lemma deref_Some [simp]: "deref h (Some a) = (case h a of None \<Rightarrow> Inl NullPointer | Some e \<Rightarrow> Inr e)" "deref h None = Inl NullPointer"
  by (simp_all add: deref_def)

lemma list_atD:
  assumes "list_at l as"
  shows "lseg (heap l) (first l) as None" "distinct as" "as \<noteq> [] \<Longrightarrow> last_elem l = Some (last as)" "as = [] \<Longrightarrow> last_elem l = None"
    "numInList l = int (length as)" "IsEmpty l \<longleftrightarrow> as = []"
  using assms by (auto simp: list_at_def IsEmpty_def neq_Nil_conv)

section \<open>Each operation implements the list operation\<close>

lemma Append_at:
  assumes l: "list_at l as" and a: "heap l a = None"
  shows "\<exists>l'. Append a x l = Inr l' \<and> list_at l' (as @ [a]) \<and> map (entry (heap l')) (as @ [a]) = map (entry (heap l)) as @ [(x, 0)]"
proof (cases as rule: rev_cases)
  case Nil
  then show ?thesis using list_atD [OF l]
    by (auto simp: Append_def Let_def new_elem_def IsEmpty_def list_at_def ListElement_def entry_def)
next
  case (snoc bs b)
  note D = list_atD [OF l]
  have fr: "a \<notin> set as" using lseg_fresh [OF D(1) a] .
  obtain r e where r: "lseg (heap l) (first l) bs r" "r = Some b" "heap l b = Some e" "nxt e = None"
    using D(1) snoc by (auto simp: lseg_append)
  have "b \<noteq> a" "b \<notin> set bs" using fr D(2) snoc by auto
  then show ?thesis using r D snoc fr
    by (auto simp: Append_def Let_def new_elem_def IsEmpty_def list_at_def ListElement_def entry_def set_next_def lseg_append)
qed

lemma Prepend_at:
  assumes l: "list_at l as" and a: "heap l a = None"
  shows "\<exists>l'. Prepend a x l = Inr l' \<and> list_at l' (a # as) \<and> map (entry (heap l')) (a # as) = (x, 0) # map (entry (heap l)) as"
  using list_atD [OF l] lseg_fresh [OF list_atD(1) [OF l] a]
  by (auto simp: Prepend_def Let_def new_elem_def IsEmpty_def list_at_def ListElement_def entry_def set_next_def)

lemma SortedRemove_at:
  assumes l: "list_at l (a # as)"
  shows "\<exists>l'. SortedRemove l = Inr (Some (entry (heap l) a), l') \<and> list_at l' as \<and> map (entry (heap l')) as = map (entry (heap l)) as
    \<and> heap l' = (heap l)(a := None)"
proof -
  note D = list_atD [OF l]
  obtain e where e: "first l = Some a" "heap l a = Some e" "lseg (heap l) (nxt e) as None" using D(1) by auto
  have n: "a \<notin> set as" "distinct as" using D(2) by auto
  have la: "last_elem l = Some (last (a # as))" using D(3) by simp
  show ?thesis
  proof (cases "as = []")
    case True
    then show ?thesis using e la D(5) n
      by (auto simp: SortedRemove_def IsEmpty_def Let_def list_at_def entry_def)
  next
    case False
    then have "last as \<in> set as" by simp
    then have "last as \<noteq> a" using n by auto
    then show ?thesis using e la D(5) n False
      by (auto simp: SortedRemove_def IsEmpty_def Let_def list_at_def entry_def)
  qed
qed

lemma SortedRemove_empty: "list_at l [] \<Longrightarrow> SortedRemove l = Inr (None, l)"
  by (simp add: SortedRemove_def list_atD)

text \<open>The loop of \<open>SortedInsert\<close> stops behind the last element whose key is not greater.\<close>

lemma insert_pos_found:
  assumes "lseg h (Some p) (p # as) None" "key (the (h p)) \<le> k"
  shows "\<exists>bs b cs. insert_pos h k (Some p) = Some (Inr (Some b)) \<and> p # as = bs @ b # cs
    \<and> (\<forall>c \<in> set (bs @ [b]). key (the (h c)) \<le> k) \<and> (cs \<noteq> [] \<longrightarrow> k < key (the (h (hd cs))))"
  using assms
proof (induction as arbitrary: p)
  case Nil
  then show ?case by (intro exI [of _ "[]"]) (auto simp: insert_pos.simps)
next
  case (Cons a as)
  then obtain e d where e: "h p = Some e" "nxt e = Some a" "h a = Some d" "lseg h (nxt d) as None" by auto
  show ?case
  proof (cases "k < key d")
    case True
    then show ?thesis using e Cons.prems(2) by (intro exI [of _ "[]"]) (auto simp: insert_pos.simps)
  next
    case False
    then have "\<exists>bs b cs. insert_pos h k (Some a) = Some (Inr (Some b)) \<and> a # as = bs @ b # cs
      \<and> (\<forall>c \<in> set (bs @ [b]). key (the (h c)) \<le> k) \<and> (cs \<noteq> [] \<longrightarrow> k < key (the (h (hd cs))))"
      using e by (intro Cons.IH) auto
    then obtain bs b cs where b: "insert_pos h k (Some a) = Some (Inr (Some b))" "a # as = bs @ b # cs"
      "\<forall>c \<in> set (bs @ [b]). key (the (h c)) \<le> k" "cs \<noteq> [] \<longrightarrow> k < key (the (h (hd cs)))" by blast
    have "insert_pos h k (Some p) = Some (Inr (Some b))" using e False b(1) by (subst insert_pos.simps) simp
    moreover have "p # a # as = (p # bs) @ b # cs" using b(2) by simp
    moreover have "\<forall>c \<in> set ((p # bs) @ [b]). key (the (h c)) \<le> k" using b(3) Cons.prems(2) by simp
    ultimately show ?thesis using b(4) by blast
  qed
qed

lemma sorted_insert_split:
  assumes "\<forall>e \<in> set xs. snd e \<le> k" "ys \<noteq> [] \<longrightarrow> k < snd (hd ys)"
  shows "sorted_insert x k (xs @ ys) = xs @ (x, k) # ys"
  using assms by (cases ys) (auto simp: sorted_insert_def takeWhile_tail dropWhile_append)

lemma lseg_insert:
  assumes "lseg h p (bs @ b # cs) q" "distinct (bs @ b # cs)" "a \<notin> set (bs @ b # cs)" "h b = Some e"
  shows "lseg (h(a \<mapsto> f\<lparr>nxt := nxt e\<rparr>, b \<mapsto> e\<lparr>nxt := Some a\<rparr>)) p (bs @ b # a # cs) q"
  using assms by (auto simp: lseg_append)

lemma map_entry_next:
  assumes "h b = Some e" "a \<notin> set as"
  shows "map (entry (h(a \<mapsto> f, b \<mapsto> e\<lparr>nxt := n\<rparr>))) as = map (entry h) as"
  using assms by (auto simp: entry_def)

lemma SortedInsert_at:
  assumes l: "list_at l as" and a: "heap l a = None"
  shows "\<exists>l' as'. SortedInsert a x k l = Inr l' \<and> list_at l' as'
    \<and> map (entry (heap l')) as' = sorted_insert x k (map (entry (heap l)) as)"
proof -
  note D = list_atD [OF l]
  let ?h = "(heap l)(a \<mapsto> ListElement x k)"
  have fr: "a \<notin> set as" using lseg_fresh [OF D(1) a] .
  show ?thesis
  proof (cases as)
    case Nil
    then show ?thesis using D
      by (intro exI [of _ "l\<lparr>heap := ?h, first := Some a, last_elem := Some a, numInList := 1\<rparr>"] exI [of _ "[a]"])
         (auto simp: SortedInsert_def Let_def new_elem_def IsEmpty_def list_at_def ListElement_def entry_def sorted_insert_def)
  next
    case (Cons p as')
    obtain e where p: "first l = Some p" "heap l p = Some e" "p \<noteq> a" using D(1) Cons fr by auto
    show ?thesis
    proof (cases "k < key e")
      case True
      let ?l = "l\<lparr>heap := (heap l)(a \<mapsto> \<lparr>nxt = Some p, key = k, item = x\<rparr>), first := Some a, numInList := numInList l + 1\<rparr>"
      have "SortedInsert a x k l = Inr ?l" using p True
        by (simp add: SortedInsert_def Let_def new_elem_def IsEmpty_def ListElement_def set_next_def)
      moreover have "list_at ?l (a # as)" using D fr p(1) Cons by (auto simp: list_at_def)
      moreover have "map (entry (heap ?l)) (a # as) = sorted_insert x k (map (entry (heap l)) as)"
        using sorted_insert_split [of "[]" k "map (entry (heap l)) as" x] fr Cons p True by (simp add: entry_def)
      ultimately show ?thesis by blast
    next
      case False
      have "lseg ?h (Some p) (p # as') None" using D(1) fr Cons p(1) by auto
      moreover have "key (the (?h p)) \<le> k" using False p by simp
      ultimately obtain bs b cs where w: "insert_pos ?h k (Some p) = Some (Inr (Some b))" "p # as' = bs @ b # cs"
        "\<forall>c \<in> set (bs @ [b]). key (the (?h c)) \<le> k" "cs \<noteq> [] \<longrightarrow> k < key (the (?h (hd cs)))"
        using insert_pos_found by blast
      have as: "as = bs @ b # cs" using w(2) Cons by simp
      have bh: "b \<noteq> a" "a \<notin> set bs" "a \<notin> set cs" using fr as by auto
      obtain f where f: "heap l b = Some f" using D(1) as by (auto simp: lseg_append)
      have ks: "\<forall>e \<in> set (map (entry (heap l)) (bs @ [b])). snd e \<le> k" using w(3) bh by (auto simp: entry_def split: if_splits)
      have gt: "map (entry (heap l)) cs \<noteq> [] \<longrightarrow> k < snd (hd (map (entry (heap l)) cs))"
        using w(4) bh by (cases cs) (auto simp: entry_def)
      have si: "sorted_insert x k (map (entry (heap l)) as) = map (entry (heap l)) (bs @ [b]) @ (x, k) # map (entry (heap l)) cs"
        using sorted_insert_split [OF ks gt] as by simp
      let ?h' = "(heap l)(a \<mapsto> \<lparr>nxt = nxt f, key = k, item = x\<rparr>, b \<mapsto> f\<lparr>nxt := Some a\<rparr>)"
      have sg: "lseg ?h' (first l) (bs @ b # a # cs) None"
        using lseg_insert [of "heap l" "first l" bs b cs None a f "ListElement x k"] D(1,2) fr as f by (simp add: ListElement_def)
      have en: "map (entry ?h') (bs @ b # a # cs) = map (entry (heap l)) (bs @ [b]) @ (x, k) # map (entry (heap l)) cs"
        using bh f D(2) as by (auto simp: entry_def)
      have nf: "nxt f = None \<longleftrightarrow> cs = []" using D(1) as f by (cases cs) (auto simp: lseg_append)
      define l' where "l' = l\<lparr>heap := ?h', last_elem := (if cs = [] then Some a else last_elem l), numInList := numInList l + 1\<rparr>"
      have "SortedInsert a x k l = Inr l'"
      proof (cases "cs = []")
        case True
        then have "last_elem l = Some b" "nxt f = None" using D(3) as nf by simp_all
        then show ?thesis using p False w(1) f bh True
          by (simp add: SortedInsert_def Let_def new_elem_def IsEmpty_def ListElement_def set_next_def ends_def l'_def fun_upd_twist)
      next
        case False
        then obtain y where "nxt f = Some y" using nf by auto
        then show ?thesis using False p \<open>\<not> k < key e\<close> w(1) f bh
          by (simp add: SortedInsert_def Let_def new_elem_def IsEmpty_def ListElement_def set_next_def ends_def l'_def)
      qed
      moreover have "list_at l' (bs @ b # a # cs)" using sg D(2,3,5) as bh by (auto simp: list_at_def l'_def)
      moreover have "map (entry (heap l')) (bs @ b # a # cs) = sorted_insert x k (map (entry (heap l)) as)"
        using en si by (simp add: l'_def)
      ultimately show ?thesis by blast
    qed
  qed
qed

lemma items_from_seg: "lseg h p as None \<Longrightarrow> items_from h p seen = Some (Inr (seen @ map (fst \<circ> entry h) as))"
  by (induction as arbitrary: p seen) (auto simp: items_from.simps entry_def)

lemma find_item_absent:
  "lseg h p as None \<Longrightarrow> x \<notin> fst ` set (map (entry h) as) \<Longrightarrow> \<exists>q. find_item h x prev p = Some (Inr (q, None))"
proof (induction as arbitrary: p prev)
  case (Cons a as)
  then obtain e where e: "p = Some a" "h a = Some e" "lseg h (nxt e) as None" by auto
  then show ?case using Cons.IH [OF e(3), of "Some a"] Cons.prems(2)
    by (subst find_item.simps) (auto simp: entry_def)
qed (simp add: find_item.simps)

lemma find_item_present:
  "lseg h p as None \<Longrightarrow> x \<in> fst ` set (map (entry h) as) \<Longrightarrow> \<exists>bs b cs. as = bs @ b # cs
     \<and> x \<notin> fst ` set (map (entry h) bs) \<and> fst (entry h b) = x
     \<and> find_item h x prev p = Some (Inr (if bs = [] then prev else Some (last bs), Some b))"
proof (induction as arbitrary: p prev)
  case (Cons a as)
  then obtain e where e: "p = Some a" "h a = Some e" "lseg h (nxt e) as None" by auto
  show ?case
  proof (cases "x = item e")
    case True
    then show ?thesis using e by (intro exI [of _ "[]"]) (auto simp: find_item.simps entry_def)
  next
    case False
    then have "x \<in> fst ` set (map (entry h) as)" using Cons.prems(2) e by (auto simp: entry_def)
    from Cons.IH [OF e(3) this, of "Some a"] obtain bs b cs where
      b: "as = bs @ b # cs" "x \<notin> fst ` set (map (entry h) bs)" "fst (entry h b) = x"
      "find_item h x (Some a) (nxt e) = Some (Inr (if bs = [] then Some a else Some (last bs), Some b))" by blast
    have "a # as = (a # bs) @ b # cs" using b(1) by simp
    moreover have "x \<notin> fst ` set (map (entry h) (a # bs))" using b(2) False e by (simp add: entry_def)
    moreover have "find_item h x prev p = Some (Inr (if a # bs = [] then prev else Some (last (a # bs)), Some b))"
      using False e b(4) by (subst find_item.simps) simp
    ultimately show ?thesis using b(3) by blast
  qed
qed simp

lemma remove_first_split: "x \<notin> fst ` set xs \<Longrightarrow> fst e = x \<Longrightarrow> remove_first x (xs @ e # ys) = xs @ ys"
  by (induction xs) auto

lemma Remove_item_at:
  assumes l: "list_at l as"
  shows "if as = [] then Remove_item x l = Inl NullPointer
    else if x \<in> fst ` set (map (entry (heap l)) as) then
      \<exists>l' as'. Remove_item x l = Inr l' \<and> list_at l' as' \<and> map (entry (heap l')) as' = remove_first x (map (entry (heap l)) as)
    else Remove_item x l = Inl AssertFailed"
proof (cases as)
  case Nil
  then show ?thesis using list_atD [OF l] by (simp add: Remove_item_def)
next
  case (Cons p as')
  note D = list_atD [OF l]
  obtain e where p: "first l = Some p" "heap l p = Some e" "lseg (heap l) (nxt e) as' None" using D(1) Cons by auto
  show ?thesis
  proof (cases "x = item e")
    case True
    obtain l' where "SortedRemove l = Inr (Some (entry (heap l) p), l')" "list_at l' as'"
      "map (entry (heap l')) as' = map (entry (heap l)) as'"
      using SortedRemove_at [of l p as'] l Cons by auto
    then show ?thesis using True p Cons by (auto simp: Remove_item_def Remove_def entry_def)
  next
    case ne: False
    show ?thesis
    proof (cases "x \<in> fst ` set (map (entry (heap l)) as')")
      case False
      then show ?thesis using find_item_absent [OF p(3) False, of "Some p"] p ne Cons
        by (auto simp: Remove_item_def ends_def entry_def)
    next
      case True
      from find_item_present [OF p(3) True, of "Some p"] obtain bs b cs where
        b: "as' = bs @ b # cs" "x \<notin> fst ` set (map (entry (heap l)) bs)" "fst (entry (heap l) b) = x"
        "find_item (heap l) x (Some p) (nxt e) = Some (Inr (if bs = [] then Some p else Some (last bs), Some b))" by blast
      define q where "q = last (p # bs)"
      define ps where "ps = butlast (p # bs)"
      have pq: "p # bs = ps @ [q]" by (simp add: ps_def q_def)
      have as: "as = ps @ q # b # cs" using Cons b(1) pq by (metis append.assoc append_Cons append_Nil)
      have pr: "(if bs = [] then Some p else Some (last bs)) = Some q" by (auto simp: q_def)
      obtain f c where f: "heap l q = Some f" "nxt f = Some b" "heap l b = Some c" "lseg (heap l) (nxt c) cs None"
        and sg: "lseg (heap l) (first l) ps (Some q)" using D(1) as by (auto simp: lseg_append)
      have ds: "distinct (ps @ q # b # cs)" using D(2) as by simp
      have nc: "nxt c = None \<longleftrightarrow> cs = []" using f(4) by (cases cs) auto
      let ?h = "(heap l)(q \<mapsto> f\<lparr>nxt := nxt c\<rparr>, b := None)"
      define l' where "l' = l\<lparr>heap := ?h, last_elem := (if cs = [] then Some q else last_elem l), numInList := numInList l - 1\<rparr>"
      have "Remove_item x l = Inr l'"
        using p ne b(4) f nc ds by (simp add: Remove_item_def ends_def pr set_next_def Let_def l'_def)
      moreover have "list_at l' (ps @ q # cs)"
        using sg f(1,4) ds D(3,5) as by (auto simp: list_at_def l'_def lseg_append)
      moreover have "map (entry (heap l')) (ps @ q # cs) = remove_first x (map (entry (heap l)) as)"
      proof -
        have "map (entry (heap l)) as = map (entry (heap l)) (p # bs) @ entry (heap l) b # map (entry (heap l)) cs"
          using Cons b(1) by simp
        moreover have "x \<notin> fst ` set (map (entry (heap l)) (p # bs))" using b(2) ne p(2) by (auto simp: entry_def)
        ultimately have "remove_first x (map (entry (heap l)) as) = map (entry (heap l)) ((p # bs) @ cs)"
          using remove_first_split [OF _ b(3)] by (metis map_append)
        also have "\<dots> = map (entry (heap l')) (ps @ q # cs)" unfolding pq
          using ds f(1) by (auto simp: l'_def entry_def)
        finally show ?thesis by simp
      qed
      ultimately show ?thesis using True Cons by auto
    qed
  qed
qed

lemma remove_all_ends: "list_at l as \<Longrightarrow> \<exists>l'. remove_all l = Some (Inr l') \<and> list_at l' []"
proof (induction as arbitrary: l)
  case Nil
  then show ?case using SortedRemove_empty [OF Nil] by (subst remove_all.simps) (simp add: Remove_def)
next
  case (Cons a as)
  from SortedRemove_at [OF Cons.prems] Cons.IH show ?case
    by (subst remove_all.simps) (fastforce simp: Remove_def)
qed

section \<open>The interface\<close>

text \<open>What the users of a \<open>List\<close> rely on: \<open>rep l xs\<close> is the abstraction, \<open>fresh a l\<close> says that \<open>a\<close> is an
  address \<open>new\<close> may return.\<close>

locale keyed_list =
  fixes rep :: "'l \<Rightarrow> ('a \<times> int) list \<Rightarrow> bool"
    and fresh :: "'n \<Rightarrow> 'l \<Rightarrow> bool"
    and app :: "'n \<Rightarrow> 'a \<Rightarrow> 'l \<Rightarrow> 'l res"
    and pre :: "'n \<Rightarrow> 'a \<Rightarrow> 'l \<Rightarrow> 'l res"
    and ins :: "'n \<Rightarrow> 'a \<Rightarrow> int \<Rightarrow> 'l \<Rightarrow> 'l res"
    and del :: "'l \<Rightarrow> (('a \<times> int) option \<times> 'l) res"
  assumes app: "rep l xs \<Longrightarrow> fresh n l \<Longrightarrow> \<exists>l'. app n x l = Inr l' \<and> rep l' (xs @ [(x, 0)])"
    and pre: "rep l xs \<Longrightarrow> fresh n l \<Longrightarrow> \<exists>l'. pre n x l = Inr l' \<and> rep l' ((x, 0) # xs)"
    and ins: "rep l xs \<Longrightarrow> fresh n l \<Longrightarrow> \<exists>l'. ins n x k l = Inr l' \<and> rep l' (sorted_insert x k xs)"
    and del_Nil: "rep l [] \<Longrightarrow> del l = Inr (None, l)"
    and del_Cons: "rep l (e # xs) \<Longrightarrow> \<exists>l'. del l = Inr (Some e, l') \<and> rep l' xs"
begin

text \<open>Removing \<open>n\<close> times from the front.\<close>

fun drain :: "nat \<Rightarrow> 'l \<Rightarrow> (('a \<times> int) list \<times> 'l) res" where
  "drain 0 l = Inr ([], l)"
| "drain (Suc n) l = rbind (del l) (\<lambda>(r, l). case r of None \<Rightarrow> Inr ([], l)
     | Some e \<Rightarrow> rbind (drain n l) (\<lambda>(es, l). Inr (e # es, l)))"

lemma drain_rep: "rep l xs \<Longrightarrow> \<exists>l'. drain n l = Inr (take n xs, l') \<and> rep l' (drop n xs)"
proof (induction n arbitrary: l xs)
  case (Suc n)
  show ?case
  proof (cases xs)
    case Nil
    then show ?thesis using Suc.prems del_Nil by auto
  next
    case (Cons e es)
    then obtain l' where "del l = Inr (Some e, l')" "rep l' es" using Suc.prems del_Cons by blast
    then show ?thesis using Suc.IH [of l' es] Cons by auto
  qed
qed auto

text \<open>Appended items come out in the order in which they went in.\<close>

lemma fifo:
  assumes "rep l []" "fresh a l" and "\<And>l1. app a x l = Inr l1 \<Longrightarrow> fresh b l1"
  shows "\<exists>l1 l2 l3. app a x l = Inr l1 \<and> app b y l1 = Inr l2 \<and> drain 2 l2 = Inr ([(x, 0), (y, 0)], l3) \<and> rep l3 []"
proof -
  obtain l1 where l1: "app a x l = Inr l1" "rep l1 [(x, 0)]" using app [OF assms(1,2), of x] by auto
  obtain l2 where l2: "app b y l1 = Inr l2" "rep l2 [(x, 0), (y, 0)]" using app [OF l1(2) assms(3) [OF l1(1)], of y] by auto
  from drain_rep [OF l2(2), of 2] l1 l2 show ?thesis by auto
qed

end

interpretation kl: keyed_list represents "\<lambda>a l. heap l a = None" Append Prepend SortedInsert SortedRemove
proof (unfold_locales, goal_cases)
  case (1 l xs n x)
  then obtain as where "list_at l as" "xs = map (entry (heap l)) as" by (auto simp: represents_def)
  with Append_at [of l as n x] 1 show ?case unfolding represents_def by metis
next
  case (2 l xs n x)
  then obtain as where "list_at l as" "xs = map (entry (heap l)) as" by (auto simp: represents_def)
  with Prepend_at [of l as n x] 2 show ?case unfolding represents_def by metis
next
  case (3 l xs n x k)
  then obtain as where "list_at l as" "xs = map (entry (heap l)) as" by (auto simp: represents_def)
  with SortedInsert_at [of l as n x k] 3 show ?case unfolding represents_def by metis
next
  case (4 l)
  then show ?case using SortedRemove_empty by (auto simp: represents_def)
next
  case (5 l e xs)
  then obtain a as where "list_at l (a # as)" "e = entry (heap l) a" "xs = map (entry (heap l)) as"
    by (auto simp: represents_def)
  with SortedRemove_at [of l a as] show ?case unfolding represents_def by metis
qed

section \<open>Sorted lists\<close>

definition by_key :: "('a \<times> int) list \<Rightarrow> bool" where
  "by_key xs \<longleftrightarrow> sorted (map snd xs)"

lemma sorted_insert_Cons: "sorted_insert x k (e # es) = (if snd e \<le> k then e # sorted_insert x k es else (x, k) # e # es)"
  by (simp add: sorted_insert_def)

lemma set_sorted_insert [simp]: "set (sorted_insert x k xs) = insert (x, k) (set xs)"
proof -
  have "set xs = set (takeWhile (\<lambda>e. snd e \<le> k) xs @ dropWhile (\<lambda>e. snd e \<le> k) xs)" by simp
  then show ?thesis by (auto simp: sorted_insert_def simp del: takeWhile_dropWhile_id)
qed

lemma mset_sorted_insert [simp]: "mset (sorted_insert x k xs) = add_mset (x, k) (mset xs)"
  by (induction xs) (auto simp: sorted_insert_Cons, simp add: sorted_insert_def)

lemma sorted_insert_by_key: "by_key xs \<Longrightarrow> by_key (sorted_insert x k xs)"
proof (induction xs)
  case Nil
  then show ?case by (simp add: sorted_insert_def by_key_def)
next
  case (Cons e es)
  then show ?case by (fastforce simp: sorted_insert_Cons by_key_def)
qed

text \<open>Among entries with equal keys the new one is last.\<close>

lemma filter_sorted_insert:
  assumes "by_key xs"
  shows "filter (\<lambda>e. snd e = j) (sorted_insert x k xs) = filter (\<lambda>e. snd e = j) xs @ (if k = j then [(x, k)] else [])"
  using assms
proof (induction xs)
  case (Cons e es)
  show ?case
  proof (cases "snd e \<le> k")
    case True
    then show ?thesis using Cons by (auto simp: sorted_insert_Cons by_key_def)
  next
    case False
    then have "filter (\<lambda>e. snd e = k) (e # es) = []" using Cons.prems by (auto simp: by_key_def filter_empty_conv)
    then show ?thesis using False by (auto simp: sorted_insert_Cons)
  qed
qed (simp add: sorted_insert_def)

definition inserts :: "('a \<times> int) list \<Rightarrow> ('a \<times> int) list" where
  "inserts es = foldl (\<lambda>xs (x, k). sorted_insert x k xs) [] es"

lemma inserts_snoc: "inserts (es @ [(x, k)]) = sorted_insert x k (inserts es)"
  by (simp add: inserts_def)

lemma inserts_sort: "inserts es = sort_key snd es"
proof -
  have i: "by_key (inserts es) \<and> mset (inserts es) = mset es
      \<and> (\<forall>j. filter (\<lambda>e. snd e = j) (inserts es) = filter (\<lambda>e. snd e = j) es)"
  proof (induction es rule: rev_induct)
    case (snoc e es)
    then show ?case by (cases e) (simp add: inserts_snoc sorted_insert_by_key filter_sorted_insert)
  qed (simp add: inserts_def by_key_def)
  have "filter (\<lambda>e'. snd e = snd e') (inserts es) = filter (\<lambda>e'. snd e = snd e') es" for e
    using i by (simp add: eq_commute [of "snd e"])
  with i show ?thesis by (intro properties_for_sort_key [symmetric]) (auto simp: by_key_def)
qed

lemma SortedInsert_heap:
  assumes "SortedInsert a x k l = Inr l'" "b \<noteq> a" "heap l b = None"
  shows "heap l' b = None"
  using assms
  by (auto simp: SortedInsert_def Let_def new_elem_def set_next_def deref_def IsEmpty_def
      elim!: rbind_InrE split: if_split_asm option.split_asm)

section \<open>What the kernel relies on\<close>

lemma represents_new: "represents (List_new h) []"
  by (simp add: represents_def list_at_def List_new_def)

text \<open>C21: Every operation of the pointer list terminates on a well-formed list, fails no assertion and
  follows no dangling pointer, and has the effect of the list operation it stands for: append, prepend,
  insert behind all entries with a key not greater, take from the front, enumerate, empty.\<close>

theorem List_refines:
  assumes "represents l xs" and "heap l a = None"
  shows "(\<exists>l'. Append a x l = Inr l' \<and> represents l' (xs @ [(x, 0)]))
    \<and> (\<exists>l'. Prepend a x l = Inr l' \<and> represents l' ((x, 0) # xs))
    \<and> (\<exists>l'. SortedInsert a x k l = Inr l' \<and> represents l' (sorted_insert x k xs))
    \<and> (\<exists>l'. SortedRemove l = Inr (if xs = [] then None else Some (hd xs), l') \<and> represents l' (tl xs))
    \<and> Mapcar l = Inr (map fst xs) \<and> (IsEmpty l \<longleftrightarrow> xs = []) \<and> numInList l = int (length xs)
    \<and> (\<exists>l'. List_delete l = Inr l' \<and> represents l' [])"
proof -
  obtain as where as: "list_at l as" "xs = map (entry (heap l)) as" using assms(1) by (auto simp: represents_def)
  have "\<exists>l'. SortedRemove l = Inr (if xs = [] then None else Some (hd xs), l') \<and> represents l' (tl xs)"
    using kl.del_Nil [of l] kl.del_Cons [of l "hd xs" "tl xs"] assms(1) by (cases xs) auto
  moreover have "Mapcar l = Inr (map fst xs)"
    using items_from_seg [OF list_atD(1) [OF as(1)], of "[]"] as(2) by (simp add: Mapcar_def ends_def)
  moreover have "\<exists>l'. List_delete l = Inr l' \<and> represents l' []"
    using remove_all_ends [OF as(1)] by (auto simp: List_delete_def ends_def represents_def)
  ultimately show ?thesis
    using kl.app [OF assms, of x] kl.pre [OF assms, of x] kl.ins [OF assms, of x k] list_atD(5,6) [OF as(1)] as(2) by simp
qed

theorem List_refines_witness:
  "\<exists>l'. SortedInsert 4 ''b'' 7 (List_new (\<lambda>_. None)) = Inr l' \<and> represents l' [(''b'', 7)]"
  using List_refines [OF represents_new, of "\<lambda>_. None" 4 "''b''" 7] by (simp add: List_new_def sorted_insert_def)

text \<open>\<open>Remove(item)\<close> unlinks the first element with that item; on an item that is not there it stops
  at its assertion, and on an empty list it dereferences the null pointer.\<close>

theorem Remove_item_spec:
  assumes "represents l xs"
  shows "if xs = [] then Remove_item x l = Inl NullPointer
    else if x \<in> fst ` set xs then \<exists>l'. Remove_item x l = Inr l' \<and> represents l' (remove_first x xs)
    else Remove_item x l = Inl AssertFailed"
proof -
  obtain as where as: "list_at l as" "xs = map (entry (heap l)) as" using assms by (auto simp: represents_def)
  with Remove_item_at [OF as(1), of x] show ?thesis unfolding represents_def by auto metis
qed

theorem Remove_item_spec_witness:
  "Remove_item ''b'' (List_new (\<lambda>_. None)) = Inl NullPointer"
  using Remove_item_spec [OF represents_new, of "''b''" "\<lambda>_. None"] by simp

text \<open>Inserting entries one after the other, each with the address \<open>new\<close> gave for it.\<close>

fun insert_all :: "(nat \<times> 'a \<times> int) list \<Rightarrow> 'a plist \<Rightarrow> 'a plist res" where
  "insert_all [] l = Inr l"
| "insert_all ((a, x, k) # es) l = rbind (SortedInsert a x k l) (insert_all es)"

lemma insert_all_rep:
  assumes "represents l xs" "distinct (map fst es)" "\<forall>a \<in> fst ` set es. heap l a = None"
  shows "\<exists>l'. insert_all es l = Inr l' \<and> represents l' (foldl (\<lambda>xs (x, k). sorted_insert x k xs) xs (map snd es))"
  using assms
proof (induction es arbitrary: l xs)
  case (Cons e es)
  obtain a x k where e: "e = (a, x, k)" by (cases e)
  obtain l1 where l1: "SortedInsert a x k l = Inr l1" "represents l1 (sorted_insert x k xs)"
    using kl.ins [OF Cons.prems(1), of a x k] Cons.prems(3) e by auto
  have "\<forall>b \<in> fst ` set es. heap l1 b = None"
  proof
    fix b assume "b \<in> fst ` set es"
    then show "heap l1 b = None" using SortedInsert_heap [OF l1(1)] Cons.prems(2,3) e by force
  qed
  with Cons.IH [OF l1(2)] Cons.prems(2) l1(1) e show ?case by auto
qed simp

text \<open>A list filled with \<open>SortedInsert\<close> alone is the stable sort of what was put in, by key: equal keys
  keep the order of insertion. This is what makes the queue of pending interrupts and the priority ready
  list fair among equals.\<close>

theorem SortedInsert_sorts:
  assumes "distinct (map fst es)" and "\<forall>a \<in> fst ` set es. h a = None"
  shows "\<exists>l'. insert_all es (List_new h) = Inr l' \<and> represents l' (sort_key snd (map snd es))"
  using insert_all_rep [OF represents_new assms(1), of h] assms(2) inserts_sort [of "map snd es"]
  by (simp add: List_new_def inserts_def)

theorem SortedInsert_sorts_witness:
  "\<exists>l'. insert_all [(0, ''a'', 5), (1, ''b'', 3), (2, ''c'', 5)] (List_new (\<lambda>_. None)) = Inr l'
     \<and> represents l' [(''b'', 3), (''a'', 5), (''c'', 5)]"
  using SortedInsert_sorts [of "[(0, ''a'', 5), (1, ''b'', 3), (2, ''c'', 5)]" "\<lambda>_. None"] by simp

end
