(* ===== verification/Console.thy ===== *)
theory Console
  imports Prelude
begin

text \<open>
  The console device (machine/console.h, machine/console.cc): a keyboard that is polled and a display that takes one character
  at a time. \<open>typed\<close> is what the file behind the keyboard still holds, \<open>shown\<close> what was written to the display;
  \<open>waiting\<close> are the interrupts it has scheduled, with their times, and \<open>readAvails\<close> and \<open>writeDones\<close> count how often the two
  handlers of the kernel were called. A \<open>char\<close> is signed, and \<open>EOF\<close> is -1.
\<close>

definition ConsoleTime :: int where "ConsoleTime = 100"
definition EOF :: int where "EOF = -1"

datatype console_int = ConsoleReadPoll | ConsoleWriteDone

record console =
  incoming :: int
  putBusy :: bool
  typed :: "byte list"
  shown :: "byte list"
  waiting :: "(console_int \<times> int) list"
  readAvails :: nat
  writeDones :: nat

definition Console_new :: "int \<Rightarrow> byte list \<Rightarrow> console" where
  "Console_new now keys = \<lparr>incoming = EOF, putBusy = False, typed = keys, shown = [],
     waiting = [(ConsoleReadPoll, now + ConsoleTime)], readAvails = 0, writeDones = 0\<rparr>"

text \<open>\<open>ready\<close> is what \<open>PollFile\<close> of the host answers; reading from a file at its end aborts.\<close>

definition CheckCharAvail :: "int \<Rightarrow> bool \<Rightarrow> console \<Rightarrow> console res" where
  "CheckCharAvail now ready c =
     (let c = c\<lparr>waiting := waiting c @ [(ConsoleReadPoll, now + ConsoleTime)]\<rparr> in
      if incoming c \<noteq> EOF \<or> \<not> ready then Inr c
      else case typed c of [] \<Rightarrow> Inl AssertFailed
        | b # bs \<Rightarrow> Inr (c\<lparr>incoming := sint b, typed := bs, readAvails := readAvails c + 1\<rparr>))"

definition WriteDone :: "console \<Rightarrow> console" where
  "WriteDone c = c\<lparr>putBusy := False, writeDones := writeDones c + 1\<rparr>"

definition GetChar :: "console \<Rightarrow> int \<times> console" where
  "GetChar c = (incoming c, c\<lparr>incoming := EOF\<rparr>)"

definition PutChar :: "int \<Rightarrow> byte \<Rightarrow> console \<Rightarrow> console res" where
  "PutChar now ch c =
     rbind (ASSERT (\<not> putBusy c)) (\<lambda>_.
     Inr (c\<lparr>shown := shown c @ [ch], putBusy := True, waiting := waiting c @ [(ConsoleWriteDone, now + ConsoleTime)]\<rparr>))"

section \<open>The keyboard\<close>

text \<open>A history of polls and of calls of \<open>GetChar\<close>, with the characters these return.\<close>

datatype key_step = Poll int bool | Get

fun key_run :: "key_step list \<Rightarrow> console \<Rightarrow> (int list \<times> console) res" where
  "key_run [] c = Inr ([], c)"
| "key_run (Poll now ready # ks) c = rbind (CheckCharAvail now ready c) (key_run ks)"
| "key_run (Get # ks) c = (case GetChar c of (ch, c) \<Rightarrow> rbind (key_run ks c) (\<lambda>(chs, c). Inr (ch # chs, c)))"

definition buffered :: "console \<Rightarrow> int list" where
  "buffered c = (if incoming c = EOF then [] else [incoming c])"

definition no_eof :: "byte list \<Rightarrow> bool" where
  "no_eof bs \<longleftrightarrow> (\<forall>b \<in> set bs. sint b \<noteq> EOF)"

lemma key_run_kept:
  "key_run ks c = Inr (chs, c') \<Longrightarrow> no_eof (typed c) \<Longrightarrow>
   filter (\<lambda>ch. ch \<noteq> EOF) chs @ buffered c' @ map sint (typed c') = buffered c @ map sint (typed c)"
proof (induction ks c arbitrary: chs rule: key_run.induct)
  case (2 now ready ks c)
  then obtain d where d: "CheckCharAvail now ready c = Inr d" "key_run ks d = Inr (chs, c')" by (auto elim: rbind_InrE)
  have "no_eof (typed d)" "buffered d @ map sint (typed d) = buffered c @ map sint (typed c)"
    using d(1) 2(3) by (auto simp: CheckCharAvail_def Let_def buffered_def no_eof_def split: if_splits list.splits)
  then show ?case using 2(1) [OF d] by simp
next
  case (3 ks c)
  let ?d = "c\<lparr>incoming := EOF\<rparr>"
  obtain cs where r: "key_run ks ?d = Inr (cs, c')" "chs = incoming c # cs" using 3(2) by (auto simp: GetChar_def elim: rbind_InrE)
  have "filter (\<lambda>ch. ch \<noteq> EOF) cs @ buffered c' @ map sint (typed c') = buffered ?d @ map sint (typed ?d)"
    by (rule 3(1) [OF _ r(1)]) (use 3(3) in \<open>simp_all add: GetChar_def\<close>)
  then show ?case using r(2) by (simp add: buffered_def)
qed simp

text \<open>Whatever the order of polls and of calls of \<open>GetChar\<close>, the characters that \<open>GetChar\<close> returned, the one in the buffer and
  the ones not yet read are, in this order, the characters that were typed, if none of them is the byte 255, which is taken for \<open>EOF\<close>.\<close>

theorem keyboard_in_order:
  assumes "key_run ks (Console_new now keys) = Inr (chs, c)" "\<forall>b \<in> set keys. sint b \<noteq> -1"
  shows "filter (\<lambda>ch. ch \<noteq> -1) chs @ (if incoming c = -1 then [] else [incoming c]) @ map sint (typed c) = map sint keys"
  using key_run_kept [OF assms(1)] assms(2) by (simp add: Console_new_def buffered_def no_eof_def EOF_def)

theorem keyboard_in_order_witness:
  "\<exists>c. key_run [Poll 100 True, Poll 200 True, Get, Get, Poll 300 True] (Console_new 0 [104, 105, 33]) = Inr ([104, -1], c)
    \<and> (if incoming c = -1 then [] else [incoming c]) @ map sint (typed c) = [105, 33]"
proof -
  obtain c where c: "key_run [Poll 100 True, Poll 200 True, Get, Get, Poll 300 True] (Console_new 0 [104, 105, 33]) = Inr ([104, -1], c)"
    by (simp add: Console_new_def CheckCharAvail_def GetChar_def EOF_def Let_def)
  show ?thesis using keyboard_in_order [OF c] c by auto
qed

text \<open>The byte 255 is lost: a second poll overwrites it.\<close>

theorem byte_255_lost:
  "\<exists>c. key_run [Poll 100 True, Poll 200 True, Get] (Console_new 0 [255, 104]) = Inr ([104], c) \<and> typed c = [] \<and> readAvails c = 2"
  by (simp add: Console_new_def CheckCharAvail_def GetChar_def EOF_def Let_def)

end
