(* ===== verification/Kernel.thy ===== *)
theory Kernel
  imports Lists Machine Console
begin

text \<open>
  The thread kernel: threads (threads/thread.cc), the scheduler (threads/scheduler.cc), the
  synchronisation objects (threads/synch.cc, threads/synchlist.cc), the simulated interrupts
  (machine/interrupt.cc), the timer (machine/timer.cc, threads/system.cc), the synchronous disk
  (filesys/synchdisk.cc) and the synchronous console (machine/console.cc), in the configuration of threads/Makefile (no user programs).

  A thread that calls \<open>Sleep\<close> or \<open>Yield\<close> stops in the middle of the functions it is in and goes on
  there when it is scheduled again. What it still has to do is its list \<open>konts\<close> of \<^emph>\<open>points\<close>: a
  call, or the place behind a call in the body of one of the functions below. \<open>exec\<close> runs one
  point of the current thread; a function body is cut exactly where it calls a function that may
  switch threads or tick, so between two points the C++ code runs without a switch.
\<close>

section \<open>State\<close>

datatype IntStatus = IntOff | IntOn
datatype IntType = TimerInt | DiskInt | ConsoleWriteInt | ConsoleReadInt | ElevatorInt | NetworkSendInt | NetworkRecvInt
datatype ThreadStatus = JUST_CREATED | RUNNING | READY | BLOCKED

text \<open>Semaphores: the kernel's own, and the private ones inside a lock, a synchronous disk and a synchronous console.\<close>

datatype sem = Sem nat | LockSem nat | DiskSem nat | ReadSem nat | WriteSem nat

datatype point =
    SetLevel IntStatus | OneTick | DueLoop | TickEnd MachineStatus | SetStatus MachineStatus
  | EndHandler MachineStatus | Idle | IdleEnd
  | TimerExpired bool point | TimerInterruptHandler | RRHandler
  | ReadyToRun nat | RunThread nat | AfterSwitch | Yield | Sleep | SleepLoop | Finish
  | NewThread int "point list" | Fork nat "point list" | ThreadDelete nat | FreeTID nat | ClearDestroyed
  | P sem | P_loop sem | V sem | V_inc sem
  | Acquire nat | SetOwner nat | Release nat
  | Wait nat nat | WaitSleep nat | Signal nat nat | Broadcast nat nat | BroadcastLoop nat
  | ArriveAndWait nat | BarrierCheck nat | BarrierReset nat
  | AcquireReaderLock nat | ReaderIn nat | ReleaseReaderLock nat | ReaderOut nat
  | AcquireWriterLock nat | ReleaseWriterLock nat
  | SL_Append nat int | SL_Put nat int | SL_Remove nat | SL_Loop nat
  | DiskRequest nat int | DiskIssue nat int | DiskDone nat
  | PlusReader nat nat | PlusReaderIn nat nat | MinusReader nat nat | MinusReaderOut nat nat | PlusWriter nat nat | MinusWriter nat nat
  | ConsoleStart nat | ConsolePoll nat | ConsoleWritten nat | SynchPutChar nat byte | ConsolePut nat byte | SynchGetChar nat | ConsoleGet nat

record thread =
  tstatus :: ThreadStatus
  priority :: int
  TID :: int
  UID :: int
  stack :: "32 word option"
  konts :: "point list"
  ret :: int

record semaphore =
  sem_value :: int
  queue :: "nat list"

record barrier =
  num_threads :: int
  num_left :: int
  Mutex :: nat
  bcond :: nat

record rwlock =
  ReaderCnt :: int
  ReaderLock :: nat
  WriterLock :: sem

record synchlist =
  slist :: "int list"
  slock :: nat
  listEmpty :: nat

record synchdisk =
  disk_active :: bool
  disk_lock :: nat
  cntLock :: nat
  readerCnt :: "nat \<Rightarrow> int"
  mutex :: "nat \<Rightarrow> sem"

text \<open>\<open>con_ready\<close> is what \<open>PollFile\<close> of the host answers at a time.\<close>

record synchconsole =
  con_dev :: console
  con_lock :: nat
  con_ready :: "int \<Rightarrow> bool"

record nachos =
  threads :: "thread list"
  currentThread :: nat
  readyList :: "(nat \<times> int) list"
  threadToBeDestroyed :: "nat option"
  used_TID :: "bool list"
  Thread_Pointer :: "nat option list"
  RoundRobbin :: bool
  prevTick :: int
  sems :: "sem \<Rightarrow> semaphore"
  Owner :: "nat \<Rightarrow> nat option"
  waitQueue :: "nat \<Rightarrow> nat list"
  barriers :: "nat \<Rightarrow> barrier"
  rwlocks :: "nat \<Rightarrow> rwlock"
  synchlists :: "nat \<Rightarrow> synchlist"
  synchdisks :: "nat \<Rightarrow> synchdisk"
  synchconsoles :: "nat \<Rightarrow> synchconsole"
  level :: IntStatus
  pending :: "((point list \<times> IntType) \<times> int) list"
  inHandler :: bool
  yieldOnReturn :: bool
  mstatus :: MachineStatus
  totalTicks :: int
  idleTicks :: int
  systemTicks :: int
  userTicks :: int
  random :: "nat \<Rightarrow> int"
  nrandom :: nat
  halted :: bool

definition MAX_THREAD_NUM :: int where "MAX_THREAD_NUM = 128"
definition UserTick :: int where "UserTick = 1"
definition SystemTick :: int where "SystemTick = 10"
definition TimerTicks :: int where "TimerTicks = 100"
definition STACK_FENCEPOST :: "32 word" where "STACK_FENCEPOST = 0xdeadbeef"

text \<open>\<open>threadLock\<close>, the lock of the thread table (threads/system.cc).\<close>

definition threadLock :: nat where "threadLock = 0"

section \<open>Auxiliary state updates\<close>

definition thr :: "nachos \<Rightarrow> nat \<Rightarrow> thread" where
  "thr k t = threads k ! t"

definition upd :: "nat \<Rightarrow> (thread \<Rightarrow> thread) \<Rightarrow> nachos \<Rightarrow> nachos" where
  "upd t f k = k\<lparr>threads := (threads k)[t := f (thr k t)]\<rparr>"

text \<open>The current thread is to go through the points \<open>ps\<close> next.\<close>

definition calls :: "point list \<Rightarrow> nachos \<Rightarrow> nachos" where
  "calls ps k = upd (currentThread k) (\<lambda>t. t\<lparr>konts := ps @ konts t\<rparr>) k"

definition setStatus :: "nat \<Rightarrow> ThreadStatus \<Rightarrow> nachos \<Rightarrow> nachos" where
  "setStatus t st = upd t (\<lambda>r. r\<lparr>tstatus := st\<rparr>)"

definition upd_sem :: "sem \<Rightarrow> (semaphore \<Rightarrow> semaphore) \<Rightarrow> nachos \<Rightarrow> nachos" where
  "upd_sem s f k = k\<lparr>sems := (sems k)(s := f (sems k s))\<rparr>"

text \<open>\<open>oldLevel = SetLevel(IntOff); \<dots>; SetLevel(oldLevel)\<close> around the points \<open>ps\<close>. Turning interrupts
  off neither ticks nor fails.\<close>

definition atomically :: "point list \<Rightarrow> nachos \<Rightarrow> nachos" where
  "atomically ps k = calls (ps @ [SetLevel (level k)]) (k\<lparr>level := IntOff\<rparr>)"

section \<open>Interrupts\<close>

definition Interrupt_SetLevel :: "IntStatus \<Rightarrow> nachos \<Rightarrow> nachos res" where
  "Interrupt_SetLevel now k =
     rbind (ASSERT (now = IntOff \<or> \<not> inHandler k)) (\<lambda>_.
     let k' = k\<lparr>level := now\<rparr> in
     Inr (if now = IntOn \<and> level k = IntOff then calls [OneTick] k' else k'))"

definition Interrupt_OneTick :: "nachos \<Rightarrow> nachos res" where
  "Interrupt_OneTick k =
     (let k' = (if mstatus k = SystemMode
                then k\<lparr>totalTicks := totalTicks k + SystemTick, systemTicks := systemTicks k + SystemTick\<rparr>
                else k\<lparr>totalTicks := totalTicks k + UserTick, userTicks := userTicks k + UserTick\<rparr>)
      in Inr (calls [DueLoop, TickEnd (mstatus k)] (k'\<lparr>level := IntOff\<rparr>)))"

definition OneTick_end :: "MachineStatus \<Rightarrow> nachos \<Rightarrow> nachos res" where
  "OneTick_end old k =
     (let k' = k\<lparr>level := IntOn\<rparr> in
      Inr (if yieldOnReturn k then calls [Yield, SetStatus old] (k'\<lparr>yieldOnReturn := False, mstatus := SystemMode\<rparr>)
           else k'))"

definition YieldOnReturn :: "nachos \<Rightarrow> nachos res" where
  "YieldOnReturn k = rbind (ASSERT (inHandler k)) (\<lambda>_. Inr (k\<lparr>yieldOnReturn := True\<rparr>))"

definition Schedule :: "point list \<Rightarrow> int \<Rightarrow> IntType \<Rightarrow> nachos \<Rightarrow> nachos res" where
  "Schedule handler fromNow type k =
     (let when = totalTicks k + fromNow in
      rbind (ASSERT (fromNow > 0)) (\<lambda>_. Inr (k\<lparr>pending := sorted_insert (handler, type) when (pending k)\<rparr>)))"

text \<open>The points of the handler to be run, or \<open>None\<close> for FALSE.\<close>

definition CheckIfDue :: "bool \<Rightarrow> nachos \<Rightarrow> (point list option \<times> nachos) res" where
  "CheckIfDue advanceClock k =
     rbind (ASSERT (level k = IntOff)) (\<lambda>_.
     case pending k of [] \<Rightarrow> Inr (None, k)
     | ((handler, type), when) # rest \<Rightarrow>
         let k' = k\<lparr>pending := rest\<rparr>; back = (\<lambda>k. k\<lparr>pending := sorted_insert (handler, type) when (pending k)\<rparr>) in
         if \<not> advanceClock \<and> when > totalTicks k then Inr (None, back k')
         else
           let k' = (if when > totalTicks k
                     then k'\<lparr>idleTicks := idleTicks k + (when - totalTicks k), totalTicks := when\<rparr> else k') in
           if mstatus k = IdleMode \<and> type = TimerInt \<and> rest = [] then Inr (None, back k')
           else Inr (Some (handler @ [EndHandler (mstatus k)]), k'\<lparr>inHandler := True, mstatus := SystemMode\<rparr>))"

definition EndHandler_ret :: "MachineStatus \<Rightarrow> nachos \<Rightarrow> nachos res" where
  "EndHandler_ret old k = Inr (k\<lparr>mstatus := old, inHandler := False\<rparr>)"

text \<open>\<open>while (CheckIfDue(FALSE));\<close>\<close>

definition Due_loop :: "nachos \<Rightarrow> nachos res" where
  "Due_loop k = rbind (CheckIfDue False k) (\<lambda>(h, k). Inr (case h of None \<Rightarrow> k | Some ps \<Rightarrow> calls (ps @ [DueLoop]) k))"

definition Interrupt_Idle :: "nachos \<Rightarrow> nachos res" where
  "Interrupt_Idle k =
     rbind (CheckIfDue True (k\<lparr>mstatus := IdleMode\<rparr>)) (\<lambda>(h, k).
     Inr (case h of None \<Rightarrow> k\<lparr>halted := True\<rparr> | Some ps \<Rightarrow> calls (ps @ [DueLoop, IdleEnd]) k))"

definition Idle_end :: "nachos \<Rightarrow> nachos res" where
  "Idle_end k = Inr (k\<lparr>yieldOnReturn := False, mstatus := SystemMode\<rparr>)"

section \<open>Timer\<close>

text \<open>A timer is the pair of its \<open>randomize\<close> flag and its handler.\<close>

definition TimeOfNextInterrupt :: "bool \<Rightarrow> nachos \<Rightarrow> int \<times> nachos" where
  "TimeOfNextInterrupt randomize k =
     (if randomize then (1 + random k (nrandom k) smod (TimerTicks * 2), k\<lparr>nrandom := nrandom k + 1\<rparr>)
      else (TimerTicks, k))"

definition Timer_new :: "bool \<Rightarrow> point \<Rightarrow> nachos \<Rightarrow> nachos res" where
  "Timer_new randomize handler k =
     (let (t, k) = TimeOfNextInterrupt randomize k in Schedule [TimerExpired randomize handler] t TimerInt k)"

definition Timer_expired :: "bool \<Rightarrow> point \<Rightarrow> nachos \<Rightarrow> nachos res" where
  "Timer_expired randomize handler k =
     (let (t, k) = TimeOfNextInterrupt randomize k in
      rbind (Schedule [TimerExpired randomize handler] t TimerInt k) (\<lambda>k. Inr (calls [handler] k)))"

definition Timer_interrupt_handler :: "nachos \<Rightarrow> nachos res" where
  "Timer_interrupt_handler k = (if mstatus k \<noteq> IdleMode then YieldOnReturn k else Inr k)"

definition RR_handler :: "nachos \<Rightarrow> nachos res" where
  "RR_handler k =
     (let duration = totalTicks k - prevTick k in
      if duration \<ge> TimerTicks then
        if mstatus k \<noteq> IdleMode then rbind (YieldOnReturn k) (\<lambda>k. Inr (k\<lparr>prevTick := totalTicks k\<rparr>)) else Inr k
      else Inr k)"

section \<open>Scheduler\<close>

definition Scheduler_ReadyToRun :: "nat \<Rightarrow> nachos \<Rightarrow> nachos res" where
  "Scheduler_ReadyToRun t k0 = (let k = setStatus t READY k0 in
     if RoundRobbin k then Inr (k\<lparr>readyList := readyList k @ [(t, 0)]\<rparr>)
     else
       let k' = k\<lparr>readyList := sorted_insert t (priority (thr k t)) (readyList k)\<rparr> in
       Inr (if priority (thr k t) < priority (thr k (currentThread k)) then calls [Yield] k' else k'))"

definition FindNextToRun :: "nachos \<Rightarrow> nat option \<times> nachos" where
  "FindNextToRun k = (case readyList k of [] \<Rightarrow> (None, k) | (t, _) # rest \<Rightarrow> (Some t, k\<lparr>readyList := rest\<rparr>))"

definition CheckOverflow :: "thread \<Rightarrow> unit res" where
  "CheckOverflow t = (case stack t of None \<Rightarrow> Inr () | Some w \<Rightarrow> ASSERT (w = STACK_FENCEPOST))"

text \<open>\<open>Run\<close> up to \<open>SWITCH\<close>: the old thread will go on behind it.\<close>

definition Scheduler_Run :: "nat \<Rightarrow> nachos \<Rightarrow> nachos res" where
  "Scheduler_Run nextThread k =
     rbind (CheckOverflow (thr k (currentThread k))) (\<lambda>_.
     Inr (setStatus nextThread RUNNING ((calls [AfterSwitch] k)\<lparr>currentThread := nextThread\<rparr>)))"

definition After_switch :: "nachos \<Rightarrow> nachos res" where
  "After_switch k = Inr (case threadToBeDestroyed k of None \<Rightarrow> k | Some t \<Rightarrow> calls [ThreadDelete t, ClearDestroyed] k)"

section \<open>Threads\<close>

text \<open>The first unused number in the thread table.\<close>

fun first_unused :: "bool list \<Rightarrow> int \<Rightarrow> int" where
  "first_unused [] i = -1"
| "first_unused (u # us) i = (if u then first_unused us (i + 1) else i)"

definition new_thread :: "int \<Rightarrow> int \<Rightarrow> thread" where
  "new_thread p tid = \<lparr>tstatus = JUST_CREATED, priority = p, TID = tid, UID = 0, stack = None, konts = [], ret = 0\<rparr>"

text \<open>The constructor with a priority; \<open>Thread(name)\<close> is the one with priority 0. \<open>SetLevel\<close> back to the
  old level is left to the caller's points.\<close>

definition Thread_new :: "int \<Rightarrow> nachos \<Rightarrow> (nat \<times> nachos) res" where
  "Thread_new p k =
     (let i = first_unused (used_TID k) 0; t = length (threads k) in
      rbind (ASSERT (i \<ge> 0 \<and> i < MAX_THREAD_NUM)) (\<lambda>_.
      rbind (aset (used_TID k) i True) (\<lambda>us.
      rbind (aset (Thread_Pointer k) i (Some t)) (\<lambda>tp.
      Inr (t, k\<lparr>threads := threads k @ [new_thread p i], used_TID := us, Thread_Pointer := tp\<rparr>)))))"

definition Thread_delete :: "nat \<Rightarrow> nachos \<Rightarrow> nachos res" where
  "Thread_delete t k =
     rbind (ASSERT (t \<noteq> currentThread k)) (\<lambda>_.
     Inr (calls [Acquire threadLock, FreeTID t, Release threadLock] (upd t (\<lambda>r. r\<lparr>stack := None\<rparr>) k)))"

definition Free_TID :: "nat \<Rightarrow> nachos \<Rightarrow> nachos res" where
  "Free_TID t k = rbind (aset (used_TID k) (TID (thr k t)) False) (\<lambda>us. Inr (k\<lparr>used_TID := us\<rparr>))"

text \<open>\<open>StackAllocate\<close>: the fencepost, and the frame in which \<open>ThreadRoot\<close> enables interrupts, calls the
  function and finishes the thread.\<close>

definition StackAllocate :: "nat \<Rightarrow> point list \<Rightarrow> nachos \<Rightarrow> nachos" where
  "StackAllocate t body = upd t (\<lambda>r. r\<lparr>stack := Some STACK_FENCEPOST, konts := SetLevel IntOn # body @ [Finish]\<rparr>)"

text \<open>\<open>t = new Thread(name, p); t->Fork(body)\<close>: the constructor turns interrupts off around its search of
  the table and on again.\<close>

definition Thread_create :: "int \<Rightarrow> point list \<Rightarrow> nachos \<Rightarrow> nachos res" where
  "Thread_create p body k =
     rbind (Thread_new p k) (\<lambda>(t, k'). Inr (calls [SetLevel (level k), Fork t body] (k'\<lparr>level := IntOff\<rparr>)))"

definition Thread_Fork :: "nat \<Rightarrow> point list \<Rightarrow> nachos \<Rightarrow> nachos res" where
  "Thread_Fork t body k = Inr (atomically [ReadyToRun t] (StackAllocate t body k))"

definition Thread_Finish :: "nachos \<Rightarrow> nachos res" where
  "Thread_Finish k = Inr (calls [Sleep] (k\<lparr>level := IntOff, threadToBeDestroyed := Some (currentThread k)\<rparr>))"

definition Thread_Yield :: "nachos \<Rightarrow> nachos res" where
  "Thread_Yield k = (case FindNextToRun k of
       (None, k) \<Rightarrow> Inr (atomically [] k)
     | (Some nextThread, k) \<Rightarrow> Inr (atomically [ReadyToRun (currentThread k), RunThread nextThread] k))"

definition Thread_Sleep :: "nachos \<Rightarrow> nachos res" where
  "Thread_Sleep k =
     rbind (ASSERT (level k = IntOff)) (\<lambda>_. Inr (calls [SleepLoop] (setStatus (currentThread k) BLOCKED k)))"

definition Sleep_loop :: "nachos \<Rightarrow> nachos res" where
  "Sleep_loop k = (case FindNextToRun k of
       (None, k) \<Rightarrow> Inr (calls [Idle, SleepLoop] k)
     | (Some nextThread, k) \<Rightarrow> Inr (calls [RunThread nextThread] k))"

section \<open>Semaphores\<close>

definition Semaphore_P :: "sem \<Rightarrow> nachos \<Rightarrow> nachos res" where
  "Semaphore_P s k = Inr (atomically [P_loop s] k)"

text \<open>One round of \<open>while (value == 0)\<close>, and the decrement behind the loop.\<close>

definition Semaphore_P_loop :: "sem \<Rightarrow> nachos \<Rightarrow> nachos res" where
  "Semaphore_P_loop s k =
     (if sem_value (sems k s) = 0
      then Inr (calls [Sleep, P_loop s] (upd_sem s (\<lambda>m. m\<lparr>queue := queue m @ [currentThread k]\<rparr>) k))
      else Inr (upd_sem s (\<lambda>m. m\<lparr>sem_value := sem_value m - 1\<rparr>) k))"

definition Semaphore_V :: "sem \<Rightarrow> nachos \<Rightarrow> nachos res" where
  "Semaphore_V s k = (case queue (sems k s) of
       [] \<Rightarrow> Inr (atomically [V_inc s] k)
     | t # ts \<Rightarrow> Inr (atomically [ReadyToRun t, V_inc s] (upd_sem s (\<lambda>m. m\<lparr>queue := ts\<rparr>) k)))"

definition Semaphore_V_inc :: "sem \<Rightarrow> nachos \<Rightarrow> nachos res" where
  "Semaphore_V_inc s k = Inr (upd_sem s (\<lambda>m. m\<lparr>sem_value := sem_value m + 1\<rparr>) k)"

section \<open>Locks\<close>

definition isHeldByCurrentThread :: "nat \<Rightarrow> nachos \<Rightarrow> bool" where
  "isHeldByCurrentThread l k \<longleftrightarrow> Owner k l = Some (currentThread k)"

definition Lock_Acquire :: "nat \<Rightarrow> nachos \<Rightarrow> nachos res" where
  "Lock_Acquire l k = Inr (atomically [P (LockSem l), SetOwner l] k)"

definition Lock_set_owner :: "nat \<Rightarrow> nachos \<Rightarrow> nachos res" where
  "Lock_set_owner l k = Inr (k\<lparr>Owner := (Owner k)(l := Some (currentThread k))\<rparr>)"

definition Lock_Release :: "nat \<Rightarrow> nachos \<Rightarrow> nachos res" where
  "Lock_Release l k =
     rbind (ASSERT (isHeldByCurrentThread l k)) (\<lambda>_.
     Inr (atomically [V (LockSem l)] (k\<lparr>Owner := (Owner k)(l := None)\<rparr>)))"

section \<open>Condition variables\<close>

definition Condition_Wait :: "nat \<Rightarrow> nat \<Rightarrow> nachos \<Rightarrow> nachos res" where
  "Condition_Wait c l k =
     rbind (ASSERT (isHeldByCurrentThread l k)) (\<lambda>_. Inr (atomically [Release l, WaitSleep c, Acquire l] k))"

definition Condition_wait_sleep :: "nat \<Rightarrow> nachos \<Rightarrow> nachos res" where
  "Condition_wait_sleep c k =
     Inr (calls [Sleep] (k\<lparr>waitQueue := (waitQueue k)(c := waitQueue k c @ [currentThread k])\<rparr>))"

definition Condition_Signal :: "nat \<Rightarrow> nat \<Rightarrow> nachos \<Rightarrow> nachos res" where
  "Condition_Signal c l k =
     rbind (ASSERT (isHeldByCurrentThread l k)) (\<lambda>_.
     Inr (case waitQueue k c of
            [] \<Rightarrow> atomically [] k
          | t # ts \<Rightarrow> atomically [ReadyToRun t] (k\<lparr>waitQueue := (waitQueue k)(c := ts)\<rparr>)))"

definition Condition_Broadcast :: "nat \<Rightarrow> nat \<Rightarrow> nachos \<Rightarrow> nachos res" where
  "Condition_Broadcast c l k =
     rbind (ASSERT (isHeldByCurrentThread l k)) (\<lambda>_. Inr (atomically [BroadcastLoop c] k))"

definition Broadcast_loop :: "nat \<Rightarrow> nachos \<Rightarrow> nachos res" where
  "Broadcast_loop c k =
     Inr (case waitQueue k c of
            [] \<Rightarrow> k
          | t # ts \<Rightarrow> calls [ReadyToRun t, BroadcastLoop c] (k\<lparr>waitQueue := (waitQueue k)(c := ts)\<rparr>))"

section \<open>Barriers and readers and writers\<close>

definition Barrier_ArriveAndWait :: "nat \<Rightarrow> nachos \<Rightarrow> nachos res" where
  "Barrier_ArriveAndWait b k =
     Inr (atomically [Acquire (Mutex (barriers k b)), BarrierCheck b, Release (Mutex (barriers k b))] k)"

definition Barrier_check :: "nat \<Rightarrow> nachos \<Rightarrow> nachos res" where
  "Barrier_check b k =
     (let B = barriers k b; B' = B\<lparr>num_left := num_left B - 1\<rparr>; k' = k\<lparr>barriers := (barriers k)(b := B')\<rparr> in
      Inr (if num_left B' = 0 then calls [Broadcast (bcond B) (Mutex B), BarrierReset b] k'
           else calls [Wait (bcond B) (Mutex B)] k'))"

definition Barrier_reset :: "nat \<Rightarrow> nachos \<Rightarrow> nachos res" where
  "Barrier_reset b k =
     (let B = barriers k b in Inr (k\<lparr>barriers := (barriers k)(b := B\<lparr>num_left := num_threads B\<rparr>)\<rparr>))"

definition RW_AcquireReaderLock :: "nat \<Rightarrow> nachos \<Rightarrow> nachos res" where
  "RW_AcquireReaderLock r k =
     (let L = ReaderLock (rwlocks k r) in Inr (atomically [Acquire L, ReaderIn r, Release L] k))"

definition Reader_in :: "nat \<Rightarrow> nachos \<Rightarrow> nachos res" where
  "Reader_in r k =
     (let R = rwlocks k r; R' = R\<lparr>ReaderCnt := ReaderCnt R + 1\<rparr>; k' = k\<lparr>rwlocks := (rwlocks k)(r := R')\<rparr> in
      Inr (if ReaderCnt R' = 1 then calls [P (WriterLock R)] k' else k'))"

definition RW_ReleaseReaderLock :: "nat \<Rightarrow> nachos \<Rightarrow> nachos res" where
  "RW_ReleaseReaderLock r k =
     (let L = ReaderLock (rwlocks k r) in Inr (atomically [Acquire L, ReaderOut r, Release L] k))"

definition Reader_out :: "nat \<Rightarrow> nachos \<Rightarrow> nachos res" where
  "Reader_out r k =
     (let R = rwlocks k r; R' = R\<lparr>ReaderCnt := ReaderCnt R - 1\<rparr>; k' = k\<lparr>rwlocks := (rwlocks k)(r := R')\<rparr> in
      Inr (if ReaderCnt R' = 0 then calls [V (WriterLock R)] k' else k'))"

definition RW_AcquireWriterLock :: "nat \<Rightarrow> nachos \<Rightarrow> nachos res" where
  "RW_AcquireWriterLock r k = Inr (calls [P (WriterLock (rwlocks k r))] k)"

definition RW_ReleaseWriterLock :: "nat \<Rightarrow> nachos \<Rightarrow> nachos res" where
  "RW_ReleaseWriterLock r k = Inr (calls [V (WriterLock (rwlocks k r))] k)"

section \<open>Synchronised lists and the synchronous disk\<close>

definition SynchList_Append :: "nat \<Rightarrow> int \<Rightarrow> nachos \<Rightarrow> nachos res" where
  "SynchList_Append n x k =
     (let S = synchlists k n in Inr (calls [Acquire (slock S), SL_Put n x, Signal (listEmpty S) (slock S), Release (slock S)] k))"

definition SynchList_put :: "nat \<Rightarrow> int \<Rightarrow> nachos \<Rightarrow> nachos res" where
  "SynchList_put n x k =
     (let S = synchlists k n in Inr (k\<lparr>synchlists := (synchlists k)(n := S\<lparr>slist := slist S @ [x]\<rparr>)\<rparr>))"

definition SynchList_Remove :: "nat \<Rightarrow> nachos \<Rightarrow> nachos res" where
  "SynchList_Remove n k =
     (let S = synchlists k n in Inr (calls [Acquire (slock S), SL_Loop n, Release (slock S)] k))"

text \<open>\<open>while (list->IsEmpty()) listEmpty->Wait(lock); item = list->Remove();\<close> NULL is 0.\<close>

definition SynchList_loop :: "nat \<Rightarrow> nachos \<Rightarrow> nachos res" where
  "SynchList_loop n k =
     (let S = synchlists k n in
      case slist S of
        [] \<Rightarrow> Inr (calls [Wait (listEmpty S) (slock S), SL_Loop n] k)
      | x # xs \<Rightarrow> rbind (ASSERT (x \<noteq> 0)) (\<lambda>_.
          Inr (upd (currentThread k) (\<lambda>t. t\<lparr>ret := x\<rparr>) (k\<lparr>synchlists := (synchlists k)(n := S\<lparr>slist := xs\<rparr>)\<rparr>))))"

text \<open>\<open>ReadSector\<close> and \<open>WriteSector\<close> as the threads see them: one request, of the latency the disk
  computes for it. \<open>Disk_issue\<close> is \<open>ReadRequest\<close> and \<open>WriteRequest\<close> without the data.\<close>

definition SynchDisk_request :: "nat \<Rightarrow> int \<Rightarrow> nachos \<Rightarrow> nachos res" where
  "SynchDisk_request d ticks k =
     (let D = synchdisks k d in Inr (calls [Acquire (disk_lock D), DiskIssue d ticks, P (DiskSem d), Release (disk_lock D)] k))"

definition Disk_issue :: "nat \<Rightarrow> int \<Rightarrow> nachos \<Rightarrow> nachos res" where
  "Disk_issue d ticks k =
     (let D = synchdisks k d in
      rbind (ASSERT (\<not> disk_active D)) (\<lambda>_.
      Schedule [DiskDone d] ticks DiskInt (k\<lparr>synchdisks := (synchdisks k)(d := D\<lparr>disk_active := True\<rparr>)\<rparr>)))"

definition Disk_done :: "nat \<Rightarrow> nachos \<Rightarrow> nachos res" where
  "Disk_done d k =
     (let D = synchdisks k d in
      Inr (calls [V (DiskSem d)] (k\<lparr>synchdisks := (synchdisks k)(d := D\<lparr>disk_active := False\<rparr>)\<rparr>)))"

text \<open>The readers and writers of the file whose header is in sector \<open>s\<close>. \<open>cntLock\<close> is \<open>readerLock\<close>.\<close>

definition SD_PlusReader :: "nat \<Rightarrow> nat \<Rightarrow> nachos \<Rightarrow> nachos res" where
  "SD_PlusReader d s k =
     (let L = cntLock (synchdisks k d) in Inr (calls [Acquire L, PlusReaderIn d s, Release L] k))"

definition SD_reader_in :: "nat \<Rightarrow> nat \<Rightarrow> nachos \<Rightarrow> nachos res" where
  "SD_reader_in d s k =
     (let D = synchdisks k d; D' = D\<lparr>readerCnt := (readerCnt D)(s := readerCnt D s + 1)\<rparr>;
        k' = k\<lparr>synchdisks := (synchdisks k)(d := D')\<rparr> in
      Inr (if readerCnt D' s = 1 then calls [P (mutex D s)] k' else k'))"

definition SD_MinusReader :: "nat \<Rightarrow> nat \<Rightarrow> nachos \<Rightarrow> nachos res" where
  "SD_MinusReader d s k =
     (let L = cntLock (synchdisks k d) in Inr (calls [Acquire L, MinusReaderOut d s, Release L] k))"

definition SD_reader_out :: "nat \<Rightarrow> nat \<Rightarrow> nachos \<Rightarrow> nachos res" where
  "SD_reader_out d s k =
     (let D = synchdisks k d; D' = D\<lparr>readerCnt := (readerCnt D)(s := readerCnt D s - 1)\<rparr>;
        k' = k\<lparr>synchdisks := (synchdisks k)(d := D')\<rparr> in
      Inr (if readerCnt D' s = 0 then calls [V (mutex D s)] k' else k'))"

definition SD_PlusWriter :: "nat \<Rightarrow> nat \<Rightarrow> nachos \<Rightarrow> nachos res" where
  "SD_PlusWriter d s k = Inr (calls [P (mutex (synchdisks k d) s)] k)"

definition SD_MinusWriter :: "nat \<Rightarrow> nat \<Rightarrow> nachos \<Rightarrow> nachos res" where
  "SD_MinusWriter d s k = Inr (calls [V (mutex (synchdisks k d) s)] k)"

section \<open>The synchronous console\<close>

definition set_console :: "nat \<Rightarrow> console \<Rightarrow> nachos \<Rightarrow> nachos" where
  "set_console c D k = k\<lparr>synchconsoles := (synchconsoles k)(c := (synchconsoles k c)\<lparr>con_dev := D\<rparr>)\<rparr>"

text \<open>The last call of the constructor: the first poll of the keyboard.\<close>

definition Console_start :: "nat \<Rightarrow> nachos \<Rightarrow> nachos res" where
  "Console_start c k = Schedule [ConsolePoll c] ConsoleTime ConsoleReadInt k"

text \<open>\<open>CheckCharAvail\<close>, which calls \<open>ReadAvail\<close> when it has read a character.\<close>

definition Console_poll :: "nat \<Rightarrow> nachos \<Rightarrow> nachos res" where
  "Console_poll c k =
     (let C = synchconsoles k c in
      rbind (Schedule [ConsolePoll c] ConsoleTime ConsoleReadInt k) (\<lambda>k.
      rbind (CheckCharAvail (totalTicks k) (con_ready C (totalTicks k)) (con_dev C)) (\<lambda>D.
      Inr (if readAvails D = readAvails (con_dev C) then set_console c D k else calls [V (ReadSem c)] (set_console c D k)))))"

definition Console_written :: "nat \<Rightarrow> nachos \<Rightarrow> nachos res" where
  "Console_written c k = Inr (calls [V (WriteSem c)] (set_console c (WriteDone (con_dev (synchconsoles k c))) k))"

definition SynchConsole_PutChar :: "nat \<Rightarrow> byte \<Rightarrow> nachos \<Rightarrow> nachos res" where
  "SynchConsole_PutChar c ch k =
     (let L = con_lock (synchconsoles k c) in Inr (calls [Acquire L, ConsolePut c ch, P (WriteSem c), Release L] k))"

definition Console_put :: "nat \<Rightarrow> byte \<Rightarrow> nachos \<Rightarrow> nachos res" where
  "Console_put c ch k =
     rbind (PutChar (totalTicks k) ch (con_dev (synchconsoles k c))) (\<lambda>D.
     Schedule [ConsoleWritten c] ConsoleTime ConsoleWriteInt (set_console c D k))"

definition SynchConsole_GetChar :: "nat \<Rightarrow> nachos \<Rightarrow> nachos res" where
  "SynchConsole_GetChar c k =
     (let L = con_lock (synchconsoles k c) in Inr (calls [Acquire L, P (ReadSem c), ConsoleGet c, Release L] k))"

definition Console_get :: "nat \<Rightarrow> nachos \<Rightarrow> nachos res" where
  "Console_get c k =
     (case GetChar (con_dev (synchconsoles k c)) of (ch, D) \<Rightarrow>
      Inr (upd (currentThread k) (\<lambda>t. t\<lparr>ret := ch\<rparr>) (set_console c D k)))"

section \<open>Running\<close>

fun exec :: "point \<Rightarrow> nachos \<Rightarrow> nachos res" where
  "exec (SetLevel now) k = Interrupt_SetLevel now k"
| "exec OneTick k = Interrupt_OneTick k"
| "exec DueLoop k = Due_loop k"
| "exec (TickEnd old) k = OneTick_end old k"
| "exec (SetStatus st) k = Inr (k\<lparr>mstatus := st\<rparr>)"
| "exec (EndHandler old) k = EndHandler_ret old k"
| "exec Idle k = Interrupt_Idle k"
| "exec IdleEnd k = Idle_end k"
| "exec (TimerExpired r h) k = Timer_expired r h k"
| "exec TimerInterruptHandler k = Timer_interrupt_handler k"
| "exec RRHandler k = RR_handler k"
| "exec (ReadyToRun t) k = Scheduler_ReadyToRun t k"
| "exec (RunThread t) k = Scheduler_Run t k"
| "exec AfterSwitch k = After_switch k"
| "exec Yield k = Thread_Yield k"
| "exec Sleep k = Thread_Sleep k"
| "exec SleepLoop k = Sleep_loop k"
| "exec Finish k = Thread_Finish k"
| "exec (NewThread p body) k = Thread_create p body k"
| "exec (Fork t body) k = Thread_Fork t body k"
| "exec (ThreadDelete t) k = Thread_delete t k"
| "exec (FreeTID t) k = Free_TID t k"
| "exec ClearDestroyed k = Inr (k\<lparr>threadToBeDestroyed := None\<rparr>)"
| "exec (P s) k = Semaphore_P s k"
| "exec (P_loop s) k = Semaphore_P_loop s k"
| "exec (V s) k = Semaphore_V s k"
| "exec (V_inc s) k = Semaphore_V_inc s k"
| "exec (Acquire l) k = Lock_Acquire l k"
| "exec (SetOwner l) k = Lock_set_owner l k"
| "exec (Release l) k = Lock_Release l k"
| "exec (Wait c l) k = Condition_Wait c l k"
| "exec (WaitSleep c) k = Condition_wait_sleep c k"
| "exec (Signal c l) k = Condition_Signal c l k"
| "exec (Broadcast c l) k = Condition_Broadcast c l k"
| "exec (BroadcastLoop c) k = Broadcast_loop c k"
| "exec (ArriveAndWait b) k = Barrier_ArriveAndWait b k"
| "exec (BarrierCheck b) k = Barrier_check b k"
| "exec (BarrierReset b) k = Barrier_reset b k"
| "exec (AcquireReaderLock r) k = RW_AcquireReaderLock r k"
| "exec (ReaderIn r) k = Reader_in r k"
| "exec (ReleaseReaderLock r) k = RW_ReleaseReaderLock r k"
| "exec (ReaderOut r) k = Reader_out r k"
| "exec (AcquireWriterLock r) k = RW_AcquireWriterLock r k"
| "exec (ReleaseWriterLock r) k = RW_ReleaseWriterLock r k"
| "exec (SL_Append n x) k = SynchList_Append n x k"
| "exec (SL_Put n x) k = SynchList_put n x k"
| "exec (SL_Remove n) k = SynchList_Remove n k"
| "exec (SL_Loop n) k = SynchList_loop n k"
| "exec (DiskRequest d t) k = SynchDisk_request d t k"
| "exec (DiskIssue d t) k = Disk_issue d t k"
| "exec (DiskDone d) k = Disk_done d k"
| "exec (PlusReader d s) k = SD_PlusReader d s k"
| "exec (PlusReaderIn d s) k = SD_reader_in d s k"
| "exec (MinusReader d s) k = SD_MinusReader d s k"
| "exec (MinusReaderOut d s) k = SD_reader_out d s k"
| "exec (PlusWriter d s) k = SD_PlusWriter d s k"
| "exec (MinusWriter d s) k = SD_MinusWriter d s k"
| "exec (ConsoleStart c) k = Console_start c k"
| "exec (ConsolePoll c) k = Console_poll c k"
| "exec (ConsoleWritten c) k = Console_written c k"
| "exec (SynchPutChar c ch) k = SynchConsole_PutChar c ch k"
| "exec (ConsolePut c ch) k = Console_put c ch k"
| "exec (SynchGetChar c) k = SynchConsole_GetChar c k"
| "exec (ConsoleGet c) k = Console_get c k"

text \<open>The processor: the next point of the current thread, until the machine is halted. A thread
  without a point left has returned from its last function, which the kernel's threads never do:
  their last call is \<open>Finish\<close>.\<close>

definition pop :: "nachos \<Rightarrow> nachos" where
  "pop k = upd (currentThread k) (\<lambda>t. t\<lparr>konts := tl (konts t)\<rparr>) k"

definition step :: "nachos \<Rightarrow> nachos res" where
  "step k =
     (if halted k then Inr k
      else case konts (thr k (currentThread k)) of [] \<Rightarrow> Inr k | p # ps \<Rightarrow> exec p (pop k))"

fun steps_of :: "nat \<Rightarrow> nachos \<Rightarrow> nachos res" where
  "steps_of 0 k = Inr k"
| "steps_of (Suc n) k = rbind (step k) (steps_of n)"

section \<open>Starting up\<close>

text \<open>A new semaphore, and a new lock: a semaphore at 1 and no owner.\<close>

definition Semaphore_new :: "int \<Rightarrow> semaphore" where
  "Semaphore_new initialValue = \<lparr>sem_value = initialValue, queue = []\<rparr>"

definition Lock_sem :: semaphore where "Lock_sem = Semaphore_new 1"

definition Barrier_new :: "int \<Rightarrow> nat \<Rightarrow> nat \<Rightarrow> barrier" where
  "Barrier_new n lck cond = \<lparr>num_threads = n, num_left = n, Mutex = lck, bcond = cond\<rparr>"

definition ReaderWriterLock_new :: "nat \<Rightarrow> sem \<Rightarrow> rwlock" where
  "ReaderWriterLock_new rl wl = \<lparr>ReaderCnt = 0, ReaderLock = rl, WriterLock = wl\<rparr>"

definition SynchList_new :: "nat \<Rightarrow> nat \<Rightarrow> synchlist" where
  "SynchList_new lck cond = \<lparr>slist = [], slock = lck, listEmpty = cond\<rparr>"

definition SynchDisk_new :: "nat \<Rightarrow> nat \<Rightarrow> (nat \<Rightarrow> sem) \<Rightarrow> synchdisk" where
  "SynchDisk_new lck rlck ms =
     \<lparr>disk_active = False, disk_lock = lck, cntLock = rlck, readerCnt = (\<lambda>i. 0), mutex = ms\<rparr>"

definition SynchConsole_new :: "nat \<Rightarrow> byte list \<Rightarrow> (int \<Rightarrow> bool) \<Rightarrow> synchconsole" where
  "SynchConsole_new lck keys ready = \<lparr>con_dev = Console_new 0 keys, con_lock = lck, con_ready = ready\<rparr>"

text \<open>The objects the threads are going to use, each as its constructor leaves it: \<open>vals\<close> has the initial
  values of the semaphores, the others say how the objects are built from locks and semaphores.\<close>

definition Interrupt_new :: "bool \<Rightarrow> (nat \<Rightarrow> int) \<Rightarrow> (nat \<Rightarrow> int) \<Rightarrow> (nat \<Rightarrow> barrier) \<Rightarrow> (nat \<Rightarrow> rwlock) \<Rightarrow> (nat \<Rightarrow> synchlist) \<Rightarrow>
    (nat \<Rightarrow> synchdisk) \<Rightarrow> (nat \<Rightarrow> synchconsole) \<Rightarrow> nachos" where
  "Interrupt_new rr rnd vals bs rws sls sds scs =
     \<lparr>threads = [], currentThread = 0, readyList = [], threadToBeDestroyed = None,
      used_TID = replicate (nat MAX_THREAD_NUM) False, Thread_Pointer = replicate (nat MAX_THREAD_NUM) None,
      RoundRobbin = rr, prevTick = 0,
      sems = (\<lambda>s. case s of Sem n \<Rightarrow> Semaphore_new (vals n) | LockSem l \<Rightarrow> Lock_sem | _ \<Rightarrow> Semaphore_new 0),
      Owner = (\<lambda>l. None), waitQueue = (\<lambda>c. []), barriers = bs, rwlocks = rws, synchlists = sls, synchdisks = sds, synchconsoles = scs,
      level = IntOff, pending = [], inHandler = False, yieldOnReturn = False, mstatus = SystemMode,
      totalTicks = 0, idleTicks = 0, systemTicks = 0, userTicks = 0, random = rnd, nrandom = 0, halted = False\<rparr>"

text \<open>\<open>Initialize\<close> with the flags \<open>-rr\<close> and \<open>-rs\<close>, and then the main thread runs \<open>body\<close> and finishes.\<close>

definition Initialize :: "bool \<Rightarrow> nachos \<Rightarrow> point list \<Rightarrow> nachos res" where
  "Initialize randomYield k body =
     rbind (if randomYield then Timer_new randomYield TimerInterruptHandler k else Inr k) (\<lambda>k.
     rbind (if RoundRobbin k then Timer_new False RRHandler k else Inr k) (\<lambda>k.
     rbind (Thread_new 0 k) (\<lambda>(t, k).
     Inr (upd t (\<lambda>r. r\<lparr>tstatus := RUNNING, konts := SetLevel IntOn # body @ [Finish]\<rparr>) (k\<lparr>currentThread := t\<rparr>)))))"

inductive reaches :: "nachos \<Rightarrow> nachos \<Rightarrow> bool" for k0 where
  start: "reaches k0 k0"
| step: "reaches k0 k \<Longrightarrow> step k = Inr k' \<Longrightarrow> reaches k0 k'"

end
