(* ===== verification/KernelLocks.thy ===== *)
theory KernelLocks
  imports Kernel
begin

text \<open>
  Mutual exclusion of the locks of threads/synch.cc, over every run of the kernel: whatever the
  threads do, in whatever order the scheduler, the timer and the device interrupts let them run, a
  lock has one owner at a time, and a semaphore never goes below zero.

  The argument counts. The semaphore inside lock \<open>l\<close> starts at 1; a thread that got through \<open>P\<close> is
  about to become the owner, and one that has begun to release is about to do \<open>V\<close>. The sum of the
  count, of the owners, and of the threads in between is 1 in every reachable state.
\<close>

section \<open>Weights\<close>

fun wt :: "nat \<Rightarrow> point \<Rightarrow> int" where
  "wt l (SetOwner m) = (if m = l then 1 else 0)"
| "wt l (P s) = (if s = LockSem l then -1 else 0)"
| "wt l (P_loop s) = (if s = LockSem l then -1 else 0)"
| "wt l (V s) = (if s = LockSem l then 1 else 0)"
| "wt l (V_inc s) = (if s = LockSem l then 1 else 0)"
| "wt l _ = 0"

definition wsum :: "nat \<Rightarrow> point list \<Rightarrow> int" where
  "wsum l ps = sum_list (map (wt l) ps)"

definition total :: "nat \<Rightarrow> point list list \<Rightarrow> int" where
  "total l kss = sum_list (map (wsum l) kss)"

definition ktab :: "nachos \<Rightarrow> point list list" where
  "ktab k = map konts (threads k)"

lemma wsum_simps [simp]: "wsum l [] = 0" "wsum l (p # ps) = wt l p + wsum l ps" "wsum l (ps @ qs) = wsum l ps + wsum l qs"
  by (simp_all add: wsum_def)

lemma sum_list_update_int: "i < length xs \<Longrightarrow> sum_list (xs[i := x]) = sum_list xs - xs ! i + (x::int)"
  by (induction xs arbitrary: i) (auto split: nat.split)

lemma total_update [simp]: "i < length kss \<Longrightarrow> total l (kss[i := ps]) = total l kss - wsum l (kss ! i) + wsum l ps"
  by (simp add: total_def map_update sum_list_update_int)

text \<open>What users of the kernel may call. The semaphore of a lock is private to it.\<close>

fun client :: "point \<Rightarrow> bool" where
  "client (P s) \<longleftrightarrow> (\<exists>n. s = Sem n)"
| "client (V s) \<longleftrightarrow> (\<exists>n. s = Sem n)"
| "client (NewThread p body) \<longleftrightarrow> list_all client body"
| "client p \<longleftrightarrow> p \<in> {Yield, Finish} \<or> (\<exists>l. p \<in> {Acquire l, Release l}) \<or> (\<exists>c l. p \<in> {Wait c l, Signal c l, Broadcast c l})
     \<or> (\<exists>b. p \<in> {ArriveAndWait b}) \<or> (\<exists>r. p \<in> {AcquireReaderLock r, ReleaseReaderLock r, AcquireWriterLock r, ReleaseWriterLock r})
     \<or> (\<exists>n x. p \<in> {SL_Append n x, SL_Remove n}) \<or> (\<exists>d t. p = DiskRequest d t) \<or> (\<exists>st. p = SetLevel st)
     \<or> (\<exists>d s. p \<in> {PlusReader d s, MinusReader d s, PlusWriter d s, MinusWriter d s})
     \<or> (\<exists>c. p \<in> {ConsoleStart c, SynchGetChar c}) \<or> (\<exists>c ch. p = SynchPutChar c ch)"

lemma client_wt: "client p \<Longrightarrow> wt l p = 0"
  by (cases "(l, p)" rule: wt.cases) auto

text \<open>The points that may be pending in a thread: a \<open>P\<close> on a lock's semaphore is followed by the
  assignment of the owner (behind the end of \<open>P\<close>, if it has begun), and forked bodies are client code.\<close>

fun guarded :: "point list \<Rightarrow> bool" where
  "guarded [] \<longleftrightarrow> True"
| "guarded (p # ps) \<longleftrightarrow> guarded ps \<and> (\<forall>l. p = P (LockSem l) \<longrightarrow> (\<exists>rs. ps = SetOwner l # rs))
     \<and> (\<forall>l. p = P_loop (LockSem l) \<longrightarrow> (\<exists>x rs. ps = SetLevel x # SetOwner l # rs))
     \<and> (\<forall>t body. p = Fork t body \<longrightarrow> list_all client body)
     \<and> (\<forall>i body. p = NewThread i body \<longrightarrow> list_all client body)
     \<and> (\<forall>r h. p = TimerExpired r h \<longrightarrow> h \<in> {TimerInterruptHandler, RRHandler})"

lemma guarded_append: "guarded ps \<Longrightarrow> guarded qs \<Longrightarrow> guarded (ps @ qs)"
  by (induction ps) auto

lemma guarded_client: "list_all client ps \<Longrightarrow> guarded ps"
  by (induction ps) auto

lemma wsum_client: "list_all client ps \<Longrightarrow> wsum l ps = 0"
  by (induction ps) (auto simp: client_wt)

lemma wt_cases: "wt l p < 0 \<Longrightarrow> wt l p = -1 \<and> (p = P (LockSem l) \<or> p = P_loop (LockSem l))"
  by (cases "(l, p)" rule: wt.cases) (auto split: if_splits)

lemma guarded_nonneg: "guarded ps \<Longrightarrow> 0 \<le> wsum l ps"
proof (induction ps rule: length_induct)
  case (1 ps)
  show ?case
  proof (cases ps)
    case (Cons p qs)
    show ?thesis
    proof (cases "wt l p < 0")
      case True
      from wt_cases [OF True] obtain x rs where "wt l p = -1" "qs = SetOwner l # rs \<or> qs = SetLevel x # SetOwner l # rs"
        using "1.prems" Cons by auto
      moreover from this have "0 \<le> wsum l rs" using 1 Cons by auto
      ultimately show ?thesis using Cons by auto
    next
      case False
      then show ?thesis using 1 Cons by fastforce
    qed
  qed simp
qed

lemma total_nonneg: "\<forall>ps \<in> set kss. guarded ps \<Longrightarrow> 0 \<le> total l kss"
  by (auto simp: total_def intro!: sum_list_nonneg guarded_nonneg)

lemma total_member: "\<forall>ps \<in> set kss. guarded ps \<Longrightarrow> ps \<in> set kss \<Longrightarrow> wsum l ps \<le> total l kss"
  unfolding total_def by (intro member_le_sum_list) (auto intro: guarded_nonneg)

section \<open>The invariant\<close>

definition sem_conf :: "nachos \<Rightarrow> bool" where
  "sem_conf k \<longleftrightarrow> (\<forall>r. \<exists>n. WriterLock (rwlocks k r) = Sem n) \<and> (\<forall>d s. \<exists>n. mutex (synchdisks k d) s = Sem n)"

text \<open>Every thread named anywhere exists.\<close>

fun names :: "nat \<Rightarrow> point \<Rightarrow> bool" where
  "names n (ReadyToRun t) \<longleftrightarrow> t < n"
| "names n (RunThread t) \<longleftrightarrow> t < n"
| "names n _ \<longleftrightarrow> True"

definition named :: "nachos \<Rightarrow> bool" where
  "named k \<longleftrightarrow> (let n = length (threads k) in currentThread k < n \<and> (\<forall>t \<in> fst ` set (readyList k). t < n)
     \<and> (\<forall>s. \<forall>t \<in> set (queue (sems k s)). t < n) \<and> (\<forall>c. \<forall>t \<in> set (waitQueue k c). t < n)
     \<and> (\<forall>ps \<in> set (ktab k). list_all (names n) ps))"

definition handler_ok :: "point list \<Rightarrow> bool" where
  "handler_ok ps \<longleftrightarrow> (\<exists>r h. ps = [TimerExpired r h] \<and> h \<in> {TimerInterruptHandler, RRHandler}) \<or> (\<exists>d. ps = [DiskDone d])
     \<or> (\<exists>c. ps = [ConsolePoll c] \<or> ps = [ConsoleWritten c])"

definition good :: "nachos \<Rightarrow> bool" where
  "good k \<longleftrightarrow> sem_conf k \<and> named k \<and> (\<forall>ps \<in> set (ktab k). guarded ps) \<and> (\<forall>h \<in> set (pending k). handler_ok (fst (fst h)))
     \<and> (\<forall>s. 0 \<le> sem_value (sems k s))"

definition owners :: "nachos \<Rightarrow> nat \<Rightarrow> int" where
  "owners k l = (if Owner k l = None then 0 else 1)"

definition balance :: "nachos \<Rightarrow> nat \<Rightarrow> int" where
  "balance k l = sem_value (sems k (LockSem l)) + owners k l + total l (ktab k)"

section \<open>What the parts of a step do to it\<close>

lemma ktab_nth [simp]: "t < length (threads k) \<Longrightarrow> ktab k ! t = konts (thr k t)" "length (ktab k) = length (threads k)"
  by (simp_all add: ktab_def thr_def)

lemma ktab_upd: "ktab (upd t f k) = (ktab k)[t := konts (f (thr k t))]"
  by (simp add: ktab_def upd_def map_update)

lemma ktab_same: "(\<And>r. konts (f r) = konts r) \<Longrightarrow> ktab (upd t f k) = ktab k"
  unfolding ktab_upd by (cases "t < length (threads k)") (auto simp: list_update_same_conv list_update_beyond)

lemma upd_simps [simp]:
  "length (threads (upd t f k)) = length (threads k)" "currentThread (upd t f k) = currentThread k" "readyList (upd t f k) = readyList k"
  "sems (upd t f k) = sems k" "waitQueue (upd t f k) = waitQueue k" "pending (upd t f k) = pending k" "Owner (upd t f k) = Owner k"
  "rwlocks (upd t f k) = rwlocks k" "synchdisks (upd t f k) = synchdisks k"
  by (simp_all add: upd_def)

lemma good_cong:
  assumes "ktab k' = ktab k" "currentThread k' = currentThread k" "readyList k' = readyList k" "sems k' = sems k"
    "waitQueue k' = waitQueue k" "pending k' = pending k" "rwlocks k' = rwlocks k" "synchdisks k' = synchdisks k"
  shows "good k' = good k"
proof -
  have "length (threads k') = length (threads k)" using arg_cong [OF assms(1), of length] by simp
  then show ?thesis by (simp add: good_def sem_conf_def named_def assms)
qed

lemma good_frame [simp]:
  "good (k\<lparr>level := a1\<rparr>) = good k" "good (k\<lparr>inHandler := a2\<rparr>) = good k" "good (k\<lparr>yieldOnReturn := a3\<rparr>) = good k"
  "good (k\<lparr>mstatus := a4\<rparr>) = good k" "good (k\<lparr>totalTicks := a5\<rparr>) = good k" "good (k\<lparr>idleTicks := a6\<rparr>) = good k"
  "good (k\<lparr>systemTicks := a7\<rparr>) = good k" "good (k\<lparr>userTicks := a8\<rparr>) = good k" "good (k\<lparr>nrandom := a9\<rparr>) = good k"
  "good (k\<lparr>halted := a10\<rparr>) = good k" "good (k\<lparr>threadToBeDestroyed := a11\<rparr>) = good k" "good (k\<lparr>used_TID := a12\<rparr>) = good k"
  "good (k\<lparr>prevTick := a13\<rparr>) = good k" "good (k\<lparr>barriers := a14\<rparr>) = good k" "good (k\<lparr>synchlists := a15\<rparr>) = good k"
  "good (k\<lparr>Owner := a16\<rparr>) = good k" "good (k\<lparr>synchconsoles := a17\<rparr>) = good k"
  by (rule good_cong; simp add: ktab_def)+

lemma balance_cong: "ktab k' = ktab k \<Longrightarrow> sems k' = sems k \<Longrightarrow> Owner k' = Owner k \<Longrightarrow> balance k' l = balance k l"
  by (simp add: balance_def owners_def)

lemma balance_frame [simp]:
  "balance (k\<lparr>level := a1\<rparr>) l = balance k l" "balance (k\<lparr>inHandler := a2\<rparr>) l = balance k l" "balance (k\<lparr>yieldOnReturn := a3\<rparr>) l = balance k l"
  "balance (k\<lparr>mstatus := a4\<rparr>) l = balance k l" "balance (k\<lparr>totalTicks := a5\<rparr>) l = balance k l" "balance (k\<lparr>idleTicks := a6\<rparr>) l = balance k l"
  "balance (k\<lparr>systemTicks := a7\<rparr>) l = balance k l" "balance (k\<lparr>userTicks := a8\<rparr>) l = balance k l" "balance (k\<lparr>nrandom := a9\<rparr>) l = balance k l"
  "balance (k\<lparr>halted := a10\<rparr>) l = balance k l" "balance (k\<lparr>threadToBeDestroyed := a11\<rparr>) l = balance k l" "balance (k\<lparr>used_TID := a12\<rparr>) l = balance k l"
  "balance (k\<lparr>prevTick := a13\<rparr>) l = balance k l" "balance (k\<lparr>barriers := a14\<rparr>) l = balance k l" "balance (k\<lparr>synchlists := a15\<rparr>) l = balance k l"
  "balance (k\<lparr>readyList := a17\<rparr>) l = balance k l" "balance (k\<lparr>pending := a18\<rparr>) l = balance k l" "balance (k\<lparr>currentThread := a19\<rparr>) l = balance k l"
  "balance (k\<lparr>waitQueue := a20\<rparr>) l = balance k l" "balance (k\<lparr>rwlocks := a21\<rparr>) l = balance k l" "balance (k\<lparr>synchdisks := a22\<rparr>) l = balance k l"
  "balance (k\<lparr>synchconsoles := a23\<rparr>) l = balance k l"
  by (rule balance_cong; simp add: ktab_def)+

lemma goodD:
  assumes "good k"
  shows "currentThread k < length (threads k)" "guarded (konts (thr k (currentThread k)))"
    "list_all (names (length (threads k))) (konts (thr k (currentThread k)))"
proof -
  show c: "currentThread k < length (threads k)" using assms by (simp add: good_def named_def Let_def)
  then have "konts (thr k (currentThread k)) \<in> set (ktab k)" by (metis ktab_nth nth_mem)
  then show "guarded (konts (thr k (currentThread k)))" "list_all (names (length (threads k))) (konts (thr k (currentThread k)))"
    using assms by (auto simp: good_def named_def Let_def)
qed

lemma good_set_konts:
  assumes "good k" "guarded ps" "list_all (names (length (threads k))) ps" "konts (f (thr k t)) = ps"
  shows "good (upd t f k)"
proof -
  have m: "qs \<in> set (ktab (upd t f k)) \<Longrightarrow> qs = ps \<or> qs \<in> set (ktab k)" for qs
    using set_update_subset_insert [of "ktab k" t ps] assms(4) by (auto simp: ktab_upd)
  have sc: "sem_conf (upd t f k)" using assms(1) by (simp add: good_def sem_conf_def)
  have "list_all (names (length (threads k))) qs" if "qs \<in> set (ktab (upd t f k))" for qs
    using m [OF that] assms(1,3) by (auto simp: good_def named_def Let_def)
  then have "named (upd t f k)" using assms(1) by (simp add: good_def named_def Let_def)
  moreover have "\<forall>qs \<in> set (ktab (upd t f k)). guarded qs" using assms(1,2) m by (auto simp: good_def)
  ultimately show ?thesis using assms(1) sc by (simp add: good_def)
qed

lemma konts_upd: "(\<And>r. konts (f r) = konts r) \<Longrightarrow> konts (thr (upd t f k) u) = konts (thr k u)"
  unfolding thr_def upd_def by (cases "u = t"; cases "t < length (threads k)") (simp_all add: list_update_beyond)

lemma good_setStatus [simp]: "good (setStatus t st k) = good k"
  unfolding setStatus_def by (rule good_cong) (simp_all add: ktab_same)

lemma balance_setStatus [simp]: "balance (setStatus t st k) l = balance k l"
  unfolding setStatus_def by (rule balance_cong) (simp_all add: ktab_same)

lemma good_calls:
  assumes "good k" "guarded (ps @ konts (thr k (currentThread k)))" "list_all (names (length (threads k))) ps"
  shows "good (calls ps k)"
  unfolding calls_def using goodD [OF assms(1)] assms by (intro good_set_konts [OF assms(1,2)]) auto

lemma balance_calls:
  assumes "currentThread k < length (threads k)"
  shows "balance (calls ps k) l = balance k l + wsum l ps"
  using assms by (simp add: balance_def owners_def calls_def ktab_upd)

lemma good_pop: "good k \<Longrightarrow> good (pop k)"
proof -
  assume g: "good k"
  have "guarded (tl (konts (thr k (currentThread k))))" "list_all (names (length (threads k))) (tl (konts (thr k (currentThread k))))"
    using goodD(2,3) [OF g] by (cases "konts (thr k (currentThread k))"; simp)+
  from good_set_konts [OF g this] show ?thesis by (simp add: pop_def)
qed

lemma balance_pop: "good k \<Longrightarrow> konts (thr k (currentThread k)) = p # ps \<Longrightarrow> balance (pop k) l = balance k l - wt l p"
  using goodD(1) [of k] by (simp add: balance_def owners_def pop_def ktab_upd)

lemma good_atomically:
  assumes "good k" "guarded (ps @ SetLevel (level k) # konts (thr k (currentThread k)))" "list_all (names (length (threads k))) ps"
  shows "good (atomically ps k)"
  unfolding atomically_def using assms by (intro good_calls) (simp_all add: thr_def)

lemma balance_atomically:
  assumes "currentThread k < length (threads k)"
  shows "balance (atomically ps k) l = balance k l + wsum l ps"
  using assms by (simp add: atomically_def balance_calls)

lemma good_readyList:
  "good k \<Longrightarrow> \<forall>t \<in> fst ` set xs. t < length (threads k) \<Longrightarrow> good (k\<lparr>readyList := xs\<rparr>)"
  by (simp add: good_def sem_conf_def named_def Let_def ktab_def)

lemma good_current: "good k \<Longrightarrow> t < length (threads k) \<Longrightarrow> good (k\<lparr>currentThread := t\<rparr>)"
  by (simp add: good_def sem_conf_def named_def Let_def ktab_def)

lemma good_waitQueue:
  "good k \<Longrightarrow> \<forall>t \<in> set ts. t < length (threads k) \<Longrightarrow> good (k\<lparr>waitQueue := (waitQueue k)(c := ts)\<rparr>)"
  by (auto simp: good_def sem_conf_def named_def Let_def ktab_def)

lemma good_pending: "good k \<Longrightarrow> \<forall>h \<in> set hs. handler_ok (fst (fst h)) \<Longrightarrow> good (k\<lparr>pending := hs\<rparr>)"
  by (simp add: good_def sem_conf_def named_def Let_def ktab_def)

lemma good_rwlocks: "good k \<Longrightarrow> WriterLock R = WriterLock (rwlocks k r) \<Longrightarrow> good (k\<lparr>rwlocks := (rwlocks k)(r := R)\<rparr>)"
  by (auto simp: good_def sem_conf_def named_def Let_def ktab_def)

lemma good_synchdisks: "good k \<Longrightarrow> mutex D = mutex (synchdisks k d) \<Longrightarrow> good (k\<lparr>synchdisks := (synchdisks k)(d := D)\<rparr>)"
  by (auto simp: good_def sem_conf_def named_def Let_def ktab_def)

lemma good_upd_sem:
  "good k \<Longrightarrow> 0 \<le> sem_value (f (sems k s)) \<Longrightarrow> \<forall>t \<in> set (queue (f (sems k s))). t < length (threads k) \<Longrightarrow> good (upd_sem s f k)"
  by (auto simp: good_def sem_conf_def named_def Let_def ktab_def upd_sem_def)

lemma balance_upd_sem:
  "balance (upd_sem s f k) l = balance k l + (if s = LockSem l then sem_value (f (sems k s)) - sem_value (sems k s) else 0)"
  by (simp add: balance_def owners_def ktab_def upd_sem_def)

lemma goodD2:
  assumes "good k"
  shows "(t, i) \<in> set (readyList k) \<Longrightarrow> t < length (threads k)" "u \<in> set (queue (sems k s)) \<Longrightarrow> u < length (threads k)"
    "v \<in> set (waitQueue k c) \<Longrightarrow> v < length (threads k)" "((h, ty), w) \<in> set (pending k) \<Longrightarrow> handler_ok h"
    "0 \<le> sem_value (sems k s)" "\<exists>n. WriterLock (rwlocks k r) = Sem n"
    "\<exists>n. mutex (synchdisks k d) x = Sem n"
  using assms by (force simp: good_def named_def sem_conf_def Let_def)+

lemma handler_points:
  assumes "handler_ok h"
  shows "guarded (h @ ps) = guarded ps" "wsum l h = 0" "list_all (names n) h"
  using assms by (auto simp: handler_ok_def)

lemmas upd_frame = thr_def setStatus_def upd_def upd_sem_def

section \<open>One step\<close>

text \<open>The effect of a call on the invariant and on the balance of every lock.\<close>

definition keeps :: "nachos \<Rightarrow> (nat \<Rightarrow> int) \<Rightarrow> nachos \<Rightarrow> bool" where
  "keeps k w k' \<longleftrightarrow> good k' \<and> (\<forall>l. balance k' l = balance k l + w l)"

lemma keeps_calls:
  "good k' \<Longrightarrow> (\<And>l. balance k' l = balance k l) \<Longrightarrow> guarded (ps @ konts (thr k' (currentThread k'))) \<Longrightarrow>
   list_all (names (length (threads k'))) ps \<Longrightarrow> (\<And>l. wsum l ps = w l) \<Longrightarrow> keeps k w (calls ps k')"
  by (auto simp: keeps_def good_calls balance_calls goodD)

lemma keeps_atomically:
  "good k' \<Longrightarrow> (\<And>l. balance k' l = balance k l) \<Longrightarrow> guarded (ps @ SetLevel (level k') # konts (thr k' (currentThread k'))) \<Longrightarrow>
   list_all (names (length (threads k'))) ps \<Longrightarrow> (\<And>l. wsum l ps = w l) \<Longrightarrow> keeps k w (atomically ps k')"
  by (auto simp: keeps_def good_atomically balance_atomically goodD)

lemma keeps_same: "good k' \<Longrightarrow> (\<And>l. balance k' l = balance k l + w l) \<Longrightarrow> keeps k w k'"
  by (simp add: keeps_def)

lemma CheckIfDue_keeps:
  assumes g: "good k" and c: "CheckIfDue adv k = Inr (h, k')"
  shows "good k'" "balance k' l = balance k l" "threads k' = threads k" "currentThread k' = currentThread k"
    "h = Some ps \<Longrightarrow> guarded (ps @ qs) = guarded qs \<and> wsum l ps = 0 \<and> list_all (names n) ps"
proof -
  have hs: "\<forall>e \<in> set (pending k). handler_ok (fst (fst e))" using g by (simp add: good_def)
  have "good k' \<and> balance k' l = balance k l \<and> threads k' = threads k \<and> currentThread k' = currentThread k
     \<and> (\<forall>ps. h = Some ps \<longrightarrow> guarded (ps @ qs) = guarded qs \<and> wsum l ps = 0 \<and> list_all (names n) ps)"
  proof (cases "pending k")
    case Nil
    then show ?thesis using c g by (auto simp: CheckIfDue_def elim!: rbind_InrE)
  next
    case (Cons e rest)
    obtain hd ty w where e: "e = ((hd, ty), w)" by (metis surj_pair)
    have r: "handler_ok hd" "\<forall>e \<in> set rest. handler_ok (fst (fst e))" using hs Cons e by auto
    from handler_points [OF r(1)] show ?thesis using c Cons e r g
      by (auto simp: CheckIfDue_def Let_def elim!: rbind_InrE split: if_split_asm intro!: good_pending)
  qed
  then show "good k'" "balance k' l = balance k l" "threads k' = threads k" "currentThread k' = currentThread k"
    "h = Some ps \<Longrightarrow> guarded (ps @ qs) = guarded qs \<and> wsum l ps = 0 \<and> list_all (names n) ps" by blast+
qed

lemma keeps_interrupts:
  assumes g: "good k" and gp: "guarded (p # konts (thr k (currentThread k)))" and e: "exec p k = Inr k'"
    and p: "p \<in> {OneTick, DueLoop, Idle, IdleEnd, TimerInterruptHandler, RRHandler}
      \<or> (\<exists>r h. p = TimerExpired r h) \<or> (\<exists>x. p = SetLevel x) \<or> (\<exists>m. p \<in> {TickEnd m, SetStatus m, EndHandler m})"
  shows "keeps k (\<lambda>l. wt l p) k'"
proof -
  note D = goodD [OF g]
  have gk: "guarded (konts (threads k ! currentThread k))" using D(2) by (simp add: thr_def)
  have due: "keeps k (\<lambda>l. 0) (case h of None \<Rightarrow> k1 | Some ps \<Rightarrow> calls (ps @ qs) k1)"
    if c: "CheckIfDue adv k0 = Inr (h, k1)" and k0: "good k0" "\<And>l. balance k0 l = balance k l"
      "threads k0 = threads k" "currentThread k0 = currentThread k" and qs: "qs = [DueLoop] \<or> qs = [DueLoop, IdleEnd]" for adv h k0 k1 qs
  proof (cases h)
    case None
    then show ?thesis using CheckIfDue_keeps(1,2) [OF k0(1) c] k0(2) by (simp add: keeps_same)
  next
    case (Some ps)
    note C = CheckIfDue_keeps [OF k0(1) c]
    show ?thesis unfolding Some option.case
    proof (rule keeps_calls)
      show "good k1" "\<And>l. balance k1 l = balance k l" using C(1,2) k0(2) by simp_all
      show "guarded ((ps @ qs) @ konts (thr k1 (currentThread k1)))"
        using C(3,4) C(5) [OF Some, of "qs @ konts (thr k1 (currentThread k1))"] k0(3,4) qs gk by (auto simp: thr_def)
      show "list_all (names (length (threads k1))) (ps @ qs)" "\<And>l. wsum l (ps @ qs) = 0"
        using C(5) [OF Some] qs by auto
    qed
  qed
  have tick: "keeps k (\<lambda>l. 0) (calls [OneTick] (k\<lparr>level := x\<rparr>))" for x
    by (rule keeps_calls) (use g gk in \<open>simp_all add: thr_def\<close>)
  consider "p = OneTick" | "p = DueLoop" | "p = Idle" | r h where "p = TimerExpired r h" | x where "p = SetLevel x" | m where "p = TickEnd m"
    | "p \<in> {IdleEnd, TimerInterruptHandler, RRHandler} \<or> (\<exists>m. p \<in> {SetStatus m, EndHandler m})" using p by blast
  then show ?thesis
  proof cases
    case 1
    then show ?thesis using e g gk by (auto simp: Interrupt_OneTick_def Let_def thr_def intro!: keeps_calls)
  next
    case 2
    then show ?thesis using e due [of False k _ _ "[DueLoop]"] g by (auto simp: Due_loop_def elim!: rbind_InrE)
  next
    case 3
    from e 3 obtain h k1 where c: "CheckIfDue True (k\<lparr>mstatus := IdleMode\<rparr>) = Inr (h, k1)"
      and k': "k' = (case h of None \<Rightarrow> k1\<lparr>halted := True\<rparr> | Some ps \<Rightarrow> calls (ps @ [DueLoop, IdleEnd]) k1)"
      by (auto simp: Interrupt_Idle_def elim!: rbind_InrE)
    have "keeps k (\<lambda>l. 0) (case h of None \<Rightarrow> k1 | Some ps \<Rightarrow> calls (ps @ [DueLoop, IdleEnd]) k1)"
      using due [OF c] g by simp
    then show ?thesis using k' 3 by (cases h) (simp_all add: keeps_def)
  next
    case (4 r h)
    then have h: "h \<in> {TimerInterruptHandler, RRHandler}" using gp by simp
    obtain t k1 where k1: "TimeOfNextInterrupt r k = (t, k1)" by force
    then have g1: "good k1" "\<And>l. balance k1 l = balance k l" "threads k1 = threads k" "currentThread k1 = currentThread k" "pending k1 = pending k"
      using g by (auto simp: TimeOfNextInterrupt_def split: if_split_asm)
    have hs: "\<forall>h \<in> set (pending k). handler_ok (fst (fst h))" using g by (simp add: good_def)
    have "handler_ok [TimerExpired r h]" using h by (simp add: handler_ok_def)
    then show ?thesis using e 4 k1 g1 gk hs h
      by (auto simp: Timer_expired_def Schedule_def Let_def thr_def elim!: rbind_InrE intro!: keeps_calls good_pending)
  next
    case 5
    then show ?thesis using e g tick by (auto simp: Interrupt_SetLevel_def Let_def keeps_def elim!: rbind_InrE split: if_split_asm)
  next
    case 6
    have "keeps k (\<lambda>l. 0) (calls [Yield, SetStatus m] (k\<lparr>level := IntOn, yieldOnReturn := False, mstatus := SystemMode\<rparr>))"
      by (rule keeps_calls) (use g gk in \<open>simp_all add: thr_def\<close>)
    then show ?thesis using e 6 g by (cases "yieldOnReturn k") (auto simp: OneTick_end_def Let_def keeps_same)
  next
    case 7
    then show ?thesis using e g
      by (auto simp: Idle_end_def EndHandler_ret_def Timer_interrupt_handler_def RR_handler_def YieldOnReturn_def Let_def
          elim!: rbind_InrE split: if_split_asm intro!: keeps_same)
  qed
qed

lemma Thread_new_keeps:
  assumes g: "good k" and n: "Thread_new i k = Inr (t, k1)"
  shows "good k1" "balance k1 l = balance k l" "konts (thr k1 (currentThread k1)) = konts (thr k (currentThread k))"
proof -
  from n have th: "\<exists>j. threads k1 = threads k @ [new_thread i j]" and f: "currentThread k1 = currentThread k" "readyList k1 = readyList k"
    "sems k1 = sems k" "waitQueue k1 = waitQueue k" "pending k1 = pending k" "rwlocks k1 = rwlocks k" "synchdisks k1 = synchdisks k"
    "Owner k1 = Owner k"
    by (auto simp: Thread_new_def Let_def elim!: rbind_InrE)
  then have kt: "ktab k1 = ktab k @ [[]]" and len: "length (threads k1) = Suc (length (threads k))"
    by (auto simp: ktab_def new_thread_def)
  have more: "names m q \<Longrightarrow> names (Suc m) q" for m q by (cases "(m, q)" rule: names.cases) auto
  show "good k1" using g more by (auto simp: good_def named_def sem_conf_def Let_def f kt len list_all_iff less_Suc_eq)
  show "balance k1 l = balance k l" by (simp add: balance_def owners_def f kt total_def)
  show "konts (thr k1 (currentThread k1)) = konts (thr k (currentThread k))"
    using th f(1) goodD(1) [OF g] by (auto simp: thr_def nth_append)
qed

lemma keeps_threads:
  assumes g: "good k" and gp: "guarded (p # konts (thr k (currentThread k)))" and nm: "names (length (threads k)) p"
    and e: "exec p k = Inr k'"
    and fork: "\<And>t body. p = Fork t body \<Longrightarrow> t < length (threads k) \<and> konts (thr k t) = []"
    and p: "p \<in> {AfterSwitch, Yield, Sleep, SleepLoop, Finish, ClearDestroyed}
      \<or> (\<exists>t. p \<in> {ReadyToRun t, RunThread t, ThreadDelete t, FreeTID t}) \<or> (\<exists>t body. p = Fork t body) \<or> (\<exists>i body. p = NewThread i body)"
  shows "keeps k (\<lambda>l. wt l p) k'"
proof -
  note D = goodD [OF g]
  have gk: "guarded (konts (threads k ! currentThread k))" using D(2) by (simp add: thr_def)
  have rl: "\<forall>t \<in> fst ` set (readyList k). t < length (threads k)" using g by (simp add: good_def named_def Let_def)
  have ks: "konts (thr (setStatus t st k1) u) = konts (thr k1 u)" for t st k1 u
    by (simp add: setStatus_def konts_upd)
  have sf: "readyList (setStatus t st k1) = readyList k1" "length (threads (setStatus t st k1)) = length (threads k1)"
    "currentThread (setStatus t st k1) = currentThread k1" for t st k1 by (simp_all add: setStatus_def)
  consider "p = AfterSwitch" | "p = Yield" | "p = Sleep" | "p = SleepLoop" | "p = Finish" | "p = ClearDestroyed"
    | t where "p = ReadyToRun t" | t where "p = RunThread t" | t where "p = ThreadDelete t" | t where "p = FreeTID t"
    | t body where "p = Fork t body" | i body where "p = NewThread i body" using p by blast
  then show ?thesis
  proof cases
    case 1
    have "keeps k (\<lambda>l. 0) (calls [ThreadDelete t, ClearDestroyed] k)" for t
      by (rule keeps_calls) (use g D(2) in simp_all)
    then show ?thesis using e g 1 by (cases "threadToBeDestroyed k") (auto simp: After_switch_def keeps_same)
  next
    case 2
    then show ?thesis using e g gk rl D(1)
      by (auto simp: Thread_Yield_def FindNextToRun_def thr_def split: list.split_asm prod.split_asm
          intro!: keeps_atomically good_readyList)
  next
    case 3
    then show ?thesis using e g D(2) by (auto simp: Thread_Sleep_def ks sf elim!: rbind_InrE intro!: keeps_calls)
  next
    case 4
    then show ?thesis using e g gk rl
      by (auto simp: Sleep_loop_def FindNextToRun_def thr_def split: list.split_asm prod.split_asm
          intro!: keeps_calls good_readyList)
  next
    case 5
    then show ?thesis using e g gk by (auto simp: Thread_Finish_def thr_def intro!: keeps_calls)
  next
    case 6
    then show ?thesis using e g by (auto intro!: keeps_same)
  next
    case (7 t)
    then have t: "t < length (threads k)" using nm by simp
    let ?s = "setStatus t READY k"
    have r: "good (?s\<lparr>readyList := xs\<rparr>)" if "\<forall>u \<in> fst ` set xs. u < length (threads k)" for xs
      using good_readyList [of ?s xs] that g by (simp add: sf)
    have y: "keeps k (\<lambda>l. 0) (calls [Yield] (?s\<lparr>readyList := xs\<rparr>))" if "\<forall>u \<in> fst ` set xs. u < length (threads k)" for xs
      by (rule keeps_calls) (use r [OF that] D(2) ks [of t READY k "currentThread k"] in \<open>simp_all add: sf thr_def\<close>)
    have "\<forall>u \<in> fst ` set (sorted_insert t i (readyList k)). u < length (threads k)" for i using rl t by auto
    then show ?thesis using e 7 r y [of "sorted_insert t _ (readyList k)"] rl t
      by (auto simp: Scheduler_ReadyToRun_def Let_def sf ball_Un keeps_def split: if_split_asm)
  next
    case (8 t)
    then have t: "t < length (threads k)" using nm by simp
    have "good (calls [AfterSwitch] k)" using g D(2) by (intro good_calls) simp_all
    then have "good ((calls [AfterSwitch] k)\<lparr>currentThread := t\<rparr>)" using t by (intro good_current) (simp_all add: calls_def)
    then show ?thesis using e 8 D(1)
      by (auto simp: Scheduler_Run_def balance_calls elim!: rbind_InrE intro!: keeps_same)
  next
    case (9 t)
    have "good (upd t (\<lambda>r. r\<lparr>stack := None\<rparr>) k)" using g by (subst good_cong [of _ k]) (simp_all add: ktab_same)
    moreover have "balance (upd t (\<lambda>r. r\<lparr>stack := None\<rparr>) k) l = balance k l" for l
      by (rule balance_cong) (simp_all add: ktab_same)
    moreover have "konts (thr (upd t (\<lambda>r. r\<lparr>stack := None\<rparr>) k) u) = konts (thr k u)" for u
      by (simp add: konts_upd)
    ultimately show ?thesis using e 9 D(2)
      by (auto simp: Thread_delete_def elim!: rbind_InrE intro!: keeps_calls)
  next
    case (10 t)
    then show ?thesis using e g by (auto simp: Free_TID_def elim!: rbind_InrE intro!: keeps_same)
  next
    case (11 t body)
    have t: "t < length (threads k)" "konts (thr k t) = []" using fork 11 by auto
    have b: "list_all client body" using gp 11 by simp
    let ?k = "StackAllocate t body k"
    have gb: "guarded (SetLevel IntOn # body @ [Finish])" using guarded_append [OF guarded_client [OF b], of "[Finish]"] by simp
    have nb: "list_all (names (length (threads k))) (SetLevel IntOn # body @ [Finish])"
    proof -
      have "client q \<Longrightarrow> names n q" for q n by (cases "(n, q)" rule: names.cases) auto
      then show ?thesis using b by (auto simp: list_all_iff)
    qed
    have g1: "good ?k" unfolding StackAllocate_def using gb nb by (intro good_set_konts [OF g gb nb]) simp
    have b1: "balance ?k l = balance k l" for l
      using t wsum_client [OF b] by (simp add: balance_def owners_def StackAllocate_def ktab_upd)
    have c: "guarded (konts (thr ?k (currentThread ?k)))" using goodD(2) [OF g1] .
    show ?thesis using e 11 g1 b1 c t(1)
      by (auto simp: Thread_Fork_def intro!: keeps_atomically) (simp_all add: StackAllocate_def)
  next
    case (12 i body)
    then have b: "list_all client body" using gp by simp
    from e 12 obtain t k1 where n: "Thread_new i k = Inr (t, k1)"
      and k': "k' = calls [SetLevel (level k), Fork t body] (k1\<lparr>level := IntOff\<rparr>)"
      by (auto simp: Thread_create_def elim!: rbind_InrE)
    note N = Thread_new_keeps [OF g n]
    show ?thesis unfolding k' by (rule keeps_calls) (use N b D(2) 12 in \<open>auto simp: thr_def\<close>)
  qed
qed

lemma keeps_semaphores:
  assumes g: "good k" and gp: "guarded (p # konts (thr k (currentThread k)))" and e: "exec p k = Inr k'"
    and p: "\<exists>s. p \<in> {P s, P_loop s, V s, V_inc s}"
  shows "keeps k (\<lambda>l. wt l p) k'"
proof -
  note D = goodD [OF g]
  let ?qs = "konts (thr k (currentThread k))"
  have th: "konts (thr (upd_sem s f k) u) = konts (thr k u)" "currentThread (upd_sem s f k) = currentThread k"
    "level (upd_sem s f k) = level k" "threads (upd_sem s f k) = threads k" for s f u by (simp_all add: upd_sem_def thr_def)
  consider s where "p = P s" | s where "p = P_loop s" | s where "p = V s" | s where "p = V_inc s" using p by blast
  then show ?thesis
  proof cases
    case (1 s)
    have "guarded (P_loop s # SetLevel (level k) # ?qs)" using gp 1 D(2) by (auto simp: eq_commute)
    then have "keeps k (\<lambda>l. wt l (P s)) (atomically [P_loop s] k)" using g by (intro keeps_atomically) simp_all
    then show ?thesis using e 1 by (simp add: Semaphore_P_def)
  next
    case (2 s)
    show ?thesis
    proof (cases "sem_value (sems k s) = 0")
      case True
      let ?k = "upd_sem s (\<lambda>m. m\<lparr>queue := queue m @ [currentThread k]\<rparr>) k"
      have g1: "good ?k" using g goodD2(2,5) [OF g] D(1) by (intro good_upd_sem) auto
      have "keeps k (\<lambda>l. wt l (P_loop s)) (calls [Sleep, P_loop s] ?k)"
        by (rule keeps_calls) (use g1 gp 2 D(2) in \<open>auto simp: balance_upd_sem th\<close>)
      then show ?thesis using e 2 True by (simp add: Semaphore_P_loop_def)
    next
      case False
      then have "0 < sem_value (sems k s)" using goodD2(5) [OF g, of s] by simp
      then have "good (upd_sem s (\<lambda>m. m\<lparr>sem_value := sem_value m - 1\<rparr>) k)"
        using goodD2(2) [OF g] by (intro good_upd_sem g) auto
      then show ?thesis using e 2 False by (auto simp: Semaphore_P_loop_def balance_upd_sem intro!: keeps_same)
    qed
  next
    case (3 s)
    show ?thesis
    proof (cases "queue (sems k s)")
      case Nil
      have "keeps k (\<lambda>l. wt l (V s)) (atomically [V_inc s] k)" by (rule keeps_atomically) (use g D(2) in simp_all)
      then show ?thesis using e 3 Nil by (simp add: Semaphore_V_def)
    next
      case (Cons t ts)
      then have t: "t < length (threads k)" "\<forall>u \<in> set ts. u < length (threads k)" using goodD2(2) [OF g, of _ s] by auto
      let ?k = "upd_sem s (\<lambda>m. m\<lparr>queue := ts\<rparr>) k"
      have g1: "good ?k" using g goodD2(5) [OF g] t by (intro good_upd_sem) auto
      have "keeps k (\<lambda>l. wt l (V s)) (atomically [ReadyToRun t, V_inc s] ?k)"
        by (rule keeps_atomically) (use g1 D(2) t(1) in \<open>auto simp: balance_upd_sem th\<close>)
      then show ?thesis using e 3 Cons by (simp add: Semaphore_V_def)
    qed
  next
    case (4 s)
    have "good (upd_sem s (\<lambda>m. m\<lparr>sem_value := sem_value m + 1\<rparr>) k)"
      using goodD2(2) [OF g] goodD2(5) [OF g, of s] by (intro good_upd_sem g) auto
    then show ?thesis using e 4 by (auto simp: Semaphore_V_inc_def balance_upd_sem intro!: keeps_same)
  qed
qed

text \<open>Becoming the owner of a free lock, and giving it up.\<close>

lemma keeps_locks:
  assumes g: "good k" and gp: "guarded (p # konts (thr k (currentThread k)))" and e: "exec p k = Inr k'"
    and p: "\<exists>l. p = Acquire l \<or> p = Release l \<or> (p = SetOwner l \<and> Owner k l = None)"
  shows "keeps k (\<lambda>l. wt l p) k'"
proof -
  note D = goodD [OF g]
  have ow: "balance (k\<lparr>Owner := (Owner k)(l := x)\<rparr>) m
      = balance k m + (if m = l then (if x = None then 0 else 1) - (if Owner k l = None then 0 else 1) else 0)" for l x m
    by (simp add: balance_def owners_def ktab_def)
  consider l where "p = Acquire l" | l where "p = Release l" | l where "p = SetOwner l" "Owner k l = None" using p by blast
  then show ?thesis
  proof cases
    case (1 l)
    have "keeps k (\<lambda>l. 0) (atomically [P (LockSem l), SetOwner l] k)" by (rule keeps_atomically) (use g D(2) in simp_all)
    then show ?thesis using e 1 by (simp add: Lock_Acquire_def)
  next
    case (2 l)
    let ?k = "k\<lparr>Owner := (Owner k)(l := None)\<rparr>"
    from e 2 have o: "Owner k l = Some (currentThread k)" and k': "k' = atomically [V (LockSem l)] ?k"
      by (auto simp: Lock_Release_def isHeldByCurrentThread_def elim!: rbind_InrE)
    have c: "currentThread ?k < length (threads ?k)" using D(1) by simp
    have "good (atomically [V (LockSem l)] ?k)" by (rule good_atomically) (use g D(2) in \<open>simp_all add: thr_def\<close>)
    moreover have "balance (atomically [V (LockSem l)] ?k) m = balance k m" for m
      using ow [of l None m] o by (auto simp: balance_atomically [OF c])
    ultimately show ?thesis using k' 2 by (simp add: keeps_def)
  next
    case (3 l)
    then show ?thesis using e g ow [of l "Some (currentThread k)"] by (auto simp: Lock_set_owner_def intro!: keeps_same)
  qed
qed

lemma keeps_conditions:
  assumes g: "good k" and gp: "guarded (p # konts (thr k (currentThread k)))" and e: "exec p k = Inr k'"
    and p: "\<exists>c l. p \<in> {Wait c l, WaitSleep c, Signal c l, Broadcast c l, BroadcastLoop c}"
  shows "keeps k (\<lambda>l. wt l p) k'"
proof -
  note D = goodD [OF g]
  have gk: "guarded (konts (threads k ! currentThread k))" using D(2) by (simp add: thr_def)
  have wq: "\<forall>t \<in> set (waitQueue k c). t < length (threads k)" for c using goodD2(3) [OF g] by blast
  have wk: "good (k\<lparr>waitQueue := (waitQueue k)(c := ts)\<rparr>)" if "\<forall>t \<in> set ts. t < length (threads k)" for c ts
    using g that by (intro good_waitQueue)
  consider c l where "p = Wait c l" | c where "p = WaitSleep c" | c l where "p = Signal c l" | c l where "p = Broadcast c l"
    | c where "p = BroadcastLoop c"
    using p by blast
  then show ?thesis
  proof cases
    case 1
    then show ?thesis using e g D(2) by (auto simp: Condition_Wait_def elim!: rbind_InrE intro!: keeps_atomically)
  next
    case (2 c)
    have "\<forall>t \<in> set (waitQueue k c @ [currentThread k]). t < length (threads k)" using wq D(1) by auto
    then show ?thesis using e 2 gk wk by (auto simp: Condition_wait_sleep_def thr_def intro!: keeps_calls)
  next
    case (3 c l)
    show ?thesis
    proof (cases "waitQueue k c")
      case Nil
      then show ?thesis using e 3 g D(2) by (auto simp: Condition_Signal_def elim!: rbind_InrE intro!: keeps_atomically)
    next
      case (Cons t ts)
      then have "t < length (threads k)" "\<forall>u \<in> set ts. u < length (threads k)" using wq [of c] by auto
      then show ?thesis using e 3 gk wk Cons
        by (auto simp: Condition_Signal_def thr_def elim!: rbind_InrE intro!: keeps_atomically)
    qed
  next
    case 4
    then show ?thesis using e g D(2) by (auto simp: Condition_Broadcast_def elim!: rbind_InrE intro!: keeps_atomically)
  next
    case (5 c)
    show ?thesis
    proof (cases "waitQueue k c")
      case Nil
      then show ?thesis using e 5 g by (auto simp: Broadcast_loop_def intro!: keeps_same)
    next
      case (Cons t ts)
      then have "t < length (threads k)" "\<forall>u \<in> set ts. u < length (threads k)" using wq [of c] by auto
      then show ?thesis using e 5 gk wk Cons by (auto simp: Broadcast_loop_def thr_def intro!: keeps_calls)
    qed
  qed
qed

lemma keeps_barriers:
  assumes g: "good k" and gp: "guarded (p # konts (thr k (currentThread k)))" and e: "exec p k = Inr k'"
    and p: "(\<exists>b. p \<in> {ArriveAndWait b, BarrierCheck b, BarrierReset b})
      \<or> (\<exists>r. p \<in> {AcquireReaderLock r, ReaderIn r, ReleaseReaderLock r, ReaderOut r, AcquireWriterLock r, ReleaseWriterLock r})"
  shows "keeps k (\<lambda>l. wt l p) k'"
proof -
  note D = goodD [OF g]
  have gk: "guarded (konts (threads k ! currentThread k))" using D(2) by (simp add: thr_def)
  have rw: "\<exists>n. WriterLock (rwlocks k r) = Sem n" for r using goodD2(6) [OF g] by blast
  have rk: "good (k\<lparr>rwlocks := (rwlocks k)(r := rwlocks k r\<lparr>ReaderCnt := n\<rparr>)\<rparr>)" for r n using g by (intro good_rwlocks) simp_all
  consider b where "p \<in> {ArriveAndWait b, BarrierCheck b, BarrierReset b}"
    | r where "p = AcquireReaderLock r \<or> p = ReleaseReaderLock r" | r where "p = ReaderIn r" | r where "p = ReaderOut r"
    | r where "p = AcquireWriterLock r \<or> p = ReleaseWriterLock r"
    using p by blast
  then show ?thesis
  proof cases
    case (1 b)
    consider "p = ArriveAndWait b" | "p = BarrierCheck b" | "p = BarrierReset b" using 1 by blast
    then show ?thesis
    proof cases
      case 1
      then show ?thesis using e g D(2) by (auto simp: Barrier_ArriveAndWait_def intro!: keeps_atomically)
    next
      case 2
      then show ?thesis using e g gk by (auto simp: Barrier_check_def Let_def thr_def intro!: keeps_calls)
    next
      case 3
      then show ?thesis using e g by (auto simp: Barrier_reset_def Let_def intro!: keeps_same)
    qed
  next
    case 2
    then show ?thesis using e g D(2)
      by (auto simp: RW_AcquireReaderLock_def RW_ReleaseReaderLock_def Let_def intro!: keeps_atomically)
  next
    case (3 r)
    let ?k = "k\<lparr>rwlocks := (rwlocks k)(r := rwlocks k r\<lparr>ReaderCnt := ReaderCnt (rwlocks k r) + 1\<rparr>)\<rparr>"
    have "keeps k (\<lambda>l. 0) (calls [P (WriterLock (rwlocks k r))] ?k)"
      by (rule keeps_calls) (use rk gk rw [of r] in \<open>auto simp: thr_def\<close>)
    then show ?thesis using e 3 rk by (auto simp: Reader_in_def Let_def keeps_same)
  next
    case (4 r)
    let ?k = "k\<lparr>rwlocks := (rwlocks k)(r := rwlocks k r\<lparr>ReaderCnt := ReaderCnt (rwlocks k r) - 1\<rparr>)\<rparr>"
    have "keeps k (\<lambda>l. 0) (calls [V (WriterLock (rwlocks k r))] ?k)"
      by (rule keeps_calls) (use rk gk rw [of r] in \<open>auto simp: thr_def\<close>)
    then show ?thesis using e 4 rk by (auto simp: Reader_out_def Let_def keeps_same)
  next
    case (5 r)
    then show ?thesis using e g D(2) rw [of r]
      by (auto simp: RW_AcquireWriterLock_def RW_ReleaseWriterLock_def intro!: keeps_calls)
  qed
qed

lemma keeps_lists:
  assumes g: "good k" and gp: "guarded (p # konts (thr k (currentThread k)))" and e: "exec p k = Inr k'"
    and p: "(\<exists>n x. p \<in> {SL_Append n x, SL_Put n x, SL_Remove n, SL_Loop n})
      \<or> (\<exists>d t. p \<in> {DiskRequest d t, DiskIssue d t, DiskDone d})"
  shows "keeps k (\<lambda>l. wt l p) k'"
proof -
  note D = goodD [OF g]
  have gk: "guarded (konts (threads k ! currentThread k))" using D(2) by (simp add: thr_def)
  have hs: "\<forall>h \<in> set (pending k). handler_ok (fst (fst h))" using g by (simp add: good_def)
  have dk: "good (k\<lparr>synchdisks := (synchdisks k)(d := synchdisks k d\<lparr>disk_active := b\<rparr>)\<rparr>)" for d b
    using g by (intro good_synchdisks) simp_all
  consider n x where "p \<in> {SL_Append n x, SL_Put n x, SL_Remove n}" | n where "p = SL_Loop n"
    | d t where "p = DiskRequest d t" | d t where "p = DiskIssue d t" | d where "p = DiskDone d"
    using p by blast
  then show ?thesis
  proof cases
    case (1 n x)
    consider "p = SL_Append n x \<or> p = SL_Remove n" | "p = SL_Put n x" using 1 by blast
    then show ?thesis
    proof cases
      case 1
      then show ?thesis using e g D(2)
        by (auto simp: SynchList_Append_def SynchList_Remove_def Let_def intro!: keeps_calls)
    next
      case 2
      then show ?thesis using e g by (auto simp: SynchList_put_def Let_def intro!: keeps_same)
    qed
  next
    case (2 n)
    show ?thesis
    proof (cases "slist (synchlists k n)")
      case Nil
      then show ?thesis using e 2 g D(2) by (auto simp: SynchList_loop_def Let_def intro!: keeps_calls)
    next
      case (Cons x xs)
      let ?k = "k\<lparr>synchlists := (synchlists k)(n := synchlists k n\<lparr>slist := xs\<rparr>)\<rparr>"
      have "good (upd (currentThread k) (\<lambda>t. t\<lparr>ret := x\<rparr>) ?k) = good ?k" by (rule good_cong) (simp_all add: ktab_same)
      moreover have "balance (upd (currentThread k) (\<lambda>t. t\<lparr>ret := x\<rparr>) ?k) l = balance ?k l" for l
        by (rule balance_cong) (simp_all add: ktab_same)
      ultimately show ?thesis using e 2 g Cons
        by (auto simp: SynchList_loop_def Let_def elim!: rbind_InrE intro!: keeps_same)
    qed
  next
    case (3 d t)
    then show ?thesis using e g D(2) by (auto simp: SynchDisk_request_def Let_def intro!: keeps_calls)
  next
    case (4 d t)
    have "handler_ok [DiskDone d]" by (simp add: handler_ok_def)
    then show ?thesis using e 4 dk hs
      by (auto simp: Disk_issue_def Schedule_def Let_def elim!: rbind_InrE intro!: keeps_same good_pending)
  next
    case (5 d)
    then show ?thesis using e dk gk by (auto simp: Disk_done_def Let_def thr_def intro!: keeps_calls)
  qed
qed

lemma keeps_sectors:
  assumes g: "good k" and gp: "guarded (p # konts (thr k (currentThread k)))" and e: "exec p k = Inr k'"
    and p: "\<exists>d s. p \<in> {PlusReader d s, MinusReader d s, PlusReaderIn d s, MinusReaderOut d s, PlusWriter d s, MinusWriter d s}"
  shows "keeps k (\<lambda>l. wt l p) k'"
proof -
  note D = goodD [OF g]
  have gk: "guarded (konts (threads k ! currentThread k))" using D(2) by (simp add: thr_def)
  have ms: "\<exists>n. mutex (synchdisks k d) s = Sem n" for d s using goodD2(7) [OF g] by blast
  have dk: "good (k\<lparr>synchdisks := (synchdisks k)(d := synchdisks k d\<lparr>readerCnt := c\<rparr>)\<rparr>)" for d c
    using g by (intro good_synchdisks) simp_all
  consider d s where "p = PlusReader d s \<or> p = MinusReader d s" | d s where "p = PlusReaderIn d s" | d s where "p = MinusReaderOut d s"
    | d s where "p = PlusWriter d s \<or> p = MinusWriter d s" using p by blast
  then show ?thesis
  proof cases
    case 1
    then show ?thesis using e g D(2)
      by (auto simp: SD_PlusReader_def SD_MinusReader_def Let_def intro!: keeps_calls)
  next
    case (2 d s)
    let ?k = "k\<lparr>synchdisks := (synchdisks k)(d := synchdisks k d\<lparr>readerCnt := (readerCnt (synchdisks k d))(s := readerCnt (synchdisks k d) s + 1)\<rparr>)\<rparr>"
    have "keeps k (\<lambda>l. 0) (calls [P (mutex (synchdisks k d) s)] ?k)"
      by (rule keeps_calls) (use dk gk ms [of d s] in \<open>auto simp: thr_def\<close>)
    then show ?thesis using e 2 dk by (auto simp: SD_reader_in_def Let_def keeps_same)
  next
    case (3 d s)
    let ?k = "k\<lparr>synchdisks := (synchdisks k)(d := synchdisks k d\<lparr>readerCnt := (readerCnt (synchdisks k d))(s := readerCnt (synchdisks k d) s - 1)\<rparr>)\<rparr>"
    have "keeps k (\<lambda>l. 0) (calls [V (mutex (synchdisks k d) s)] ?k)"
      by (rule keeps_calls) (use dk gk ms [of d s] in \<open>auto simp: thr_def\<close>)
    then show ?thesis using e 3 dk by (auto simp: SD_reader_out_def Let_def keeps_same)
  next
    case (4 d s)
    then show ?thesis using e g D(2) ms [of d s]
      by (auto simp: SD_PlusWriter_def SD_MinusWriter_def intro!: keeps_calls)
  qed
qed

lemma keeps_consoles:
  assumes g: "good k" and gp: "guarded (p # konts (thr k (currentThread k)))" and e: "exec p k = Inr k'"
    and p: "\<exists>c ch. p \<in> {ConsoleStart c, ConsolePoll c, ConsoleWritten c, SynchPutChar c ch, ConsolePut c ch, SynchGetChar c, ConsoleGet c}"
  shows "keeps k (\<lambda>l. wt l p) k'"
proof -
  note D = goodD [OF g]
  have gk: "guarded (konts (threads k ! currentThread k))" using D(2) by (simp add: thr_def)
  have hs: "\<forall>h \<in> set (pending k). handler_ok (fst (fst h))" using g by (simp add: good_def)
  have h: "handler_ok [ConsolePoll c]" "handler_ok [ConsoleWritten c]" for c by (simp_all add: handler_ok_def)
  let ?k = "\<lambda>c D h t. set_console c D (k\<lparr>pending := sorted_insert h t (pending k)\<rparr>)"
  have q: "good (?k c D h t)" "balance (?k c D h t) l = balance k l" if "handler_ok (fst h)" for c D h t l
    using g hs that by (simp_all add: set_console_def good_pending)
  have v: "keeps k (\<lambda>l. 0) (calls [V (ReadSem c)] (?k c D h t))" if "handler_ok (fst h)" for c D h t
    by (rule keeps_calls) (use q [OF that] gk in \<open>simp_all add: set_console_def thr_def\<close>)
  consider c where "p = ConsoleStart c" | c where "p = ConsolePoll c" | c where "p = ConsoleWritten c" | c ch where "p = ConsolePut c ch"
    | c where "p = ConsoleGet c" | c ch where "p = SynchPutChar c ch \<or> p = SynchGetChar c" using p by blast
  then show ?thesis
  proof cases
    case 1
    then show ?thesis using e g hs h by (auto simp: Console_start_def Schedule_def Let_def elim!: rbind_InrE intro!: keeps_same good_pending)
  next
    case 2
    then show ?thesis using e q v h
      by (auto simp: Console_poll_def Schedule_def Let_def keeps_def elim!: rbind_InrE)
  next
    case 3
    then show ?thesis using e g gk by (auto simp: Console_written_def set_console_def thr_def intro!: keeps_calls)
  next
    case 4
    then show ?thesis using e g hs h
      by (auto simp: Console_put_def Schedule_def set_console_def Let_def elim!: rbind_InrE intro!: keeps_same good_pending) 
  next
    case (5 c)
    let ?m = "\<lambda>D. set_console c D k"
    have "good (upd (currentThread k) (\<lambda>t. t\<lparr>ret := x\<rparr>) (?m D)) = good (?m D)" for x D by (rule good_cong) (simp_all add: ktab_same)
    moreover have "balance (upd (currentThread k) (\<lambda>t. t\<lparr>ret := x\<rparr>) (?m D)) l = balance (?m D) l" for x D l
      by (rule balance_cong) (simp_all add: ktab_same)
    ultimately show ?thesis using e 5 g by (auto simp: Console_get_def GetChar_def set_console_def intro!: keeps_same)
  next
    case 6
    then show ?thesis using e g D(2) by (auto simp: SynchConsole_PutChar_def SynchConsole_GetChar_def Let_def intro!: keeps_calls)
  qed
qed

section \<open>Every run\<close>

text \<open>The discipline of forking: a thread is forked once, when it is fresh.\<close>

definition forks_fresh :: "nachos \<Rightarrow> bool" where
  "forks_fresh k \<longleftrightarrow> (case konts (thr k (currentThread k)) of
     Fork t body # ps \<Rightarrow> t < length (threads k) \<and> t \<noteq> currentThread k \<and> konts (thr k t) = [] | _ \<Rightarrow> True)"

inductive runs :: "nachos \<Rightarrow> nachos \<Rightarrow> bool" for k0 where
  start: "runs k0 k0"
| step: "runs k0 k \<Longrightarrow> forks_fresh k \<Longrightarrow> step k = Inr k' \<Longrightarrow> runs k0 k'"

text \<open>The invariant: every lock is balanced.\<close>

definition locks_ok :: "nachos \<Rightarrow> bool" where
  "locks_ok k \<longleftrightarrow> good k \<and> (\<forall>l. balance k l = 1)"

lemma pending_owner:
  assumes ok: "locks_ok k" and h: "konts (thr k (currentThread k)) = SetOwner l # ps"
  shows "Owner k l = None" "sem_value (sems k (LockSem l)) = 0"
proof -
  have g: "good k" "balance k l = 1" using ok by (simp_all add: locks_ok_def)
  have gs: "\<forall>ps \<in> set (ktab k). guarded ps" using g(1) by (simp add: good_def)
  have "konts (thr k (currentThread k)) \<in> set (ktab k)" using goodD(1) [OF g(1)] by (metis ktab_nth nth_mem)
  then have "wsum l (SetOwner l # ps) \<le> total l (ktab k)" using total_member [OF gs] h by metis
  moreover have "0 \<le> wsum l ps" using guarded_nonneg [of ps l] goodD(2) [OF g(1)] h by simp
  moreover have "0 \<le> sem_value (sems k (LockSem l))" using goodD2(5) [OF g(1)] .
  ultimately show "Owner k l = None" "sem_value (sems k (LockSem l)) = 0"
    using g(2) by (auto simp: balance_def owners_def split: if_split_asm)
qed

lemma step_locks_ok:
  assumes ok: "locks_ok k" and f: "forks_fresh k" and s: "step k = Inr k'"
  shows "locks_ok k'"
proof (cases "halted k \<or> konts (thr k (currentThread k)) = []")
  case True
  then show ?thesis using ok s by (auto simp: step_def split: list.split_asm)
next
  case False
  then obtain p ps where h: "konts (thr k (currentThread k)) = p # ps" by (cases "konts (thr k (currentThread k))") auto
  with False s have e: "exec p (pop k) = Inr k'" by (simp add: step_def)
  have g: "good k" "\<And>l. balance k l = 1" using ok by (simp_all add: locks_ok_def)
  note gp = good_pop [OF g(1)]
  have cp: "currentThread (pop k) = currentThread k" "length (threads (pop k)) = length (threads k)" "Owner (pop k) = Owner k"
    by (simp_all add: pop_def)
  have kp: "konts (thr (pop k) (currentThread k)) = ps" using goodD(1) [OF g(1)] h by (simp add: pop_def upd_def thr_def)
  have gd: "guarded (p # konts (thr (pop k) (currentThread (pop k))))" "names (length (threads (pop k))) p"
    using goodD(2,3) [OF g(1)] h cp kp by simp_all
  have fk: "t < length (threads (pop k)) \<and> konts (thr (pop k) t) = []" if "p = Fork t body" for t body
    using f h that by (auto simp: forks_fresh_def pop_def upd_def thr_def)
  have ow: "Owner (pop k) l = None" if "p = SetOwner l" for l using pending_owner(1) [OF ok] h that cp by simp
  have "keeps (pop k) (\<lambda>l. wt l p) k'"
  proof (cases p)
    case (SetOwner l)
    then show ?thesis using keeps_locks [OF gp gd(1) e] ow by auto
  qed (rule keeps_interrupts [OF gp gd(1) e] keeps_threads [OF gp gd e fk] keeps_semaphores [OF gp gd(1) e]
        keeps_locks [OF gp gd(1) e] keeps_conditions [OF gp gd(1) e] keeps_barriers [OF gp gd(1) e] keeps_lists [OF gp gd(1) e]
        keeps_sectors [OF gp gd(1) e] keeps_consoles [OF gp gd(1) e]; auto)+
  then show ?thesis using balance_pop [OF g(1) h] g(2) by (auto simp: keeps_def locks_ok_def)
qed

lemma runs_locks_ok: "runs k0 k \<Longrightarrow> locks_ok k0 \<Longrightarrow> locks_ok k"
  by (induction rule: runs.induct) (auto intro: step_locks_ok)

text \<open>The same as a computation: a number of steps that stops where the discipline is broken.\<close>

fun runs_of :: "nat \<Rightarrow> nachos \<Rightarrow> nachos res" where
  "runs_of 0 k = Inr k"
| "runs_of (Suc n) k = rbind (ASSERT (forks_fresh k)) (\<lambda>_. rbind (step k) (runs_of n))"

lemma runs_trans: "runs k1 k2 \<Longrightarrow> runs k0 k1 \<Longrightarrow> runs k0 k2"
  by (induction rule: runs.induct) (auto intro: runs.step)

lemma runs_of_runs: "runs_of n k = Inr k' \<Longrightarrow> runs k k'"
proof (induction n arbitrary: k)
  case (Suc n)
  then obtain k1 where "forks_fresh k" "step k = Inr k1" "runs k1 k'" by (auto simp: res_simps)
  then show ?case using runs.step [OF runs.start, of k k1] runs_trans by blast
qed (simp add: runs.start)

lemma runs_reaches: "runs k0 k \<Longrightarrow> reaches k0 k"
  by (induction rule: runs.induct) (auto intro: reaches.intros)

end
