(* ===== verification/KernelFacts.thy ===== *)
theory KernelFacts
  imports KernelLocks
begin

text \<open>
  What holds of every run of the kernel, and what a few short programs do on it: mutual exclusion of
  the locks, the order of the interrupts and of the ready list, a disk request whose thread is never woken, and a thread number that is never given back.
\<close>

section \<open>The state after \<open>Initialize\<close>\<close>

text \<open>A timer changes the pending interrupts and the number of random numbers drawn.\<close>

definition timed :: "nachos \<Rightarrow> nachos \<Rightarrow> bool" where
  "timed k k' \<longleftrightarrow> (\<exists>hs n. k' = k\<lparr>pending := hs, nrandom := n\<rparr> \<and> (\<forall>h \<in> set hs. handler_ok (fst (fst h))))"

lemma Timer_new_timed:
  assumes "Timer_new r h k1 = Inr k2" "timed k k1" "h \<in> {TimerInterruptHandler, RRHandler}"
  shows "timed k k2"
proof -
  obtain t k3 where t: "TimeOfNextInterrupt r k1 = (t, k3)" by force
  define m where "m = nrandom k3"
  have k3: "k3 = k1\<lparr>nrandom := m\<rparr>" using t by (cases r) (auto simp: TimeOfNextInterrupt_def m_def)
  from assms(2) obtain hs n where k1: "k1 = k\<lparr>pending := hs, nrandom := n\<rparr>" and hs: "\<forall>h \<in> set hs. handler_ok (fst (fst h))"
    by (auto simp: timed_def)
  have "handler_ok [TimerExpired r h]" using assms(3) by (simp add: handler_ok_def)
  then have "\<forall>e \<in> set (sorted_insert ([TimerExpired r h], TimerInt) w hs). handler_ok (fst (fst e))" for w using hs by simp
  moreover have "k2 = k\<lparr>pending := sorted_insert ([TimerExpired r h], TimerInt) (totalTicks k + t) hs, nrandom := m\<rparr>"
    using assms(1) t by (auto simp: Timer_new_def Schedule_def Let_def k1 k3 elim!: rbind_InrE)
  ultimately show ?thesis unfolding timed_def by blast
qed

lemma Initialize_timed:
  assumes "Initialize ry k body = Inr k0" "pending k = []"
  obtains k1 t k2 where "timed k k1" "Thread_new 0 k1 = Inr (t, k2)"
    "k0 = upd t (\<lambda>r. r\<lparr>tstatus := RUNNING, konts := SetLevel IntOn # body @ [Finish]\<rparr>) (k2\<lparr>currentThread := t\<rparr>)"
proof -
  have tr: "timed k k" unfolding timed_def by (rule exI [of _ "[]"], rule exI [of _ "nrandom k"]) (simp add: assms(2))
  from assms(1) obtain k1 where k1: "(if ry then Timer_new ry TimerInterruptHandler k else Inr k) = Inr k1"
    and r: "rbind (if RoundRobbin k1 then Timer_new False RRHandler k1 else Inr k1) (\<lambda>k. rbind (Thread_new 0 k) (\<lambda>(t, k).
      Inr (upd t (\<lambda>r. r\<lparr>tstatus := RUNNING, konts := SetLevel IntOn # body @ [Finish]\<rparr>) (k\<lparr>currentThread := t\<rparr>)))) = Inr k0"
    unfolding Initialize_def by (rule rbind_InrE)
  have t1: "timed k k1" using k1 tr Timer_new_timed by (auto split: if_split_asm)
  from r obtain k2 where k2: "(if RoundRobbin k1 then Timer_new False RRHandler k1 else Inr k1) = Inr k2"
    and r2: "rbind (Thread_new 0 k2) (\<lambda>(t, k).
      Inr (upd t (\<lambda>r. r\<lparr>tstatus := RUNNING, konts := SetLevel IntOn # body @ [Finish]\<rparr>) (k\<lparr>currentThread := t\<rparr>))) = Inr k0"
    by (rule rbind_InrE)
  have t2: "timed k k2" using k2 t1 Timer_new_timed by (auto split: if_split_asm)
  from r2 obtain p where p: "Thread_new 0 k2 = Inr p" "(case p of (t, k) \<Rightarrow>
      Inr (upd t (\<lambda>r. r\<lparr>tstatus := RUNNING, konts := SetLevel IntOn # body @ [Finish]\<rparr>) (k\<lparr>currentThread := t\<rparr>))) = (Inr k0 :: nachos res)"
    by (rule rbind_InrE)
  with t2 show ?thesis by (intro that [of k2 "fst p" "snd p"]) (auto simp: case_prod_beta)
qed

lemma Initialize_locks_ok:
  assumes i: "Initialize ry (Interrupt_new rr rnd vals bs rws sls sds scs) body = Inr k0"
    and b: "list_all client body" and v: "\<forall>n. 0 \<le> vals n"
    and c: "\<forall>r. \<exists>n. WriterLock (rws r) = Sem n" "\<forall>d s. \<exists>n. mutex (sds d) s = Sem n"
  shows "locks_ok k0"
proof -
  let ?k = "Interrupt_new rr rnd vals bs rws sls sds scs"
  let ?m = "SetLevel IntOn # body @ [Finish]"
  from i obtain k1 t k2 where k1: "timed ?k k1" and n: "Thread_new 0 k1 = Inr (t, k2)"
    and k0: "k0 = upd t (\<lambda>r. r\<lparr>tstatus := RUNNING, konts := ?m\<rparr>) (k2\<lparr>currentThread := t\<rparr>)"
    by (rule Initialize_timed) (simp add: Interrupt_new_def)
  from n k1 have t0: "t = 0" by (auto simp: Thread_new_def Let_def timed_def Interrupt_new_def elim!: rbind_InrE)
  from n k1 have f2: "\<exists>j. threads k2 = [new_thread 0 j]" "readyList k2 = []"
    "sems k2 = sems ?k" "waitQueue k2 = (\<lambda>c. [])" "\<forall>h \<in> set (pending k2). handler_ok (fst (fst h))" "rwlocks k2 = rws" "synchdisks k2 = sds"
    "Owner k2 = (\<lambda>l. None)"
    by (auto simp: Thread_new_def Let_def timed_def Interrupt_new_def elim!: rbind_InrE)
  then have f: "ktab k0 = [?m]" "length (threads k0) = 1" "currentThread k0 = 0" "readyList k0 = []"
    "sems k0 = sems ?k" "waitQueue k0 = (\<lambda>c. [])" "\<forall>h \<in> set (pending k0). handler_ok (fst (fst h))" "rwlocks k0 = rws" "synchdisks k0 = sds"
    "Owner k0 = (\<lambda>l. None)"
    by (auto simp: k0 t0 upd_def thr_def ktab_def)
  have cn: "client q \<Longrightarrow> names n q" for q n by (cases "(n, q)" rule: names.cases) auto
  have g: "guarded ?m" using guarded_append [OF guarded_client [OF b], of "[Finish]"] by simp
  have nb: "list_all (names (Suc 0)) ?m" using b cn by (auto simp: list_all_iff)
  have w: "wsum l ?m = 0" for l using wsum_client [OF b] by simp
  have s: "queue (sems ?k x) = []" "0 \<le> sem_value (sems ?k x)" "sem_value (sems ?k (LockSem l)) = 1" for x l
    using v by (simp_all add: Interrupt_new_def Semaphore_new_def Lock_sem_def split: sem.split)
  have "good k0" using f g nb s c by (simp add: good_def sem_conf_def named_def)
  moreover have "balance k0 l = 1" for l using f w s by (simp add: balance_def owners_def total_def)
  ultimately show ?thesis by (simp add: locks_ok_def)
qed

section \<open>Order\<close>

text \<open>The pending interrupts are in the order of their times, the ready list in the order of the
  priorities, and the clock never goes back.\<close>

definition in_order :: "nachos \<Rightarrow> bool" where
  "in_order k \<longleftrightarrow> by_key (pending k) \<and> (\<not> RoundRobbin k \<longrightarrow> by_key (readyList k))"

definition later :: "nachos \<Rightarrow> nachos \<Rightarrow> bool" where
  "later k k' \<longleftrightarrow> totalTicks k \<le> totalTicks k' \<and> RoundRobbin k' = RoundRobbin k \<and> (in_order k \<longrightarrow> in_order k')"

text \<open>All operations but two leave the owners of the locks alone.\<close>

definition quiet :: "nachos \<Rightarrow> nachos \<Rightarrow> bool" where
  "quiet k k' \<longleftrightarrow> later k k' \<and> Owner k' = Owner k"

lemma later_trans: "later k1 k2 \<Longrightarrow> later k2 k3 \<Longrightarrow> later k1 k3"
  by (auto simp: later_def)

lemma later_refl [simp]: "later k k"
  by (simp add: later_def)

lemma quiet_trans: "quiet k1 k2 \<Longrightarrow> quiet k2 k3 \<Longrightarrow> quiet k1 k3"
  by (auto simp: quiet_def intro: later_trans)

lemma quiet_refl [simp]: "quiet k k"
  by (simp add: quiet_def later_def)

lemma quiet_upd [simp]: "quiet k (upd t f k')  = quiet k k'" "quiet k (calls ps k') = quiet k k'" "quiet k (setStatus t st k') = quiet k k'"
  "quiet k (upd_sem s g k') = quiet k k'" "quiet k (atomically ps k') = quiet k k'"
  by (simp_all add: quiet_def later_def in_order_def upd_def calls_def setStatus_def upd_sem_def atomically_def)

lemma quiet_frame [simp]:
  "quiet k (k'\<lparr>level := a1\<rparr>) = quiet k k'" "quiet k (k'\<lparr>inHandler := a2\<rparr>) = quiet k k'" "quiet k (k'\<lparr>yieldOnReturn := a3\<rparr>) = quiet k k'"
  "quiet k (k'\<lparr>mstatus := a4\<rparr>) = quiet k k'" "quiet k (k'\<lparr>idleTicks := a5\<rparr>) = quiet k k'" "quiet k (k'\<lparr>systemTicks := a6\<rparr>) = quiet k k'"
  "quiet k (k'\<lparr>userTicks := a7\<rparr>) = quiet k k'" "quiet k (k'\<lparr>nrandom := a8\<rparr>) = quiet k k'" "quiet k (k'\<lparr>halted := a9\<rparr>) = quiet k k'"
  "quiet k (k'\<lparr>threadToBeDestroyed := b1\<rparr>) = quiet k k'" "quiet k (k'\<lparr>used_TID := b2\<rparr>) = quiet k k'" "quiet k (k'\<lparr>prevTick := b3\<rparr>) = quiet k k'"
  "quiet k (k'\<lparr>barriers := b4\<rparr>) = quiet k k'" "quiet k (k'\<lparr>rwlocks := b5\<rparr>) = quiet k k'" "quiet k (k'\<lparr>synchlists := b6\<rparr>) = quiet k k'"
  "quiet k (k'\<lparr>synchdisks := b7\<rparr>) = quiet k k'" "quiet k (k'\<lparr>synchconsoles := b8\<rparr>) = quiet k k'" "quiet k (k'\<lparr>waitQueue := b9\<rparr>) = quiet k k'"
  "quiet k (k'\<lparr>currentThread := c1\<rparr>) = quiet k k'" "quiet k (k'\<lparr>threads := c2\<rparr>) = quiet k k'" "quiet k (k'\<lparr>Thread_Pointer := c3\<rparr>) = quiet k k'"
  by (simp_all add: quiet_def later_def in_order_def)

lemma quiet_frame2 [simp]: "quiet (k\<lparr>mstatus := a\<rparr>) k' = quiet k k'" "quiet (k\<lparr>synchconsoles := b\<rparr>) k' = quiet k k'"
  by (simp_all add: quiet_def later_def in_order_def)

lemma by_key_tl: "by_key (x # xs) \<Longrightarrow> by_key xs"
  by (simp add: by_key_def)

lemma Schedule_quiet: "Schedule h t ty k = Inr k' \<Longrightarrow> quiet k k'"
  by (auto simp: Schedule_def Let_def quiet_def later_def in_order_def sorted_insert_by_key elim!: rbind_InrE)

lemma CheckIfDue_quiet: "CheckIfDue adv k = Inr (h, k') \<Longrightarrow> quiet k k'"
  by (auto simp: CheckIfDue_def Let_def quiet_def later_def in_order_def elim!: rbind_InrE
      split: list.split_asm if_split_asm prod.split_asm intro!: sorted_insert_by_key intro: by_key_tl)

lemma TimeOfNextInterrupt_quiet: "TimeOfNextInterrupt r k = (t, k') \<Longrightarrow> quiet k k'"
  by (auto simp: TimeOfNextInterrupt_def split: if_split_asm)

lemma FindNextToRun_quiet: "FindNextToRun k = (t, k') \<Longrightarrow> quiet k k'"
  by (auto simp: FindNextToRun_def quiet_def later_def in_order_def dest: by_key_tl split: list.split_asm prod.split_asm)

lemma ready_quiet: "Scheduler_ReadyToRun t k = Inr k' \<Longrightarrow> quiet k k'"
  by (auto simp: Scheduler_ReadyToRun_def Let_def quiet_def later_def in_order_def setStatus_def upd_def calls_def sorted_insert_by_key
      split: if_split_asm)

lemma Thread_new_quiet: "Thread_new p k = Inr (t, k') \<Longrightarrow> quiet k k'"
  by (auto simp: Thread_new_def Let_def elim!: rbind_InrE)

lemma tick_quiet: "Interrupt_OneTick k = Inr k' \<Longrightarrow> quiet k k'"
  by (cases "mstatus k = SystemMode")
     (auto simp: Interrupt_OneTick_def Let_def quiet_def later_def in_order_def calls_def upd_def UserTick_def SystemTick_def)

lemma interrupts_quiet:
  "Interrupt_SetLevel x k = Inr k' \<Longrightarrow> quiet k k'" "Due_loop k = Inr k' \<Longrightarrow> quiet k k'" "OneTick_end m k = Inr k' \<Longrightarrow> quiet k k'"
  "EndHandler_ret m k = Inr k' \<Longrightarrow> quiet k k'" "Interrupt_Idle k = Inr k' \<Longrightarrow> quiet k k'" "Idle_end k = Inr k' \<Longrightarrow> quiet k k'"
  "Timer_expired r h k = Inr k' \<Longrightarrow> quiet k k'" "Timer_interrupt_handler k = Inr k' \<Longrightarrow> quiet k k'" "RR_handler k = Inr k' \<Longrightarrow> quiet k k'"
  subgoal by (auto simp: Interrupt_SetLevel_def Let_def elim!: rbind_InrE)
  subgoal by (auto simp: Due_loop_def elim!: rbind_InrE dest: CheckIfDue_quiet split: option.split)
  subgoal by (auto simp: OneTick_end_def Let_def)
  subgoal by (auto simp: EndHandler_ret_def)
  subgoal by (auto simp: Interrupt_Idle_def elim!: rbind_InrE dest!: CheckIfDue_quiet split: option.split)
  subgoal by (auto simp: Idle_end_def)
  subgoal by (auto simp: Timer_expired_def elim!: rbind_InrE split: prod.split_asm
        dest!: TimeOfNextInterrupt_quiet Schedule_quiet intro: quiet_trans)
  subgoal by (auto simp: Timer_interrupt_handler_def YieldOnReturn_def elim!: rbind_InrE split: if_split_asm)
  subgoal by (auto simp: RR_handler_def YieldOnReturn_def Let_def elim!: rbind_InrE split: if_split_asm)
  done

lemma threads_quiet:
  "Scheduler_Run t k = Inr k' \<Longrightarrow> quiet k k'" "After_switch k = Inr k' \<Longrightarrow> quiet k k'" "Thread_create i body k = Inr k' \<Longrightarrow> quiet k k'"
  "Thread_Fork t body k = Inr k' \<Longrightarrow> quiet k k'" "Thread_delete t k = Inr k' \<Longrightarrow> quiet k k'" "Free_TID t k = Inr k' \<Longrightarrow> quiet k k'"
  "Thread_Finish k = Inr k' \<Longrightarrow> quiet k k'" "Thread_Yield k = Inr k' \<Longrightarrow> quiet k k'" "Thread_Sleep k = Inr k' \<Longrightarrow> quiet k k'"
  "Sleep_loop k = Inr k' \<Longrightarrow> quiet k k'"
  subgoal by (auto simp: Scheduler_Run_def elim!: rbind_InrE)
  subgoal by (auto simp: After_switch_def split: option.split)
  subgoal by (auto simp: Thread_create_def elim!: rbind_InrE dest: Thread_new_quiet)
  subgoal by (auto simp: Thread_Fork_def StackAllocate_def)
  subgoal by (auto simp: Thread_delete_def elim!: rbind_InrE)
  subgoal by (auto simp: Free_TID_def elim!: rbind_InrE)
  subgoal by (auto simp: Thread_Finish_def)
  subgoal by (auto simp: Thread_Yield_def split: prod.split_asm option.split_asm dest: FindNextToRun_quiet)
  subgoal by (auto simp: Thread_Sleep_def elim!: rbind_InrE)
  subgoal by (auto simp: Sleep_loop_def split: prod.split_asm option.split_asm dest: FindNextToRun_quiet)
  done

lemma synch_quiet:
  "Semaphore_P s k = Inr k' \<Longrightarrow> quiet k k'" "Semaphore_P_loop s k = Inr k' \<Longrightarrow> quiet k k'" "Semaphore_V s k = Inr k' \<Longrightarrow> quiet k k'"
  "Semaphore_V_inc s k = Inr k' \<Longrightarrow> quiet k k'" "Lock_Acquire l k = Inr k' \<Longrightarrow> quiet k k'" "Condition_Wait c l k = Inr k' \<Longrightarrow> quiet k k'" "Condition_wait_sleep c k = Inr k' \<Longrightarrow> quiet k k'"
  "Condition_Signal c l k = Inr k' \<Longrightarrow> quiet k k'" "Condition_Broadcast c l k = Inr k' \<Longrightarrow> quiet k k'"
  "Broadcast_loop c k = Inr k' \<Longrightarrow> quiet k k'" "Barrier_ArriveAndWait b k = Inr k' \<Longrightarrow> quiet k k'" "Barrier_check b k = Inr k' \<Longrightarrow> quiet k k'"
  "Barrier_reset b k = Inr k' \<Longrightarrow> quiet k k'"
  by (auto simp: Semaphore_P_def Semaphore_P_loop_def Semaphore_V_def Semaphore_V_inc_def Lock_Acquire_def 
      Condition_Wait_def Condition_wait_sleep_def Condition_Signal_def Condition_Broadcast_def Broadcast_loop_def
      Barrier_ArriveAndWait_def Barrier_check_def Barrier_reset_def Let_def elim!: rbind_InrE split: if_split_asm list.split_asm)

lemma objects_quiet:
  "RW_AcquireReaderLock r k = Inr k' \<Longrightarrow> quiet k k'" "Reader_in r k = Inr k' \<Longrightarrow> quiet k k'"
  "RW_ReleaseReaderLock r k = Inr k' \<Longrightarrow> quiet k k'" "Reader_out r k = Inr k' \<Longrightarrow> quiet k k'"
  "RW_AcquireWriterLock r k = Inr k' \<Longrightarrow> quiet k k'" "RW_ReleaseWriterLock r k = Inr k' \<Longrightarrow> quiet k k'"
  "SynchList_Append n x k = Inr k' \<Longrightarrow> quiet k k'" "SynchList_put n x k = Inr k' \<Longrightarrow> quiet k k'"
  "SynchList_Remove n k = Inr k' \<Longrightarrow> quiet k k'" "SynchList_loop n k = Inr k' \<Longrightarrow> quiet k k'"
  "SD_PlusReader d i k = Inr k' \<Longrightarrow> quiet k k'" "SD_reader_in d i k = Inr k' \<Longrightarrow> quiet k k'"
  "SD_MinusReader d i k = Inr k' \<Longrightarrow> quiet k k'" "SD_reader_out d i k = Inr k' \<Longrightarrow> quiet k k'"
  "SD_PlusWriter d i k = Inr k' \<Longrightarrow> quiet k k'" "SD_MinusWriter d i k = Inr k' \<Longrightarrow> quiet k k'"
  "SynchDisk_request d w k = Inr k' \<Longrightarrow> quiet k k'" "Disk_issue d w k = Inr k' \<Longrightarrow> quiet k k'" "Disk_done d k = Inr k' \<Longrightarrow> quiet k k'"
  by (auto simp: RW_AcquireReaderLock_def Reader_in_def RW_ReleaseReaderLock_def Reader_out_def RW_AcquireWriterLock_def
      RW_ReleaseWriterLock_def SD_PlusReader_def SD_reader_in_def SD_MinusReader_def SD_reader_out_def SD_PlusWriter_def
      SD_MinusWriter_def SynchList_Append_def SynchList_put_def SynchList_Remove_def SynchList_loop_def SynchDisk_request_def
      Disk_issue_def Disk_done_def Let_def quiet_def later_def in_order_def calls_def atomically_def upd_def Schedule_def sorted_insert_by_key
      elim!: rbind_InrE split: if_split_asm list.split_asm)

lemma consoles_quiet:
  "Console_start c k = Inr k' \<Longrightarrow> quiet k k'" "Console_poll c k = Inr k' \<Longrightarrow> quiet k k'" "Console_written c k = Inr k' \<Longrightarrow> quiet k k'"
  "SynchConsole_PutChar c ch k = Inr k' \<Longrightarrow> quiet k k'" "Console_put c ch k = Inr k' \<Longrightarrow> quiet k k'" "SynchConsole_GetChar c k = Inr k' \<Longrightarrow> quiet k k'"
  "Console_get c k = Inr k' \<Longrightarrow> quiet k k'"
  by (auto simp: Console_start_def Console_poll_def Console_written_def SynchConsole_PutChar_def Console_put_def SynchConsole_GetChar_def Console_get_def
      set_console_def GetChar_def Let_def elim!: rbind_InrE dest!: Schedule_quiet split: if_split_asm)

lemma exec_quiet: "exec p k = Inr k' \<Longrightarrow> (\<And>l. p \<noteq> SetOwner l \<and> p \<noteq> Release l) \<Longrightarrow> quiet k k'"
  by (cases p) (auto dest: interrupts_quiet threads_quiet synch_quiet objects_quiet consoles_quiet tick_quiet ready_quiet)

lemma owner_later: "later k (k\<lparr>Owner := f\<rparr>)" "later k (atomically ps (k\<lparr>Owner := f\<rparr>))"
  by (simp_all add: later_def in_order_def atomically_def calls_def upd_def)

lemma exec_later: "exec p k = Inr k' \<Longrightarrow> later k k'"
proof (cases "\<exists>l. p = SetOwner l \<or> p = Release l")
  case True
  moreover assume "exec p k = Inr k'"
  ultimately show ?thesis by (auto simp: Lock_set_owner_def Lock_Release_def owner_later elim!: rbind_InrE)
qed (auto dest: exec_quiet simp: quiet_def)

lemma step_later: "step k = Inr k' \<Longrightarrow> later k k'"
proof -
  assume s: "step k = Inr k'"
  have q: "quiet k (pop k)" by (simp add: pop_def)
  show ?thesis
  proof (cases "halted k \<or> konts (thr k (currentThread k)) = []")
    case True
    then show ?thesis using s by (auto simp: step_def split: list.split_asm)
  next
    case False
    then obtain p ps where "konts (thr k (currentThread k)) = p # ps" by (cases "konts (thr k (currentThread k))") auto
    with False s have "exec p (pop k) = Inr k'" by (simp add: step_def)
    from later_trans [OF _ exec_later [OF this]] q show ?thesis by (simp add: quiet_def)
  qed
qed

lemma reaches_later: "reaches k0 k \<Longrightarrow> later k0 k"
  by (induction rule: reaches.induct) (auto intro: later_trans step_later)

section \<open>Who owns a lock\<close>

lemma exec_Owner:
  assumes "exec p k = Inr k'" "Owner k' l \<noteq> Owner k l"
  shows "p = SetOwner l \<or> (p = Release l \<and> Owner k l = Some (currentThread k) \<and> Owner k' l = None)"
proof (cases "\<exists>m. p = SetOwner m \<or> p = Release m")
  case True
  have "Owner (atomically ps k1) = Owner k1" for ps k1 by (simp add: atomically_def calls_def)
  then show ?thesis using True assms
    by (auto simp: Lock_set_owner_def Lock_Release_def isHeldByCurrentThread_def elim!: rbind_InrE split: if_split_asm)
next
  case False
  then show ?thesis using exec_quiet [OF assms(1)] assms(2) by (auto simp: quiet_def)
qed

lemma step_Owner:
  assumes ok: "locks_ok k" and s: "step k = Inr k'" and o: "Owner k l = Some t"
  shows "Owner k' l = Some t \<or> (Owner k' l = None \<and> t = currentThread k \<and> hd (konts (thr k t)) = Release l)"
proof (cases "Owner k' l = Owner k l")
  case False
  have pk: "Owner (pop k) = Owner k" "currentThread (pop k) = currentThread k" by (simp_all add: pop_def)
  from False s obtain p ps where h: "konts (thr k (currentThread k)) = p # ps" and e: "exec p (pop k) = Inr k'"
    by (auto simp: step_def split: if_split_asm list.split_asm)
  from exec_Owner [OF e, of l] False pk
  have "p = SetOwner l \<or> (p = Release l \<and> Owner k l = Some (currentThread k) \<and> Owner k' l = None)" by simp
  then show ?thesis using pending_owner(1) [OF ok, of l ps] h o by auto
qed (simp add: o)

section \<open>Sample programs\<close>

definition sample_objects :: "bool \<Rightarrow> nachos" where
  "sample_objects rr = Interrupt_new rr (\<lambda>n. 7) (\<lambda>n. 0) (\<lambda>b. Barrier_new 2 3 4) (\<lambda>r. ReaderWriterLock_new 5 (Sem 6))
     (\<lambda>n. SynchList_new 7 8) (\<lambda>d. SynchDisk_new 10 11 (\<lambda>s. Sem (12 + s))) (\<lambda>c. SynchConsole_new 20 [104, 105] (\<lambda>t. t > 150))"

definition boot :: "bool \<Rightarrow> nat \<Rightarrow> point list \<Rightarrow> nachos res" where
  "boot rr n body = rbind (Initialize False (sample_objects rr) body) (runs_of n)"

lemma boot_runs:
  assumes "boot rr n body = Inr k" "list_all client body"
  obtains k0 where "Initialize False (sample_objects rr) body = Inr k0" "runs k0 k" "locks_ok k0"
proof -
  from assms(1) obtain k0 where i: "Initialize False (sample_objects rr) body = Inr k0" and r: "runs_of n k0 = Inr k"
    by (auto simp: boot_def elim!: rbind_InrE)
  have "locks_ok k0" using i unfolding sample_objects_def
    by (rule Initialize_locks_ok) (use assms(2) in \<open>simp_all add: ReaderWriterLock_new_def SynchDisk_new_def\<close>)
  then show ?thesis using that i runs_of_runs [OF r] by blast
qed

definition contend :: "point list" where
  "contend = [NewThread 0 [Acquire 1, Yield, Release 1], Acquire 1, Yield, Release 1, Yield]"

lemma contend_client: "list_all client contend"
  by (simp add: contend_def)

section \<open>Locks\<close>

text \<open>C16: the locks of threads/synch.cc give mutual exclusion in every run of the kernel. Whatever the
  program, the scheduling policy, the timer and the devices do, a thread that is about to become the
  owner of a lock finds it without an owner, and no other thread can pass its semaphore.\<close>

theorem lock_mutual_exclusion:
  assumes "Initialize ry (Interrupt_new rr rnd vals bs rws sls sds scs) body = Inr k0" "list_all client body"
    "\<forall>n. 0 \<le> vals n" "\<forall>r. \<exists>n. WriterLock (rws r) = Sem n" "\<forall>d s. \<exists>n. mutex (sds d) s = Sem n"
    "runs k0 k" "konts (thr k (currentThread k)) = SetOwner l # ps"
  shows "Owner k l = None \<and> sem_value (sems k (LockSem l)) = 0"
  using pending_owner [OF runs_locks_ok [OF assms(6) Initialize_locks_ok [OF assms(1-5)]] assms(7)] by simp

lemma lock_mutual_exclusion_witness:
  "case boot True 57 contend of Inl e \<Rightarrow> False
   | Inr k \<Rightarrow> konts (thr k (currentThread k)) \<noteq> [] \<and> Owner k 1 = None \<and> sem_value (sems k (LockSem 1)) = 0"
proof -
  have c: "case boot True 57 contend of Inl e \<Rightarrow> False
    | Inr k \<Rightarrow> currentThread k = 1 \<and> take 1 (konts (thr k (currentThread k))) = [SetOwner 1]" by code_simp
  then obtain k where k: "boot True 57 contend = Inr k" by (auto split: sum.split_asm)
  from boot_runs [OF k contend_client] obtain k0 where
    i: "Initialize False (sample_objects True) contend = Inr k0" and r: "runs k0 k" .
  from c k obtain ps where ps: "konts (thr k (currentThread k)) = SetOwner 1 # ps"
    by (cases "konts (thr k (currentThread k))") auto
  have "Owner k 1 = None \<and> sem_value (sems k (LockSem 1)) = 0"
    by (rule lock_mutual_exclusion [OF i [unfolded sample_objects_def] contend_client _ _ _ r ps])
       (simp_all add: ReaderWriterLock_new_def SynchDisk_new_def)
  with k ps show ?thesis by simp
qed

text \<open>A lock stays with its owner until that thread itself calls \<open>Release\<close>: no step of any other
  thread, of the scheduler or of an interrupt handler takes it away or gives it to somebody else.\<close>

theorem lock_owner_kept:
  assumes "Initialize ry (Interrupt_new rr rnd vals bs rws sls sds scs) body = Inr k0" "list_all client body"
    "\<forall>n. 0 \<le> vals n" "\<forall>r. \<exists>n. WriterLock (rws r) = Sem n" "\<forall>d s. \<exists>n. mutex (sds d) s = Sem n"
    "runs k0 k" "step k = Inr k'" "Owner k l = Some t"
  shows "Owner k' l = Some t \<or> (Owner k' l = None \<and> t = currentThread k \<and> hd (konts (thr k t)) = Release l)"
  by (rule step_Owner [OF runs_locks_ok [OF assms(6) Initialize_locks_ok [OF assms(1-5)]] assms(7,8)])

lemma lock_owner_kept_witness:
  "case boot True 42 contend of Inl e \<Rightarrow> False
   | Inr k \<Rightarrow> Owner k 1 = Some 0 \<and> currentThread k = 0 \<and> (case step k of Inl e \<Rightarrow> False | Inr k' \<Rightarrow> Owner k' 1 = None)"
proof -
  have c: "case boot True 42 contend of Inl e \<Rightarrow> False
    | Inr k \<Rightarrow> currentThread k = 0 \<and> Owner k 1 = Some 0 \<and> (case step k of Inl e \<Rightarrow> False | Inr k' \<Rightarrow> Owner k' 1 \<noteq> Some 0)"
    by code_simp
  then obtain k where k: "boot True 42 contend = Inr k" by (auto split: sum.split_asm)
  with c obtain k' where k': "step k = Inr k'" by (auto split: sum.split_asm)
  with c k have o: "Owner k 1 = Some 0" "Owner k' 1 \<noteq> Some 0" "currentThread k = 0" by simp_all
  from boot_runs [OF k contend_client] obtain k0 where
    i: "Initialize False (sample_objects True) contend = Inr k0" and r: "runs k0 k" .
  have "Owner k' 1 = Some 0 \<or> (Owner k' 1 = None \<and> 0 = currentThread k \<and> hd (konts (thr k 0)) = Release 1)"
    by (rule lock_owner_kept [OF i [unfolded sample_objects_def] contend_client _ _ _ r k' o(1)])
       (simp_all add: ReaderWriterLock_new_def SynchDisk_new_def)
  with k k' o show ?thesis by simp
qed

text \<open>C29: no semaphore ever goes below zero, the ones inside the locks included.\<close>

theorem semaphore_nonnegative:
  assumes "Initialize ry (Interrupt_new rr rnd vals bs rws sls sds scs) body = Inr k0" "list_all client body"
    "\<forall>n. 0 \<le> vals n" "\<forall>r. \<exists>n. WriterLock (rws r) = Sem n" "\<forall>d s. \<exists>n. mutex (sds d) s = Sem n" "runs k0 k"
  shows "0 \<le> sem_value (sems k s)"
  using runs_locks_ok [OF assms(6) Initialize_locks_ok [OF assms(1-5)]] goodD2(5) by (simp add: locks_ok_def)

lemma semaphore_nonnegative_witness:
  "case boot True 57 contend of Inl e \<Rightarrow> False | Inr k \<Rightarrow> 0 \<le> sem_value (sems k (LockSem 1))"
proof -
  have "case boot True 57 contend of Inl e \<Rightarrow> False | Inr k \<Rightarrow> True" by code_simp
  then obtain k where k: "boot True 57 contend = Inr k" by (auto split: sum.split_asm)
  from boot_runs [OF k contend_client] obtain k0 where
    i: "Initialize False (sample_objects True) contend = Inr k0" and r: "runs k0 k" .
  have "0 \<le> sem_value (sems k (LockSem 1))"
    by (rule semaphore_nonnegative [OF i [unfolded sample_objects_def] contend_client _ _ _ r])
       (simp_all add: ReaderWriterLock_new_def SynchDisk_new_def)
  with k show ?thesis by simp
qed

section \<open>The next interrupt and the next thread\<close>

lemma Timer_new_later: "Timer_new r h k = Inr k' \<Longrightarrow> later k k'"
  by (auto simp: Timer_new_def quiet_def split: prod.split_asm
      dest!: TimeOfNextInterrupt_quiet Schedule_quiet intro: later_trans)

lemma Initialize_later:
  assumes "Initialize ry k body = Inr k0" shows "later k k0"
proof -
  from assms obtain k1 where k1: "(if ry then Timer_new ry TimerInterruptHandler k else Inr k) = Inr k1"
    and r: "rbind (if RoundRobbin k1 then Timer_new False RRHandler k1 else Inr k1) (\<lambda>k. rbind (Thread_new 0 k) (\<lambda>(t, k).
      Inr (upd t (\<lambda>r. r\<lparr>tstatus := RUNNING, konts := SetLevel IntOn # body @ [Finish]\<rparr>) (k\<lparr>currentThread := t\<rparr>)))) = Inr k0"
    unfolding Initialize_def by (rule rbind_InrE)
  have l1: "later k k1" using k1 Timer_new_later by (auto split: if_split_asm)
  from r obtain k2 where k2: "(if RoundRobbin k1 then Timer_new False RRHandler k1 else Inr k1) = Inr k2"
    and r2: "rbind (Thread_new 0 k2) (\<lambda>(t, k).
      Inr (upd t (\<lambda>r. r\<lparr>tstatus := RUNNING, konts := SetLevel IntOn # body @ [Finish]\<rparr>) (k\<lparr>currentThread := t\<rparr>))) = Inr k0"
    by (rule rbind_InrE)
  have l2: "later k1 k2" using k2 Timer_new_later by (auto split: if_split_asm)
  from r2 obtain t k3 where n: "Thread_new 0 k2 = Inr (t, k3)"
    and k0: "k0 = upd t (\<lambda>r. r\<lparr>tstatus := RUNNING, konts := SetLevel IntOn # body @ [Finish]\<rparr>) (k3\<lparr>currentThread := t\<rparr>)"
    by (auto elim!: rbind_InrE)
  have "quiet k2 k0" unfolding k0 using Thread_new_quiet [OF n] by simp
  then show ?thesis using later_trans [OF later_trans [OF l1 l2]] by (simp add: quiet_def)
qed

lemma reached_in_order:
  assumes "Initialize ry (Interrupt_new rr rnd vals bs rws sls sds scs) body = Inr k0" "reaches k0 k"
  shows "in_order k" "RoundRobbin k = rr" "0 \<le> totalTicks k"
  using Initialize_later [OF assms(1)] reaches_later [OF assms(2)]
  by (auto simp: later_def in_order_def Interrupt_new_def by_key_def)

text \<open>C30: \<open>CheckIfDue\<close> runs the interrupts in the order of their times and never early: in every reachable
  state, the one it hands out is one with the least time, that time has come (idle, the clock is moved
  on to it), the others stay pending; and it hands out none only when none is due, or when the machine
  is idle with at most a timer left.\<close>

theorem CheckIfDue_in_order:
  assumes "Initialize ry (Interrupt_new rr rnd vals bs rws sls sds scs) body = Inr k0" "reaches k0 k" "CheckIfDue adv k = Inr (h, k')"
  shows "case h of
      Some hs \<Rightarrow> (\<exists>handler type when. pending k = ((handler, type), when) # pending k' \<and> hs = handler @ [EndHandler (mstatus k)] \<and>
        totalTicks k' = max (totalTicks k) when \<and> (adv \<or> when \<le> totalTicks k) \<and> (\<forall>e \<in> set (pending k'). when \<le> snd e) \<and> inHandler k')
    | None \<Rightarrow> set (pending k') = set (pending k) \<and> (\<forall>e \<in> set (pending k). totalTicks k < snd e \<or> (mstatus k = IdleMode \<and> pending k = [e] \<and> snd (fst e) = TimerInt))"
proof -
  have o: "by_key (pending k)" using reached_in_order(1) [OF assms(1,2)] by (simp add: in_order_def)
  show ?thesis
  proof (cases "pending k")
    case Nil
    then show ?thesis using assms(3) by (auto simp: CheckIfDue_def elim!: rbind_InrE)
  next
    case (Cons e rest)
    obtain hd ty w where e: "e = ((hd, ty), w)" by (metis surj_pair)
    have le: "\<forall>e \<in> set rest. w \<le> snd e" using o Cons e by (simp add: by_key_def)
    consider "\<not> adv" "totalTicks k < w" | "adv \<or> w \<le> totalTicks k" "mstatus k = IdleMode" "ty = TimerInt" "rest = []"
      | "adv \<or> w \<le> totalTicks k" "\<not> (mstatus k = IdleMode \<and> ty = TimerInt \<and> rest = [])" by linarith
    then show ?thesis
    proof cases
      case 1
      then have "h = None \<and> set (pending k') = set (pending k)"
        using assms(3) Cons e by (auto simp: CheckIfDue_def Let_def elim!: rbind_InrE)
      moreover have "\<forall>e \<in> set (pending k). totalTicks k < snd e" using 1 le Cons e by auto
      ultimately show ?thesis by simp
    next
      case 2
      have "h = None \<and> set (pending k') = set (pending k)"
        using assms(3) Cons e 2 by (cases "totalTicks k < w") (auto simp: CheckIfDue_def Let_def elim!: rbind_InrE)
      then show ?thesis using 2 Cons e by auto
    next
      case 3
      have "h = Some (hd @ [EndHandler (mstatus k)]) \<and> pending k' = rest \<and> totalTicks k' = max (totalTicks k) w \<and> inHandler k'"
        using assms(3) Cons e 3 by (auto simp: CheckIfDue_def Let_def elim!: rbind_InrE split: if_split_asm)
      then show ?thesis using 3 le Cons e by auto
    qed
  qed
qed

lemma CheckIfDue_in_order_witness:
  "case boot True 30 contend of Inl e \<Rightarrow> False
   | Inr k \<Rightarrow> (case CheckIfDue True k of Inl e \<Rightarrow> False
     | Inr (h, k') \<Rightarrow> \<exists>handler type when. pending k = ((handler, type), when) # pending k' \<and> totalTicks k' = max (totalTicks k) when)"
proof -
  have c: "case boot True 30 contend of Inl e \<Rightarrow> False
    | Inr k \<Rightarrow> (case CheckIfDue True k of Inl e \<Rightarrow> False | Inr (h, k') \<Rightarrow> h \<noteq> None)" by code_simp
  then obtain k where k: "boot True 30 contend = Inr k" by (auto split: sum.split_asm)
  with c obtain h k' where h: "CheckIfDue True k = Inr (Some h, k')" by (auto split: sum.split_asm)
  from boot_runs [OF k contend_client] obtain k0 where
    i: "Initialize False (sample_objects True) contend = Inr k0" and r: "runs k0 k" .
  from CheckIfDue_in_order [OF i [unfolded sample_objects_def] runs_reaches [OF r] h] k h show ?thesis by auto
qed

text \<open>Under priority scheduling the scheduler never passes over a more urgent thread: in every
  reachable state, the thread that \<open>FindNextToRun\<close> picks was put on the ready list with a priority
  number that no other entry of the list undercuts, and there is none to pick only when the list is empty.\<close>

theorem FindNextToRun_most_urgent:
  assumes "Initialize ry (Interrupt_new rr rnd vals bs rws sls sds scs) body = Inr k0" "reaches k0 k" "\<not> rr"
    "FindNextToRun k = (t, k')"
  shows "case t of None \<Rightarrow> readyList k = [] \<and> k' = k
    | Some u \<Rightarrow> \<exists>p. readyList k = (u, p) # readyList k' \<and> (\<forall>e \<in> set (readyList k'). p \<le> snd e)"
proof -
  have "by_key (readyList k)" using reached_in_order [OF assms(1,2)] assms(3) by (simp add: in_order_def)
  then show ?thesis using assms(4) by (auto simp: FindNextToRun_def by_key_def split: list.split_asm)
qed

lemma FindNextToRun_most_urgent_witness:
  "case boot False 26 [NewThread 7 [], NewThread 5 [], Yield] of Inl e \<Rightarrow> False
   | Inr k \<Rightarrow> (case FindNextToRun k of (t, k') \<Rightarrow> t = Some 2 \<and> (\<exists>p. readyList k = (2, p) # readyList k' \<and> readyList k' \<noteq> [] \<and> (\<forall>e \<in> set (readyList k'). p \<le> snd e)))"
proof -
  let ?b = "[NewThread 7 [], NewThread 5 [], Yield]"
  have c: "case boot False 26 ?b of Inl e \<Rightarrow> False
    | Inr k \<Rightarrow> (case FindNextToRun k of (t, k') \<Rightarrow> t = Some 2 \<and> readyList k' \<noteq> [])" by code_simp
  then obtain k where k: "boot False 26 ?b = Inr k" by (auto split: sum.split_asm)
  with c obtain k' where h: "FindNextToRun k = (Some 2, k')" "readyList k' \<noteq> []" by auto
  have "list_all client ?b" by simp
  from boot_runs [OF k this] obtain k0 where
    i: "Initialize False (sample_objects False) ?b = Inr k0" and r: "runs k0 k" .
  from FindNextToRun_most_urgent [OF i [unfolded sample_objects_def] runs_reaches [OF r] _ h(1)] k h show ?thesis by auto
qed

section \<open>Two runs\<close>

text \<open>The state of a program that has run for \<open>n\<close> steps: stopped with a thread asleep on a semaphore whose
  value is positive.\<close>

definition sleeps_forever :: "nachos res \<Rightarrow> nat \<Rightarrow> sem \<Rightarrow> bool" where
  "sleeps_forever r t s = (case r of Inl e \<Rightarrow> False
     | Inr k \<Rightarrow> halted k \<and> tstatus (thr k t) = BLOCKED \<and> t \<in> set (queue (sems k s)) \<and> 0 < sem_value (sems k s))"

text \<open>A disk request that completes while a less urgent thread runs: the disk
  interrupt's \<open>V\<close> yields from inside the handler, and the thread that asked for the sector, awake too
  early, sleeps for good although its request is done.\<close>

theorem disk_read_never_returns:
  "sleeps_forever (boot False 95 [NewThread 5 [SetLevel IntOff, SetLevel IntOn, SetLevel IntOff, SetLevel IntOn,
     SetLevel IntOff, SetLevel IntOn], DiskRequest 0 30]) 0 (DiskSem 0)"
  by code_simp

text \<open>A thread number is lost. A thread that finishes leaves itself in \<open>threadToBeDestroyed\<close> for the next
  thread to delete; the next thread does so only when it comes out of a switch, not when it starts in
  \<open>ThreadRoot\<close>. When it starts and finishes, it puts itself there, and the first thread is never deleted:
  both threads are finished, no thread is left to be destroyed, and number 1 is still taken.\<close>

theorem thread_number_lost:
  "case boot True 60 [NewThread 5 [], NewThread 5 [], Yield] of Inl e \<Rightarrow> False
   | Inr k \<Rightarrow> konts (thr k 1) = [AfterSwitch] \<and> konts (thr k 2) = [AfterSwitch] \<and> tstatus (thr k 1) = BLOCKED
     \<and> readyList k = [] \<and> threadToBeDestroyed k = None \<and> used_TID k ! 1 \<and> \<not> used_TID k ! 2 \<and> \<not> halted k"
  by code_simp

end
