(* ===== verification/Allocator.thy ===== *)
theory Allocator
  imports Prelude
begin

text \<open>
  The interface of a numbered-slot allocator. The file system allocates disk sectors with it
  (\<open>BitMap\<close>, userprog/bitmap.cc) and the virtual memory physical frames
  (\<open>Machine::allocateMem\<close>, machine/machine.cc). Clients only find, test and clear slots; the
  laws say how these act on the set of used slots. The two loops every client runs, taking
  slots into an array (\<open>fill\<close>) and giving back the slots of an array (\<open>release\<close>), are
  verified here once.
\<close>

section \<open>The two client loops\<close>

text \<open>\<open>for (int i = lo; i < lo + n; ++i) arr[i] = freeMap->Find();\<close>\<close>

fun fill :: "('b \<Rightarrow> (int \<times> 'b) res) \<Rightarrow> 'b \<Rightarrow> int list \<Rightarrow> int \<Rightarrow> nat \<Rightarrow> (int list \<times> 'b) res" where
  "fill find_slot b arr i 0 = Inr (arr, b)"
| "fill find_slot b arr i (Suc n) =
     rbind (find_slot b) (\<lambda>(s, b'). rbind (aset arr i s) (\<lambda>arr'. fill find_slot b' arr' (i + 1) n))"

text \<open>\<open>for (...) { ASSERT(freeMap->Test(arr[i])); freeMap->Clear(arr[i]); }\<close>\<close>

fun release :: "('b \<Rightarrow> int \<Rightarrow> bool res) \<Rightarrow> ('b \<Rightarrow> int \<Rightarrow> 'b res) \<Rightarrow> 'b \<Rightarrow> int list \<Rightarrow> int \<Rightarrow> nat \<Rightarrow> 'b res" where
  "release test_slot clear_slot b arr i 0 = Inr b"
| "release test_slot clear_slot b arr i (Suc n) =
     rbind (aget arr i) (\<lambda>s. rbind (test_slot b s) (\<lambda>t. rbind (ASSERT t) (\<lambda>_.
       rbind (clear_slot b s) (\<lambda>b'. release test_slot clear_slot b' arr (i + 1) n))))"

section \<open>The interface\<close>

locale slot_allocator =
  fixes inv :: "'b \<Rightarrow> bool"
    and cap :: "'b \<Rightarrow> int"
    and used :: "'b \<Rightarrow> int set"
    and find_slot :: "'b \<Rightarrow> (int \<times> 'b) res"
    and test_slot :: "'b \<Rightarrow> int \<Rightarrow> bool res"
    and clear_slot :: "'b \<Rightarrow> int \<Rightarrow> 'b res"
  assumes used_range: "inv b \<Longrightarrow> used b \<subseteq> {0..<cap b}"
    and find_free: "inv b \<Longrightarrow> used b \<noteq> {0..<cap b} \<Longrightarrow>
      \<exists>i b'. find_slot b = Inr (i, b') \<and> i \<in> {0..<cap b} - used b \<and> inv b' \<and> cap b' = cap b
             \<and> used b' = insert i (used b)"
    and find_full: "inv b \<Longrightarrow> used b = {0..<cap b} \<Longrightarrow> find_slot b = Inr (-1, b)"
    and test_used: "inv b \<Longrightarrow> i \<in> {0..<cap b} \<Longrightarrow> test_slot b i = Inr (i \<in> used b)"
    and clear_used: "inv b \<Longrightarrow> i \<in> {0..<cap b} \<Longrightarrow>
      \<exists>b'. clear_slot b i = Inr b' \<and> inv b' \<and> cap b' = cap b \<and> used b' = used b - {i}"
begin

definition free :: "'b \<Rightarrow> int set" where
  "free b = {0..<cap b} - used b"

text \<open>\<open>b'\<close> is \<open>b\<close> with the slots \<open>xs\<close>, all different and free before, taken.\<close>

definition took :: "'b \<Rightarrow> int list \<Rightarrow> 'b \<Rightarrow> bool" where
  "took b xs b' \<longleftrightarrow> inv b' \<and> cap b' = cap b \<and> distinct xs \<and> set xs \<subseteq> free b \<and> used b' = used b \<union> set xs"

definition gave :: "'b \<Rightarrow> int set \<Rightarrow> 'b \<Rightarrow> bool" where
  "gave b A b' \<longleftrightarrow> inv b' \<and> cap b' = cap b \<and> used b' = used b - A"

lemma finite_free [simp]: "finite (free b)"
  by (simp add: free_def)

lemma finite_used: "inv b \<Longrightarrow> finite (used b)"
  using used_range [of b] finite_subset by blast

lemma card_free: "inv b \<Longrightarrow> int (card (free b)) = max 0 (cap b) - int (card (used b))"
  using used_range [of b] card_mono [OF _ used_range, of b]
  by (simp add: free_def card_Diff_subset finite_used of_nat_diff)

lemma took_Nil [intro]: "inv b \<Longrightarrow> took b [] b"
  by (simp add: took_def)

lemma took_append: "took b xs b' \<Longrightarrow> took b' ys b'' \<Longrightarrow> took b (xs @ ys) b''"
  by (auto simp: took_def free_def)

lemma took_inv: "took b xs b' \<Longrightarrow> inv b'"
  by (simp add: took_def)

lemma took_cap: "took b xs b' \<Longrightarrow> cap b' = cap b"
  by (simp add: took_def)

lemma took_used: "took b xs b' \<Longrightarrow> used b' = used b \<union> set xs"
  by (simp add: took_def)

lemma took_card_free: "took b xs b' \<Longrightarrow> card (free b') = card (free b) - length xs"
proof -
  assume t: "took b xs b'"
  then have "free b' = free b - set xs" by (auto simp: took_def free_def)
  with t show ?thesis by (simp add: took_def card_Diff_subset distinct_card)
qed

lemma took_length_le: "took b xs b' \<Longrightarrow> length xs \<le> card (free b)"
  unfolding took_def by (metis card_mono distinct_card finite_free)

lemma find_took:
  assumes "inv b" "0 < card (free b)"
  shows "\<exists>i b'. find_slot b = Inr (i, b') \<and> took b [i] b'"
proof -
  have "used b \<noteq> {0..<cap b}" using assms(2) by (auto simp: free_def)
  from find_free [OF assms(1) this] show ?thesis by (auto simp: took_def free_def)
qed

text \<open>The filling loop, when enough slots are free.\<close>

lemma fill_took:
  assumes "inv b" "n \<le> card (free b)" "0 \<le> i" "i + int n \<le> int (length arr)"
  shows "\<exists>xs b'. fill find_slot b arr i n = Inr (take (nat i) arr @ xs @ drop (nat i + n) arr, b')
           \<and> length xs = n \<and> took b xs b'"
  using assms
proof (induction n arbitrary: b arr i)
  case 0
  then show ?case by (intro exI [of _ "[]"] exI [of _ b]) (simp add: took_Nil)
next
  case (Suc n)
  from Suc.prems have pos: "0 < card (free b)" by simp
  from find_took [OF Suc.prems(1) pos] obtain s b1
    where f: "find_slot b = Inr (s, b1)" and t1: "took b [s] b1" by blast
  let ?arr = "arr[nat i := s]"
  have set: "aset arr i s = Inr ?arr" using Suc.prems by (simp add: aset_ok)
  have "\<exists>xs b'. fill find_slot b1 ?arr (i + 1) n = Inr (take (nat (i + 1)) ?arr @ xs @ drop (nat (i + 1) + n) ?arr, b')
           \<and> length xs = n \<and> took b1 xs b'"
    using Suc.prems t1 took_card_free [OF t1] by (intro Suc.IH) (auto simp: took_def)
  then obtain xs b2 where r: "fill find_slot b1 ?arr (i + 1) n
      = Inr (take (nat (i + 1)) ?arr @ xs @ drop (nat (i + 1) + n) ?arr, b2)"
    and l: "length xs = n" and t2: "took b1 xs b2" by blast
  have tk: "take (nat (i + 1)) ?arr = take (nat i) arr @ [s]"
    using Suc.prems set_take_drop_update [of "nat i" arr s] by (simp add: nat_add_distrib)
  have dr: "drop (nat (i + 1) + n) ?arr = drop (nat i + Suc n) arr"
    using Suc.prems by (simp add: nat_add_distrib)
  have "fill find_slot b arr i (Suc n) = Inr (take (nat i) arr @ (s # xs) @ drop (nat i + Suc n) arr, b2)"
    using f set r tk dr by simp
  moreover have "took b (s # xs) b2" using took_append [OF t1 t2] by simp
  ultimately show ?case using l by (intro exI [of _ "s # xs"] exI [of _ b2]) simp
qed

text \<open>The releasing loop, when all slots of the array segment are different and used.\<close>

lemma release_gave:
  assumes "inv b" "0 \<le> i" "i + int n \<le> int (length arr)"
    and "distinct (take n (drop (nat i) arr))" "set (take n (drop (nat i) arr)) \<subseteq> used b"
  shows "\<exists>b'. release test_slot clear_slot b arr i n = Inr b' \<and> gave b (set (take n (drop (nat i) arr))) b'"
  using assms
proof (induction n arbitrary: b i)
  case 0
  then show ?case by (simp add: gave_def)
next
  case (Suc n)
  let ?s = "arr ! nat i"
  have lt: "nat i < length arr" using Suc.prems by simp
  have seg: "take (Suc n) (drop (nat i) arr) = ?s # take n (drop (nat (i + 1)) arr)"
    using lt Suc.prems(2) by (simp add: Cons_nth_drop_Suc [symmetric] nat_add_distrib)
  have su: "?s \<in> used b" using Suc.prems(5) seg by simp
  then have rng: "?s \<in> {0..<cap b}" using used_range [OF Suc.prems(1)] by blast
  obtain b1 where c: "clear_slot b ?s = Inr b1" and b1: "inv b1" "cap b1 = cap b" "used b1 = used b - {?s}"
    using clear_used [OF Suc.prems(1) rng] by blast
  have "\<exists>b'. release test_slot clear_slot b1 arr (i + 1) n = Inr b' \<and> gave b1 (set (take n (drop (nat (i + 1)) arr))) b'"
    using Suc.prems seg b1 by (intro Suc.IH) auto
  then show ?case
    using lt Suc.prems(2) su c b1 seg test_used [OF Suc.prems(1) rng] by (auto simp: aget_ok gave_def)
qed

lemma gave_inv: "gave b A b' \<Longrightarrow> inv b'"
  by (simp add: gave_def)

lemma gave_trans: "gave b A b' \<Longrightarrow> gave b' B b'' \<Longrightarrow> gave b (A \<union> B) b''"
  by (auto simp: gave_def)

lemma took_gave: "took b xs b' \<Longrightarrow> gave b' (set xs) b'' \<Longrightarrow> used b'' = used b"
  by (auto simp: took_def gave_def free_def)

end

end
