(* ===== verification/Bitmap.thy ===== *)
theory Bitmap
  imports Allocator
begin

text \<open>
  The class \<open>BitMap\<close> (userprog/bitmap.h, userprog/bitmap.cc): an array of bits kept in 32-bit
  words. \<open>marked\<close> is the abstraction: the set of numbers whose bit is set. Each operation is
  translated with its assertion and its word arithmetic, and shown to act on \<open>marked\<close> as its
  comment says; \<open>bm\<close> interprets the allocator interface on these operations.
\<close>

unbundle bit_operations_syntax

section \<open>Data and operations\<close>

definition BitsInByte :: int where "BitsInByte = 8"

definition BitsInWord :: int where "BitsInWord = 32"

record bitmap =
  numBits :: int
  numWords :: int
  bwords :: "32 word list"

text \<open>\<open>1 << (which % BitsInWord)\<close>, stored into an unsigned word.\<close>

definition bit_mask :: "int \<Rightarrow> 32 word" where
  "bit_mask which = push_bit (nat (which smod BitsInWord)) 1"

definition Mark :: "bitmap \<Rightarrow> int \<Rightarrow> bitmap res" where
  "Mark bm which =
     rbind (ASSERT (which \<ge> 0 \<and> which < numBits bm)) (\<lambda>_.
     rbind (aget (bwords bm) (which sdiv BitsInWord)) (\<lambda>w.
     rbind (aset (bwords bm) (which sdiv BitsInWord) (w OR bit_mask which)) (\<lambda>ws.
     Inr (bm\<lparr>bwords := ws\<rparr>))))"

definition Clear :: "bitmap \<Rightarrow> int \<Rightarrow> bitmap res" where
  "Clear bm which =
     rbind (ASSERT (which \<ge> 0 \<and> which < numBits bm)) (\<lambda>_.
     rbind (aget (bwords bm) (which sdiv BitsInWord)) (\<lambda>w.
     rbind (aset (bwords bm) (which sdiv BitsInWord) (w AND NOT (bit_mask which))) (\<lambda>ws.
     Inr (bm\<lparr>bwords := ws\<rparr>))))"

definition Test :: "bitmap \<Rightarrow> int \<Rightarrow> bool res" where
  "Test bm which =
     rbind (ASSERT (which \<ge> 0 \<and> which < numBits bm)) (\<lambda>_.
     rbind (aget (bwords bm) (which sdiv BitsInWord)) (\<lambda>w.
     Inr (w AND bit_mask which \<noteq> 0)))"

text \<open>The constructor: \<open>new unsigned int[numWords]\<close> leaves the words as they are in the heap
  (\<open>junk\<close>); the loop clears every bit.\<close>

fun clear_from :: "bitmap \<Rightarrow> int \<Rightarrow> nat \<Rightarrow> bitmap res" where
  "clear_from bm i 0 = Inr bm"
| "clear_from bm i (Suc n) = rbind (Clear bm i) (\<lambda>bm'. clear_from bm' (i + 1) n)"

definition BitMap :: "(nat \<Rightarrow> 32 word) \<Rightarrow> int \<Rightarrow> bitmap res" where
  "BitMap junk nitems =
     (let nw = divRoundUp nitems BitsInWord
      in clear_from \<lparr>numBits = nitems, numWords = nw, bwords = map junk [0..<nat nw]\<rparr> 0 (nat nitems))"

function find_from :: "bitmap \<Rightarrow> int \<Rightarrow> (int \<times> bitmap) res" where
  "find_from bm i =
     (if i < numBits bm
      then rbind (Test bm i) (\<lambda>t.
             if \<not> t then rbind (Mark bm i) (\<lambda>bm'. Inr (i, bm')) else find_from bm (i + 1))
      else Inr (-1, bm))"
  by pat_completeness auto
termination
  by (relation "measure (\<lambda>(bm, i). nat (numBits bm - i))") auto

definition Find :: "bitmap \<Rightarrow> (int \<times> bitmap) res" where
  "Find bm = find_from bm 0"

function num_clear_from :: "bitmap \<Rightarrow> int \<Rightarrow> int \<Rightarrow> int res" where
  "num_clear_from bm i count =
     (if i < numBits bm
      then rbind (Test bm i) (\<lambda>t. num_clear_from bm (i + 1) (if \<not> t then count + 1 else count))
      else Inr count)"
  by pat_completeness auto
termination
  by (relation "measure (\<lambda>(bm, i, count). nat (numBits bm - i))") auto

definition NumClear :: "bitmap \<Rightarrow> int res" where
  "NumClear bm = num_clear_from bm 0 0"

text \<open>\<open>Print\<close>: the numbers printed, in order.\<close>

function print_from :: "bitmap \<Rightarrow> int \<Rightarrow> int list res" where
  "print_from bm i =
     (if i < numBits bm
      then rbind (Test bm i) (\<lambda>t. rbind (print_from bm (i + 1)) (\<lambda>out.
             Inr (if t then i # out else out)))
      else Inr [])"
  by pat_completeness auto
termination
  by (relation "measure (\<lambda>(bm, i). nat (numBits bm - i))") auto

declare find_from.simps [simp del] num_clear_from.simps [simp del] print_from.simps [simp del]

text \<open>
  \<open>FetchFrom\<close> and \<open>WriteBack\<close> copy the words of the map to and from a file. \<open>map_bytes\<close> is the
  memory of the array; a read of \<open>bs\<close> bytes into it overwrites its first bytes.
\<close>

definition map_bytes :: "bitmap \<Rightarrow> byte list" where
  "map_bytes bm = ints_bytes (map uint (bwords bm))"

definition load_map :: "bitmap \<Rightarrow> byte list \<Rightarrow> bitmap" where
  "load_map bm bs =
     bm\<lparr>bwords := map word_of_int (un_ints (length (bwords bm)) (bs @ drop (length bs) (map_bytes bm)))\<rparr>"

section \<open>The set of marked numbers\<close>

definition bm_wf :: "bitmap \<Rightarrow> bool" where
  "bm_wf bm \<longleftrightarrow> 0 \<le> numBits bm \<and> numWords bm = divRoundUp (numBits bm) BitsInWord
     \<and> int (length (bwords bm)) = numWords bm"

definition marked :: "bitmap \<Rightarrow> int set" where
  "marked bm = {i. 0 \<le> i \<and> i < numBits bm \<and> bit (bwords bm ! nat (i div 32)) (nat (i mod 32))}"

lemma word_index:
  assumes "bm_wf bm" "0 \<le> i" "i < numBits bm"
  shows "i sdiv BitsInWord = i div 32" "0 \<le> i div 32" "i div 32 < int (length (bwords bm))"
proof -
  show "i sdiv BitsInWord = i div 32" using assms(2) by (simp add: BitsInWord_def sdiv_pos)
  show "0 \<le> i div 32" using assms(2) by simp
  have "\<not> divRoundUp (numBits bm) 32 \<le> i div 32"
    using assms by (subst divRoundUp_le_iff) (auto simp: bm_wf_def)
  then show "i div 32 < int (length (bwords bm))"
    using assms(1) by (simp add: bm_wf_def BitsInWord_def)
qed

lemma bit_mask_iff: "0 \<le> i \<Longrightarrow> j < 32 \<Longrightarrow> bit (bit_mask i) j \<longleftrightarrow> j = nat (i mod 32)"
  by (auto simp: bit_mask_def BitsInWord_def smod_pos bit_exp_iff)

lemma nat_mod32_less [simp]: "nat ((i::int) mod 32) < 32"
  by (simp add: nat_less_iff)

lemma and_mask_iff: "0 \<le> i \<Longrightarrow> (w AND bit_mask i \<noteq> 0) \<longleftrightarrow> bit w (nat (i mod 32))"
proof -
  assume i: "0 \<le> i"
  have "(w AND bit_mask i = 0) \<longleftrightarrow> (\<forall>j < 32. \<not> (bit w j \<and> bit (bit_mask i) j))"
    by (simp add: bit_eq_iff bit_and_iff)
  then show ?thesis using i by (auto simp: bit_mask_iff)
qed

lemma same_slot: "0 \<le> (i::int) \<Longrightarrow> 0 \<le> j \<Longrightarrow> i div 32 = j div 32 \<Longrightarrow>
    nat (i mod 32) = nat (j mod 32) \<longleftrightarrow> i = j"
  by (metis div_mult_mod_eq nat_eq_iff2 pos_mod_sign zero_less_numeral)

text \<open>Writing one word changes the marks of its 32 numbers only.\<close>

lemma marked_update:
  assumes "bm_wf bm" "0 \<le> i" "i < numBits bm"
  shows "j \<in> marked (bm\<lparr>bwords := (bwords bm)[nat (i div 32) := w]\<rparr>) \<longleftrightarrow>
    0 \<le> j \<and> j < numBits bm \<and> (if j div 32 = i div 32 then bit w (nat (j mod 32)) else j \<in> marked bm)"
proof (cases "0 \<le> j \<and> j < numBits bm")
  case True
  have "nat (i div 32) = nat (j div 32) \<longleftrightarrow> j div 32 = i div 32"
    using assms(2) True by (auto simp: nat_eq_iff2)
  with True word_index [OF assms] show ?thesis
    by (simp add: marked_def nth_list_update)
qed (auto simp: marked_def)

lemma Test_marked:
  assumes "bm_wf bm" "0 \<le> i" "i < numBits bm"
  shows "Test bm i = Inr (i \<in> marked bm)"
  using assms word_index [OF assms]
  by (simp add: Test_def aget_ok and_mask_iff marked_def)

lemma Mark_marked:
  assumes "bm_wf bm" "0 \<le> i" "i < numBits bm"
  shows "\<exists>bm'. Mark bm i = Inr bm' \<and> bm_wf bm' \<and> numBits bm' = numBits bm \<and> marked bm' = insert i (marked bm)"
proof -
  let ?k = "nat (i div 32)"
  let ?ws = "(bwords bm)[?k := bwords bm ! ?k OR bit_mask i]"
  note w = word_index [OF assms]
  have m: "Mark bm i = Inr (bm\<lparr>bwords := ?ws\<rparr>)"
    using assms w by (simp add: Mark_def aget_ok aset_ok)
  have "j \<in> marked (bm\<lparr>bwords := ?ws\<rparr>) \<longleftrightarrow> j \<in> insert i (marked bm)" for j
    unfolding marked_update [OF assms]
    using assms same_slot [of j i] by (auto simp: bit_or_iff bit_mask_iff marked_def)
  then have "marked (bm\<lparr>bwords := ?ws\<rparr>) = insert i (marked bm)" by blast
  with m assms(1) show ?thesis by (simp add: bm_wf_def)
qed

lemma Clear_marked:
  assumes "bm_wf bm" "0 \<le> i" "i < numBits bm"
  shows "\<exists>bm'. Clear bm i = Inr bm' \<and> bm_wf bm' \<and> numBits bm' = numBits bm \<and> marked bm' = marked bm - {i}"
proof -
  let ?k = "nat (i div 32)"
  let ?ws = "(bwords bm)[?k := bwords bm ! ?k AND NOT (bit_mask i)]"
  note w = word_index [OF assms]
  have m: "Clear bm i = Inr (bm\<lparr>bwords := ?ws\<rparr>)"
    using assms w by (simp add: Clear_def aget_ok aset_ok)
  have "j \<in> marked (bm\<lparr>bwords := ?ws\<rparr>) \<longleftrightarrow> j \<in> marked bm - {i}" for j
    unfolding marked_update [OF assms]
    using assms same_slot [of j i] by (auto simp: bit_and_iff bit_not_iff bit_mask_iff marked_def)
  then have "marked (bm\<lparr>bwords := ?ws\<rparr>) = marked bm - {i}" by blast
  with m assms(1) show ?thesis by (simp add: bm_wf_def)
qed

section \<open>The loops\<close>

lemma marked_range: "marked bm \<subseteq> {0..<numBits bm}"
  by (auto simp: marked_def)

lemma finite_marked [simp]: "finite (marked bm)"
  using marked_range finite_subset by blast

lemma find_from_full:
  "bm_wf bm \<Longrightarrow> 0 \<le> i \<Longrightarrow> {i..<numBits bm} \<subseteq> marked bm \<Longrightarrow> find_from bm i = Inr (-1, bm)"
proof (induction bm i rule: find_from.induct)
  case (1 bm i)
  show ?case
  proof (cases "i < numBits bm")
    case True
    have "i \<in> marked bm" using "1.prems" True by auto
    then have t: "Test bm i = Inr True" using "1.prems" True by (simp add: Test_marked)
    have "find_from bm (i + 1) = Inr (-1, bm)"
      using "1.prems" by (intro "1.IH" [OF True t]) auto
    with True t show ?thesis by (simp add: find_from.simps [of bm i])
  next
    case False
    then show ?thesis by (simp add: find_from.simps [of bm i])
  qed
qed

lemma find_from_first:
  "bm_wf bm \<Longrightarrow> 0 \<le> i \<Longrightarrow> i \<le> k \<Longrightarrow> k < numBits bm \<Longrightarrow> k \<notin> marked bm \<Longrightarrow> {i..<k} \<subseteq> marked bm \<Longrightarrow>
   find_from bm i = rbind (Mark bm k) (\<lambda>bm'. Inr (k, bm'))"
proof (induction bm i rule: find_from.induct)
  case (1 bm i)
  from "1.prems" have lt: "i < numBits bm" by simp
  show ?case
  proof (cases "i = k")
    case True
    with "1.prems" lt show ?thesis by (simp add: find_from.simps [of bm k] Test_marked)
  next
    case False
    with "1.prems" have "i \<in> marked bm" by auto
    then have t: "Test bm i = Inr True" using "1.prems" lt by (simp add: Test_marked)
    have "find_from bm (i + 1) = rbind (Mark bm k) (\<lambda>bm'. Inr (k, bm'))"
      using "1.prems" False by (intro "1.IH" [OF lt t]) auto
    with lt t show ?thesis by (simp add: find_from.simps [of bm i])
  qed
qed

lemma Find_full: "bm_wf bm \<Longrightarrow> marked bm = {0..<numBits bm} \<Longrightarrow> Find bm = Inr (-1, bm)"
  by (simp add: Find_def find_from_full)

lemma Find_least:
  assumes "bm_wf bm" "marked bm \<noteq> {0..<numBits bm}"
  shows "\<exists>k bm'. Find bm = Inr (k, bm') \<and> k \<in> {0..<numBits bm} - marked bm \<and> {0..<k} \<subseteq> marked bm
    \<and> bm_wf bm' \<and> numBits bm' = numBits bm \<and> marked bm' = insert k (marked bm)"
proof -
  let ?F = "{0..<numBits bm} - marked bm"
  have ne: "?F \<noteq> {}" using assms(2) marked_range [of bm] by blast
  define k where "k = Min ?F"
  have k: "k \<in> ?F" using ne Min_in [of ?F] by (simp add: k_def)
  have low: "{0..<k} \<subseteq> marked bm"
  proof
    fix j assume j: "j \<in> {0..<k}"
    show "j \<in> marked bm"
    proof (rule ccontr)
      assume "j \<notin> marked bm"
      with j k have "j \<in> ?F" by auto
      then have "k \<le> j" unfolding k_def by (intro Min_le) auto
      with j show False by simp
    qed
  qed
  have "Find bm = rbind (Mark bm k) (\<lambda>bm'. Inr (k, bm'))"
    unfolding Find_def using assms(1) k low by (intro find_from_first) auto
  moreover obtain bm' where "Mark bm k = Inr bm'" "bm_wf bm'" "numBits bm' = numBits bm"
      "marked bm' = insert k (marked bm)"
    using Mark_marked [OF assms(1), of k] k by auto
  ultimately show ?thesis using k low by auto
qed

lemma num_clear_from_card:
  "bm_wf bm \<Longrightarrow> 0 \<le> i \<Longrightarrow> num_clear_from bm i c = Inr (c + int (card ({i..<numBits bm} - marked bm)))"
proof (induction bm i c rule: num_clear_from.induct)
  case (1 bm i c)
  show ?case
  proof (cases "i < numBits bm")
    case True
    let ?t = "i \<in> marked bm"
    have t: "Test bm i = Inr ?t" using "1.prems" True by (simp add: Test_marked)
    have "{i..<numBits bm} = insert i {i + 1..<numBits bm}" using True by auto
    then have card: "int (card ({i..<numBits bm} - marked bm))
        = (if ?t then 0 else 1) + int (card ({i + 1..<numBits bm} - marked bm))"
      by (simp add: insert_Diff_if)
    have "num_clear_from bm (i + 1) (if \<not> ?t then c + 1 else c)
        = Inr ((if \<not> ?t then c + 1 else c) + int (card ({i + 1..<numBits bm} - marked bm)))"
      using "1.prems" by (intro "1.IH" [OF True t]) simp_all
    then show ?thesis using True t card by (simp add: num_clear_from.simps [of bm i])
  next
    case False
    then show ?thesis by (simp add: num_clear_from.simps [of bm i])
  qed
qed

lemma NumClear_card: "bm_wf bm \<Longrightarrow> NumClear bm = Inr (int (card ({0..<numBits bm} - marked bm)))"
  by (simp add: NumClear_def num_clear_from_card)

lemma clear_from_marked:
  "bm_wf bm \<Longrightarrow> 0 \<le> i \<Longrightarrow> i + int n \<le> numBits bm \<Longrightarrow>
   \<exists>bm'. clear_from bm i n = Inr bm' \<and> bm_wf bm' \<and> numBits bm' = numBits bm
     \<and> marked bm' = marked bm - {i..<i + int n}"
proof (induction n arbitrary: bm i)
  case 0
  then show ?case by simp
next
  case (Suc n)
  obtain bm1 where c: "Clear bm i = Inr bm1" and w: "bm_wf bm1" "numBits bm1 = numBits bm"
      "marked bm1 = marked bm - {i}"
    using Clear_marked [of bm i] Suc.prems by auto
  have "{i..<i + int (Suc n)} = insert i {i + 1..<i + 1 + int n}" by auto
  then have "marked bm - {i..<i + int (Suc n)} = marked bm1 - {i + 1..<i + 1 + int n}"
    using w(3) by auto
  moreover have "\<exists>bm'. clear_from bm1 (i + 1) n = Inr bm' \<and> bm_wf bm' \<and> numBits bm' = numBits bm1
     \<and> marked bm' = marked bm1 - {i + 1..<i + 1 + int n}"
    using Suc.prems w by (intro Suc.IH) auto
  ultimately show ?case using c w by auto
qed

section \<open>The allocator interface on bitmaps\<close>

interpretation bm: slot_allocator bm_wf numBits marked Find Test Clear
proof (unfold_locales, goal_cases)
  case (1 b) show ?case by (rule marked_range)
next
  case (2 b) then show ?case using Find_least [of b] by blast
next
  case (3 b) then show ?case by (rule Find_full)
next
  case (4 b i) then show ?case by (simp add: Test_marked)
next
  case (5 b i) then show ?case using Clear_marked [of b i] by auto
qed

lemma NumClear_free: "bm_wf bm \<Longrightarrow> NumClear bm = Inr (int (card (bm.free bm)))"
  by (simp add: NumClear_card bm.free_def)

section \<open>The memory image\<close>

lemma length_map_bytes [simp]: "length (map_bytes bm) = 4 * length (bwords bm)"
  by (simp add: map_bytes_def)

lemma word_of_int_s32: "(word_of_int (s32 x) :: 32 word) = word_of_int x"
  unfolding s32_def word_of_int_eq_iff take_bit_eq_mod by (simp add: mod_diff_left_eq)

lemma un_ints_map_bytes:
  "map word_of_int (un_ints (length ws) (ints_bytes (map uint ws) @ rest)) = (ws :: 32 word list)"
  by (induction ws) (simp_all add: ints_bytes_def un_le32_le32 word_of_int_s32)

lemma load_map_full: "length bs = 4 * length (bwords bm) \<Longrightarrow>
    load_map bm bs = bm\<lparr>bwords := map word_of_int (un_ints (length (bwords bm)) bs)\<rparr>"
  by (simp add: load_map_def)

section \<open>What the users of a bitmap rely on\<close>

text \<open>\<open>Find\<close> returns the least clear number and marks exactly that one; when every number is
  marked it returns \<open>-1\<close> and changes nothing.\<close>

theorem Find_spec:
  assumes "bm_wf bm"
  shows "\<exists>k bm'. Find bm = Inr (k, bm') \<and> bm_wf bm' \<and>
    (if marked bm = {0..<numBits bm} then k = -1 \<and> bm' = bm
     else k \<in> {0..<numBits bm} - marked bm \<and> {0..<k} \<subseteq> marked bm \<and> marked bm' = insert k (marked bm))"
  using Find_full [OF assms] Find_least [OF assms] assms by (cases "marked bm = {0..<numBits bm}") auto

theorem Find_spec_witness:
  "\<exists>k bm'. Find \<lparr>numBits = 40, numWords = 2, bwords = [-1, 1]\<rparr> = Inr (k, bm') \<and> bm_wf bm'"
proof -
  have "bm_wf \<lparr>numBits = 40, numWords = 2, bwords = [-1, 1]\<rparr>" by (simp add: bm_wf_def divRoundUp_def BitsInWord_def)
  from Find_spec [OF this] show ?thesis by blast
qed

text \<open>On a number in range, \<open>Mark\<close> adds it to the marked numbers, \<open>Clear\<close> removes it, \<open>Test\<close> says
  whether it is there, and \<open>NumClear\<close> counts the numbers that are not; a number out of range stops the
  kernel at the assertion.\<close>

theorem bitmap_set:
  assumes "bm_wf bm"
  shows "(if 0 \<le> i \<and> i < numBits bm
      then (\<exists>bm'. Mark bm i = Inr bm' \<and> bm_wf bm' \<and> numBits bm' = numBits bm \<and> marked bm' = insert i (marked bm))
        \<and> (\<exists>bm'. Clear bm i = Inr bm' \<and> bm_wf bm' \<and> numBits bm' = numBits bm \<and> marked bm' = marked bm - {i})
        \<and> Test bm i = Inr (i \<in> marked bm)
      else Mark bm i = Inl AssertFailed \<and> Clear bm i = Inl AssertFailed \<and> Test bm i = Inl AssertFailed)
    \<and> NumClear bm = Inr (int (card ({0..<numBits bm} - marked bm)))"
  using Mark_marked [OF assms, of i] Clear_marked [OF assms, of i] Test_marked [OF assms, of i] NumClear_card [OF assms]
  by (auto simp: Mark_def Clear_def Test_def ASSERT_def)

theorem bitmap_set_witness:
  "\<exists>bm'. Mark \<lparr>numBits = 40, numWords = 2, bwords = [-1, 1]\<rparr> 35 = Inr bm' \<and> 35 \<in> marked bm'"
  using bitmap_set [of "\<lparr>numBits = 40, numWords = 2, bwords = [-1, 1]\<rparr>" 35]
  by (auto simp: bm_wf_def divRoundUp_def BitsInWord_def)

text \<open>The words of a map that \<open>WriteBack\<close> puts into a file and \<open>FetchFrom\<close> reads into any map of
  the same size are the same map again.\<close>

theorem bitmap_roundtrip:
  assumes "length (bwords bm0) = length (bwords bm)"
  shows "load_map bm0 (map_bytes bm) = bm0\<lparr>bwords := bwords bm\<rparr>"
  using un_ints_map_bytes [of "bwords bm" "[]"] load_map_full [of "map_bytes bm" bm0] assms
  by (simp add: map_bytes_def)

theorem bitmap_roundtrip_witness:
  "load_map \<lparr>numBits = 40, numWords = 2, bwords = [0, 0]\<rparr> (map_bytes \<lparr>numBits = 40, numWords = 2, bwords = [7, 0x80000001]\<rparr>)
    = \<lparr>numBits = 40, numWords = 2, bwords = [7, 0x80000001]\<rparr>"
  using bitmap_roundtrip [of "\<lparr>numBits = 40, numWords = 2, bwords = [0, 0]\<rparr>" "\<lparr>numBits = 40, numWords = 2, bwords = [7, 0x80000001]\<rparr>"]
  by simp

end
