(* ===== verification/FileHeader.thy ===== *)
theory FileHeader
  imports Bitmap Disk
begin

text \<open>
  The file header, or i-node (filesys/filehdr.h, filesys/filehdr.cc), in the configuration of
  filesys/Makefile and vm/Makefile, \<open>USE_INDIRECT\<close>: 8 direct sectors, one single index table and
  one double index table, each table a sector of 32 sector numbers.

  \<open>Allocate\<close>, \<open>Deallocate\<close>, \<open>ByteToSector\<close> and \<open>ExpandFileSize\<close> are translated branch by
  branch. They work on the header, on the bitmap of free sectors, and on the sectors that hold
  the index tables. A C++ array local to a function is not initialised: its content is the
  parameter \<open>junk\<close>, and every theorem holds for all of them.
\<close>

section \<open>Constants and data\<close>

definition sizeof_int :: int where "sizeof_int = 4"

definition NumTimeString :: int where "NumTimeString = 3"
definition NumIntProperty :: int where "NumIntProperty = 2"
definition TimeStringLength :: int where "TimeStringLength = 25"
definition ExtensionLength :: int where "ExtensionLength = 5"
definition AllStringLength :: int where
  "AllStringLength = NumTimeString * TimeStringLength + ExtensionLength"

definition NumDataSectors :: int where
  "NumDataSectors = (SectorSize - NumIntProperty * sizeof_int - AllStringLength) div sizeof_int"
definition NumDirect :: int where "NumDirect = NumDataSectors - 2"
definition OneLevelIdx :: int where "OneLevelIdx = NumDataSectors - 2"
definition TwoLevelIdx :: int where "TwoLevelIdx = NumDataSectors - 1"
definition LevelNum :: int where "LevelNum = SectorSize div sizeof_int"

lemma hdr_consts:
  "NumDataSectors = 10" "NumDirect = 8" "OneLevelIdx = 8" "TwoLevelIdx = 9" "LevelNum = 32"
  by (simp_all add: NumDataSectors_def NumDirect_def OneLevelIdx_def TwoLevelIdx_def LevelNum_def
      SectorSize_def NumIntProperty_def sizeof_int_def AllStringLength_def NumTimeString_def
      TimeStringLength_def ExtensionLength_def)

record file_header =
  numBytes :: int
  numSectors :: int
  fileExtension :: "byte list"
  createTime :: "byte list"
  modifyTime :: "byte list"
  lastVisitTime :: "byte list"
  dataSectors :: "int list"
  headerSector :: int

section \<open>Index tables on disk\<close>

text \<open>An array \<open>int a[LevelNum]\<close> local to a function, before anything is stored in it.\<close>

type_synonym junk = "int \<Rightarrow> nat \<Rightarrow> 32 word"

definition local_array :: "junk \<Rightarrow> int \<Rightarrow> int list" where
  "local_array junk k = map (\<lambda>j. sint (junk k j)) [0..<nat LevelNum]"

definition read_table :: "store \<Rightarrow> int \<Rightarrow> int list res" where
  "read_table st s = rbind (ReadSector st s) (\<lambda>bs. Inr (un_ints (nat LevelNum) bs))"

definition write_table :: "store \<Rightarrow> int \<Rightarrow> int list \<Rightarrow> store res" where
  "write_table st s xs = WriteSector st s (ints_bytes xs)"

text \<open>The loop that allocates second-level tables \<open>i\<close>, \<open>i + 1\<close>, \dots, each with its data
  sectors, and writes each table to its sector.\<close>

fun fill_tables :: "junk \<Rightarrow> bitmap \<Rightarrow> store \<Rightarrow> int list \<Rightarrow> int \<Rightarrow> int \<Rightarrow> nat
    \<Rightarrow> (int list \<times> bitmap \<times> store) res" where
  "fill_tables junk bm st two left i 0 = Inr (two, bm, st)"
| "fill_tables junk bm st two left i (Suc n) =
     rbind (Find bm) (\<lambda>(s, bm1).
     rbind (aset two i s) (\<lambda>two'.
     rbind (fill Find bm1 (local_array junk i) 0 (nat (min LevelNum (left - i * LevelNum)))) (\<lambda>(single, bm2).
     rbind (write_table st s single) (\<lambda>st'.
     fill_tables junk bm2 st' two' left (i + 1) n))))"

section \<open>Allocate\<close>

definition Allocate :: "junk \<Rightarrow> file_header \<Rightarrow> bitmap \<Rightarrow> store \<Rightarrow> int
    \<Rightarrow> (bool \<times> file_header \<times> bitmap \<times> store) res" where
  "Allocate junk h freeMap st fileSize =
     (let ns = divRoundUp fileSize SectorSize;
          h1 = h\<lparr>numBytes := fileSize, numSectors := ns\<rparr>
      in rbind (NumClear freeMap) (\<lambda>numClear.
      if numClear < ns then Inr (False, h1, freeMap, st)
      else if u32 ns \<le> NumDirect then
        rbind (fill Find freeMap (dataSectors h1) 0 (nat ns)) (\<lambda>(ds, bm).
        Inr (True, h1\<lparr>dataSectors := ds\<rparr>, bm, st))
      else if u32 ns \<le> LevelNum + NumDirect then
        if numClear < ns + 1 then Inr (False, h1, freeMap, st)
        else
          rbind (fill Find freeMap (dataSectors h1) 0 (nat NumDirect)) (\<lambda>(ds, bm).
          rbind (Find bm) (\<lambda>(t1, bm).
          rbind (aset ds OneLevelIdx t1) (\<lambda>ds.
          rbind (fill Find bm (local_array junk (-1)) 0 (nat (ns - NumDirect))) (\<lambda>(one, bm).
          rbind (write_table st t1 one) (\<lambda>st.
          Inr (True, h1\<lparr>dataSectors := ds\<rparr>, bm, st))))))
      else if u32 ns \<le> LevelNum * LevelNum + LevelNum + NumDirect then
        let left = ns - NumDirect - LevelNum; second = divRoundUp left LevelNum
        in if numClear < ns + 1 + 1 + second then Inr (False, h1, freeMap, st)
        else
          rbind (fill Find freeMap (dataSectors h1) 0 (nat NumDirect)) (\<lambda>(ds, bm).
          rbind (Find bm) (\<lambda>(t1, bm).
          rbind (aset ds OneLevelIdx t1) (\<lambda>ds.
          rbind (fill Find bm (local_array junk (-1)) 0 (nat LevelNum)) (\<lambda>(one, bm).
          rbind (write_table st t1 one) (\<lambda>st.
          rbind (Find bm) (\<lambda>(t2, bm).
          rbind (aset ds TwoLevelIdx t2) (\<lambda>ds.
          rbind (fill_tables junk bm st (local_array junk (-2)) left 0 (nat second)) (\<lambda>(two, bm, st).
          rbind (write_table st t2 two) (\<lambda>st.
          Inr (True, h1\<lparr>dataSectors := ds\<rparr>, bm, st))))))))))
      else Inl AssertFailed))"

section \<open>Deallocate\<close>

text \<open>\<open>ASSERT(freeMap->Test(s)); freeMap->Clear(s);\<close>\<close>

definition release_one :: "bitmap \<Rightarrow> int \<Rightarrow> bitmap res" where
  "release_one bm s = rbind (Test bm s) (\<lambda>t. rbind (ASSERT t) (\<lambda>_. Clear bm s))"

function dealloc_tables :: "bitmap \<Rightarrow> store \<Rightarrow> int list \<Rightarrow> int \<Rightarrow> int \<Rightarrow> int \<Rightarrow> bitmap res" where
  "dealloc_tables bm st two ns direct_idx single_idx =
     (if direct_idx < ns \<and> single_idx < LevelNum
      then rbind (aget two single_idx) (\<lambda>t.
           rbind (read_table st t) (\<lambda>one.
           let k = min LevelNum (ns - direct_idx)
           in rbind (release Test Clear bm one 0 (nat k)) (\<lambda>bm.
              rbind (release_one bm t) (\<lambda>bm.
              dealloc_tables bm st two ns (direct_idx + k) (single_idx + 1)))))
      else Inr bm)"
  by pat_completeness auto
termination
  by (relation "measure (\<lambda>(bm, st, two, ns, d, s). nat (LevelNum - s))") auto

declare dealloc_tables.simps [simp del]

definition Deallocate :: "file_header \<Rightarrow> bitmap \<Rightarrow> store \<Rightarrow> bitmap res" where
  "Deallocate h freeMap st =
     (let ns = numSectors h; ds = dataSectors h in
      rbind (release Test Clear freeMap ds 0 (nat (min ns NumDirect))) (\<lambda>bm.
      if \<not> u32 ns > NumDirect then Inr bm
      else
        rbind (aget ds OneLevelIdx) (\<lambda>t1.
        rbind (read_table st t1) (\<lambda>one.
        rbind (release Test Clear bm one 0 (nat (min (ns - NumDirect) LevelNum))) (\<lambda>bm.
        rbind (release_one bm t1) (\<lambda>bm.
        if \<not> u32 ns > NumDirect + LevelNum then Inr bm
        else
          rbind (aget ds TwoLevelIdx) (\<lambda>t2.
          rbind (read_table st t2) (\<lambda>two.
          rbind (dealloc_tables bm st two ns (NumDirect + LevelNum) 0) (\<lambda>bm.
          release_one bm t2)))))))))"

section \<open>ByteToSector\<close>

definition ByteToSector :: "file_header \<Rightarrow> store \<Rightarrow> int \<Rightarrow> int res" where
  "ByteToSector h st offset =
     (let DirectSize = NumDirect * SectorSize;
          SingleSize = DirectSize + LevelNum * SectorSize
      in if offset < DirectSize then aget (dataSectors h) (offset sdiv SectorSize)
      else if offset < SingleSize then
        let idx = (offset - DirectSize) sdiv SectorSize
        in rbind (aget (dataSectors h) OneLevelIdx) (\<lambda>t1.
           rbind (read_table st t1) (\<lambda>one. aget one idx))
      else
        let TwoLevelNum = (offset - SingleSize) sdiv (LevelNum * SectorSize);
            TwoLevelOneNum = ((offset - SingleSize) smod (LevelNum * SectorSize)) sdiv SectorSize
        in rbind (aget (dataSectors h) TwoLevelIdx) (\<lambda>t2.
           rbind (read_table st t2) (\<lambda>two.
           rbind (aget two TwoLevelNum) (\<lambda>t.
           rbind (read_table st t) (\<lambda>one. aget one TwoLevelOneNum)))))"

definition FileLength :: "file_header \<Rightarrow> int" where
  "FileLength h = numBytes h"

section \<open>ExpandFileSize\<close>

definition ExpandFileSize :: "junk \<Rightarrow> file_header \<Rightarrow> bitmap \<Rightarrow> store \<Rightarrow> int
    \<Rightarrow> (bool \<times> file_header \<times> bitmap \<times> store) res" where
  "ExpandFileSize junk h freeMap st ExpandBytes =
     (if ExpandBytes < 0 then Inr (False, h, freeMap, st)
      else
      let ns = numSectors h; ds = dataSectors h;
          afterBytes = numBytes h + ExpandBytes;
          after = divRoundUp afterBytes SectorSize;
          delta = after - ns;
          left = after - NumDirect - LevelNum;
          second = divRoundUp left LevelNum;
          finish = (\<lambda>ds bm st. Inr (True, h\<lparr>numBytes := afterBytes, numSectors := after, dataSectors := ds\<rparr>, bm, st))
      in rbind (NumClear freeMap) (\<lambda>clear.
      if after = ns then Inr (True, h\<lparr>numBytes := afterBytes\<rparr>, freeMap, st)
      else if delta > clear then Inr (False, h, freeMap, st)
      else if u32 after \<le> NumDirect then
        rbind (fill Find freeMap ds ns (nat (after - ns))) (\<lambda>(ds, bm). finish ds bm st)
      else if u32 ns \<le> NumDirect \<and> u32 after \<le> NumDirect + LevelNum then
        if delta + 1 > clear then Inr (False, h, freeMap, st)
        else
          rbind (fill Find freeMap ds ns (nat (NumDirect - ns))) (\<lambda>(ds, bm).
          rbind (Find bm) (\<lambda>(t1, bm).
          rbind (aset ds OneLevelIdx t1) (\<lambda>ds.
          rbind (fill Find bm (local_array junk (-1)) 0 (nat (after - NumDirect))) (\<lambda>(one, bm).
          rbind (write_table st t1 one) (\<lambda>st. finish ds bm st)))))
      else if u32 after \<le> NumDirect + LevelNum then
        rbind (aget ds OneLevelIdx) (\<lambda>t1.
        rbind (read_table st t1) (\<lambda>one.
        rbind (fill Find freeMap one (ns - NumDirect) (nat (after - ns))) (\<lambda>(one, bm).
        rbind (write_table st t1 one) (\<lambda>st. finish ds bm st))))
      else if u32 ns \<le> NumDirect \<and> u32 after \<le> NumDirect + LevelNum + LevelNum * LevelNum then
        if clear < ns + 1 + 1 + second then Inr (False, h, freeMap, st)
        else
          rbind (fill Find freeMap ds ns (nat (NumDirect - ns))) (\<lambda>(ds, bm).
          rbind (Find bm) (\<lambda>(t1, bm).
          rbind (aset ds OneLevelIdx t1) (\<lambda>ds.
          rbind (fill Find bm (local_array junk (-1)) 0 (nat LevelNum)) (\<lambda>(one, bm).
          rbind (write_table st t1 one) (\<lambda>st.
          rbind (Find bm) (\<lambda>(t2, bm).
          rbind (aset ds TwoLevelIdx t2) (\<lambda>ds.
          rbind (fill_tables junk bm st (local_array junk (-2)) left 0 (nat second)) (\<lambda>(two, bm, st).
          rbind (write_table st t2 two) (\<lambda>st. finish ds bm st)))))))))
      else if u32 ns \<le> NumDirect + LevelNum \<and> u32 after \<le> NumDirect + LevelNum + LevelNum * LevelNum then
        if clear < ns + 1 + second then Inr (False, h, freeMap, st)
        else
          rbind (aget ds OneLevelIdx) (\<lambda>t1.
          rbind (read_table st t1) (\<lambda>one.
          rbind (fill Find freeMap one (ns - NumDirect) (nat (LevelNum - (ns - NumDirect)))) (\<lambda>(one, bm).
          rbind (write_table st t1 one) (\<lambda>st.
          rbind (Find bm) (\<lambda>(t2, bm).
          rbind (aset ds TwoLevelIdx t2) (\<lambda>ds.
          rbind (fill_tables junk bm st (local_array junk (-2)) left 0 (nat second)) (\<lambda>(two, bm, st).
          rbind (write_table st t2 two) (\<lambda>st. finish ds bm st))))))))
      else if u32 after \<le> NumDirect + LevelNum + LevelNum * LevelNum then
        let prevLeft = ns - NumDirect - LevelNum; prevSecond = divRoundUp prevLeft LevelNum;
            start = prevLeft smod LevelNum
        in rbind (aget ds TwoLevelIdx) (\<lambda>t2.
           rbind (read_table st t2) (\<lambda>two.
           if second = prevSecond then
             rbind (aget two (prevSecond - 1)) (\<lambda>t.
             rbind (read_table st t) (\<lambda>single.
             rbind (fill Find freeMap single start (nat (left - (second - 1) * LevelNum - start))) (\<lambda>(single, bm).
             rbind (write_table st t single) (\<lambda>st. finish ds bm st))))
           else if delta + 1 > clear then Inr (False, h, freeMap, st)
           else
             rbind (aget two (prevSecond - 1)) (\<lambda>t.
             rbind (read_table st t) (\<lambda>single.
             rbind (fill Find freeMap single start (nat (if start > 0 then LevelNum - start else 0))) (\<lambda>(single, bm).
             rbind (write_table st t single) (\<lambda>st.
             rbind (fill_tables junk bm st two left prevSecond (nat (second - prevSecond))) (\<lambda>(two, bm, st).
             rbind (write_table st t2 two) (\<lambda>st. finish ds bm st))))))))
      else Inl AssertFailed))"

section \<open>The header on disk\<close>

text \<open>
  \<open>FetchFrom\<close> and \<open>WriteBack\<close> copy one sector between the disk and the first \<open>SectorSize\<close>
  bytes of the object: the two integers, the four character arrays and the sector numbers, in
  the order of the class; \<open>headerSector\<close> lies behind them and is not stored.
\<close>

definition header_bytes :: "file_header \<Rightarrow> byte list" where
  "header_bytes h = le32 (numBytes h) @ le32 (numSectors h) @ fileExtension h @ createTime h
     @ modifyTime h @ lastVisitTime h @ ints_bytes (dataSectors h)"

definition HdrWriteBack :: "file_header \<Rightarrow> store \<Rightarrow> int \<Rightarrow> store res" where
  "HdrWriteBack h st sector = WriteSector st sector (header_bytes h)"

definition HdrFetchFrom :: "file_header \<Rightarrow> store \<Rightarrow> int \<Rightarrow> file_header res" where
  "HdrFetchFrom h st sector =
     rbind (ReadSector st sector) (\<lambda>bs. Inr
       (h\<lparr>numBytes := un_le32 (take 4 bs), numSectors := un_le32 (take 4 (drop 4 bs)),
          fileExtension := take 5 (drop 8 bs), createTime := take 25 (drop 13 bs),
          modifyTime := take 25 (drop 38 bs), lastVisitTime := take 25 (drop 63 bs),
          dataSectors := un_ints (nat NumDataSectors) (drop 88 bs)\<rparr>))"

end
