(* ===== verification/FileLayout.thy ===== *)
theory FileLayout
  imports FileHeader "HOL-Library.Multiset"
begin

text \<open>
  What the header operations do to the file: the abstraction of a header with its index tables
  to the list of the file's sectors (\<open>blocks\<close>) and the list of the sectors that hold its index
  tables (\<open>tables\<close>), and the proofs that \<open>Allocate\<close>, \<open>ByteToSector\<close>, \<open>Deallocate\<close> and
  \<open>ExpandFileSize\<close> act on these lists as a file system needs.
\<close>

section \<open>The sectors of a file\<close>

definition tbl :: "store \<Rightarrow> int \<Rightarrow> int list" where
  "tbl st s = un_ints 32 (st s)"

definition block_at :: "store \<Rightarrow> int list \<Rightarrow> nat \<Rightarrow> int" where
  "block_at st ds k =
     (if k < 8 then ds ! k
      else if k < 40 then tbl st (ds ! 8) ! (k - 8)
      else tbl st (tbl st (ds ! 9) ! ((k - 40) div 32)) ! ((k - 40) mod 32))"

definition blocks_of :: "store \<Rightarrow> int list \<Rightarrow> nat \<Rightarrow> int list" where
  "blocks_of st ds n = map (block_at st ds) [0..<n]"

definition tables_of :: "store \<Rightarrow> int list \<Rightarrow> nat \<Rightarrow> int list" where
  "tables_of st ds n =
     (if 8 < n then [ds ! 8] else [])
     @ (if 40 < n then ds ! 9 # take ((n - 40 + 31) div 32) (tbl st (ds ! 9)) else [])"

definition blocks :: "store \<Rightarrow> file_header \<Rightarrow> int list" where
  "blocks st h = blocks_of st (dataSectors h) (nat (numSectors h))"

definition tables :: "store \<Rightarrow> file_header \<Rightarrow> int list" where
  "tables st h = tables_of st (dataSectors h) (nat (numSectors h))"

definition owned :: "store \<Rightarrow> file_header \<Rightarrow> int list" where
  "owned st h = blocks st h @ tables st h"

text \<open>A bitmap of the disk's sectors.\<close>

definition disk_map :: "bitmap \<Rightarrow> bool" where
  "disk_map bm \<longleftrightarrow> bm_wf bm \<and> numBits bm = NumSectors"

text \<open>A header in good order: no sector is used twice, and every sector it uses is marked.\<close>

definition file_ok :: "store \<Rightarrow> bitmap \<Rightarrow> file_header \<Rightarrow> bool" where
  "file_ok st bm h \<longleftrightarrow> int (length (dataSectors h)) = NumDataSectors \<and> 0 \<le> numSectors h
     \<and> numSectors h \<le> NumDirect + LevelNum + LevelNum * LevelNum
     \<and> distinct (owned st h) \<and> set (owned st h) \<subseteq> marked bm"

lemma length_tbl [simp]: "length (tbl st s) = 32"
  by (simp add: tbl_def)

lemma length_blocks_of [simp]: "length (blocks_of st ds n) = n"
  by (simp add: blocks_of_def)

lemma length_local_array [simp]: "length (local_array junk k) = 32"
  by (simp add: local_array_def hdr_consts)

lemma local_array_int32: "x \<in> set (local_array junk k) \<Longrightarrow> in_int32 x"
  using sint_ge [where 'a=32] sint_lt [where 'a=32] by (auto simp: local_array_def in_int32_def)

lemma disk_map_card_free: "disk_map bm \<Longrightarrow> card (bm.free bm) \<le> 1024"
  using card_mono [of "{0..<1024::int}" "bm.free bm"]
  by (auto simp: disk_map_def bm.free_def disk_consts)

lemma disk_map_sector: "disk_map bm \<Longrightarrow> s \<in> marked bm \<Longrightarrow> 0 \<le> s \<and> s < NumSectors"
  using marked_range [of bm] by (auto simp: disk_map_def)

lemma took_range: "disk_map bm \<Longrightarrow> bm.took bm xs bm' \<Longrightarrow> s \<in> set xs \<Longrightarrow> 0 \<le> s \<and> s < NumSectors"
  by (auto simp: bm.took_def bm.free_def disk_map_def)

lemma took_disk_map: "disk_map bm \<Longrightarrow> bm.took bm xs bm' \<Longrightarrow> disk_map bm'"
  by (simp add: bm.took_def disk_map_def)

lemma sector_int32: "0 \<le> s \<Longrightarrow> s < NumSectors \<Longrightarrow> in_int32 s"
  by (simp add: in_int32_def disk_consts)

lemma took_mset: "mset xs = mset ys \<Longrightarrow> bm.took b xs b' \<Longrightarrow> bm.took b ys b'"
  unfolding bm.took_def by (metis mset_eq_imp_distinct_iff mset_eq_setD)

section \<open>Reading and writing index tables\<close>

lemma read_table_ok: "0 \<le> s \<Longrightarrow> s < NumSectors \<Longrightarrow> read_table st s = Inr (tbl st s)"
  by (simp add: read_table_def ReadSector_def tbl_def hdr_consts)

lemma write_table_ok:
  "0 \<le> s \<Longrightarrow> s < NumSectors \<Longrightarrow> length xs = 32 \<Longrightarrow> write_table st s xs = Inr (st(s := ints_bytes xs))"
  by (simp add: write_table_def WriteSector_def SectorSize_def)

lemma tbl_write: "length xs = 32 \<Longrightarrow> \<forall>x \<in> set xs. in_int32 x \<Longrightarrow> tbl (st(s := ints_bytes xs)) s = xs"
  using un_ints_ints_bytes [of xs "[]"] by (simp add: tbl_def)

lemma tbl_other: "s \<noteq> t \<Longrightarrow> tbl (st(t := bs)) s = tbl st s"
  by (simp add: tbl_def)

lemma tbl_int32: "x \<in> set (tbl st s) \<Longrightarrow> in_int32 x"
proof -
  have "x \<in> set (un_ints n bs) \<Longrightarrow> in_int32 x" for n bs
    by (induction n arbitrary: bs) (auto simp: un_le32_in_range)
  then show "x \<in> set (tbl st s) \<Longrightarrow> in_int32 x" by (simp add: tbl_def)
qed

lemma store_wf_upd: "store_wf st \<Longrightarrow> length xs = 32 \<Longrightarrow> store_wf (st(s := ints_bytes xs))"
  by (simp add: store_wf_def SectorSize_def)

section \<open>Blocks by level\<close>

lemma blocks_direct: "n \<le> 8 \<Longrightarrow> length ds = 10 \<Longrightarrow> blocks_of st ds n = take n ds"
  by (rule nth_equalityI) (auto simp: blocks_of_def block_at_def)

lemma blocks_single:
  "8 \<le> n \<Longrightarrow> n \<le> 40 \<Longrightarrow> length ds = 10 \<Longrightarrow> blocks_of st ds n = take 8 ds @ take (n - 8) (tbl st (ds ! 8))"
  by (rule nth_equalityI) (auto simp: blocks_of_def block_at_def nth_append)

lemma blocks_double:
  "40 \<le> n \<Longrightarrow> length ds = 10 \<Longrightarrow> blocks_of st ds n = take 8 ds @ tbl st (ds ! 8)
     @ map (\<lambda>k. tbl st (tbl st (ds ! 9) ! (k div 32)) ! (k mod 32)) [0..<n - 40]"
  by (rule nth_equalityI) (auto simp: blocks_of_def block_at_def nth_append)

text \<open>Chunks of 32, the last possibly shorter.\<close>

definition chunked :: "nat \<Rightarrow> int list list \<Rightarrow> bool" where
  "chunked len yss \<longleftrightarrow> (\<forall>q < length yss. length (yss ! q) = min 32 (len - 32 * q)) \<and> length yss = (len + 31) div 32"

lemma chunked_nth:
  "chunked len yss \<Longrightarrow> map (\<lambda>k. yss ! (k div 32) ! (k mod 32)) [0..<len] = concat yss"
proof (induction yss arbitrary: len)
  case Nil
  then show ?case by (simp add: chunked_def)
next
  case (Cons ys yss)
  have len: "0 < len" using Cons.prems by (cases len) (simp_all add: chunked_def)
  have ys: "length ys = min 32 len" using Cons.prems by (force simp: chunked_def)
  have sub: "chunked (len - 32) yss"
  proof -
    have "length yss = (len - 32 + 31) div 32" using Cons.prems len by (simp add: chunked_def) linarith
    moreover have "length (yss ! q) = min 32 (len - 32 - 32 * q)" if "q < length yss" for q
      using Cons.prems that by (force simp: chunked_def)
    ultimately show ?thesis by (simp add: chunked_def)
  qed
  have split: "[0..<len] = [0..<min 32 len] @ map (\<lambda>k. k + 32) [0..<len - 32]"
    by (rule nth_equalityI) (auto simp: nth_append min_def)
  have a: "map (\<lambda>k. (ys # yss) ! (k div 32) ! (k mod 32)) [0..<min 32 len] = ys"
    using ys by (intro nth_equalityI) auto
  have b: "map (\<lambda>k. (ys # yss) ! (k div 32) ! (k mod 32)) (map (\<lambda>k. k + 32) [0..<len - 32]) = concat yss"
  proof -
    have "(k + 32) div 32 = Suc (k div 32)" for k :: nat by simp
    then show ?thesis using Cons.IH [OF sub] by (simp add: comp_def)
  qed
  show ?case unfolding split map_append a b by simp
qed

lemma chunked_index:
  assumes "chunked len yss" "i < len"
  shows "i div 32 < length yss" "i mod 32 < length (yss ! (i div 32))"
proof -
  show q: "i div 32 < length yss" using assms by (simp add: chunked_def)
  have e: "32 * (i div 32) + i mod 32 = i" and m: "i mod 32 < 32" by simp_all
  have "length (yss ! (i div 32)) = min 32 (len - 32 * (i div 32))"
    using assms(1) q by (simp add: chunked_def)
  moreover have "i mod 32 < len - 32 * (i div 32)" using assms(2) e by linarith
  ultimately show "i mod 32 < length (yss ! (i div 32))" using m by simp
qed

lemma blocks_chunked:
  assumes "40 \<le> n" "length ds = 10" "chunked (n - 40) yss"
    and "\<And>q. q < length yss \<Longrightarrow> take (length (yss ! q)) (tbl st (tbl st (ds ! 9) ! q)) = yss ! q"
  shows "blocks_of st ds n = take 8 ds @ tbl st (ds ! 8) @ concat yss"
proof -
  have "tbl st (tbl st (ds ! 9) ! (k div 32)) ! (k mod 32) = yss ! (k div 32) ! (k mod 32)" if "k < n - 40" for k
  proof -
    note q = chunked_index [OF assms(3) that]
    from q(2) show ?thesis using assms(4) [OF q(1)] by (metis nth_take)
  qed
  then have "map (\<lambda>k. tbl st (tbl st (ds ! 9) ! (k div 32)) ! (k mod 32)) [0..<n - 40] = concat yss"
    unfolding chunked_nth [OF assms(3), symmetric] by simp
  then show ?thesis by (simp add: blocks_double assms(1,2))
qed

section \<open>Allocating second-level tables\<close>

definition interleave :: "int list \<Rightarrow> int list list \<Rightarrow> int list" where
  "interleave xs yss = concat (map2 (#) xs yss)"

lemma interleave_simps [simp]:
  "interleave [] yss = []" "interleave (x # xs) (ys # yss) = x # ys @ interleave xs yss"
  by (simp_all add: interleave_def)

lemma mset_interleave: "length xs = length yss \<Longrightarrow> mset (interleave xs yss) = mset (concat yss @ xs)"
  by (induction xs yss rule: list_induct2) (simp_all add: union_ac)

text \<open>How many data sectors the tables \<open>i\<close>, \dots, \<open>i + n - 1\<close> hold of a total of \<open>len\<close>.\<close>

definition chunk_need :: "nat \<Rightarrow> nat \<Rightarrow> nat \<Rightarrow> nat" where
  "chunk_need len i n = min (32 * (i + n)) len - 32 * i"

lemma fill_tables_spec:
  assumes "disk_map bm" "store_wf st" "length two = 32" "i + n \<le> 32" "n = 0 \<or> 32 * (i + n - 1) < len"
    and "n + chunk_need len i n \<le> card (bm.free bm)"
  shows "\<exists>xs yss bm' st'.
      fill_tables junk bm st two (int len) (int i) n = Inr (take i two @ xs @ drop (i + n) two, bm', st')
    \<and> length xs = n \<and> length yss = n \<and> (\<forall>q < n. length (yss ! q) = min 32 (len - 32 * (i + q)))
    \<and> bm.took bm (interleave xs yss) bm'
    \<and> (\<forall>q < n. take (length (yss ! q)) (tbl st' (xs ! q)) = yss ! q)
    \<and> (\<forall>s. s \<notin> set xs \<longrightarrow> st' s = st s) \<and> store_wf st'"
  using assms
proof (induction n arbitrary: bm st two i)
  case 0
  have "bm.took bm [] bm" using "0.prems" by (auto simp: disk_map_def)
  with "0.prems" show ?case
    by (intro exI [of _ "[]"] exI [of _ bm] exI [of _ st]) simp
next
  case (Suc n)
  let ?c = "min 32 (len - 32 * i)"
  have wf: "bm_wf bm" using Suc.prems by (simp add: disk_map_def)
  have need: "Suc n + chunk_need len i (Suc n) = 1 + ?c + (n + chunk_need len (i + 1) n)"
    using Suc.prems(5) by (auto simp: chunk_need_def min_def)
  have pos: "0 < card (bm.free bm)" using Suc.prems(6) by simp
  obtain s bm1 where f: "Find bm = Inr (s, bm1)" and t1: "bm.took bm [s] bm1"
    using bm.find_took [OF wf pos] by blast
  have s: "0 \<le> s" "s < NumSectors" using took_range [OF Suc.prems(1) t1, of s] by auto
  have dm1: "disk_map bm1" using took_disk_map Suc.prems(1) t1 by blast
  have c1: "card (bm.free bm1) = card (bm.free bm) - 1" using bm.took_card_free [OF t1] by simp
  have len32: "int ?c = min LevelNum (int len - int i * LevelNum)"
    using Suc.prems(5) by (auto simp: hdr_consts min_def)
  have cn: "?c \<le> card (bm.free bm1)" using c1 need Suc.prems(6) by linarith
  obtain ys bm2 where g: "fill Find bm1 (local_array junk (int i)) 0 ?c
      = Inr (ys @ drop ?c (local_array junk (int i)), bm2)" and ys: "length ys = ?c" and t2: "bm.took bm1 ys bm2"
    using bm.fill_took [of bm1 ?c 0 "local_array junk (int i)"] dm1 cn
    by (auto simp: disk_map_def)
  let ?single = "ys @ drop ?c (local_array junk (int i))"
  have dm2: "disk_map bm2" using took_disk_map dm1 t2 by blast
  have ls: "length ?single = 32" using ys by simp
  let ?st = "st(s := ints_bytes ?single)"
  have w: "write_table st s ?single = Inr ?st" using write_table_ok s ls by blast
  have "\<forall>x \<in> set ys. in_int32 x" using took_range [OF dm1 t2] sector_int32 by blast
  then have tb: "tbl ?st s = ?single"
    using local_array_int32 by (intro tbl_write [OF ls]) (auto dest: in_set_dropD)
  have stwf: "store_wf ?st" using store_wf_upd Suc.prems(2) ls by blast
  let ?two = "two[i := s]"
  have rest: "n + chunk_need len (i + 1) n \<le> card (bm.free bm2)"
    using bm.took_card_free [OF t2] c1 ys need Suc.prems(6) by linarith
  have pr: "length ?two = 32" "i + 1 + n \<le> 32" "n = 0 \<or> 32 * (i + 1 + n - 1) < len"
    using Suc.prems(3-5) by auto
  obtain xs yss bm3 st' where
      r: "fill_tables junk bm2 ?st ?two (int len) (int (i + 1)) n
        = Inr (take (i + 1) ?two @ xs @ drop (i + 1 + n) ?two, bm3, st')"
    and l: "length xs = n" "length yss = n" "\<forall>q < n. length (yss ! q) = min 32 (len - 32 * (i + 1 + q))"
    and t3: "bm.took bm2 (interleave xs yss) bm3"
    and tq: "\<forall>q < n. take (length (yss ! q)) (tbl st' (xs ! q)) = yss ! q"
    and fr: "\<forall>s. s \<notin> set xs \<longrightarrow> st' s = ?st s" and wf': "store_wf st'"
    using Suc.IH [OF dm2 stwf pr rest] by blast
  have took: "bm.took bm (interleave (s # xs) (ys # yss)) bm3"
    using bm.took_append [OF bm.took_append [OF t1 t2] t3] by simp
  then have "distinct (interleave (s # xs) (ys # yss))" by (simp add: bm.took_def)
  then have "distinct (concat (ys # yss) @ s # xs)"
    using mset_interleave [of "s # xs" "ys # yss"] l by (metis length_Cons mset_eq_imp_distinct_iff)
  then have sx: "s \<notin> set xs" by simp
  then have "tbl st' s = ?single" using fr tb by (simp add: tbl_def)
  then have hd_ok: "take (length ys) (tbl st' s) = ys" by simp
  have tw: "aset two (int i) s = Inr ?two" "aget ?two (int i) = Inr s"
    using Suc.prems(3,4) by (simp_all add: aset_ok aget_ok)
  have res: "fill_tables junk bm st two (int len) (int i) (Suc n)
      = Inr (take i two @ (s # xs) @ drop (i + Suc n) two, bm3, st')"
    using f tw g w r len32 [symmetric] Suc.prems(3,4) set_take_drop_update [of i two s]
    by (simp add: add.commute del: fun_upd_apply)
  show ?case
    using res l ys took hd_ok tq fr sx wf'
    by (intro exI [of _ "s # xs"] exI [of _ "ys # yss"] exI [of _ bm3] exI [of _ st'])
       (auto simp: nth_Cons' less_Suc_eq_0_disj)
qed

section \<open>Growing a file\<close>

text \<open>
  \<open>grown\<close> relates a file of \<open>p\<close> sectors to the same file with \<open>n\<close>: its first \<open>p\<close> sectors are
  kept in order, the further ones and the further index tables were free, all are different,
  and only index tables are written.
\<close>

definition grown :: "bitmap \<Rightarrow> store \<Rightarrow> int list \<Rightarrow> nat \<Rightarrow> bitmap \<Rightarrow> store \<Rightarrow> int list \<Rightarrow> nat \<Rightarrow> bool" where
  "grown bm st ds p bm' st' ds' n \<longleftrightarrow> length ds' = 10 \<and> store_wf st' \<and>
     (\<exists>bs ts. blocks_of st' ds' n = blocks_of st ds p @ bs
        \<and> mset (tables_of st' ds' n) = mset (tables_of st ds p) + mset ts
        \<and> bm.took bm (bs @ ts) bm'
        \<and> (\<forall>s. s \<notin> set (tables_of st' ds' n) \<longrightarrow> st' s = st s))"

lemma grownI:
  assumes "length ds' = 10" "store_wf st'" "blocks_of st' ds' n = blocks_of st ds p @ bs"
    and "mset (tables_of st' ds' n) = mset (tables_of st ds p) + mset ts" "bm.took bm xs bm'"
    and "mset xs = mset (bs @ ts)" "\<And>s. s \<notin> set (tables_of st' ds' n) \<Longrightarrow> st' s = st s"
  shows "grown bm st ds p bm' st' ds' n"
  using assms took_mset [OF assms(6,5)] unfolding grown_def by blast

lemma took_int32: "disk_map bm \<Longrightarrow> bm.took bm xs bm' \<Longrightarrow> \<forall>x \<in> set xs. in_int32 x"
  using took_range sector_int32 by blast

lemma array_int32: "\<forall>x \<in> set xs. in_int32 x \<Longrightarrow> \<forall>x \<in> set (xs @ drop n (local_array junk k)). in_int32 x"
  using local_array_int32 by (auto dest: in_set_dropD)

text \<open>Filling an array that has room, from free slots.\<close>

lemma fill_disk:
  assumes "disk_map bm" "p \<le> e" "e \<le> length arr" "e - p \<le> card (bm.free bm)"
  shows "\<exists>xs bm'. fill Find bm arr (int p) (e - p) = Inr (take p arr @ xs @ drop e arr, bm')
    \<and> length xs = e - p \<and> bm.took bm xs bm' \<and> disk_map bm' \<and> card (bm.free bm') = card (bm.free bm) - (e - p)"
proof -
  have wf: "bm_wf bm" using assms(1) by (simp add: disk_map_def)
  have le: "int p + int (e - p) \<le> int (length arr)" using assms(2,3) by linarith
  obtain xs bm' where f: "fill Find bm arr (int p) (e - p) = Inr (take p arr @ xs @ drop e arr, bm')"
    and xs: "length xs = e - p" "bm.took bm xs bm'"
    using bm.fill_took [OF wf assms(4) _ le] assms(2) by auto
  show ?thesis using f xs took_disk_map [OF assms(1) xs(2)] bm.took_card_free [OF xs(2)] by auto
qed

lemma find_disk:
  assumes "disk_map bm" "0 < card (bm.free bm)"
  shows "\<exists>s bm'. Find bm = Inr (s, bm') \<and> bm.took bm [s] bm' \<and> disk_map bm'
    \<and> card (bm.free bm') = card (bm.free bm) - 1 \<and> 0 \<le> s \<and> s < NumSectors"
proof -
  have "bm_wf bm" using assms(1) by (simp add: disk_map_def)
  from bm.find_took [OF this assms(2)] obtain s bm' where f: "Find bm = Inr (s, bm')" "bm.took bm [s] bm'" by blast
  then show ?thesis using took_disk_map [OF assms(1) f(2)] bm.took_card_free [OF f(2)] took_range [OF assms(1) f(2), of s]
    by auto
qed

subsection \<open>Within the direct sectors\<close>

lemma grow_direct:
  assumes "disk_map bm" "store_wf st" "length ds = 10" "p \<le> n" "n \<le> 8" "n - p \<le> card (bm.free bm)"
  shows "\<exists>ds' bm'. fill Find bm ds (int p) (n - p) = Inr (ds', bm') \<and> grown bm st ds p bm' st ds' n"
proof -
  have "n \<le> length ds" using assms(3,5) by simp
  then obtain xs bm' where f: "fill Find bm ds (int p) (n - p) = Inr (take p ds @ xs @ drop n ds, bm')"
    and xs: "length xs = n - p" "bm.took bm xs bm'"
    using fill_disk [OF assms(1,4) _ assms(6)] by blast
  let ?ds = "take p ds @ xs @ drop n ds"
  have "grown bm st ds p bm' st ?ds n"
    using assms xs
    by (intro grownI [where bs = xs and ts = "[]" and xs = xs])
       (auto simp: blocks_direct tables_of_def)
  with f show ?thesis by blast
qed

subsection \<open>From the direct sectors to the single index table\<close>

lemma grow_to_single:
  assumes "disk_map bm" "store_wf st" "length ds = 10" "p \<le> 8" "8 < n" "n \<le> 40"
    and "n - p + 1 \<le> card (bm.free bm)"
  obtains ds1 bm1 t1 bm2 ds2 one bm3 st' where
    "fill Find bm ds (int p) (8 - p) = Inr (ds1, bm1)" "Find bm1 = Inr (t1, bm2)"
    "aset ds1 OneLevelIdx t1 = Inr ds2" "fill Find bm2 (local_array junk (-1)) 0 (n - 8) = Inr (one, bm3)"
    "write_table st t1 one = Inr st'" "grown bm st ds p bm3 st' ds2 n"
proof -
  have h: "8 \<le> length ds" "8 - p \<le> card (bm.free bm)" using assms by simp_all
  obtain xs bm1 where f: "fill Find bm ds (int p) (8 - p) = Inr (take p ds @ xs @ drop 8 ds, bm1)"
    and xs: "length xs = 8 - p" "bm.took bm xs bm1" and d1: "disk_map bm1"
    and c1: "card (bm.free bm1) = card (bm.free bm) - (8 - p)"
    using fill_disk [OF assms(1,4) h] by blast
  have "0 < card (bm.free bm1)" using c1 assms(4-7) by linarith
  from find_disk [OF d1 this] obtain t1 bm2
    where t: "Find bm1 = Inr (t1, bm2)" "bm.took bm1 [t1] bm2" "0 \<le> t1" "t1 < NumSectors"
    and d2: "disk_map bm2" and c2: "card (bm.free bm2) = card (bm.free bm1) - 1" by blast
  have "n - 8 - 0 \<le> card (bm.free bm2)" "n - 8 \<le> length (local_array junk (-1))"
    using c1 c2 assms(4-7) by simp_all
  from fill_disk [OF d2 _ this(2,1)] obtain ys bm3
    where g: "fill Find bm2 (local_array junk (-1)) 0 (n - 8) = Inr (ys @ drop (n - 8) (local_array junk (-1)), bm3)"
    and ys: "length ys = n - 8" "bm.took bm2 ys bm3" by auto
  let ?ds1 = "take p ds @ xs @ drop 8 ds"
  let ?ds2 = "take p ds @ xs @ t1 # drop 9 ds"
  let ?one = "ys @ drop (n - 8) (local_array junk (-1))"
  let ?st = "st(t1 := ints_bytes ?one)"
  have lo: "length ?one = 32" using ys assms by simp
  have dr: "drop 8 ds = ds ! 8 # drop 9 ds" using Cons_nth_drop_Suc [of 8 ds] assms(3) by simp
  have a: "aset ?ds1 OneLevelIdx t1 = Inr ?ds2"
    using assms(3,4) xs(1) by (simp add: aset_ok hdr_consts list_update_append dr)
  have tb: "tbl ?st t1 = ?one"
    by (intro tbl_write lo array_int32 took_int32 [OF d2 ys(2)])
  have d9: "?ds2 ! 8 = t1" "take 8 ?ds2 = take p ds @ xs" "length ?ds2 = 10"
    using assms(3,4) xs(1) by (simp_all add: nth_append)
  have "blocks_of ?st ?ds2 n = blocks_of st ds p @ xs @ ys"
    using assms d9 tb ys(1) by (simp add: blocks_single blocks_direct)
  moreover have "tables_of ?st ?ds2 n = [t1]" using assms(5,6) d9 by (simp add: tables_of_def)
  moreover have "bm.took bm (xs @ [t1] @ ys) bm3"
    using bm.took_append [OF xs(2) bm.took_append [OF t(2) ys(2)]] .
  ultimately have "grown bm st ds p bm3 ?st ?ds2 n"
    using d9 assms store_wf_upd [OF assms(2) lo]
    by (intro grownI [where bs = "xs @ ys" and ts = "[t1]" and xs = "xs @ [t1] @ ys"])
       (auto simp: tables_of_def)
  then show ?thesis using that f t a g write_table_ok [OF t(3,4) lo] by blast
qed

lemma grown_trans:
  assumes "grown bm st ds p bm1 st1 ds1 m" "grown bm1 st1 ds1 m bm2 st2 ds2 n"
  shows "grown bm st ds p bm2 st2 ds2 n"
proof -
  obtain bs ts where a: "blocks_of st1 ds1 m = blocks_of st ds p @ bs"
      "mset (tables_of st1 ds1 m) = mset (tables_of st ds p) + mset ts" "bm.took bm (bs @ ts) bm1"
      "\<forall>s. s \<notin> set (tables_of st1 ds1 m) \<longrightarrow> st1 s = st s"
    using assms(1) unfolding grown_def by blast
  obtain bs' ts' where b: "length ds2 = 10" "store_wf st2" "blocks_of st2 ds2 n = blocks_of st1 ds1 m @ bs'"
      "mset (tables_of st2 ds2 n) = mset (tables_of st1 ds1 m) + mset ts'" "bm.took bm1 (bs' @ ts') bm2"
      "\<forall>s. s \<notin> set (tables_of st2 ds2 n) \<longrightarrow> st2 s = st1 s"
    using assms(2) unfolding grown_def by blast
  have "set (tables_of st1 ds1 m) \<subseteq> set (tables_of st2 ds2 n)"
    by (metis b(4) set_mset_mset set_mset_union Un_upper1)
  then show ?thesis
    using a b bm.took_append [OF a(3) b(5)]
    by (intro grownI [where bs = "bs @ bs'" and ts = "ts @ ts'" and xs = "(bs @ ts) @ (bs' @ ts')"]) auto
qed

text \<open>What every step below needs of the file it starts from.\<close>

definition sound :: "bitmap \<Rightarrow> store \<Rightarrow> int list \<Rightarrow> nat \<Rightarrow> bool" where
  "sound bm st ds n \<longleftrightarrow> disk_map bm \<and> store_wf st \<and> length ds = 10
     \<and> distinct (blocks_of st ds n @ tables_of st ds n)
     \<and> set (blocks_of st ds n @ tables_of st ds n) \<subseteq> marked bm"

lemma grown_sound:
  assumes "sound bm st ds p" "grown bm st ds p bm' st' ds' n"
  shows "sound bm' st' ds' n"
proof -
  obtain bs ts where g: "length ds' = 10" "store_wf st'" "blocks_of st' ds' n = blocks_of st ds p @ bs"
      "mset (tables_of st' ds' n) = mset (tables_of st ds p) + mset ts" "bm.took bm (bs @ ts) bm'"
    using assms(2) unfolding grown_def by blast
  let ?old = "blocks_of st ds p @ tables_of st ds p"
  have ms: "mset (blocks_of st' ds' n @ tables_of st' ds' n) = mset (?old @ bs @ ts)" using g(3,4) by simp
  have free: "set (bs @ ts) \<inter> marked bm = {}" using g(5) by (auto simp: bm.took_def bm.free_def)
  have "distinct (?old @ bs @ ts)" using assms(1) g(5) free by (auto simp: sound_def bm.took_def)
  moreover have "set (?old @ bs @ ts) \<subseteq> marked bm'" using assms(1) g(5) by (auto simp: sound_def bm.took_def)
  moreover have "disk_map bm'" using took_disk_map [OF _ g(5)] assms(1) by (simp add: sound_def)
  ultimately show ?thesis using g(1,2) mset_eq_imp_distinct_iff [OF ms] mset_eq_setD [OF ms]
    by (simp add: sound_def)
qed

lemma ceil32:
  "(len::nat) \<le> 32 * ((len + 31) div 32)" "(len + 31) div 32 = 0 \<or> 32 * ((len + 31) div 32 - 1) < len"
  "len \<le> 1024 \<Longrightarrow> (len + 31) div 32 \<le> 32"
proof -
  have e: "32 * ((len + 31) div 32) + (len + 31) mod 32 = len + 31" and m: "(len + 31) mod 32 < 32" by simp_all
  show "len \<le> 32 * ((len + 31) div 32)" using e m by linarith
  show "(len + 31) div 32 = 0 \<or> 32 * ((len + 31) div 32 - 1) < len"
    unfolding diff_mult_distrib2 using e m by linarith
  show "len \<le> 1024 \<Longrightarrow> (len + 31) div 32 \<le> 32" using e m by linarith
qed

subsection \<open>Adding the double index table\<close>

lemma grow_to_double:
  assumes "sound bm st ds 40" "40 < n" "n \<le> 1064"
    and "n - 40 + 1 + (n - 40 + 31) div 32 \<le> card (bm.free bm)"
  shows "\<exists>t2 bm1 ds' two bm2 st1 st2. Find bm = Inr (t2, bm1) \<and> aset ds TwoLevelIdx t2 = Inr ds'
    \<and> fill_tables junk bm1 st (local_array junk (-2)) (int (n - 40)) 0 ((n - 40 + 31) div 32) = Inr (two, bm2, st1)
    \<and> write_table st1 t2 two = Inr st2 \<and> grown bm st ds 40 bm2 st2 ds' n"
proof -
  let ?len = "n - 40" and ?k = "(n - 40 + 31) div 32" and ?ds = "ds[9 := t]" and ?t1 = "ds ! 8"
  have ds: "length ds = 10" and dm: "disk_map bm" and wf: "store_wf st" using assms(1) by (simp_all add: sound_def)
  have t1: "?t1 \<in> marked bm" using assms(1) by (simp add: sound_def tables_of_def)
  have "0 < card (bm.free bm)" using assms(4) by linarith
  from find_disk [OF dm this] obtain t2 bm1
    where f: "Find bm = Inr (t2, bm1)" "bm.took bm [t2] bm1" "0 \<le> t2" "t2 < NumSectors"
    and d1: "disk_map bm1" and c1: "card (bm.free bm1) = card (bm.free bm) - 1" by blast
  have k: "?k \<le> 32" "?k = 0 \<or> 32 * (?k - 1) < ?len" "?len \<le> 32 * ?k"
    using ceil32 [of ?len] assms(3) by simp_all
  have "chunk_need ?len 0 ?k = ?len" using k(3) by (simp add: chunk_need_def)
  then have "?k + chunk_need ?len 0 ?k \<le> card (bm.free bm1)" using c1 assms(4) by linarith
  note cap = this
  have pr: "length (local_array junk (-2)) = 32" "0 + ?k \<le> 32" "?k = 0 \<or> 32 * (0 + ?k - 1) < ?len"
    using k by simp_all
  obtain xs yss bm2 st1 where
      r0: "fill_tables junk bm1 st (local_array junk (-2)) (int ?len) (int 0) ?k
        = Inr (take 0 (local_array junk (-2)) @ xs @ drop (0 + ?k) (local_array junk (-2)), bm2, st1)"
    and l0: "length xs = ?k" "length yss = ?k" "\<forall>q < ?k. length (yss ! q) = min 32 (?len - 32 * (0 + q))"
    and tk: "bm.took bm1 (interleave xs yss) bm2"
    and tq: "\<forall>q < ?k. take (length (yss ! q)) (tbl st1 (xs ! q)) = yss ! q"
    and fr: "\<forall>s. s \<notin> set xs \<longrightarrow> st1 s = st s" and wf1: "store_wf st1"
    using fill_tables_spec [OF d1 wf pr cap, of junk] by blast
  have r: "fill_tables junk bm1 st (local_array junk (-2)) (int ?len) 0 ?k
        = Inr (xs @ drop ?k (local_array junk (-2)), bm2, st1)" using r0 by simp
  have l: "length xs = ?k" "length yss = ?k" "\<forall>q < ?k. length (yss ! q) = min 32 (?len - 32 * q)"
    using l0 by simp_all
  let ?two = "xs @ drop ?k (local_array junk (-2))" and ?ds = "ds[9 := t2]"
  let ?st = "st1(t2 := ints_bytes ?two)"
  have lt: "length ?two = 32" using l k by simp
  have took: "bm.took bm ([t2] @ interleave xs yss) bm2" using bm.took_append [OF f(2) tk] .
  have ms: "mset ([t2] @ interleave xs yss) = mset (concat yss @ t2 # xs)"
    using mset_interleave [of xs yss] l by simp
  have dist: "distinct (concat yss @ t2 # xs)" "set (concat yss @ t2 # xs) \<inter> marked bm = {}"
    using took mset_eq_imp_distinct_iff [OF ms] mset_eq_setD [OF ms] by (auto simp: bm.took_def bm.free_def)
  have xr: "\<forall>x \<in> set xs. in_int32 x"
    using took_int32 [OF d1 tk] mset_eq_setD [OF mset_interleave [of xs yss]] l by auto
  have tb2: "tbl ?st t2 = ?two" by (intro tbl_write lt array_int32 xr)
  have tb1: "tbl ?st ?t1 = tbl st ?t1" using t1 dist(2) fr by (auto simp: tbl_def)
  have tbq: "tbl ?st (xs ! q) = tbl st1 (xs ! q)" if "q < ?k" for q
    using that l dist(1) by (intro tbl_other) (metis distinct.simps(2) distinct_append nth_mem)
  have d: "?ds ! 8 = ?t1" "?ds ! 9 = t2" "take 8 ?ds = take 8 ds" "length ?ds = 10"
    using ds by (simp_all add: take_update_ge)
  have ch: "chunked ?len yss" using l by (simp add: chunked_def)
  have "blocks_of ?st ?ds n = take 8 ?ds @ tbl ?st (?ds ! 8) @ concat yss"
    using assms(2) d(4) ch
  proof (intro blocks_chunked)
    fix q assume q: "q < length yss"
    then have qk: "q < ?k" and qx: "q < length xs" by (simp_all only: l(1,2))
    have "tbl ?st (?ds ! 9) ! q = xs ! q" unfolding d(2) tb2 nth_append using qx by (simp only: if_True)
    then show "take (length (yss ! q)) (tbl ?st (tbl ?st (?ds ! 9) ! q)) = yss ! q"
      using tq tbq [OF qk] qk by (simp only:)
  qed simp_all
  then have bl: "blocks_of ?st ?ds n = blocks_of st ds 40 @ concat yss"
    using ds d tb1 by (simp add: blocks_single)
  have ta: "tables_of ?st ?ds n = ?t1 # t2 # xs" "tables_of st ds 40 = [?t1]"
    using assms(2) d tb2 l by (simp_all add: tables_of_def)
  have "grown bm st ds 40 bm2 ?st ?ds n"
    using d bl ta took ms fr store_wf_upd [OF wf1 lt]
    by (intro grownI [where bs = "concat yss" and ts = "t2 # xs" and xs = "[t2] @ interleave xs yss"]) auto
  moreover have "aset ds TwoLevelIdx t2 = Inr ?ds" using ds by (simp add: aset_ok hdr_consts)
  ultimately show ?thesis using f r write_table_ok [OF f(3,4) lt] by blast
qed

subsection \<open>Within the single index table\<close>

lemma sound_tables:
  assumes "sound bm st ds p" "s \<in> set (tables_of st ds p)"
  shows "0 \<le> s" "s < NumSectors" "read_table st s = Inr (tbl st s)"
  using assms disk_map_sector [of bm s] read_table_ok by (auto simp: sound_def)

lemma grow_single:
  assumes "sound bm st ds p" "8 < p" "p \<le> n" "n \<le> 40" "n - p \<le> card (bm.free bm)"
  shows "\<exists>one bm' st'. aget ds OneLevelIdx = Inr (ds ! 8) \<and> read_table st (ds ! 8) = Inr (tbl st (ds ! 8))
    \<and> fill Find bm (tbl st (ds ! 8)) (int (p - 8)) (n - p) = Inr (one, bm')
    \<and> write_table st (ds ! 8) one = Inr st' \<and> grown bm st ds p bm' st' ds n"
proof -
  let ?t = "ds ! 8" and ?old = "tbl st (ds ! 8)"
  have ds: "length ds = 10" and dm: "disk_map bm" and wf: "store_wf st" using assms(1) by (simp_all add: sound_def)
  have t: "?t \<in> set (tables_of st ds p)" using assms(2) by (simp add: tables_of_def)
  note ts = sound_tables [OF assms(1) t]
  have pr: "p - 8 \<le> n - 8" "n - 8 \<le> length ?old" "n - 8 - (p - 8) \<le> card (bm.free bm)" "n - 8 - (p - 8) = n - p"
    using assms(2-5) by simp_all
  obtain xs bm' where f: "fill Find bm ?old (int (p - 8)) (n - p) = Inr (take (p - 8) ?old @ xs @ drop (n - 8) ?old, bm')"
    and xs: "length xs = n - p" "bm.took bm xs bm'"
    using fill_disk [OF dm pr(1,2,3)] unfolding pr(4) by blast
  let ?one = "take (p - 8) ?old @ xs @ drop (n - 8) ?old"
  let ?st = "st(?t := ints_bytes ?one)"
  have lo: "length ?one = 32" using xs assms(2-4) by simp
  have r: "\<forall>x \<in> set ?one. in_int32 x"
    using took_int32 [OF dm xs(2)] tbl_int32 by (auto dest: in_set_takeD in_set_dropD)
  have tb: "tbl ?st ?t = ?one" by (rule tbl_write [OF lo r])
  have "blocks_of ?st ds n = blocks_of st ds p @ xs"
    using assms(2-4) ds tb xs(1) by (simp add: blocks_single)
  moreover have "tables_of ?st ds n = [?t]" "tables_of st ds p = [?t]"
    using assms(2-4) by (simp_all add: tables_of_def)
  ultimately have "grown bm st ds p bm' ?st ds n"
    using ds xs store_wf_upd [OF wf lo]
    by (intro grownI [where bs = xs and ts = "[]" and xs = xs]) auto
  moreover have "aget ds OneLevelIdx = Inr ?t" using ds by (simp add: aget_ok hdr_consts)
  ultimately show ?thesis using f ts(3) write_table_ok [OF ts(1,2) lo] by blast
qed

subsection \<open>Within the last second-level table\<close>

lemma sound_double:
  assumes "sound bm st ds p" "40 < p"
  shows "distinct (ds ! 8 # ds ! 9 # take ((p - 40 + 31) div 32) (tbl st (ds ! 9)))"
    "set (take ((p - 40 + 31) div 32) (tbl st (ds ! 9))) \<subseteq> set (tables_of st ds p)"
    "ds ! 9 \<in> set (tables_of st ds p)" "ds ! 8 \<in> set (tables_of st ds p)"
  using assms by (auto simp: sound_def tables_of_def)

lemma take_nth_neq:
  "distinct (take k xs) \<Longrightarrow> k \<le> length xs \<Longrightarrow> i < k \<Longrightarrow> j < k \<Longrightarrow> i \<noteq> j \<Longrightarrow> xs ! i \<noteq> xs ! j"
  by (metis length_take min.absorb2 nth_eq_iff_index_eq nth_take)

lemma grow_last:
  assumes "sound bm st ds p" "40 < p" "p \<le> m" "k = (p - 40 + 31) div 32" "m \<le> 40 + 32 * k" "m \<le> 1064"
    and "m - p \<le> card (bm.free bm)"
  shows "\<exists>single bm' st'. read_table st (tbl st (ds ! 9) ! (k - 1)) = Inr (tbl st (tbl st (ds ! 9) ! (k - 1)))
    \<and> fill Find bm (tbl st (tbl st (ds ! 9) ! (k - 1))) (int (p - 40 - 32 * (k - 1))) (m - p) = Inr (single, bm')
    \<and> write_table st (tbl st (ds ! 9) ! (k - 1)) single = Inr st'
    \<and> tbl st' (ds ! 9) = tbl st (ds ! 9) \<and> grown bm st ds p bm' st' ds m"
proof -
  let ?two = "tbl st (ds ! 9)"
  let ?t = "?two ! (k - 1)" and ?s = "p - 40 - 32 * (k - 1)"
  let ?old = "tbl st ?t"
  have ds: "length ds = 10" and dm: "disk_map bm" and wf: "store_wf st" using assms(1) by (simp_all add: sound_def)
  note c = ceil32 [of "p - 40", folded assms(4)]
  have k: "0 < k" "k \<le> 32" "32 * (k - 1) < p - 40" using c assms(2,3,5,6) by (cases k; simp)+
  note sd = sound_double [OF assms(1,2), folded assms(4)]
  have tin: "?t \<in> set (take k ?two)" using k by (metis diff_less in_set_conv_nth length_take length_tbl min.absorb2 nth_take zero_less_one)
  then have tt: "?t \<in> set (tables_of st ds p)" using sd(2) by blast
  note ts = sound_tables [OF assms(1) tt]
  have neq: "?t \<noteq> ds ! 8" "?t \<noteq> ds ! 9" using sd(1) tin by auto
  have neqs: "?two ! q \<noteq> ?t" if "q < k - 1" for q
    using that sd(1) k by (intro take_nth_neq [of k]) simp_all
  have pu: "p = 40 + 32 * (k - 1) + ?s" using k(3) by simp
  define u where "u = ?s"
  have su: "?s = u" by (simp add: u_def)
  note pu = pu [unfolded su]
  let ?e = "?s + (m - p)"
  have pr: "?s \<le> ?e" "?e \<le> length ?old" "?e - ?s \<le> card (bm.free bm)" "?e - ?s = m - p"
    using k assms(2,3,5,7) by simp_all
  obtain xs bm' where f: "fill Find bm ?old (int ?s) (m - p) = Inr (take ?s ?old @ xs @ drop ?e ?old, bm')"
    and xs: "length xs = m - p" "bm.took bm xs bm'"
    using fill_disk [OF dm pr(1,2,3)] unfolding pr(4) by blast
  let ?single = "take ?s ?old @ xs @ drop ?e ?old"
  let ?st = "st(?t := ints_bytes ?single)"
  have ls: "length ?single = 32" using xs(1) pr(2) by simp
  have r: "\<forall>x \<in> set ?single. in_int32 x"
    using took_int32 [OF dm xs(2)] tbl_int32 by (auto dest: in_set_takeD in_set_dropD)
  have tb: "tbl ?st ?t = ?single" by (rule tbl_write [OF ls r])
  have tb9: "tbl ?st (ds ! 9) = ?two" and tb8: "tbl ?st (ds ! 8) = tbl st (ds ! 8)" using neq by (simp_all add: tbl_def)
  have at: "block_at ?st ds j = (if j < p then block_at st ds j else xs ! (j - p))" if j: "j < m" for j
  proof (cases "j < 40")
    case True
    with tb8 assms(2) show ?thesis by (simp add: block_at_def)
  next
    case False
    define q where "q = (j - 40) div 32"
    define r where "r = (j - 40) mod 32"
    have e: "32 * q + r = j - 40" and r: "r < 32" by (simp_all add: q_def r_def)
    have qk: "q < k" using j assms(5) False by (simp add: q_def less_mult_imp_div_less)
    have ba: "block_at st' ds j = tbl st' (tbl st' (ds ! 9) ! q) ! r" for st'
      using False by (simp add: block_at_def q_def r_def)
    show ?thesis
    proof (cases "q = k - 1")
      case True
      then have "32 * (k - 1) + r = j - 40" using e by simp
      then have jc: "j = 40 + 32 * (k - 1) + r" using False by simp
      have rs: "r < ?s \<longleftrightarrow> j < p" and rj: "\<not> j < p \<Longrightarrow> r - ?s = j - p" unfolding su using jc pu by auto
      have "r < ?s + length xs" unfolding su using jc pu j xs(1) by simp
      then have "?single ! r = (if r < ?s then ?old ! r else xs ! (r - ?s))"
        by (rule nth_splice [OF le_trans [OF pr(1,2)]])
      then have "?single ! r = (if j < p then ?old ! r else xs ! (j - p))" using rs rj by simp
      moreover have "block_at ?st ds j = ?single ! r" unfolding ba tb9 True tb by (rule refl)
      moreover have "block_at st ds j = ?old ! r" unfolding ba True by (rule refl)
      ultimately show ?thesis by (simp only:)
    next
      case nq: False
      then have lt: "q < k - 1" using qk by simp
      then have "32 * Suc q \<le> 32 * (k - 1)" by (intro mult_le_mono2) simp
      then have "32 * q + 32 \<le> 32 * (k - 1)" by (simp only: mult_Suc_right add.commute)
      then have "j < p" using e r k(3) False by simp
      moreover have "tbl ?st (?two ! q) = tbl st (?two ! q)" using neqs [OF lt] by (rule tbl_other)
      then have "block_at ?st ds j = block_at st ds j" unfolding ba tb9 by (simp only:)
      ultimately show ?thesis by simp
    qed
  qed
  have bl: "blocks_of ?st ds m = blocks_of st ds p @ xs"
    using at assms(3) xs(1) by (intro nth_equalityI) (auto simp: blocks_of_def nth_append simp del: fun_upd_apply)
  have "(m - 40 + 31) div 32 = k"
  proof (rule antisym)
    show "(m - 40 + 31) div 32 \<le> k" using assms(5) by (simp add: div_le_mono less_mult_imp_div_less flip: less_Suc_eq_le)
    show "k \<le> (m - 40 + 31) div 32" unfolding assms(4) using assms(3) by (intro div_le_mono) simp
  qed
  then have ta: "tables_of ?st ds m = tables_of st ds p"
    using assms(2-4) tb9 by (simp add: tables_of_def)
  have "grown bm st ds p bm' ?st ds m"
    using ds bl ta xs tt store_wf_upd [OF wf ls]
    by (intro grownI [where bs = xs and ts = "[]" and xs = xs]) auto
  then show ?thesis using f ts(3) tb9 write_table_ok [OF ts(1,2) ls] by blast
qed

subsection \<open>Further second-level tables\<close>

lemma grow_tables:
  assumes "sound bm st ds m" "m = 40 + 32 * k" "0 < k" "m < n" "n \<le> 1064"
    and "n - m + d \<le> card (bm.free bm)" "d = (n - m + 31) div 32"
  shows "\<exists>two bm' st1 st'.
      fill_tables junk bm st (tbl st (ds ! 9)) (int (n - 40)) (int k) d = Inr (two, bm', st1)
    \<and> write_table st1 (ds ! 9) two = Inr st' \<and> grown bm st ds m bm' st' ds n"
proof -
  let ?old = "tbl st (ds ! 9)" and ?len = "n - 40"
  have ds: "length ds = 10" and dm: "disk_map bm" and wf: "store_wf st" using assms(1) by (simp_all add: sound_def)
  have m40: "40 < m" using assms(2,3) by simp
  have kk: "(m - 40 + 31) div 32 = k" using assms(2) by simp
  note sd = sound_double [OF assms(1) m40, unfolded kk]
  have len: "?len = (n - m) + 32 * k" using assms(2,4) by simp
  have K: "(?len + 31) div 32 = d + k" unfolding len assms(7) by simp
  note c = ceil32 [of "n - m", folded assms(7)]
  have dk: "k + d \<le> 32" using ceil32(3) [of ?len] assms(5) K by simp
  have kl: "k \<le> 32" using dk by simp
  have need: "chunk_need ?len k d = n - m" using c(1) len by (simp add: chunk_need_def)
  have d0: "0 < d" using assms(4) by (simp add: assms(7) div_greater_zero_iff)
  then have e: "32 * (k + d - 1) = 32 * k + 32 * (d - 1)" by (simp add: distrib_left diff_mult_distrib2)
  have "32 * (d - 1) < n - m" using c(2) d0 by (metis less_numeral_extra(3))
  then have "32 * k + 32 * (d - 1) < (n - m) + 32 * k" by (simp only: add.commute [of "n - m"] nat_add_left_cancel_less)
  then have "32 * (k + d - 1) < ?len" unfolding e len .
  then have pr: "length ?old = 32" "k + d \<le> 32" "d = 0 \<or> 32 * (k + d - 1) < ?len"
      "d + chunk_need ?len k d \<le> card (bm.free bm)"
    using dk assms(6) need by simp_all
  obtain xs yss bm' st1 where
      r: "fill_tables junk bm st ?old (int ?len) (int k) d = Inr (take k ?old @ xs @ drop (k + d) ?old, bm', st1)"
    and l: "length xs = d" "length yss = d" and l0: "\<forall>q < d. length (yss ! q) = min 32 (?len - 32 * (k + q))"
    and tk: "bm.took bm (interleave xs yss) bm'"
    and tq: "\<forall>q < d. take (length (yss ! q)) (tbl st1 (xs ! q)) = yss ! q"
    and fr: "\<forall>s. s \<notin> set xs \<longrightarrow> st1 s = st s" and wf1: "store_wf st1"
    using fill_tables_spec [OF dm wf pr, of junk] by blast
  have ch: "chunked (n - m) yss"
    using l l0 len by (simp add: chunked_def distrib_left assms(7))
  let ?two = "take k ?old @ xs @ drop (k + d) ?old"
  let ?st = "st1(ds ! 9 := ints_bytes ?two)"
  have lt: "length ?two = 32" using l dk by simp
  have ms: "mset (interleave xs yss) = mset (concat yss @ xs)" using mset_interleave [of xs yss] l by simp
  have dist: "distinct (concat yss @ xs)" "set xs \<inter> marked bm = {}"
    using tk mset_eq_imp_distinct_iff [OF ms] mset_eq_setD [OF ms] by (auto simp: bm.took_def bm.free_def)
  have own: "set (tables_of st ds m) \<subseteq> marked bm" using assms(1) by (simp add: sound_def)
  have xr: "\<forall>x \<in> set ?two. in_int32 x"
    using took_int32 [OF dm tk] mset_eq_setD [OF ms] tbl_int32 by (auto dest: in_set_takeD in_set_dropD)
  have tb9: "tbl ?st (ds ! 9) = ?two" by (rule tbl_write [OF lt xr])
  have keep: "tbl ?st s = tbl st s" if "s \<in> marked bm" "s \<noteq> ds ! 9" for s
    using that dist(2) fr by (auto simp: tbl_def)
  have tb8: "tbl ?st (ds ! 8) = tbl st (ds ! 8)" using keep sd own by auto
  have at: "block_at ?st ds j = (if j < m then block_at st ds j else concat yss ! (j - m))" if j: "j < n" for j
  proof (cases "j < 40")
    case True
    with tb8 m40 show ?thesis by (simp add: block_at_def)
  next
    case ge: False
    show ?thesis
    proof (cases "j < m")
      case True
      let ?q = "(j - 40) div 32"
      have q: "?q < k" using True ge assms(2) by (simp add: less_mult_imp_div_less)
      then have "?two ! ?q = ?old ! ?q" using kl by (subst nth_splice) simp_all
      moreover have "?old ! ?q \<in> set (take k ?old)" using q kl by (metis in_set_conv_nth length_take length_tbl min.absorb2 nth_take)
      then have "tbl ?st (?old ! ?q) = tbl st (?old ! ?q)" using sd own by (intro keep) auto
      ultimately show ?thesis using ge True tb9 by (simp add: block_at_def)
    next
      case False
      let ?q = "(j - m) div 32"
      have e: "j - 40 = (j - m) + 32 * k" using False assms(2) by simp
      have qr: "(j - 40) div 32 = ?q + k" "(j - 40) mod 32 = (j - m) mod 32" unfolding e by simp_all
      have jm: "j - m < n - m" using False j by simp
      have "j - m < 32 * d" using jm c(1) by (rule less_le_trans)
      then have q: "?q < d" by (simp add: less_mult_imp_div_less mult.commute)
      have "?two ! (?q + k) = xs ! ?q" using q l kl by (subst nth_splice) simp_all
      moreover have "xs ! ?q \<noteq> ds ! 9" using q l dist(2) sd own by (metis disjoint_iff nth_mem subset_iff)
      then have "tbl ?st (xs ! ?q) = tbl st1 (xs ! ?q)" by (rule tbl_other)
      ultimately have "block_at ?st ds j = tbl st1 (xs ! ?q) ! ((j - m) mod 32)"
        using ge tb9 qr by (simp add: block_at_def)
      moreover note chunked_index(2) [OF ch jm]
      then have "tbl st1 (xs ! ?q) ! ((j - m) mod 32) = yss ! ?q ! ((j - m) mod 32)" using tq q by (metis nth_take)
      moreover have "concat yss ! (j - m) = yss ! ?q ! ((j - m) mod 32)"
        using chunked_nth [OF ch, symmetric] jm by simp
      ultimately show ?thesis using False by simp
    qed
  qed
  have "length (concat yss) = n - m" using chunked_nth [OF ch, symmetric] by simp
  then have bl: "blocks_of ?st ds n = blocks_of st ds m @ concat yss"
    using at assms(4) by (intro nth_equalityI) (auto simp: blocks_of_def nth_append simp del: fun_upd_apply)
  have tk': "take (d + k) ?two = take k ?old @ xs" using l kl by simp
  have ta: "tables_of ?st ds n = tables_of st ds m @ xs"
    using m40 assms(4) tb9 kk K tk' by (simp add: tables_of_def del: fun_upd_apply)
  have "grown bm st ds m bm' ?st ds n"
    using ds bl ta tk ms fr sd store_wf_upd [OF wf1 lt]
    by (intro grownI [where bs = "concat yss" and ts = xs and xs = "interleave xs yss"]) auto
  moreover have "0 \<le> ds ! 9" "ds ! 9 < NumSectors" using sound_tables [OF assms(1) sd(3)] by simp_all
  ultimately show ?thesis using r write_table_ok [OF _ _ lt] by blast
qed

end
