(* ===== verification/FileSamples.thy ===== *)
theory FileSamples
  imports FileLayout
begin

text \<open>
  Concrete bitmaps, stores and headers, on which the theorems about files are applied: a disk
  whose sectors are all free, one whose sectors are all in use, and small files on it.
\<close>

definition sample_map :: "32 word \<Rightarrow> bitmap" where
  "sample_map w = \<lparr>numBits = 1024, numWords = 32, bwords = replicate 32 w\<rparr>"

definition zero_store :: store where
  "zero_store n = replicate 128 0"

text \<open>A file of \<open>n \<le> 8\<close> full sectors, the sectors \<open>0, \<dots>, n - 1\<close>.\<close>

definition sample_header :: "nat \<Rightarrow> file_header" where
  "sample_header n = \<lparr>numBytes = 128 * int n, numSectors = int n, fileExtension = replicate 5 0,
     createTime = replicate 25 0, modifyTime = replicate 25 0, lastVisitTime = replicate 25 0,
     dataSectors = [0, 1, 2, 3, 4, 5, 6, 7, 0, 0], headerSector = 0\<rparr>"

lemma sample_map_wf [simp]: "disk_map (sample_map w)" "bm_wf (sample_map w)"
  by (simp_all add: sample_map_def disk_map_def bm_wf_def disk_consts divRoundUp_def BitsInWord_def)

lemma sample_map_numBits [simp]: "numBits (sample_map w) = 1024"
  by (simp add: sample_map_def)

lemma sample_map_free [simp]: "marked (sample_map 0) = {}" "bm.free (sample_map 0) = {0..<1024}"
proof -
  show m: "marked (sample_map 0) = {}" by (auto simp: marked_def sample_map_def nat_less_iff)
  show "bm.free (sample_map 0) = {0..<1024}" by (simp add: bm.free_def m)
qed

lemma sample_map_full [simp]: "marked (sample_map (-1)) = {0..<1024}" "bm.free (sample_map (-1)) = {}"
proof -
  show m: "marked (sample_map (-1)) = {0..<1024}"
    by (auto simp: marked_def sample_map_def nat_less_iff)
  show "bm.free (sample_map (-1)) = {}" by (simp add: bm.free_def m)
qed

text \<open>A disk with 41 clear sectors.\<close>

definition sample_map_41 :: bitmap where
  "sample_map_41 = \<lparr>numBits = 1024, numWords = 32, bwords = [0, NOT (mask 9)] @ replicate 30 (-1)\<rparr>"

lemma sample_map_41 [simp]: "disk_map sample_map_41" "card (bm.free sample_map_41) = 41"
proof -
  show "disk_map sample_map_41"
    by (simp add: sample_map_41_def disk_map_def bm_wf_def disk_consts divRoundUp_def BitsInWord_def)
  have "bit (bwords sample_map_41 ! nat (i div 32)) (nat (i mod 32)) \<longleftrightarrow> 41 \<le> i" if i: "0 \<le> i" "i < 1024" for i :: int
  proof -
    consider "i < 32" | "32 \<le> i" "i < 64" | "64 \<le> i" by linarith
    then show ?thesis
    proof cases
      case 1
      then show ?thesis using i by (simp add: sample_map_41_def)
    next
      case 2
      then have "i div 32 = 1" "i mod 32 = i - 32" by presburger+
      then show ?thesis using 2 by (auto simp: sample_map_41_def bit_simps nat_le_iff nat_less_iff)
    next
      case 3
      then have d: "2 \<le> i div 32" "i div 32 < 32" using i by presburger+
      define k where "k = nat (i div 32 - 2)"
      have k: "nat (i div 32) = Suc (Suc k)" "k < 30" unfolding k_def using d by linarith+
      then have "bwords sample_map_41 ! nat (i div 32) = -1" by (simp add: sample_map_41_def)
      then show ?thesis using 3 by simp
    qed
  qed
  moreover have "numBits sample_map_41 = 1024" by (simp add: sample_map_41_def)
  ultimately have "bm.free sample_map_41 = {0..<41}" unfolding bm.free_def marked_def by (auto simp del: not_le)
  then show "card (bm.free sample_map_41) = 41" by simp
qed

lemma zero_store_wf [simp]: "store_wf zero_store"
  by (simp add: store_wf_def zero_store_def SectorSize_def)

lemma sample_header_simps [simp]:
  "numBytes (sample_header n) = 128 * int n" "numSectors (sample_header n) = int n"
  "dataSectors (sample_header n) = [0, 1, 2, 3, 4, 5, 6, 7, 0, 0]"
  by (simp_all add: sample_header_def)

lemma sample_blocks: "n \<le> 8 \<Longrightarrow> blocks st (sample_header n) = map int [0..<n]"
  by (auto simp: blocks_def blocks_of_def block_at_def nth_Cons' intro!: nth_equalityI)

lemma sample_owned [simp]: "n \<le> 8 \<Longrightarrow> owned st (sample_header n) = map int [0..<n]"
  by (simp add: owned_def sample_blocks tables_def tables_of_def)

lemma sample_file_ok [simp]: "n \<le> 8 \<Longrightarrow> file_ok st (sample_map (-1)) (sample_header n)"
  by (auto simp: file_ok_def hdr_consts distinct_map inj_on_def)

lemma sample_empty_41 [simp]: "file_ok st sample_map_41 (sample_header 0)"
  by (simp add: file_ok_def hdr_consts)

lemma sample_file_ok_empty [simp]: "file_ok st (sample_map w) (sample_header 0)"
  by (simp add: file_ok_def hdr_consts)

end
