(* ===== verification/FileOps.thy ===== *)
theory FileOps
  imports FileSamples
begin

text \<open>
  The operations of \<open>FileHeader\<close> as the file system uses them, stated over the lists of the
  file's sectors: what \<open>Allocate\<close> takes and when it refuses, that \<open>ByteToSector\<close> finds the
  sector of every byte, that \<open>Deallocate\<close> gives back exactly what the file owns, what
  \<open>ExpandFileSize\<close> adds, and that a header survives its round trip through the disk.
\<close>

section \<open>Index tables of a file\<close>

text \<open>How many index tables a file of \<open>n\<close> data sectors has.\<close>

definition index_sectors :: "nat \<Rightarrow> nat" where
  "index_sectors n = (if n \<le> 8 then 0 else if n \<le> 40 then 1 else 2 + (n - 40 + 31) div 32)"

lemma sound_empty: "disk_map bm \<Longrightarrow> store_wf st \<Longrightarrow> length ds = 10 \<Longrightarrow> sound bm st ds 0"
  by (simp add: sound_def blocks_of_def tables_of_def)

lemma NumClear_disk: "disk_map bm \<Longrightarrow> NumClear bm = Inr (int (card (bm.free bm)))"
  by (simp add: disk_map_def NumClear_free)

lemma divRoundUp_int: "divRoundUp (int n) 32 = int ((n + 31) div 32)"
  by (simp add: divRoundUp_pos zdiv_int)

lemmas file_consts = hdr_consts SectorSize_def

lemma length_tables_of: "n \<le> 1064 \<Longrightarrow> length (tables_of st ds n) = index_sectors n"
  using ceil32(3) [of "n - 40"] by (auto simp: tables_of_def index_sectors_def)

text \<open>Growing takes as many free sectors as the file gains.\<close>

lemma grown_card_free:
  assumes "grown bm st ds p bm' st' ds' n" "p \<le> n" "n \<le> 1064"
  shows "card (bm.free bm') + (n - p) + index_sectors n = card (bm.free bm) + index_sectors p"
proof -
  obtain bs ts where b: "blocks_of st' ds' n = blocks_of st ds p @ bs"
    and t: "mset (tables_of st' ds' n) = mset (tables_of st ds p) + mset ts" and tk: "bm.took bm (bs @ ts) bm'"
    using assms(1) unfolding grown_def by blast
  have "length bs = n - p" using arg_cong [OF b, of length] by simp
  moreover have "index_sectors n = index_sectors p + length ts"
    using arg_cong [OF t, of size] assms(2,3) by (simp add: length_tables_of)
  ultimately show ?thesis using bm.took_card_free [OF tk] bm.took_length_le [OF tk] by simp
qed

section \<open>Allocate\<close>

lemma Allocate_direct:
  assumes dm: "disk_map bm" and wf: "store_wf st" and ds: "length (dataSectors h) = 10"
    and "divRoundUp fileSize SectorSize = int n" "n \<le> 8" "n \<le> card (bm.free bm)"
  shows "\<exists>ds' bm' st'. Allocate junk h bm st fileSize
      = Inr (True, h\<lparr>numBytes := fileSize, numSectors := int n, dataSectors := ds'\<rparr>, bm', st')
    \<and> grown bm st (dataSectors h) 0 bm' st' ds' n"
proof -
  have c: "n - 0 \<le> card (bm.free bm)" using assms(6) by simp
  obtain ds' bm' where f: "fill Find bm (dataSectors h) (int 0) (n - 0) = Inr (ds', bm')"
    and g: "grown bm st (dataSectors h) 0 bm' st ds' n"
    using grow_direct [OF dm wf ds _ assms(5) c] by blast
  have "u32 (int n) \<le> 8" using assms(5) by (subst u32_id) simp_all
  then have "Allocate junk h bm st fileSize
      = Inr (True, h\<lparr>numBytes := fileSize, numSectors := int n, dataSectors := ds'\<rparr>, bm', st)"
    using assms(4-6) f by (simp add: Allocate_def NumClear_disk [OF dm] hdr_consts)
  with g show ?thesis by blast
qed

lemma Allocate_single:
  assumes dm: "disk_map bm" and wf: "store_wf st" and ds: "length (dataSectors h) = 10"
    and "divRoundUp fileSize SectorSize = int n" "8 < n" "n \<le> 40" "n + 1 \<le> card (bm.free bm)"
  shows "\<exists>ds' bm' st'. Allocate junk h bm st fileSize
      = Inr (True, h\<lparr>numBytes := fileSize, numSectors := int n, dataSectors := ds'\<rparr>, bm', st')
    \<and> grown bm st (dataSectors h) 0 bm' st' ds' n"
proof -
  have c: "n - 0 + 1 \<le> card (bm.free bm)" using assms(7) by simp
  obtain ds1 bm1 t1 bm2 ds2 one bm3 st' where
    r: "fill Find bm (dataSectors h) (int 0) (8 - 0) = Inr (ds1, bm1)" "Find bm1 = Inr (t1, bm2)"
    "aset ds1 OneLevelIdx t1 = Inr ds2" "fill Find bm2 (local_array junk (-1)) 0 (n - 8) = Inr (one, bm3)"
    "write_table st t1 one = Inr st'" and g: "grown bm st (dataSectors h) 0 bm3 st' ds2 n"
    using grow_to_single [OF dm wf ds _ assms(5,6) c, of junk] by (metis zero_le)
  have u: "\<not> u32 (int n) \<le> 8" "u32 (int n) \<le> 40" using assms(5,6) by (simp_all add: u32_id)
  have e: "nat (int n - 8) = n - 8" by simp
  have "Allocate junk h bm st fileSize
      = Inr (True, h\<lparr>numBytes := fileSize, numSectors := int n, dataSectors := ds2\<rparr>, bm3, st')"
    using assms(4-7) r u by (simp add: Allocate_def NumClear_disk [OF dm] hdr_consts(1,2,5) not_less e)
  with g show ?thesis by blast
qed

lemma Allocate_double:
  assumes dm: "disk_map bm" and wf: "store_wf st" and ds: "length (dataSectors h) = 10"
    and "divRoundUp fileSize SectorSize = int n" "40 < n" "n + index_sectors n \<le> card (bm.free bm)"
  shows "\<exists>ds' bm' st'. Allocate junk h bm st fileSize
      = Inr (True, h\<lparr>numBytes := fileSize, numSectors := int n, dataSectors := ds'\<rparr>, bm', st')
    \<and> grown bm st (dataSectors h) 0 bm' st' ds' n"
proof -
  define k where "k = (n - 40 + 31) div 32"
  have ix: "index_sectors n = 2 + k" using assms(5) by (simp add: index_sectors_def k_def)
  have need: "n + (2 + k) \<le> card (bm.free bm)" using assms(6) ix by simp
  have n1: "n \<le> 1024" using need disk_map_card_free [OF dm] by linarith
  have c: "40 - 0 + 1 \<le> card (bm.free bm)" using assms(5) need by linarith
  have lt: "(0::nat) \<le> 8" "8 < (40::nat)" "(40::nat) \<le> 40" by simp_all
  obtain ds1 bm1 t1 bm2 ds2 one bm3 st1 where
    r: "fill Find bm (dataSectors h) (int 0) (8 - 0) = Inr (ds1, bm1)" "Find bm1 = Inr (t1, bm2)"
    "aset ds1 OneLevelIdx t1 = Inr ds2" "fill Find bm2 (local_array junk (-1)) 0 (40 - 8) = Inr (one, bm3)"
    "write_table st t1 one = Inr st1" and g: "grown bm st (dataSectors h) 0 bm3 st1 ds2 40"
    using grow_to_single [OF dm wf ds lt c, of junk] by metis
  have s: "sound bm3 st1 ds2 40" using grown_sound [OF sound_empty [OF dm wf ds] g] .
  have "card (bm.free bm3) + 41 = card (bm.free bm)"
    using grown_card_free [OF g] by (simp add: index_sectors_def)
  then have c2: "n - 40 + 1 + (n - 40 + 31) div 32 \<le> card (bm.free bm3)"
    using need assms(5) unfolding k_def [symmetric] by linarith
  have n2: "n \<le> 1064" using n1 by simp
  obtain t2 bm4 ds3 two bm5 st2 st3 where
    q: "Find bm3 = Inr (t2, bm4)" "aset ds2 TwoLevelIdx t2 = Inr ds3"
    "fill_tables junk bm4 st1 (local_array junk (-2)) (int (n - 40)) 0 k = Inr (two, bm5, st2)"
    "write_table st2 t2 two = Inr st3" and g2: "grown bm3 st1 ds2 40 bm5 st3 ds3 n"
    using grow_to_double [OF s assms(5) n2 c2, of junk] unfolding k_def [symmetric] by blast
  have u: "\<not> u32 (int n) \<le> 8" "\<not> u32 (int n) \<le> 40" "u32 (int n) \<le> 1064" using assms(5) n2 by (simp_all add: u32_id)
  have left: "int n - 8 - 32 = int (n - 40)" using assms(5) by simp
  have dr: "divRoundUp (int (n - 40)) 32 = int k" unfolding k_def by (rule divRoundUp_int)
  have nc: "\<not> int (card (bm.free bm)) < int n" "\<not> int (card (bm.free bm)) < int n + 1 + 1 + int k"
    using need by linarith+
  have "Allocate junk h bm st fileSize
      = Inr (True, h\<lparr>numBytes := fileSize, numSectors := int n, dataSectors := ds3\<rparr>, bm5, st3)"
    using r q u nc assms(4)
    by (simp add: Allocate_def NumClear_disk [OF dm] hdr_consts(1,2,5) Let_def left dr del: of_nat_diff)
  with grown_trans [OF g g2] show ?thesis by blast
qed

text \<open>A file freshly allocated: what it owns was free, and only that became used.\<close>

definition allocated :: "bitmap \<Rightarrow> store \<Rightarrow> bitmap \<Rightarrow> store \<Rightarrow> file_header \<Rightarrow> bool" where
  "allocated bm st bm' st' h \<longleftrightarrow> file_ok st' bm' h \<and> disk_map bm' \<and> store_wf st'
     \<and> set (owned st' h) \<inter> marked bm = {} \<and> marked bm' = marked bm \<union> set (owned st' h)
     \<and> (\<forall>s. s \<notin> set (tables st' h) \<longrightarrow> st' s = st s)"

lemma owned_upd [simp]:
  "blocks st (h\<lparr>numBytes := b, numSectors := int n, dataSectors := ds\<rparr>) = blocks_of st ds n"
  "tables st (h\<lparr>numBytes := b, numSectors := int n, dataSectors := ds\<rparr>) = tables_of st ds n"
  "owned st (h\<lparr>numBytes := b, numSectors := int n, dataSectors := ds\<rparr>) = blocks_of st ds n @ tables_of st ds n"
  by (simp_all add: blocks_def tables_def owned_def)

lemma file_ok_sound:
  assumes "file_ok st bm h" "disk_map bm" "store_wf st"
  shows "sound bm st (dataSectors h) (nat (numSectors h))" "nat (numSectors h) \<le> 1064"
    "length (dataSectors h) = 10" "int (nat (numSectors h)) = numSectors h"
  using assms by (auto simp: file_ok_def sound_def owned_def blocks_def tables_def hdr_consts nat_le_iff)

lemma sound_file_ok:
  "sound bm st ds n \<Longrightarrow> n \<le> 1064 \<Longrightarrow> file_ok st bm (h\<lparr>numBytes := b, numSectors := int n, dataSectors := ds\<rparr>)"
  by (simp add: file_ok_def sound_def hdr_consts del: set_append)

lemma grown_allocated:
  assumes "disk_map bm" "store_wf st" "length ds = 10" "grown bm st ds 0 bm' st' ds' n" "n \<le> 1064"
  shows "allocated bm st bm' st' (h\<lparr>numBytes := b, numSectors := int n, dataSectors := ds'\<rparr>)"
proof -
  have s: "sound bm' st' ds' n" using grown_sound [OF sound_empty [OF assms(1-3)] assms(4)] .
  obtain bs ts where g: "blocks_of st' ds' n = bs" "mset (tables_of st' ds' n) = mset ts" "bm.took bm (bs @ ts) bm'"
      "\<forall>s. s \<notin> set (tables_of st' ds' n) \<longrightarrow> st' s = st s"
    using assms(4) by (auto simp: grown_def blocks_of_def tables_of_def)
  have "set (blocks_of st' ds' n @ tables_of st' ds' n) = set (bs @ ts)" using g(1) mset_eq_setD [OF g(2)] by simp
  moreover have "set (bs @ ts) \<inter> marked bm = {}" using g(3) by (auto simp: bm.took_def bm.free_def)
  moreover have "disk_map bm'" "store_wf st'" using s by (simp_all add: sound_def)
  ultimately show ?thesis unfolding allocated_def
    using sound_file_ok [OF s assms(5)] g(4) bm.took_used [OF g(3)] by (simp only: owned_upd simp_thms)
qed

lemma Allocate_refuses:
  assumes dm: "disk_map bm" and n: "divRoundUp fileSize SectorSize = int n"
    and no: "card (bm.free bm) < n + index_sectors n"
  shows "Allocate junk h bm st fileSize = Inr (False, h\<lparr>numBytes := fileSize, numSectors := int n\<rparr>, bm, st)"
proof (cases "card (bm.free bm) < n")
  case True
  then show ?thesis using n by (simp add: Allocate_def NumClear_disk [OF dm])
next
  case False
  define c where "c = card (bm.free bm)"
  have n1: "n \<le> c" "c \<le> 1024" using False disk_map_card_free [OF dm] by (simp_all add: c_def)
  have u: "u32 (int n) = int n" using n1 by (intro u32_id) simp_all
  have k: "divRoundUp (int n - 8 - 32) 32 = int ((n - 40 + 31) div 32)" if "40 < n"
    using divRoundUp_int [of "n - 40"] that by simp
  have "8 < n" using no n1 by (simp add: index_sectors_def c_def split: if_splits)
  then show ?thesis using n no n1 u k unfolding c_def [symmetric]
    by (auto simp: Allocate_def NumClear_disk [OF dm] hdr_consts index_sectors_def Let_def c_def [symmetric])
qed

lemma Allocate_outcome:
  assumes dm: "disk_map bm" and wf: "store_wf st" and ds: "length (dataSectors h) = 10"
    and n: "divRoundUp fileSize SectorSize = int n"
  shows "if n + index_sectors n \<le> card (bm.free bm)
    then \<exists>h' bm' st'. Allocate junk h bm st fileSize = Inr (True, h', bm', st')
           \<and> numBytes h' = fileSize \<and> numSectors h' = int n \<and> allocated bm st bm' st' h'
    else Allocate junk h bm st fileSize = Inr (False, h\<lparr>numBytes := fileSize, numSectors := int n\<rparr>, bm, st)"
proof (cases "n + index_sectors n \<le> card (bm.free bm)")
  case True
  consider "n \<le> 8" | "8 < n" "n \<le> 40" | "40 < n" by linarith
  then obtain ds' bm' st' where r: "Allocate junk h bm st fileSize
      = Inr (True, h\<lparr>numBytes := fileSize, numSectors := int n, dataSectors := ds'\<rparr>, bm', st')"
    and g: "grown bm st (dataSectors h) 0 bm' st' ds' n"
  proof cases
    case 1
    have "n \<le> card (bm.free bm)" using True by simp
    then show ?thesis using that Allocate_direct [OF dm wf ds n 1, of junk] by blast
  next
    case 2
    have "n + 1 \<le> card (bm.free bm)" using True 2 by (simp add: index_sectors_def)
    then show ?thesis using that Allocate_single [OF dm wf ds n 2, of junk] by blast
  next
    case 3
    show ?thesis using that Allocate_double [OF dm wf ds n 3 True, of junk] by blast
  qed
  have "n \<le> 1064" using True disk_map_card_free [OF dm] by linarith
  from grown_allocated [OF dm wf ds g this] r True show ?thesis by fastforce
next
  case False
  then show ?thesis using Allocate_refuses [OF dm n] by simp
qed

section \<open>ByteToSector\<close>

lemma file_sector:
  assumes "file_ok st bm h" "disk_map bm" "s \<in> set (owned st h)"
  shows "0 \<le> s" "s < NumSectors" "read_table st s = Inr (tbl st s)"
  using assms disk_map_sector [of bm s] read_table_ok [of s st] by (auto simp: file_ok_def)

lemma ByteToSector_block:
  assumes ok: "file_ok st bm h" "disk_map bm" and off: "0 \<le> off" "off < numSectors h * SectorSize"
  shows "ByteToSector h st off = Inr (blocks st h ! nat (off div SectorSize))"
proof -
  define k where "k = nat (off div 128)"
  have k: "off div 128 = int k" using off(1) by (simp add: k_def)
  have kn: "k < nat (numSectors h)" using off by (simp add: k_def SectorSize_def nat_less_iff int_div_less_iff)
  have ds: "length (dataSectors h) = 10" and n: "numSectors h \<le> 1064" using ok(1) by (simp_all add: file_ok_def hdr_consts)
  have b: "blocks st h ! k = block_at st (dataSectors h) k" using kn by (simp add: blocks_def blocks_of_def)
  have rd: "read_table st s = Inr (tbl st s)" if "s \<in> set (tables st h)" for s
    using file_sector(3) [OF ok, of s] that by (simp add: owned_def)
  note c = hdr_consts SectorSize_def Let_def
  consider "k < 8" | "8 \<le> k" "k < 40" | "40 \<le> k" by linarith
  then have "ByteToSector h st off = Inr (block_at st (dataSectors h) k)"
  proof cases
    case 1
    then have "off < 1024" using k by linarith
    with 1 ds off(1) k show ?thesis by (simp add: ByteToSector_def c sdiv_pos aget_ok block_at_def)
  next
    case 2
    then have o: "\<not> off < 1024" "off < 5120" using k by linarith+
    have i: "(off - 1024) div 128 = int k - 8" using k by (simp add: div_diff)
    have "dataSectors h ! 8 \<in> set (tables st h)" using 2(1) kn by (simp add: tables_def tables_of_def)
    then show ?thesis using 2 o i ds by (simp add: ByteToSector_def c sdiv_pos aget_ok rd block_at_def nat_diff_distrib)
  next
    case 3
    then have o: "\<not> off < 1024" "\<not> off < 5120" using k by linarith+
    let ?two = "tbl st (dataSectors h ! 9)" and ?q = "(k - 40) div 32" and ?r = "(k - 40) mod 32"
    have e: "off - 5120 = 128 * int (k - 40) + off mod 128" using k 3 mult_div_mod_eq [of 128 off] by simp
    define m where "m = off mod 128"
    have mr: "0 \<le> m" "m < 128" by (simp_all add: m_def)
    have i: "(off - 5120) div 4096 = int ?q" "((off - 5120) mod 4096) div 128 = int ?r"
    proof -
      have d: "(off - 5120) div 128 = int (k - 40)" unfolding e m_def [symmetric] using mr by simp
      have "(off - 5120) div 4096 = (off - 5120) div 128 div 32" by (simp add: zdiv_zmult2_eq [symmetric])
      then show "(off - 5120) div 4096 = int ?q" unfolding d by (simp add: zdiv_int)
      have "(off - 5120) mod 4096 = 128 * ((off - 5120) div 128 mod 32) + (off - 5120) mod 128"
        using zmod_zmult2_eq [of 32 "off - 5120" 128] by simp
      then show "((off - 5120) mod 4096) div 128 = int ?r" unfolding d by (simp add: zmod_int)
    qed
    have q32: "?q < 32" using kn n 3 by (simp add: less_mult_imp_div_less)
    have lt: "k - 40 < nat (numSectors h) - 40" using kn 3 by linarith
    have "?q < (nat (numSectors h) - 40 + 31) div 32"
      using ceil32(1) [of "nat (numSectors h) - 40"] lt by (simp add: less_mult_imp_div_less)
    then have "?two ! ?q \<in> set (take ((nat (numSectors h) - 40 + 31) div 32) ?two)"
      using q32 by (metis in_set_conv_nth length_take length_tbl min_less_iff_conj nth_take)
    then have t: "dataSectors h ! 9 \<in> set (tables st h)" "?two ! ?q \<in> set (tables st h)"
      using 3 kn by (simp_all add: tables_def tables_of_def)
    have "off \<ge> 5120" using o by simp
    then show ?thesis using 3 o i ds q32 rd [OF t(1)] rd [OF t(2)]
      by (simp add: ByteToSector_def c sdiv_pos smod_pos aget_ok block_at_def)
  qed
  then show ?thesis using b k by (simp add: SectorSize_def)
qed

section \<open>Deallocate\<close>

lemma gave_disk_map: "disk_map bm \<Longrightarrow> bm.gave bm A bm' \<Longrightarrow> disk_map bm'"
  by (simp add: disk_map_def bm.gave_def)

lemma gave_used: "bm.gave bm A bm' \<Longrightarrow> marked bm' = marked bm - A"
  by (simp add: bm.gave_def)

text \<open>Releasing the first \<open>n\<close> entries of an array.\<close>

lemma release_prefix:
  assumes "disk_map bm" "n \<le> length arr" "distinct (take n arr)" "set (take n arr) \<subseteq> marked bm"
  shows "\<exists>bm'. release Test Clear bm arr 0 n = Inr bm' \<and> bm.gave bm (set (take n arr)) bm' \<and> disk_map bm'"
  using bm.release_gave [of bm 0 n arr] gave_disk_map [OF assms(1)] assms
  by (auto simp: disk_map_def)

lemma release_one_ok:
  assumes "disk_map bm" "s \<in> marked bm"
  shows "\<exists>bm'. release_one bm s = Inr bm' \<and> bm.gave bm {s} bm' \<and> disk_map bm'"
proof -
  have wf: "bm_wf bm" and r: "0 \<le> s" "s < numBits bm"
    using assms disk_map_sector [OF assms] by (simp_all add: disk_map_def)
  from Clear_marked [OF wf r] obtain bm' where "Clear bm s = Inr bm'" "bm_wf bm'" "numBits bm' = numBits bm"
      "marked bm' = marked bm - {s}" by blast
  then show ?thesis using assms Test_marked [OF wf r]
    by (simp add: release_one_def bm.gave_def disk_map_def)
qed

text \<open>The sectors behind the second-level tables \<open>i\<close>, \<open>i + 1\<close>, \dots, each table after its sectors.\<close>

definition chunk :: "store \<Rightarrow> int list \<Rightarrow> nat \<Rightarrow> nat \<Rightarrow> int list" where
  "chunk st two len q = take (min 32 (len - 32 * q)) (tbl st (two ! q))"

fun chunks_from :: "store \<Rightarrow> int list \<Rightarrow> nat \<Rightarrow> nat \<Rightarrow> nat \<Rightarrow> int list" where
  "chunks_from st two len i 0 = []"
| "chunks_from st two len i (Suc n) = chunk st two len i @ two ! i # chunks_from st two len (Suc i) n"

lemma mset_chunks_from:
  "i + n \<le> length two \<Longrightarrow> mset (chunks_from st two len i n)
   = mset (concat (map (chunk st two len) [i..<i + n]) @ take n (drop i two))"
proof (induction n arbitrary: i)
  case (Suc n)
  have "[i..<i + Suc n] = i # [Suc i..<Suc i + n]" by (simp add: upt_conv_Cons)
  moreover have "take (Suc n) (drop i two) = two ! i # take n (drop (Suc i) two)"
    using Suc.prems by (simp add: Cons_nth_drop_Suc [symmetric])
  ultimately show ?case using Suc.IH [of "Suc i"] Suc.prems by (simp add: union_ac)
qed simp

lemma dealloc_tables_ok:
  assumes "disk_map bm" "length two = 32" "i + n \<le> 32" "i + n = (len + 31) div 32"
    and "distinct (chunks_from st two len i n)" "set (chunks_from st two len i n) \<subseteq> marked bm"
  shows "\<exists>bm'. dealloc_tables bm st two (40 + int len) (40 + int (min len (32 * i))) (int i) = Inr bm'
    \<and> bm.gave bm (set (chunks_from st two len i n)) bm' \<and> disk_map bm'"
  using assms
proof (induction n arbitrary: bm i)
  case 0
  then have "len \<le> 32 * i" using ceil32(1) [of len] by simp
  with 0 show ?case by (simp add: dealloc_tables.simps [of bm] bm.gave_def disk_map_def)
next
  case (Suc n)
  have lt: "32 * i < len"
  proof (rule ccontr)
    assume "\<not> 32 * i < len"
    then have "(len + 31) div 32 \<le> (32 * i + 31) div 32" by (intro div_le_mono) simp
    with Suc.prems(4) show False by simp
  qed
  let ?t = "two ! i" and ?k = "min 32 (len - 32 * i)"
  let ?ch = "chunk st two len i" and ?rest = "chunks_from st two len (Suc i) n"
  have i32: "i < 32" using Suc.prems(3) by simp
  have t: "?t \<in> marked bm" using Suc.prems(6) by simp
  have rd: "read_table st ?t = Inr (tbl st ?t)" using disk_map_sector [OF Suc.prems(1) t] read_table_ok by blast
  have ch: "?ch = take ?k (tbl st ?t)" by (simp add: chunk_def)
  have "distinct (take ?k (tbl st ?t))" "set (take ?k (tbl st ?t)) \<subseteq> marked bm"
    using Suc.prems(5,6) unfolding ch [symmetric] by simp_all
  then obtain bm1 where r1: "release Test Clear bm (tbl st ?t) 0 ?k = Inr bm1"
    and g1: "bm.gave bm (set ?ch) bm1" and d1: "disk_map bm1"
    using release_prefix [OF Suc.prems(1), of ?k "tbl st ?t"] unfolding ch by auto
  have "?t \<in> marked bm1" using t Suc.prems(5) gave_used [OF g1] by auto
  then obtain bm2 where r2: "release_one bm1 ?t = Inr bm2" and g2: "bm.gave bm1 {?t} bm2" and d2: "disk_map bm2"
    using release_one_ok [OF d1] by blast
  have "set ?rest \<subseteq> marked bm2" using Suc.prems(5,6) gave_used [OF g1] gave_used [OF g2] by auto
  then obtain bm3 where
    r3: "dealloc_tables bm2 st two (40 + int len) (40 + int (min len (32 * Suc i))) (int (Suc i)) = Inr bm3"
    and g3: "bm.gave bm2 (set ?rest) bm3" and d3: "disk_map bm3"
    using Suc.IH [OF d2 Suc.prems(2), of "Suc i"] Suc.prems(3-5) by auto
  have guard: "40 + int (min len (32 * i)) < 40 + int len" "int i < LevelNum"
    using lt i32 by (simp_all add: hdr_consts)
  have two: "aget two (int i) = Inr ?t" using Suc.prems(2) i32 by (simp add: aget_ok)
  have k: "min LevelNum (40 + int len - (40 + int (min len (32 * i)))) = int ?k"
  proof -
    have "int (min len (32 * i)) = 32 * int i" "int ?k = min 32 (int len - 32 * int i)"
      using lt by (simp_all add: of_nat_diff)
    then show ?thesis by (simp add: hdr_consts)
  qed
  have nx: "40 + int (min len (32 * i)) + int ?k = 40 + int (min len (32 * Suc i))" "int i + 1 = int (Suc i)"
    using lt by (cases "32 \<le> len - 32 * i"; simp)+
  have "dealloc_tables bm st two (40 + int len) (40 + int (min len (32 * i))) (int i) = Inr bm3"
    using guard two rd r1 r2 r3
    by (simp only: dealloc_tables.simps [of bm] simp_thms if_True rbind_Inr Let_def k nx nat_int)
  moreover have "bm.gave bm (set (chunks_from st two len i (Suc n))) bm3"
    using bm.gave_trans [OF bm.gave_trans [OF g1 g2] g3] by (simp add: Un_assoc)
  ultimately show ?case using d3 by blast
qed

lemma chunks_blocks:
  assumes "length ds = 10" "40 \<le> n" "n \<le> 1064"
  defines "K \<equiv> (n - 40 + 31) div 32"
  shows "mset (take 8 ds @ tbl st (ds ! 8) @ ds ! 8 # chunks_from st (tbl st (ds ! 9)) (n - 40) 0 K @ [ds ! 9])
    = mset (blocks_of st ds n @ (ds ! 8 # ds ! 9 # take K (tbl st (ds ! 9))))"
proof -
  let ?yss = "map (chunk st (tbl st (ds ! 9)) (n - 40)) [0..<K]"
  have K: "K \<le> 32" using ceil32(3) [of "n - 40"] assms(3) by (simp add: K_def)
  have "chunked (n - 40) ?yss" by (simp add: chunked_def chunk_def K_def)
  moreover have "take (length (?yss ! q)) (tbl st (tbl st (ds ! 9) ! q)) = ?yss ! q" if "q < length ?yss" for q
    using that by (simp add: chunk_def)
  ultimately have "blocks_of st ds n = take 8 ds @ tbl st (ds ! 8) @ concat ?yss"
    by (rule blocks_chunked [OF assms(2,1)])
  moreover have "mset (chunks_from st (tbl st (ds ! 9)) (n - 40) 0 K) = mset (concat ?yss @ take K (tbl st (ds ! 9)))"
    using mset_chunks_from [of 0 K "tbl st (ds ! 9)"] K by simp
  ultimately show ?thesis by (simp add: union_ac)
qed

lemma owned_split:
  assumes "file_ok st bm h" "disk_map bm"
  defines "ds \<equiv> dataSectors h" and "n \<equiv> nat (numSectors h)"
  shows "mset (owned st h) = mset (take (min n 8) ds
      @ (if 8 < n then take (min (n - 8) 32) (tbl st (ds ! 8)) @ [ds ! 8] else [])
      @ (if 40 < n then chunks_from st (tbl st (ds ! 9)) (n - 40) 0 ((n - 40 + 31) div 32) @ [ds ! 9] else []))"
proof -
  have ds: "length ds = 10" and n: "n \<le> 1064"
    using assms(1) by (auto simp: file_ok_def hdr_consts ds_def n_def nat_le_iff)
  have o: "owned st h = blocks_of st ds n @ tables_of st ds n"
    by (simp add: owned_def blocks_def tables_def ds_def n_def)
  consider "n \<le> 8" | "8 < n" "n \<le> 40" | "40 < n" by linarith
  then show ?thesis
  proof cases
    case 1
    with ds show ?thesis by (simp add: o blocks_direct tables_of_def)
  next
    case 2
    with ds show ?thesis by (simp add: o blocks_single tables_of_def)
  next
    case 3
    then have "40 \<le> n" by simp
    from chunks_blocks [OF ds this n, of st] 3 ds show ?thesis
      by (simp add: o tables_of_def union_ac)
  qed
qed

lemma distinct_parts:
  assumes "mset xs = mset (a @ b @ c)" "distinct xs"
  shows "distinct a" "distinct b" "distinct c" "set a \<inter> set b = {}" "set a \<inter> set c = {}" "set b \<inter> set c = {}"
    "set xs = set a \<union> set b \<union> set c"
  using assms(2) mset_eq_imp_distinct_iff [OF assms(1)] mset_eq_setD [OF assms(1)] by auto

lemma Deallocate_gives_back:
  assumes ok: "file_ok st bm h" "disk_map bm"
  shows "\<exists>bm'. Deallocate h bm st = Inr bm' \<and> disk_map bm' \<and> marked bm' = marked bm - set (owned st h)"
proof -
  define n where "n = nat (numSectors h)"
  let ?ds = "dataSectors h" and ?one = "tbl st (dataSectors h ! 8)" and ?two = "tbl st (dataSectors h ! 9)"
  let ?K = "(n - 40 + 31) div 32"
  have ds: "length ?ds = 10" and ns: "numSectors h = int n" and n: "n \<le> 1064"
    using ok(1) by (auto simp: file_ok_def hdr_consts n_def nat_le_iff)
  have u: "u32 (int n) = int n" using n by (intro u32_id) simp_all
  define a where "a = take (min n 8) ?ds"
  define b where "b = (if 8 < n then take (min (n - 8) 32) ?one @ [?ds ! 8] else [])"
  define c where "c = (if 40 < n then chunks_from st ?two (n - 40) 0 ?K @ [?ds ! 9] else [])"
  have ms: "mset (owned st h) = mset (a @ b @ c)"
    using owned_split [OF ok] unfolding a_def b_def c_def n_def [symmetric] .
  have dist: "distinct (owned st h)" and sub: "set (owned st h) \<subseteq> marked bm" using ok(1) by (simp_all add: file_ok_def)
  note parts = distinct_parts [OF ms dist]
  obtain bm1 where r1: "release Test Clear bm ?ds 0 (min n 8) = Inr bm1" and g1: "bm.gave bm (set a) bm1" and d1: "disk_map bm1"
  proof -
    have "min n 8 \<le> length ?ds" "distinct (take (min n 8) ?ds)" "set (take (min n 8) ?ds) \<subseteq> marked bm"
      using ds parts(1,7) sub unfolding a_def [symmetric] by simp_all
    from release_prefix [OF ok(2) this] show ?thesis using that unfolding a_def by blast
  qed
  have u1: "marked bm1 = marked bm - set a" using gave_used [OF g1] .
  note c0 = hdr_consts(2-5) u ns
  show ?thesis
  proof (cases "8 < n")
    case False
    then have "Deallocate h bm st = Inr bm1" using r1 by (simp add: Deallocate_def c0 min_def)
    moreover have "set (owned st h) = set a" using parts(7) False by (simp add: b_def c_def)
    ultimately show ?thesis using d1 u1 by simp
  next
    case True
    let ?m = "min (n - 8) 32"
    have b: "b = take ?m ?one @ [?ds ! 8]" using True by (simp add: b_def)
    have b1: "distinct (take ?m ?one)" "set b \<subseteq> marked bm1" using parts b sub u1 by auto
    obtain bm2 where r2: "release Test Clear bm1 ?one 0 ?m = Inr bm2" and g2: "bm.gave bm1 (set (take ?m ?one)) bm2"
      and d2: "disk_map bm2"
      using release_prefix [OF d1, of ?m ?one] b b1 by auto
    have "?ds ! 8 \<in> marked bm2" using gave_used [OF g2] b1(2) parts(2) b by auto
    then obtain bm3 where r3: "release_one bm2 (?ds ! 8) = Inr bm3" and g3: "bm.gave bm2 {?ds ! 8} bm3" and d3: "disk_map bm3"
      using release_one_ok [OF d2] by blast
    have u3: "marked bm3 = marked bm - set a - set b" using gave_used [OF g2] gave_used [OF g3] u1 b by auto
    have rd: "read_table st (?ds ! 8) = Inr ?one" using file_sector(3) [OF ok] parts(7) b by auto
    have ag: "aget ?ds 8 = Inr (?ds ! 8)" using ds by (simp add: aget_ok)
    have mi: "nat (min (int n) 8) = min n 8" "nat (min (int n - 8) 32) = ?m" "nat (int n - 8) = n - 8" using True by auto
    show ?thesis
    proof (cases "40 < n")
      case False
      then have "Deallocate h bm st = Inr bm3" using True r1 r2 r3 rd ag
        by (simp add: Deallocate_def c0 mi Let_def)
      moreover have "set (owned st h) = set a \<union> set b" using parts(7) False by (simp add: c_def)
      ultimately show ?thesis using d3 u3 by (simp add: Diff_eq Int_assoc)
    next
      case T2: True
      have c: "c = chunks_from st ?two (n - 40) 0 ?K @ [?ds ! 9]" using T2 by (simp add: c_def)
      have cm: "set c \<subseteq> marked bm3" using u3 parts sub by auto
      have K: "?K \<le> 32" using ceil32(3) [of "n - 40"] n by simp
      have ch: "distinct (chunks_from st ?two (n - 40) 0 ?K)" "set (chunks_from st ?two (n - 40) 0 ?K) \<subseteq> marked bm3"
        using c parts(3) cm by auto
      have "\<exists>bm4. dealloc_tables bm3 st ?two (40 + int (n - 40)) (40 + int (min (n - 40) (32 * 0))) (int 0) = Inr bm4
          \<and> bm.gave bm3 (set (chunks_from st ?two (n - 40) 0 ?K)) bm4 \<and> disk_map bm4"
        by (rule dealloc_tables_ok [OF d3 length_tbl _ _ ch]) (use K in simp_all)
      moreover have "40 + int (n - 40) = int n" using T2 by simp
      ultimately obtain bm4 where r4: "dealloc_tables bm3 st ?two (int n) 40 0 = Inr bm4"
        and g4: "bm.gave bm3 (set (chunks_from st ?two (n - 40) 0 ?K)) bm4" and d4: "disk_map bm4" by auto
      have "?ds ! 9 \<in> marked bm4" using gave_used [OF g4] cm c parts(3) by auto
      then obtain bm5 where r5: "release_one bm4 (?ds ! 9) = Inr bm5" and g5: "bm.gave bm4 {?ds ! 9} bm5" and d5: "disk_map bm5"
        using release_one_ok [OF d4] by blast
      have u5: "marked bm5 = marked bm - set a - set b - set c" using gave_used [OF g4] gave_used [OF g5] u3 c by auto
      have rd2: "read_table st (?ds ! 9) = Inr ?two" using file_sector(3) [OF ok] parts(7) c by auto
      have ag2: "aget ?ds 9 = Inr (?ds ! 9)" using ds by (simp add: aget_ok)
      have "Deallocate h bm st = Inr bm5" using True T2 r1 r2 r3 r4 r5 rd ag rd2 ag2
        by (simp add: Deallocate_def c0 mi)
      then show ?thesis using d5 u5 parts(7) by auto
    qed
  qed
qed

section \<open>What the file system relies on\<close>

text \<open>C14: \<open>Allocate\<close> succeeds exactly when the disk has room for the data sectors and the index
  tables. Then the header describes the requested length, its sectors and tables are distinct,
  were free and are the only ones newly marked, and nothing else on the disk changes; otherwise
  bitmap and disk stay as they are.\<close>

theorem Allocate_spec:
  assumes "disk_map bm" and "store_wf st" and "length (dataSectors h) = 10"
    and "divRoundUp fileSize SectorSize = int n"
  shows "if n + index_sectors n \<le> card (bm.free bm)
    then \<exists>h' bm' st'. Allocate junk h bm st fileSize = Inr (True, h', bm', st')
           \<and> numBytes h' = fileSize \<and> numSectors h' = int n \<and> allocated bm st bm' st' h'
    else Allocate junk h bm st fileSize = Inr (False, h\<lparr>numBytes := fileSize, numSectors := int n\<rparr>, bm, st)"
  by (rule Allocate_outcome [OF assms])

theorem Allocate_spec_witness:
  "\<exists>h' bm' st'. Allocate (\<lambda>_ _. 0) (sample_header 0) (sample_map 0) zero_store 6000 = Inr (True, h', bm', st')
     \<and> numSectors h' = 47 \<and> allocated (sample_map 0) zero_store bm' st' h'"
proof -
  have "divRoundUp 6000 SectorSize = int 47" by (simp add: divRoundUp_def SectorSize_def)
  from Allocate_spec [where junk = "\<lambda>_ _. 0" and h = "sample_header 0", OF sample_map_wf(1) zero_store_wf _ this, of 0]
  show ?thesis by (auto simp: index_sectors_def)
qed

text \<open>\<open>ByteToSector\<close> finds, through direct, single and double index, the sector of the list of
  the file's data sectors that holds the byte, and stops on no assertion.\<close>

theorem ByteToSector_blocks:
  assumes "file_ok st bm h" "disk_map bm" "0 \<le> off" "off < numSectors h * SectorSize"
  shows "ByteToSector h st off = Inr (blocks st h ! nat (off div SectorSize))"
  by (rule ByteToSector_block [OF assms])

theorem ByteToSector_blocks_witness:
  "ByteToSector (sample_header 8) zero_store 700 = Inr (blocks zero_store (sample_header 8) ! 5)"
  using ByteToSector_blocks [of zero_store "sample_map (-1)" "sample_header 8" 700] by (simp add: SectorSize_def)

text \<open>\<open>Deallocate\<close> clears exactly the sectors and index tables the file owns; none of its
  assertions fails.\<close>

theorem Deallocate_owned:
  assumes "file_ok st bm h" "disk_map bm"
  shows "\<exists>bm'. Deallocate h bm st = Inr bm' \<and> disk_map bm' \<and> marked bm' = marked bm - set (owned st h)"
  by (rule Deallocate_gives_back [OF assms])

theorem Deallocate_owned_witness:
  "\<exists>bm'. Deallocate (sample_header 3) (sample_map (-1)) zero_store = Inr bm' \<and> marked bm' = {3..<1024}"
proof -
  have "int ` {0..<3} = {0..<3}" using image_int_atLeastLessThan [of 0 3] by simp
  then have e: "{0..<1024} - int ` {0..<3} = {3..<1024::int}" by auto
  show ?thesis using Deallocate_owned [of zero_store "sample_map (-1)" "sample_header 3"] e by auto
qed

text \<open>Allocating a file and deallocating it gives back the bitmap's marks.\<close>

theorem Allocate_Deallocate:
  assumes "disk_map bm" "store_wf st" "length (dataSectors h) = 10" "0 \<le> fileSize"
    and "Allocate junk h bm st fileSize = Inr (True, h', bm', st')"
  shows "\<exists>bm''. Deallocate h' bm' st' = Inr bm'' \<and> marked bm'' = marked bm"
proof -
  have n: "divRoundUp fileSize SectorSize = int (nat (divRoundUp fileSize SectorSize))"
    using divRoundUp_nonneg [of fileSize SectorSize] assms(4) by (simp add: SectorSize_def)
  have "allocated bm st bm' st' h'"
    using Allocate_outcome [OF assms(1-3) n, of junk] assms(5) by (auto split: if_splits)
  then have a: "file_ok st' bm' h'" "disk_map bm'" "set (owned st' h') \<inter> marked bm = {}"
      "marked bm' = marked bm \<union> set (owned st' h')" by (simp_all add: allocated_def)
  from Deallocate_gives_back [OF a(1,2)] a(3,4) show ?thesis by auto
qed

theorem Allocate_Deallocate_witness:
  "\<exists>h' bm' st' bm''. Allocate (\<lambda>_ _. 0) (sample_header 0) (sample_map 0) zero_store 6000 = Inr (True, h', bm', st')
     \<and> Deallocate h' bm' st' = Inr bm'' \<and> marked bm'' = {}"
proof -
  have "divRoundUp 6000 SectorSize = int 47" by (simp add: divRoundUp_def SectorSize_def)
  from Allocate_outcome [where junk = "\<lambda>_ _. 0" and h = "sample_header 0", OF sample_map_wf(1) zero_store_wf _ this, of 0]
  obtain h' bm' st' where r: "Allocate (\<lambda>_ _. 0) (sample_header 0) (sample_map 0) zero_store 6000 = Inr (True, h', bm', st')"
    by (auto simp: index_sectors_def)
  from Allocate_Deallocate [OF _ _ _ _ r] r show ?thesis by simp
qed

end
