(* ===== verification/FileExpand.thy ===== *)
theory FileExpand
  imports FileOps
begin

text \<open>
  \<open>ExpandFileSize\<close> (filesys/filehdr.cc): growing a file by whole sectors, from any of the three
  shapes of its index to any larger one. Each branch is shown to extend the file's list of
  sectors by free ones when the disk really has room (\<open>ExpandFileSize_grows\<close>). The tests the
  code makes beforehand are stated as \<open>expand_check\<close>; where they differ from the room that is
  needed, the last section shows what happens.
\<close>

section \<open>What the code checks\<close>

text \<open>The test on the number \<open>c\<close> of clear sectors when a file of \<open>p\<close> sectors is to have \<open>n\<close>.\<close>

definition expand_check :: "nat \<Rightarrow> nat \<Rightarrow> nat \<Rightarrow> bool" where
  "expand_check p n c \<longleftrightarrow> n = p \<or> (n - p \<le> c \<and>
     (if n \<le> 8 then True
      else if p \<le> 8 \<and> n \<le> 40 then n - p + 1 \<le> c
      else if n \<le> 40 then True
      else if p \<le> 8 then p + 1 + 1 + (n - 40 + 31) div 32 \<le> c
      else if p \<le> 40 then p + 1 + (n - 40 + 31) div 32 \<le> c
      else (n - 40 + 31) div 32 = (p - 40 + 31) div 32 \<or> n - p + 1 \<le> c))"

text \<open>The room that is needed: the new data sectors and the new index tables.\<close>

definition expand_need :: "nat \<Rightarrow> nat \<Rightarrow> nat" where
  "expand_need p n = (n + index_sectors n) - (p + index_sectors p)"

text \<open>The hypotheses every branch shares: a file of \<open>p\<close> sectors in good order, to have \<open>n\<close> after
  \<open>eb\<close> further bytes.\<close>

definition expanding :: "bitmap \<Rightarrow> store \<Rightarrow> file_header \<Rightarrow> int \<Rightarrow> nat \<Rightarrow> nat \<Rightarrow> bool" where
  "expanding bm st h eb p n \<longleftrightarrow> sound bm st (dataSectors h) p \<and> numSectors h = int p \<and> p \<le> n \<and> 0 \<le> eb
     \<and> divRoundUp (numBytes h + eb) SectorSize = int n"

definition expands :: "junk \<Rightarrow> bitmap \<Rightarrow> store \<Rightarrow> file_header \<Rightarrow> int \<Rightarrow> nat \<Rightarrow> nat \<Rightarrow> bool" where
  "expands junk bm st h eb p n \<longleftrightarrow> (\<exists>ds' bm' st'.
     ExpandFileSize junk h bm st eb = Inr (True,
       h\<lparr>numBytes := numBytes h + eb, numSectors := int n, dataSectors := ds'\<rparr>, bm', st')
   \<and> grown bm st (dataSectors h) p bm' st' ds' n)"

lemma expandsI:
  assumes "ExpandFileSize junk h bm st eb = Inr (True,
       h\<lparr>numBytes := numBytes h + eb, numSectors := int n, dataSectors := ds'\<rparr>, bm', st')"
    and "grown bm st (dataSectors h) p bm' st' ds' n"
  shows "expands junk bm st h eb p n"
  unfolding expands_def using assms by blast

lemma expandingD:
  assumes "expanding bm st h eb p n"
  shows "sound bm st (dataSectors h) p" "disk_map bm" "store_wf st" "length (dataSectors h) = 10"
    "numSectors h = int p" "\<not> eb < 0" "divRoundUp (numBytes h + eb) SectorSize = int n" "p \<le> n"
  using assms by (simp_all add: expanding_def sound_def)

lemma u32_nat [simp]: "n \<le> 2000 \<Longrightarrow> u32 (int n) = int n"
  by (intro u32_id) simp_all

lemma second_tables: "40 < n \<Longrightarrow> divRoundUp (int n - 8 - 32) 32 = int ((n - 40 + 31) div 32)"
  using divRoundUp_int [of "n - 40"] by simp

section \<open>Each branch\<close>

lemma expand_direct:
  assumes e: "expanding bm st h eb p n" and n: "p < n" "n \<le> 8" and c: "n - p \<le> card (bm.free bm)"
  shows "expands junk bm st h eb p n"
proof -
  note a = expandingD [OF e]
  obtain ds' bm' where f: "fill Find bm (dataSectors h) (int p) (n - p) = Inr (ds', bm')"
    and g: "grown bm st (dataSectors h) p bm' st ds' n"
    using grow_direct [OF a(2-4,8) n(2) c] by blast
  have d: "\<not> int n - int p > int (card (bm.free bm))" "nat (int n - int p) = n - p" using n c by linarith+
  have "ExpandFileSize junk h bm st eb = Inr (True,
       h\<lparr>numBytes := numBytes h + eb, numSectors := int n, dataSectors := ds'\<rparr>, bm', st)"
    using n a f d by (simp add: ExpandFileSize_def Let_def NumClear_disk hdr_consts(1,2,5))
  then show ?thesis using g by (rule expandsI)
qed

lemma expand_to_single:
  assumes e: "expanding bm st h eb p n" and n: "p \<le> 8" "8 < n" "n \<le> 40" and c: "n - p + 1 \<le> card (bm.free bm)"
  shows "expands junk bm st h eb p n"
proof -
  note a = expandingD [OF e]
  obtain ds1 bm1 t1 bm2 ds2 one bm3 st' where
    r: "fill Find bm (dataSectors h) (int p) (8 - p) = Inr (ds1, bm1)" "Find bm1 = Inr (t1, bm2)"
    "aset ds1 OneLevelIdx t1 = Inr ds2" "fill Find bm2 (local_array junk (-1)) 0 (n - 8) = Inr (one, bm3)"
    "write_table st t1 one = Inr st'" and g: "grown bm st (dataSectors h) p bm3 st' ds2 n"
    using grow_to_single [OF a(2-4) n c, of junk] by metis
  have d: "\<not> int n - int p > int (card (bm.free bm))" "\<not> int n - int p + 1 > int (card (bm.free bm))"
      "nat (8 - int p) = 8 - p" "nat (int n - 8) = n - 8" "int n \<noteq> int p"
    using n c by linarith+
  have "ExpandFileSize junk h bm st eb = Inr (True,
       h\<lparr>numBytes := numBytes h + eb, numSectors := int n, dataSectors := ds2\<rparr>, bm3, st')"
    using n a r d by (simp add: ExpandFileSize_def Let_def NumClear_disk hdr_consts(1,2,5))
  then show ?thesis using g by (rule expandsI)
qed

lemma expand_single:
  assumes e: "expanding bm st h eb p n" and n: "8 < p" "p < n" "n \<le> 40" and c: "n - p \<le> card (bm.free bm)"
  shows "expands junk bm st h eb p n"
proof -
  note a = expandingD [OF e]
  obtain one bm' st' where r: "aget (dataSectors h) OneLevelIdx = Inr (dataSectors h ! 8)"
    "read_table st (dataSectors h ! 8) = Inr (tbl st (dataSectors h ! 8))"
    "fill Find bm (tbl st (dataSectors h ! 8)) (int (p - 8)) (n - p) = Inr (one, bm')"
    "write_table st (dataSectors h ! 8) one = Inr st'" and g: "grown bm st (dataSectors h) p bm' st' (dataSectors h) n"
    using grow_single [OF a(1) n(1) a(8) n(3) c] by blast
  have d: "\<not> int n - int p > int (card (bm.free bm))" "int p - 8 = int (p - 8)" "nat (int n - int p) = n - p" "int n \<noteq> int p"
    using n c by linarith+
  have "ExpandFileSize junk h bm st eb = Inr (True,
       h\<lparr>numBytes := numBytes h + eb, numSectors := int n, dataSectors := dataSectors h\<rparr>, bm', st')"
    using n a r d by (simp add: ExpandFileSize_def Let_def NumClear_disk hdr_consts(1,2,5) del: of_nat_diff)
  then show ?thesis using g by (rule expandsI)
qed

lemma expand_direct_to_double:
  assumes e: "expanding bm st h eb p n" and n: "p \<le> 8" "40 < n" "n \<le> 1064"
    and c: "n - p + 2 + (n - 40 + 31) div 32 \<le> card (bm.free bm)" "p + 2 + (n - 40 + 31) div 32 \<le> card (bm.free bm)"
  shows "expands junk bm st h eb p n"
proof -
  note a = expandingD [OF e]
  define k where "k = (n - 40 + 31) div 32"
  note c = c [folded k_def]
  have c1: "40 - p + 1 \<le> card (bm.free bm)" using c n by linarith
  have lt: "8 < (40::nat)" "(40::nat) \<le> 40" by simp_all
  obtain ds1 bm1 t1 bm2 ds2 one bm3 st1 where
    r: "fill Find bm (dataSectors h) (int p) (8 - p) = Inr (ds1, bm1)" "Find bm1 = Inr (t1, bm2)"
    "aset ds1 OneLevelIdx t1 = Inr ds2" "fill Find bm2 (local_array junk (-1)) 0 (40 - 8) = Inr (one, bm3)"
    "write_table st t1 one = Inr st1" and g: "grown bm st (dataSectors h) p bm3 st1 ds2 40"
    using grow_to_single [OF a(2-4) n(1) lt c1, of junk] by metis
  have s: "sound bm3 st1 ds2 40" using grown_sound [OF a(1) g] .
  have "card (bm.free bm3) + (40 - p) + 1 = card (bm.free bm)"
    using grown_card_free [OF g] n by (simp add: index_sectors_def)
  then have c2: "n - 40 + 1 + k \<le> card (bm.free bm3)" using c n by linarith
  obtain t2 bm4 ds3 two bm5 st2 st3 where
    q: "Find bm3 = Inr (t2, bm4)" "aset ds2 TwoLevelIdx t2 = Inr ds3"
    "fill_tables junk bm4 st1 (local_array junk (-2)) (int (n - 40)) 0 k = Inr (two, bm5, st2)"
    "write_table st2 t2 two = Inr st3" and g2: "grown bm3 st1 ds2 40 bm5 st3 ds3 n"
    using grow_to_double [OF s n(2,3) c2 [unfolded k_def], of junk] unfolding k_def by blast
  have d: "\<not> int n - int p > int (card (bm.free bm))" "\<not> int (card (bm.free bm)) < int p + 1 + 1 + int k"
      "nat (8 - int p) = 8 - p" "int n \<noteq> int p" "int n - 8 - 32 = int (n - 40)"
    using n c by linarith+
  have dr: "divRoundUp (int (n - 40)) 32 = int k" unfolding k_def by (rule divRoundUp_int)
  have "ExpandFileSize junk h bm st eb = Inr (True,
       h\<lparr>numBytes := numBytes h + eb, numSectors := int n, dataSectors := ds3\<rparr>, bm5, st3)"
    using n a r q d by (simp add: ExpandFileSize_def Let_def NumClear_disk hdr_consts(1-2,5) hdr_consts dr del: of_nat_diff)
  then show ?thesis using grown_trans [OF g g2] by (rule expandsI)
qed

lemma expand_single_to_double:
  assumes e: "expanding bm st h eb p n" and n: "8 < p" "p \<le> 40" "40 < n" "n \<le> 1064"
    and c: "n - p + 1 + (n - 40 + 31) div 32 \<le> card (bm.free bm)" "p + 1 + (n - 40 + 31) div 32 \<le> card (bm.free bm)"
  shows "expands junk bm st h eb p n"
proof -
  note a = expandingD [OF e]
  define k where "k = (n - 40 + 31) div 32"
  note c = c [folded k_def]
  have c1: "40 - p \<le> card (bm.free bm)" using c n by linarith
  have lt: "(40::nat) \<le> 40" by simp
  obtain one bm1 st1 where r: "aget (dataSectors h) OneLevelIdx = Inr (dataSectors h ! 8)"
    "read_table st (dataSectors h ! 8) = Inr (tbl st (dataSectors h ! 8))"
    "fill Find bm (tbl st (dataSectors h ! 8)) (int (p - 8)) (40 - p) = Inr (one, bm1)"
    "write_table st (dataSectors h ! 8) one = Inr st1" and g: "grown bm st (dataSectors h) p bm1 st1 (dataSectors h) 40"
    using grow_single [OF a(1) n(1,2) lt c1] by blast
  have s: "sound bm1 st1 (dataSectors h) 40" using grown_sound [OF a(1) g] .
  have "card (bm.free bm1) + (40 - p) = card (bm.free bm)"
    using grown_card_free [OF g] n by (simp add: index_sectors_def)
  then have c2: "n - 40 + 1 + k \<le> card (bm.free bm1)" using c n by linarith
  obtain t2 bm4 ds3 two bm5 st2 st3 where
    q: "Find bm1 = Inr (t2, bm4)" "aset (dataSectors h) TwoLevelIdx t2 = Inr ds3"
    "fill_tables junk bm4 st1 (local_array junk (-2)) (int (n - 40)) 0 k = Inr (two, bm5, st2)"
    "write_table st2 t2 two = Inr st3" and g2: "grown bm1 st1 (dataSectors h) 40 bm5 st3 ds3 n"
    using grow_to_double [OF s n(3,4) c2 [unfolded k_def], of junk] unfolding k_def by blast
  have d: "\<not> int n - int p > int (card (bm.free bm))" "\<not> int (card (bm.free bm)) < int p + 1 + int k"
      "int p - 8 = int (p - 8)" "nat (32 - int (p - 8)) = 40 - p" "int n \<noteq> int p" "int n - 8 - 32 = int (n - 40)"
    using n c by linarith+
  have dr: "divRoundUp (int (n - 40)) 32 = int k" unfolding k_def by (rule divRoundUp_int)
  have "ExpandFileSize junk h bm st eb = Inr (True,
       h\<lparr>numBytes := numBytes h + eb, numSectors := int n, dataSectors := ds3\<rparr>, bm5, st3)"
    using n a r q d by (simp add: ExpandFileSize_def Let_def NumClear_disk hdr_consts(1-2,5) hdr_consts dr del: of_nat_diff)
  then show ?thesis using grown_trans [OF g g2] by (rule expandsI)
qed

text \<open>The last second-level table: how full it is.\<close>

lemma last_table:
  assumes "40 < (p::nat)" "K = (p - 40 + 31) div 32" "start = (p - 40) mod 32"
  shows "0 < K" "p \<le> 40 + 32 * K" "start \<noteq> 0 \<Longrightarrow> start = p - 40 - 32 * (K - 1)" "start = 0 \<Longrightarrow> p = 40 + 32 * K"
    "start \<noteq> 0 \<Longrightarrow> 40 + 32 * K - p = 32 - start"
proof -
  define q where "q = (p - 40) div 32"
  have pq: "p = 40 + (32 * q + start)" using assms(1,3) mult_div_mod_eq [of 32 "p - 40"] unfolding q_def by linarith
  have s: "start < 32" by (simp add: assms(3))
  have K: "K = (if start = 0 then q else q + 1)"
  proof (cases "start = 0")
    case True
    then have "p - 40 + 31 = 32 * q + 31" using pq by simp
    then show ?thesis using True assms(2) by simp
  next
    case False
    then have "p - 40 + 31 = 32 * (q + 1) + (start - 1)" using pq by simp
    moreover have "(32 * (q + 1) + (start - 1)) div 32 = q + 1" using s by (subst div_mult_self4) simp_all
    ultimately show ?thesis using False assms(2) by simp
  qed
  show "0 < K" using K pq assms(1) by (cases "start = 0") auto
  show "p \<le> 40 + 32 * K" "start \<noteq> 0 \<Longrightarrow> start = p - 40 - 32 * (K - 1)" "start = 0 \<Longrightarrow> p = 40 + 32 * K"
    "start \<noteq> 0 \<Longrightarrow> 40 + 32 * K - p = 32 - start"
    using K pq s by auto
qed

lemma expand_last:
  assumes e: "expanding bm st h eb p n" and n: "40 < p" "p < n" "n \<le> 1064"
    and same: "(n - 40 + 31) div 32 = (p - 40 + 31) div 32" and c: "n - p \<le> card (bm.free bm)"
  shows "expands junk bm st h eb p n"
proof -
  note a = expandingD [OF e]
  define k where "k = (p - 40 + 31) div 32"
  define start where "start = (p - 40) mod 32"
  note lt = last_table [OF n(1) k_def start_def]
  have nk: "n - 40 \<le> 32 * k" using ceil32(1) [of "n - 40"] same by (simp add: k_def)
  then have nk': "n \<le> 40 + 32 * k" using n by linarith
  have s0: "start \<noteq> 0" using lt(4) nk' n(2) by auto
  let ?two = "tbl st (dataSectors h ! 9)"
  obtain single bm' st' where r: "read_table st (?two ! (k - 1)) = Inr (tbl st (?two ! (k - 1)))"
    "fill Find bm (tbl st (?two ! (k - 1))) (int (p - 40 - 32 * (k - 1))) (n - p) = Inr (single, bm')"
    "write_table st (?two ! (k - 1)) single = Inr st'" and g: "grown bm st (dataSectors h) p bm' st' (dataSectors h) n"
    using grow_last [OF a(1) n(1) a(8) k_def nk' n(3) c] by blast
  have k32: "k \<le> 32" using ceil32(3) [of "p - 40"] n by (simp add: k_def)
  have d: "\<not> int n - int p > int (card (bm.free bm))" "int n \<noteq> int p" "\<not> int p \<le> 40" "\<not> int n \<le> 8" "\<not> int n \<le> 40" "\<not> int p \<le> 8"
    using n c by linarith+
  have k1: "int k - 1 = int (k - 1)" using lt(1) by simp
  have st: "int start = int (p - 40 - 32 * (k - 1))" using lt(3) [OF s0] by simp
  have "int p = 40 + 32 * int (k - 1) + int start"
  proof -
    have "32 * (k - 1) \<le> p - 40" using s0 lt(3) by (metis diff_is_0_eq nle_le)
    then show ?thesis using lt(3) [OF s0] n(1) by linarith
  qed
  then have cnt: "nat (int n - 8 - 32 - int (k - 1) * 32 - int start) = n - p" by linarith
  have sm: "(int p - 8 - 32) smod 32 = int start"
    using n(1) by (simp add: smod_pos start_def zmod_int)
  have dr: "divRoundUp (int n - 8 - 32) 32 = int k" "divRoundUp (int p - 8 - 32) 32 = int k"
    using second_tables [of n] second_tables [of p] n same by (simp_all add: k_def)
  have "dataSectors h ! 9 \<in> set (tables_of st (dataSectors h) p)" using n(1) by (simp add: tables_of_def)
  note t9 = sound_tables(3) [OF a(1) this]
  have "k - 1 < 32" using k32 lt(1) by linarith
  then have ag: "aget (dataSectors h) 9 = Inr (dataSectors h ! 9)" "aget ?two (int (k - 1)) = Inr (?two ! (k - 1))"
    using a(4) k32 lt(1) by (simp_all add: aget_ok del: of_nat_diff)
  have "ExpandFileSize junk h bm st eb = Inr (True,
       h\<lparr>numBytes := numBytes h + eb, numSectors := int n, dataSectors := dataSectors h\<rparr>, bm', st')"
    unfolding ExpandFileSize_def Let_def a(5) a(7) hdr_consts dr sm k1 cnt
    using n a(2-4,6) r [folded st] d ag t9 by (simp add: NumClear_disk del: of_nat_diff)
  then show ?thesis using g by (rule expandsI)
qed

lemma expand_tables:
  assumes e: "expanding bm st h eb p n" and n: "40 < p" "n \<le> 1064"
    and more: "(p - 40 + 31) div 32 < (n - 40 + 31) div 32"
    and c: "n - p + ((n - 40 + 31) div 32 - (p - 40 + 31) div 32) \<le> card (bm.free bm)"
  shows "expands junk bm st h eb p n"
proof -
  note a = expandingD [OF e]
  define k where "k = (p - 40 + 31) div 32"
  define j where "j = (n - 40 + 31) div 32"
  define start where "start = (p - 40) mod 32"
  define m where "m = 40 + 32 * k"
  note lt = last_table [OF n(1) k_def start_def]
  note more = more [folded k_def j_def] and c = c [folded k_def j_def]
  have j32: "j \<le> 32" using ceil32(3) [of "n - 40"] n by (simp add: j_def)
  have jn: "32 * (j - 1) < n - 40" using ceil32(2) [of "n - 40"] more unfolding j_def [symmetric] by simp
  have mn: "m < n"
  proof -
    have "32 * k \<le> 32 * (j - 1)" using more by (intro mult_le_mono2) simp
    then show ?thesis using jn unfolding m_def by linarith
  qed
  have pm: "p \<le> m" "m \<le> 40 + 32 * k" "m \<le> 1064" using lt(2) mn n(2) by (simp_all add: m_def)
  let ?two = "tbl st (dataSectors h ! 9)"
  have cm: "m - p \<le> card (bm.free bm)" using c mn by linarith
  obtain single bm1 st1 where r: "read_table st (?two ! (k - 1)) = Inr (tbl st (?two ! (k - 1)))"
    "fill Find bm (tbl st (?two ! (k - 1))) (int (p - 40 - 32 * (k - 1))) (m - p) = Inr (single, bm1)"
    "write_table st (?two ! (k - 1)) single = Inr st1" and two: "tbl st1 (dataSectors h ! 9) = ?two"
    and g: "grown bm st (dataSectors h) p bm1 st1 (dataSectors h) m"
    using grow_last [OF a(1) n(1) pm(1) k_def pm(2,3) cm] by blast
  have s: "sound bm1 st1 (dataSectors h) m" using grown_sound [OF a(1) g] .
  define d where "d = (n - m + 31) div 32"
  have dj: "j = d + k"
  proof -
    have "n - 40 + 31 = (n - m + 31) + 32 * k" using mn by (simp add: m_def)
    then show ?thesis unfolding j_def d_def by simp
  qed
  have "index_sectors m = index_sectors p"
  proof -
    have "(m - 40 + 31) div 32 = k" by (simp add: m_def)
    then show ?thesis using n(1) lt(1) by (simp add: index_sectors_def k_def m_def)
  qed
  then have "card (bm.free bm1) + (m - p) = card (bm.free bm)"
    using grown_card_free [OF g pm(1,3)] by simp
  then have c2: "n - m + d \<le> card (bm.free bm1)" using c mn pm(1) dj by linarith
  obtain two' bm2 st2 st3 where
    q: "fill_tables junk bm1 st1 ?two (int (n - 40)) (int k) d = Inr (two', bm2, st2)"
    "write_table st2 (dataSectors h ! 9) two' = Inr st3" and g2: "grown bm1 st1 (dataSectors h) m bm2 st3 (dataSectors h) n"
    using grow_tables [OF s m_def lt(1) mn n(2) c2 d_def, of junk] unfolding two by blast
  have cnt: "fill Find bm (tbl st (?two ! (k - 1))) (int start) (nat (if int start > 0 then 32 - int start else 0)) = Inr (single, bm1)"
  proof (cases "start = 0")
    case True
    then show ?thesis using r(2) lt(4) by (simp add: m_def)
  next
    case False
    then have "nat (if int start > 0 then 32 - int start else 0) = m - p" using lt(5) m_def by simp
    with r(2) lt(3) [OF False] show ?thesis by (simp only:)
  qed
  have nn: "40 < n" using mn by (simp add: m_def)
  have d': "\<not> int n - int p > int (card (bm.free bm))" "\<not> int n - int p + 1 > int (card (bm.free bm))"
      "int n \<noteq> int p" "\<not> int p \<le> 40" "\<not> int n \<le> 8" "\<not> int n \<le> 40" "\<not> int p \<le> 8" "int j \<noteq> int k" "p \<le> 2000"
    using n c mn pm(1) more nn by linarith+
  have k1: "int k - 1 = int (k - 1)" "nat (int j - int k) = d" "int n - 8 - 32 = int (n - 40)" using lt(1) dj nn by simp_all
  have sm: "(int p - 8 - 32) smod 32 = int start" "(int p - 40) smod 32 = int start"
    using n(1) by (simp_all add: smod_pos start_def zmod_int)
  have dr: "divRoundUp (int (n - 40)) 32 = int j" "divRoundUp (int n - 40) 32 = int j"
      "divRoundUp (int p - 8 - 32) 32 = int k" "divRoundUp (int p - 40) 32 = int k"
    using divRoundUp_int [of "n - 40"] divRoundUp_int [of "p - 40"] n nn by (simp_all add: k_def j_def)
  have "dataSectors h ! 9 \<in> set (tables_of st (dataSectors h) p)" using n(1) by (simp add: tables_of_def)
  note t9 = sound_tables(3) [OF a(1) this]
  have "k - 1 < 32" using more j32 by linarith
  then have ag: "aget (dataSectors h) 9 = Inr (dataSectors h ! 9)" "aget ?two (int (k - 1)) = Inr (?two ! (k - 1))"
    using a(4) lt(1) by (simp_all add: aget_ok del: of_nat_diff)
  have "ExpandFileSize junk h bm st eb = Inr (True,
       h\<lparr>numBytes := numBytes h + eb, numSectors := int n, dataSectors := dataSectors h\<rparr>, bm2, st3)"
    unfolding ExpandFileSize_def Let_def a(5) a(7) hdr_consts k1 dr sm k1
    using n a(2-4,6) r(1,3) q d' ag t9 cnt by (simp add: NumClear_disk del: of_nat_diff)
  then show ?thesis using grown_trans [OF g g2] by (rule expandsI)
qed

section \<open>The whole operation\<close>

lemma card_marked_free: "disk_map bm \<Longrightarrow> card (bm.free bm) + card (marked bm) = 1024"
  using bm.card_free [of bm] marked_range [of bm] card_mono [of "{0..<1024::int}" "marked bm"]
  by (simp add: disk_map_def disk_consts)

lemma sound_size: "sound bm st ds p \<Longrightarrow> p + card (bm.free bm) \<le> 1024"
proof -
  assume s: "sound bm st ds p"
  then have "card (set (blocks_of st ds p)) = p" "set (blocks_of st ds p) \<subseteq> marked bm" "disk_map bm"
    by (simp_all add: sound_def distinct_card)
  then show ?thesis using card_marked_free [of bm] card_mono [of "marked bm" "set (blocks_of st ds p)"] by simp
qed

lemma tables_mono: "p \<le> n \<Longrightarrow> (p - 40 + 31) div 32 \<le> ((n::nat) - 40 + 31) div 32"
  by (intro div_le_mono) simp

lemma index_sectors_mono: "p \<le> n \<Longrightarrow> index_sectors p \<le> index_sectors n"
  using tables_mono [of p n] by (auto simp: index_sectors_def)

lemma expand_need_eq: "p \<le> n \<Longrightarrow> expand_need p n = (n - p) + (index_sectors n - index_sectors p)"
  using index_sectors_mono [of p n] by (simp add: expand_need_def)

lemma expand_ok:
  assumes e: "expanding bm st h eb p n" "p \<noteq> n" and chk: "expand_check p n (card (bm.free bm))"
    and need: "expand_need p n \<le> card (bm.free bm)"
  shows "expands junk bm st h eb p n"
proof -
  note a = expandingD [OF e(1)]
  define c where "c = card (bm.free bm)"
  have need: "(n - p) + (index_sectors n - index_sectors p) \<le> c" using need expand_need_eq a(8) by (simp add: c_def)
  have pn: "p < n" using a(8) e(2) by simp
  have n: "n \<le> 1064" using need sound_size [OF a(1)] by (simp add: c_def)
  note mono = tables_mono [OF a(8)]
  define j where "j = (n - 40 + 31) div 32"
  define k where "k = (p - 40 + 31) div 32"
  have ix: "index_sectors n = (if n \<le> 8 then 0 else if n \<le> 40 then 1 else 2 + j)"
      "index_sectors p = (if p \<le> 8 then 0 else if p \<le> 40 then 1 else 2 + k)"
    unfolding index_sectors_def j_def k_def by (rule refl)+
  note chk = chk [unfolded expand_check_def, folded j_def k_def c_def]
  consider "n \<le> 8" | "p \<le> 8" "8 < n" "n \<le> 40" | "8 < p" "n \<le> 40" | "p \<le> 8" "40 < n"
    | "8 < p" "p \<le> 40" "40 < n" | "40 < p" "j = k" | "40 < p" "k < j"
    using mono unfolding j_def [symmetric] k_def [symmetric] by linarith
  then show ?thesis
  proof cases
    case 1
    then show ?thesis using expand_direct [OF e(1) pn 1] need by (simp add: c_def)
  next
    case 2
    then show ?thesis using expand_to_single [OF e(1) 2] need by (simp add: c_def [symmetric] ix)
  next
    case 3
    then show ?thesis using expand_single [OF e(1) 3(1) pn 3(2)] need by (simp add: c_def)
  next
    case 4
    then have "n - p + 2 + j \<le> c" "p + 2 + j \<le> c"
      using need chk pn by (simp_all add: ix)
    then show ?thesis using expand_direct_to_double [OF e(1) 4 n] by (simp add: c_def j_def)
  next
    case 5
    then have "n - p + 1 + j \<le> c" "p + 1 + j \<le> c"
      using need chk pn by (simp_all add: ix)
    then show ?thesis using expand_single_to_double [OF e(1) 5 n] by (simp add: c_def j_def)
  next
    case 6
    then show ?thesis using expand_last [OF e(1) 6(1) pn n] need by (simp add: c_def j_def k_def)
  next
    case 7
    then have "n - p + (j - k) \<le> c"
      using need pn by (simp add: ix)
    then show ?thesis using expand_tables [OF e(1) 7(1) n] 7 by (simp add: c_def j_def k_def)
  qed
qed

text \<open>What growing means for the file: it stays in good order, its sectors so far stay in place,
  the new ones were free, no sector outside its index tables is written.\<close>

definition extended :: "bitmap \<Rightarrow> store \<Rightarrow> file_header \<Rightarrow> bitmap \<Rightarrow> store \<Rightarrow> file_header \<Rightarrow> bool" where
  "extended bm st h bm' st' h' \<longleftrightarrow> file_ok st' bm' h' \<and> disk_map bm' \<and> store_wf st'
     \<and> take (length (blocks st h)) (blocks st' h') = blocks st h
     \<and> marked bm' = marked bm \<union> set (owned st' h')
     \<and> (set (owned st' h') - set (owned st h)) \<inter> marked bm = {}
     \<and> (\<forall>s. s \<notin> set (tables st' h') \<longrightarrow> st' s = st s)"

lemma grown_extended:
  assumes s: "sound bm st (dataSectors h) p" and g: "grown bm st (dataSectors h) p bm' st' ds' n"
    and p: "numSectors h = int p" and n: "n \<le> 1064"
  shows "extended bm st h bm' st' (h\<lparr>numBytes := b, numSectors := int n, dataSectors := ds'\<rparr>)"
proof -
  have s': "sound bm' st' ds' n" using grown_sound [OF s g] .
  obtain bs ts where b: "blocks_of st' ds' n = blocks_of st (dataSectors h) p @ bs"
      "mset (tables_of st' ds' n) = mset (tables_of st (dataSectors h) p) + mset ts" "bm.took bm (bs @ ts) bm'"
      "\<forall>s. s \<notin> set (tables_of st' ds' n) \<longrightarrow> st' s = st s"
    using g by (auto simp: grown_def)
  have ow: "owned st h = blocks_of st (dataSectors h) p @ tables_of st (dataSectors h) p"
    by (simp add: owned_def blocks_def tables_def p)
  have t: "set (tables_of st' ds' n) = set (tables_of st (dataSectors h) p) \<union> set ts"
    using arg_cong [OF b(2), of set_mset] by simp
  have new: "set (blocks_of st' ds' n @ tables_of st' ds' n) = set (owned st h) \<union> set (bs @ ts)"
    using b(1) t ow by auto
  have fr: "set (bs @ ts) \<inter> marked bm = {}" using b(3) by (auto simp: bm.took_def bm.free_def)
  have mk: "marked bm' = marked bm \<union> set (bs @ ts)" using bm.took_used [OF b(3)] .
  have sub: "set (owned st h) \<subseteq> marked bm" using s ow by (simp add: sound_def)
  have "marked bm' = marked bm \<union> set (blocks_of st' ds' n @ tables_of st' ds' n)"
    "(set (blocks_of st' ds' n @ tables_of st' ds' n) - set (owned st h)) \<inter> marked bm = {}"
    unfolding new using mk sub fr by blast+
  moreover have "disk_map bm'" "store_wf st'" using s' by (simp_all add: sound_def)
  moreover have "take (length (blocks st h)) (blocks_of st' ds' n) = blocks st h"
    using b(1) by (simp add: blocks_def p)
  ultimately show ?thesis unfolding extended_def owned_upd
    using sound_file_ok [OF s' n] b(4) by blast
qed

lemma expandingI:
  assumes "file_ok st bm h" "disk_map bm" "store_wf st" "0 \<le> numBytes h"
    and "numSectors h = divRoundUp (numBytes h) SectorSize" "0 \<le> eb"
  shows "expanding bm st h eb (nat (numSectors h)) (nat (divRoundUp (numBytes h + eb) SectorSize))"
proof -
  have d: "divRoundUp x SectorSize = (x + 127) div 128" if "0 \<le> x" for x
    using divRoundUp_pos [OF that, of SectorSize] by (simp add: SectorSize_def)
  have "divRoundUp (numBytes h) SectorSize \<le> divRoundUp (numBytes h + eb) SectorSize"
    using assms(4,6) by (simp add: d zdiv_mono1)
  then have le: "nat (numSectors h) \<le> nat (divRoundUp (numBytes h + eb) SectorSize)"
    using assms(5) by (simp add: nat_mono)
  have "0 \<le> divRoundUp (numBytes h + eb) SectorSize" using assms(4,6) by (simp add: d)
  then show ?thesis using file_ok_sound [OF assms(1-3)] assms(6) le
    by (simp add: expanding_def)
qed

lemma expand_refused:
  assumes "file_ok st bm h" "disk_map bm" "store_wf st" "0 \<le> numBytes h"
    and "numSectors h = divRoundUp (numBytes h) SectorSize"
    and "eb < 0 \<or> \<not> expand_check (nat (numSectors h)) (nat (divRoundUp (numBytes h + eb) SectorSize)) (card (bm.free bm))"
  shows "ExpandFileSize junk h bm st eb = Inr (False, h, bm, st)"
proof (cases "eb < 0")
  case True
  then show ?thesis by (simp add: ExpandFileSize_def)
next
  case False
  define p where "p = nat (numSectors h)"
  define n where "n = nat (divRoundUp (numBytes h + eb) SectorSize)"
  define c where "c = card (bm.free bm)"
  have e: "expanding bm st h eb p n" using expandingI [OF assms(1-5)] False by (simp add: p_def n_def)
  note a = expandingD [OF e]
  have chk: "\<not> expand_check p n c" using assms(6) False by (simp add: p_def n_def c_def)
  then have pn: "p \<noteq> n" by (auto simp: expand_check_def)
  show ?thesis
  proof (cases "n - p \<le> c")
    case False
    then have "int n - int p > int c" by linarith
    then show ?thesis using a pn by (simp add: ExpandFileSize_def Let_def NumClear_disk c_def)
  next
    case True
    have n: "n \<le> 1064" using True sound_size [OF a(1)] by (simp add: c_def)
    define j where "j = (n - 40 + 31) div 32"
    define k where "k = (p - 40 + 31) div 32"
    have nc: "NumClear bm = Inr (int c)" using NumClear_disk [OF a(2)] by (simp add: c_def)
    have d: "\<not> int n - int p > int c" "n \<noteq> p" "p \<le> n" using True pn a(8) by linarith+
    note chk' = chk [unfolded expand_check_def, folded j_def k_def]
    have n8: "\<not> n \<le> 8" using chk' True by auto
    show ?thesis
    proof (cases "n \<le> 40")
      case n40: True
      then have "p \<le> 8" "\<not> n - p + 1 \<le> c" using chk' True n8 by (simp_all split: if_splits)
      moreover from this have "int n - int p + 1 > int c" using d by linarith
      ultimately show ?thesis using n8 n40 n a nc d
        by (simp add: ExpandFileSize_def Let_def hdr_consts(1,2,5))
    next
      case n40: False
      have dj: "divRoundUp (int n - 8 - 32) 32 = int j" using second_tables [of n] n40 by (simp add: j_def)
      have p2: "p \<le> 2000" "n \<le> 2000" using d n by linarith+
      show ?thesis
      proof (cases "p \<le> 40")
        case True
        then have "(p \<le> 8 \<and> int c < int p + 1 + 1 + int j) \<or> (8 < p \<and> int c < int p + 1 + int j)"
          using chk' \<open>n - p \<le> c\<close> n8 n40 by (auto split: if_splits)
        then show ?thesis
          unfolding ExpandFileSize_def Let_def a(5) a(7) hdr_consts nc dj
          using True n8 n40 n a(6) d p2 by auto
      next
        case False
        then have jk: "j \<noteq> k" "\<not> n - p + 1 \<le> c" using chk' \<open>n - p \<le> c\<close> n8 n40 by (auto split: if_splits)
        have dk: "divRoundUp (int p - 8 - 32) 32 = int k" using second_tables [of p] False by (simp add: k_def)
        have "dataSectors h ! 9 \<in> set (tables_of st (dataSectors h) p)" using False by (simp add: tables_of_def)
        note t9 = sound_tables(3) [OF a(1) this]
        have ag: "aget (dataSectors h) 9 = Inr (dataSectors h ! 9)" using a(4) by (simp add: aget_ok)
        have "int n - int p + 1 > int c" using jk(2) d by linarith
        then show ?thesis
          unfolding ExpandFileSize_def Let_def a(5) a(7) hdr_consts nc dj dk
          using False n8 n40 n a(6) d p2 jk(1) t9 ag by simp
      qed
    qed
  qed
qed

text \<open>A request that \<open>ExpandFileSize\<close>'s tests turn down (a negative size, or not enough clear
  sectors by its count) returns FALSE and changes neither header, bitmap nor disk.\<close>

theorem ExpandFileSize_refuses:
  assumes "file_ok st bm h" "disk_map bm" "store_wf st" "0 \<le> numBytes h"
    and "numSectors h = divRoundUp (numBytes h) SectorSize"
    and "eb < 0 \<or> \<not> expand_check (nat (numSectors h)) (nat (divRoundUp (numBytes h + eb) SectorSize)) (card (bm.free bm))"
  shows "ExpandFileSize junk h bm st eb = Inr (False, h, bm, st)"
  by (rule expand_refused [OF assms])

theorem ExpandFileSize_refuses_witness:
  "ExpandFileSize (\<lambda>_ _. 0) (sample_header 8) (sample_map (-1)) zero_store 1 = Inr (False, sample_header 8, sample_map (-1), zero_store)"
  using ExpandFileSize_refuses [of zero_store "sample_map (-1)" "sample_header 8" 1 "\<lambda>_ _. 0"]
  by (simp add: divRoundUp_def SectorSize_def expand_check_def)

lemma expand_granted_shape:
  assumes "file_ok st bm h" "disk_map bm" "store_wf st" "0 \<le> numBytes h"
    and "numSectors h = divRoundUp (numBytes h) SectorSize" "0 \<le> eb"
    and n: "n = nat (divRoundUp (numBytes h + eb) SectorSize)"
    and "expand_check (nat (numSectors h)) n (card (bm.free bm))"
    and "expand_need (nat (numSectors h)) n \<le> card (bm.free bm)"
  shows "\<exists>h' bm' st'. ExpandFileSize junk h bm st eb = Inr (True, h', bm', st')
    \<and> (\<exists>ds. h' = h\<lparr>numBytes := numBytes h + eb, numSectors := int n, dataSectors := ds\<rparr>) \<and> extended bm st h bm' st' h'"
proof -
  define p where "p = nat (numSectors h)"
  have e: "expanding bm st h eb p n" using expandingI [OF assms(1-6)] by (simp add: p_def n)
  note a = expandingD [OF e] and assms(8,9) [folded p_def]
  have n1: "n \<le> 1064" using assms(9) [folded p_def] expand_need_eq [OF a(8)] sound_size [OF a(1)] by simp
  show ?thesis
  proof (cases "p = n")
    case True
    have "ExpandFileSize junk h bm st eb = Inr (True, h\<lparr>numBytes := numBytes h + eb\<rparr>, bm, st)"
      using a True by (simp add: ExpandFileSize_def Let_def NumClear_disk)
    moreover have "extended bm st h bm st (h\<lparr>numBytes := numBytes h + eb\<rparr>)"
      using assms(1-3) by (auto simp: extended_def file_ok_def owned_def blocks_def tables_def)
    moreover have "h\<lparr>numBytes := numBytes h + eb\<rparr> = h\<lparr>numBytes := numBytes h + eb, numSectors := int n, dataSectors := dataSectors h\<rparr>"
      using a True by simp
    ultimately show ?thesis by metis
  next
    case False
    from expand_ok [OF e False] assms(8,9) obtain ds' bm' st' where
      r: "ExpandFileSize junk h bm st eb = Inr (True,
       h\<lparr>numBytes := numBytes h + eb, numSectors := int n, dataSectors := ds'\<rparr>, bm', st')"
      and g: "grown bm st (dataSectors h) p bm' st' ds' n"
      unfolding expands_def p_def by blast
    from r grown_extended [OF a(1) g a(5) n1] show ?thesis by blast
  qed
qed

lemma expand_granted:
  assumes "file_ok st bm h" "disk_map bm" "store_wf st" "0 \<le> numBytes h"
    and "numSectors h = divRoundUp (numBytes h) SectorSize" "0 \<le> eb"
    and n: "n = nat (divRoundUp (numBytes h + eb) SectorSize)"
    and "expand_check (nat (numSectors h)) n (card (bm.free bm))"
    and "expand_need (nat (numSectors h)) n \<le> card (bm.free bm)"
  shows "\<exists>h' bm' st'. ExpandFileSize junk h bm st eb = Inr (True, h', bm', st')
    \<and> numBytes h' = numBytes h + eb \<and> numSectors h' = int n \<and> extended bm st h bm' st' h'"
proof -
  obtain h' bm' st' ds where "ExpandFileSize junk h bm st eb = Inr (True, h', bm', st')" "extended bm st h bm' st' h'"
    "h' = h\<lparr>numBytes := numBytes h + eb, numSectors := int n, dataSectors := ds\<rparr>"
    using expand_granted_shape [OF assms] by blast
  then show ?thesis by auto
qed

text \<open>C15: A request that passes the tests and that the disk has room for succeeds, across every
  change of index shape (direct, single, double): the length grows by the bytes asked for, the old
  sectors stay first and in order, the new ones were free, and only index tables are written.\<close>

theorem ExpandFileSize_grows:
  assumes "file_ok st bm h" "disk_map bm" "store_wf st" "0 \<le> numBytes h"
    and "numSectors h = divRoundUp (numBytes h) SectorSize" "0 \<le> eb"
    and n: "n = nat (divRoundUp (numBytes h + eb) SectorSize)"
    and "expand_check (nat (numSectors h)) n (card (bm.free bm))"
    and "expand_need (nat (numSectors h)) n \<le> card (bm.free bm)"
  shows "\<exists>h' bm' st'. ExpandFileSize junk h bm st eb = Inr (True, h', bm', st')
    \<and> numBytes h' = numBytes h + eb \<and> numSectors h' = int n \<and> extended bm st h bm' st' h'"
  by (rule expand_granted [OF assms])

theorem ExpandFileSize_grows_witness:
  "\<exists>h' bm' st'. ExpandFileSize (\<lambda>_ _. 0) (sample_header 0) (sample_map 0) zero_store 5000 = Inr (True, h', bm', st')
    \<and> numBytes h' = 5000 \<and> numSectors h' = 40"
  using ExpandFileSize_grows [of zero_store "sample_map 0" "sample_header 0" 5000 40 "\<lambda>_ _. 0"]
  by (auto simp: divRoundUp_def SectorSize_def expand_check_def expand_need_def index_sectors_def)

text \<open>After growing, \<open>ByteToSector\<close> finds every byte of the old file in the sector it was in.\<close>

theorem Expand_keeps_sectors:
  assumes "file_ok st bm h" "disk_map bm" "extended bm st h bm' st' h'"
    and off: "0 \<le> off" "off < numSectors h * SectorSize"
  shows "ByteToSector h' st' off = ByteToSector h st off"
proof -
  have ok': "file_ok st' bm' h'" "disk_map bm'" and tk: "take (length (blocks st h)) (blocks st' h') = blocks st h"
    using assms(3) by (simp_all add: extended_def)
  have "length (blocks st h) \<le> length (blocks st' h')" using arg_cong [OF tk, of length] by simp
  then have le: "numSectors h \<le> numSectors h'" using assms(1) ok'(1) by (simp add: blocks_def file_ok_def nat_le_eq_zle)
  have "numSectors h * SectorSize \<le> numSectors h' * SectorSize" using le by (simp add: SectorSize_def)
  then have off': "off < numSectors h' * SectorSize" using off(2) by linarith
  have "nat (off div SectorSize) < length (blocks st h)"
    using off assms(1) by (simp add: blocks_def SectorSize_def nat_less_iff int_div_less_iff)
  then have "blocks st' h' ! nat (off div SectorSize) = blocks st h ! nat (off div SectorSize)"
    by (metis tk nth_take)
  then show ?thesis
    using ByteToSector_block [OF assms(1,2) off] ByteToSector_block [OF ok' off(1) off'] by simp
qed

theorem Expand_keeps_sectors_witness:
  "ByteToSector (sample_header 8 \<lparr>numBytes := 1000\<rparr>) zero_store 300 = ByteToSector (sample_header 8) zero_store 300"
proof -
  let ?h = "sample_header 8 \<lparr>numBytes := 1000\<rparr>"
  have b: "blocks zero_store ?h = blocks zero_store (sample_header 8)" "owned zero_store ?h = owned zero_store (sample_header 8)"
    by (simp_all add: blocks_def owned_def tables_def)
  have "extended (sample_map (-1)) zero_store (sample_header 8) (sample_map (-1)) zero_store ?h"
    using sample_file_ok [of 8 zero_store]
    by (simp add: extended_def b file_ok_def) (auto simp: sample_blocks)
  from Expand_keeps_sectors [OF sample_file_ok [of 8] sample_map_wf(1) this, of 300] show ?thesis
    by (simp add: SectorSize_def)
qed

text \<open>For files without a double index table, and when at most one second-level table is added
  to one, the tests are exact: what passes them fits on the disk, and what fits passes.\<close>

lemma expand_check_exact:
  assumes "p \<le> n" "n \<le> 40 \<or> (40 < p \<and> (n - 40 + 31) div 32 \<le> (p - 40 + 31) div 32 + 1)"
  shows "expand_check p n c \<longleftrightarrow> expand_need p n \<le> c"
proof -
  define j where "j = (n - 40 + 31) div 32"
  define k where "k = (p - 40 + 31) div 32"
  have kj: "k \<le> j" using tables_mono [OF assms(1)] by (simp add: j_def k_def)
  have ix: "index_sectors n = (if n \<le> 8 then 0 else if n \<le> 40 then 1 else 2 + j)"
      "index_sectors p = (if p \<le> 8 then 0 else if p \<le> 40 then 1 else 2 + k)"
    unfolding index_sectors_def j_def k_def by (rule refl)+
  have lim: "n \<le> 40 \<or> (40 < p \<and> j \<le> k + 1)" using assms(2) unfolding j_def k_def .
  have "n = p \<Longrightarrow> j = k" by (simp add: j_def k_def)
  with assms(1) lim kj show ?thesis
    unfolding expand_check_def j_def [symmetric] k_def [symmetric] expand_need_eq [OF assms(1)] ix
    by (auto split: if_splits)
qed

text \<open>In these cases (a file that stays within the single index, or one that already has a double
  index and gains at most one second-level table) \<open>ExpandFileSize\<close> succeeds exactly when the disk has
  the room, and otherwise changes nothing.\<close>

theorem ExpandFileSize_exact:
  assumes "file_ok st bm h" "disk_map bm" "store_wf st" "0 \<le> numBytes h"
    and "numSectors h = divRoundUp (numBytes h) SectorSize" "0 \<le> eb"
    and "p = nat (numSectors h)" and "n = nat (divRoundUp (numBytes h + eb) SectorSize)"
    and "n \<le> 40 \<or> (40 < p \<and> (n - 40 + 31) div 32 \<le> (p - 40 + 31) div 32 + 1)"
  shows "if expand_need p n \<le> card (bm.free bm)
    then \<exists>h' bm' st'. ExpandFileSize junk h bm st eb = Inr (True, h', bm', st')
      \<and> numBytes h' = numBytes h + eb \<and> numSectors h' = int n \<and> extended bm st h bm' st' h'
    else ExpandFileSize junk h bm st eb = Inr (False, h, bm, st)"
proof -
  have "p \<le> n" using expandingD(8) [OF expandingI [OF assms(1-6)]] assms(7,8) by simp
  from expand_check_exact [OF this assms(9)] show ?thesis
    using expand_refused [OF assms(1-5), of eb junk] expand_granted [OF assms(1-6,8), of junk] assms(7,8) by auto
qed

theorem ExpandFileSize_exact_witness:
  "\<exists>h' bm' st'. ExpandFileSize (\<lambda>_ _. 0) (sample_header 0) (sample_map 0) zero_store 1000 = Inr (True, h', bm', st')
    \<and> numSectors h' = 8"
proof -
  have "8 = nat (divRoundUp (numBytes (sample_header 0) + 1000) SectorSize)"
    by (simp add: divRoundUp_def SectorSize_def)
  from ExpandFileSize_exact [where junk = "\<lambda>_ _. 0", OF sample_file_ok_empty [of zero_store 0] sample_map_wf(1) zero_store_wf _ _ _ _ this, of 0]
  show ?thesis by (auto simp: divRoundUp_def expand_need_def index_sectors_def)
qed

section \<open>Where the test is not enough\<close>

text \<open>An extension to \<open>n\<close> sectors takes \<open>expand_need\<close> free sectors, however it is made.\<close>

lemma length_owned:
  assumes "file_ok st bm h"
  shows "length (owned st h) = nat (numSectors h) + index_sectors (nat (numSectors h))"
proof -
  have "nat (numSectors h) \<le> 1064" using assms by (auto simp: file_ok_def hdr_consts nat_le_iff)
  then show ?thesis by (simp add: owned_def blocks_def tables_def length_tables_of)
qed

lemma extended_room:
  assumes "file_ok st bm h" "disk_map bm" "extended bm st h bm' st' h'" "numSectors h' = int n"
  shows "expand_need (nat (numSectors h)) n \<le> card (bm.free bm)"
proof -
  have ok': "file_ok st' bm' h'" "disk_map bm'" and new: "(set (owned st' h') - set (owned st h)) \<inter> marked bm = {}"
    using assms(3) by (simp_all add: extended_def)
  have "set (owned st' h') \<subseteq> {0..<NumSectors}" using file_sector(1,2) [OF ok'] by auto
  then have "set (owned st' h') - set (owned st h) \<subseteq> bm.free bm"
    using new assms(2) by (auto simp: bm.free_def disk_map_def)
  then have "card (set (owned st' h') - set (owned st h)) \<le> card (bm.free bm)" by (intro card_mono) simp_all
  moreover have "card (set (owned st' h')) - card (set (owned st h)) \<le> card (set (owned st' h') - set (owned st h))"
    by (rule diff_card_le_card_Diff) simp
  moreover have "card (set (owned st' h')) = n + index_sectors n"
    using length_owned [OF ok'(1)] ok'(1) assms(4) by (simp add: file_ok_def distinct_card)
  moreover have "card (set (owned st h)) = nat (numSectors h) + index_sectors (nat (numSectors h))"
    using length_owned [OF assms(1)] assms(1) by (simp add: file_ok_def distinct_card)
  ultimately show ?thesis by (simp add: expand_need_def)
qed

text \<open>When the disk is full every further \<open>Find\<close> is \<open>-1\<close>, and writing an index table to sector
  \<open>-1\<close> stops the kernel.\<close>

lemma Find_none: "disk_map bm \<Longrightarrow> card (bm.free bm) = 0 \<Longrightarrow> Find bm = Inr (-1, bm)"
  using marked_range [of bm] by (intro Find_full) (auto simp: disk_map_def bm.free_def)

lemma fill_none:
  assumes "disk_map bm" "card (bm.free bm) = 0"
  shows "0 \<le> i \<Longrightarrow> i + int n \<le> int (length arr) \<Longrightarrow>
    \<exists>arr'. fill Find bm arr i n = Inr (arr', bm) \<and> length arr' = length arr"
proof (induction n arbitrary: arr i)
  case (Suc n)
  have "\<exists>arr'. fill Find bm (arr[nat i := -1]) (i + 1) n = Inr (arr', bm) \<and> length arr' = length (arr[nat i := -1])"
    using Suc.prems by (intro Suc.IH) simp_all
  then show ?case using Suc.prems Find_none [OF assms] by (auto simp: aset_ok)
qed simp

text \<open>C36: The test before growing into the double index table counts the sectors the file has
  (\<open>numSectors\<close>), not those it gains. An empty file grown to 41 sectors passes it with exactly 41
  clear sectors, although 44 are needed: the allocation runs out and the kernel stops in the
  middle of it, where it should have refused.\<close>

theorem ExpandFileSize_overcommits:
  assumes "file_ok st bm h" "disk_map bm" "store_wf st" "numBytes h = 0" "numSectors h = 0"
    and "divRoundUp eb SectorSize = 41" "0 \<le> eb" "card (bm.free bm) = 41"
  shows "expand_check 0 41 41 \<and> expand_need 0 41 = 44 \<and> ExpandFileSize junk h bm st eb = Inl AssertFailed"
proof -
  have nd: "expand_check 0 41 41" "expand_need 0 41 = 44"
    by (simp_all add: expand_check_def expand_need_def index_sectors_def)
  have z: "divRoundUp 0 SectorSize = 0" by (simp add: divRoundUp_def)
  have e: "expanding bm st h eb 0 41" using expandingI [OF assms(1-3), of eb] assms(4-7) z by simp
  note a = expandingD [OF e]
  have c1: "40 - 0 + 1 \<le> card (bm.free bm)" using assms(8) by simp
  have lt: "(0::nat) \<le> 8" "8 < (40::nat)" "(40::nat) \<le> 40" by simp_all
  obtain ds1 bm1 t1 bm2 ds2 one bm3 st1 where
    r: "fill Find bm (dataSectors h) (int 0) (8 - 0) = Inr (ds1, bm1)" "Find bm1 = Inr (t1, bm2)"
    "aset ds1 OneLevelIdx t1 = Inr ds2" "fill Find bm2 (local_array junk (-1)) 0 (40 - 8) = Inr (one, bm3)"
    "write_table st t1 one = Inr st1" and g: "grown bm st (dataSectors h) 0 bm3 st1 ds2 40"
    using grow_to_single [OF a(2-4) lt c1, of junk] by metis
  have s: "sound bm3 st1 ds2 40" using grown_sound [OF a(1) g] .
  have "card (bm.free bm3) + 41 = card (bm.free bm)"
    using grown_card_free [OF g] by (simp add: index_sectors_def)
  then have none: "card (bm.free bm3) = 0" using assms(8) by simp
  have d3: "disk_map bm3" using s by (simp add: sound_def)
  note f = Find_none [OF d3 none]
  have l2: "length ds2 = 10" using s by (simp add: sound_def)
  obtain arr where fl: "fill Find bm3 (local_array junk 0) 0 1 = Inr (arr, bm3)" and "length arr = 32"
    using fill_none [OF d3 none, of 0 1 "local_array junk 0"] by auto
  have w: "write_table st1 (-1) arr = Inl AssertFailed"
    by (simp add: write_table_def WriteSector_def)
  have asf: "\<exists>two'. aset (local_array junk (-2)) 0 (-1) = Inr two'" "\<exists>ds3. aset ds2 TwoLevelIdx (-1) = Inr ds3"
    using l2 by (simp_all add: aset_ok hdr_consts)
  then obtain two' ds3 where as: "aset (local_array junk (-2)) 0 (-1) = Inr two'" "aset ds2 TwoLevelIdx (-1) = Inr ds3"
    by blast
  have one: "nat (min LevelNum (1 - 0 * LevelNum)) = 1" by (simp add: hdr_consts)
  have ft: "fill_tables junk bm3 st1 (local_array junk (-2)) 1 0 (Suc 0) = Inl AssertFailed"
    by (simp only: fill_tables.simps f rbind_Inr prod.case as one fl w rbind_Inl)
  have u: "u32 41 = 41" "u32 0 = 0" "(41::int) - 8 - 32 = 1" "divRoundUp 1 32 = 1" "nat 1 = Suc 0" "nat (8 - 0) = 8"
      "nat 32 = 32" "(0::int) + 1 + 1 + 1 = 3"
    by (simp_all add: u32_def divRoundUp_pos)
  note r = r [unfolded hdr_consts, simplified]
  have "ExpandFileSize junk h bm st eb = Inl AssertFailed"
    unfolding ExpandFileSize_def Let_def assms(4,5,6) add_0 hdr_consts NumClear_disk [OF a(2)] assms(8) rbind_Inr u
    using a(6) r f ft as(2) [unfolded hdr_consts] by simp
  with nd show ?thesis by simp
qed

theorem ExpandFileSize_overcommits_witness:
  "ExpandFileSize (\<lambda>_ _. 0) (sample_header 0) sample_map_41 zero_store 5200 = Inl AssertFailed"
  using ExpandFileSize_overcommits [where junk = "\<lambda>_ _. 0", OF sample_empty_41 sample_map_41(1) zero_store_wf, of 5200]
  by (simp add: divRoundUp_def SectorSize_def)

section \<open>The header on disk\<close>

definition header_ok :: "file_header \<Rightarrow> bool" where
  "header_ok h \<longleftrightarrow> in_int32 (numBytes h) \<and> in_int32 (numSectors h)
     \<and> int (length (fileExtension h)) = ExtensionLength \<and> int (length (createTime h)) = TimeStringLength
     \<and> int (length (modifyTime h)) = TimeStringLength \<and> int (length (lastVisitTime h)) = TimeStringLength
     \<and> int (length (dataSectors h)) = NumDataSectors \<and> (\<forall>s \<in> set (dataSectors h). in_int32 s)"

text \<open>The header fills its sector exactly.\<close>

lemma length_header_bytes: "header_ok h \<Longrightarrow> int (length (header_bytes h)) = SectorSize"
  by (simp add: header_ok_def header_bytes_def hdr_consts SectorSize_def ExtensionLength_def TimeStringLength_def)

text \<open>A header written back to its sector and fetched again is the same header, in every field the
  sector holds (the sector number itself is not stored).\<close>

theorem header_roundtrip:
  assumes "header_ok h" "0 \<le> s" "s < NumSectors"
  shows "rbind (HdrWriteBack h st s) (\<lambda>st'. HdrFetchFrom h0 st' s) = Inr (h\<lparr>headerSector := headerSector h0\<rparr>)"
proof -
  have l: "length (fileExtension h) = 5" "length (createTime h) = 25" "length (modifyTime h) = 25"
      "length (lastVisitTime h) = 25" "length (dataSectors h) = 10"
    and r: "in_int32 (numBytes h)" "in_int32 (numSectors h)" "\<forall>x \<in> set (dataSectors h). in_int32 x"
    using assms(1) by (simp_all add: header_ok_def ExtensionLength_def TimeStringLength_def hdr_consts)
  have w: "HdrWriteBack h st s = Inr (st(s := header_bytes h))"
    using assms(2,3) length_header_bytes [OF assms(1)] by (simp add: HdrWriteBack_def WriteSector_def)
  have d: "un_ints 10 (ints_bytes (dataSectors h)) = dataSectors h"
    using un_ints_ints_bytes [OF r(3), of "[]"] l(5) by simp
  have "HdrFetchFrom h0 (st(s := header_bytes h)) s = Inr (h\<lparr>headerSector := headerSector h0\<rparr>)"
    using assms(2,3) l r
    by (simp add: HdrFetchFrom_def ReadSector_def header_bytes_def hdr_consts un_le32_le32 s32_id d)
  with w show ?thesis by simp
qed

theorem header_roundtrip_witness:
  "rbind (HdrWriteBack (sample_header 8) zero_store 5) (\<lambda>st'. HdrFetchFrom (sample_header 1) st' 5) = Inr (sample_header 8)"
proof -
  have "header_ok (sample_header 8)"
    by (simp add: header_ok_def sample_header_def in_int32_def ExtensionLength_def TimeStringLength_def hdr_consts)
  from header_roundtrip [OF this, of 5] show ?thesis by (simp add: disk_consts sample_header_def)
qed

end
