(* ===== verification/OpenFile.thy ===== *)
theory OpenFile
  imports FileExpand
begin

text \<open>
  Open files (filesys/openfile.h, filesys/openfile.cc): a file header in memory with a seek
  position, reads and writes of any byte range in terms of whole sectors, and the growth of the
  file on a write behind its end. \<open>content\<close> is the abstraction: the bytes of the file.
\<close>

section \<open>State\<close>

text \<open>The disk as the file system sees it: the sectors and, per header sector, how many times the
  file is open (\<open>synchDisk->visitorCnt\<close>).\<close>

record fs_disk =
  sectors :: store
  visitorCnt :: "int list"

text \<open>What the operations take from outside: the time string of \<open>GetTime\<close>, and the values that
  uninitialised heap and stack memory happens to hold.\<close>

record fs_env =
  now :: "byte list"
  heap_junk :: "nat \<Rightarrow> 32 word"
  stack_junk :: junk
  header_junk :: file_header

record open_file =
  hdr :: file_header
  seekPosition :: int

definition FreeMapSector :: int where "FreeMapSector = 0"

section \<open>Opening and closing\<close>

definition count_visitor :: "fs_disk \<Rightarrow> int \<Rightarrow> int \<Rightarrow> fs_disk res" where
  "count_visitor d sector k =
     rbind (aget (visitorCnt d) sector) (\<lambda>c.
     rbind (aset (visitorCnt d) sector (c + k)) (\<lambda>cs.
     Inr (d\<lparr>visitorCnt := cs\<rparr>)))"

definition OpenFile_new :: "fs_env \<Rightarrow> fs_disk \<Rightarrow> int \<Rightarrow> (open_file \<times> fs_disk) res" where
  "OpenFile_new env d sector =
     rbind (HdrFetchFrom (header_junk env) (sectors d) sector) (\<lambda>h.
     rbind (count_visitor d sector 1) (\<lambda>d.
     Inr (\<lparr>hdr = h\<lparr>headerSector := sector\<rparr>, seekPosition = 0\<rparr>, d)))"

definition OpenFile_delete :: "open_file \<Rightarrow> fs_disk \<Rightarrow> fs_disk res" where
  "OpenFile_delete f d =
     rbind (HdrWriteBack (hdr f) (sectors d) (headerSector (hdr f))) (\<lambda>st.
     count_visitor (d\<lparr>sectors := st\<rparr>) (headerSector (hdr f)) (-1))"

definition Seek :: "open_file \<Rightarrow> int \<Rightarrow> open_file" where
  "Seek f position = f\<lparr>seekPosition := position\<rparr>"

definition Length :: "open_file \<Rightarrow> int" where
  "Length f = FileLength (hdr f)"

section \<open>Reading\<close>

text \<open>\<open>synchDisk->ReadSector(hdr->ByteToSector(i * SectorSize), ...)\<close> for \<open>n\<close> sectors from \<open>i\<close>.\<close>

fun read_sectors :: "file_header \<Rightarrow> store \<Rightarrow> int \<Rightarrow> nat \<Rightarrow> byte list res" where
  "read_sectors h st i 0 = Inr []"
| "read_sectors h st i (Suc n) =
     rbind (ByteToSector h st (i * SectorSize)) (\<lambda>s.
     rbind (ReadSector st s) (\<lambda>bs.
     rbind (read_sectors h st (i + 1) n) (\<lambda>rest. Inr (bs @ rest))))"

text \<open>The bytes read, as many as the result of the function says.\<close>

definition ReadAt :: "fs_env \<Rightarrow> open_file \<Rightarrow> store \<Rightarrow> int \<Rightarrow> int \<Rightarrow> (byte list \<times> open_file) res" where
  "ReadAt env f st numBytes0 position =
     (let fileLength = FileLength (hdr f) in
      if numBytes0 \<le> 0 \<or> position \<ge> fileLength then Inr ([], f)
      else
        let numBytes = (if position + numBytes0 > fileLength then fileLength - position else numBytes0);
            firstSector = divRoundDown position SectorSize;
            lastSector = divRoundDown (position + numBytes - 1) SectorSize;
            numSects = 1 + lastSector - firstSector
        in rbind (read_sectors (hdr f) st firstSector (nat numSects)) (\<lambda>buf.
           rbind (ASSERT (position - firstSector * SectorSize \<ge> 0)) (\<lambda>_.
           Inr (take (nat numBytes) (drop (nat (position - firstSector * SectorSize)) buf),
                f\<lparr>hdr := (hdr f)\<lparr>lastVisitTime := now env\<rparr>\<rparr>))))"

section \<open>Writing within the file\<close>

text \<open>\<open>synchDisk->WriteSector(hdr->ByteToSector(i * SectorSize), ...)\<close> for \<open>n\<close> sectors from \<open>i\<close>.\<close>

fun write_sectors :: "file_header \<Rightarrow> store \<Rightarrow> int \<Rightarrow> nat \<Rightarrow> byte list \<Rightarrow> store res" where
  "write_sectors h st i 0 buf = Inr st"
| "write_sectors h st i (Suc n) buf =
     rbind (ByteToSector h st (i * SectorSize)) (\<lambda>s.
     rbind (WriteSector st s (take (nat SectorSize) buf)) (\<lambda>st.
     write_sectors h st (i + 1) n (drop (nat SectorSize) buf)))"

text \<open>\<open>ReadAt(&buf[off], ...)\<close> and \<open>bcopy(from, &buf[off], n)\<close>: overwriting part of a buffer.\<close>

definition overlay :: "byte list \<Rightarrow> nat \<Rightarrow> byte list \<Rightarrow> byte list" where
  "overlay buf off bs = take off buf @ bs @ drop (off + length bs) buf"

text \<open>\<open>WriteAt\<close> once the file is long enough. The buffer \<open>new char[numSectors * SectorSize]\<close> is
  not initialised: its bytes come from \<open>heap_junk\<close>.\<close>

definition WriteAt_in :: "fs_env \<Rightarrow> open_file \<Rightarrow> store \<Rightarrow> byte list \<Rightarrow> int \<Rightarrow> int \<Rightarrow> (int \<times> open_file \<times> store) res" where
  "WriteAt_in env f st from numBytes0 position =
     (let fileLength = FileLength (hdr f) in
      if numBytes0 \<le> 0 \<or> position \<ge> fileLength then Inr (0, f, st)
      else
        let numBytes = (if position + numBytes0 > fileLength then fileLength - position else numBytes0);
            firstSector = divRoundDown position SectorSize;
            lastSector = divRoundDown (position + numBytes - 1) SectorSize;
            numSects = 1 + lastSector - firstSector;
            buf = map (\<lambda>k. ucast (heap_junk env k)) [0..<nat (numSects * SectorSize)];
            firstAligned = (position = firstSector * SectorSize);
            lastAligned = (position + numBytes = (lastSector + 1) * SectorSize)
        in rbind (if \<not> firstAligned
                  then rbind (ReadAt env f st SectorSize (firstSector * SectorSize)) (\<lambda>(bs, f).
                       Inr (overlay buf 0 bs, f))
                  else Inr (buf, f)) (\<lambda>(buf, f).
           rbind (if \<not> lastAligned \<and> (firstSector \<noteq> lastSector \<or> firstAligned)
                  then rbind (ReadAt env f st SectorSize (lastSector * SectorSize)) (\<lambda>(bs, f).
                       Inr (overlay buf (nat ((lastSector - firstSector) * SectorSize)) bs, f))
                  else Inr (buf, f)) (\<lambda>(buf, f).
           rbind (ASSERT (position - firstSector * SectorSize \<ge> 0 \<and> numBytes \<le> int (length from))) (\<lambda>_.
           let buf = overlay buf (nat (position - firstSector * SectorSize)) (take (nat numBytes) from)
           in rbind (write_sectors (hdr f) st firstSector (nat numSects) buf) (\<lambda>st.
              Inr (numBytes, f\<lparr>hdr := (hdr f)\<lparr>lastVisitTime := now env, modifyTime := now env\<rparr>\<rparr>, st))))))"

section \<open>Writing behind the end\<close>

text \<open>\<open>BitMap::FetchFrom\<close>: the words of the map from a file.\<close>

definition map_FetchFrom :: "fs_env \<Rightarrow> bitmap \<Rightarrow> open_file \<Rightarrow> store \<Rightarrow> (bitmap \<times> open_file) res" where
  "map_FetchFrom env bm f st =
     rbind (ReadAt env f st (numWords bm * sizeof_int) 0) (\<lambda>(bs, f). Inr (load_map bm bs, f))"

text \<open>\<open>WriteAt\<close> of a file that has to grow reads the bitmap of free sectors, expands the header
  by \<open>numBytes\<close>, and writes header and bitmap back; writing the bitmap is a \<open>WriteAt\<close> again, on
  the bitmap's file. The first argument bounds the depth of that recursion.\<close>

fun WriteAt :: "nat \<Rightarrow> fs_env \<Rightarrow> open_file \<Rightarrow> fs_disk \<Rightarrow> byte list \<Rightarrow> int \<Rightarrow> int \<Rightarrow> (int \<times> open_file \<times> fs_disk) res" where
  "WriteAt 0 env f d from numBytes0 position =
     (if position + numBytes0 > FileLength (hdr f) then Inl OutOfFuel
      else rbind (WriteAt_in env f (sectors d) from numBytes0 position) (\<lambda>(n, f, st). Inr (n, f, d\<lparr>sectors := st\<rparr>)))"
| "WriteAt (Suc fuel) env f d from numBytes0 position =
     rbind
       (if position + numBytes0 > FileLength (hdr f) then
          rbind (BitMap (heap_junk env) NumSectors) (\<lambda>freeMap.
          rbind (OpenFile_new env d FreeMapSector) (\<lambda>(freeMapFile, d).
          rbind (map_FetchFrom env freeMap freeMapFile (sectors d)) (\<lambda>(freeMap, freeMapFile).
          rbind (ExpandFileSize (stack_junk env) (hdr f) freeMap (sectors d) numBytes0) (\<lambda>(ok, h, freeMap, st).
          rbind (ASSERT ok) (\<lambda>_.
          rbind (HdrWriteBack h st (headerSector h)) (\<lambda>st.
          rbind (WriteAt fuel env freeMapFile (d\<lparr>sectors := st\<rparr>) (map_bytes freeMap) (numWords freeMap * sizeof_int) 0)
            (\<lambda>(n, freeMapFile, d).
          rbind (OpenFile_delete freeMapFile d) (\<lambda>d.
          Inr (f\<lparr>hdr := h\<rparr>, d)))))))))
        else Inr (f, d)) (\<lambda>(f, d).
     rbind (WriteAt_in env f (sectors d) from numBytes0 position) (\<lambda>(n, f, st). Inr (n, f, d\<lparr>sectors := st\<rparr>)))"

text \<open>\<open>BitMap::WriteBack\<close>.\<close>

definition map_WriteBack :: "nat \<Rightarrow> fs_env \<Rightarrow> bitmap \<Rightarrow> open_file \<Rightarrow> fs_disk \<Rightarrow> (open_file \<times> fs_disk) res" where
  "map_WriteBack fuel env bm f d =
     rbind (WriteAt fuel env f d (map_bytes bm) (numWords bm * sizeof_int) 0) (\<lambda>(n, f, d). Inr (f, d))"

section \<open>Reading and writing at the seek position\<close>

text \<open>The reader and writer locks around the two (synchdisk.cc) are the subject of a theory of
  their own.\<close>

definition OpenFile_Read :: "fs_env \<Rightarrow> open_file \<Rightarrow> store \<Rightarrow> int \<Rightarrow> (byte list \<times> open_file) res" where
  "OpenFile_Read env f st numBytes0 =
     rbind (ReadAt env f st numBytes0 (seekPosition f)) (\<lambda>(bs, f).
     Inr (bs, f\<lparr>seekPosition := seekPosition f + int (length bs)\<rparr>))"

definition OpenFile_Write :: "nat \<Rightarrow> fs_env \<Rightarrow> open_file \<Rightarrow> fs_disk \<Rightarrow> byte list \<Rightarrow> int \<Rightarrow> (int \<times> open_file \<times> fs_disk) res" where
  "OpenFile_Write fuel env f d into numBytes0 =
     rbind (WriteAt fuel env f d into numBytes0 (seekPosition f)) (\<lambda>(n, f, d).
     Inr (n, f\<lparr>seekPosition := seekPosition f + n\<rparr>, d))"
end
