(* ===== verification/FileContent.thy ===== *)
theory FileContent
  imports OpenFile
begin

text \<open>
  Reads and writes of open files against the bytes of the file. \<open>content\<close> puts the data sectors of a
  file together; \<open>ReadAt\<close> returns a slice of it, \<open>WriteAt\<close> within the file overwrites a slice and
  touches no sector of any other file.
\<close>

section \<open>The bytes of a file\<close>

definition content :: "store \<Rightarrow> file_header \<Rightarrow> byte list" where
  "content st h = take (nat (numBytes h)) (concat (map st (blocks st h)))"

definition length_ok :: "file_header \<Rightarrow> bool" where
  "length_ok h \<longleftrightarrow> 0 \<le> numBytes h \<and> numBytes h \<le> numSectors h * SectorSize"

text \<open>An open file in good order on a store: \<open>bm\<close> has its sectors marked.\<close>

definition open_ok :: "store \<Rightarrow> bitmap \<Rightarrow> file_header \<Rightarrow> bool" where
  "open_ok st bm h \<longleftrightarrow> file_ok st bm h \<and> disk_map bm \<and> store_wf st \<and> length_ok h"

lemma open_okD:
  assumes "open_ok st bm h"
  shows "file_ok st bm h" "disk_map bm" "store_wf st" "0 \<le> numBytes h" "numBytes h \<le> numSectors h * 128"
  using assms by (simp_all add: open_ok_def length_ok_def SectorSize_def)

section \<open>Uniform chunks\<close>

lemma length_concat_uniform: "\<forall>x \<in> set xs. length (f x) = c \<Longrightarrow> length (concat (map f xs)) = c * length xs"
  by (induction xs) auto

lemma concat_take_drop:
  assumes "\<forall>x \<in> set xs. length (f x) = c"
  shows "concat (map f (take n (drop i xs))) = take (c * n) (drop (c * i) (concat (map f xs)))"
proof -
  have d: "concat (map f (drop i xs)) = drop (c * i) (concat (map f xs))" if "\<forall>x \<in> set xs. length (f x) = c" for i xs
    using that by (induction xs arbitrary: i) (auto simp: drop_Cons split: nat.split)
  have t: "concat (map f (take n xs)) = take (c * n) (concat (map f xs))" if "\<forall>x \<in> set xs. length (f x) = c" for n xs
    using that by (induction xs arbitrary: n) (auto simp: take_Cons split: nat.split)
  have "\<forall>x \<in> set (drop i xs). length (f x) = c" using assms set_drop_subset [of i xs] by blast
  from t [OF this] d [OF assms] show ?thesis by simp
qed

lemma take_Suc_drop: "i < length xs \<Longrightarrow> take (Suc n) (drop i xs) = xs ! i # take n (drop (Suc i) xs)"
  by (simp add: Cons_nth_drop_Suc [symmetric])

lemma length_overlay [simp]: "off + length bs \<le> length buf \<Longrightarrow> length (overlay buf off bs) = length buf"
  by (simp add: overlay_def)

lemma nth_overlay:
  assumes "off + length bs \<le> length buf" "j < length buf"
  shows "overlay buf off bs ! j = (if off \<le> j \<and> j < off + length bs then bs ! (j - off) else buf ! j)"
  using assms by (auto simp: overlay_def nth_append)

section \<open>The sectors of a file\<close>

lemma blocks_marked:
  assumes "open_ok st bm h" "s \<in> set (blocks st h)"
  shows "0 \<le> s" "s < NumSectors" "length (st s) = 128"
proof -
  note D = open_okD [OF assms(1)]
  have "s \<in> marked bm" using D(1) assms(2) by (auto simp: file_ok_def owned_def)
  then show "0 \<le> s" "s < NumSectors" using disk_map_sector [OF D(2)] by auto
  then show "length (st s) = 128" using D(3) by (auto simp: store_wf_def SectorSize_def)
qed

lemma length_blocks: "length (blocks st h) = nat (numSectors h)"
  by (simp add: blocks_def)

lemma length_data:
  assumes "open_ok st bm h"
  shows "length (concat (map st (blocks st h))) = 128 * nat (numSectors h)"
  using length_concat_uniform [of "blocks st h" st 128] blocks_marked(3) [OF assms] by (simp add: length_blocks)

lemma length_content: "open_ok st bm h \<Longrightarrow> length (content st h) = nat (numBytes h)"
  using open_okD(4,5) [of st bm h] by (simp add: content_def length_data nat_le_iff)

lemma ByteToSector_nth:
  assumes "open_ok st bm h" "0 \<le> i" "i < numSectors h"
  shows "ByteToSector h st (i * SectorSize) = Inr (blocks st h ! nat i)"
  using ByteToSector_block [OF open_okD(1,2) [OF assms(1)], of "i * SectorSize"] assms(2,3) by (simp add: SectorSize_def)

text \<open>The index tables decide which sectors a file has.\<close>

lemma block_at_cong:
  assumes "\<forall>s \<in> set (tables_of st ds n). st' s = st s" "k < n" "n \<le> 1064"
  shows "block_at st' ds k = block_at st ds k"
proof -
  consider "k < 8" | "8 \<le> k" "k < 40" | "40 \<le> k" by linarith
  then show ?thesis
  proof cases
    case 3
    then have n: "40 < n" using assms(2) by simp
    let ?q = "(k - 40) div 32" and ?m = "(n - 40 + 31) div 32" and ?two = "tbl st (ds ! 9)"
    have q: "?q < ?m" "?q < 32" using assms(2,3) 3 by auto
    have t9: "tbl st' (ds ! 9) = ?two" using assms(1) n by (simp add: tables_of_def tbl_def)
    have "take ?m ?two ! ?q \<in> set (take ?m ?two)" using q by (intro nth_mem) (simp only: length_take length_tbl min_less_iff_conj)
    then have "?two ! ?q \<in> set (take ?m ?two)" by (simp only: nth_take [OF q(1)])
    then have "st' (?two ! ?q) = st (?two ! ?q)" using assms(1) n by (simp add: tables_of_def)
    then have "tbl st' (?two ! ?q) = tbl st (?two ! ?q)" by (simp only: tbl_def)
    with t9 3 show ?thesis by (simp add: block_at_def)
  next
    case 2
    then show ?thesis using assms by (simp add: block_at_def tables_of_def tbl_def)
  qed (simp add: block_at_def)
qed

lemma blocks_cong:
  assumes "\<forall>s \<in> set (tables st h). st' s = st s" "numSectors h \<le> 1064"
  shows "blocks st' h = blocks st h" "tables st' h = tables st h"
proof -
  show "blocks st' h = blocks st h"
    using block_at_cong [of st "dataSectors h" "nat (numSectors h)" st'] assms
    by (auto simp: blocks_def blocks_of_def tables_def)
  show "tables st' h = tables st h"
    using assms by (auto simp: tables_def tables_of_def tbl_def)
qed

lemma open_ok_cong:
  assumes "open_ok st bm h" "\<forall>s \<in> set (tables st h). st' s = st s" "store_wf st'"
  shows "open_ok st' bm h" "blocks st' h = blocks st h" "tables st' h = tables st h"
proof -
  have n: "numSectors h \<le> 1064" using open_okD(1) [OF assms(1)] by (simp add: file_ok_def hdr_consts)
  show "blocks st' h = blocks st h" "tables st' h = tables st h" using blocks_cong [OF assms(2) n] by simp_all
  then show "open_ok st' bm h" using assms(1,3) by (simp add: open_ok_def file_ok_def owned_def)
qed

section \<open>Reading\<close>

lemma read_sectors_slice:
  assumes "open_ok st bm h" "0 \<le> i" "i + int n \<le> numSectors h"
  shows "read_sectors h st i n = Inr (concat (map st (take n (drop (nat i) (blocks st h)))))"
  using assms(2,3)
proof (induction n arbitrary: i)
  case (Suc n)
  have i: "nat i < length (blocks st h)" "i < numSectors h" using Suc.prems by (simp_all add: length_blocks)
  have b: "blocks st h ! nat i \<in> set (blocks st h)" using i by simp
  have "ReadSector st (blocks st h ! nat i) = Inr (st (blocks st h ! nat i))"
    using blocks_marked(1,2) [OF assms(1) b] by (simp add: ReadSector_def)
  moreover have "read_sectors h st (i + 1) n = Inr (concat (map st (take n (drop (Suc (nat i)) (blocks st h)))))"
    using Suc.IH [of "i + 1"] Suc.prems by (simp add: Suc_nat_eq_nat_zadd1 add.commute)
  ultimately show ?case using ByteToSector_nth [OF assms(1) Suc.prems(1) i(2)] take_Suc_drop [OF i(1), of n] by simp
qed simp

lemma sector_div: "0 \<le> p \<Longrightarrow> divRoundDown p SectorSize = p div 128"
  by (simp add: divRoundDown_def SectorSize_def sdiv_pos)

lemma slice_of_slice:
  assumes "c \<le> p" "p + m \<le> c + w"
  shows "take m (drop (p - c) (take w (drop c xs))) = take m (drop p xs)"
  using assms by (simp add: drop_take min_def add.commute)

lemma ReadAt_slice:
  assumes ok: "open_ok st bm (hdr f)" and p: "0 \<le> position"
  shows "\<exists>f'. ReadAt env f st n position = Inr (take (nat n) (drop (nat position) (content st (hdr f))), f')
    \<and> f' = f\<lparr>hdr := (hdr f)\<lparr>lastVisitTime := lastVisitTime (hdr f')\<rparr>\<rparr>"
proof (cases "n \<le> 0 \<or> position \<ge> numBytes (hdr f)")
  case True
  then have "take (nat n) (drop (nat position) (content st (hdr f))) = []" using length_content [OF ok] p by auto
  then show ?thesis using True by (auto simp: ReadAt_def FileLength_def)
next
  case False
  let ?h = "hdr f" let ?whole = "concat (map st (blocks st ?h))"
  define m where "m = (if position + n > numBytes ?h then numBytes ?h - position else n)"
  define a where "a = position div 128"
  define b where "b = (position + m - 1) div 128"
  have m: "0 < m" "position + m \<le> numBytes ?h" using False by (auto simp: m_def)
  note L = open_okD(4,5) [OF ok]
  have ab: "0 \<le> a" "a \<le> b" using p m unfolding a_def b_def by (auto intro: zdiv_mono1)
  have bn: "b < numSectors ?h" using m L unfolding b_def by (simp add: int_div_less_iff)
  have low: "128 * a \<le> position" and high: "position + m \<le> 128 * (b + 1)" unfolding a_def b_def by presburger+
  let ?N = "nat (1 + b - a)"
  have rd: "read_sectors ?h st a ?N = Inr (take (128 * ?N) (drop (128 * nat a) ?whole))"
    using read_sectors_slice [OF ok ab(1), of ?N] ab bn
      concat_take_drop [of "blocks st ?h" st 128 ?N "nat a"] blocks_marked(3) [OF ok] by simp
  have eq: "take (nat m) (drop (nat (position - a * 128)) (take (128 * ?N) (drop (128 * nat a) ?whole)))
      = take (nat m) (drop (nat position) ?whole)"
  proof -
    have "nat (position - a * 128) = nat position - 128 * nat a" using ab by (simp add: nat_diff_distrib' nat_mult_distrib)
    moreover have "128 * nat a \<le> nat position" using low ab p by linarith
    moreover have "nat position + nat m \<le> 128 * nat a + 128 * ?N"
    proof -
      have "int (nat position + nat m) \<le> int (128 * nat a + 128 * ?N)" using high ab p m by simp
      then show ?thesis by (simp only: of_nat_le_iff)
    qed
    ultimately show ?thesis using slice_of_slice [of "128 * nat a" "nat position" "nat m" "128 * ?N" ?whole] by simp
  qed
  have "take (nat n) (drop (nat position) (content st ?h)) = take (nat m) (drop (nat position) ?whole)"
    using False p by (auto simp: content_def m_def drop_take min_def nat_diff_distrib')
  moreover have "ReadAt env f st n position
      = Inr (take (nat m) (drop (nat (position - a * 128)) (take (128 * ?N) (drop (128 * nat a) ?whole))),
             f\<lparr>hdr := ?h\<lparr>lastVisitTime := now env\<rparr>\<rparr>)"
    using False p m rd low
    by (simp add: ReadAt_def FileLength_def Let_def m_def [symmetric] sector_div a_def [symmetric] b_def [symmetric]) (simp add: SectorSize_def)
  ultimately show ?thesis using eq by simp
qed

section \<open>Writing within the file\<close>

text \<open>Only the sectors in \<open>A\<close> differ.\<close>

definition touches :: "int set \<Rightarrow> store \<Rightarrow> store \<Rightarrow> bool" where
  "touches A st st' \<longleftrightarrow> (\<forall>s. s \<notin> A \<longrightarrow> st' s = st s)"

lemma touches_trans: "touches A st st1 \<Longrightarrow> touches A st1 st2 \<Longrightarrow> touches A st st2"
  by (simp add: touches_def)

lemma touches_mono: "touches A st st' \<Longrightarrow> A \<subseteq> B \<Longrightarrow> touches B st st'"
  by (auto simp: touches_def)

lemma touches_tables:
  assumes "open_ok st bm h" "touches (set (blocks st h)) st st'" "store_wf st'"
  shows "open_ok st' bm h" "blocks st' h = blocks st h" "tables st' h = tables st h"
proof -
  have "\<forall>s \<in> set (tables st h). st' s = st s"
    using open_okD(1) [OF assms(1)] assms(2) by (auto simp: file_ok_def owned_def touches_def)
  from open_ok_cong [OF assms(1) this assms(3)] show "open_ok st' bm h" "blocks st' h = blocks st h" "tables st' h = tables st h" .
qed

lemma write_sectors_slice:
  assumes "open_ok st bm h" "0 \<le> i" "i + int n \<le> numSectors h" "128 * n \<le> length buf"
  shows "\<exists>st'. write_sectors h st i n buf = Inr st' \<and> store_wf st' \<and> touches (set (take n (drop (nat i) (blocks st h)))) st st'
    \<and> concat (map st' (take n (drop (nat i) (blocks st h)))) = take (128 * n) buf"
  using assms
proof (induction n arbitrary: i st buf)
  case 0
  then show ?case by (simp add: touches_def open_ok_def)
next
  case (Suc n)
  note ok = Suc.prems(1)
  let ?bl = "blocks st h" and ?i = "nat i"
  have i: "?i < length ?bl" "i < numSectors h" using Suc.prems by (simp_all add: length_blocks)
  let ?b = "?bl ! ?i"
  have bm: "?b \<in> set ?bl" using i by simp
  define st1 where "st1 = st(?b := take 128 buf)"
  have w: "WriteSector st ?b (take (nat SectorSize) buf) = Inr st1"
    using blocks_marked(1,2) [OF ok bm] by (simp add: WriteSector_def SectorSize_def st1_def)
  have wf: "store_wf st1" using open_okD(3) [OF ok] Suc.prems(4) by (simp add: store_wf_def SectorSize_def st1_def)
  have tb: "touches {?b} st st1" by (simp add: touches_def st1_def)
  note T = touches_tables [OF ok touches_mono [OF tb] wf]
  have T': "open_ok st1 bm h" "blocks st1 h = ?bl" using T bm by auto
  have nx: "nat (i + 1) = Suc ?i" using Suc.prems(2) by simp
  have pr: "0 \<le> i + 1" "i + 1 + int n \<le> numSectors h" "128 * n \<le> length (drop 128 buf)" using Suc.prems by simp_all
  obtain st' where st': "write_sectors h st1 (i + 1) n (drop 128 buf) = Inr st'" "store_wf st'"
    "touches (set (take n (drop (Suc ?i) ?bl))) st1 st'" "concat (map st' (take n (drop (Suc ?i) ?bl))) = take (128 * n) (drop 128 buf)"
    using Suc.IH [OF T'(1) pr] unfolding T'(2) nx by blast
  have d: "distinct ?bl" using open_okD(1) [OF ok] by (simp add: file_ok_def owned_def)
  have "?b \<notin> set (take n (drop (Suc ?i) ?bl))"
  proof -
    have "distinct (?b # drop (Suc ?i) ?bl)" using d distinct_drop [of ?bl ?i] i by (simp add: Cons_nth_drop_Suc)
    then show ?thesis using set_take_subset [of n "drop (Suc ?i) ?bl"] by auto
  qed
  then have "st' ?b = take 128 buf" using st'(3) by (simp add: touches_def st1_def)
  moreover have "take (128 * Suc n) buf = take 128 buf @ take (128 * n) (drop 128 buf)" by (simp add: take_add)
  moreover have "touches (set (take (Suc n) (drop ?i ?bl))) st st'"
    using st'(3) tb unfolding take_Suc_drop [OF i(1)] by (auto simp: touches_def)
  ultimately show ?case
    using ByteToSector_nth [OF ok Suc.prems(2) i(2)] w st' by (simp add: take_Suc_drop [OF i(1)] SectorSize_def)
qed

lemma touched_whole:
  assumes "touches (set (take n (drop i xs))) st st'" "distinct xs"
  shows "concat (map st' xs) = concat (map st (take i xs)) @ concat (map st' (take n (drop i xs))) @ concat (map st (drop (i + n) xs))"
proof -
  have xs: "xs = take i xs @ take n (drop i xs) @ drop (i + n) xs" by (metis append_take_drop_id drop_drop add.commute)
  have d: "distinct (take i xs @ take n (drop i xs) @ drop (i + n) xs)" using assms(2) xs by simp
  have "map st' (take i xs) = map st (take i xs)" "map st' (drop (i + n) xs) = map st (drop (i + n) xs)"
    using assms(1) d by (auto simp: touches_def)
  moreover have "concat (map st' xs) = concat (map st' (take i xs)) @ concat (map st' (take n (drop i xs))) @ concat (map st' (drop (i + n) xs))"
    using arg_cong [OF xs, of "\<lambda>ys. concat (map st' ys)"] by (simp only: map_append concat_append)
  ultimately show ?thesis by (simp only:)
qed

text \<open>Reading leaves everything but the time of the last visit.\<close>

definition visited :: "open_file \<Rightarrow> open_file \<Rightarrow> bool" where
  "visited f f' \<longleftrightarrow> (\<exists>t. f' = f\<lparr>hdr := (hdr f)\<lparr>lastVisitTime := t\<rparr>\<rparr>)"

lemma visited_refl: "visited f f"
  unfolding visited_def by (rule exI [of _ "lastVisitTime (hdr f)"]) simp

lemma visited_trans: "visited f f1 \<Longrightarrow> visited f1 f2 \<Longrightarrow> visited f f2"
  by (auto simp: visited_def)

lemma times_frame [simp]:
  "blocks st (h\<lparr>lastVisitTime := t\<rparr>) = blocks st h" "tables st (h\<lparr>lastVisitTime := t\<rparr>) = tables st h"
  "blocks st (h\<lparr>modifyTime := t\<rparr>) = blocks st h" "tables st (h\<lparr>modifyTime := t\<rparr>) = tables st h"
  by (simp_all add: blocks_def tables_def)

lemma times_ok [simp]:
  "content st (h\<lparr>lastVisitTime := t\<rparr>) = content st h" "content st (h\<lparr>modifyTime := t\<rparr>) = content st h"
  "open_ok st bm (h\<lparr>lastVisitTime := t\<rparr>) = open_ok st bm h" "open_ok st bm (h\<lparr>modifyTime := t\<rparr>) = open_ok st bm h"
  by (simp_all add: content_def open_ok_def file_ok_def owned_def length_ok_def)

lemma visitedD:
  assumes "visited f f'"
  shows "content st (hdr f') = content st (hdr f)" "open_ok st bm (hdr f') = open_ok st bm (hdr f)" "blocks st (hdr f') = blocks st (hdr f)"
    "numBytes (hdr f') = numBytes (hdr f)" "numSectors (hdr f') = numSectors (hdr f)" "seekPosition f' = seekPosition f"
    "headerSector (hdr f') = headerSector (hdr f)" "dataSectors (hdr f') = dataSectors (hdr f)"
  using assms by (auto simp: visited_def)

lemma ReadAt_visited:
  assumes "open_ok st bm (hdr f)" "0 \<le> position"
  obtains f' where "ReadAt env f st n position = Inr (take (nat n) (drop (nat position) (content st (hdr f))), f')" "visited f f'"
  using ReadAt_slice [OF assms, of env n] by (auto simp: visited_def)

text \<open>The first and the last sector of the buffer hold the old bytes of the file where nothing is
  going to be written.\<close>

definition prepared :: "byte list \<Rightarrow> byte list \<Rightarrow> nat \<Rightarrow> nat \<Rightarrow> nat \<Rightarrow> nat \<Rightarrow> bool" where
  "prepared old buf c w p m \<longleftrightarrow> length buf = w \<and>
     (\<forall>j < w. c + j < length old \<and> \<not> (p \<le> c + j \<and> c + j < p + m) \<longrightarrow> buf ! j = old ! (c + j))"

lemma edge_nth:
  assumes "length buf = w" "e \<le> j" "j < e + 128" "j < w" "c + j < length old" "e + 128 \<le> w"
  shows "overlay buf e (take 128 (drop (c + e) old)) ! j = old ! (c + j)"
proof -
  have "overlay buf e (take 128 (drop (c + e) old)) ! j = take 128 (drop (c + e) old) ! (j - e)"
    using assms by (subst nth_overlay) auto
  then show ?thesis using assms by simp
qed

lemma edge_other:
  assumes "length buf = w" "j < w" "j < e" "e + 128 \<le> w"
  shows "overlay buf e (take 128 (drop (c + e) old)) ! j = buf ! j"
  using assms by (subst nth_overlay) auto

lemma prepared_edges:
  assumes w: "w = 128 * (b - a + 1)" and len: "length buf = w" and ab: "a \<le> b" and p: "128 * a \<le> p" "p < 128 * (a + 1)"
    and e: "128 * b < p + m" "p + m \<le> 128 * (b + 1)"
    and b1: "buf1 = (if p \<noteq> 128 * a then overlay buf 0 (take 128 (drop (128 * a) old)) else buf)"
    and b2: "buf2 = (if p + m \<noteq> 128 * (b + 1) \<and> (a \<noteq> b \<or> p = 128 * a)
      then overlay buf1 (128 * (b - a)) (take 128 (drop (128 * b) old)) else buf1)"
  shows "prepared old buf2 (128 * a) w p m"
proof -
  have l1: "length buf1 = w" using len w by (auto simp: b1)
  have l2: "length buf2 = w" using l1 w by (auto simp: b2)
  have cb: "128 * b = 128 * a + 128 * (b - a)" using ab by simp
  have one: "buf1 ! j = old ! (128 * a + j)" if "p \<noteq> 128 * a" "j < 128" "128 * a + j < length old" for j
    using edge_nth [of buf w 0 j "128 * a" old] that len w by (simp add: b1)
  have "buf2 ! j = old ! (128 * a + j)"
    if j: "j < w" "128 * a + j < length old" "\<not> (p \<le> 128 * a + j \<and> 128 * a + j < p + m)" for j
  proof (cases "p + m \<noteq> 128 * (b + 1) \<and> (a \<noteq> b \<or> p = 128 * a)")
    case True
    then have b2': "buf2 = overlay buf1 (128 * (b - a)) (take 128 (drop (128 * a + 128 * (b - a)) old))"
      unfolding b2 if_P [OF True] by (simp only: cb)
    show ?thesis
    proof (cases "128 * (b - a) \<le> j")
      case True
      then show ?thesis unfolding b2' using edge_nth [OF l1 True, of "128 * a" old] j w by simp
    next
      case False
      then have "buf2 ! j = buf1 ! j" unfolding b2' using edge_other [OF l1 j(1), of "128 * (b - a)"] w by simp
      moreover have "128 * a + j < p" using False j(3) e(1) cb by linarith
      ultimately show ?thesis using one p j(2) by simp
    qed
  next
    case False
    then have "p + m = 128 * (b + 1) \<or> (a = b \<and> p \<noteq> 128 * a)" by blast
    then have "p \<noteq> 128 * a \<and> j < 128"
    proof
      assume "p + m = 128 * (b + 1)"
      moreover have "128 * a + j < 128 * (b + 1)" using j(1) w cb by simp
      ultimately have "128 * a + j < p" using j(3) by simp
      then show ?thesis using p by simp
    qed (use j(1) w in simp)
    moreover have "buf2 = buf1" unfolding b2 by (rule if_not_P [OF False])
    ultimately show ?thesis using one j(2) by simp
  qed
  then show ?thesis using l2 by (simp add: prepared_def)
qed

lemma overlay_content:
  assumes pr: "prepared (take len whole) buf (128 * a) (128 * n) p m" and len: "len \<le> length whole" "128 * (a + n) \<le> length whole"
    and p: "128 * a \<le> p" "p + m \<le> 128 * (a + n)" "p + m \<le> len" and d: "length data = m"
  shows "take len (take (128 * a) whole @ overlay buf (p - 128 * a) data @ drop (128 * (a + n)) whole)
    = overlay (take len whole) p data"
proof (rule nth_equalityI)
  have lb: "length buf = 128 * n" using pr by (simp add: prepared_def)
  have lo: "length (overlay buf (p - 128 * a) data) = 128 * n" using p d lb by simp
  show "length (take len (take (128 * a) whole @ overlay buf (p - 128 * a) data @ drop (128 * (a + n)) whole))
      = length (overlay (take len whole) p data)" using p d len lb by (simp add: lo)
  fix j assume "j < length (take len (take (128 * a) whole @ overlay buf (p - 128 * a) data @ drop (128 * (a + n)) whole))"
  then have j: "j < len" by (simp only: length_take min_less_iff_conj)
  have r: "overlay (take len whole) p data ! j = (if p \<le> j \<and> j < p + m then data ! (j - p) else whole ! j)"
    using p d j len by (subst nth_overlay) auto
  consider "j < 128 * a" | "128 * a \<le> j" "j < 128 * (a + n)" | "128 * (a + n) \<le> j" by linarith
  then show "take len (take (128 * a) whole @ overlay buf (p - 128 * a) data @ drop (128 * (a + n)) whole) ! j
      = overlay (take len whole) p data ! j"
  proof cases
    case 1
    then show ?thesis using r p(1) j len by (simp add: nth_append)
  next
    case 2
    then have k: "j - 128 * a < 128 * n" by simp
    have "overlay buf (p - 128 * a) data ! (j - 128 * a) = (if p \<le> j \<and> j < p + m then data ! (j - p) else buf ! (j - 128 * a))"
      using p d lb k 2 by (subst nth_overlay) auto
    moreover have "\<not> (p \<le> j \<and> j < p + m) \<Longrightarrow> buf ! (j - 128 * a) = whole ! j"
      using pr k j len(1) 2(1) unfolding prepared_def by (auto dest!: spec [of _ "j - 128 * a"])
    ultimately show ?thesis using r 2 j len k by (auto simp: nth_append lo)
  next
    case 3
    then have "\<not> j < 128 * a" "\<not> j - 128 * a < 128 * n" "128 * (a + n) + (j - 128 * a - 128 * n) = j" by auto
    then show ?thesis using r 3 j len p by (auto simp: nth_append lo)
  qed
qed

lemma edge_read:
  assumes "open_ok st bm (hdr f)" "0 \<le> q"
  shows "\<exists>f'. (if c then rbind (ReadAt env f st SectorSize q) (\<lambda>(bs, f). Inr (overlay buf e bs, f)) else Inr (buf, f))
      = Inr (if c then overlay buf e (take 128 (drop (nat q) (content st (hdr f)))) else buf, f') \<and> visited f f'"
proof (cases c)
  case True
  obtain f' where "ReadAt env f st SectorSize q = Inr (take (nat SectorSize) (drop (nat q) (content st (hdr f))), f')" "visited f f'"
    using assms by (rule ReadAt_visited)
  then show ?thesis using True by (simp add: SectorSize_def)
qed (simp add: visited_refl)

lemma WriteAt_in_overlay:
  assumes ok: "open_ok st bm (hdr f)" and p: "0 \<le> position" "position < numBytes (hdr f)" and n: "0 < n" "n \<le> int (length from)"
  defines "m \<equiv> min n (numBytes (hdr f) - position)"
  shows "\<exists>f' st'. WriteAt_in env f st from n position = Inr (m, f', st')
    \<and> open_ok st' bm (hdr f') \<and> touches (set (blocks st (hdr f))) st st' \<and> blocks st' (hdr f') = blocks st (hdr f)
    \<and> content st' (hdr f') = overlay (content st (hdr f)) (nat position) (take (nat m) from)
    \<and> f' = f\<lparr>hdr := (hdr f)\<lparr>lastVisitTime := now env, modifyTime := now env\<rparr>\<rparr>"
proof -
  let ?h = "hdr f" and ?bl = "blocks st (hdr f)"
  let ?whole = "concat (map st ?bl)"
  define a where "a = position div 128"
  define b where "b = (position + m - 1) div 128"
  define N where "N = nat (1 + b - a)"
  have m: "0 < m" "position + m \<le> numBytes ?h" "m \<le> int (length from)" using p n by (auto simp: m_def)
  have m': "(if position + n > numBytes ?h then numBytes ?h - position else n) = m" by (auto simp: m_def)
  note L = open_okD(4,5) [OF ok]
  have ab: "0 \<le> a" "a \<le> b" using p m unfolding a_def b_def by (auto intro: zdiv_mono1)
  have bn: "b < numSectors ?h" using m L unfolding b_def by (simp add: int_div_less_iff)
  have lo: "128 * a \<le> position" "position < 128 * (a + 1)" unfolding a_def by presburger+
  have hi: "128 * b < position + m" "position + m \<le> 128 * (b + 1)" unfolding b_def by presburger+
  have N: "N = nat b - nat a + 1" "0 < N" using ab by (auto simp: N_def)
  define A where "A = nat a" define B where "B = nat b" define P where "P = nat position" define M where "M = nat m"
  have I: "a = int A" "b = int B" "position = int P" "m = int M" using ab p m by (simp_all add: A_def B_def P_def M_def)
  have natural: "A \<le> B" "128 * A \<le> P" "P < 128 * (A + 1)" "128 * B < P + M" "P + M \<le> 128 * (B + 1)" "N = B - A + 1"
    using ab lo hi N by (simp_all add: I)
  have lw: "length ?whole = 128 * nat (numSectors ?h)" by (rule length_data [OF ok])
  have ln: "nat (numBytes ?h) \<le> length ?whole" "128 * (A + N) \<le> length ?whole" "P + M \<le> nat (numBytes ?h)"
  proof -
    show "nat (numBytes ?h) \<le> length ?whole" using L unfolding lw by linarith
    have "A + N \<le> nat (numSectors ?h)" using bn natural(1,6) I(2) by simp
    then show "128 * (A + N) \<le> length ?whole" unfolding lw by simp
    have "int (P + M) \<le> numBytes ?h" using m(2) I by simp
    then show "P + M \<le> nat (numBytes ?h)" by simp
  qed
  define buf0 :: "byte list" where "buf0 = map (\<lambda>k. ucast (heap_junk env k)) [0..<128 * N]"
  define fA where "fA \<longleftrightarrow> position = a * SectorSize"
  define lA where "lA \<longleftrightarrow> position + m = (b + 1) * SectorSize"
  have fA: "fA \<longleftrightarrow> P = 128 * A" and lA: "lA \<longleftrightarrow> P + M = 128 * (B + 1)"
    unfolding fA_def lA_def SectorSize_def I by presburger+
  define buf1 where "buf1 = (if \<not> fA then overlay buf0 0 (take 128 (drop (nat (a * SectorSize)) (content st ?h))) else buf0)"
  obtain f1 where s1: "(if \<not> fA then rbind (ReadAt env f st SectorSize (a * SectorSize)) (\<lambda>(bs, f). Inr (overlay buf0 0 bs, f))
      else Inr (buf0, f)) = Inr (buf1, f1)" and v1: "visited f f1"
    using edge_read [OF ok, of "a * SectorSize" "\<not> fA" env buf0 0] ab by (auto simp: buf1_def SectorSize_def)
  have ok1: "open_ok st bm (hdr f1)" and c1: "content st (hdr f1) = content st ?h" using visitedD [OF v1] ok by simp_all
  define buf2 where "buf2 = (if \<not> lA \<and> (a \<noteq> b \<or> fA)
    then overlay buf1 (nat ((b - a) * SectorSize)) (take 128 (drop (nat (b * SectorSize)) (content st ?h))) else buf1)"
  obtain f2 where s2: "(if \<not> lA \<and> (a \<noteq> b \<or> fA) then rbind (ReadAt env f1 st SectorSize (b * SectorSize)) (\<lambda>(bs, f).
      Inr (overlay buf1 (nat ((b - a) * SectorSize)) bs, f)) else Inr (buf1, f1)) = Inr (buf2, f2)" and v2: "visited f1 f2"
    using edge_read [OF ok1, of "b * SectorSize" "\<not> lA \<and> (a \<noteq> b \<or> fA)" env buf1 "nat ((b - a) * SectorSize)"] ab
    by (auto simp: buf2_def SectorSize_def c1)
  have ks: "nat (a * SectorSize) = 128 * A" "nat (b * SectorSize) = 128 * B" "nat ((b - a) * SectorSize) = 128 * (B - A)" "a \<noteq> b \<longleftrightarrow> A \<noteq> B"
    using natural(1) unfolding SectorSize_def I by auto
  have e1: "buf1 = (if P \<noteq> 128 * A then overlay buf0 0 (take 128 (drop (128 * A) (content st ?h))) else buf0)"
    unfolding buf1_def ks fA ..
  have e2: "buf2 = (if P + M \<noteq> 128 * (B + 1) \<and> (A \<noteq> B \<or> P = 128 * A)
      then overlay buf1 (128 * (B - A)) (take 128 (drop (128 * B) (content st ?h))) else buf1)"
    unfolding buf2_def ks lA fA ..
  have prep: "prepared (content st ?h) buf2 (128 * A) (128 * N) P M"
    by (rule prepared_edges [OF _ _ natural(1-5) e1 e2]) (simp_all add: buf0_def natural(6))
  define data where "data = take M from"
  have ld: "length data = M" using m by (simp add: data_def M_def)
  define buf where "buf = overlay buf2 (nat (position - a * SectorSize)) (take (nat m) from)"
  have eb: "nat (position - a * SectorSize) = P - 128 * A" unfolding SectorSize_def I using natural(2) by simp
  have b2: "length buf2 = 128 * N" using prep by (simp add: prepared_def)
  have be: "buf = overlay buf2 (P - 128 * A) data" unfolding buf_def eb data_def M_def ..
  have lb: "length buf = 128 * N" unfolding be using natural ld b2 by (subst length_overlay) auto
  have v: "visited f f2" by (rule visited_trans [OF v1 v2])
  have ok2: "open_ok st bm (hdr f2)" and bl2: "blocks st (hdr f2) = ?bl" and nb2: "numBytes (hdr f2) = numBytes ?h"
    "numSectors (hdr f2) = numSectors ?h" using visitedD [OF v] ok by simp_all
  have "a + int N \<le> numSectors (hdr f2)" "128 * N \<le> length buf" using bn natural(1,6) lb nb2 unfolding I by simp_all
  from write_sectors_slice [OF ok2 ab(1) this] obtain st' where w: "write_sectors (hdr f2) st a N buf = Inr st'" "store_wf st'"
    "touches (set (take N (drop A ?bl))) st st'" "concat (map st' (take N (drop A ?bl))) = buf"
    using lb unfolding bl2 A_def by auto
  have t: "touches (set ?bl) st st'" by (rule touches_mono [OF w(3)]) (meson in_set_dropD in_set_takeD subsetI)
  note T = touches_tables [OF ok t w(2)]
  have whole': "concat (map st' ?bl) = take (128 * A) ?whole @ buf @ drop (128 * (A + N)) ?whole"
  proof -
    have d: "distinct ?bl" using open_okD(1) [OF ok] by (simp add: file_ok_def owned_def)
    have u: "\<forall>s \<in> set ?bl. length (st s) = 128" using blocks_marked(3) [OF ok] by blast
    have "concat (map st (take A ?bl)) = take (128 * A) ?whole" using concat_take_drop [OF u, of A 0] by simp
    moreover have "concat (map st (drop (A + N) ?bl)) = drop (128 * (A + N)) ?whole"
      using concat_take_drop [OF u, of "length ?bl" "A + N"] length_concat_uniform [OF u] by simp
    ultimately show ?thesis using touched_whole [OF w(3) d] w(4) by simp
  qed
  have "content st' ?h = overlay (content st ?h) P data"
    unfolding content_def T(2) whole' be
    using overlay_content [OF prep [unfolded content_def] ln(1,2) natural(2) _ ln(3) ld] natural by (simp add: data_def I)
  moreover have "WriteAt_in env f st from n position = Inr (m, f2\<lparr>hdr := (hdr f2)\<lparr>lastVisitTime := now env, modifyTime := now env\<rparr>\<rparr>, st')"
  proof -
    have nn: "\<not> (n \<le> 0 \<or> numBytes ?h \<le> position)" using n p by simp
    have b0: "map (\<lambda>k. ucast (heap_junk env k)) [0..<nat ((1 + b - a) * SectorSize)] = buf0"
    proof -
      have "nat ((1 + b - a) * SectorSize) = 128 * N"
        unfolding N_def SectorSize_def using ab by (subst nat_mult_distrib) simp_all
      then show ?thesis by (simp only: buf0_def)
    qed
    have as: "ASSERT (position - a * SectorSize \<ge> 0 \<and> m \<le> int (length from)) = Inr ()"
      using lo(1) m(3) by (simp add: SectorSize_def)
    have dv: "divRoundDown position SectorSize = a" "divRoundDown (position + m - 1) SectorSize = b"
      using p m by (simp_all add: sector_div a_def b_def)
    show ?thesis
      unfolding WriteAt_in_def FileLength_def Let_def if_not_P [OF nn] m' dv b0 fA_def [symmetric] lA_def [symmetric] s1 rbind_Inr prod.case s2 as
        buf_def [symmetric] N_def [symmetric] w(1) by simp
  qed
  moreover obtain x where "f2 = f\<lparr>hdr := ?h\<lparr>lastVisitTime := x\<rparr>\<rparr>" using v by (auto simp: visited_def)
  ultimately show ?thesis using T t by (simp add: data_def P_def M_def)
qed

section \<open>Properties\<close>

text \<open>A file open on the store, \<open>n\<close> full sectors at the start of the disk.\<close>

lemma sample_open_ok [simp]: "n \<le> 8 \<Longrightarrow> open_ok zero_store (sample_map (-1)) (sample_header n)"
  by (simp add: open_ok_def length_ok_def SectorSize_def)

definition sample_env :: fs_env where
  "sample_env = \<lparr>now = replicate 25 7, heap_junk = (\<lambda>k. of_nat k), stack_junk = (\<lambda>k j. 0), header_junk = sample_header 0\<rparr>"

definition sample_file :: "nat \<Rightarrow> open_file" where
  "sample_file n = \<lparr>hdr = sample_header n, seekPosition = 0\<rparr>"

text \<open>\<open>ReadAt\<close> returns the bytes of the file from the position on, as many as asked for or as there
  are, for any position and count, across sector boundaries and through every level of index.\<close>

theorem ReadAt_content:
  assumes "open_ok st bm (hdr f)" "0 \<le> position"
  shows "\<exists>f'. ReadAt env f st n position = Inr (take (nat n) (drop (nat position) (content st (hdr f))), f')
    \<and> content st (hdr f') = content st (hdr f)"
  using ReadAt_visited [OF assms, of env n] visitedD(1) by metis

lemma ReadAt_content_witness:
  "\<exists>f'. ReadAt sample_env (sample_file 3) zero_store 200 300 = Inr (replicate 84 0, f')"
proof -
  have "content zero_store (sample_header 3) = replicate 384 0"
    by (simp add: content_def sample_blocks zero_store_def numeral_eq_Suc replicate_append_same)
  then show ?thesis
    using ReadAt_content [of zero_store "sample_map (-1)" "sample_file 3" 300 sample_env 200] by (auto simp: sample_file_def)
qed

lemma content_other:
  assumes "open_ok st bm g" "touches A st st'" "A \<inter> set (owned st g) = {}" "store_wf st'"
  shows "content st' g = content st g" "open_ok st' bm g" "owned st' g = owned st g"
proof -
  have "\<forall>s \<in> set (tables st g). st' s = st s" using assms(2,3) by (auto simp: touches_def owned_def)
  note c = open_ok_cong [OF assms(1) this assms(4)]
  show "open_ok st' bm g" "owned st' g = owned st g" using c by (simp_all add: owned_def)
  have "map st' (blocks st g) = map st (blocks st g)" using assms(2,3) by (auto simp: touches_def owned_def)
  then show "content st' g = content st g" by (simp only: content_def c(2))
qed

lemma WriteAt_in_file:
  assumes ok: "open_ok (sectors d) bm (hdr f)" and p: "0 \<le> position" "0 < n" "n \<le> int (length from)"
    and r: "position + n \<le> numBytes (hdr f)"
  obtains f' st' where "WriteAt fuel env f d from n position = Inr (n, f', d\<lparr>sectors := st'\<rparr>)" "open_ok st' bm (hdr f')"
    "touches (set (blocks (sectors d) (hdr f))) (sectors d) st'" "blocks st' (hdr f') = blocks (sectors d) (hdr f)"
    "content st' (hdr f') = overlay (content (sectors d) (hdr f)) (nat position) (take (nat n) from)"
    "f' = f\<lparr>hdr := (hdr f)\<lparr>lastVisitTime := now env, modifyTime := now env\<rparr>\<rparr>"
proof -
  have lt: "position < numBytes (hdr f)" and m: "min n (numBytes (hdr f) - position) = n" using p r by auto
  from WriteAt_in_overlay [OF ok p(1) lt p(2,3), of env] obtain f' st' where
    w: "WriteAt_in env f (sectors d) from n position = Inr (n, f', st')" and
    k: "open_ok st' bm (hdr f')" "touches (set (blocks (sectors d) (hdr f))) (sectors d) st'"
      "blocks st' (hdr f') = blocks (sectors d) (hdr f)"
      "content st' (hdr f') = overlay (content (sectors d) (hdr f)) (nat position) (take (nat n) from)"
      "f' = f\<lparr>hdr := (hdr f)\<lparr>lastVisitTime := now env, modifyTime := now env\<rparr>\<rparr>"
    unfolding m by blast
  have "\<not> position + n > FileLength (hdr f)" using r by (simp add: FileLength_def)
  then have "WriteAt fuel env f d from n position = Inr (n, f', d\<lparr>sectors := st'\<rparr>)" using w by (cases fuel) simp_all
  with k show ?thesis by (intro that)
qed

text \<open>C4: a write inside a file puts exactly the given bytes at the position, leaves all other bytes of the
  file alone, whatever the uninitialised buffer held, and writes no sector outside the file: the
  content of every other file on the disk stays as it was, and the bytes are read back.\<close>

theorem WriteAt_overwrites:
  assumes "open_ok (sectors d) bm (hdr f)" "0 \<le> position" "0 < n" "n \<le> int (length from)"
    and "position + n \<le> numBytes (hdr f)"
    and g: "open_ok (sectors d) bm g" "set (owned (sectors d) g) \<inter> set (blocks (sectors d) (hdr f)) = {}"
  shows "\<exists>f' d'. WriteAt fuel env f d from n position = Inr (n, f', d')
    \<and> content (sectors d') (hdr f') = overlay (content (sectors d) (hdr f)) (nat position) (take (nat n) from)
    \<and> content (sectors d') g = content (sectors d) g
    \<and> (\<exists>f''. ReadAt env f' (sectors d') n position = Inr (take (nat n) from, f''))"
proof -
  obtain f' st' where w: "WriteAt fuel env f d from n position = Inr (n, f', d\<lparr>sectors := st'\<rparr>)" and ok': "open_ok st' bm (hdr f')"
    and t: "touches (set (blocks (sectors d) (hdr f))) (sectors d) st'"
    and c: "content st' (hdr f') = overlay (content (sectors d) (hdr f)) (nat position) (take (nat n) from)"
    by (rule WriteAt_in_file [OF assms(1-5)])
  have g': "content st' g = content (sectors d) g"
    using content_other(1) [OF g(1) t _ open_okD(3) [OF ok']] g(2) by blast
  obtain f'' where rd: "ReadAt env f' st' n position = Inr (take (nat n) (drop (nat position) (content st' (hdr f'))), f'')"
    using ReadAt_visited [OF ok' assms(2)] by metis
  have lc: "length (content (sectors d) (hdr f)) = nat (numBytes (hdr f))" by (rule length_content [OF assms(1)])
  have "nat position \<le> length (content (sectors d) (hdr f))" "length (take (nat n) from) = nat n"
    using assms(2-5) unfolding lc by simp_all
  then have "take (nat n) (drop (nat position) (content st' (hdr f'))) = take (nat n) from"
    unfolding c by (simp add: overlay_def)
  with w c g' rd show ?thesis by auto
qed

lemma WriteAt_overwrites_witness:
  "\<exists>f' d'. WriteAt 0 sample_env (sample_file 3) \<lparr>sectors = zero_store, visitorCnt = []\<rparr> [1, 2, 3] 3 127 = Inr (3, f', d')
    \<and> (\<exists>f''. ReadAt sample_env f' (sectors d') 3 127 = Inr ([1, 2, 3], f''))"
  using WriteAt_overwrites [of "\<lparr>sectors = zero_store, visitorCnt = []\<rparr>" "sample_map (-1)" "sample_file 3" 127 3 "[1, 2, 3]" "sample_header 0" 0 sample_env]
  by (auto simp: sample_file_def)

end
