(* ===== verification/Directory.thy ===== *)
theory Directory
  imports FileContent "HOL-Library.Multiset"
begin

text \<open>
  Directories (filesys/directory.h, filesys/directory.cc): a table of entries, each with a name and
  the sector of a file header, in memory and as the bytes of a file.
\<close>

section \<open>C strings\<close>

text \<open>A string in memory is the bytes in front of the first zero.\<close>

definition cstr :: "byte list \<Rightarrow> byte list" where
  "cstr bs = takeWhile (\<lambda>b. b \<noteq> 0) bs"

text \<open>\<open>!strncmp(a, b, n)\<close>, \<open>strncpy(dst, src, n)\<close> and \<open>strcpy(dst, src)\<close> into an array.\<close>

definition strncmp_eq :: "byte list \<Rightarrow> byte list \<Rightarrow> nat \<Rightarrow> bool" where
  "strncmp_eq a b n \<longleftrightarrow> take n (cstr a) = take n (cstr b)"

definition strncpy :: "byte list \<Rightarrow> byte list \<Rightarrow> nat \<Rightarrow> byte list" where
  "strncpy dst src n = (let s = take n (cstr src) in s @ replicate (n - length s) 0 @ drop n dst)"

definition strcpy :: "byte list \<Rightarrow> byte list \<Rightarrow> byte list res" where
  "strcpy dst src = (let s = cstr src @ [0] in if length s \<le> length dst then Inr (overlay dst 0 s) else Inl OutOfBounds)"

section \<open>State\<close>

definition FileNameMaxLen :: nat where "FileNameMaxLen = 85"

text \<open>\<open>padding\<close> stands for the bytes the compiler inserts: three behind \<open>inUse\<close>, two behind the name.\<close>

record directory_entry =
  inUse :: bool
  sector :: int
  name :: "byte list"
  padding :: "byte list"

type_synonym directory = "directory_entry list"

definition entry_size :: int where "entry_size = 96"

section \<open>Operations\<close>

text \<open>\<open>new DirectoryEntry[size]\<close> leaves everything but \<open>inUse\<close> as the heap has it.\<close>

definition Directory_new :: "(nat \<Rightarrow> directory_entry) \<Rightarrow> int \<Rightarrow> directory" where
  "Directory_new junk n = map (\<lambda>i. (junk i)\<lparr>inUse := False\<rparr>) [0..<nat n]"

fun find_index :: "directory \<Rightarrow> byte list \<Rightarrow> int \<Rightarrow> int" where
  "find_index [] nm i = -1"
| "find_index (e # es) nm i = (if inUse e \<and> strncmp_eq (name e) nm FileNameMaxLen then i else find_index es nm (i + 1))"

definition FindIndex :: "directory \<Rightarrow> byte list \<Rightarrow> int" where
  "FindIndex table nm = find_index table nm 0"

definition Dir_Find :: "directory \<Rightarrow> byte list \<Rightarrow> int" where
  "Dir_Find table nm = (let i = FindIndex table nm in if i \<noteq> -1 then sector (table ! nat i) else -1)"

fun add_entry :: "directory \<Rightarrow> byte list \<Rightarrow> int \<Rightarrow> (bool \<times> directory)" where
  "add_entry [] nm s = (False, [])"
| "add_entry (e # es) nm s =
     (if \<not> inUse e then (True, e\<lparr>inUse := True, name := strncpy (name e) nm FileNameMaxLen, sector := s\<rparr> # es)
      else let (ok, es) = add_entry es nm s in (ok, e # es))"

definition Dir_Add :: "directory \<Rightarrow> byte list \<Rightarrow> int \<Rightarrow> (bool \<times> directory)" where
  "Dir_Add table nm newSector = (if FindIndex table nm \<noteq> -1 then (False, table) else add_entry table nm newSector)"

definition Dir_Remove :: "directory \<Rightarrow> byte list \<Rightarrow> (bool \<times> directory)" where
  "Dir_Remove table nm =
     (let i = FindIndex table nm in
      if i = -1 then (False, table) else (True, table[nat i := (table ! nat i)\<lparr>inUse := False\<rparr>]))"

text \<open>The lines \<open>List\<close> prints.\<close>

definition Dir_List :: "directory \<Rightarrow> byte list list" where
  "Dir_List table = map (\<lambda>e. cstr (name e)) (filter inUse table)"

definition Dir_IsEmpty :: "directory \<Rightarrow> bool" where
  "Dir_IsEmpty table \<longleftrightarrow> \<not> list_ex inUse table"

section \<open>On disk\<close>

definition entry_bytes :: "directory_entry \<Rightarrow> byte list" where
  "entry_bytes e = (if inUse e then 1 else 0) # take 3 (padding e) @ le32 (sector e) @ name e @ drop 3 (padding e)"

definition entry_of :: "byte list \<Rightarrow> directory_entry" where
  "entry_of bs = \<lparr>inUse = (bs ! 0 \<noteq> 0), sector = un_le32 (take 4 (drop 4 bs)), name = take 86 (drop 8 bs),
     padding = take 3 (drop 1 bs) @ take 2 (drop 94 bs)\<rparr>"

definition dir_bytes :: "directory \<Rightarrow> byte list" where
  "dir_bytes table = concat (map entry_bytes table)"

fun dir_of :: "nat \<Rightarrow> byte list \<Rightarrow> directory" where
  "dir_of 0 bs = []"
| "dir_of (Suc n) bs = entry_of (take 96 bs) # dir_of n (drop 96 bs)"

text \<open>\<open>FetchFrom\<close> overwrites as much of the table as the file has bytes.\<close>

definition Dir_FetchFrom :: "fs_env \<Rightarrow> directory \<Rightarrow> open_file \<Rightarrow> store \<Rightarrow> (directory \<times> open_file) res" where
  "Dir_FetchFrom env table f st =
     rbind (ReadAt env f st (int (length table) * entry_size) 0) (\<lambda>(bs, f).
     Inr (dir_of (length table) (overlay (dir_bytes table) 0 bs), f))"

definition Dir_WriteBack :: "nat \<Rightarrow> fs_env \<Rightarrow> directory \<Rightarrow> open_file \<Rightarrow> fs_disk \<Rightarrow> (open_file \<times> fs_disk) res" where
  "Dir_WriteBack fuel env table f d =
     rbind (WriteAt fuel env f d (dir_bytes table) (int (length table) * entry_size) 0) (\<lambda>(n, f, d). Inr (f, d))"

section \<open>A directory as a finite map\<close>

text \<open>Only the first \<open>FileNameMaxLen\<close> characters of a name count.\<close>

definition key :: "byte list \<Rightarrow> byte list" where
  "key nm = take FileNameMaxLen (cstr nm)"

definition dir_map :: "directory \<Rightarrow> byte list \<Rightarrow> int option" where
  "dir_map table = map_of (map (\<lambda>e. (key (name e), sector e)) (filter inUse table))"

definition dir_ok :: "directory \<Rightarrow> bool" where
  "dir_ok table \<longleftrightarrow> distinct (map (\<lambda>e. key (name e)) (filter inUse table)) \<and>
     (\<forall>e \<in> set table. length (name e) = 86 \<and> length (padding e) = 5)"

lemma strncmp_key: "strncmp_eq a b FileNameMaxLen \<longleftrightarrow> key a = key b"
  by (simp add: strncmp_eq_def key_def)

lemma cstr_take: "cstr (take n (cstr s)) = take n (cstr s)"
  unfolding cstr_def takeWhile_eq_all_conv by (blast dest: in_set_takeD set_takeWhileD)

lemma cstr_append: "0 \<notin> set s \<Longrightarrow> cstr (s @ r) = s @ cstr r"
  by (induction s) (auto simp: cstr_def)

lemma cstr_zero [simp]: "cstr (0 # r) = []"
  by (simp add: cstr_def)

lemma cstr_nonzero: "0 \<notin> set (take n (cstr s))"
  unfolding cstr_def by (blast dest: in_set_takeD set_takeWhileD)

lemma take_cstr_padded:
  assumes "0 \<notin> set s" "length s \<le> n"
  shows "take n (cstr (s @ replicate (n - length s) 0 @ rest)) = s"
proof (cases "n - length s")
  case 0
  then have "length s = n" using assms(2) by simp
  then show ?thesis using 0 cstr_append [OF assms(1)] by simp
next
  case (Suc m)
  then show ?thesis using cstr_append [OF assms(1), of "0 # replicate m 0 @ rest"] assms(2) by simp
qed

lemma key_strncpy: "key (strncpy dst src FileNameMaxLen) = key src"
  using take_cstr_padded [OF cstr_nonzero, of FileNameMaxLen src FileNameMaxLen] by (simp add: key_def strncpy_def Let_def)

lemma length_strncpy: "n \<le> length dst \<Longrightarrow> length (strncpy dst src n) = length dst"
  by (auto simp: strncpy_def Let_def)

lemma find_index_spec:
  "case dir_map es (key nm) of
     None \<Rightarrow> find_index es nm i = -1
   | Some s \<Rightarrow> (\<exists>k < length es. find_index es nm i = i + int k \<and> inUse (es ! k) \<and> key (name (es ! k)) = key nm \<and> sector (es ! k) = s
       \<and> (\<forall>j < k. inUse (es ! j) \<longrightarrow> key (name (es ! j)) \<noteq> key nm))"
proof (induction es arbitrary: i)
  case (Cons e es)
  show ?case
  proof (cases "inUse e \<and> key (name e) = key nm")
    case True
    then show ?thesis by (auto simp: dir_map_def strncmp_key intro!: exI [of _ 0])
  next
    case False
    then have m: "dir_map (e # es) (key nm) = dir_map es (key nm)" by (auto simp: dir_map_def)
    have f: "find_index (e # es) nm i = find_index es nm (i + 1)" unfolding find_index.simps strncmp_key by (rule if_not_P [OF False])
    show ?thesis
    proof (cases "dir_map es (key nm)")
      case None
      then show ?thesis using Cons [of "i + 1"] m f by simp
    next
      case (Some s)
      with Cons [of "i + 1"] obtain k where k: "k < length es" "find_index es nm (i + 1) = i + 1 + int k" "inUse (es ! k)"
        "key (name (es ! k)) = key nm" "sector (es ! k) = s" "\<forall>j < k. inUse (es ! j) \<longrightarrow> key (name (es ! j)) \<noteq> key nm" by auto
      have "\<forall>j < Suc k. inUse ((e # es) ! j) \<longrightarrow> key (name ((e # es) ! j)) \<noteq> key nm"
        using k(6) False by (auto simp: less_Suc_eq_0_disj)
      then show ?thesis unfolding m Some f k(2) option.case using k(1-5) by (intro exI [of _ "Suc k"]) auto
    qed
  qed
qed (simp add: dir_map_def)

lemma Dir_Find_map: "Dir_Find table nm = (case dir_map table (key nm) of None \<Rightarrow> -1 | Some s \<Rightarrow> s)"
  using find_index_spec [of table nm 0] by (auto simp: Dir_Find_def FindIndex_def Let_def split: option.splits)

lemma FindIndex_none: "FindIndex table nm = -1 \<longleftrightarrow> dir_map table (key nm) = None"
  using find_index_spec [of table nm 0] by (auto simp: FindIndex_def split: option.splits)

lemma add_entry_spec:
  assumes "dir_map es (key nm) = None" "\<forall>e \<in> set es. length (name e) = 86 \<and> length (padding e) = 5"
  shows "case add_entry es nm s of (ok, es') \<Rightarrow> (ok \<longleftrightarrow> (\<exists>e \<in> set es. \<not> inUse e)) \<and> (\<not> ok \<longrightarrow> es' = es) \<and> length es' = length es
    \<and> (ok \<longrightarrow> dir_map es' = (dir_map es)(key nm \<mapsto> s)
         \<and> mset (map (\<lambda>e. key (name e)) (filter inUse es')) = add_mset (key nm) (mset (map (\<lambda>e. key (name e)) (filter inUse es))))
    \<and> (\<forall>e \<in> set es'. length (name e) = 86 \<and> length (padding e) = 5)"
  using assms
proof (induction es)
  case (Cons e es)
  show ?case
  proof (cases "inUse e")
    case False
    have l: "length (strncpy (name e) nm FileNameMaxLen) = 86"
      using Cons.prems(2) length_strncpy [of FileNameMaxLen "name e" nm] by (simp add: FileNameMaxLen_def)
    show ?thesis using False Cons.prems(2) l by (auto simp: dir_map_def key_strncpy)
  next
    case True
    then have nk: "key (name e) \<noteq> key nm" and m: "dir_map es (key nm) = None" using Cons.prems(1) by (auto simp: dir_map_def split: if_split_asm)
    obtain ok es' where a: "add_entry es nm s = (ok, es')" by force
    have d: "dir_map (e # xs) = (dir_map xs)(key (name e) \<mapsto> sector e)" for xs using True by (simp add: dir_map_def)
    from Cons.IH [OF m] Cons.prems(2) a show ?thesis using True nk by (auto simp: d fun_upd_twist)
  qed
qed (simp add: dir_map_def)

lemma Dir_Add_spec:
  assumes ok: "dir_ok t"
  shows "case Dir_Add t nm s of (b, t') \<Rightarrow> dir_ok t' \<and> length t' = length t \<and>
    (b \<longleftrightarrow> dir_map t (key nm) = None \<and> (\<exists>e \<in> set t. \<not> inUse e)) \<and>
    dir_map t' = (if b then (dir_map t)(key nm \<mapsto> s) else dir_map t)"
proof (cases "dir_map t (key nm)")
  case None
  have w: "\<forall>e \<in> set t. length (name e) = 86 \<and> length (padding e) = 5" using ok by (simp add: dir_ok_def)
  obtain b t' where a: "add_entry t nm s = (b, t')" by force
  note S = add_entry_spec [OF None w, of s, unfolded a, simplified]
  have "key nm \<notin> set (map (\<lambda>e. key (name e)) (filter inUse t))"
    using None by (force simp: dir_map_def map_of_eq_None_iff image_image)
  then have d: "distinct (key nm # map (\<lambda>e. key (name e)) (filter inUse t))" using ok by (simp add: dir_ok_def)
  have "b \<Longrightarrow> mset (map (\<lambda>e. key (name e)) (filter inUse t')) = mset (key nm # map (\<lambda>e. key (name e)) (filter inUse t))"
    using S by simp
  then have "b \<Longrightarrow> distinct (map (\<lambda>e. key (name e)) (filter inUse t'))"
    using d mset_eq_imp_distinct_iff by blast
  then have "dir_ok t'" using S ok by (cases b) (auto simp: dir_ok_def)
  moreover have "Dir_Add t nm s = (b, t')" using a None by (simp add: Dir_Add_def FindIndex_none)
  ultimately show ?thesis using S None by (cases b) auto
next
  case (Some x)
  then show ?thesis using ok by (simp add: Dir_Add_def FindIndex_none)
qed

lemma filter_update_drop:
  assumes "k < length es" "P (es ! k)" "\<not> P e"
  shows "filter P (es[k := e]) = filter P (take k es) @ filter P (drop (Suc k) es)"
    "filter P es = filter P (take k es) @ es ! k # filter P (drop (Suc k) es)"
  using assms(3) arg_cong [OF id_take_nth_drop [OF assms(1)], of "filter P"] assms(1,2) by (simp_all add: upd_conv_take_nth_drop)

lemma Dir_Remove_spec:
  assumes ok: "dir_ok t"
  shows "case Dir_Remove t nm of (b, t') \<Rightarrow> dir_ok t' \<and> length t' = length t \<and>
    (b \<longleftrightarrow> dir_map t (key nm) \<noteq> None) \<and> dir_map t' = (dir_map t)(key nm := None)"
proof (cases "dir_map t (key nm)")
  case None
  then show ?thesis using ok by (auto simp: Dir_Remove_def FindIndex_none)
next
  case (Some s)
  let ?f = "\<lambda>e. (key (name e), sector e)" and ?k = "\<lambda>e. key (name e)"
  obtain i where i: "i < length t" "FindIndex t nm = int i" "inUse (t ! i)" "key (name (t ! i)) = key nm"
    using find_index_spec [of t nm 0] Some by (auto simp: FindIndex_def)
  let ?e = "(t ! i)\<lparr>inUse := False\<rparr>" let ?t = "t[i := ?e]"
  have r: "Dir_Remove t nm = (True, ?t)" using i(2) by (simp add: Dir_Remove_def)
  define A where "A = filter inUse (take i t)" define B where "B = filter inUse (drop (Suc i) t)"
  have f: "filter inUse ?t = A @ B" "filter inUse t = A @ t ! i # B"
    using filter_update_drop [of i t inUse ?e] i by (simp_all add: A_def B_def)
  have dk: "distinct (map ?k (A @ t ! i # B))" using ok f(2) by (simp add: dir_ok_def)
  have "\<forall>e \<in> set ?t. length (name e) = 86 \<and> length (padding e) = 5"
    using ok i(1) set_update_subset_insert [of t i ?e] by (fastforce simp: dir_ok_def)
  moreover have "distinct (map ?k (filter inUse ?t))" using dk unfolding f(1) by simp
  ultimately have o: "dir_ok ?t" by (simp add: dir_ok_def)
  have nin: "key nm \<notin> fst ` set (map ?f (A @ B))" using dk i(4) by (auto simp: image_image)
  have "dir_map ?t x = ((dir_map t)(key nm := None)) x" for x
  proof (cases "x = key nm")
    case True
    then show ?thesis using nin by (simp add: dir_map_def f(1) map_of_eq_None_iff del: map_append)
  next
    case False
    then show ?thesis using i(4) by (simp add: dir_map_def f map_add_def split: option.split)
  qed
  then have "dir_map ?t = (dir_map t)(key nm := None)" by (rule ext)
  then show ?thesis using r o Some by simp
qed

lemma Dir_new_ok:
  "(\<And>i. length (name (junk i)) = 86 \<and> length (padding (junk i)) = 5) \<Longrightarrow> dir_ok (Directory_new junk n) \<and> dir_map (Directory_new junk n) = Map.empty"
proof -
  assume w: "\<And>i. length (name (junk i)) = 86 \<and> length (padding (junk i)) = 5"
  have "filter inUse (Directory_new junk n) = []" by (auto simp: Directory_new_def filter_empty_conv)
  then show ?thesis using w by (auto simp: dir_ok_def dir_map_def Directory_new_def)
qed


section \<open>The interface: a finite map with bounded room\<close>

text \<open>Requests to a table of names and their answers, for any two operations.\<close>

datatype ('n, 'v) request = AddName 'n 'v | RemoveName 'n

fun serve :: "('t \<Rightarrow> 'n \<Rightarrow> 'v \<Rightarrow> bool \<times> 't) \<Rightarrow> ('t \<Rightarrow> 'n \<Rightarrow> bool \<times> 't) \<Rightarrow> 't \<Rightarrow> ('n, 'v) request list \<Rightarrow> bool list \<times> 't" where
  "serve add rem t [] = ([], t)"
| "serve add rem t (AddName n v # rs) = (let (b, t) = add t n v; (bs, t) = serve add rem t rs in (b # bs, t))"
| "serve add rem t (RemoveName n # rs) = (let (b, t) = rem t n; (bs, t) = serve add rem t rs in (b # bs, t))"

text \<open>The abstract table: a map that takes at most \<open>cap\<close> names.\<close>

definition map_add_name :: "nat \<Rightarrow> ('n \<Rightarrow> 'k) \<Rightarrow> ('k \<rightharpoonup> 'v) \<Rightarrow> 'n \<Rightarrow> 'v \<Rightarrow> bool \<times> ('k \<rightharpoonup> 'v)" where
  "map_add_name cap k m n v = (if m (k n) = None \<and> card (dom m) < cap then (True, m(k n \<mapsto> v)) else (False, m))"

definition map_remove_name :: "('n \<Rightarrow> 'k) \<Rightarrow> ('k \<rightharpoonup> 'v) \<Rightarrow> 'n \<Rightarrow> bool \<times> ('k \<rightharpoonup> 'v)" where
  "map_remove_name k m n = (m (k n) \<noteq> None, m(k n := None))"

locale bounded_map =
  fixes inv :: "'t \<Rightarrow> bool" and abs :: "'t \<Rightarrow> 'k \<Rightarrow> 'v option" and cap :: "'t \<Rightarrow> nat" and k :: "'n \<Rightarrow> 'k"
    and add :: "'t \<Rightarrow> 'n \<Rightarrow> 'v \<Rightarrow> bool \<times> 't" and rem :: "'t \<Rightarrow> 'n \<Rightarrow> bool \<times> 't"
  assumes add_inv: "inv t \<Longrightarrow> inv (snd (add t n v))"
    and add_cap: "inv t \<Longrightarrow> cap (snd (add t n v)) = cap t"
    and add_abs: "inv t \<Longrightarrow> (fst (add t n v), abs (snd (add t n v))) = map_add_name (cap t) k (abs t) n v"
    and rem_inv: "inv t \<Longrightarrow> inv (snd (rem t n))"
    and rem_cap: "inv t \<Longrightarrow> cap (snd (rem t n)) = cap t"
    and rem_abs: "inv t \<Longrightarrow> (fst (rem t n), abs (snd (rem t n))) = map_remove_name k (abs t) n"
begin

text \<open>Whole histories of requests: the answers are those of the map, and so is the state.\<close>

lemma serve_refines:
  "inv t \<Longrightarrow> serve add rem t rs = (bs, t') \<Longrightarrow>
   inv t' \<and> cap t' = cap t \<and> serve (map_add_name (cap t) k) (map_remove_name k) (abs t) rs = (bs, abs t')"
proof (induction rs arbitrary: t bs)
  case (Cons r rs)
  show ?case
  proof (cases r)
    case (AddName n v)
    obtain b u where a: "add t n v = (b, u)" by force
    obtain cs where s: "serve add rem u rs = (cs, t')" "bs = b # cs" using Cons.prems(2) a AddName by (auto split: prod.splits)
    have "inv u" "cap u = cap t" "map_add_name (cap t) k (abs t) n v = (b, abs u)"
      using add_inv [OF Cons.prems(1), of n v] add_cap [OF Cons.prems(1), of n v] add_abs [OF Cons.prems(1), of n v] a by simp_all
    then show ?thesis using Cons.IH [OF _ s(1)] s(2) AddName by simp
  next
    case (RemoveName n)
    obtain b u where a: "rem t n = (b, u)" by force
    obtain cs where s: "serve add rem u rs = (cs, t')" "bs = b # cs" using Cons.prems(2) a RemoveName by (auto split: prod.splits)
    have "inv u" "cap u = cap t" "map_remove_name k (abs t) n = (b, abs u)"
      using rem_inv [OF Cons.prems(1), of n] rem_cap [OF Cons.prems(1), of n] rem_abs [OF Cons.prems(1), of n] a by simp_all
    then show ?thesis using Cons.IH [OF _ s(1)] s(2) RemoveName by simp
  qed
qed simp

text \<open>Removing a name makes room for another one.\<close>

lemma remove_then_add:
  assumes "inv t" "finite (dom (abs t))" "card (dom (abs t)) \<le> cap t" "abs t (k n) \<noteq> None"
  shows "fst (add (snd (rem t n)) n v)"
proof -
  let ?u = "snd (rem t n)"
  have u: "abs ?u = (abs t)(k n := None)" using rem_abs [OF assms(1), of n] by (simp add: map_remove_name_def)
  then have "dom (abs ?u) = dom (abs t) - {k n}" by auto
  then have "card (dom (abs ?u)) < cap ?u" unfolding rem_cap [OF assms(1)]
    using assms(2-4) by (metis card_Diff1_less domI option.exhaust order_less_le_trans)
  then show ?thesis using add_abs [OF rem_inv [OF assms(1)], of n n v] u
    by (simp add: map_add_name_def split: if_splits)
qed

end

text \<open>How much room a directory has.\<close>

lemma dom_dir_map: "dom (dir_map t) = set (map (\<lambda>e. key (name e)) (filter inUse t))"
  by (simp add: dir_map_def dom_map_of_conv_image_fst image_image)

lemma dir_room:
  assumes "dir_ok t"
  shows "card (dom (dir_map t)) \<le> length t" "(\<exists>e \<in> set t. \<not> inUse e) \<longleftrightarrow> card (dom (dir_map t)) < length t"
proof -
  have c: "card (dom (dir_map t)) = length (filter inUse t)"
    using assms distinct_card unfolding dom_dir_map dir_ok_def by (metis length_map)
  show "card (dom (dir_map t)) \<le> length t" unfolding c by (rule length_filter_le)
  show "(\<exists>e \<in> set t. \<not> inUse e) \<longleftrightarrow> card (dom (dir_map t)) < length t"
    unfolding c using length_filter_less [of _ t inUse] by (metis (full_types) filter_True less_irrefl)
qed

interpretation dir: bounded_map dir_ok dir_map length key Dir_Add Dir_Remove
proof unfold_locales
  fix t :: directory and n :: "byte list" and v :: int
  assume ok: "dir_ok t"
  obtain b u where a: "Dir_Add t n v = (b, u)" by force
  show "dir_ok (snd (Dir_Add t n v))" "length (snd (Dir_Add t n v)) = length t"
    "(fst (Dir_Add t n v), dir_map (snd (Dir_Add t n v))) = map_add_name (length t) key (dir_map t) n v"
    using Dir_Add_spec [OF ok, of n v] a dir_room(2) [OF ok] by (auto simp: map_add_name_def)
  obtain c w where r: "Dir_Remove t n = (c, w)" by force
  show "dir_ok (snd (Dir_Remove t n))" "length (snd (Dir_Remove t n)) = length t"
    "(fst (Dir_Remove t n), dir_map (snd (Dir_Remove t n))) = map_remove_name key (dir_map t) n"
    using Dir_Remove_spec [OF ok, of n] r by (auto simp: map_remove_name_def)
qed

section \<open>The bytes of a directory\<close>

definition dir_storable :: "directory \<Rightarrow> bool" where
  "dir_storable t \<longleftrightarrow> (\<forall>e \<in> set t. length (name e) = 86 \<and> length (padding e) = 5 \<and> in_int32 (sector e))"

lemma length_entry_bytes: "length (name e) = 86 \<Longrightarrow> length (padding e) = 5 \<Longrightarrow> length (entry_bytes e) = 96"
  by (simp add: entry_bytes_def)

lemma entry_roundtrip:
  assumes "length (name e) = 86" "length (padding e) = 5" "in_int32 (sector e)"
  shows "entry_of (entry_bytes e) = e"
proof -
  define p q where "p = take 3 (padding e)" and "q = drop 3 (padding e)"
  have pd: "padding e = p @ q" "length p = 3" "length q = 2" using assms(2) by (simp_all add: p_def q_def)
  have "entry_bytes e = (if inUse e then 1 else 0) # p @ le32 (sector e) @ name e @ q"
    by (simp add: entry_bytes_def pd)
  then show ?thesis using assms pd
    by (cases e) (simp add: entry_of_def drop_Cons' un_le32_le32 s32_id)
qed

lemma dir_roundtrip: "dir_storable t \<Longrightarrow> dir_of (length t) (dir_bytes t @ r) = t"
  by (induction t) (auto simp: dir_storable_def dir_bytes_def entry_roundtrip length_entry_bytes)

lemma length_dir_bytes: "dir_storable t \<Longrightarrow> length (dir_bytes t) = 96 * length t"
  by (induction t) (auto simp: dir_storable_def dir_bytes_def length_entry_bytes)


lemma Dir_WriteBack_FetchFrom:
  assumes ok: "open_ok (sectors d) bm (hdr f)" and t: "dir_storable t" "0 < length t" "96 * int (length t) \<le> numBytes (hdr f)"
    and t0: "dir_storable t0" "length t0 = length t"
  obtains f' st' f'' where "Dir_WriteBack fuel env t f d = Inr (f', d\<lparr>sectors := st'\<rparr>)" "Dir_FetchFrom env t0 f' st' = Inr (t, f'')"
    "open_ok st' bm (hdr f')" "touches (set (blocks (sectors d) (hdr f))) (sectors d) st'" "visited f' f''"
    "f' = f\<lparr>hdr := (hdr f)\<lparr>lastVisitTime := now env, modifyTime := now env\<rparr>\<rparr>"
proof -
  define n where "n = int (length t) * entry_size"
  have n: "0 < n" "n \<le> int (length (dir_bytes t))" "0 + n \<le> numBytes (hdr f)" "nat n = length (dir_bytes t)"
    using t by (simp_all add: n_def entry_size_def length_dir_bytes)
  obtain f' st' where w: "WriteAt fuel env f d (dir_bytes t) n 0 = Inr (n, f', d\<lparr>sectors := st'\<rparr>)" and ok': "open_ok st' bm (hdr f')"
    and tc: "touches (set (blocks (sectors d) (hdr f))) (sectors d) st'"
    and c: "content st' (hdr f') = overlay (content (sectors d) (hdr f)) (nat 0) (take (nat n) (dir_bytes t))"
    and f': "f' = f\<lparr>hdr := (hdr f)\<lparr>lastVisitTime := now env, modifyTime := now env\<rparr>\<rparr>"
    by (rule WriteAt_in_file [OF ok order_refl n(1-3), of fuel env])
  obtain f'' where r: "ReadAt env f' st' n 0 = Inr (take (nat n) (drop (nat 0) (content st' (hdr f'))), f'')" and v: "visited f' f''"
    by (rule ReadAt_visited [OF ok', of 0 env n]) simp_all
  have "take (nat n) (drop (nat 0) (content st' (hdr f'))) = dir_bytes t" unfolding c by (simp add: overlay_def n(4))
  then have "Dir_FetchFrom env t0 f' st' = Inr (dir_of (length t) (overlay (dir_bytes t0) 0 (dir_bytes t)), f'')"
    using r by (simp add: Dir_FetchFrom_def t0(2) n_def)
  then have "Dir_FetchFrom env t0 f' st' = Inr (t, f'')"
    using dir_roundtrip [OF t(1), of "drop (length (dir_bytes t)) (dir_bytes t0)"] by (simp add: overlay_def)
  moreover have "Dir_WriteBack fuel env t f d = Inr (f', d\<lparr>sectors := st'\<rparr>)" using w by (simp add: Dir_WriteBack_def n_def)
  ultimately show ?thesis using ok' tc v f' by (intro that)
qed

section \<open>Properties\<close>

text \<open>C13: a directory is a finite map from names, cut to \<open>FileNameMaxLen\<close> characters, to sectors, with room for
  as many names as it has entries: every history of \<open>Add\<close> and \<open>Remove\<close> gives the answers of the map and leaves
  a directory in good order that stands for the map's state, and \<open>Find\<close> reads the map.\<close>

theorem Directory_refines_map:
  assumes "dir_ok t" "serve Dir_Add Dir_Remove t rs = (bs, t')"
  shows "dir_ok t' \<and> serve (map_add_name (length t) key) (map_remove_name key) (dir_map t) rs = (bs, dir_map t')
    \<and> (\<forall>nm. Dir_Find t' nm = (case dir_map t' (key nm) of None \<Rightarrow> -1 | Some s \<Rightarrow> s))"
  using dir.serve_refines [OF assms] by (simp add: Dir_Find_map)

definition blank_entry :: directory_entry where
  "blank_entry = \<lparr>inUse = True, sector = 0, name = replicate 86 97, padding = replicate 5 0\<rparr>"

lemma Directory_refines_map_witness:
  "Dir_Find (snd (serve Dir_Add Dir_Remove (Directory_new (\<lambda>_. blank_entry) 2)
     [AddName [98] 7, AddName [99] 8, AddName [100] 9, RemoveName [98], AddName [100] 9])) [100] = 9"
proof -
  let ?t = "Directory_new (\<lambda>_. blank_entry) 2"
  let ?rs = "[AddName [98] 7, AddName [99] 8, AddName [100] 9, RemoveName [98], AddName [100] 9]"
  have new: "dir_ok ?t" "dir_map ?t = Map.empty" "length ?t = 2"
    using Dir_new_ok [of "\<lambda>_. blank_entry" 2] by (simp_all add: blank_entry_def Directory_new_def)
  have k: "key [98] = [98]" "key [99] = [99]" "key [100] = [100]" by (simp_all add: key_def cstr_def FileNameMaxLen_def)
  obtain bs t' where s: "serve Dir_Add Dir_Remove ?t ?rs = (bs, t')" by force
  from Directory_refines_map [OF new(1) s] have "dir_map t' = [[99] \<mapsto> 8, [100] \<mapsto> 9]"
    and "Dir_Find t' [100] = (case dir_map t' (key [100]) of None \<Rightarrow> -1 | Some s \<Rightarrow> s)"
    by (simp_all add: new map_add_name_def map_remove_name_def k Let_def)
  then show ?thesis unfolding s k by simp
qed

text \<open>C26: a directory written to its file and fetched into another table of the same size, whatever that table
  held, is the same directory.\<close>

theorem Directory_roundtrip:
  assumes "open_ok (sectors d) bm (hdr f)" "dir_storable t" "0 < length t" "96 * int (length t) \<le> numBytes (hdr f)"
    and "dir_storable t0" "length t0 = length t"
  shows "\<exists>f' d' f''. Dir_WriteBack fuel env t f d = Inr (f', d') \<and> Dir_FetchFrom env t0 f' (sectors d') = Inr (t, f'')"
  by (rule Dir_WriteBack_FetchFrom [OF assms, of fuel env]) auto

lemma Directory_roundtrip_witness:
  "\<exists>f' d' f''. Dir_WriteBack 0 sample_env [blank_entry\<lparr>sector := -5\<rparr>, blank_entry] (sample_file 3) \<lparr>sectors = zero_store, visitorCnt = []\<rparr> = Inr (f', d')
     \<and> Dir_FetchFrom sample_env [blank_entry, blank_entry] f' (sectors d') = Inr ([blank_entry\<lparr>sector := -5\<rparr>, blank_entry], f'')"
  by (rule Directory_roundtrip [where bm = "sample_map (-1)"])
    (simp_all add: sample_file_def dir_storable_def blank_entry_def in_int32_def)

end
