(* ===== verification/FileSys.thy ===== *)
theory FileSys
  imports Directory
begin

text \<open>
  The file system (filesys/filesys.h, filesys/filesys.cc, and the path functions of
  filesys/filehdr.cc) in the configuration with directories of several levels: formatting, creating,
  opening, removing and listing. Two files, the bitmap of free sectors and the root directory, stay
  open while the kernel runs.
\<close>

section \<open>Paths\<close>

text \<open>\<open>strrchr\<close>, \<open>basename\<close> and \<open>dirname\<close> of the C library, on strings without zeros.\<close>

abbreviation slash :: byte where "slash \<equiv> 47"
abbreviation dot :: byte where "dot \<equiv> 46"

definition strip_slashes :: "byte list \<Rightarrow> byte list" where
  "strip_slashes s = rev (dropWhile (\<lambda>c. c = slash) (rev s))"

definition after_last :: "byte \<Rightarrow> byte list \<Rightarrow> byte list" where
  "after_last c s = rev (takeWhile (\<lambda>x. x \<noteq> c) (rev s))"

definition upto_last :: "byte \<Rightarrow> byte list \<Rightarrow> byte list" where
  "upto_last c s = rev (dropWhile (\<lambda>x. x \<noteq> c) (rev s))"

definition basename :: "byte list \<Rightarrow> byte list" where
  "basename s =
     (if s = [] then [dot] else let t = strip_slashes s in if t = [] then [slash] else after_last slash t)"

definition dirname :: "byte list \<Rightarrow> byte list" where
  "dirname s =
     (let t = strip_slashes s; p = (if t = [] then s else upto_last slash t); d = strip_slashes p
      in if p = [] then [dot]
      else if d = [] then (if length p = 2 then [slash, slash] else [slash])
      else d)"

definition GetFileExtension :: "byte list \<Rightarrow> byte list" where
  "GetFileExtension filename =
     (let head = upto_last dot filename in if length head \<le> 1 then [] else after_last dot filename)"

definition MAX_DIR_DEP :: nat where "MAX_DIR_DEP = 5"

text \<open>An entry of \<open>DirArray\<close> that was never assigned is \<open>None\<close>.\<close>

record FilePath =
  DirArray :: "byte list option list"
  DirDep :: nat
  Base :: "byte list"

text \<open>The loop that fills \<open>DirArray\<close> from the back: an index below zero is out of bounds.\<close>

fun path_dirs :: "nat \<Rightarrow> byte list \<Rightarrow> byte list option list \<Rightarrow> byte list option list res" where
  "path_dirs 0 curDir arr = (if curDir = [dot] then Inr arr else Inl OutOfBounds)"
| "path_dirs (Suc depth) curDir arr =
     (if curDir = [dot] then Inr arr
      else rbind (aset arr (int depth) (Some (basename curDir))) (\<lambda>arr. path_dirs depth (dirname curDir) arr))"

definition PathParser :: "byte list \<Rightarrow> FilePath res" where
  "PathParser path0 =
     (let path = (if path0 \<noteq> [] \<and> hd path0 = slash then tl path0 else path0);
          depth = length (filter (\<lambda>c. c = slash) path)
      in rbind (ASSERT (depth \<le> MAX_DIR_DEP)) (\<lambda>_.
         rbind (path_dirs depth (dirname path) (replicate MAX_DIR_DEP None)) (\<lambda>arr.
         Inr \<lparr>DirArray = arr, DirDep = depth, Base = basename path\<rparr>)))"

section \<open>State\<close>

definition DirectorySector :: int where "DirectorySector = 1"
definition PipeSector :: int where "PipeSector = 2"
definition FreeMapFileSize :: int where "FreeMapFileSize = NumSectors sdiv BitsInByte"
definition NumDirEntries :: nat where "NumDirEntries = 10"
definition DirectoryFileSize :: int where "DirectoryFileSize = entry_size * int NumDirEntries"
definition Dir_Ext :: "byte list" where "Dir_Ext = [68, 73, 82]"

record file_system =
  fdisk :: fs_disk
  freeMapFile :: open_file
  directoryFile :: open_file

text \<open>A write to a file that has to grow writes the bitmap's file; that one does not grow, so one
  level of recursion is enough.\<close>

abbreviation write_depth :: nat where "write_depth \<equiv> 1"

text \<open>What the heap holds where \<open>new Directory\<close> puts its table.\<close>

definition heap_entry :: "fs_env \<Rightarrow> nat \<Rightarrow> directory_entry" where
  "heap_entry env i = entry_of (map (\<lambda>k. ucast (heap_junk env k)) [96 * i..<96 * i + 96])"

definition new_Directory :: "fs_env \<Rightarrow> directory" where
  "new_Directory env = Directory_new (heap_entry env) (int NumDirEntries)"

text \<open>\<open>FileHeader::CreateInit\<close>; the extension is copied into five bytes.\<close>

definition CreateInit :: "fs_env \<Rightarrow> file_header \<Rightarrow> byte list \<Rightarrow> file_header res" where
  "CreateInit env h ext =
     rbind (strcpy (fileExtension h) ext) (\<lambda>e.
     Inr (h\<lparr>fileExtension := e, createTime := now env, modifyTime := now env, lastVisitTime := now env\<rparr>))"


section \<open>Formatting\<close>

text \<open>A header for a file of the file system itself: \<open>CreateInit\<close> and \<open>Allocate\<close>.\<close>

definition system_file :: "fs_env \<Rightarrow> byte list \<Rightarrow> bitmap \<Rightarrow> store \<Rightarrow> int \<Rightarrow> (file_header \<times> bitmap \<times> store) res" where
  "system_file env ext freeMap st n =
     rbind (CreateInit env (header_junk env) ext) (\<lambda>h.
     rbind (Allocate (stack_junk env) h freeMap st n) (\<lambda>(ok, h, freeMap, st).
     rbind (ASSERT ok) (\<lambda>_. Inr (h, freeMap, st))))"

definition FileSystem_format :: "fs_env \<Rightarrow> fs_disk \<Rightarrow> file_system res" where
  "FileSystem_format env d =
     rbind (BitMap (heap_junk env) NumSectors) (\<lambda>freeMap.
     let dir = new_Directory env in
     rbind (Mark freeMap FreeMapSector) (\<lambda>freeMap.
     rbind (Mark freeMap DirectorySector) (\<lambda>freeMap.
     rbind (Mark freeMap PipeSector) (\<lambda>freeMap.
     rbind (system_file env [66, 72, 100, 114] freeMap (sectors d) FreeMapFileSize) (\<lambda>(mapHdr, freeMap, st).
     rbind (system_file env [68, 72, 100, 114] freeMap st DirectoryFileSize) (\<lambda>(dirHdr, freeMap, st).
     rbind (system_file env [80, 72, 100, 114] freeMap st 0) (\<lambda>(pipHdr, freeMap, st).
     rbind (HdrWriteBack mapHdr st FreeMapSector) (\<lambda>st.
     rbind (HdrWriteBack dirHdr st DirectorySector) (\<lambda>st.
     rbind (HdrWriteBack pipHdr st PipeSector) (\<lambda>st.
     rbind (OpenFile_new env (d\<lparr>sectors := st\<rparr>) FreeMapSector) (\<lambda>(mapFile, d).
     rbind (OpenFile_new env d DirectorySector) (\<lambda>(dirFile, d).
     rbind (map_WriteBack write_depth env freeMap mapFile d) (\<lambda>(mapFile, d).
     rbind (Dir_WriteBack write_depth env dir dirFile d) (\<lambda>(dirFile, d).
     Inr \<lparr>fdisk = d, freeMapFile = mapFile, directoryFile = dirFile\<rparr>))))))))))))))"

definition FileSystem_mount :: "fs_env \<Rightarrow> fs_disk \<Rightarrow> file_system res" where
  "FileSystem_mount env d =
     rbind (OpenFile_new env d FreeMapSector) (\<lambda>(mapFile, d).
     rbind (OpenFile_new env d DirectorySector) (\<lambda>(dirFile, d).
     Inr \<lparr>fdisk = d, freeMapFile = mapFile, directoryFile = dirFile\<rparr>))"

definition FileSystem_new :: "fs_env \<Rightarrow> bool \<Rightarrow> fs_disk \<Rightarrow> file_system res" where
  "FileSystem_new env format d = (if format then FileSystem_format env d else FileSystem_mount env d)"

section \<open>Finding a directory\<close>

text \<open>The walk from directory to directory; a directory whose entry is missing stays open.\<close>

fun find_dir :: "fs_env \<Rightarrow> fs_disk \<Rightarrow> byte list option list \<Rightarrow> int \<Rightarrow> (int \<times> fs_disk) res" where
  "find_dir env d [] sec = Inr (sec, d)"
| "find_dir env d (a # as) sec =
     rbind (OpenFile_new env d sec) (\<lambda>(dirFile, d).
     rbind (Dir_FetchFrom env (new_Directory env) dirFile (sectors d)) (\<lambda>(tmpDir, dirFile).
     case a of None \<Rightarrow> Inl NullPointer
     | Some nm \<Rightarrow>
         let sec = Dir_Find tmpDir nm in
         if sec = -1 then Inr (sec, d)
         else rbind (OpenFile_delete dirFile d) (\<lambda>d. find_dir env d as sec)))"

definition FindDirSector :: "fs_env \<Rightarrow> fs_disk \<Rightarrow> byte list \<Rightarrow> (int \<times> fs_disk) res" where
  "FindDirSector env d path =
     rbind (PathParser path) (\<lambda>fp. find_dir env d (take (DirDep fp) (DirArray fp)) DirectorySector)"

definition FindDir :: "fs_env \<Rightarrow> file_system \<Rightarrow> byte list \<Rightarrow> (directory \<times> file_system) res" where
  "FindDir env fs path =
     (let returnDir = new_Directory env in
      rbind (FindDirSector env (fdisk fs) path) (\<lambda>(sec, d).
      if sec = DirectorySector then
        rbind (Dir_FetchFrom env returnDir (directoryFile fs) (sectors d)) (\<lambda>(dir, f).
        Inr (dir, fs\<lparr>fdisk := d, directoryFile := f\<rparr>))
      else if sec \<noteq> -1 then
        rbind (OpenFile_new env d sec) (\<lambda>(f, d).
        rbind (Dir_FetchFrom env returnDir f (sectors d)) (\<lambda>(dir, f).
        rbind (OpenFile_delete f d) (\<lambda>d.
        Inr (dir, fs\<lparr>fdisk := d\<rparr>))))
      else Inr (returnDir, fs\<lparr>fdisk := d\<rparr>)))"

text \<open>The name looked up in the directory: the last component of a path, except that a path without
  directories is taken as it is, leading slash and all.\<close>

definition entry_name :: "byte list \<Rightarrow> byte list res" where
  "entry_name path = rbind (PathParser path) (\<lambda>fp. Inr (if DirDep fp > 0 then Base fp else path))"

section \<open>Create\<close>

text \<open>The header of the new file is written to \<open>sec\<close>, then an empty table if it is a directory, then the
  directory and the bitmap.\<close>

definition init_directory :: "fs_env \<Rightarrow> fs_disk \<Rightarrow> int \<Rightarrow> fs_disk res" where
  "init_directory env d sec =
     rbind (OpenFile_new env d sec) (\<lambda>(subDir, d).
     rbind (Dir_WriteBack write_depth env (new_Directory env) subDir d) (\<lambda>(subDir, d).
     OpenFile_delete subDir d))"

definition flush_new :: "fs_env \<Rightarrow> file_system \<Rightarrow> open_file \<Rightarrow> directory \<Rightarrow> bitmap \<Rightarrow> file_header \<Rightarrow> int \<Rightarrow> byte list \<Rightarrow> bool
    \<Rightarrow> file_system res" where
  "flush_new env fs DirFile dir freeMap h sec nm isDir =
     rbind (CreateInit env h (if isDir then Dir_Ext else GetFileExtension nm)) (\<lambda>h.
     rbind (HdrWriteBack h (sectors (fdisk fs)) sec) (\<lambda>st.
     let d = (fdisk fs)\<lparr>sectors := st\<rparr> in
     rbind (if isDir then init_directory env d sec else Inr d) (\<lambda>d.
     rbind (Dir_WriteBack write_depth env dir DirFile d) (\<lambda>(DirFile, d).
     rbind (map_WriteBack write_depth env freeMap (freeMapFile fs) d) (\<lambda>(mapFile, d).
     rbind (OpenFile_delete DirFile d) (\<lambda>d.
     Inr (fs\<lparr>fdisk := d, freeMapFile := mapFile\<rparr>)))))))"

text \<open>\<open>Create\<close> once the directory is open and fetched, and then once the bitmap is fetched too. On every
  failure the directory's file stays open.\<close>

definition create_on_map :: "fs_env \<Rightarrow> file_system \<Rightarrow> bitmap \<Rightarrow> open_file \<Rightarrow> directory \<Rightarrow> byte list \<Rightarrow> bool \<Rightarrow> int
    \<Rightarrow> (bool \<times> file_system) res" where
  "create_on_map env fs freeMap DirFile dir nm isDir initialSize =
     rbind (Find freeMap) (\<lambda>(sec, freeMap).
     if sec = -1 then Inr (False, fs)
     else
       let (ok, dir) = Dir_Add dir nm sec in
       if \<not> ok then Inr (False, fs)
       else
         rbind (Allocate (stack_junk env) (header_junk env) freeMap (sectors (fdisk fs)) initialSize) (\<lambda>(ok, h, freeMap, st).
         let fs = fs\<lparr>fdisk := (fdisk fs)\<lparr>sectors := st\<rparr>\<rparr> in
         if \<not> ok then Inr (False, fs)
         else rbind (flush_new env fs DirFile dir freeMap h sec nm isDir) (\<lambda>fs. Inr (True, fs))))"

definition create_entry :: "fs_env \<Rightarrow> file_system \<Rightarrow> open_file \<Rightarrow> directory \<Rightarrow> byte list \<Rightarrow> bool \<Rightarrow> int \<Rightarrow> (bool \<times> file_system) res" where
  "create_entry env fs DirFile dir nm isDir initialSize =
     (if Dir_Find dir nm \<noteq> -1 then Inr (False, fs)
      else
        rbind (BitMap (heap_junk env) NumSectors) (\<lambda>freeMap.
        rbind (map_FetchFrom env freeMap (freeMapFile fs) (sectors (fdisk fs))) (\<lambda>(freeMap, mapFile).
        create_on_map env (fs\<lparr>freeMapFile := mapFile\<rparr>) freeMap DirFile dir nm isDir initialSize)))"

definition Create :: "fs_env \<Rightarrow> file_system \<Rightarrow> byte list \<Rightarrow> int \<Rightarrow> (bool \<times> file_system) res" where
  "Create env fs path initialSize0 =
     (let isDir = (initialSize0 = -1); initialSize = (if isDir then DirectoryFileSize else initialSize0) in
      rbind (FindDirSector env (fdisk fs) path) (\<lambda>(DirSector, d).
      rbind (ASSERT (DirSector \<noteq> -1)) (\<lambda>_.
      rbind (OpenFile_new env d DirSector) (\<lambda>(DirFile, d).
      rbind (Dir_FetchFrom env (new_Directory env) DirFile (sectors d)) (\<lambda>(dir, DirFile).
      rbind (entry_name path) (\<lambda>nm.
      create_entry env (fs\<lparr>fdisk := d\<rparr>) DirFile dir nm isDir initialSize))))))"

section \<open>Open\<close>

definition Open :: "fs_env \<Rightarrow> file_system \<Rightarrow> byte list \<Rightarrow> (open_file option \<times> file_system) res" where
  "Open env fs path =
     rbind (FindDir env fs path) (\<lambda>(dir, fs).
     rbind (entry_name path) (\<lambda>nm.
     let sec = Dir_Find dir nm in
     if sec \<ge> 0 then
       rbind (OpenFile_new env (fdisk fs) sec) (\<lambda>(f, d). Inr (Some f, fs\<lparr>fdisk := d\<rparr>))
     else Inr (None, fs)))"

section \<open>Remove\<close>

definition is_directory :: "file_header \<Rightarrow> bool" where
  "is_directory h \<longleftrightarrow> cstr (fileExtension h) = Dir_Ext"

text \<open>A directory is opened to see whether it is empty; only one that is not is closed again. The
  result is whether it is empty.\<close>

definition check_empty :: "fs_env \<Rightarrow> fs_disk \<Rightarrow> int \<Rightarrow> (bool \<times> fs_disk) res" where
  "check_empty env d sec =
     rbind (OpenFile_new env d sec) (\<lambda>(SubDirFile, d).
     rbind (Dir_FetchFrom env (new_Directory env) SubDirFile (sectors d)) (\<lambda>(SubDirectory, SubDirFile).
     if \<not> Dir_IsEmpty SubDirectory then rbind (OpenFile_delete SubDirFile d) (\<lambda>d. Inr (False, d))
     else Inr (True, d)))"

text \<open>Data blocks, header block and entry are given up; the bitmap is flushed.\<close>

definition release_file :: "fs_env \<Rightarrow> file_system \<Rightarrow> directory \<Rightarrow> byte list \<Rightarrow> file_header \<Rightarrow> int \<Rightarrow> (directory \<times> file_system) res" where
  "release_file env fs dir nm h sec =
     rbind (BitMap (heap_junk env) NumSectors) (\<lambda>freeMap.
     rbind (map_FetchFrom env freeMap (freeMapFile fs) (sectors (fdisk fs))) (\<lambda>(freeMap, mapFile).
     rbind (Deallocate h freeMap (sectors (fdisk fs))) (\<lambda>freeMap.
     rbind (Clear freeMap sec) (\<lambda>freeMap.
     let (_, dir) = Dir_Remove dir nm in
     rbind (map_WriteBack write_depth env freeMap mapFile (fdisk fs)) (\<lambda>(mapFile, d).
     Inr (dir, fs\<lparr>fdisk := d, freeMapFile := mapFile\<rparr>))))))"

definition FileSys_Remove :: "fs_env \<Rightarrow> file_system \<Rightarrow> byte list \<Rightarrow> (bool \<times> file_system) res" where
  "FileSys_Remove env fs nm =
     rbind (FindDir env fs nm) (\<lambda>(dir, fs).
     rbind (PathParser nm) (\<lambda>fp.
     if DirDep fp > 0 then Inr (False, fs)
     else
       let sec = Dir_Find dir nm in
       if sec = -1 then Inr (False, fs)
       else
         rbind (HdrFetchFrom (header_junk env) (sectors (fdisk fs)) sec) (\<lambda>h.
         rbind (if is_directory h then check_empty env (fdisk fs) sec else Inr (True, fdisk fs)) (\<lambda>(empty, d).
         let fs = fs\<lparr>fdisk := d\<rparr> in
         if \<not> empty then Inr (False, fs)
         else
           rbind (aget (visitorCnt d) sec) (\<lambda>visitors.
           if visitors \<noteq> 0 then Inr (False, fs)
           else
             rbind (release_file env fs dir nm h sec) (\<lambda>(dir, fs).
             rbind (Dir_WriteBack write_depth env dir (directoryFile fs) (fdisk fs)) (\<lambda>(f, d).
             Inr (True, fs\<lparr>fdisk := d, directoryFile := f\<rparr>))))))))"

definition RemoveDir :: "fs_env \<Rightarrow> file_system \<Rightarrow> byte list \<Rightarrow> (bool \<times> file_system) res" where
  "RemoveDir env fs path =
     rbind (FindDirSector env (fdisk fs) path) (\<lambda>(DirSector, d).
     if DirSector = -1 then Inr (False, fs\<lparr>fdisk := d\<rparr>)
     else
       rbind (OpenFile_new env d DirSector) (\<lambda>(DirFile, d).
       rbind (Dir_FetchFrom env (new_Directory env) DirFile (sectors d)) (\<lambda>(dir, DirFile).
       rbind (entry_name path) (\<lambda>nm.
       let sec = Dir_Find dir nm in
       if sec = -1 then Inr (False, fs\<lparr>fdisk := d\<rparr>)
       else
         rbind (HdrFetchFrom (header_junk env) (sectors d) sec) (\<lambda>h.
         rbind (if is_directory h then check_empty env d sec else Inr (True, d)) (\<lambda>(empty, d).
         if \<not> empty then rbind (OpenFile_delete DirFile d) (\<lambda>d. Inr (False, fs\<lparr>fdisk := d\<rparr>))
         else
           rbind (release_file env (fs\<lparr>fdisk := d\<rparr>) dir nm h sec) (\<lambda>(dir, fs).
           rbind (Dir_WriteBack write_depth env dir DirFile (fdisk fs)) (\<lambda>(DirFile, d).
           rbind (OpenFile_delete DirFile d) (\<lambda>d.
           Inr (True, fs\<lparr>fdisk := d\<rparr>))))))))))"

section \<open>Listing\<close>

definition FileSys_List :: "fs_env \<Rightarrow> file_system \<Rightarrow> (byte list list \<times> file_system) res" where
  "FileSys_List env fs =
     rbind (Dir_FetchFrom env (new_Directory env) (directoryFile fs) (sectors (fdisk fs))) (\<lambda>(dir, f).
     Inr (Dir_List dir, fs\<lparr>directoryFile := f\<rparr>))"

text \<open>\<open>strcat(directory, "/anything")\<close>: any entry of the directory, so that its parent is the directory.\<close>

definition ListDir :: "fs_env \<Rightarrow> file_system \<Rightarrow> byte list \<Rightarrow> (byte list list \<times> file_system) res" where
  "ListDir env fs path =
     rbind (FindDir env fs (path @ [slash, 97, 110, 121, 116, 104, 105, 110, 103])) (\<lambda>(dir, fs). Inr (Dir_List dir, fs))"

section \<open>The pipe\<close>

text \<open>\<open>data[length] = 0\<close>, then one byte more than \<open>length\<close> is written.\<close>

definition WritePipe :: "fs_env \<Rightarrow> file_system \<Rightarrow> byte list \<Rightarrow> int \<Rightarrow> file_system res" where
  "WritePipe env fs data len =
     rbind (aset data len 0) (\<lambda>data.
     rbind (OpenFile_new env (fdisk fs) PipeSector) (\<lambda>(pipe, d).
     rbind (OpenFile_Write write_depth env pipe d data (len + 1)) (\<lambda>(n, pipe, d).
     rbind (OpenFile_delete pipe d) (\<lambda>d. Inr (fs\<lparr>fdisk := d\<rparr>)))))"

text \<open>The buffer \<open>dst\<close> and its length as a string.\<close>

definition ReadPipe :: "fs_env \<Rightarrow> file_system \<Rightarrow> byte list \<Rightarrow> (int \<times> byte list \<times> file_system) res" where
  "ReadPipe env fs dst =
     rbind (HdrFetchFrom (header_junk env) (sectors (fdisk fs)) PipeSector) (\<lambda>h.
     rbind (OpenFile_new env (fdisk fs) PipeSector) (\<lambda>(pipe, d).
     rbind (OpenFile_Read env pipe (sectors d) (FileLength h)) (\<lambda>(bs, pipe).
     rbind (if length bs \<le> length dst then Inr (overlay dst 0 bs) else Inl OutOfBounds) (\<lambda>dst.
     rbind (aset dst (FileLength h) 0) (\<lambda>dst.
     rbind (OpenFile_delete pipe d) (\<lambda>d.
     Inr (int (length (cstr dst)), dst, fs\<lparr>fdisk := d\<rparr>)))))))"

end
