(* ===== verification/Paths.thy ===== *)
theory Paths
  imports FileSys
begin

text \<open>
  Parsing paths: a path whose components are not empty and hold no slash is split into them.
\<close>

section \<open>Joining components\<close>

fun join :: "byte list list \<Rightarrow> byte list \<Rightarrow> byte list" where
  "join [] b = b"
| "join (d # ds) b = d @ slash # join ds b"

definition component :: "byte list \<Rightarrow> bool" where
  "component s \<longleftrightarrow> s \<noteq> [] \<and> slash \<notin> set s"

lemma component_ends: "component s \<Longrightarrow> s \<noteq> [] \<and> hd s \<noteq> slash \<and> last s \<noteq> slash"
  unfolding component_def by (metis hd_in_set last_in_set)

lemma join_snoc: "join (ds @ [d]) b = join ds d @ slash # b"
  by (induction ds) simp_all

lemma join_ends: "component b \<Longrightarrow> join ds b \<noteq> [] \<and> last (join ds b) \<noteq> slash"
  by (induction ds) (simp_all add: component_ends)

lemma join_starts: "component b \<Longrightarrow> \<forall>d \<in> set ds. component d \<Longrightarrow> hd (join ds b) \<noteq> slash"
  by (cases ds) (simp_all add: component_ends hd_append)

lemma component_count: "component b \<Longrightarrow> filter (\<lambda>c. c = slash) b = []"
  by (auto simp: component_def filter_empty_conv)

lemma join_count:
  "component b \<Longrightarrow> \<forall>d \<in> set ds. component d \<Longrightarrow> length (filter (\<lambda>c. c = slash) (join ds b)) = length ds"
  by (induction ds) (simp_all add: component_count)

lemma strip_last: "s \<noteq> [] \<Longrightarrow> last s \<noteq> slash \<Longrightarrow> strip_slashes s = s" "s \<noteq> [] \<Longrightarrow> last s \<noteq> slash \<Longrightarrow> strip_slashes (s @ [slash]) = s"
  by (cases s rule: rev_cases; simp add: strip_slashes_def)+

lemma component_last:
  assumes "component b"
  shows "after_last slash (x @ slash # b) = b" "upto_last slash (x @ slash # b) = x @ [slash]" "after_last slash b = b" "upto_last slash b = []"
proof -
  have b: "\<forall>c \<in> set (rev b). c \<noteq> slash" using assms by (auto simp: component_def)
  have "takeWhile (\<lambda>c. c \<noteq> slash) (rev b @ slash # rev x) = rev b" "dropWhile (\<lambda>c. c \<noteq> slash) (rev b @ slash # rev x) = slash # rev x"
    using b by (subst takeWhile_append2 dropWhile_append2; simp)+
  then show "after_last slash (x @ slash # b) = b" "upto_last slash (x @ slash # b) = x @ [slash]"
    by (simp_all add: after_last_def upto_last_def)
  show "after_last slash b = b" "upto_last slash b = []"
    using b by (simp_all add: after_last_def upto_last_def takeWhile_eq_all_conv [THEN iffD2])
qed

lemma basename_join: "component b \<Longrightarrow> basename (join ds b) = b"
  using join_ends [of b ds] by (cases ds rule: rev_cases) (simp_all add: basename_def strip_last join_snoc component_last)

lemma dirname_component: "component b \<Longrightarrow> dirname b = [dot]"
  using join_ends [of b "[]"] by (simp add: dirname_def strip_last component_last)

lemma dirname_join:
  assumes "component b" "component d"
  shows "dirname (join (ds @ [d]) b) = join ds d"
  using join_ends [OF assms(2), of ds] join_ends [OF assms(1), of "ds @ [d]"] assms(1)
  by (simp add: dirname_def strip_last join_snoc component_last Let_def)

section \<open>The loop\<close>

lemma join_dot: "component b \<Longrightarrow> ds = [] \<and> b \<noteq> [dot] \<or> ds \<noteq> [] \<and> hd ds \<noteq> [] \<Longrightarrow> join ds b \<noteq> [dot]"
  by (cases ds) (auto simp: append_eq_Cons_conv)

lemma path_dirs_join:
  assumes "\<forall>d \<in> set ds. component d" "ds \<noteq> [] \<Longrightarrow> hd ds \<noteq> [dot]" "length ds \<le> length arr"
  shows "path_dirs (length ds) (if ds = [] then [dot] else join (butlast ds) (last ds)) arr = Inr (map Some ds @ drop (length ds) arr)"
  using assms
proof (induction ds arbitrary: arr rule: rev_induct)
  case (snoc d ds)
  have d: "component d" "\<forall>d \<in> set ds. component d" using snoc.prems(1) by simp_all
  have "ds = [] \<and> d \<noteq> [dot] \<or> ds \<noteq> [] \<and> hd ds \<noteq> []" using snoc.prems(2) d(2) by (cases ds) (auto simp: component_def)
  then have nd: "join ds d \<noteq> [dot]" by (rule join_dot [OF d(1)])
  have dn: "dirname (join ds d) = (if ds = [] then [dot] else join (butlast ds) (last ds))"
  proof (cases ds rule: rev_cases)
    case (snoc es e)
    then show ?thesis using dirname_join [OF d(1), of e es] d(2) by simp
  qed (simp add: dirname_component d(1))
  have st: "aset arr (int (length ds)) (Some d) = Inr (arr[length ds := Some d])" using snoc.prems(3) by (simp add: aset_def)
  have "ds \<noteq> [] \<Longrightarrow> hd ds \<noteq> [dot]" using snoc.prems(2) by (cases ds) auto
  then have "path_dirs (length ds) (dirname (join ds d)) (arr[length ds := Some d]) = Inr (map Some ds @ drop (length ds) (arr[length ds := Some d]))"
    unfolding dn using snoc.prems(3) by (intro snoc.IH [OF d(2)]) simp_all
  moreover have "drop (length ds) (arr[length ds := Some d]) = Some d # drop (Suc (length ds)) arr"
    using snoc.prems(3) by (simp add: Cons_nth_drop_Suc [symmetric])
  ultimately show ?case using nd st basename_join [OF d(1), of ds] by simp
qed simp

text \<open>A path of at most five directories and a name, with or without a slash in front, is split into exactly these
  components; the first directory must not be a single dot.\<close>

theorem PathParser_splits:
  assumes "component b" "\<forall>d \<in> set ds. component d" "length ds \<le> 5" "ds \<noteq> [] \<Longrightarrow> hd ds \<noteq> [dot]" "lead = [] \<or> lead = [slash]"
  shows "PathParser (lead @ join ds b) = Inr \<lparr>DirArray = map Some ds @ replicate (5 - length ds) None, DirDep = length ds, Base = b\<rparr>"
proof -
  have h: "(let path0 = lead @ join ds b in if path0 \<noteq> [] \<and> hd path0 = slash then tl path0 else path0) = join ds b"
    using join_starts [OF assms(1,2)] assms(5) by auto
  have dn: "dirname (join ds b) = (if ds = [] then [dot] else join (butlast ds) (last ds))"
  proof (cases ds rule: rev_cases)
    case (snoc es e)
    then show ?thesis using dirname_join [OF assms(1), of e es] assms(2) by simp
  qed (simp add: dirname_component assms(1))
  have "path_dirs (length ds) (dirname (join ds b)) (replicate 5 None) = Inr (map Some ds @ replicate (5 - length ds) None)"
    unfolding dn using path_dirs_join [OF assms(2,4), of "replicate 5 None"] assms(3) by simp
  then show ?thesis
    using h assms(3) by (simp add: PathParser_def Let_def join_count [OF assms(1,2)] basename_join [OF assms(1)] MAX_DIR_DEP_def ASSERT_def)
qed

theorem PathParser_splits_witness:
  "PathParser [47, 97, 47, 98, 99, 47, 100] = Inr \<lparr>DirArray = [Some [97], Some [98, 99], None, None, None], DirDep = 2, Base = [100]\<rparr>"
proof -
  have "replicate 3 None = [None, None, None]" by (simp add: numeral_eq_Suc)
  then show ?thesis using PathParser_splits [of "[100]" "[[97], [98, 99]]" "[slash]"] by (simp add: component_def)
qed

end
