(* ===== verification/FileGrow.thy ===== *)
theory FileGrow
  imports FileContent
begin

text \<open>
  The growth of an open file: \<open>WriteAt\<close> behind the end fetches the bitmap of free sectors from its
  file, lets the header take more sectors, and writes header and bitmap back to the disk.
\<close>

section \<open>The bitmap of free sectors on the disk\<close>

definition map_on :: "fs_disk \<Rightarrow> bitmap \<Rightarrow> file_header \<Rightarrow> bool" where
  "map_on d bm h0 \<longleftrightarrow> sectors d FreeMapSector = header_bytes h0 \<and> header_ok h0 \<and> open_ok (sectors d) bm h0
     \<and> numBytes h0 = 128 \<and> content (sectors d) h0 = map_bytes bm
     \<and> FreeMapSector \<in> marked bm \<and> FreeMapSector \<notin> set (owned (sectors d) h0) \<and> length (visitorCnt d) = 1024"

lemma header_sector_frame [simp]:
  "blocks st (h\<lparr>headerSector := x\<rparr>) = blocks st h" "tables st (h\<lparr>headerSector := x\<rparr>) = tables st h"
  "owned st (h\<lparr>headerSector := x\<rparr>) = owned st h" "content st (h\<lparr>headerSector := x\<rparr>) = content st h"
  "open_ok st bm (h\<lparr>headerSector := x\<rparr>) = open_ok st bm h" "header_ok (h\<lparr>headerSector := x\<rparr>) = header_ok h"
  "header_bytes (h\<lparr>headerSector := x\<rparr>) = header_bytes h"
  by (simp_all add: blocks_def tables_def owned_def content_def open_ok_def file_ok_def length_ok_def header_ok_def header_bytes_def)

lemma owned_times [simp]: "owned st (h\<lparr>lastVisitTime := t\<rparr>) = owned st h" "owned st (h\<lparr>modifyTime := t\<rparr>) = owned st h"
  by (simp_all add: owned_def)

lemma header_fetch:
  assumes "header_ok h" "0 \<le> s" "s < NumSectors" "st s = header_bytes h"
  shows "HdrFetchFrom h0 st s = Inr (h\<lparr>headerSector := headerSector h0\<rparr>)"
proof -
  have l: "length (fileExtension h) = 5" "length (createTime h) = 25" "length (modifyTime h) = 25"
      "length (lastVisitTime h) = 25" "length (dataSectors h) = 10"
    and r: "in_int32 (numBytes h)" "in_int32 (numSectors h)" "\<forall>x \<in> set (dataSectors h). in_int32 x"
    using assms(1) by (simp_all add: header_ok_def ExtensionLength_def TimeStringLength_def hdr_consts)
  have d: "un_ints 10 (ints_bytes (dataSectors h)) = dataSectors h"
    using un_ints_ints_bytes [OF r(3), of "[]"] l(5) by simp
  show ?thesis
    using assms(2-4) l r
    by (simp add: HdrFetchFrom_def ReadSector_def header_bytes_def hdr_consts un_le32_le32 s32_id d)
qed

lemma header_write:
  assumes "header_ok h" "0 \<le> s" "s < NumSectors"
  shows "HdrWriteBack h st s = Inr (st(s := header_bytes h))"
  using assms length_header_bytes [OF assms(1)] by (simp add: HdrWriteBack_def WriteSector_def)

lemma new_map:
  obtains bm0 where "BitMap junk NumSectors = Inr bm0" "disk_map bm0"
proof -
  let ?b = "\<lparr>numBits = NumSectors, numWords = 32, bwords = map junk [0..<32]\<rparr>"
  have wf: "bm_wf ?b" by (simp add: bm_wf_def disk_consts divRoundUp_def BitsInWord_def)
  obtain bm0 where c: "clear_from ?b 0 1024 = Inr bm0" and b: "bm_wf bm0" "numBits bm0 = numBits ?b"
    using clear_from_marked [OF wf, of 0 1024] by (auto simp: disk_consts)
  have "BitMap junk NumSectors = Inr bm0"
    using c by (simp add: BitMap_def disk_consts divRoundUp_def BitsInWord_def)
  moreover have "disk_map bm0" using b by (simp add: disk_map_def)
  ultimately show ?thesis by (rule that)
qed

lemma disk_map_shape: "disk_map bm \<Longrightarrow> numBits bm = 1024 \<and> numWords bm = 32 \<and> length (bwords bm) = 32"
  by (auto simp: disk_map_def bm_wf_def disk_consts divRoundUp_def BitsInWord_def)

lemma load_same_map:
  assumes "disk_map bm0" "disk_map bm" shows "load_map bm0 (map_bytes bm) = bm"
proof -
  have "load_map bm0 (map_bytes bm) = bm0\<lparr>bwords := bwords bm\<rparr>"
    using un_ints_map_bytes [of "bwords bm" "[]"] load_map_full [of "map_bytes bm" bm0] disk_map_shape [OF assms(1)] disk_map_shape [OF assms(2)]
    by (simp add: map_bytes_def)
  then show ?thesis using disk_map_shape [OF assms(1)] disk_map_shape [OF assms(2)] by (cases bm0, cases bm) simp
qed

lemma count_visitor_ok:
  assumes "0 \<le> s" "s < int (length (visitorCnt d))"
  shows "count_visitor d s k = Inr (d\<lparr>visitorCnt := (visitorCnt d)[nat s := visitorCnt d ! nat s + k]\<rparr>)"
  using assms by (simp add: count_visitor_def aget_ok aset_ok)

text \<open>Opening the bitmap's file and fetching the bitmap.\<close>

lemma map_open:
  assumes m: "map_on d bm h0"
  obtains bm0 d1 f0 f1 where "BitMap (heap_junk env) NumSectors = Inr bm0" "OpenFile_new env d FreeMapSector = Inr (f0, d1)"
    "map_FetchFrom env bm0 f0 (sectors d1) = Inr (bm, f1)" "sectors d1 = sectors d" "visited \<lparr>hdr = h0\<lparr>headerSector := 0\<rparr>, seekPosition = 0\<rparr> f1"
    "visitorCnt d1 = (visitorCnt d)[0 := visitorCnt d ! 0 + 1]"
proof -
  have M: "sectors d 0 = header_bytes h0" "header_ok h0" "open_ok (sectors d) bm h0" "numBytes h0 = 128"
    "content (sectors d) h0 = map_bytes bm" "length (visitorCnt d) = 1024"
    using m by (simp_all add: map_on_def FreeMapSector_def)
  let ?f = "\<lparr>hdr = h0\<lparr>headerSector := 0\<rparr>, seekPosition = 0\<rparr>"
  obtain bm0 where b: "BitMap (heap_junk env) NumSectors = Inr bm0" "disk_map bm0" by (rule new_map)
  let ?d = "d\<lparr>visitorCnt := (visitorCnt d)[0 := visitorCnt d ! 0 + 1]\<rparr>"
  have o: "OpenFile_new env d FreeMapSector = Inr (?f, ?d)"
    using header_fetch [OF M(2), of 0 "sectors d"] M(1,6)
    by (simp add: OpenFile_new_def FreeMapSector_def disk_consts count_visitor_ok)
  have dm: "disk_map bm" by (rule open_okD(2) [OF M(3)])
  have ok: "open_ok (sectors d) bm (hdr ?f)" using M(3) by simp
  obtain f1 where r: "ReadAt env ?f (sectors d) 128 0 = Inr (take (nat 128) (drop (nat 0) (content (sectors d) (hdr ?f))), f1)" and v: "visited ?f f1"
    by (rule ReadAt_visited [OF ok order_refl])
  have "map_FetchFrom env bm0 ?f (sectors ?d) = Inr (bm, f1)"
    using r disk_map_shape [OF b(2)] disk_map_shape [OF dm] load_same_map [OF b(2) dm]
    by (simp add: map_FetchFrom_def sizeof_int_def M(5))
  with b(1) o v show ?thesis by (intro that [of bm0 ?f ?d f1]) simp_all
qed

lemma overlay_all: "length bs = length buf \<Longrightarrow> overlay buf 0 bs = bs"
  by (simp add: overlay_def)

lemma header_ok_times:
  "header_ok h \<Longrightarrow> length (t::byte list) = 25 \<Longrightarrow> header_ok (h\<lparr>lastVisitTime := t, modifyTime := t, headerSector := x\<rparr>)"
  by (simp add: header_ok_def TimeStringLength_def)

lemma store_wf_header:
  "store_wf st \<Longrightarrow> header_ok h \<Longrightarrow> store_wf (st(s := header_bytes h))"
  using length_header_bytes [of h] by (simp add: store_wf_def)

text \<open>Writing the bitmap to its file and closing that.\<close>

lemma map_save:
  assumes ok: "open_ok (sectors d) bm h0" and h0: "numBytes h0 = 128" "header_ok h0" "0 \<notin> set (owned (sectors d) h0)"
    and v: "visited \<lparr>hdr = h0\<lparr>headerSector := 0\<rparr>, seekPosition = 0\<rparr> f1" and env: "length (now env) = 25"
    and bm: "0 \<in> marked bm" and vc: "length (visitorCnt d) = 1024"
  obtains n f2 d2 d3 h1 where "WriteAt fuel env f1 d (map_bytes bm) (numWords bm * sizeof_int) 0 = Inr (n, f2, d2)" "OpenFile_delete f2 d2 = Inr d3"
    "map_on d3 bm h1" "owned (sectors d3) h1 = owned (sectors d) h0" "touches (insert 0 (set (blocks (sectors d) h0))) (sectors d) (sectors d3)"
    "visitorCnt d3 = (visitorCnt d)[0 := visitorCnt d ! 0 - 1]"
proof -
  have dm: "disk_map bm" by (rule open_okD(2) [OF ok])
  note sh = disk_map_shape [OF dm]
  note V = visitedD [OF v]
  have V': "open_ok (sectors d) bm (hdr f1)" "numBytes (hdr f1) = 128" "content (sectors d) (hdr f1) = content (sectors d) h0"
    "blocks (sectors d) (hdr f1) = blocks (sectors d) h0" using V ok h0(1) by simp_all
  have wl: "(0::int) < 128" "128 \<le> int (length (map_bytes bm))" "0 + 128 \<le> numBytes (hdr f1)" using sh V'(2) by simp_all
  obtain f2 st2 where w: "WriteAt fuel env f1 d (map_bytes bm) 128 0 = Inr (128, f2, d\<lparr>sectors := st2\<rparr>)"
    and ok2: "open_ok st2 bm (hdr f2)" and t2: "touches (set (blocks (sectors d) (hdr f1))) (sectors d) st2"
    and c2: "content st2 (hdr f2) = overlay (content (sectors d) (hdr f1)) (nat 0) (take (nat 128) (map_bytes bm))"
    and f2: "f2 = f1\<lparr>hdr := (hdr f1)\<lparr>lastVisitTime := now env, modifyTime := now env\<rparr>\<rparr>"
    by (rule WriteAt_in_file [OF V'(1) order_refl wl])
  define h1 where "h1 = hdr f2"
  have h1: "h1 = h0\<lparr>lastVisitTime := now env, modifyTime := now env, headerSector := 0\<rparr>"
    using v f2 by (auto simp: visited_def h1_def)
  have hk: "header_ok h1" unfolding h1 by (rule header_ok_times [OF h0(2) env])
  let ?st = "st2(0 := header_bytes h1)"
  have wf2: "store_wf st2" and wf: "store_wf ?st" using open_okD(3) [OF ok2] store_wf_header [OF _ hk] by auto
  have ow2: "owned st2 h1 = owned (sectors d) h0"
    using touches_tables(2,3) [OF V'(1) t2 wf2] V'(4) by (simp add: h1 owned_def f2) (use v in \<open>auto simp: visited_def\<close>)
  have t3: "touches {0} st2 ?st" by (simp add: touches_def)
  have c3: "content ?st h1 = content st2 h1" "open_ok ?st bm h1" "owned ?st h1 = owned st2 h1"
    using content_other [OF ok2 [folded h1_def] t3 _ wf] h0(3) ow2 by auto
  have "length (content (sectors d) (hdr f1)) = 128" using length_content [OF V'(1)] V'(2) by simp
  then have c: "content st2 h1 = map_bytes bm" using c2 sh by (simp add: h1_def overlay_all)
  have cl: "OpenFile_delete f2 (d\<lparr>sectors := st2\<rparr>) = Inr (d\<lparr>sectors := ?st, visitorCnt := (visitorCnt d)[0 := visitorCnt d ! 0 - 1]\<rparr>)"
    using header_write [OF hk, of 0 st2] vc count_visitor_ok [of 0 "d\<lparr>sectors := ?st\<rparr>" "-1"]
    unfolding OpenFile_delete_def h1_def [symmetric] by (simp add: h1 disk_consts)
  have "map_on (d\<lparr>sectors := ?st, visitorCnt := (visitorCnt d)[0 := visitorCnt d ! 0 - 1]\<rparr>) bm h1"
    using hk c c3 ow2 h0(1,3) bm vc by (simp add: map_on_def FreeMapSector_def h1)
  moreover have "touches (insert 0 (set (blocks (sectors d) h0))) (sectors d) ?st"
    using t2 V'(4) by (auto simp: touches_def)
  moreover have "WriteAt fuel env f1 d (map_bytes bm) (numWords bm * sizeof_int) 0 = Inr (128, f2, d\<lparr>sectors := st2\<rparr>)"
    using w sh by (simp add: sizeof_int_def)
  ultimately show ?thesis using c3(3) ow2
    by (intro that [of 128 f2 "d\<lparr>sectors := st2\<rparr>" "d\<lparr>sectors := ?st, visitorCnt := (visitorCnt d)[0 := visitorCnt d ! 0 - 1]\<rparr>" h1] cl) simp_all
qed

section \<open>Growing\<close>

text \<open>A header that fills its sector.\<close>

definition header_sized :: "file_header \<Rightarrow> bool" where
  "header_sized h \<longleftrightarrow> length (fileExtension h) = 5 \<and> length (createTime h) = 25 \<and> length (modifyTime h) = 25
     \<and> length (lastVisitTime h) = 25 \<and> length (dataSectors h) = 10"

lemma header_sized_write:
  assumes "header_sized h" "0 \<le> s" "s < NumSectors"
  shows "HdrWriteBack h st s = Inr (st(s := header_bytes h))" "store_wf st \<Longrightarrow> store_wf (st(s := header_bytes h))"
proof -
  have "length (header_bytes h) = 128" using assms(1) by (simp add: header_sized_def header_bytes_def)
  then show "HdrWriteBack h st s = Inr (st(s := header_bytes h))" "store_wf st \<Longrightarrow> store_wf (st(s := header_bytes h))"
    using assms(2,3) by (simp_all add: HdrWriteBack_def WriteSector_def SectorSize_def store_wf_def)
qed

text \<open>A file other than the bitmap's: header sector and sectors of its own.\<close>

definition file_on :: "fs_disk \<Rightarrow> bitmap \<Rightarrow> file_header \<Rightarrow> file_header \<Rightarrow> bool" where
  "file_on d bm h0 h \<longleftrightarrow> open_ok (sectors d) bm h \<and> numSectors h = divRoundUp (numBytes h) SectorSize \<and> header_sized h
     \<and> headerSector h \<in> marked bm \<and> headerSector h \<noteq> FreeMapSector
     \<and> headerSector h \<notin> set (owned (sectors d) h) \<and> headerSector h \<notin> set (owned (sectors d) h0)
     \<and> FreeMapSector \<notin> set (owned (sectors d) h) \<and> set (owned (sectors d) h) \<inter> set (owned (sectors d) h0) = {}"

lemma file_onD:
  assumes "file_on d bm h0 h"
  shows "open_ok (sectors d) bm h" "numSectors h = divRoundUp (numBytes h) SectorSize" "header_sized h"
    "headerSector h \<in> marked bm" "headerSector h \<noteq> 0" "headerSector h \<notin> set (owned (sectors d) h)" "headerSector h \<notin> set (owned (sectors d) h0)"
    "0 \<notin> set (owned (sectors d) h)" "set (owned (sectors d) h) \<inter> set (owned (sectors d) h0) = {}"
  using assms by (simp_all add: file_on_def FreeMapSector_def)

lemma extendedD:
  assumes "extended bm st h bm' st' h'"
  shows "file_ok st' bm' h'" "disk_map bm'" "store_wf st'" "take (length (blocks st h)) (blocks st' h') = blocks st h"
    "marked bm' = marked bm \<union> set (owned st' h')" "(set (owned st' h') - set (owned st h)) \<inter> marked bm = {}"
    "touches (set (tables st' h')) st st'"
  using assms by (simp_all add: extended_def touches_def)

text \<open>The bytes of a file that has grown are the old ones, followed by whatever the new sectors held.\<close>

lemma extended_content:
  assumes ok: "open_ok st bm h" and e: "extended bm st h bm' st' h'" and l: "length_ok h'" and n: "numBytes h \<le> numBytes h'"
  shows "\<exists>rest. content st' h' = content st h @ rest \<and> length rest = nat (numBytes h' - numBytes h)"
proof -
  note E = extendedD [OF e] and D = open_okD [OF ok]
  have ok': "open_ok st' bm' h'" using E(1-3) l by (simp add: open_ok_def)
  have d: "distinct (owned st' h')" using E(1) by (simp add: file_ok_def)
  have "set (blocks st h) \<subseteq> set (blocks st' h')" using E(4) by (metis set_take_subset)
  then have "map st' (blocks st h) = map st (blocks st h)" using E(7) d by (auto simp: touches_def owned_def)
  moreover obtain bs where bs: "blocks st' h' = blocks st h @ bs" using E(4) by (metis append_take_drop_id)
  ultimately have w: "concat (map st' (blocks st' h')) = concat (map st (blocks st h)) @ concat (map st' bs)"
    by (simp only: map_append concat_append)
  have lw: "nat (numBytes h) \<le> length (concat (map st (blocks st h)))" using D(4,5) length_data [OF ok] by simp
  have "take (nat (numBytes h)) (content st' h') = content st h"
    using lw n D(4) by (simp add: content_def w min_def nat_le_iff)
  then have "content st' h' = content st h @ drop (nat (numBytes h)) (content st' h')" by (metis append_take_drop_id)
  moreover have "length (drop (nat (numBytes h)) (content st' h')) = nat (numBytes h' - numBytes h)"
    using length_content [OF ok'] n D(4) by (simp add: nat_diff_distrib')
  ultimately show ?thesis by blast
qed

text \<open>The expansion of the header, with what it means for the two files.\<close>

lemma expand_file:
  assumes m: "map_on d bm h0" and fo: "file_on d bm h0 h" and eb: "0 < n"
    and ns: "ns = nat (divRoundUp (numBytes h + n) SectorSize)"
    and room: "expand_check (nat (numSectors h)) ns (card (bm.free bm))" "expand_need (nat (numSectors h)) ns \<le> card (bm.free bm)"
  obtains h' bm' st1 rest where "ExpandFileSize junk h bm (sectors d) n = Inr (True, h', bm', st1)"
    "open_ok st1 bm' h'" "open_ok st1 bm' h0" "content st1 h0 = content (sectors d) h0" "owned st1 h0 = owned (sectors d) h0"
    "content st1 h' = content (sectors d) h @ rest" "length rest = nat n" "numBytes h' = numBytes h + n" "header_sized h'"
    "headerSector h' = headerSector h" "marked bm \<subseteq> marked bm'" "numSectors h' = divRoundUp (numBytes h') SectorSize"
    "set (owned st1 h') \<inter> insert 0 (insert (headerSector h) (set (owned (sectors d) h0))) = {}"
    "touches (set (owned st1 h')) (sectors d) st1" "(set (owned st1 h') - set (owned (sectors d) h)) \<inter> marked bm = {}"
    "lastVisitTime h' = lastVisitTime h" "modifyTime h' = modifyTime h"
proof -
  note F = file_onD [OF fo] and O = open_okD [OF file_onD(1) [OF fo]]
  have M: "open_ok (sectors d) bm h0" "0 \<in> marked bm" "0 \<notin> set (owned (sectors d) h0)" using m by (simp_all add: map_on_def FreeMapSector_def)
  obtain h' bm' st1 ds where x: "ExpandFileSize junk h bm (sectors d) n = Inr (True, h', bm', st1)"
    and e: "extended bm (sectors d) h bm' st1 h'" and h': "h' = h\<lparr>numBytes := numBytes h + n, numSectors := int ns, dataSectors := ds\<rparr>"
    using expand_granted_shape [OF O(1-4) F(2) less_imp_le [OF eb] ns room] by blast
  note E = extendedD [OF e]
  have dv: "divRoundUp (numBytes h + n) SectorSize = (numBytes h + n + 127) div 128"
    using divRoundUp_pos [of "numBytes h + n" SectorSize] O(4) eb by (simp add: SectorSize_def)
  have nn: "int ns = divRoundUp (numBytes h + n) SectorSize" unfolding ns dv using O(4) eb by simp
  have le: "numBytes h + n \<le> int ns * 128" unfolding nn dv by presburger
  have lk: "length_ok h'" using le O(4) eb by (simp add: length_ok_def h' SectorSize_def)
  have ok': "open_ok st1 bm' h'" using E(1-3) lk by (simp add: open_ok_def)
  have own0: "set (owned (sectors d) h0) \<subseteq> marked bm" using open_okD(1) [OF M(1)] by (simp add: file_ok_def)
  have newf: "set (owned st1 h') \<inter> insert 0 (insert (headerSector h) (set (owned (sectors d) h0))) = {}"
    using E(6) own0 M(2) F(4,6,8,9) by blast
  have t: "touches (set (owned st1 h')) (sectors d) st1" using E(7) by (auto simp: touches_def owned_def)
  have "set (owned st1 h') \<inter> set (owned (sectors d) h0) = {}" using newf by blast
  note c0 = content_other [OF M(1) t this E(3)]
  have mk: "marked bm \<subseteq> marked bm'" using E(5) by blast
  have ok0: "open_ok st1 bm' h0" using c0(2) mk E(2) by (auto simp: open_ok_def file_ok_def)
  have "numBytes h \<le> numBytes h'" using eb by (simp add: h')
  from extended_content [OF F(1) e lk this] obtain rest where r: "content st1 h' = content (sectors d) h @ rest" "length rest = nat n"
    by (auto simp: h')
  have hs: "header_sized h'" using F(3) E(1) by (simp add: header_sized_def h' file_ok_def hdr_consts)
  show ?thesis
    by (rule that [OF x ok' ok0 c0(1) c0(3) r _ hs _ mk _ newf t E(6)]) (simp_all add: h' nn)
qed

lemma blocks_owned: "set (blocks st h) \<subseteq> set (owned st h)"
  by (simp add: owned_def)

text \<open>The sectors a growing write may change: the bitmap's file, the file's header, the file's old sectors and sectors
  that were free.\<close>

definition grow_area :: "fs_disk \<Rightarrow> bitmap \<Rightarrow> file_header \<Rightarrow> file_header \<Rightarrow> int set" where
  "grow_area d bm h0 h = insert FreeMapSector (insert (headerSector h) (set (owned (sectors d) h0) \<union> set (owned (sectors d) h) \<union> - marked bm))"

lemma other_file_kept:
  assumes "touches (grow_area d bm h0 h) (sectors d) st'" "open_ok (sectors d) bm g" "disk_map bm'" "marked bm \<subseteq> marked bm'" "store_wf st'"
    "set (owned (sectors d) g) \<inter> insert FreeMapSector (insert (headerSector h) (set (owned (sectors d) h0) \<union> set (owned (sectors d) h))) = {}"
  shows "content st' g = content (sectors d) g \<and> open_ok st' bm' g"
proof -
  have "set (owned (sectors d) g) \<subseteq> marked bm" using assms(2) by (simp add: open_ok_def file_ok_def)
  then have "grow_area d bm h0 h \<inter> set (owned (sectors d) g) = {}" using assms(6) unfolding grow_area_def by blast
  note c = content_other [OF assms(2,1) this assms(5)]
  have "open_ok st' bm' g" using c(2) assms(3,4) unfolding open_ok_def file_ok_def by blast
  with c(1) show ?thesis by simp
qed

lemma WriteAt_grow:
  assumes m: "map_on d bm h0" and fo: "file_on d bm h0 (hdr f)" and env: "length (now env) = 25"
    and p: "0 \<le> position" "position \<le> numBytes (hdr f)" "0 < n" "n \<le> int (length from)" "numBytes (hdr f) < position + n"
    and ns: "ns = nat (divRoundUp (numBytes (hdr f) + n) SectorSize)"
    and room: "expand_check (nat (numSectors (hdr f))) ns (card (bm.free bm))" "expand_need (nat (numSectors (hdr f))) ns \<le> card (bm.free bm)"
  obtains f' d' bm' h1 rest where "WriteAt (Suc fuel) env f d from n position = Inr (n, f', d')" "numBytes (hdr f') = numBytes (hdr f) + n"
    "content (sectors d') (hdr f') = overlay (content (sectors d) (hdr f) @ rest) (nat position) (take (nat n) from)"
    "length rest = nat n" "map_on d' bm' h1" "file_on d' bm' h1 (hdr f')" "visitorCnt d' = visitorCnt d"
    "headerSector (hdr f') = headerSector (hdr f)" "seekPosition f' = seekPosition f"
    "sectors d' (headerSector (hdr f)) = header_bytes ((hdr f')\<lparr>lastVisitTime := lastVisitTime (hdr f), modifyTime := modifyTime (hdr f)\<rparr>)"
    "touches (grow_area d bm h0 (hdr f)) (sectors d) (sectors d')" "marked bm \<subseteq> marked bm'"
    "(set (owned (sectors d') (hdr f')) - set (owned (sectors d) (hdr f))) \<inter> marked bm = {}"
proof -
  let ?h = "hdr f"
  note F = file_onD [OF fo]
  have M: "header_ok h0" "numBytes h0 = 128" "0 \<notin> set (owned (sectors d) h0)" "0 \<in> marked bm" "length (visitorCnt d) = 1024"
    using m by (simp_all add: map_on_def FreeMapSector_def)
  obtain bm0 d1 f0 f1 where o: "BitMap (heap_junk env) NumSectors = Inr bm0" "OpenFile_new env d FreeMapSector = Inr (f0, d1)"
    "map_FetchFrom env bm0 f0 (sectors d1) = Inr (bm, f1)" "sectors d1 = sectors d" "visited \<lparr>hdr = h0\<lparr>headerSector := 0\<rparr>, seekPosition = 0\<rparr> f1"
    "visitorCnt d1 = (visitorCnt d)[0 := visitorCnt d ! 0 + 1]" by (rule map_open [OF m])
  obtain h' bm' st1 rest where x: "ExpandFileSize (stack_junk env) ?h bm (sectors d) n = Inr (True, h', bm', st1)"
    "open_ok st1 bm' h'" "open_ok st1 bm' h0" "content st1 h0 = content (sectors d) h0" "owned st1 h0 = owned (sectors d) h0"
    "content st1 h' = content (sectors d) ?h @ rest" "length rest = nat n" "numBytes h' = numBytes ?h + n" "header_sized h'"
    "headerSector h' = headerSector ?h" "marked bm \<subseteq> marked bm'" "numSectors h' = divRoundUp (numBytes h') SectorSize"
    "set (owned st1 h') \<inter> insert 0 (insert (headerSector ?h) (set (owned (sectors d) h0))) = {}"
    "touches (set (owned st1 h')) (sectors d) st1" "(set (owned st1 h') - set (owned (sectors d) ?h)) \<inter> marked bm = {}"
    "lastVisitTime h' = lastVisitTime ?h" "modifyTime h' = modifyTime ?h"
    by (rule expand_file [OF m fo p(3) ns room])
  let ?s = "headerSector ?h"
  have sr: "0 \<le> ?s" "?s < NumSectors" using disk_map_sector [OF open_okD(2) [OF F(1)] F(4)] by auto
  let ?st2 = "st1(?s := header_bytes h')"
  note hw = header_sized_write [OF x(9) sr, of st1]
  have wf2: "store_wf ?st2" by (rule hw(2) [OF open_okD(3) [OF x(2)]])
  have t2: "touches {?s} st1 ?st2" by (simp add: touches_def)
  have "{?s} \<inter> set (owned st1 h') = {}" "{?s} \<inter> set (owned st1 h0) = {}" using x(5,13) F(7) by auto
  note c2 = content_other [OF x(2) t2 this(1) wf2] and c20 = content_other [OF x(3) t2 this(2) wf2]
  let ?d2 = "d1\<lparr>sectors := ?st2\<rparr>"
  have vl: "length (visitorCnt ?d2) = 1024" using M(5) o(6) by simp
  have pre: "open_ok (sectors ?d2) bm' h0" "0 \<notin> set (owned (sectors ?d2) h0)" "0 \<in> marked bm'"
    using c20(2,3) M(3,4) x(5,11) by auto
  obtain k f2 d2 d3 h1 where s: "WriteAt fuel env f1 ?d2 (map_bytes bm') (numWords bm' * sizeof_int) 0 = Inr (k, f2, d2)" "OpenFile_delete f2 d2 = Inr d3"
    "map_on d3 bm' h1" "owned (sectors d3) h1 = owned (sectors ?d2) h0" "touches (insert 0 (set (blocks (sectors ?d2) h0))) (sectors ?d2) (sectors d3)"
    "visitorCnt d3 = (visitorCnt ?d2)[0 := visitorCnt ?d2 ! 0 - 1]"
    by (rule map_save [OF pre(1) M(2,1) pre(2) o(5) env pre(3) vl])
  have wf3: "store_wf (sectors d3)" using s(3) by (simp add: map_on_def open_ok_def)
  have "insert 0 (set (blocks ?st2 h0)) \<inter> set (owned ?st2 h') = {}"
    using blocks_owned [of ?st2 h0] x(13) unfolding c2(3) c20(3) x(5) by blast
  then have c3: "content (sectors d3) h' = content st1 h'" "open_ok (sectors d3) bm' h'" "owned (sectors d3) h' = owned st1 h'"
    using content_other [OF c2(2) _ _ wf3] s(5) c2(1,3) by simp_all
  have vc: "visitorCnt d3 = visitorCnt d" using s(6) o(6) M(5) by simp
  let ?f = "f\<lparr>hdr := h'\<rparr>"
  have lt: "position < numBytes (hdr ?f)" and mn: "min n (numBytes (hdr ?f) - position) = n" using p x(8) by auto
  have okf: "open_ok (sectors d3) bm' (hdr ?f)" using c3(2) by simp
  from WriteAt_in_overlay [OF okf p(1) lt p(3,4), of env] obtain f' st' where
    w: "WriteAt_in env ?f (sectors d3) from n position = Inr (n, f', st')" and ok': "open_ok st' bm' (hdr f')" and
    t': "touches (set (blocks (sectors d3) h')) (sectors d3) st'" and bl: "blocks st' (hdr f') = blocks (sectors d3) h'" and
    c': "content st' (hdr f') = overlay (content (sectors d3) h') (nat position) (take (nat n) from)" and
    f': "f' = ?f\<lparr>hdr := (hdr ?f)\<lparr>lastVisitTime := now env, modifyTime := now env\<rparr>\<rparr>"
    unfolding mn by auto
  have h1o: "owned (sectors d3) h1 = owned (sectors d) h0" using s(4) c20(3) x(5) by simp
  have m3: "open_ok (sectors d3) bm' h1" "sectors d3 0 = header_bytes h1" using s(3) by (simp_all add: map_on_def FreeMapSector_def)
  have wf': "store_wf st'" by (rule open_okD(3) [OF ok'])
  have ap: "set (blocks (sectors d3) h') \<inter> insert 0 (set (owned (sectors d3) h1)) = {}"
    using blocks_owned [of "sectors d3" h'] x(13) unfolding c3(3) h1o by blast
  then have "set (blocks (sectors d3) h') \<inter> set (owned (sectors d3) h1) = {}" by blast
  note c1 = content_other [OF m3(1) t' this wf']
  have "st' 0 = sectors d3 0" using t' ap by (auto simp: touches_def)
  then have mo: "map_on (d3\<lparr>sectors := st'\<rparr>) bm' h1" using s(3) c1 by (simp add: map_on_def FreeMapSector_def)
  have oh: "owned st' (hdr f') = owned st1 h'"
    using touches_tables(2,3) [OF c3(2) t' wf'] c3(3) by (simp add: f' owned_def)
  have fo': "file_on (d3\<lparr>sectors := st'\<rparr>) bm' h1 (hdr f')"
    using ok' x(9,10,11,12,13) oh c1(3) h1o F(4,5,7) env by (auto simp: file_on_def f' header_sized_def FreeMapSector_def)
  have grow: "position + n > FileLength ?h" using p(5) by (simp add: FileLength_def)
  have R1: "WriteAt (Suc fuel) env f d from n position = Inr (n, f', d3\<lparr>sectors := st'\<rparr>)"
    using grow o(1-4) x(1,10) hw(1) s(1,2) w by simp
  have R2: "content st' (hdr f') = overlay (content (sectors d) ?h @ rest) (nat position) (take (nat n) from)"
    using c' c3(1) x(6) by simp
  have "touches (insert 0 (insert ?s (set (owned (sectors d) h0) \<union> set (owned st1 h')))) (sectors d) st'" (is "touches ?A _ _")
  proof -
    have "touches ?A (sectors d) st1" "touches ?A st1 ?st2" using x(14) t2 by (auto simp: touches_def)
    moreover have "insert 0 (set (blocks ?st2 h0)) \<subseteq> ?A" using blocks_owned [of ?st2 h0] unfolding c20(3) x(5) by blast
    then have "touches ?A ?st2 (sectors d3)" using s(5) unfolding touches_def by auto
    moreover have "set (blocks (sectors d3) h') \<subseteq> ?A" using blocks_owned [of "sectors d3" h'] unfolding c3(3) by blast
    then have "touches ?A (sectors d3) st'" using t' unfolding touches_def by blast
    ultimately show ?thesis using touches_trans by blast
  qed
  then have R3: "touches (grow_area d bm h0 ?h) (sectors d) st'" using x(15) unfolding touches_def grow_area_def FreeMapSector_def by blast
  have R4: "st' ?s = header_bytes h'"
  proof -
    have "?s \<notin> set (blocks (sectors d3) h')" using blocks_owned [of "sectors d3" h'] x(13) unfolding c3(3) by blast
    moreover have "?s \<notin> insert 0 (set (blocks ?st2 h0))" using blocks_owned [of ?st2 h0] F(5,7) unfolding c20(3) x(5) by blast
    ultimately show ?thesis using t' s(5) by (simp add: touches_def)
  qed
  have R5: "h' = (hdr f')\<lparr>lastVisitTime := lastVisitTime ?h, modifyTime := modifyTime ?h\<rparr>" using x(16,17) by (simp add: f')
  have R6: "numBytes (hdr f') = numBytes ?h + n" "headerSector (hdr f') = ?s" "seekPosition f' = seekPosition f"
    using x(8,10) by (simp_all add: f')
  have R7: "(set (owned st' (hdr f')) - set (owned (sectors d) ?h)) \<inter> marked bm = {}" using x(15) unfolding oh .
  define D where "D = d3\<lparr>sectors := st'\<rparr>"
  have d: "sectors D = st'" "visitorCnt D = visitorCnt d" using vc by (simp_all add: D_def)
  note R4' = R4 [unfolded R5]
  show ?thesis
    by (rule that [of f' D rest bm' h1, OF R1 [folded D_def] R6(1) R2 [folded d(1)] x(7) mo [folded D_def] fo' [folded D_def] d(2) R6(2,3)
        R4' [folded d(1)] R3 [folded d(1)] x(11) R7 [folded d(1)]])
qed

section \<open>Properties\<close>

text \<open>C5: a write behind the end of a file, when the tests of \<open>ExpandFileSize\<close> pass and the disk has the
  room, fetches the bitmap from its file, grows the file, puts bitmap and header back and writes the
  bytes. Old bytes that are not overwritten stay, the bitmap on the disk is the new one, and the two
  files stay apart. The file grows by the whole count \<open>n\<close>, not by what is missing: it ends
  \<open>numBytes - position\<close> bytes behind the last byte written. The header sector on the disk holds the grown header, with the
  times of before the write, which only closing the file brings up to date. The sectors the file gained were free, none that was in use is
  given up, and of the sectors in use only those of this file and of the bitmap's change; so every other file keeps its contents and stays in good order.\<close>

theorem WriteAt_grows:
  assumes "map_on d bm h0" "file_on d bm h0 (hdr f)" "length (now env) = 25"
    and "0 \<le> position" "position \<le> numBytes (hdr f)" "0 < n" "n \<le> int (length from)" "numBytes (hdr f) < position + n"
    and ns: "ns = nat (divRoundUp (numBytes (hdr f) + n) SectorSize)"
    and "expand_check (nat (numSectors (hdr f))) ns (card (bm.free bm))" "expand_need (nat (numSectors (hdr f))) ns \<le> card (bm.free bm)"
  shows "\<exists>f' d' bm' h1 rest. WriteAt (Suc fuel) env f d from n position = Inr (n, f', d')
    \<and> FileLength (hdr f') = FileLength (hdr f) + n \<and> length rest = nat n
    \<and> content (sectors d') (hdr f') = overlay (content (sectors d) (hdr f) @ rest) (nat position) (take (nat n) from)
    \<and> map_on d' bm' h1 \<and> file_on d' bm' h1 (hdr f') \<and> visitorCnt d' = visitorCnt d
    \<and> sectors d' (headerSector (hdr f)) = header_bytes ((hdr f')\<lparr>lastVisitTime := lastVisitTime (hdr f), modifyTime := modifyTime (hdr f)\<rparr>)
    \<and> marked bm \<subseteq> marked bm' \<and> (set (owned (sectors d') (hdr f')) - set (owned (sectors d) (hdr f))) \<inter> marked bm = {}
    \<and> touches (grow_area d bm h0 (hdr f)) (sectors d) (sectors d')
    \<and> (\<forall>g. open_ok (sectors d) bm g \<and> set (owned (sectors d) g) \<inter> insert FreeMapSector (insert (headerSector (hdr f)) (set (owned (sectors d) h0) \<union> set (owned (sectors d) (hdr f)))) = {}
         \<longrightarrow> content (sectors d') g = content (sectors d) g \<and> open_ok (sectors d') bm' g)"
proof -
  obtain f' d' bm' h1 rest where w: "WriteAt (Suc fuel) env f d from n position = Inr (n, f', d')" "numBytes (hdr f') = numBytes (hdr f) + n"
    "content (sectors d') (hdr f') = overlay (content (sectors d) (hdr f) @ rest) (nat position) (take (nat n) from)"
    "length rest = nat n" "map_on d' bm' h1" "file_on d' bm' h1 (hdr f')" "visitorCnt d' = visitorCnt d"
    "headerSector (hdr f') = headerSector (hdr f)" "seekPosition f' = seekPosition f"
    "sectors d' (headerSector (hdr f)) = header_bytes ((hdr f')\<lparr>lastVisitTime := lastVisitTime (hdr f), modifyTime := modifyTime (hdr f)\<rparr>)"
    "touches (grow_area d bm h0 (hdr f)) (sectors d) (sectors d')" "marked bm \<subseteq> marked bm'"
    "(set (owned (sectors d') (hdr f')) - set (owned (sectors d) (hdr f))) \<inter> marked bm = {}"
    by (rule WriteAt_grow [OF assms])
  have "disk_map bm'" "store_wf (sectors d')" using open_okD(2,3) [OF file_onD(1) [OF w(6)]] .
  note others = other_file_kept [OF w(11) _ this(1) w(12) this(2)]
  show ?thesis
    by (rule exI [of _ f'], rule exI [of _ d'], rule exI [of _ bm'], rule exI [of _ h1], rule exI [of _ rest])
       (use w others in \<open>simp add: FileLength_def del: WriteAt.simps\<close>)
qed

text \<open>A disk with the bitmap's file in sectors 0 and 3 and an empty file whose header is in sector 4.\<close>

definition grow_map :: bitmap where
  "grow_map = \<lparr>numBits = 1024, numWords = 32, bwords = 31 # replicate 31 0\<rparr>"

definition grow_map_header :: file_header where
  "grow_map_header = (sample_header 0)\<lparr>numBytes := 128, numSectors := 1, dataSectors := [3, 0, 0, 0, 0, 0, 0, 0, 0, 0]\<rparr>"

definition grow_header :: file_header where
  "grow_header = (sample_header 0)\<lparr>headerSector := 4\<rparr>"

definition grow_disk :: fs_disk where
  "grow_disk = \<lparr>sectors = zero_store(0 := header_bytes grow_map_header, 3 := map_bytes grow_map), visitorCnt = replicate 1024 0\<rparr>"

lemma grow_marked: "marked grow_map = {0..<5}"
proof -
  have m: "bit (31 :: 32 word) j \<longleftrightarrow> j < 5" for j
  proof -
    have "(31 :: 32 word) = mask 5" by (simp add: mask_eq_exp_minus_1)
    moreover have "bit (mask 5 :: 32 word) j \<longleftrightarrow> j < 5"
      unfolding semiring_bit_operations_class.bit_mask_iff by auto
    ultimately show ?thesis by (simp only:)
  qed
  have e: "bit (bwords grow_map ! nat (i div 32)) (nat (i mod 32)) \<longleftrightarrow> i < 5" if i: "0 \<le> i" "i < 1024" for i :: int
  proof (cases "i < 32")
    case True
    then have "i div 32 = 0" "i mod 32 = i" using i by simp_all
    moreover have "bwords grow_map ! nat 0 = 31" by (simp add: grow_map_def)
    moreover have "nat i < 5 \<longleftrightarrow> i < 5" using i by auto
    ultimately show ?thesis by (simp only: m)
  next
    case False
    then have d: "1 \<le> i div 32" "i div 32 < 32" using i by presburger+
    define k where "k = nat (i div 32 - 1)"
    have k: "nat (i div 32) = Suc k" "k < 31" unfolding k_def using d by linarith+
    then show ?thesis using False by (simp add: grow_map_def)
  qed
  have nb: "numBits grow_map = 1024" by (simp add: grow_map_def)
  show ?thesis
  proof (rule set_eqI)
    fix i :: int
    show "i \<in> marked grow_map \<longleftrightarrow> i \<in> {0..<5}"
    proof (cases "0 \<le> i \<and> i < 1024")
      case True
      then show ?thesis unfolding marked_def nb mem_Collect_eq e [OF conjunct1 [OF True] conjunct2 [OF True]] by simp
    next
      case False
      then show ?thesis unfolding marked_def nb mem_Collect_eq by auto
    qed
  qed
qed

lemma grow_map_ok: "disk_map grow_map" "card (bm.free grow_map) = 1019"
proof -
  show d: "disk_map grow_map" by (simp add: grow_map_def disk_map_def bm_wf_def disk_consts divRoundUp_def BitsInWord_def)
  then have "bm.free grow_map = {5..<1024}" using disk_map_shape [OF d] by (auto simp: bm.free_def grow_marked)
  then show "card (bm.free grow_map) = 1019" by simp
qed

lemma grow_header_ok: "header_ok grow_map_header"
  by (simp add: header_ok_def grow_map_header_def sample_header_def in_int32_def ExtensionLength_def TimeStringLength_def hdr_consts)

lemma grow_owned: "owned st grow_map_header = [3]" "blocks st grow_map_header = [3]" "owned st grow_header = []" "blocks st grow_header = []"
  by (simp_all add: owned_def blocks_def tables_def blocks_of_def tables_of_def block_at_def grow_map_header_def grow_header_def)

lemma grow_store_wf: "store_wf (sectors grow_disk)"
  using length_header_bytes [OF grow_header_ok] disk_map_shape [OF grow_map_ok(1)]
  by (auto simp: store_wf_def grow_disk_def SectorSize_def zero_store_def)

lemma grow_map_on: "map_on grow_disk grow_map grow_map_header"
proof -
  have "content (sectors grow_disk) grow_map_header = map_bytes grow_map"
    using disk_map_shape [OF grow_map_ok(1)] by (simp add: content_def grow_owned) (simp add: grow_disk_def grow_map_header_def)
  moreover have "open_ok (sectors grow_disk) grow_map grow_map_header"
    using grow_map_ok(1) grow_store_wf
    by (simp add: open_ok_def file_ok_def grow_owned grow_marked length_ok_def hdr_consts SectorSize_def) (simp add: grow_map_header_def)
  ultimately show ?thesis using grow_header_ok
    by (simp add: map_on_def FreeMapSector_def grow_owned grow_marked) (simp add: grow_disk_def grow_map_header_def)
qed

lemma grow_file_on: "file_on grow_disk grow_map grow_map_header grow_header"
proof -
  have "open_ok (sectors grow_disk) grow_map grow_header"
    using grow_map_ok(1) grow_store_wf
    by (simp add: open_ok_def file_ok_def grow_owned grow_marked length_ok_def hdr_consts SectorSize_def) (simp add: grow_header_def)
  then show ?thesis
    by (simp add: file_on_def FreeMapSector_def grow_owned grow_marked) (simp add: grow_header_def sample_header_def header_sized_def divRoundUp_def SectorSize_def)
qed

lemma WriteAt_grows_witness:
  "\<exists>f' d' rest. WriteAt 1 sample_env \<lparr>hdr = grow_header, seekPosition = 0\<rparr> grow_disk [1, 2, 3] 3 0 = Inr (3, f', d')
    \<and> FileLength (hdr f') = 3 \<and> content (sectors d') (hdr f') = overlay rest 0 [1, 2, 3]"
proof -
  have h: "numBytes grow_header = 0" "numSectors grow_header = 0" "content (sectors grow_disk) grow_header = []"
    by (simp_all add: grow_header_def content_def)
  have c: "expand_check 0 1 1019" "expand_need 0 1 \<le> 1019" by (simp_all add: expand_check_def expand_need_def index_sectors_def)
  show ?thesis
    using WriteAt_grows [of grow_disk grow_map grow_map_header "\<lparr>hdr = grow_header, seekPosition = 0\<rparr>" sample_env 0 3 "[1, 2, 3]" 1 0]
      grow_map_on grow_file_on grow_map_ok(2) h c
    by (simp add: sample_env_def divRoundUp_def SectorSize_def FileLength_def) blast
qed

end
