(* ===== verification/FsInv.thy ===== *)
theory FsInv
  imports FileSys FileGrow
begin

text \<open>
  The file system in good order: every file has its sectors to itself, the bitmap on the disk marks
  them, and the two files that stay open agree with their headers on the disk. \<open>Create\<close>, \<open>Open\<close> and
  \<open>Remove\<close> of files in the root directory keep this order and act on the directory as on a finite map.
\<close>

section \<open>Headers that name the same sectors\<close>

definition used_entry :: "int \<Rightarrow> nat \<Rightarrow> bool" where
  "used_entry n k \<longleftrightarrow> (k < 8 \<and> int k < n) \<or> (k = 8 \<and> 8 < n) \<or> (k = 9 \<and> 40 < n)"

definition same_file :: "file_header \<Rightarrow> file_header \<Rightarrow> bool" where
  "same_file h h' \<longleftrightarrow> numBytes h' = numBytes h \<and> numSectors h' = numSectors h
     \<and> length (dataSectors h) = 10 \<and> length (dataSectors h') = 10
     \<and> (\<forall>k. used_entry (numSectors h) k \<longrightarrow> dataSectors h' ! k = dataSectors h ! k)"

lemma same_file_refl: "length (dataSectors h) = 10 \<Longrightarrow> same_file h h"
  by (simp add: same_file_def)

lemma same_file_sym: "same_file h h' \<Longrightarrow> same_file h' h"
  by (simp add: same_file_def)

lemma same_file_trans: "same_file h h' \<Longrightarrow> same_file h' h'' \<Longrightarrow> same_file h h''"
  by (simp add: same_file_def)

lemma same_block_at:
  assumes "\<And>k. used_entry (int n) k \<Longrightarrow> ds' ! k = ds ! k" "k < n"
  shows "block_at st ds' k = block_at st ds k"
proof -
  consider "k < 8" | "8 \<le> k" "k < 40" | "40 \<le> k" by linarith
  then show ?thesis
  proof cases
    case 1
    then show ?thesis using assms(1) [of k] assms(2) by (simp add: block_at_def used_entry_def)
  next
    case 2
    then show ?thesis using assms(1) [of 8] assms(2) by (simp add: block_at_def used_entry_def)
  next
    case 3
    then show ?thesis using assms(1) [of 9] assms(2) by (simp add: block_at_def used_entry_def)
  qed
qed

lemma same_file_sectors:
  assumes s: "same_file h h'"
  shows "blocks st h' = blocks st h" "tables st h' = tables st h" "owned st h' = owned st h" "content st h' = content st h"
    "open_ok st bm h' = open_ok st bm h" "numBytes h' = numBytes h" "numSectors h' = numSectors h"
proof -
  have n: "numBytes h' = numBytes h" "numSectors h' = numSectors h" "length (dataSectors h) = 10" "length (dataSectors h') = 10"
    using s by (simp_all add: same_file_def)
  have e: "used_entry (int (nat (numSectors h))) k \<Longrightarrow> dataSectors h' ! k = dataSectors h ! k" for k
    using s by (cases "0 \<le> numSectors h") (auto simp: same_file_def used_entry_def)
  show b: "blocks st h' = blocks st h"
    using same_block_at [OF e, of "nat (numSectors h)"] by (simp add: blocks_def blocks_of_def n)
  show t: "tables st h' = tables st h"
  proof -
    have "8 < nat (numSectors h) \<Longrightarrow> dataSectors h' ! 8 = dataSectors h ! 8" "40 < nat (numSectors h) \<Longrightarrow> dataSectors h' ! 9 = dataSectors h ! 9"
      using e [of 8] e [of 9] unfolding used_entry_def by linarith+
    then show ?thesis by (auto simp: tables_def tables_of_def n(2))
  qed
  then show "owned st h' = owned st h" "content st h' = content st h" using b by (simp_all add: owned_def content_def n)
  then show "open_ok st bm h' = open_ok st bm h" by (simp add: open_ok_def file_ok_def length_ok_def n)
  show "numBytes h' = numBytes h" "numSectors h' = numSectors h" by (fact n)+
qed

lemma same_file_times [simp]:
  "same_file h (h'\<lparr>lastVisitTime := x\<rparr>) = same_file h h'" "same_file h (h'\<lparr>modifyTime := x\<rparr>) = same_file h h'"
  "same_file h (h'\<lparr>headerSector := s\<rparr>) = same_file h h'"
  by (simp_all add: same_file_def)

lemma visited_same: "visited f f' \<Longrightarrow> same_file h (hdr f') = same_file h (hdr f)"
  by (auto simp: visited_def)

section \<open>The header in a sector\<close>

definition hdr_at :: "store \<Rightarrow> int \<Rightarrow> file_header" where
  "hdr_at st s = (projr (HdrFetchFrom (sample_header 0) st s))\<lparr>headerSector := s\<rparr>"

lemma hdr_at_fetch:
  assumes "0 \<le> s" "s < NumSectors"
  shows "HdrFetchFrom h0 st s = Inr ((hdr_at st s)\<lparr>headerSector := headerSector h0\<rparr>)"
  using assms by (simp add: hdr_at_def HdrFetchFrom_def ReadSector_def)

lemma hdr_at_other: "st' s = st s \<Longrightarrow> hdr_at st' s = hdr_at st s"
  by (simp add: hdr_at_def HdrFetchFrom_def ReadSector_def ASSERT_def)

lemma hdr_at_sector [simp]: "headerSector (hdr_at st s) = s"
  by (simp add: hdr_at_def)

lemma hdr_at_self [simp]: "(hdr_at st s)\<lparr>headerSector := x, headerSector := s\<rparr> = hdr_at st s" "(hdr_at st s)\<lparr>headerSector := s\<rparr> = hdr_at st s"
  by (simp_all add: hdr_at_def)

lemma hdr_at_sized:
  assumes "store_wf st" "0 \<le> s" "s < NumSectors" shows "header_sized (hdr_at st s)"
proof -
  have "length (st s) = 128" using assms by (simp add: store_wf_def SectorSize_def)
  then show ?thesis using assms(2,3) by (simp add: hdr_at_def HdrFetchFrom_def ReadSector_def header_sized_def hdr_consts)
qed

lemma used_entry_owned:
  assumes "used_entry (numSectors h) k" shows "dataSectors h ! k \<in> set (owned st h)"
proof -
  consider "k < 8" "int k < numSectors h" | "k = 8" "8 < numSectors h" | "k = 9" "40 < numSectors h"
    using assms by (auto simp: used_entry_def)
  then show ?thesis
  proof cases
    case 1
    then have "block_at st (dataSectors h) k \<in> set (blocks st h)" by (auto simp: blocks_def blocks_of_def)
    then show ?thesis using 1 by (simp add: owned_def block_at_def)
  qed (auto simp: owned_def tables_def tables_of_def)
qed

lemma marked_sector: "disk_map bm \<Longrightarrow> s \<in> marked bm \<Longrightarrow> 0 \<le> s \<and> s < NumSectors"
  using marked_range [of bm] by (auto simp: disk_map_def)

lemma map_s32: "\<forall>x \<in> set xs. in_int32 (s32 x)"
  by (simp add: s32_in_range)

lemma un_ints_ints: "un_ints (length xs) (ints_bytes xs @ r) = map s32 xs"
proof (induction xs)
  case (Cons x xs)
  then show ?case by (simp add: ints_bytes_def un_le32_le32)
qed simp

lemma hdr_at_write:
  assumes h: "header_sized h" and s: "0 \<le> s" "s < NumSectors" and ok: "open_ok st bm h" and n: "in_int32 (numBytes h)"
  shows "same_file h (hdr_at (st(s := header_bytes h)) s)" "fileExtension (hdr_at (st(s := header_bytes h)) s) = fileExtension h"
proof -
  let ?h = "hdr_at (st(s := header_bytes h)) s"
  have l: "length (fileExtension h) = 5" "length (createTime h) = 25" "length (modifyTime h) = 25"
      "length (lastVisitTime h) = 25" "length (dataSectors h) = 10" using h by (simp_all add: header_sized_def)
  have F: "file_ok st bm h" "disk_map bm" using open_okD [OF ok] by simp_all
  have ns: "0 \<le> numSectors h" "numSectors h \<le> 1064" using F(1) by (simp_all add: file_ok_def hdr_consts)
  then have ns32: "s32 (numSectors h) = numSectors h" by (intro s32_id) (simp add: in_int32_def)
  have d: "un_ints 10 (ints_bytes (dataSectors h)) = map s32 (dataSectors h)"
    using un_ints_ints [of "dataSectors h" "[]"] l(5) by simp
  have f: "numBytes ?h = numBytes h" "numSectors ?h = numSectors h" "fileExtension ?h = fileExtension h" "dataSectors ?h = map s32 (dataSectors h)"
    using s l n ns32 by (simp_all add: hdr_at_def HdrFetchFrom_def ReadSector_def header_bytes_def hdr_consts un_le32_le32 s32_id d)
  have "s32 (dataSectors h ! k) = dataSectors h ! k" if "used_entry (numSectors h) k" for k
  proof -
    have "dataSectors h ! k \<in> marked bm" using used_entry_owned [OF that, of st] F(1) by (auto simp: file_ok_def)
    then have "0 \<le> dataSectors h ! k \<and> dataSectors h ! k < NumSectors" by (rule marked_sector [OF F(2)])
    then show ?thesis by (intro s32_id) (simp add: in_int32_def disk_consts)
  qed
  moreover have "used_entry (numSectors h) k \<Longrightarrow> k < 10" for k by (auto simp: used_entry_def)
  ultimately show "same_file h ?h" using f l(5) by (simp add: same_file_def)
  show "fileExtension ?h = fileExtension h" by (fact f(3))
qed

lemma open_ok_int32:
  assumes "open_ok st bm h" shows "in_int32 (numBytes h)"
proof -
  have "numSectors h \<le> 1064" using open_okD(1) [OF assms] by (simp add: file_ok_def hdr_consts)
  then show ?thesis using open_okD(4,5) [OF assms] by (simp add: in_int32_def)
qed

section \<open>The files on a disk\<close>

definition area :: "store \<Rightarrow> int \<Rightarrow> int list" where
  "area st s = s # owned st (hdr_at st s)"

definition disk_files :: "store \<Rightarrow> bitmap \<Rightarrow> int list \<Rightarrow> bool" where
  "disk_files st bm ss \<longleftrightarrow> disk_map bm \<and> store_wf st \<and> (\<forall>s \<in> set ss. open_ok st bm (hdr_at st s))
     \<and> distinct (concat (map (area st) ss)) \<and> set (concat (map (area st) ss)) \<subseteq> marked bm"

lemma disk_filesD:
  assumes "disk_files st bm ss"
  shows "disk_map bm" "store_wf st" "\<And>s. s \<in> set ss \<Longrightarrow> open_ok st bm (hdr_at st s)"
    "distinct (concat (map (area st) ss))" "\<And>s. s \<in> set ss \<Longrightarrow> set (area st s) \<subseteq> marked bm"
    "\<And>s. s \<in> set ss \<Longrightarrow> 0 \<le> s \<and> s < NumSectors" "\<And>s. s \<in> set ss \<Longrightarrow> s \<in> marked bm"
proof -
  show A: "disk_map bm" "store_wf st" "\<And>s. s \<in> set ss \<Longrightarrow> open_ok st bm (hdr_at st s)"
    "distinct (concat (map (area st) ss))" "\<And>s. s \<in> set ss \<Longrightarrow> set (area st s) \<subseteq> marked bm"
    using assms by (auto simp: disk_files_def)
  show B: "\<And>s. s \<in> set ss \<Longrightarrow> s \<in> marked bm" using A(5) by (auto simp: area_def)
  show "\<And>s. s \<in> set ss \<Longrightarrow> 0 \<le> s \<and> s < NumSectors" using B marked_sector [OF A(1)] by blast
qed

lemma distinct_concat_disjoint:
  assumes "distinct (concat (map f xs))" "x \<in> set xs" "y \<in> set xs" "x \<noteq> y"
  shows "set (f x) \<inter> set (f y) = {}"
  using assms by (induction xs) auto

lemma distinct_concat_member: "distinct (concat (map f xs)) \<Longrightarrow> x \<in> set xs \<Longrightarrow> distinct (f x)"
  by (induction xs) auto

lemma area_disjoint:
  assumes "disk_files st bm ss" "x \<in> set ss" "y \<in> set ss" "x \<noteq> y" shows "set (area st x) \<inter> set (area st y) = {}"
  using distinct_concat_disjoint [OF disk_filesD(4) [OF assms(1)] assms(2-4)] .

lemma area_distinct:
  assumes "disk_files st bm ss" "x \<in> set ss"
  shows "x \<notin> set (owned st (hdr_at st x))" "distinct (area st x)"
  using distinct_concat_member [OF disk_filesD(4) [OF assms(1)] assms(2)] by (simp_all add: area_def)

text \<open>Files whose contents outside \<open>X\<close> stay, whose headers name the same sectors and keep their kind.\<close>

definition kept_files :: "int set \<Rightarrow> store \<Rightarrow> store \<Rightarrow> int list \<Rightarrow> bool" where
  "kept_files X st st' ss \<longleftrightarrow> (\<forall>x \<in> set ss. area st' x = area st x \<and> same_file (hdr_at st x) (hdr_at st' x)
     \<and> fileExtension (hdr_at st' x) = fileExtension (hdr_at st x)
     \<and> (x \<notin> X \<longrightarrow> content st' (hdr_at st' x) = content st (hdr_at st x)))"

lemma kept_trans: "kept_files X st st1 ss \<Longrightarrow> kept_files Y st1 st2 ss \<Longrightarrow> kept_files (X \<union> Y) st st2 ss"
  unfolding kept_files_def by (metis UnCI same_file_trans)

lemma keptD:
  assumes "kept_files X st st' ss" "x \<in> set ss"
  shows "area st' x = area st x" "same_file (hdr_at st x) (hdr_at st' x)" "fileExtension (hdr_at st' x) = fileExtension (hdr_at st x)"
    "x \<notin> X \<Longrightarrow> content st' (hdr_at st' x) = content st (hdr_at st x)"
  using assms by (simp_all add: kept_files_def)

lemma kept_disk_files:
  assumes "disk_files st bm ss" "kept_files X st st' ss" "store_wf st'" "\<And>x. x \<in> set ss \<Longrightarrow> open_ok st' bm (hdr_at st' x)"
  shows "disk_files st' bm ss"
proof -
  have "map (area st') ss = map (area st) ss" using assms(2) by (simp add: kept_files_def)
  then have "concat (map (area st') ss) = concat (map (area st) ss)" by (rule arg_cong)
  then show ?thesis using assms(1,3,4) unfolding disk_files_def by metis
qed

lemma file_length10: "open_ok st bm h \<Longrightarrow> length (dataSectors h) = 10"
  by (simp add: open_ok_def file_ok_def hdr_consts)

text \<open>A file none of whose sectors is written.\<close>

lemma untouched_file:
  assumes ok: "open_ok st bm (hdr_at st x)" and t: "touches A st st'" and d: "A \<inter> set (area st x) = {}" and wf: "store_wf st'"
  shows "hdr_at st' x = hdr_at st x" "area st' x = area st x" "content st' (hdr_at st' x) = content st (hdr_at st x)"
    "open_ok st' bm (hdr_at st' x)"
proof -
  have "x \<notin> A" "A \<inter> set (owned st (hdr_at st x)) = {}" using d by (auto simp: area_def)
  then have "st' x = st x" using t by (auto simp: touches_def)
  then show e: "hdr_at st' x = hdr_at st x" by (rule hdr_at_other)
  note c = content_other [OF ok t \<open>A \<inter> set (owned st (hdr_at st x)) = {}\<close> wf]
  show "area st' x = area st x" "content st' (hdr_at st' x) = content st (hdr_at st x)" "open_ok st' bm (hdr_at st' x)"
    using c by (simp_all add: e area_def)
qed

lemma untouched_kept:
  assumes D: "disk_files st bm ss" and t: "touches A st st'" and d: "A \<inter> set (concat (map (area st) ss)) = {}" and wf: "store_wf st'"
  shows "kept_files {} st st' ss" "disk_files st' bm ss"
proof -
  have u: "hdr_at st' x = hdr_at st x" "area st' x = area st x" "content st' (hdr_at st' x) = content st (hdr_at st x)"
    "open_ok st' bm (hdr_at st' x)" if "x \<in> set ss" for x
    by (rule untouched_file [OF disk_filesD(3) [OF D that] t _ wf]; use d that in auto)+
  show k: "kept_files {} st st' ss"
    using u file_length10 [OF disk_filesD(3) [OF D]] by (auto simp: kept_files_def intro!: same_file_refl)
  show "disk_files st' bm ss" by (rule kept_disk_files [OF D k wf u(4)])
qed

text \<open>Writing data sectors of one file.\<close>

lemma data_kept:
  assumes D: "disk_files st bm ss" and s: "s \<in> set ss" and t: "touches (set (blocks st (hdr_at st s))) st st'" and wf: "store_wf st'"
  shows "kept_files {s} st st' ss" "disk_files st' bm ss"
proof -
  have sub: "set (blocks st (hdr_at st s)) \<subseteq> set (area st s)" by (auto simp: area_def owned_def)
  have u: "hdr_at st' x = hdr_at st x \<and> area st' x = area st x \<and> content st' (hdr_at st' x) = content st (hdr_at st x) \<and> open_ok st' bm (hdr_at st' x)"
    if "x \<in> set ss" "x \<noteq> s" for x
    using untouched_file [OF disk_filesD(3) [OF D that(1)] t _ wf] area_disjoint [OF D that(1) s that(2)] sub by blast
  have "s \<notin> set (blocks st (hdr_at st s))" using area_distinct(1) [OF D s] by (simp add: owned_def)
  then have hs: "hdr_at st' s = hdr_at st s" using t by (intro hdr_at_other) (simp add: touches_def)
  note T = touches_tables [OF disk_filesD(3) [OF D s] t wf]
  have os: "open_ok st' bm (hdr_at st' s)" "area st' s = area st s" using T by (simp_all add: hs area_def owned_def)
  show k: "kept_files {s} st st' ss"
    unfolding kept_files_def
  proof
    fix x assume x: "x \<in> set ss"
    have "same_file (hdr_at st x) (hdr_at st x)" by (rule same_file_refl [OF file_length10 [OF disk_filesD(3) [OF D x]]])
    then show "area st' x = area st x \<and> same_file (hdr_at st x) (hdr_at st' x) \<and> fileExtension (hdr_at st' x) = fileExtension (hdr_at st x)
        \<and> (x \<notin> {s} \<longrightarrow> content st' (hdr_at st' x) = content st (hdr_at st x))"
      using u [OF x] hs os by (cases "x = s") auto
  qed
  show "disk_files st' bm ss" by (rule kept_disk_files [OF D k wf]) (use u os in blast)
qed

text \<open>Writing the header of one file back.\<close>

lemma header_kept:
  assumes D: "disk_files st bm ss" and s: "s \<in> set ss" and h: "header_sized h" "same_file (hdr_at st s) h"
    "fileExtension h = fileExtension (hdr_at st s)"
  shows "kept_files {} st (st(s := header_bytes h)) ss" "disk_files (st(s := header_bytes h)) bm ss"
proof -
  let ?st = "st(s := header_bytes h)"
  have r: "0 \<le> s" "s < NumSectors" using disk_filesD(6) [OF D s] by simp_all
  have wf: "store_wf ?st" by (rule header_sized_write(2) [OF h(1) r disk_filesD(2) [OF D]])
  have t: "touches {s} st ?st" by (simp add: touches_def)
  have oks: "open_ok st bm (hdr_at st s)" by (rule disk_filesD(3) [OF D s])
  have okh: "open_ok st bm h" using oks same_file_sectors(5) [OF h(2)] by simp
  have n: "in_int32 (numBytes h)" by (rule open_ok_int32 [OF okh])
  note W = hdr_at_write [OF h(1) r okh n]
  have nin: "s \<notin> set (owned st (hdr_at st s))" by (rule area_distinct(1) [OF D s])
  have sf: "same_file (hdr_at st s) (hdr_at ?st s)" by (rule same_file_trans [OF h(2) W(1)])
  have "{s} \<inter> set (owned st (hdr_at st s)) = {}" using nin by simp
  note C = content_other [OF oks t this wf]
  have own: "area ?st s = area st s" "content ?st (hdr_at ?st s) = content st (hdr_at st s)" "open_ok ?st bm (hdr_at ?st s)"
    using C same_file_sectors [OF sf] by (simp_all add: area_def del: fun_upd_apply)
  have u: "hdr_at ?st x = hdr_at st x \<and> area ?st x = area st x \<and> content ?st (hdr_at ?st x) = content st (hdr_at st x) \<and> open_ok ?st bm (hdr_at ?st x)"
    if x: "x \<in> set ss" "x \<noteq> s" for x
  proof -
    have "{s} \<inter> set (area st x) = {}" using area_disjoint [OF D x(1) s x(2)] by (auto simp: area_def)
    from untouched_file [OF disk_filesD(3) [OF D x(1)] t this wf] show ?thesis by blast
  qed
  show k: "kept_files {} st ?st ss"
    unfolding kept_files_def
  proof
    fix x assume x: "x \<in> set ss"
    have "same_file (hdr_at st x) (hdr_at st x)" by (rule same_file_refl [OF file_length10 [OF disk_filesD(3) [OF D x]]])
    then show "area ?st x = area st x \<and> same_file (hdr_at st x) (hdr_at ?st x) \<and> fileExtension (hdr_at ?st x) = fileExtension (hdr_at st x)
        \<and> (x \<notin> {} \<longrightarrow> content ?st (hdr_at ?st x) = content st (hdr_at st x))"
      using u [OF x] own sf W(2) h(3) by metis
  qed
  show "disk_files ?st bm ss" by (rule kept_disk_files [OF D k wf]) (use u own in blast)
qed

lemma more_marked:
  assumes "disk_files st bm ss" "disk_map bm'" "marked bm \<subseteq> marked bm'" shows "disk_files st bm' ss"
  using assms by (auto simp: disk_files_def open_ok_def file_ok_def)

section \<open>Opening, writing and closing\<close>

definition visits :: "fs_disk \<Rightarrow> int \<Rightarrow> int \<Rightarrow> fs_disk" where
  "visits d s k = d\<lparr>visitorCnt := (visitorCnt d)[nat s := visitorCnt d ! nat s + k]\<rparr>"

lemma visits_simps [simp]:
  "sectors (visits d s k) = sectors d" "length (visitorCnt (visits d s k)) = length (visitorCnt d)"
  "visits (d\<lparr>sectors := st\<rparr>) s k = (visits d s k)\<lparr>sectors := st\<rparr>"
  by (simp_all add: visits_def)

lemma visits_back: "0 \<le> s \<Longrightarrow> s < int (length (visitorCnt d)) \<Longrightarrow> visits (visits d s 1) s (-1) = d"
  by (simp add: visits_def)

lemma open_at:
  assumes "0 \<le> s" "s < NumSectors" "length (visitorCnt d) = 1024"
  shows "OpenFile_new env d s = Inr (\<lparr>hdr = hdr_at (sectors d) s, seekPosition = 0\<rparr>, visits d s 1)"
proof -
  have "count_visitor d s 1 = Inr (visits d s 1)" using assms by (simp add: visits_def count_visitor_ok disk_consts)
  then show ?thesis by (simp add: OpenFile_new_def hdr_at_fetch [OF assms(1,2)])
qed

lemma close_at:
  assumes D: "disk_files (sectors d) bm ss" and s: "s \<in> set ss" and f: "headerSector (hdr f) = s" "header_sized (hdr f)"
      "same_file (hdr_at (sectors d) s) (hdr f)" "fileExtension (hdr f) = fileExtension (hdr_at (sectors d) s)"
    and v: "length (visitorCnt d) = 1024"
  obtains st' where "OpenFile_delete f d = Inr (visits (d\<lparr>sectors := st'\<rparr>) s (-1))" "kept_files {} (sectors d) st' ss"
    "disk_files st' bm ss"
proof -
  have r: "0 \<le> s" "s < NumSectors" using disk_filesD(6) [OF D s] by simp_all
  let ?st = "(sectors d)(s := header_bytes (hdr f))"
  have "OpenFile_delete f d = Inr (visits (d\<lparr>sectors := ?st\<rparr>) s (-1))"
    using header_sized_write(1) [OF f(2) r] r v unfolding OpenFile_delete_def f(1)
    by (simp add: count_visitor_ok disk_consts visits_def)
  with header_kept [OF D s f(2-4)] show ?thesis by (intro that)
qed

lemma write_whole:
  assumes D: "disk_files (sectors d) bm ss" and s: "s \<in> set ss" and f: "same_file (hdr_at (sectors d) s) (hdr f)"
    and bs: "0 < length bs" "int (length bs) = numBytes (hdr_at (sectors d) s)"
  obtains f' st' where "WriteAt fuel env f d bs (int (length bs)) 0 = Inr (int (length bs), f', d\<lparr>sectors := st'\<rparr>)"
    "f' = f\<lparr>hdr := (hdr f)\<lparr>lastVisitTime := now env, modifyTime := now env\<rparr>\<rparr>"
    "disk_files st' bm ss" "kept_files {s} (sectors d) st' ss" "content st' (hdr_at st' s) = bs" "hdr_at st' s = hdr_at (sectors d) s"
proof -
  let ?st = "sectors d" and ?n = "int (length bs)"
  have oks: "open_ok ?st bm (hdr_at ?st s)" by (rule disk_filesD(3) [OF D s])
  note sf = same_file_sectors [OF f]
  have okf: "open_ok ?st bm (hdr f)" using oks sf(5) by simp
  have r: "0 + ?n \<le> numBytes (hdr f)" using bs(2) sf(6) by simp
  have n: "0 < ?n" using bs(1) by simp
  obtain f' st' where w: "WriteAt fuel env f d bs ?n 0 = Inr (?n, f', d\<lparr>sectors := st'\<rparr>)" and ok': "open_ok st' bm (hdr f')"
    and t: "touches (set (blocks ?st (hdr f))) ?st st'"
    and c: "content st' (hdr f') = overlay (content ?st (hdr f)) (nat 0) (take (nat ?n) bs)"
    and f': "f' = f\<lparr>hdr := (hdr f)\<lparr>lastVisitTime := now env, modifyTime := now env\<rparr>\<rparr>"
    by (rule WriteAt_in_file [OF okf order_refl n order_refl r, of fuel env])
  have t': "touches (set (blocks ?st (hdr_at ?st s))) ?st st'" using t sf(1) by simp
  have wf: "store_wf st'" by (rule open_okD(3) [OF ok'])
  have "s \<notin> set (blocks ?st (hdr_at ?st s))" using area_distinct(1) [OF D s] by (simp add: owned_def)
  then have h: "hdr_at st' s = hdr_at ?st s" using t' by (intro hdr_at_other) (simp add: touches_def)
  have l: "length (content ?st (hdr f)) = length bs" using length_content [OF okf] sf(6) bs(2) by simp
  have "content st' (hdr_at st' s) = content st' (hdr f')" using same_file_sectors(4) [OF f, of st'] by (simp add: h f')
  then have "content st' (hdr_at st' s) = bs" using c l by (simp add: overlay_all)
  with w f' h data_kept [OF D s t' wf] show ?thesis by (intro that)
qed

section \<open>The file system in good order\<close>

definition file_list :: "directory \<Rightarrow> int list" where
  "file_list t = map sector (filter inUse t)"

abbreviation all_files :: "directory \<Rightarrow> int list" where
  "all_files t \<equiv> [0, 1, 2] @ file_list t"

text \<open>The files that are open agree with the disk: the bitmap's and the root directory's.\<close>

definition map_stored :: "store \<Rightarrow> bitmap \<Rightarrow> open_file \<Rightarrow> bool" where
  "map_stored st bm f \<longleftrightarrow> same_file (hdr_at st 0) (hdr f) \<and> numBytes (hdr_at st 0) = 128 \<and> content st (hdr_at st 0) = map_bytes bm"

definition dir_stored :: "store \<Rightarrow> directory \<Rightarrow> open_file \<Rightarrow> bool" where
  "dir_stored st t f \<longleftrightarrow> same_file (hdr_at st 1) (hdr f) \<and> numBytes (hdr_at st 1) = 960 \<and> content st (hdr_at st 1) = dir_bytes t
     \<and> dir_ok t \<and> dir_storable t \<and> length t = 10"

definition fs_ok :: "file_system \<Rightarrow> bitmap \<Rightarrow> directory \<Rightarrow> bool" where
  "fs_ok fs bm t \<longleftrightarrow> disk_files (sectors (fdisk fs)) bm (all_files t) \<and> length (visitorCnt (fdisk fs)) = 1024
     \<and> map_stored (sectors (fdisk fs)) bm (freeMapFile fs) \<and> dir_stored (sectors (fdisk fs)) t (directoryFile fs)"

lemma fs_okD:
  assumes "fs_ok fs bm t"
  shows "disk_files (sectors (fdisk fs)) bm (all_files t)" "length (visitorCnt (fdisk fs)) = 1024"
    "map_stored (sectors (fdisk fs)) bm (freeMapFile fs)" "dir_stored (sectors (fdisk fs)) t (directoryFile fs)"
  using assms by (simp_all add: fs_ok_def)

definition env_ok :: "fs_env \<Rightarrow> bool" where
  "env_ok env \<longleftrightarrow> header_sized (header_junk env) \<and> length (now env) = 25"

lemma map_stored_visited: "visited f f' \<Longrightarrow> map_stored st bm f' = map_stored st bm f"
  by (simp add: map_stored_def visited_same)

lemma dir_stored_visited: "visited f f' \<Longrightarrow> dir_stored st t f' = dir_stored st t f"
  by (simp add: dir_stored_def visited_same)

lemma stored_kept:
  assumes k: "kept_files X st st' ss" and s: "0 \<in> set ss" "1 \<in> set ss"
  shows "0 \<notin> X \<Longrightarrow> map_stored st bm f \<Longrightarrow> map_stored st' bm f" "1 \<notin> X \<Longrightarrow> dir_stored st t f \<Longrightarrow> dir_stored st' t f"
proof -
  note K0 = keptD [OF k s(1)] and K1 = keptD [OF k s(2)]
  show "0 \<notin> X \<Longrightarrow> map_stored st bm f \<Longrightarrow> map_stored st' bm f"
    using K0 same_file_sectors(6) [OF K0(2)] same_file_trans [OF same_file_sym [OF K0(2)]] by (auto simp: map_stored_def)
  show "1 \<notin> X \<Longrightarrow> dir_stored st t f \<Longrightarrow> dir_stored st' t f"
    using K1 same_file_sectors(6) [OF K1(2)] same_file_trans [OF same_file_sym [OF K1(2)]] by (auto simp: dir_stored_def)
qed

lemma fetch_map:
  assumes D: "disk_files st bm ss" "0 \<in> set ss" and m: "map_stored st bm f"
  obtains bm0 f' where "BitMap junk NumSectors = Inr bm0" "map_FetchFrom env bm0 f st = Inr (bm, f')" "visited f f'"
proof -
  obtain bm0 where b: "BitMap junk NumSectors = Inr bm0" "disk_map bm0" by (rule new_map)
  have sf: "same_file (hdr_at st 0) (hdr f)" using m by (simp add: map_stored_def)
  have ok: "open_ok st bm (hdr f)" using disk_filesD(3) [OF D] same_file_sectors(5) [OF sf] by simp
  obtain f' where r: "ReadAt env f st 128 0 = Inr (take (nat 128) (drop (nat 0) (content st (hdr f))), f')" and v: "visited f f'"
    by (rule ReadAt_visited [OF ok order_refl])
  have dm: "disk_map bm" by (rule disk_filesD(1) [OF D(1)])
  have "map_FetchFrom env bm0 f st = Inr (bm, f')"
    using r m disk_map_shape [OF b(2)] disk_map_shape [OF dm] load_same_map [OF b(2) dm] same_file_sectors(4) [OF sf, of st]
    by (simp add: map_FetchFrom_def sizeof_int_def map_stored_def)
  with b(1) v show ?thesis by (intro that)
qed

lemma save_map:
  assumes D: "disk_files (sectors d) bm ss" "0 \<in> set ss" and sf: "same_file (hdr_at (sectors d) 0) (hdr f)" "numBytes (hdr_at (sectors d) 0) = 128"
  obtains f' st' where "map_WriteBack fuel env bm f d = Inr (f', d\<lparr>sectors := st'\<rparr>)" "disk_files st' bm ss"
    "kept_files {0} (sectors d) st' ss" "map_stored st' bm f'"
proof -
  have sh: "length (map_bytes bm) = 128" "numWords bm * sizeof_int = int (length (map_bytes bm))"
    using disk_map_shape [OF disk_filesD(1) [OF D(1)]] by (simp_all add: sizeof_int_def)
  have l: "0 < length (map_bytes bm)" "int (length (map_bytes bm)) = numBytes (hdr_at (sectors d) 0)" using sh(1) sf(2) by simp_all
  obtain f' st' where w: "WriteAt fuel env f d (map_bytes bm) (int (length (map_bytes bm))) 0 = Inr (int (length (map_bytes bm)), f', d\<lparr>sectors := st'\<rparr>)"
    and f': "f' = f\<lparr>hdr := (hdr f)\<lparr>lastVisitTime := now env, modifyTime := now env\<rparr>\<rparr>"
    and k: "disk_files st' bm ss" "kept_files {0} (sectors d) st' ss" "content st' (hdr_at st' 0) = map_bytes bm" "hdr_at st' 0 = hdr_at (sectors d) 0"
    by (rule write_whole [OF D sf(1) l])
  have "map_WriteBack fuel env bm f d = Inr (f', d\<lparr>sectors := st'\<rparr>)" unfolding map_WriteBack_def sh(2) w by simp
  moreover have "map_stored st' bm f'" using k(3,4) sf by (simp add: map_stored_def f')
  ultimately show ?thesis using k by (intro that)
qed

lemma heap_entries: "length (name (heap_entry env i)) = 86 \<and> length (padding (heap_entry env i)) = 5"
  by (simp add: heap_entry_def entry_of_def)

lemma new_Directory_ok: "dir_ok (new_Directory env)" "dir_map (new_Directory env) = Map.empty" "length (new_Directory env) = 10"
    "dir_storable (new_Directory env)" "Dir_IsEmpty (new_Directory env)"
proof -
  show "dir_ok (new_Directory env)" "dir_map (new_Directory env) = Map.empty"
    using Dir_new_ok [of "heap_entry env" "int NumDirEntries"] heap_entries by (auto simp: new_Directory_def)
  show "length (new_Directory env) = 10" by (simp add: new_Directory_def Directory_new_def NumDirEntries_def)
  have "in_int32 (sector (heap_entry env i))" for i by (simp add: heap_entry_def entry_of_def un_le32_in_range)
  then show "dir_storable (new_Directory env)" using heap_entries by (auto simp: dir_storable_def new_Directory_def Directory_new_def)
  show "Dir_IsEmpty (new_Directory env)" by (auto simp: Dir_IsEmpty_def new_Directory_def Directory_new_def list_ex_iff)
qed

lemma fetch_dir:
  assumes D: "disk_files st bm ss" "1 \<in> set ss" and m: "dir_stored st t f"
  obtains f' where "Dir_FetchFrom env (new_Directory env) f st = Inr (t, f')" "visited f f'"
proof -
  have sf: "same_file (hdr_at st 1) (hdr f)" and t: "content st (hdr_at st 1) = dir_bytes t" "dir_storable t" "length t = 10"
    using m by (simp_all add: dir_stored_def)
  have ok: "open_ok st bm (hdr f)" using disk_filesD(3) [OF D] same_file_sectors(5) [OF sf] by simp
  obtain f' where r: "ReadAt env f st 960 0 = Inr (take (nat 960) (drop (nat 0) (content st (hdr f))), f')" and v: "visited f f'"
    by (rule ReadAt_visited [OF ok order_refl])
  have l: "length (dir_bytes t) = 960" using length_dir_bytes [OF t(2)] t(3) by simp
  have "Dir_FetchFrom env (new_Directory env) f st = Inr (dir_of 10 (overlay (dir_bytes (new_Directory env)) 0 (dir_bytes t)), f')"
    using r l same_file_sectors(4) [OF sf, of st] t(1) by (simp add: Dir_FetchFrom_def new_Directory_ok entry_size_def)
  also have "\<dots> = Inr (t, f')"
    using dir_roundtrip [OF t(2)] t(3) by (simp add: overlay_def)
  finally show ?thesis using v by (intro that)
qed

lemma save_dir:
  assumes D: "disk_files (sectors d) bm ss" "1 \<in> set ss" and sf: "same_file (hdr_at (sectors d) 1) (hdr f)" "numBytes (hdr_at (sectors d) 1) = 960"
    and t: "dir_ok t" "dir_storable t" "length t = 10"
  obtains f' st' where "Dir_WriteBack fuel env t f d = Inr (f', d\<lparr>sectors := st'\<rparr>)" "disk_files st' bm ss"
    "kept_files {1} (sectors d) st' ss" "dir_stored st' t f'" "hdr_at st' 1 = hdr_at (sectors d) 1"
    "f' = f\<lparr>hdr := (hdr f)\<lparr>lastVisitTime := now env, modifyTime := now env\<rparr>\<rparr>"
proof -
  have sh: "length (dir_bytes t) = 960" "int (length t) * entry_size = int (length (dir_bytes t))"
    using length_dir_bytes [OF t(2)] t(3) by (simp_all add: entry_size_def)
  have l: "0 < length (dir_bytes t)" "int (length (dir_bytes t)) = numBytes (hdr_at (sectors d) 1)" using sh(1) sf(2) by simp_all
  obtain f' st' where w: "WriteAt fuel env f d (dir_bytes t) (int (length (dir_bytes t))) 0 = Inr (int (length (dir_bytes t)), f', d\<lparr>sectors := st'\<rparr>)"
    and f': "f' = f\<lparr>hdr := (hdr f)\<lparr>lastVisitTime := now env, modifyTime := now env\<rparr>\<rparr>"
    and k: "disk_files st' bm ss" "kept_files {1} (sectors d) st' ss" "content st' (hdr_at st' 1) = dir_bytes t" "hdr_at st' 1 = hdr_at (sectors d) 1"
    by (rule write_whole [OF D sf(1) l])
  have "Dir_WriteBack fuel env t f d = Inr (f', d\<lparr>sectors := st'\<rparr>)" unfolding Dir_WriteBack_def sh(2) w by simp
  moreover have "dir_stored st' t f'" using k(3,4) sf t by (simp add: dir_stored_def f')
  ultimately show ?thesis using k f' by (intro that)
qed

end
