(* ===== verification/FsOps.thy ===== *)
theory FsOps
  imports FsInv
begin

text \<open>
  \<open>Create\<close>, \<open>Open\<close> and \<open>Remove\<close> of files in the root directory: what they return, and what they do
  to the directory, to the bitmap and to the other files.
\<close>

section \<open>Names without a slash\<close>

lemma no_slash_strip: "slash \<notin> set s \<Longrightarrow> strip_slashes s = s"
  by (cases s rule: rev_cases) (auto simp: strip_slashes_def)

lemma no_slash_upto: "slash \<notin> set s \<Longrightarrow> upto_last slash s = []"
  by (auto simp: upto_last_def dropWhile_eq_Nil_conv)

lemma no_slash_dirname: "slash \<notin> set s \<Longrightarrow> dirname s = [dot]"
  by (auto simp: dirname_def no_slash_strip no_slash_upto Let_def)

lemma root_path:
  assumes "slash \<notin> set nm"
  shows "PathParser nm = Inr \<lparr>DirArray = replicate MAX_DIR_DEP None, DirDep = 0, Base = basename nm\<rparr>"
proof -
  have p: "(if nm \<noteq> [] \<and> hd nm = slash then tl nm else nm) = nm" using assms by (cases nm) auto
  have f: "length (filter (\<lambda>c. c = slash) nm) = 0" using assms by (auto simp: filter_empty_conv)
  show ?thesis unfolding PathParser_def p Let_def f no_slash_dirname [OF assms] by (simp add: MAX_DIR_DEP_def)
qed

lemma root_entry_name: "slash \<notin> set nm \<Longrightarrow> entry_name nm = Inr nm"
  by (simp add: entry_name_def root_path)

lemma root_sector: "slash \<notin> set nm \<Longrightarrow> FindDirSector env d nm = Inr (1, d)"
  by (simp add: FindDirSector_def root_path DirectorySector_def)

section \<open>The table of the directory\<close>

lemma add_entry_split:
  "add_entry t nm s = (True, t') \<Longrightarrow>
   \<exists>as e bs. t = as @ e # bs \<and> \<not> inUse e \<and> t' = as @ e\<lparr>inUse := True, name := strncpy (name e) nm FileNameMaxLen, sector := s\<rparr> # bs"
proof (induction t arbitrary: t')
  case (Cons e es)
  show ?case
  proof (cases "inUse e")
    case True
    then obtain es' where a: "add_entry es nm s = (True, es')" "t' = e # es'" using Cons.prems by (auto split: prod.splits)
    from Cons.IH [OF a(1)] obtain as x bs where "es = as @ x # bs" "\<not> inUse x"
      "es' = as @ x\<lparr>inUse := True, name := strncpy (name x) nm FileNameMaxLen, sector := s\<rparr> # bs" by blast
    then have "e # es = (e # as) @ x # bs" "t' = (e # as) @ x\<lparr>inUse := True, name := strncpy (name x) nm FileNameMaxLen, sector := s\<rparr> # bs"
      by (simp_all add: a(2))
    then show ?thesis using \<open>\<not> inUse x\<close> by blast
  next
    case False
    then have "e # es = [] @ e # es" "t' = [] @ e\<lparr>inUse := True, name := strncpy (name e) nm FileNameMaxLen, sector := s\<rparr> # es"
      using Cons.prems by simp_all
    then show ?thesis using False by blast
  qed
qed simp

lemma Dir_Add_files:
  assumes "Dir_Add t nm s = (True, t')" "dir_storable t" "in_int32 s"
  shows "mset (file_list t') = add_mset s (mset (file_list t))" "dir_storable t'"
proof -
  have "add_entry t nm s = (True, t')" using assms(1) by (simp add: Dir_Add_def split: if_splits)
  from add_entry_split [OF this] obtain as e bs where t: "t = as @ e # bs" "\<not> inUse e"
    "t' = as @ e\<lparr>inUse := True, name := strncpy (name e) nm FileNameMaxLen, sector := s\<rparr> # bs" by blast
  show "mset (file_list t') = add_mset s (mset (file_list t))" using t by (simp add: file_list_def)
  have "length (strncpy (name e) nm FileNameMaxLen) = 86"
    using assms(2) length_strncpy [of FileNameMaxLen "name e" nm] by (simp add: dir_storable_def t(1) FileNameMaxLen_def)
  then show "dir_storable t'" using assms(2,3) by (auto simp: dir_storable_def t(1,3))
qed

lemma dir_map_entry:
  assumes "dir_map t (key nm) = Some s" shows "s \<in> set (file_list t)"
  using map_of_SomeD [OF assms [unfolded dir_map_def]] by (auto simp: file_list_def)

lemma Dir_Remove_files:
  assumes "dir_map t (key nm) = Some s" "Dir_Remove t nm = (b, t')" "dir_storable t"
  shows "mset (file_list t) = add_mset s (mset (file_list t'))" "dir_storable t'"
proof -
  obtain k where k: "k < length t" "FindIndex t nm = int k" "inUse (t ! k)" "sector (t ! k) = s"
    using find_index_spec [of t nm 0] assms(1) by (auto simp: FindIndex_def)
  define e where "e = (t ! k)\<lparr>inUse := False\<rparr>"
  have t': "t' = t[k := e]" using assms(2) k(2) by (simp add: Dir_Remove_def e_def)
  have "\<not> inUse e" by (simp add: e_def)
  from filter_update_drop [where P = inUse, OF k(1,3) this] show "mset (file_list t) = add_mset s (mset (file_list t'))"
    using k(4) by (simp add: file_list_def t')
  have "e \<in> insert e (set t)" "set t' \<subseteq> insert e (set t)" unfolding t' by (simp_all add: set_update_subset_insert)
  moreover have "length (name e) = 86 \<and> length (padding e) = 5 \<and> in_int32 (sector e)"
    using assms(3) k(1) by (simp add: e_def dir_storable_def)
  ultimately show "dir_storable t'" using assms(3) by (auto simp: dir_storable_def)
qed

section \<open>A new file on the disk\<close>

lemma mset_concat_map: "mset xs = mset ys \<Longrightarrow> mset (concat (map f xs)) = mset (concat (map f ys))"
proof -
  assume "mset xs = mset ys"
  moreover have "mset (concat (map f zs)) = sum_mset (image_mset (\<lambda>z. mset (f z)) (mset zs))" for zs by (induction zs) simp_all
  ultimately show ?thesis by simp
qed

lemma disk_files_mset:
  assumes "disk_files st bm ss" "mset ss' = mset ss" shows "disk_files st bm ss'"
proof -
  have m: "mset (concat (map (area st) ss')) = mset (concat (map (area st) ss))" by (rule mset_concat_map [OF assms(2)])
  have "set ss' = set ss" "set (concat (map (area st) ss')) = set (concat (map (area st) ss))"
    using mset_eq_setD [OF assms(2)] mset_eq_setD [OF m] by blast+
  then show ?thesis using assms(1) mset_eq_imp_distinct_iff [OF m] unfolding disk_files_def by metis
qed

lemma kept_files_mset: "kept_files X st st' ss \<Longrightarrow> set ss' \<subseteq> set ss \<Longrightarrow> kept_files X st st' ss'"
  by (auto simp: kept_files_def)

lemma add_file:
  assumes D: "disk_files st bm ss" and sec: "0 \<le> sec" "sec < NumSectors" "sec \<notin> marked bm" "marked bm1 = insert sec (marked bm)"
    and a: "allocated bm1 st bm2 st1 h" and h: "header_sized h" "length_ok h"
  defines "st2 \<equiv> st1(sec := header_bytes h)"
  shows "disk_files st2 bm2 (sec # ss)" "kept_files {} st st2 ss" "same_file h (hdr_at st2 sec)"
    "fileExtension (hdr_at st2 sec) = fileExtension h" "marked bm2 = marked bm \<union> set (area st2 sec)" "set (area st2 sec) \<inter> marked bm = {}"
proof -
  have A: "file_ok st1 bm2 h" "disk_map bm2" "store_wf st1" "set (owned st1 h) \<inter> marked bm1 = {}"
    "marked bm2 = marked bm1 \<union> set (owned st1 h)" "touches (set (tables st1 h)) st st1" using a by (auto simp: allocated_def touches_def)
  have ok1: "open_ok st1 bm2 h" using A h(2) by (simp add: open_ok_def)
  have wf: "store_wf st2" unfolding st2_def by (rule header_sized_write(2) [OF h(1) sec(1,2) A(3)])
  have t2: "touches {sec} st1 st2" by (simp add: touches_def st2_def)
  have nin: "sec \<notin> set (owned st1 h)" using A(4) sec(4) by auto
  then have "{sec} \<inter> set (owned st1 h) = {}" by simp
  note C = content_other [OF ok1 t2 this wf]
  have t: "touches (insert sec (set (tables st1 h))) st st2" using A(6) by (auto simp: touches_def st2_def)
  have used: "set (concat (map (area st) ss)) \<subseteq> marked bm" using D by (simp add: disk_files_def)
  have dis: "insert sec (set (tables st1 h)) \<inter> set (concat (map (area st) ss)) = {}"
    using used sec(3,4) A(4) by (auto simp: owned_def)
  note U = untouched_kept [OF D t dis wf]
  show "kept_files {} st st2 ss" by (fact U(1))
  note W = hdr_at_write [OF h(1) sec(1,2) ok1 open_ok_int32 [OF ok1], folded st2_def]
  show "same_file h (hdr_at st2 sec)" "fileExtension (hdr_at st2 sec) = fileExtension h" by (fact W)+
  note S = same_file_sectors [OF W(1)]
  have ar: "area st2 sec = sec # owned st1 h" using S C(3) by (simp add: area_def)
  show m2: "marked bm2 = marked bm \<union> set (area st2 sec)" "set (area st2 sec) \<inter> marked bm = {}"
    using A(4,5) sec(3,4) by (auto simp: ar)
  have "disk_files st2 bm2 ss" using more_marked [OF U(2) A(2)] m2(1) by simp
  moreover have "open_ok st2 bm2 (hdr_at st2 sec)" using C(2) S(5) by simp
  moreover have "distinct (area st2 sec)" using A(1) nin by (simp add: ar file_ok_def)
  moreover have "map (area st2) ss = map (area st) ss" using U(1) by (simp add: kept_files_def)
  then have "set (concat (map (area st2) ss)) = set (concat (map (area st) ss))" by simp
  then have "set (area st2 sec) \<inter> set (concat (map (area st2) ss)) = {}" using m2(2) used by blast
  ultimately show "disk_files st2 bm2 (sec # ss)" using m2(1) unfolding disk_files_def by auto
qed

lemma Allocate_header:
  assumes dm: "disk_map bm" and wf: "store_wf st" and ds: "length (dataSectors h) = 10" and n: "divRoundUp m SectorSize = int n"
    and r: "Allocate junk h bm st m = Inr (True, h', bm', st')"
  shows "\<exists>ds. h' = h\<lparr>numBytes := m, numSectors := int n, dataSectors := ds\<rparr>"
proof -
  have room: "n + index_sectors n \<le> card (bm.free bm)" using Allocate_outcome [OF dm wf ds n, of junk] r by (auto split: if_splits)
  consider "n \<le> 8" | "8 < n" "n \<le> 40" | "40 < n" by linarith
  then show ?thesis
  proof cases
    case 1
    then show ?thesis using Allocate_direct [OF dm wf ds n 1, of junk] room r by auto
  next
    case 2
    have "n + 1 \<le> card (bm.free bm)" using room 2 by (simp add: index_sectors_def)
    then show ?thesis using Allocate_single [OF dm wf ds n 2, of junk] r by auto
  next
    case 3
    then show ?thesis using Allocate_double [OF dm wf ds n 3 room, of junk] r by auto
  qed
qed

lemma Allocate_file:
  assumes "disk_map bm" "store_wf st" "header_sized h" "0 \<le> n" "Allocate junk h bm st n = Inr (True, h', bm', st')"
  shows "allocated bm st bm' st' h'" "header_sized h'" "length_ok h'" "numBytes h' = n" "numSectors h' = divRoundUp n SectorSize"
    "fileExtension h' = fileExtension h"
proof -
  have n: "divRoundUp n SectorSize = int (nat (divRoundUp n SectorSize))"
    using divRoundUp_nonneg [of n SectorSize] assms(4) by (simp add: SectorSize_def)
  have l: "length (dataSectors h) = 10" using assms(3) by (simp add: header_sized_def)
  show a: "allocated bm st bm' st' h'" using Allocate_outcome [OF assms(1,2) l n, of junk] assms(5) by (auto split: if_splits)
  obtain ds where h': "h' = h\<lparr>numBytes := n, numSectors := divRoundUp n SectorSize, dataSectors := ds\<rparr>"
    using Allocate_header [OF assms(1,2) l n assms(5)] n by metis
  have "length ds = 10" using a by (simp add: allocated_def file_ok_def hdr_consts h')
  then show "header_sized h'" "numBytes h' = n" "numSectors h' = divRoundUp n SectorSize" "fileExtension h' = fileExtension h"
    using assms(3) by (simp_all add: header_sized_def h')
  then show "length_ok h'" using assms(4) divRoundUp_le_iff [of n SectorSize "divRoundUp n SectorSize"]
    by (simp add: length_ok_def SectorSize_def)
qed

lemma CreateInit_file:
  assumes "header_sized h" "length (now env) = 25" "length (cstr ext) \<le> 4"
  obtains h' where "CreateInit env h ext = Inr h'" "header_sized h'" "numBytes h' = numBytes h" "numSectors h' = numSectors h"
    "dataSectors h' = dataSectors h" "cstr (fileExtension h') = cstr ext"
proof -
  let ?s = "cstr ext @ [0]"
  have l: "length (fileExtension h) = 5" using assms(1) by (simp add: header_sized_def)
  then have c: "strcpy (fileExtension h) ext = Inr (overlay (fileExtension h) 0 ?s)" using assms(3) by (simp add: strcpy_def)
  have "length (overlay (fileExtension h) 0 ?s) = 5" using l assms(3) by (simp add: overlay_def)
  moreover have "cstr (overlay (fileExtension h) 0 ?s) = cstr ext"
    using cstr_append [OF cstr_nonzero [of "length (cstr ext)" ext]] by (simp add: overlay_def)
  moreover define h' where "h' = h\<lparr>fileExtension := overlay (fileExtension h) 0 ?s, createTime := now env, modifyTime := now env, lastVisitTime := now env\<rparr>"
  ultimately show ?thesis using c assms(1,2) by (intro that [of h']) (simp_all add: CreateInit_def header_sized_def h'_def)
qed

lemma allocated_same:
  assumes "allocated bm st bm' st' h" "numSectors h' = numSectors h" "dataSectors h' = dataSectors h"
  shows "allocated bm st bm' st' h'"
  using assms by (simp add: allocated_def file_ok_def owned_def blocks_def tables_def)

section \<open>Create\<close>

text \<open>A handle on the root directory's file as \<open>Create\<close> opens it.\<close>

definition root_handle :: "store \<Rightarrow> open_file \<Rightarrow> bool" where
  "root_handle st f \<longleftrightarrow> same_file (hdr_at st 1) (hdr f) \<and> headerSector (hdr f) = 1 \<and> header_sized (hdr f)
     \<and> fileExtension (hdr f) = fileExtension (hdr_at st 1)"

lemma root_handle_kept:
  assumes "root_handle st f" "kept_files X st st' ss" "1 \<in> set ss"
  shows "root_handle st' f"
  using assms(1) keptD [OF assms(2,3)] same_file_trans [OF same_file_sym [OF keptD(2) [OF assms(2,3)]]] by (simp add: root_handle_def)

lemma root_handle_written:
  "root_handle st f \<Longrightarrow> length (now env) = 25 \<Longrightarrow> root_handle st (f\<lparr>hdr := (hdr f)\<lparr>lastVisitTime := now env, modifyTime := now env\<rparr>\<rparr>)"
  by (auto simp: root_handle_def header_sized_def)

lemma ReadAt_time:
  assumes "ReadAt env f st n p = Inr (bs, f')"
  shows "f' = f \<or> f' = f\<lparr>hdr := (hdr f)\<lparr>lastVisitTime := now env\<rparr>\<rparr>"
  using assms by (auto simp: ReadAt_def Let_def res_simps split: if_splits)

lemma FetchFrom_time:
  assumes "Dir_FetchFrom env t0 f st = Inr (t, f')"
  shows "f' = f \<or> f' = f\<lparr>hdr := (hdr f)\<lparr>lastVisitTime := now env\<rparr>\<rparr>"
proof -
  obtain bs where "ReadAt env f st (int (length t0) * entry_size) 0 = Inr (bs, f')"
    using assms by (auto simp: Dir_FetchFrom_def rbind_eq_Inr)
  then show ?thesis by (rule ReadAt_time)
qed

lemma create_start:
  assumes ok: "fs_ok fs bm t" and env: "env_ok env" and nm: "slash \<notin> set nm"
  obtains DirFile where "Create env fs nm sz = create_entry env (fs\<lparr>fdisk := visits (fdisk fs) 1 1\<rparr>) DirFile t nm (sz = -1)
      (if sz = -1 then DirectoryFileSize else sz)" "root_handle (sectors (fdisk fs)) DirFile"
proof -
  let ?d = "fdisk fs" let ?st = "sectors ?d"
  note F = fs_okD [OF ok]
  have one: "1 \<in> set (all_files t)" by simp
  have r: "(0::int) \<le> 1" "1 < NumSectors" by (simp_all add: disk_consts)
  let ?f = "\<lparr>hdr = hdr_at ?st 1, seekPosition = 0\<rparr>"
  have sf: "same_file (hdr_at ?st 1) (hdr ?f)" using same_file_refl [OF file_length10 [OF disk_filesD(3) [OF F(1) one]]] by simp
  have ds: "dir_stored ?st t ?f" using F(4) sf by (simp add: dir_stored_def)
  obtain f' where fetch: "Dir_FetchFrom env (new_Directory env) ?f ?st = Inr (t, f')"
    by (rule fetch_dir [OF F(1) one ds])
  have "root_handle ?st ?f" using sf hdr_at_sized [OF disk_filesD(2) [OF F(1)] r] by (simp add: root_handle_def)
  then have "root_handle ?st f'" using FetchFrom_time [OF fetch] env by (auto simp: root_handle_def header_sized_def env_ok_def)
  moreover have "Create env fs nm sz = create_entry env (fs\<lparr>fdisk := visits ?d 1 1\<rparr>) f' t nm (sz = -1) (if sz = -1 then DirectoryFileSize else sz)"
    using open_at [OF r F(2), of env] fetch by (simp add: Create_def Let_def root_sector [OF nm] root_entry_name [OF nm])
  ultimately show ?thesis by (intro that)
qed

lemma init_directory_ok:
  assumes D: "disk_files (sectors d) bm ss" and s: "s \<in> set ss" and n: "numBytes (hdr_at (sectors d) s) = 960"
    and v: "length (visitorCnt d) = 1024" and env: "length (now env) = 25"
  obtains st' where "init_directory env d s = Inr (d\<lparr>sectors := st'\<rparr>)" "disk_files st' bm ss" "kept_files {s} (sectors d) st' ss"
    "content st' (hdr_at st' s) = dir_bytes (new_Directory env)"
proof -
  let ?st = "sectors d" and ?t = "new_Directory env"
  have r: "0 \<le> s" "s < NumSectors" using disk_filesD(6) [OF D s] by simp_all
  let ?f = "\<lparr>hdr = hdr_at ?st s, seekPosition = 0\<rparr>"
  have sf: "same_file (hdr_at ?st s) (hdr ?f)" using same_file_refl [OF file_length10 [OF disk_filesD(3) [OF D s]]] by simp
  have len: "length (dir_bytes ?t) = 960" using length_dir_bytes [OF new_Directory_ok(4), of env] by (simp add: new_Directory_ok)
  have l: "0 < length (dir_bytes ?t)" "int (length (dir_bytes ?t)) = numBytes (hdr_at (sectors (visits d s 1)) s)" using len n by simp_all
  have D1: "disk_files (sectors (visits d s 1)) bm ss" and sf1: "same_file (hdr_at (sectors (visits d s 1)) s) (hdr ?f)" using D sf by simp_all
  obtain f' st1 where w: "WriteAt write_depth env ?f (visits d s 1) (dir_bytes ?t) (int (length (dir_bytes ?t))) 0
        = Inr (int (length (dir_bytes ?t)), f', (visits d s 1)\<lparr>sectors := st1\<rparr>)"
    and f': "f' = ?f\<lparr>hdr := (hdr ?f)\<lparr>lastVisitTime := now env, modifyTime := now env\<rparr>\<rparr>"
    and k: "disk_files st1 bm ss" "kept_files {s} ?st st1 ss" "content st1 (hdr_at st1 s) = dir_bytes ?t" "hdr_at st1 s = hdr_at ?st s"
    using write_whole [OF D1 s sf1 l, of write_depth env] by auto
  have wb: "Dir_WriteBack write_depth env ?t ?f (visits d s 1) = Inr (f', (visits d s 1)\<lparr>sectors := st1\<rparr>)"
    using w len by (simp add: Dir_WriteBack_def new_Directory_ok entry_size_def)
  let ?d1 = "(visits d s 1)\<lparr>sectors := st1\<rparr>"
  have D2: "disk_files (sectors ?d1) bm ss" using k(1) by simp
  have h': "headerSector (hdr f') = s" "header_sized (hdr f')" "same_file (hdr_at (sectors ?d1) s) (hdr f')"
    "fileExtension (hdr f') = fileExtension (hdr_at (sectors ?d1) s)" "length (visitorCnt ?d1) = 1024"
    using hdr_at_sized [OF disk_filesD(2) [OF D] r] env sf v by (simp_all add: f' k(4) header_sized_def)
  obtain st2 where c: "OpenFile_delete f' ?d1 = Inr (visits (?d1\<lparr>sectors := st2\<rparr>) s (-1))" "kept_files {} st1 st2 ss" "disk_files st2 bm ss"
    using close_at [OF D2 s h'] by auto
  have "visits (?d1\<lparr>sectors := st2\<rparr>) s (-1) = (visits (visits d s 1) s (-1))\<lparr>sectors := st2\<rparr>" by (simp add: visits_def)
  also have "\<dots> = d\<lparr>sectors := st2\<rparr>" using visits_back [OF r(1), of d] r(2) v by (simp add: disk_consts)
  finally have "init_directory env d s = Inr (d\<lparr>sectors := st2\<rparr>)"
    using open_at [OF r v, of env] wb c(1) by (simp add: init_directory_def)
  moreover have "kept_files {s} ?st st2 ss" using kept_trans [OF k(2) c(2)] by simp
  moreover have "content st2 (hdr_at st2 s) = dir_bytes ?t" using keptD(4) [OF c(2) s] k(3) by simp
  ultimately show ?thesis using c(3) by (intro that)
qed

text \<open>What \<open>Create\<close> writes: header, empty table of a new directory, root directory, bitmap, and the root's
  header when it is closed.\<close>

lemma flush_new_ok:
  assumes D: "disk_files st2 bm2 ss" and ss: "0 \<in> set ss" "1 \<in> set ss" "sec \<in> set ss" "sec \<noteq> 0" "sec \<noteq> 1"
    and st2: "HdrWriteBack h2 (sectors (fdisk fs)) sec = Inr st2" and ci: "CreateInit env h (if isDir then Dir_Ext else GetFileExtension nm) = Inr h2"
    and dir: "isDir \<Longrightarrow> numBytes (hdr_at st2 sec) = 960" and v: "length (visitorCnt (fdisk fs)) = 1024" and env: "length (now env) = 25"
    and f: "root_handle st2 DirFile" "numBytes (hdr_at st2 1) = 960" and t: "dir_ok t" "dir_storable t" "length t = 10"
    and m: "same_file (hdr_at st2 0) (hdr (freeMapFile fs))" "numBytes (hdr_at st2 0) = 128"
  obtains st' mf where "flush_new env fs DirFile t bm2 h sec nm isDir
      = Inr (fs\<lparr>fdisk := visits ((fdisk fs)\<lparr>sectors := st'\<rparr>) 1 (-1), freeMapFile := mf\<rparr>)"
    "disk_files st' bm2 ss" "kept_files {0, 1, sec} st2 st' ss" "map_stored st' bm2 mf" "content st' (hdr_at st' 1) = dir_bytes t"
    "isDir \<Longrightarrow> content st' (hdr_at st' sec) = dir_bytes (new_Directory env)" "\<not> isDir \<Longrightarrow> kept_files {0, 1} st2 st' ss"
proof -
  let ?d2 = "(fdisk fs)\<lparr>sectors := st2\<rparr>"
  let ?X = "if isDir then {sec} else {}"
  obtain st3 where i: "(if isDir then init_directory env ?d2 sec else Inr ?d2) = Inr (?d2\<lparr>sectors := st3\<rparr>)"
    and k3: "disk_files st3 bm2 ss" "kept_files ?X st2 st3 ss" "isDir \<Longrightarrow> content st3 (hdr_at st3 sec) = dir_bytes (new_Directory env)"
  proof (cases isDir)
    case True
    have D2: "disk_files (sectors ?d2) bm2 ss" "numBytes (hdr_at (sectors ?d2) sec) = 960" "length (visitorCnt ?d2) = 1024" using D dir [OF True] v by simp_all
    from init_directory_ok [OF D2(1) ss(3) D2(2,3) env] obtain st3 where "init_directory env ?d2 sec = Inr (?d2\<lparr>sectors := st3\<rparr>)"
      "disk_files st3 bm2 ss" "kept_files {sec} (sectors ?d2) st3 ss" "content st3 (hdr_at st3 sec) = dir_bytes (new_Directory env)" by blast
    then show ?thesis using True by (intro that [of st3]) simp_all
  next
    case False
    have "kept_files {} st2 st2 ss" using untouched_kept(1) [OF D, of "{}" st2] disk_filesD(2) [OF D] by (simp add: touches_def)
    then show ?thesis using False D by (intro that [of st2]) simp_all
  qed
  let ?d3 = "?d2\<lparr>sectors := st3\<rparr>"
  have h3: "root_handle st3 DirFile" by (rule root_handle_kept [OF f(1) k3(2) ss(2)])
  have "numBytes (hdr_at st3 1) = 960" using f(2) same_file_sectors(6) [OF keptD(2) [OF k3(2) ss(2)]] by simp
  then have D3: "disk_files (sectors ?d3) bm2 ss" "same_file (hdr_at (sectors ?d3) 1) (hdr DirFile)" "numBytes (hdr_at (sectors ?d3) 1) = 960"
    using k3(1) h3 by (simp_all add: root_handle_def)
  obtain f4 st4 where w4: "Dir_WriteBack write_depth env t DirFile ?d3 = Inr (f4, ?d3\<lparr>sectors := st4\<rparr>)"
    and k4': "disk_files st4 bm2 ss" "kept_files {1} (sectors ?d3) st4 ss" "dir_stored st4 t f4"
    and f4: "f4 = DirFile\<lparr>hdr := (hdr DirFile)\<lparr>lastVisitTime := now env, modifyTime := now env\<rparr>\<rparr>"
    by (rule save_dir [OF D3(1) ss(2) D3(2,3) t, of write_depth env])
  then have k4: "disk_files st4 bm2 ss" "kept_files {1} st3 st4 ss" "dir_stored st4 t f4" by simp_all
  let ?d4 = "?d3\<lparr>sectors := st4\<rparr>"
  have k24: "kept_files (?X \<union> {1}) st2 st4 ss" by (rule kept_trans [OF k3(2) k4(2)])
  have m4: "same_file (hdr_at (sectors ?d4) 0) (hdr (freeMapFile fs))" "numBytes (hdr_at (sectors ?d4) 0) = 128" "disk_files (sectors ?d4) bm2 ss"
    using m same_file_trans [OF same_file_sym [OF keptD(2) [OF k24 ss(1)]]] same_file_sectors(6) [OF keptD(2) [OF k24 ss(1)]] k4(1) by simp_all
  obtain mf st5 where w5: "map_WriteBack write_depth env bm2 (freeMapFile fs) ?d4 = Inr (mf, ?d4\<lparr>sectors := st5\<rparr>)"
    and k5': "disk_files st5 bm2 ss" "kept_files {0} (sectors ?d4) st5 ss" "map_stored st5 bm2 mf"
    by (rule save_map [OF m4(3) ss(1) m4(1,2), of write_depth env])
  then have k5: "disk_files st5 bm2 ss" "kept_files {0} st4 st5 ss" "map_stored st5 bm2 mf" by simp_all
  let ?d5 = "?d4\<lparr>sectors := st5\<rparr>"
  have "root_handle st5 f4"
    using root_handle_written [OF root_handle_kept [OF root_handle_kept [OF h3 k4(2) ss(2)] k5(2) ss(2)] env] by (simp add: f4)
  then have h5: "headerSector (hdr f4) = 1" "header_sized (hdr f4)" "same_file (hdr_at (sectors ?d5) 1) (hdr f4)"
    "fileExtension (hdr f4) = fileExtension (hdr_at (sectors ?d5) 1)" "length (visitorCnt ?d5) = 1024" "disk_files (sectors ?d5) bm2 ss"
    using v k5(1) by (simp_all add: root_handle_def)
  obtain st6 where w6: "OpenFile_delete f4 ?d5 = Inr (visits (?d5\<lparr>sectors := st6\<rparr>) 1 (-1))" and k6: "kept_files {} st5 st6 ss" "disk_files st6 bm2 ss"
    using close_at [OF h5(6) ss(2) h5(1-5)] by auto
  have k46: "kept_files {0} st4 st6 ss" using kept_trans [OF k5(2) k6(1)] by simp
  have k26: "kept_files (?X \<union> {1} \<union> {0}) st2 st6 ss" by (rule kept_trans [OF k24 k46])
  have "flush_new env fs DirFile t bm2 h sec nm isDir = Inr (fs\<lparr>fdisk := visits ((fdisk fs)\<lparr>sectors := st6\<rparr>) 1 (-1), freeMapFile := mf\<rparr>)"
    unfolding flush_new_def ci rbind_Inr st2 Let_def i w4 prod.case w5 w6 by simp
  moreover have "kept_files {0, 1, sec} st2 st6 ss" using k26 by (auto simp: kept_files_def split: if_splits)
  moreover have "\<not> isDir \<Longrightarrow> kept_files {0, 1} st2 st6 ss" using k26 by (auto simp: kept_files_def)
  moreover have "map_stored st6 bm2 mf" using stored_kept(1) [OF k6(1) ss(1,2) _ k5(3)] by simp
  moreover have "content st6 (hdr_at st6 1) = dir_bytes t" using keptD(4) [OF k46 ss(2)] k4(3) by (simp add: dir_stored_def)
  moreover have "content st6 (hdr_at st6 sec) = dir_bytes (new_Directory env)" if isDir
  proof -
    have "kept_files ({1} \<union> {0}) st3 st6 ss" by (rule kept_trans [OF k4(2) k46])
    then show ?thesis using keptD(4) [OF _ ss(3)] ss(4,5) k3(3) [OF that] by simp
  qed
  ultimately show ?thesis using k6(2) by (intro that) simp_all
qed

lemma DirectoryFileSize_val: "DirectoryFileSize = 960"
  by (simp add: DirectoryFileSize_def entry_size_def NumDirEntries_def)

lemma Dir_Add_true:
  assumes "dir_ok t" "dir_map t (key nm) = None" "card (dom (dir_map t)) < length t"
  obtains t' where "Dir_Add t nm s = (True, t')" "dir_ok t'" "length t' = length t" "dir_map t' = (dir_map t)(key nm \<mapsto> s)"
proof -
  obtain b t' where a: "Dir_Add t nm s = (b, t')" by force
  have b: "b" "dir_ok t'" "length t' = length t" "dir_map t' = (dir_map t)(key nm \<mapsto> s)"
    using Dir_Add_spec [OF assms(1), of nm s] a assms(2,3) dir_room(2) [OF assms(1)] by auto
  show ?thesis using a b by (intro that [of t']) auto
qed

lemma free_card: "disk_map bm \<Longrightarrow> card (bm.free bm) + card (marked bm) = 1024"
  by (simp add: card_marked_free)

text \<open>The two first steps of \<open>create_entry\<close>: the bitmap as it is stored, and the sector for the header.\<close>

lemma create_entry_found:
  assumes ok: "fs_ok fs bm t" and dm: "dir_map t (key nm) \<noteq> None"
  shows "create_entry env fs DirFile t nm isDir sz = Inr (False, fs)"
proof -
  obtain x where x: "dir_map t (key nm) = Some x" using dm by blast
  then have "x \<in> set (all_files t)" using dir_map_entry by auto
  then have "0 \<le> x" using disk_filesD(6) [OF fs_okD(1) [OF ok]] by blast
  then show ?thesis using x by (simp add: create_entry_def Dir_Find_map)
qed

lemma create_entry_map:
  assumes ok: "fs_ok fs bm t" and dm: "dir_map t (key nm) = None"
  obtains mf where "visited (freeMapFile fs) mf"
    "create_entry env fs DirFile t nm isDir sz = create_on_map env (fs\<lparr>freeMapFile := mf\<rparr>) bm DirFile t nm isDir sz"
proof -
  have z: "0 \<in> set (all_files t)" by simp
  obtain bm0 mf where b: "BitMap (heap_junk env) NumSectors = Inr bm0"
    and f: "map_FetchFrom env bm0 (freeMapFile fs) (sectors (fdisk fs)) = Inr (bm, mf)" and v: "visited (freeMapFile fs) mf"
    by (rule fetch_map [OF fs_okD(1) [OF ok] z fs_okD(3) [OF ok], of "heap_junk env" env])
  show ?thesis by (rule that [OF v]) (simp add: create_entry_def Dir_Find_map dm b f)
qed

lemma fs_ok_visited: "fs_ok fs bm t \<Longrightarrow> visited (freeMapFile fs) mf \<Longrightarrow> fs_ok (fs\<lparr>freeMapFile := mf\<rparr>) bm t"
  by (simp add: fs_ok_def map_stored_visited)

lemma Find_outcome:
  assumes "disk_map bm"
  shows "card (bm.free bm) = 0 \<Longrightarrow> Find bm = Inr (-1, bm)"
    "0 < card (bm.free bm) \<Longrightarrow> \<exists>s bm'. Find bm = Inr (s, bm') \<and> 0 \<le> s \<and> s < NumSectors \<and> s \<notin> marked bm
      \<and> marked bm' = insert s (marked bm) \<and> disk_map bm' \<and> card (bm.free bm') = card (bm.free bm) - 1"
proof -
  show "card (bm.free bm) = 0 \<Longrightarrow> Find bm = Inr (-1, bm)" by (rule Find_none [OF assms])
  assume "0 < card (bm.free bm)"
  from find_disk [OF assms this] obtain s bm' where "Find bm = Inr (s, bm')" "bm.took bm [s] bm'" "disk_map bm'"
    "card (bm.free bm') = card (bm.free bm) - 1" "0 \<le> s" "s < NumSectors" by blast
  then show "\<exists>s bm'. Find bm = Inr (s, bm') \<and> 0 \<le> s \<and> s < NumSectors \<and> s \<notin> marked bm
      \<and> marked bm' = insert s (marked bm) \<and> disk_map bm' \<and> card (bm.free bm') = card (bm.free bm) - 1"
    unfolding bm.took_def bm.free_def by auto
qed

lemma create_refused:
  assumes ok: "fs_ok fs bm t" and env: "env_ok env" and sz: "divRoundUp sz SectorSize = int n"
    and no: "dir_map t (key nm) \<noteq> None \<or> card (dom (dir_map t)) = 10 \<or> card (bm.free bm) \<le> n + index_sectors n"
  obtains fs' where "create_entry env fs DirFile t nm isDir sz = Inr (False, fs')" "fs_ok fs' bm t" "fdisk fs' = fdisk fs"
proof (cases "dir_map t (key nm) = None")
  case False
  show ?thesis by (rule that [OF create_entry_found [OF ok False] ok refl])
next
  case True
  obtain mf where v: "visited (freeMapFile fs) mf" and c: "create_entry env fs DirFile t nm isDir sz = create_on_map env (fs\<lparr>freeMapFile := mf\<rparr>) bm DirFile t nm isDir sz"
    by (rule create_entry_map [OF ok True])
  let ?fs = "fs\<lparr>freeMapFile := mf\<rparr>"
  note D = disk_filesD [OF fs_okD(1) [OF ok]]
  have t: "dir_ok t" "length t = 10" using fs_okD(4) [OF ok] by (simp_all add: dir_stored_def)
  have same: "?fs\<lparr>fdisk := (fdisk fs)\<lparr>sectors := sectors (fdisk fs)\<rparr>\<rparr> = ?fs" by simp
  have "create_entry env fs DirFile t nm isDir sz = Inr (False, ?fs)"
  proof (cases "card (bm.free bm) = 0")
    case True
    then show ?thesis unfolding c create_on_map_def Find_outcome(1) [OF D(1) True] by simp
  next
    case False
    then obtain s bm1 where f: "Find bm = Inr (s, bm1)" "0 \<le> s" "disk_map bm1" "card (bm.free bm1) = card (bm.free bm) - 1"
      using Find_outcome(2) [OF D(1)] by blast
    show ?thesis
    proof (cases "card (dom (dir_map t)) = 10")
      case True
      obtain b t' where a: "Dir_Add t nm s = (b, t')" by force
      then have "\<not> b" using Dir_Add_spec [OF t(1), of nm s] dir_room(2) [OF t(1)] True t(2) by auto
      then show ?thesis unfolding c create_on_map_def f(1) using a f(2) by simp
    next
      case no10: False
      then have lt: "card (dom (dir_map t)) < length t" using dir_room(1) [OF t(1)] t(2) by simp
      obtain t' where a: "Dir_Add t nm s = (True, t')" by (rule Dir_Add_true [OF t(1) \<open>dir_map t (key nm) = None\<close> lt])
      have l: "length (dataSectors (header_junk env)) = 10" using env by (simp add: env_ok_def header_sized_def)
      have "card (bm.free bm) \<le> n + index_sectors n" using no no10 \<open>dir_map t (key nm) = None\<close> by simp
      then have "\<not> n + index_sectors n \<le> card (bm.free bm1)" using False f(4) by linarith
      then obtain h where al: "Allocate (stack_junk env) (header_junk env) bm1 (sectors (fdisk fs)) sz = Inr (False, h, bm1, sectors (fdisk fs))"
        using Allocate_outcome [OF f(3) D(2) l sz, of "stack_junk env"] by auto
      show ?thesis unfolding c create_on_map_def f(1) using a f(2) al by (simp add: Let_def)
    qed
  qed
  then show ?thesis by (rule that) (simp_all add: fs_ok_visited [OF ok v])
qed

lemma create_made:
  assumes ok: "fs_ok fs bm t" and env: "env_ok env" and sz: "0 \<le> sz" "n = nat (divRoundUp sz SectorSize)"
    and yes: "dir_map t (key nm) = None" "card (dom (dir_map t)) < 10" "n + index_sectors n < card (bm.free bm)"
    and ext: "length (cstr (if isDir then Dir_Ext else GetFileExtension nm)) \<le> 4"
    and f: "root_handle (sectors (fdisk fs)) DirFile" and dir: "isDir \<Longrightarrow> sz = 960"
  obtains sec bm' t' st' mf where "create_entry env fs DirFile t nm isDir sz
      = Inr (True, fs\<lparr>fdisk := visits ((fdisk fs)\<lparr>sectors := st'\<rparr>) 1 (-1), freeMapFile := mf\<rparr>)"
    "\<And>d. sectors d = st' \<Longrightarrow> length (visitorCnt d) = 1024 \<Longrightarrow> fs_ok (fs\<lparr>fdisk := d, freeMapFile := mf\<rparr>) bm' t'"
    "dir_map t' = (dir_map t)(key nm \<mapsto> sec)" "numBytes (hdr_at st' sec) = sz" "numSectors (hdr_at st' sec) = divRoundUp sz SectorSize"
    "cstr (fileExtension (hdr_at st' sec)) = cstr (if isDir then Dir_Ext else GetFileExtension nm)"
    "marked bm' = marked bm \<union> set (area st' sec)" "set (area st' sec) \<inter> marked bm = {}"
    "kept_files {0, 1} (sectors (fdisk fs)) st' (all_files t)" "isDir \<Longrightarrow> content st' (hdr_at st' sec) = dir_bytes (new_Directory env)"
proof -
  let ?st = "sectors (fdisk fs)"
  obtain mf0 where v: "visited (freeMapFile fs) mf0" and c: "create_entry env fs DirFile t nm isDir sz = create_on_map env (fs\<lparr>freeMapFile := mf0\<rparr>) bm DirFile t nm isDir sz"
    by (rule create_entry_map [OF ok yes(1)])
  let ?ss = "all_files t"
  have D: "disk_files ?st bm ?ss" by (rule fs_okD(1) [OF ok])
  note DD = disk_filesD [OF D]
  have t: "dir_ok t" "length t = 10" "dir_storable t" using fs_okD(4) [OF ok] by (simp_all add: dir_stored_def)
  have E: "header_sized (header_junk env)" "length (now env) = 25" using env by (simp_all add: env_ok_def)
  have "0 < card (bm.free bm)" using yes(3) by simp
  then obtain sec bm1 where fi: "Find bm = Inr (sec, bm1)" and sec: "0 \<le> sec" "sec < NumSectors" "sec \<notin> marked bm" "marked bm1 = insert sec (marked bm)"
    and bm1: "disk_map bm1" "card (bm.free bm1) = card (bm.free bm) - 1" using Find_outcome(2) [OF DD(1)] by blast
  obtain t' where a: "Dir_Add t nm sec = (True, t')" and t': "dir_ok t'" "length t' = length t" "dir_map t' = (dir_map t)(key nm \<mapsto> sec)"
    by (rule Dir_Add_true [OF t(1) yes(1), of sec]) (use yes(2) t(2) in simp)
  have sec32: "in_int32 sec" using sec by (simp add: in_int32_def disk_consts)
  note af = Dir_Add_files [OF a t(3) sec32]
  have dn: "divRoundUp sz SectorSize = int n" using divRoundUp_nonneg [of sz SectorSize] sz by (simp add: SectorSize_def)
  have l: "length (dataSectors (header_junk env)) = 10" using E(1) by (simp add: header_sized_def)
  have room: "n + index_sectors n \<le> card (bm.free bm1)" using yes(3) bm1(2) by simp
  obtain h bm2 st1 where al: "Allocate (stack_junk env) (header_junk env) bm1 ?st sz = Inr (True, h, bm2, st1)"
    using Allocate_outcome [OF bm1(1) DD(2) l dn, of "stack_junk env"] room by auto
  note A = Allocate_file [OF bm1(1) DD(2) E(1) sz(1) al]
  obtain h2 where ci: "CreateInit env h (if isDir then Dir_Ext else GetFileExtension nm) = Inr h2" and h2: "header_sized h2" "numBytes h2 = numBytes h"
    "numSectors h2 = numSectors h" "dataSectors h2 = dataSectors h" "cstr (fileExtension h2) = cstr (if isDir then Dir_Ext else GetFileExtension nm)"
    by (rule CreateInit_file [OF A(2) E(2) ext])
  have al2: "allocated bm1 ?st bm2 st1 h2" by (rule allocated_same [OF A(1) h2(3,4)])
  have lo: "length_ok h2" using A(3) h2(2,3) by (simp add: length_ok_def)
  define st2 where "st2 = st1(sec := header_bytes h2)"
  note N = add_file [OF D sec al2 h2(1) lo, folded st2_def]
  have hw: "HdrWriteBack h2 st1 sec = Inr st2" using header_sized_write(1) [OF h2(1) sec(1,2)] by (simp add: st2_def)
  let ?fs1 = "fs\<lparr>freeMapFile := mf0, fdisk := (fdisk fs)\<lparr>sectors := st1\<rparr>\<rparr>"
  let ?zz = "sec # ?ss"
  have zz: "0 \<in> set ?zz" "1 \<in> set ?zz" "sec \<in> set ?zz" by simp_all
  have "0 \<in> set ?ss" "1 \<in> set ?ss" by simp_all
  note in_ss = this
  have ne: "sec \<noteq> 0" "sec \<noteq> 1" using sec(3) DD(7) [OF in_ss(1)] DD(7) [OF in_ss(2)] by auto
  have f2: "root_handle st2 DirFile" by (rule root_handle_kept [OF f N(2) in_ss(2)])
  have n1: "numBytes (hdr_at st2 1) = 960" "numBytes (hdr_at st2 0) = 128"
    using fs_okD(3,4) [OF ok] same_file_sectors(6) [OF keptD(2) [OF N(2) in_ss(1)]] same_file_sectors(6) [OF keptD(2) [OF N(2) in_ss(2)]]
    by (simp_all add: map_stored_def dir_stored_def)
  have nsec: "numBytes (hdr_at st2 sec) = sz" "numSectors (hdr_at st2 sec) = divRoundUp sz SectorSize"
    using same_file_sectors(6,7) [OF N(3)] h2(2,3) A(4,5) by simp_all
  have mf0: "same_file (hdr_at st2 0) (hdr (freeMapFile ?fs1))"
    using fs_okD(3) [OF ok] visited_same [OF v] same_file_trans [OF same_file_sym [OF keptD(2) [OF N(2) in_ss(1)]]] by (simp add: map_stored_def)
  have hw': "HdrWriteBack h2 (sectors (fdisk ?fs1)) sec = Inr st2" "length (visitorCnt (fdisk ?fs1)) = 1024" "length t' = 10"
    using hw fs_okD(2) [OF ok] t'(2) t(2) by simp_all
  obtain st' mf where fl: "flush_new env ?fs1 DirFile t' bm2 h sec nm isDir
      = Inr (?fs1\<lparr>fdisk := visits ((fdisk ?fs1)\<lparr>sectors := st'\<rparr>) 1 (-1), freeMapFile := mf\<rparr>)"
    and R: "disk_files st' bm2 ?zz" "kept_files {0, 1, sec} st2 st' ?zz" "map_stored st' bm2 mf" "content st' (hdr_at st' 1) = dir_bytes t'"
      "isDir \<Longrightarrow> content st' (hdr_at st' sec) = dir_bytes (new_Directory env)"
    by (rule flush_new_ok [OF N(1) zz ne hw'(1) ci _ hw'(2) E(2) f2 n1(1) t'(1) af(2) hw'(3) mf0 n1(2)]) (use nsec dir in auto)
  have ce: "create_entry env fs DirFile t nm isDir sz = Inr (True, fs\<lparr>fdisk := visits ((fdisk fs)\<lparr>sectors := st'\<rparr>) 1 (-1), freeMapFile := mf\<rparr>)"
    unfolding c create_on_map_def fi using sec(1) a al fl by (simp add: Let_def)
  have k0: "kept_files ({} \<union> {0, 1, sec}) ?st st' ?ss" using kept_trans [OF N(2) kept_files_mset [OF R(2)]] by auto
  have "sec \<notin> set ?ss" using sec(3) DD(7) by blast
  then have kept: "kept_files {0, 1} ?st st' ?ss" using k0 by (auto simp: kept_files_def)
  have ss': "mset (all_files t') = mset ?zz" using af(1) by simp
  have D': "disk_files st' bm2 (all_files t')" by (rule disk_files_mset [OF R(1) ss'])
  have "same_file (hdr_at st' 1) (hdr (directoryFile fs))" "numBytes (hdr_at st' 1) = 960"
    using fs_okD(4) [OF ok] keptD(2) [OF kept in_ss(2)] same_file_trans [OF same_file_sym [OF keptD(2) [OF kept in_ss(2)]]]
      same_file_sectors(6) [OF keptD(2) [OF kept in_ss(2)]] by (simp_all add: dir_stored_def)
  then have "dir_stored st' t' (directoryFile fs)" using R(4) t' t(2) af(2) by (simp add: dir_stored_def)
  then have fin: "fs_ok (fs\<lparr>fdisk := d, freeMapFile := mf\<rparr>) bm2 t'" if "sectors d = st'" "length (visitorCnt d) = 1024" for d
    using D' R(3) that by (simp add: fs_ok_def)
  note K = keptD [OF R(2) zz(3)]
  have "numBytes (hdr_at st' sec) = sz" "numSectors (hdr_at st' sec) = divRoundUp sz SectorSize" "cstr (fileExtension (hdr_at st' sec)) = cstr (if isDir then Dir_Ext else GetFileExtension nm)"
    using nsec same_file_sectors(6,7) [OF K(2)] K(3) N(4) h2(5) by simp_all
  moreover have "marked bm2 = marked bm \<union> set (area st' sec)" "set (area st' sec) \<inter> marked bm = {}" using N(5,6) K(1) by simp_all
  ultimately show ?thesis using ce fin t'(3) kept R(5) by (intro that)
qed

section \<open>Open\<close>

lemma FindDir_root:
  assumes ok: "fs_ok fs bm t" and nm: "slash \<notin> set nm"
  obtains f where "FindDir env fs nm = Inr (t, fs\<lparr>directoryFile := f\<rparr>)" "visited (directoryFile fs) f" "fs_ok (fs\<lparr>directoryFile := f\<rparr>) bm t"
proof -
  have one: "1 \<in> set (all_files t)" by simp
  note F = fs_okD [OF ok]
  obtain f where f: "Dir_FetchFrom env (new_Directory env) (directoryFile fs) (sectors (fdisk fs)) = Inr (t, f)" and v: "visited (directoryFile fs) f"
    by (rule fetch_dir [OF F(1) one F(4)])
  have "FindDir env fs nm = Inr (t, fs\<lparr>directoryFile := f\<rparr>)"
    using f by (simp add: FindDir_def root_sector [OF nm] DirectorySector_def)
  moreover have "fs_ok (fs\<lparr>directoryFile := f\<rparr>) bm t" using ok dir_stored_visited [OF v] by (simp add: fs_ok_def)
  ultimately show ?thesis using v by (intro that)
qed

lemma listed_sector:
  assumes "fs_ok fs bm t" "dir_map t (key nm) = Some s"
  shows "s \<in> set (file_list t)" "s \<in> set (all_files t)" "0 \<le> s" "s < NumSectors" "s \<noteq> 0" "s \<noteq> 1" "s \<noteq> 2"
proof -
  show s: "s \<in> set (file_list t)" by (rule dir_map_entry [OF assms(2)])
  then show a: "s \<in> set (all_files t)" by simp
  note D = fs_okD(1) [OF assms(1)]
  show "0 \<le> s" "s < NumSectors" using disk_filesD(6) [OF D a] by simp_all
  have "distinct (concat (map (area (sectors (fdisk fs))) (all_files t)))" by (rule disk_filesD(4) [OF D])
  then have "set (area (sectors (fdisk fs)) x) \<inter> set (concat (map (area (sectors (fdisk fs))) (file_list t))) = {}" if "x \<in> {0, 1, 2}" for x
    using that by auto
  moreover have "s \<in> set (concat (map (area (sectors (fdisk fs))) (file_list t)))" using s by (auto simp: area_def)
  moreover have "x \<in> set (area (sectors (fdisk fs)) x)" for x by (simp add: area_def)
  ultimately show "s \<noteq> 0" "s \<noteq> 1" "s \<noteq> 2" by blast+
qed

lemma fs_ok_visits: "fs_ok (fs\<lparr>fdisk := visits (fdisk fs) s k\<rparr>) bm t = fs_ok fs bm t"
  by (simp add: fs_ok_def)

lemma Open_root:
  assumes ok: "fs_ok fs bm t" and nm: "slash \<notin> set nm"
  obtains fs' where "Open env fs nm = Inr (map_option (\<lambda>s. \<lparr>hdr = hdr_at (sectors (fdisk fs)) s, seekPosition = 0\<rparr>) (dir_map t (key nm)), fs')"
    "fs_ok fs' bm t" "fdisk fs' = (case dir_map t (key nm) of None \<Rightarrow> fdisk fs | Some s \<Rightarrow> visits (fdisk fs) s 1)"
proof -
  obtain f where f: "FindDir env fs nm = Inr (t, fs\<lparr>directoryFile := f\<rparr>)" "fs_ok (fs\<lparr>directoryFile := f\<rparr>) bm t"
    by (rule FindDir_root [OF ok nm])
  show ?thesis
  proof (cases "dir_map t (key nm)")
    case None
    then show ?thesis using f by (intro that [of "fs\<lparr>directoryFile := f\<rparr>"]) (simp_all add: Open_def root_entry_name [OF nm] Dir_Find_map)
  next
    case (Some s)
    note S = listed_sector [OF ok Some]
    note O = open_at [OF S(3,4) fs_okD(2) [OF ok], of env]
    show ?thesis using f Some S(3) O fs_ok_visits [of "fs\<lparr>directoryFile := f\<rparr>" s 1 bm t]
      by (intro that [of "fs\<lparr>directoryFile := f, fdisk := visits (fdisk fs) s 1\<rparr>"])
        (simp_all add: Open_def root_entry_name [OF nm] Dir_Find_map)
  qed
qed

section \<open>Remove\<close>

lemma fewer_files:
  assumes D: "disk_files st bm (s # ss)" and b: "disk_map bm'" "marked bm' = marked bm - set (area st s)"
  shows "disk_files st bm' ss"
proof -
  have d: "distinct (concat (map (area st) ss))" "set (area st s) \<inter> set (concat (map (area st) ss)) = {}"
    using disk_filesD(4) [OF D] by simp_all
  have sub: "set (concat (map (area st) ss)) \<subseteq> marked bm'" using D d(2) b(2) by (auto simp: disk_files_def)
  have "open_ok st bm' (hdr_at st x)" if x: "x \<in> set ss" for x
  proof -
    have "set (owned st (hdr_at st x)) \<subseteq> marked bm'" using sub x by (auto simp: area_def)
    then show ?thesis using disk_filesD(3) [OF D, of x] x b(1) by (simp add: open_ok_def file_ok_def)
  qed
  then show ?thesis using disk_filesD(2) [OF D] b(1) d(1) sub by (simp add: disk_files_def)
qed

lemma release_file_ok:
  assumes ok: "fs_ok fs bm t" and s: "dir_map t (key nm) = Some s" and h: "same_file (hdr_at (sectors (fdisk fs)) s) h"
  obtains st' bm' t' mf where "release_file env fs t nm h s = Inr (t', fs\<lparr>fdisk := (fdisk fs)\<lparr>sectors := st'\<rparr>, freeMapFile := mf\<rparr>)"
    "dir_ok t'" "dir_storable t'" "length t' = 10" "dir_map t' = (dir_map t)(key nm := None)" "marked bm' = marked bm - set (area (sectors (fdisk fs)) s)"
    "disk_files st' bm' (all_files t')" "map_stored st' bm' mf" "kept_files {0} (sectors (fdisk fs)) st' (all_files t')"
proof -
  let ?d = "fdisk fs" let ?st = "sectors ?d"
  note F = fs_okD [OF ok] and S = listed_sector [OF ok s]
  note D = disk_filesD [OF F(1)]
  have z: "0 \<in> set (all_files t)" by simp
  have t: "dir_ok t" "dir_storable t" "length t = 10" using F(4) by (simp_all add: dir_stored_def)
  obtain bm0 mf0 where b0: "BitMap (heap_junk env) NumSectors = Inr bm0" "map_FetchFrom env bm0 (freeMapFile fs) ?st = Inr (bm, mf0)" "visited (freeMapFile fs) mf0"
    by (rule fetch_map [OF F(1) z F(3), of "heap_junk env" env])
  have okh: "open_ok ?st bm h" using D(3) [OF S(2)] same_file_sectors(5) [OF h] by simp
  have ow: "owned ?st h = owned ?st (hdr_at ?st s)" by (rule same_file_sectors(3) [OF h])
  obtain bm1 where de: "Deallocate h bm ?st = Inr bm1" "disk_map bm1" "marked bm1 = marked bm - set (owned ?st h)"
    using Deallocate_gives_back [OF open_okD(1,2) [OF okh]] by blast
  have dm1: "bm_wf bm1" "numBits bm1 = NumSectors" using de(2) by (simp_all add: disk_map_def)
  obtain bm' where cl: "Clear bm1 s = Inr bm'" "bm_wf bm'" "numBits bm' = numBits bm1" "marked bm' = marked bm1 - {s}"
    using Clear_marked [OF dm1(1) S(3)] S(4) dm1(2) by auto
  have dm': "disk_map bm'" using cl(2,3) dm1(2) by (simp add: disk_map_def)
  have m': "marked bm' = marked bm - set (area ?st s)" using cl(4) de(3) ow by (auto simp: area_def)
  obtain b t' where r: "Dir_Remove t nm = (b, t')" by force
  have t': "dir_ok t'" "length t' = 10" "dir_map t' = (dir_map t)(key nm := None)" using Dir_Remove_spec [OF t(1), of nm] r t(3) by auto
  note rf = Dir_Remove_files [OF s r t(2)]
  have "mset (s # all_files t') = mset (all_files t)" using rf(1) by simp
  then have D1: "disk_files ?st bm' (all_files t')" using fewer_files [OF disk_files_mset [OF F(1)] dm' m'] by blast
  have z': "0 \<in> set (all_files t')" by simp
  have mf: "same_file (hdr_at ?st 0) (hdr mf0)" "numBytes (hdr_at ?st 0) = 128" using F(3) visited_same [OF b0(3)] by (simp_all add: map_stored_def)
  obtain mf' st' where w: "map_WriteBack write_depth env bm' mf0 ?d = Inr (mf', ?d\<lparr>sectors := st'\<rparr>)"
    and R: "disk_files st' bm' (all_files t')" "kept_files {0} ?st st' (all_files t')" "map_stored st' bm' mf'"
    by (rule save_map [OF D1 z' mf])
  have "release_file env fs t nm h s = Inr (t', fs\<lparr>fdisk := ?d\<lparr>sectors := st'\<rparr>, freeMapFile := mf'\<rparr>)"
    using b0(1,2) de(1) cl(1) r w by (simp add: release_file_def)
  then show ?thesis using t'(1) rf(2) t'(2,3) m' R(1,3,2) by (rule that)
qed

lemma Remove_absent:
  assumes ok: "fs_ok fs bm t" and nm: "slash \<notin> set nm" "dir_map t (key nm) = None"
  obtains fs' where "FileSys_Remove env fs nm = Inr (False, fs')" "fs_ok fs' bm t" "fdisk fs' = fdisk fs"
proof -
  obtain f where f: "FindDir env fs nm = Inr (t, fs\<lparr>directoryFile := f\<rparr>)" "fs_ok (fs\<lparr>directoryFile := f\<rparr>) bm t"
    by (rule FindDir_root [OF ok nm(1)])
  then show ?thesis using nm by (intro that [of "fs\<lparr>directoryFile := f\<rparr>"]) (simp_all add: FileSys_Remove_def root_path Dir_Find_map)
qed

lemma Remove_file:
  assumes ok: "fs_ok fs bm t" and nm: "slash \<notin> set nm" "dir_map t (key nm) = Some s"
    and plain: "\<not> is_directory (hdr_at (sectors (fdisk fs)) s)" and v: "visitorCnt (fdisk fs) ! nat s = 0"
  obtains fs' bm' t' where "FileSys_Remove env fs nm = Inr (True, fs')" "fs_ok fs' bm' t'" "dir_map t' = (dir_map t)(key nm := None)"
    "marked bm' = marked bm - set (area (sectors (fdisk fs)) s)" "visitorCnt (fdisk fs') = visitorCnt (fdisk fs)"
    "kept_files {0, 1} (sectors (fdisk fs)) (sectors (fdisk fs')) (all_files t')"
proof -
  let ?d = "fdisk fs" let ?st = "sectors ?d"
  obtain f where f: "FindDir env fs nm = Inr (t, fs\<lparr>directoryFile := f\<rparr>)" "fs_ok (fs\<lparr>directoryFile := f\<rparr>) bm t"
    by (rule FindDir_root [OF ok nm(1)])
  let ?fs = "fs\<lparr>directoryFile := f\<rparr>"
  note S = listed_sector [OF ok nm(2)] and F = fs_okD [OF f(2)]
  define h where "h = (hdr_at ?st s)\<lparr>headerSector := headerSector (header_junk env)\<rparr>"
  have hf: "HdrFetchFrom (header_junk env) ?st s = Inr h" unfolding h_def by (rule hdr_at_fetch [OF S(3,4)])
  have nd: "\<not> is_directory h" using plain by (simp add: h_def is_directory_def)
  have ag: "aget (visitorCnt ?d) s = Inr 0" using S(3,4) fs_okD(2) [OF ok] v by (simp add: aget_ok disk_consts)
  have "same_file (hdr_at ?st s) h" using same_file_refl [OF file_length10 [OF disk_filesD(3) [OF fs_okD(1) [OF ok] S(2)]]] by (simp add: h_def)
  then have sf: "same_file (hdr_at (sectors (fdisk ?fs)) s) h" by simp
  obtain st1 bm' t' mf where r: "release_file env ?fs t nm h s = Inr (t', ?fs\<lparr>fdisk := (fdisk ?fs)\<lparr>sectors := st1\<rparr>, freeMapFile := mf\<rparr>)"
    and t': "dir_ok t'" "dir_storable t'" "length t' = 10" "dir_map t' = (dir_map t)(key nm := None)" and m': "marked bm' = marked bm - set (area (sectors (fdisk ?fs)) s)"
    and k: "disk_files st1 bm' (all_files t')" "map_stored st1 bm' mf" "kept_files {0} (sectors (fdisk ?fs)) st1 (all_files t')"
    by (rule release_file_ok [OF f(2) nm(2) sf])
  let ?d1 = "?d\<lparr>sectors := st1\<rparr>"
  have one: "1 \<in> set (all_files t')" "0 \<in> set (all_files t')" by simp_all
  note K = keptD(2) [OF k(3) one(1)]
  have "same_file (hdr_at st1 1) (hdr f)" "numBytes (hdr_at st1 1) = 960"
    using F(4) same_file_trans [OF same_file_sym [OF K]] same_file_sectors(6) [OF K] by (simp_all add: dir_stored_def)
  then have d1: "disk_files (sectors ?d1) bm' (all_files t')" "same_file (hdr_at (sectors ?d1) 1) (hdr f)" "numBytes (hdr_at (sectors ?d1) 1) = 960" using k(1) by simp_all
  obtain f2 st2 where w: "Dir_WriteBack write_depth env t' f ?d1 = Inr (f2, ?d1\<lparr>sectors := st2\<rparr>)"
    and R': "disk_files st2 bm' (all_files t')" "kept_files {1} (sectors ?d1) st2 (all_files t')" "dir_stored st2 t' f2"
    by (rule save_dir [OF d1(1) one(1) d1(2,3) t'(1-3), of write_depth env])
  then have R: "kept_files {1} st1 st2 (all_files t')" by simp
  have ms: "map_stored st2 bm' mf" using stored_kept(1) [OF R one(2,1)] k(2) by simp
  let ?fs' = "fs\<lparr>directoryFile := f2, fdisk := ?d\<lparr>sectors := st2\<rparr>, freeMapFile := mf\<rparr>"
  have "FileSys_Remove env fs nm = Inr (True, ?fs')"
    using f(1) nm S(3) hf nd ag r w by (simp add: FileSys_Remove_def root_path Dir_Find_map)
  moreover have "fs_ok ?fs' bm' t'" using R' ms fs_okD(2) [OF ok] by (simp add: fs_ok_def)
  moreover have "kept_files ({0} \<union> {1}) ?st st2 (all_files t')" using kept_trans [OF _ R] k(3) by simp
  then have "kept_files {0, 1} ?st (sectors (fdisk ?fs')) (all_files t')" by (simp add: insert_commute)
  ultimately show ?thesis using t'(4) m' by (intro that [of ?fs' bm' t']) simp_all
qed

text \<open>A directory: opened to be looked into, and closed again only if it is not empty.\<close>

lemma check_empty_ok:
  assumes D: "disk_files (sectors d) bm ss" and s: "s \<in> set ss" and v: "length (visitorCnt d) = 1024" and env: "length (now env) = 25"
  obtains "check_empty env d s = Inr (True, visits d s 1)"
  | st' where "check_empty env d s = Inr (False, d\<lparr>sectors := st'\<rparr>)" "disk_files st' bm ss" "kept_files {} (sectors d) st' ss"
proof -
  let ?st = "sectors d"
  have r: "0 \<le> s" "s < NumSectors" using disk_filesD(6) [OF D s] by simp_all
  let ?f = "\<lparr>hdr = hdr_at ?st s, seekPosition = 0\<rparr>"
  have oks: "open_ok ?st bm (hdr ?f)" using disk_filesD(3) [OF D s] by simp
  have sf: "same_file (hdr_at ?st s) (hdr_at ?st s)" by (rule same_file_refl [OF file_length10 [OF disk_filesD(3) [OF D s]]])
  have sz: "header_sized (hdr_at ?st s)" by (rule hdr_at_sized [OF disk_filesD(2) [OF D] r])
  obtain f' where ra: "ReadAt env ?f ?st (int (length (new_Directory env)) * entry_size) 0
      = Inr (take (nat (int (length (new_Directory env)) * entry_size)) (drop (nat 0) (content ?st (hdr ?f))), f')"
    by (rule ReadAt_visited [OF oks order_refl])
  then obtain x where fe: "Dir_FetchFrom env (new_Directory env) ?f (sectors (visits d s 1)) = Inr (x, f')" by (simp add: Dir_FetchFrom_def)
  have o: "OpenFile_new env d s = Inr (?f, visits d s 1)" by (rule open_at [OF r v])
  have h': "headerSector (hdr f') = s" "header_sized (hdr f')" "same_file (hdr_at (sectors (visits d s 1)) s) (hdr f')"
    "fileExtension (hdr f') = fileExtension (hdr_at (sectors (visits d s 1)) s)" "length (visitorCnt (visits d s 1)) = 1024"
    "disk_files (sectors (visits d s 1)) bm ss"
    using FetchFrom_time [OF fe] sf sz env v D by (auto simp: header_sized_def)
  obtain st' where c: "OpenFile_delete f' (visits d s 1) = Inr (visits ((visits d s 1)\<lparr>sectors := st'\<rparr>) s (-1))"
    and k: "kept_files {} (sectors (visits d s 1)) st' ss" "disk_files st' bm ss"
    by (rule close_at [OF h'(6) s h'(1-5)])
  have "visits ((visits d s 1)\<lparr>sectors := st'\<rparr>) s (-1) = d\<lparr>sectors := st'\<rparr>"
    using visits_back [OF r(1), of d] r(2) v by (simp add: disk_consts)
  then have c': "OpenFile_delete f' (visits d s 1) = Inr (d\<lparr>sectors := st'\<rparr>)" using c by simp
  show ?thesis
  proof (cases "Dir_IsEmpty x")
    case True
    then have "check_empty env d s = Inr (True, visits d s 1)" using o fe by (simp add: check_empty_def)
    then show ?thesis by (rule that(1))
  next
    case False
    then have "check_empty env d s = Inr (False, d\<lparr>sectors := st'\<rparr>)" using o fe c' by (simp add: check_empty_def)
    then show ?thesis using k by (intro that(2)) simp_all
  qed
qed

lemma fs_ok_kept:
  assumes ok: "fs_ok fs bm t" and k: "kept_files {} (sectors (fdisk fs)) st' (all_files t)" "disk_files st' bm (all_files t)"
  shows "fs_ok (fs\<lparr>fdisk := (fdisk fs)\<lparr>sectors := st'\<rparr>\<rparr>) bm t"
  using fs_okD [OF ok] k(2) stored_kept(1) [OF k(1), of bm "freeMapFile fs"] stored_kept(2) [OF k(1), of t "directoryFile fs"] by (simp add: fs_ok_def)

lemma Remove_directory:
  assumes ok: "fs_ok fs bm t" and env: "env_ok env" and nm: "slash \<notin> set nm" "dir_map t (key nm) = Some s"
    and dir: "is_directory (hdr_at (sectors (fdisk fs)) s)" and v: "0 \<le> visitorCnt (fdisk fs) ! nat s"
  obtains fs' where "FileSys_Remove env fs nm = Inr (False, fs')" "fs_ok fs' bm t"
    "visitorCnt (fdisk fs') = visitorCnt (fdisk fs) \<or> visitorCnt (fdisk fs') = visitorCnt (visits (fdisk fs) s 1)"
proof -
  let ?d = "fdisk fs" let ?st = "sectors ?d"
  obtain f where f: "FindDir env fs nm = Inr (t, fs\<lparr>directoryFile := f\<rparr>)" "fs_ok (fs\<lparr>directoryFile := f\<rparr>) bm t"
    by (rule FindDir_root [OF ok nm(1)])
  let ?fs = "fs\<lparr>directoryFile := f\<rparr>"
  note S = listed_sector [OF ok nm(2)] and F = fs_okD [OF ok]
  define h where "h = (hdr_at ?st s)\<lparr>headerSector := headerSector (header_junk env)\<rparr>"
  have hf: "HdrFetchFrom (header_junk env) ?st s = Inr h" unfolding h_def by (rule hdr_at_fetch [OF S(3,4)])
  have nd: "is_directory h" using dir by (simp add: h_def is_directory_def)
  have e: "length (now env) = 25" using env by (simp add: env_ok_def)
  note start = f(1) nm S(3) hf nd
  show ?thesis
  proof (rule check_empty_ok [OF F(1) S(2) F(2) e])
    assume c: "check_empty env ?d s = Inr (True, visits ?d s 1)"
    have "aget (visitorCnt (visits ?d s 1)) s = Inr (visitorCnt ?d ! nat s + 1)"
      using S(3,4) F(2) by (simp add: aget_ok disk_consts visits_def nat_less_iff)
    then have "FileSys_Remove env fs nm = Inr (False, ?fs\<lparr>fdisk := visits ?d s 1\<rparr>)"
      using start c v by (simp add: FileSys_Remove_def root_path Dir_Find_map)
    moreover have "fs_ok (?fs\<lparr>fdisk := visits ?d s 1\<rparr>) bm t" using f(2) fs_ok_visits [of ?fs s 1 bm t] by simp
    ultimately show thesis by (rule that) simp
  next
    fix st' assume c: "check_empty env ?d s = Inr (False, ?d\<lparr>sectors := st'\<rparr>)" and k: "disk_files st' bm (all_files t)" "kept_files {} ?st st' (all_files t)"
    have "FileSys_Remove env fs nm = Inr (False, ?fs\<lparr>fdisk := ?d\<lparr>sectors := st'\<rparr>\<rparr>)"
      using start c by (simp add: FileSys_Remove_def root_path Dir_Find_map)
    moreover have "fs_ok (?fs\<lparr>fdisk := ?d\<lparr>sectors := st'\<rparr>\<rparr>) bm t" using fs_ok_kept [OF f(2)] k by simp
    ultimately show thesis by (rule that) simp
  qed
qed

end
