(* ===== verification/FsFormat.thy ===== *)
theory FsFormat
  imports FsOps
begin

text \<open>
  Formatting a disk gives a file system in good order with an empty root directory. The state it ends in
  is the one the properties of the file system are applied to.
\<close>

section \<open>The three system files\<close>

lemma new_map_empty:
  obtains bm0 where "BitMap junk NumSectors = Inr bm0" "disk_map bm0" "marked bm0 = {}"
proof -
  let ?b = "\<lparr>numBits = NumSectors, numWords = 32, bwords = map junk [0..<32]\<rparr>"
  have wf: "bm_wf ?b" by (simp add: bm_wf_def disk_consts divRoundUp_def BitsInWord_def)
  obtain bm0 where c: "clear_from ?b 0 1024 = Inr bm0" and b: "bm_wf bm0" "numBits bm0 = numBits ?b" "marked bm0 = marked ?b - {0..<1024}"
    using clear_from_marked [OF wf, of 0 1024] by (auto simp: disk_consts)
  have "BitMap junk NumSectors = Inr bm0"
    using c by (simp add: BitMap_def disk_consts divRoundUp_def BitsInWord_def)
  moreover have "disk_map bm0" using b(1,2) by (simp add: disk_map_def)
  moreover have "marked bm0 = {}" using b(3) marked_range [of ?b] by (auto simp: disk_consts)
  ultimately show ?thesis by (rule that)
qed

lemma mark_disk:
  assumes "disk_map bm" "0 \<le> s" "s < NumSectors"
  obtains bm' where "Mark bm s = Inr bm'" "disk_map bm'" "marked bm' = insert s (marked bm)"
  using Mark_marked [of bm s] assms by (auto simp: disk_map_def)

text \<open>A file of at most eight sectors has no index table: allocating it does not write to the disk.\<close>

lemma system_file_ok:
  assumes env: "env_ok env" and bm: "disk_map bm" and st: "store_wf st" and n: "0 \<le> n" "divRoundUp n SectorSize = int k" "k \<le> 8" "k \<le> card (bm.free bm)"
    and ext: "length (cstr ext) \<le> 4"
  obtains h bm' where "system_file env ext bm st n = Inr (h, bm', st)" "header_sized h" "open_ok st bm' h" "numBytes h = n"
    "disk_map bm'" "marked bm' = marked bm \<union> set (owned st h)" "set (owned st h) \<inter> marked bm = {}" "card (bm.free bm') = card (bm.free bm) - k"
proof -
  have E: "header_sized (header_junk env)" "length (now env) = 25" using env by (simp_all add: env_ok_def)
  obtain h0 where c: "CreateInit env (header_junk env) ext = Inr h0" and h0: "header_sized h0" by (rule CreateInit_file [OF E ext])
  have l: "length (dataSectors h0) = 10" using h0 by (simp add: header_sized_def)
  have "k + index_sectors k \<le> card (bm.free bm)" using n(3,4) by (simp add: index_sectors_def)
  then obtain h bm' st' where a: "Allocate (stack_junk env) h0 bm st n = Inr (True, h, bm', st')"
    using Allocate_outcome [OF bm st l n(2), of "stack_junk env"] by auto
  note A = Allocate_file [OF bm st h0 n(1) a]
  have "tables st' h = []" using A(5) n(2,3) by (simp add: tables_def tables_of_def)
  then have "st' = st" using A(1) by (auto simp: allocated_def)
  then have B: "file_ok st bm' h" "disk_map bm'" "set (owned st h) \<inter> marked bm = {}" "marked bm' = marked bm \<union> set (owned st h)"
    using A(1) by (simp_all add: allocated_def)
  have ok: "open_ok st bm' h" using B(1,2) st A(3) by (simp add: open_ok_def)
  have "length (owned st h) = k"
    using A(5) n(2) \<open>tables st' h = []\<close> \<open>st' = st\<close> by (simp add: owned_def blocks_def blocks_of_def)
  then have "card (set (owned st h)) = k" using B(1) by (simp add: file_ok_def distinct_card)
  then have "card (marked bm') = card (marked bm) + k" using B(3,4) finite_marked by (simp add: card_Un_disjoint Int_commute)
  then have "card (bm.free bm') = card (bm.free bm) - k" using free_card [OF bm] free_card [OF B(2)] by linarith
  moreover have "system_file env ext bm st n = Inr (h, bm', st)" using c a \<open>st' = st\<close> by (simp add: system_file_def)
  ultimately show ?thesis using A(2,4) ok B by (intro that) simp_all
qed

text \<open>Headers written to sectors that no file owns.\<close>

lemma hdr_at_headers:
  assumes h: "header_sized h" "open_ok st bm h" and s: "0 \<le> s" "s < NumSectors"
    and st': "store_wf st'" "st' s = header_bytes h" "touches A st st'" "A \<inter> set (owned st h) = {}"
  shows "same_file h (hdr_at st' s)" "open_ok st' bm (hdr_at st' s)" "owned st' (hdr_at st' s) = owned st h"
proof -
  have e: "hdr_at st' s = hdr_at (st(s := header_bytes h)) s" using st'(2) by (intro hdr_at_other) simp
  show sf: "same_file h (hdr_at st' s)" unfolding e by (rule hdr_at_write(1) [OF h(1) s h(2) open_ok_int32 [OF h(2)]])
  note C = content_other [OF h(2) st'(3,4,1)]
  show "open_ok st' bm (hdr_at st' s)" "owned st' (hdr_at st' s) = owned st h" using same_file_sectors [OF sf] C by simp_all
qed

lemma new_Directory_files: "all_files (new_Directory env) = [0, 1, 2]"
  by (simp add: file_list_def new_Directory_def Directory_new_def filter_empty_conv)

theorem format_ok:
  assumes env: "env_ok env" and wf: "store_wf (sectors d)" and v: "length (visitorCnt d) = 1024"
  obtains fs bm where "FileSystem_format env d = Inr fs" "fs_ok fs bm (new_Directory env)" "card (bm.free bm) = 1012"
    "visitorCnt (fdisk fs) = visitorCnt (visits (visits d 0 1) 1 1)"
proof -
  let ?st = "sectors d" and ?t = "new_Directory env"
  have r: "(0::int) \<le> 0" "0 < NumSectors" "(0::int) \<le> 1" "1 < NumSectors" "(0::int) \<le> 2" "2 < NumSectors" by (simp_all add: disk_consts)
  obtain b0 where b0: "BitMap (heap_junk env) NumSectors = Inr b0" "disk_map b0" "marked b0 = {}" by (rule new_map_empty)
  obtain b1 where b1: "Mark b0 0 = Inr b1" "disk_map b1" "marked b1 = insert 0 (marked b0)" by (rule mark_disk [OF b0(2) r(1,2)])
  obtain b2 where b2: "Mark b1 1 = Inr b2" "disk_map b2" "marked b2 = insert 1 (marked b1)" by (rule mark_disk [OF b1(2) r(3,4)])
  obtain b3 where b3: "Mark b2 2 = Inr b3" "disk_map b3" "marked b3 = insert 2 (marked b2)" by (rule mark_disk [OF b2(2) r(5,6)])
  have m3: "marked b3 = {0, 1, 2}" using b0(3) b1(3) b2(3) b3(3) by auto
  then have f3: "card (bm.free b3) = 1021" using free_card [OF b3(2)] by simp
  have ext: "length (cstr [66, 72, 100, 114]) \<le> 4" "length (cstr [68, 72, 100, 114]) \<le> 4" "length (cstr [80, 72, 100, 114]) \<le> 4"
    by (simp_all add: cstr_def)
  have sz: "(0::int) \<le> FreeMapFileSize" "divRoundUp FreeMapFileSize SectorSize = int 1" "(0::int) \<le> DirectoryFileSize"
    "divRoundUp DirectoryFileSize SectorSize = int 8" "divRoundUp 0 SectorSize = int 0" "FreeMapFileSize = 128"
    by (simp_all add: FreeMapFileSize_def DirectoryFileSize_val divRoundUp_def disk_consts BitsInByte_def)
  have c3: "1 \<le> card (bm.free b3)" using f3 by simp
  obtain m b4 where m: "system_file env [66, 72, 100, 114] b3 ?st FreeMapFileSize = Inr (m, b4, ?st)" "header_sized m" "open_ok ?st b4 m" "numBytes m = FreeMapFileSize"
    and b4: "disk_map b4" "marked b4 = marked b3 \<union> set (owned ?st m)" "set (owned ?st m) \<inter> marked b3 = {}" "card (bm.free b4) = card (bm.free b3) - 1"
    by (rule system_file_ok [OF env b3(2) wf sz(1,2) _ c3 ext(1)]) simp_all
  have c4: "8 \<le> card (bm.free b4)" using b4(4) f3 by simp
  obtain q b5 where q: "system_file env [68, 72, 100, 114] b4 ?st DirectoryFileSize = Inr (q, b5, ?st)" "header_sized q" "open_ok ?st b5 q" "numBytes q = DirectoryFileSize"
    and b5: "disk_map b5" "marked b5 = marked b4 \<union> set (owned ?st q)" "set (owned ?st q) \<inter> marked b4 = {}" "card (bm.free b5) = card (bm.free b4) - 8"
    by (rule system_file_ok [OF env b4(1) wf sz(3,4) _ c4 ext(2)]) simp_all
  obtain p b6 where p: "system_file env [80, 72, 100, 114] b5 ?st 0 = Inr (p, b6, ?st)" "header_sized p" "open_ok ?st b6 p" "numBytes p = 0"
    and b6: "disk_map b6" "marked b6 = marked b5 \<union> set (owned ?st p)" "set (owned ?st p) \<inter> marked b5 = {}" "card (bm.free b6) = card (bm.free b5) - 0"
    by (rule system_file_ok [OF env b5(1) wf order_refl sz(5) _ _ ext(3)]) simp_all
  define st1 where "st1 = ?st(0 := header_bytes m)"
  define st2 where "st2 = st1(1 := header_bytes q)"
  define st3 where "st3 = st2(2 := header_bytes p)"
  have w: "HdrWriteBack m ?st 0 = Inr st1" "HdrWriteBack q st1 1 = Inr st2" "HdrWriteBack p st2 2 = Inr st3"
    unfolding st1_def st2_def st3_def using header_sized_write(1) m(2) q(2) p(2) r by blast+
  have wf3: "store_wf st3"
    unfolding st1_def st2_def st3_def using header_sized_write(2) m(2) q(2) p(2) r wf by blast
  have t3: "touches {0, 1, 2} ?st st3" by (simp add: touches_def st1_def st2_def st3_def)
  have s3: "st3 0 = header_bytes m" "st3 1 = header_bytes q" "st3 2 = header_bytes p" by (simp_all add: st1_def st2_def st3_def)
  have up: "open_ok ?st b6 m" "open_ok ?st b6 q"
    using m(3) q(3) b4(2) b5(2) b6(1,2) unfolding open_ok_def file_ok_def by blast+
  have dj: "{0, 1, 2} \<inter> set (owned ?st m) = {}" "{0, 1, 2} \<inter> set (owned ?st q) = {}" "{0, 1, 2} \<inter> set (owned ?st p) = {}"
    using b4(2,3) b5(2,3) b6(2,3) m3 by auto
  note H0 = hdr_at_headers [OF m(2) up(1) r(1,2) wf3 s3(1) t3 dj(1)]
  note H1 = hdr_at_headers [OF q(2) up(2) r(3,4) wf3 s3(2) t3 dj(2)]
  note H2 = hdr_at_headers [OF p(2,3) r(5,6) wf3 s3(3) t3 dj(3)]
  have ar: "area st3 0 = 0 # owned ?st m" "area st3 1 = 1 # owned ?st q" "area st3 2 = 2 # owned ?st p" using H0(3) H1(3) H2(3) by (simp_all add: area_def)
  have "distinct (concat (map (area st3) [0, 1, 2]))"
    using up p(3) b4(2,3) b5(2,3) b6(2,3) m3 dj unfolding open_ok_def file_ok_def by (auto simp: ar)
  moreover have "set (concat (map (area st3) [0, 1, 2])) \<subseteq> marked b6" using b4(2) b5(2) b6(2) m3 by (auto simp: ar)
  ultimately have D3: "disk_files st3 b6 (all_files ?t)"
    unfolding new_Directory_files using b6(1) wf3 H0(2) H1(2) H2(2) by (simp add: disk_files_def)
  let ?d3 = "d\<lparr>sectors := st3\<rparr>"
  have z: "0 \<in> set (all_files ?t)" "1 \<in> set (all_files ?t)" by simp_all
  have v3: "length (visitorCnt ?d3) = 1024" "length (visitorCnt (visits ?d3 0 1)) = 1024" using v by simp_all
  note O0 = open_at [OF r(1,2) v3(1), of env] and O1 = open_at [OF r(3,4) v3(2), of env]
  let ?d4 = "visits (visits ?d3 0 1) 1 1"
  let ?mf = "\<lparr>hdr = hdr_at st3 0, seekPosition = 0\<rparr>" and ?df = "\<lparr>hdr = hdr_at st3 1, seekPosition = 0\<rparr>"
  have a0: "disk_files (sectors ?d4) b6 (all_files ?t)" "same_file (hdr_at (sectors ?d4) 0) (hdr ?mf)" "numBytes (hdr_at (sectors ?d4) 0) = 128"
    using D3 same_file_refl [OF file_length10 [OF H0(2)]] same_file_sectors(6) [OF H0(1)] m(4) sz(6) by simp_all
  obtain mf st4 where w4: "map_WriteBack write_depth env b6 ?mf ?d4 = Inr (mf, ?d4\<lparr>sectors := st4\<rparr>)" and k4: "disk_files st4 b6 (all_files ?t)"
    "kept_files {0} (sectors ?d4) st4 (all_files ?t)" "map_stored st4 b6 mf"
    by (rule save_map [OF a0(1) z(1) a0(2,3), of write_depth env])
  have k4': "kept_files {0} st3 st4 (all_files ?t)" using k4(2) by simp
  let ?d5 = "?d4\<lparr>sectors := st4\<rparr>"
  note K4 = keptD(2) [OF k4' z(2)]
  have a5: "disk_files (sectors ?d5) b6 (all_files ?t)" "same_file (hdr_at (sectors ?d5) 1) (hdr ?df)" "numBytes (hdr_at (sectors ?d5) 1) = 960"
    using k4(1) same_file_sym [OF K4] same_file_sectors(6) [OF K4] same_file_sectors(6) [OF H1(1)] q(4) by (simp_all add: DirectoryFileSize_val)
  obtain df st5 where w5: "Dir_WriteBack write_depth env ?t ?df ?d5 = Inr (df, ?d5\<lparr>sectors := st5\<rparr>)" and k5: "disk_files st5 b6 (all_files ?t)"
    "kept_files {1} (sectors ?d5) st5 (all_files ?t)" "dir_stored st5 ?t df"
    by (rule save_dir [OF a5(1) z(2) a5(2,3) new_Directory_ok(1,4,3), of write_depth env])
  have k5': "kept_files {1} st4 st5 (all_files ?t)" using k5(2) by simp
  have ms: "map_stored st5 b6 mf" using stored_kept(1) [OF k5' z] k4(3) by simp
  let ?fs = "\<lparr>fdisk = ?d5\<lparr>sectors := st5\<rparr>, freeMapFile = mf, directoryFile = df\<rparr>"
  have "FileSystem_format env d = Inr ?fs"
    using b0(1) b1(1) b2(1) b3(1) m(1) q(1) p(1) w O0 O1 w4 w5
    by (simp add: FileSystem_format_def Let_def FreeMapSector_def DirectorySector_def PipeSector_def)
  moreover have "fs_ok ?fs b6 ?t" using k5(1,3) ms v by (simp add: fs_ok_def)
  moreover have "card (bm.free b6) = 1012" using b4(4) b5(4) b6(4) f3 by simp
  ultimately show ?thesis by (intro that [of ?fs b6]) (simp_all add: visits_def)
qed

end
