(* ===== verification/FsFacts.thy ===== *)
theory FsFacts
  imports FsFormat
begin

text \<open>
  What \<open>Create\<close>, \<open>Open\<close> and \<open>Remove\<close> do with the files of the root directory, as operations on the
  finite map from names to contents that a file system in good order stands for.
\<close>

section \<open>The map from names to contents\<close>

definition files :: "file_system \<Rightarrow> directory \<Rightarrow> byte list \<Rightarrow> byte list option" where
  "files fs t k = map_option (\<lambda>s. content (sectors (fdisk fs)) (hdr_at (sectors (fdisk fs)) s)) (dir_map t k)"

lemma files_kept:
  assumes "fs_ok fs bm t" "kept_files X (sectors (fdisk fs)) (sectors (fdisk fs')) (all_files t)" "X \<subseteq> {0, 1}" "dir_map t' (key k) = dir_map t (key k)"
  shows "files fs' t' (key k) = files fs t (key k)"
proof (cases "dir_map t (key k)")
  case (Some s)
  have "s \<in> set (all_files t)" "s \<notin> X" using listed_sector [OF assms(1) Some] assms(3) by auto
  then show ?thesis using keptD(4) [OF assms(2)] assms(4) Some by (simp add: files_def)
qed (simp add: files_def assms(4))

lemma distinct_concat_nonempty: "distinct (concat (map f xs)) \<Longrightarrow> (\<And>x. f x \<noteq> []) \<Longrightarrow> distinct xs"
proof (induction xs)
  case (Cons a xs)
  have "set (f a) \<subseteq> set (concat (map f xs))" if "a \<in> set xs" using that by auto
  then have "a \<notin> set xs" using Cons.prems(1) Cons.prems(2) [of a] by (cases "f a") auto
  then show ?case using Cons by simp
qed simp

lemma map_of_inj: "distinct (map snd ps) \<Longrightarrow> map_of ps k = Some x \<Longrightarrow> map_of ps k' = Some x \<Longrightarrow> k = k'"
  by (induction ps) (force simp: dest: map_of_SomeD split: if_splits)+

lemma dir_map_inj:
  assumes "fs_ok fs bm t" "dir_map t k = Some x" "dir_map t k' = Some x" shows "k = k'"
proof -
  have "distinct (all_files t)"
    using distinct_concat_nonempty [OF disk_filesD(4) [OF fs_okD(1) [OF assms(1)]]] by (simp add: area_def)
  then have "distinct (map snd (map (\<lambda>e. (key (name e), sector e)) (filter inUse t)))" by (simp add: file_list_def comp_def)
  from map_of_inj [OF this assms(2,3) [unfolded dir_map_def]] show ?thesis .
qed

lemma root_visits:
  assumes "length (visitorCnt d) = 1024"
  shows "visitorCnt (visits (visits d 1 1) 1 (-1)) = visitorCnt d"
  using visits_back [of 1 d] assms by simp

lemma new_file_free:
  assumes D: "disk_files st bm ss" and D': "disk_files st' bm' ss'" and s: "s \<in> set ss'" and m: "marked bm' = marked bm \<union> set (area st' s)"
    "set (area st' s) \<inter> marked bm = {}"
  shows "card (bm.free bm') = card (bm.free bm) - (1 + nat (numSectors (hdr_at st' s)) + index_sectors (nat (numSectors (hdr_at st' s))))"
proof -
  have ok: "open_ok st' bm' (hdr_at st' s)" by (rule disk_filesD(3) [OF D' s])
  have "numSectors (hdr_at st' s) \<le> 1064" using open_okD(1) [OF ok] by (simp add: file_ok_def hdr_consts)
  then have "nat (numSectors (hdr_at st' s)) \<le> 1064" by linarith
  then have "length (area st' s) = 1 + nat (numSectors (hdr_at st' s)) + index_sectors (nat (numSectors (hdr_at st' s)))"
    by (simp add: area_def owned_def tables_def blocks_def blocks_of_def length_tables_of)
  then have "card (set (area st' s)) = 1 + nat (numSectors (hdr_at st' s)) + index_sectors (nat (numSectors (hdr_at st' s)))"
    using distinct_card [OF area_distinct(2) [OF D' s]] by simp
  moreover have "card (marked bm') = card (marked bm) + card (set (area st' s))"
    unfolding m(1) using m(2) finite_marked by (intro card_Un_disjoint) auto
  ultimately show ?thesis using free_card [OF disk_filesD(1) [OF D]] free_card [OF disk_filesD(1) [OF D']] by linarith
qed

section \<open>Creating\<close>

lemma Create_root:
  assumes ok: "fs_ok fs bm t" and env: "env_ok env" and nm: "slash \<notin> set nm" and sz: "0 \<le> sz \<or> sz = -1"
    and n: "n = nat (divRoundUp (if sz = -1 then 960 else sz) SectorSize)"
    and yes: "dir_map t (key nm) = None" "card (dom (dir_map t)) < 10" "n + index_sectors n < card (bm.free bm)"
    and ext: "sz \<noteq> -1 \<Longrightarrow> length (cstr (GetFileExtension nm)) \<le> 4"
  obtains fs' bm' t' s where "Create env fs nm sz = Inr (True, fs')" "fs_ok fs' bm' t'" "dir_map t' = (dir_map t)(key nm \<mapsto> s)"
    "numBytes (hdr_at (sectors (fdisk fs')) s) = (if sz = -1 then 960 else sz)"
    "numSectors (hdr_at (sectors (fdisk fs')) s) = divRoundUp (if sz = -1 then 960 else sz) SectorSize"
    "cstr (fileExtension (hdr_at (sectors (fdisk fs')) s)) = cstr (if sz = -1 then Dir_Ext else GetFileExtension nm)"
    "marked bm' = marked bm \<union> set (area (sectors (fdisk fs')) s)" "set (area (sectors (fdisk fs')) s) \<inter> marked bm = {}"
    "kept_files {0, 1} (sectors (fdisk fs)) (sectors (fdisk fs')) (all_files t)" "visitorCnt (fdisk fs') = visitorCnt (fdisk fs)"
proof -
  let ?fs = "fs\<lparr>fdisk := visits (fdisk fs) 1 1\<rparr>" and ?sz = "if sz = -1 then 960 else sz"
  have v: "length (visitorCnt (fdisk fs)) = 1024" by (rule fs_okD(2) [OF ok])
  have ok1: "fs_ok ?fs bm t" using ok by (simp add: fs_ok_visits)
  obtain DirFile where c: "Create env fs nm sz = create_entry env ?fs DirFile t nm (sz = -1) ?sz" and f: "root_handle (sectors (fdisk fs)) DirFile"
    by (rule create_start [OF ok env nm, of sz, unfolded DirectoryFileSize_val])
  have P: "0 \<le> ?sz" "length (cstr (if sz = -1 then Dir_Ext else GetFileExtension nm)) \<le> 4" "root_handle (sectors (fdisk ?fs)) DirFile"
    "sz = -1 \<Longrightarrow> ?sz = 960"
    using sz ext f by (auto simp: Dir_Ext_def cstr_def)
  obtain sec bm' t' st' mf where m: "create_entry env ?fs DirFile t nm (sz = -1) ?sz
        = Inr (True, ?fs\<lparr>fdisk := visits ((fdisk ?fs)\<lparr>sectors := st'\<rparr>) 1 (-1), freeMapFile := mf\<rparr>)"
    and ok': "\<And>d. sectors d = st' \<Longrightarrow> length (visitorCnt d) = 1024 \<Longrightarrow> fs_ok (?fs\<lparr>fdisk := d, freeMapFile := mf\<rparr>) bm' t'"
    and r: "dir_map t' = (dir_map t)(key nm \<mapsto> sec)" "numBytes (hdr_at st' sec) = ?sz" "numSectors (hdr_at st' sec) = divRoundUp ?sz SectorSize"
      "cstr (fileExtension (hdr_at st' sec)) = cstr (if sz = -1 then Dir_Ext else GetFileExtension nm)"
      "marked bm' = marked bm \<union> set (area st' sec)" "set (area st' sec) \<inter> marked bm = {}"
      "kept_files {0, 1} (sectors (fdisk ?fs)) st' (all_files t)"
      "sz = -1 \<Longrightarrow> content st' (hdr_at st' sec) = dir_bytes (new_Directory env)"
    by (rule create_made [OF ok1 env P(1) n yes P(2,3) P(4)]) (assumption, rule that, assumption+)
  let ?fs' = "?fs\<lparr>fdisk := visits ((fdisk ?fs)\<lparr>sectors := st'\<rparr>) 1 (-1), freeMapFile := mf\<rparr>"
  have st': "sectors (fdisk ?fs') = st'" by simp
  have "fs_ok ?fs' bm' t'" by (rule ok') (simp_all add: v)
  moreover have "visitorCnt (fdisk ?fs') = visitorCnt (fdisk fs)" using root_visits [OF v] by (simp add: visits_def)
  ultimately show ?thesis using c m r that [of ?fs' bm' t' sec] unfolding st' by simp
qed

lemma Create_refused:
  assumes ok: "fs_ok fs bm t" and env: "env_ok env" and nm: "slash \<notin> set nm"
    and n: "divRoundUp (if sz = -1 then 960 else sz) SectorSize = int n"
    and no: "dir_map t (key nm) \<noteq> None \<or> card (dom (dir_map t)) = 10 \<or> card (bm.free bm) \<le> n + index_sectors n"
  obtains fs' where "Create env fs nm sz = Inr (False, fs')" "fs_ok fs' bm t" "fdisk fs' = visits (fdisk fs) 1 1"
proof -
  let ?fs = "fs\<lparr>fdisk := visits (fdisk fs) 1 1\<rparr>"
  have ok1: "fs_ok ?fs bm t" using ok by (simp add: fs_ok_visits)
  obtain DirFile where c: "Create env fs nm sz = create_entry env ?fs DirFile t nm (sz = -1) (if sz = -1 then 960 else sz)"
    by (rule create_start [OF ok env nm, of sz, unfolded DirectoryFileSize_val])
  obtain fs' where "create_entry env ?fs DirFile t nm (sz = -1) (if sz = -1 then 960 else sz) = Inr (False, fs')" "fs_ok fs' bm t"
      "fdisk fs' = fdisk ?fs"
    by (rule create_refused [OF ok1 env n no])
  then show ?thesis using c by (intro that) simp_all
qed

text \<open>What a formatted disk looks like with one file, and with one directory.\<close>

abbreviation blank_disk :: fs_disk where
  "blank_disk \<equiv> \<lparr>sectors = zero_store, visitorCnt = replicate 1024 0\<rparr>"

lemma sample_env_ok: "env_ok sample_env"
  by (simp add: env_ok_def sample_env_def header_sized_def sample_header_def)

lemma formatted:
  obtains fs bm where "FileSystem_format sample_env blank_disk = Inr fs" "fs_ok fs bm (new_Directory sample_env)" "card (bm.free bm) = 1012"
    "visitorCnt (fdisk fs) = (replicate 1024 0)[0 := 1, 1 := 1]"
  by (rule format_ok [OF sample_env_ok, of blank_disk]) (use that in \<open>auto simp: visits_def\<close>)

lemma new_Directory_empty: "dir_map (new_Directory env) k = None" "dom (dir_map (new_Directory env)) = {}"
  by (simp_all add: new_Directory_ok(2))

lemma key_hi: "cstr [104, 105] = [104, 105]" "key [104, 105] = [104, 105]" "slash \<notin> set [104, 105]" "GetFileExtension [104, 105] = []"
  by (simp_all add: cstr_def key_def FileNameMaxLen_def GetFileExtension_def upto_last_def)

lemma sector_zero_count: "1 < s \<Longrightarrow> s < NumSectors \<Longrightarrow> ((replicate 1024 (0::int))[0 := 1, 1 := 1]) ! nat s = 0"
  by (simp add: nth_list_update disk_consts nat_eq_iff)

lemma with_entry:
  fixes sz :: int
  assumes sz: "sz = 300 \<or> sz = -1"
  obtains fs bm t s where "fs_ok fs bm t" "dir_map t [104, 105] = Some s" "visitorCnt (fdisk fs) ! nat s = 0"
    "is_directory (hdr_at (sectors (fdisk fs)) s) = (sz = -1)" "card (dom (dir_map t)) = 1" "numBytes (hdr_at (sectors (fdisk fs)) s) = (if sz = -1 then 960 else sz)"
proof -
  obtain fs bm where f: "fs_ok fs bm (new_Directory sample_env)" "card (bm.free bm) = 1012" and v: "visitorCnt (fdisk fs) = (replicate 1024 0)[0 := 1, 1 := 1]"
    by (rule formatted)
  let ?n = "nat (divRoundUp (if sz = -1 then 960 else sz) SectorSize)"
  have "?n \<le> 8" using sz by (auto simp: divRoundUp_def SectorSize_def)
  then have "?n + index_sectors ?n < card (bm.free bm)" using f(2) by (simp add: index_sectors_def)
  then obtain fs' bm' t' s where c: "fs_ok fs' bm' t'" "dir_map t' = (dir_map (new_Directory sample_env))([104, 105] \<mapsto> s)"
      "cstr (fileExtension (hdr_at (sectors (fdisk fs')) s)) = cstr (if sz = -1 then Dir_Ext else [])"
      "visitorCnt (fdisk fs') = visitorCnt (fdisk fs)" "numBytes (hdr_at (sectors (fdisk fs')) s) = (if sz = -1 then 960 else sz)"
    using Create_root [OF f(1) sample_env_ok key_hi(3) _ refl, of sz] sz new_Directory_empty
    by (metis card.empty key_hi(2,4) zero_less_numeral le0 list.size(3) cstr_def takeWhile.simps(1) zero_le_numeral)
  have s: "dir_map t' (key [104, 105]) = Some s" using c(2) by (simp add: key_hi)
  have "cstr Dir_Ext = Dir_Ext" "cstr [] = []" "Dir_Ext \<noteq> []" by (simp_all add: cstr_def Dir_Ext_def)
  then have "is_directory (hdr_at (sectors (fdisk fs')) s) = (sz = -1)" using c(3) by (simp add: is_directory_def)
  moreover have "visitorCnt (fdisk fs') ! nat s = 0"
    using sector_zero_count [of s] listed_sector(3-6) [OF c(1) s] c(4) v by simp
  moreover have "dir_map t' [104, 105] = Some s" "card (dom (dir_map t')) = 1" using c(2) new_Directory_empty by simp_all
  ultimately show ?thesis using c(1,5) by (intro that)
qed


text \<open>What \<open>Create\<close> makes of the files and of the free sectors.\<close>

lemma create_added:
  assumes "fs_ok fs bm t" "env_ok env" "slash \<notin> set nm" "0 \<le> sz" "n = nat (divRoundUp sz SectorSize)"
    "dir_map t (key nm) = None" "card (dom (dir_map t)) < 10" "n + index_sectors n < card (bm.free bm)" "length (cstr (GetFileExtension nm)) \<le> 4"
  shows "\<exists>fs' bm' t'. Create env fs nm sz = Inr (True, fs') \<and> fs_ok fs' bm' t' \<and> dom (dir_map t') = insert (key nm) (dom (dir_map t))
    \<and> map_option (\<lambda>c. int (length c)) (files fs' t' (key nm)) = Some sz \<and> card (bm.free bm') = card (bm.free bm) - (1 + n + index_sectors n)
    \<and> (\<forall>k. key k \<noteq> key nm \<longrightarrow> files fs' t' (key k) = files fs t (key k)) \<and> visitorCnt (fdisk fs') = visitorCnt (fdisk fs)"
proof -
  have sz: "sz \<noteq> -1" using assms(4) by simp
  obtain fs' bm' t' s where c: "Create env fs nm sz = Inr (True, fs')" "fs_ok fs' bm' t'" "dir_map t' = (dir_map t)(key nm \<mapsto> s)"
      "numBytes (hdr_at (sectors (fdisk fs')) s) = sz" "numSectors (hdr_at (sectors (fdisk fs')) s) = divRoundUp sz SectorSize"
      "marked bm' = marked bm \<union> set (area (sectors (fdisk fs')) s)"
      "set (area (sectors (fdisk fs')) s) \<inter> marked bm = {}" "kept_files {0, 1} (sectors (fdisk fs)) (sectors (fdisk fs')) (all_files t)"
      "visitorCnt (fdisk fs') = visitorCnt (fdisk fs)"
    by (rule Create_root [where sz = sz, OF assms(1-3)]) (use assms sz in simp_all)
  have e: "dir_map t' (key nm) = Some s" using c(3) by simp
  note D = fs_okD(1) [OF c(2)] and S = listed_sector [OF c(2) e]
  have ok: "open_ok (sectors (fdisk fs')) bm' (hdr_at (sectors (fdisk fs')) s)" by (rule disk_filesD(3) [OF D S(2)])
  have "int (length (content (sectors (fdisk fs')) (hdr_at (sectors (fdisk fs')) s))) = sz" using length_content [OF ok] c(4) assms(4) by simp
  then have "map_option (\<lambda>c. int (length c)) (files fs' t' (key nm)) = Some sz" by (simp add: files_def e)
  moreover have "card (bm.free bm') = card (bm.free bm) - (1 + n + index_sectors n)"
    using new_file_free [OF fs_okD(1) [OF assms(1)] D S(2) c(6,7)] c(5) assms(5) by simp
  moreover have "\<forall>k. key k \<noteq> key nm \<longrightarrow> files fs' t' (key k) = files fs t (key k)"
    using files_kept [OF assms(1) c(8), of t'] c(3) by simp
  moreover have "dom (dir_map t') = insert (key nm) (dom (dir_map t))" using c(3) by simp
  ultimately show ?thesis using c(1,2,9) by blast
qed


section \<open>The properties\<close>

text \<open>C19: Formatting a disk, whatever it held, ends without an error in a file system in good order: no file,
  and all sectors free but the headers and the data of the bitmap's and the directory's files.\<close>

theorem FileSystem_format_ok:
  assumes "env_ok env" "store_wf (sectors d)" "length (visitorCnt d) = 1024"
  shows "\<exists>fs bm t. FileSystem_format env d = Inr fs \<and> fs_ok fs bm t \<and> files fs t = Map.empty \<and> card (bm.free bm) = 1024 - 12"
  by (rule format_ok [OF assms]) (force simp: files_def new_Directory_empty)

theorem FileSystem_format_ok_witness:
  "\<exists>fs bm t. FileSystem_format sample_env blank_disk = Inr fs \<and> fs_ok fs bm t \<and> files fs t = Map.empty \<and> card (bm.free bm) = 1012"
  using FileSystem_format_ok [OF sample_env_ok, of blank_disk] by simp

text \<open>C1: \<open>Create\<close> of a new name in the root directory, with room in the directory and on the disk, adds one
  file of the size asked for, takes its sectors from the free ones, and keeps the contents of every other file.\<close>

theorem Create_adds_file:
  assumes "fs_ok fs bm t" "env_ok env" "slash \<notin> set nm" "0 \<le> sz" "n = nat (divRoundUp sz SectorSize)"
    "dir_map t (key nm) = None" "card (dom (dir_map t)) < 10" "n + index_sectors n < card (bm.free bm)" "length (cstr (GetFileExtension nm)) \<le> 4"
  shows "\<exists>fs' bm' t'. Create env fs nm sz = Inr (True, fs') \<and> fs_ok fs' bm' t' \<and> dom (dir_map t') = insert (key nm) (dom (dir_map t))
    \<and> map_option (\<lambda>c. int (length c)) (files fs' t' (key nm)) = Some sz \<and> card (bm.free bm') = card (bm.free bm) - (1 + n + index_sectors n)
    \<and> (\<forall>k. key k \<noteq> key nm \<longrightarrow> files fs' t' (key k) = files fs t (key k)) \<and> visitorCnt (fdisk fs') = visitorCnt (fdisk fs)"
  by (rule create_added [OF assms])

theorem Create_adds_file_witness:
  "\<exists>fs bm t fs' bm' t'. fs_ok fs bm t \<and> Create sample_env fs [104, 105] 300 = Inr (True, fs') \<and> fs_ok fs' bm' t'
    \<and> dom (dir_map t') = {[104, 105]} \<and> card (bm.free bm') = 1008"
proof -
  obtain fs bm where f: "fs_ok fs bm (new_Directory sample_env)" "card (bm.free bm) = 1012" by (rule formatted)
  have n: "nat (divRoundUp 300 SectorSize) = 3" by (simp add: divRoundUp_def SectorSize_def)
  have P: "dir_map (new_Directory sample_env) (key [104, 105]) = None" "card (dom (dir_map (new_Directory sample_env))) < 10"
    "3 + index_sectors 3 < card (bm.free bm)" "length (cstr (GetFileExtension [104, 105])) \<le> 4"
    using f(2) by (simp_all add: new_Directory_empty index_sectors_def key_hi cstr_def)
  have "card (bm.free bm) - (1 + 3 + index_sectors 3) = 1008" using f(2) by (simp add: index_sectors_def)
  then obtain fs' bm' t' where "Create sample_env fs [104, 105] 300 = Inr (True, fs')" "fs_ok fs' bm' t'"
      "dom (dir_map t') = insert (key [104, 105]) (dom (dir_map (new_Directory sample_env)))" "card (bm.free bm') = 1008"
    using Create_adds_file [OF f(1) sample_env_ok key_hi(3) _ n [symmetric] P] by (metis zero_le_numeral)
  then show ?thesis using f(1) unfolding key_hi(2) new_Directory_empty(2) by blast
qed

text \<open>C20: \<open>Create\<close> of a name that is taken, in a directory that is full, or without sectors for the file, its index
  tables and its header, answers false and changes no sector; but the handle it opened on the directory is not closed, so
  the visitor count of the directory grows with each refusal.\<close>

theorem Create_refuses:
  assumes "fs_ok fs bm t" "env_ok env" "slash \<notin> set nm" "divRoundUp sz SectorSize = int n" "sz \<noteq> -1"
    "dir_map t (key nm) \<noteq> None \<or> card (dom (dir_map t)) = 10 \<or> card (bm.free bm) \<le> n + index_sectors n"
  shows "\<exists>fs'. Create env fs nm sz = Inr (False, fs') \<and> fs_ok fs' bm t \<and> sectors (fdisk fs') = sectors (fdisk fs)
    \<and> visitorCnt (fdisk fs') ! 1 = visitorCnt (fdisk fs) ! 1 + 1"
proof -
  obtain fs' where "Create env fs nm sz = Inr (False, fs')" "fs_ok fs' bm t" "fdisk fs' = visits (fdisk fs) 1 1"
    by (rule Create_refused [where sz = sz and n = n, OF assms(1-3)]) (use assms in simp_all)
  then show ?thesis using fs_okD(2) [OF assms(1)] by (auto simp: visits_def)
qed

theorem Create_refuses_witness:
  "\<exists>fs bm t fs'. fs_ok fs bm t \<and> Create sample_env fs [104, 105] 200000 = Inr (False, fs') \<and> visitorCnt (fdisk fs') ! 1 = 2"
proof -
  obtain fs bm where f: "fs_ok fs bm (new_Directory sample_env)" "card (bm.free bm) = 1012" "visitorCnt (fdisk fs) = (replicate 1024 0)[0 := 1, 1 := 1]"
    by (rule formatted)
  have "divRoundUp 200000 SectorSize = int 1563" by (simp add: divRoundUp_def SectorSize_def)
  then have "\<exists>fs'. Create sample_env fs [104, 105] 200000 = Inr (False, fs') \<and> visitorCnt (fdisk fs') ! 1 = 2"
    using Create_refuses [OF f(1) sample_env_ok key_hi(3), of 200000 1563] f(2,3) by auto
  then show ?thesis using f(1) by blast
qed

text \<open>\<open>Open\<close> of a name of the root directory finds the file exactly if there is one; reading the handle gives
  the file's contents from its beginning.\<close>

theorem Open_finds:
  assumes "fs_ok fs bm t" "slash \<notin> set nm"
  shows "case files fs t (key nm) of
      None \<Rightarrow> \<exists>fs'. Open env fs nm = Inr (None, fs') \<and> fdisk fs' = fdisk fs
    | Some c \<Rightarrow> \<exists>f fs' f'. Open env fs nm = Inr (Some f, fs') \<and> fs_ok fs' bm t \<and> seekPosition f = 0
        \<and> ReadAt env f (sectors (fdisk fs')) (int (length c)) 0 = Inr (c, f')"
proof -
  let ?st = "sectors (fdisk fs)"
  obtain fs' where o: "Open env fs nm = Inr (map_option (\<lambda>s. \<lparr>hdr = hdr_at ?st s, seekPosition = 0\<rparr>) (dir_map t (key nm)), fs')"
    "fs_ok fs' bm t" "fdisk fs' = (case dir_map t (key nm) of None \<Rightarrow> fdisk fs | Some s \<Rightarrow> visits (fdisk fs) s 1)"
    by (rule Open_root [OF assms])
  show ?thesis
  proof (cases "dir_map t (key nm)")
    case (Some s)
    have st: "sectors (fdisk fs') = ?st" using o(3) Some by simp
    have ok: "open_ok ?st bm (hdr \<lparr>hdr = hdr_at ?st s, seekPosition = 0\<rparr>)"
      using disk_filesD(3) [OF fs_okD(1) [OF assms(1)] listed_sector(2) [OF assms(1) Some]] by simp
    let ?c = "content ?st (hdr_at ?st s)"
    obtain f' where "ReadAt env \<lparr>hdr = hdr_at ?st s, seekPosition = 0\<rparr> ?st (int (length ?c)) 0 = Inr (take (nat (int (length ?c))) (drop (nat 0) ?c), f')"
      using ReadAt_visited [OF ok order_refl, of env "int (length ?c)"] by auto
    then have "ReadAt env \<lparr>hdr = hdr_at ?st s, seekPosition = 0\<rparr> (sectors (fdisk fs')) (int (length ?c)) 0 = Inr (?c, f')" by (simp add: st)
    then show ?thesis using o(1,2) Some by (auto simp: files_def)
  qed (use o in \<open>simp add: files_def\<close>)
qed

theorem Open_finds_witness:
  "\<exists>fs bm t f fs'. fs_ok fs bm t \<and> Open sample_env fs [104, 105] = Inr (Some f, fs')"
proof -
  obtain fs bm t s where f: "fs_ok fs bm t" "dir_map t [104, 105] = Some s" by (rule with_entry [of 300]) auto
  then show ?thesis using Open_finds [OF f(1) key_hi(3), of sample_env] by (auto simp: files_def key_hi)
qed

text \<open>C6: A file created in the root directory and removed again leaves the marks of the free sectors and the contents of
  all other files as they were.\<close>

theorem Create_Remove_roundtrip:
  assumes "fs_ok fs bm t" "env_ok env" "slash \<notin> set nm" "0 \<le> sz" "n = nat (divRoundUp sz SectorSize)"
    "dir_map t (key nm) = None" "card (dom (dir_map t)) < 10" "n + index_sectors n < card (bm.free bm)" "length (cstr (GetFileExtension nm)) \<le> 4"
    "cstr (GetFileExtension nm) \<noteq> Dir_Ext" "\<forall>s \<in> bm.free bm. visitorCnt (fdisk fs) ! nat s = 0"
  shows "\<exists>fs1 fs2 bm2 t2. Create env fs nm sz = Inr (True, fs1) \<and> FileSys_Remove env fs1 nm = Inr (True, fs2) \<and> fs_ok fs2 bm2 t2
    \<and> marked bm2 = marked bm \<and> dir_map t2 = dir_map t \<and> (\<forall>k. files fs2 t2 (key k) = files fs t (key k))"
proof -
  have sz: "sz \<noteq> -1" using assms(4) by simp
  obtain fs1 bm1 t1 s where c: "Create env fs nm sz = Inr (True, fs1)" "fs_ok fs1 bm1 t1" "dir_map t1 = (dir_map t)(key nm \<mapsto> s)"
      "cstr (fileExtension (hdr_at (sectors (fdisk fs1)) s)) = cstr (GetFileExtension nm)" "marked bm1 = marked bm \<union> set (area (sectors (fdisk fs1)) s)"
      "set (area (sectors (fdisk fs1)) s) \<inter> marked bm = {}" "kept_files {0, 1} (sectors (fdisk fs)) (sectors (fdisk fs1)) (all_files t)"
      "visitorCnt (fdisk fs1) = visitorCnt (fdisk fs)"
    by (rule Create_root [where sz = sz, OF assms(1-3)]) (use assms sz in simp_all)
  have e: "dir_map t1 (key nm) = Some s" using c(3) by simp
  have "s \<in> bm.free bm"
    using c(6) listed_sector(3,4) [OF c(2) e] disk_filesD(1) [OF fs_okD(1) [OF assms(1)]] by (auto simp: area_def bm.free_def disk_map_def)
  then have "visitorCnt (fdisk fs1) ! nat s = 0" "\<not> is_directory (hdr_at (sectors (fdisk fs1)) s)"
    using assms(10,11) c(4,8) by (simp_all add: is_directory_def)
  then obtain fs2 bm2 t2 where r: "FileSys_Remove env fs1 nm = Inr (True, fs2)" "fs_ok fs2 bm2 t2" "dir_map t2 = (dir_map t1)(key nm := None)"
      "marked bm2 = marked bm1 - set (area (sectors (fdisk fs1)) s)" "kept_files {0, 1} (sectors (fdisk fs1)) (sectors (fdisk fs2)) (all_files t2)"
    using Remove_file [OF c(2) assms(3) e, of env] by metis
  have m: "marked bm2 = marked bm" using r(4) c(5,6) by auto
  have d: "dir_map t2 = dir_map t" using r(3) c(3) assms(6) by (simp add: fun_upd_idem)
  have "files fs2 t2 (key k) = files fs t (key k)" for k
  proof (cases "dir_map t (key k)")
    case (Some x)
    have 1: "x \<in> set (all_files t)" "x \<noteq> 0" "x \<noteq> 1" by (rule listed_sector [OF assms(1) Some])+
    have 2: "dir_map t2 (key k) = Some x" using d Some by simp
    have "x \<in> set (all_files t2)" by (rule listed_sector(2) [OF r(2) 2])
    then show ?thesis using keptD(4) [OF c(7) 1(1)] keptD(4) [OF r(5)] 1 Some 2 by (simp add: files_def)
  qed (simp add: files_def d)
  then show ?thesis using c(1) r(1,2) m d by blast
qed

theorem Create_Remove_roundtrip_witness:
  "\<exists>fs bm t fs1 fs2 bm2 t2. fs_ok fs bm t \<and> Create sample_env fs [104, 105] 300 = Inr (True, fs1)
    \<and> FileSys_Remove sample_env fs1 [104, 105] = Inr (True, fs2) \<and> fs_ok fs2 bm2 t2 \<and> marked bm2 = marked bm"
proof -
  obtain fs bm where f: "fs_ok fs bm (new_Directory sample_env)" "card (bm.free bm) = 1012" "visitorCnt (fdisk fs) = (replicate 1024 0)[0 := 1, 1 := 1]"
    by (rule formatted)
  have n: "nat (divRoundUp 300 SectorSize) = 3" by (simp add: divRoundUp_def SectorSize_def)
  have P: "dir_map (new_Directory sample_env) (key [104, 105]) = None" "card (dom (dir_map (new_Directory sample_env))) < 10"
    "3 + index_sectors 3 < card (bm.free bm)" "length (cstr (GetFileExtension [104, 105])) \<le> 4" "cstr (GetFileExtension [104, 105]) \<noteq> Dir_Ext"
    using f(2) by (simp_all add: new_Directory_empty index_sectors_def key_hi cstr_def Dir_Ext_def)
  have "0 \<in> marked bm" "1 \<in> marked bm" using disk_filesD(7) [OF fs_okD(1) [OF f(1)]] by simp_all
  then have "1 < s \<and> s < NumSectors" if "s \<in> bm.free bm" for s
    using that disk_filesD(1) [OF fs_okD(1) [OF f(1)]] by (cases "s = 0"; cases "s = 1") (auto simp: bm.free_def disk_map_def)
  then have V: "\<forall>s \<in> bm.free bm. visitorCnt (fdisk fs) ! nat s = 0" using sector_zero_count f(3) by metis
  show ?thesis using Create_Remove_roundtrip [OF f(1) sample_env_ok key_hi(3) _ n [symmetric] P V] f(1) by (metis zero_le_numeral)
qed

text \<open>C7: \<open>Remove\<close> of a plain file of the root directory that nobody has open takes its name out of the directory and
  frees exactly its data blocks, its index tables and its header; the other files keep their contents.\<close>

theorem Remove_deletes_file:
  assumes "fs_ok fs bm t" "slash \<notin> set nm" "dir_map t (key nm) = Some s" "\<not> is_directory (hdr_at (sectors (fdisk fs)) s)"
    "visitorCnt (fdisk fs) ! nat s = 0"
  shows "\<exists>fs' bm' t'. FileSys_Remove env fs nm = Inr (True, fs') \<and> fs_ok fs' bm' t' \<and> dir_map t' = (dir_map t)(key nm := None)
    \<and> marked bm' = marked bm - set (area (sectors (fdisk fs)) s) \<and> (\<forall>k. key k \<noteq> key nm \<longrightarrow> files fs' t' (key k) = files fs t (key k))"
proof -
  obtain fs' bm' t' where r: "FileSys_Remove env fs nm = Inr (True, fs')" "fs_ok fs' bm' t'" "dir_map t' = (dir_map t)(key nm := None)"
      "marked bm' = marked bm - set (area (sectors (fdisk fs)) s)" "kept_files {0, 1} (sectors (fdisk fs)) (sectors (fdisk fs')) (all_files t')"
    using Remove_file [OF assms, of env] by metis
  have "files fs' t' (key k) = files fs t (key k)" if k: "key k \<noteq> key nm" for k
  proof (cases "dir_map t' (key k)")
    case (Some x)
    have "x \<in> set (all_files t')" "x \<noteq> 0" "x \<noteq> 1" by (rule listed_sector [OF r(2) Some])+
    then show ?thesis using keptD(4) [OF r(5)] Some r(3) k by (simp add: files_def)
  qed (use r(3) k in \<open>simp add: files_def\<close>)
  then show ?thesis using r by blast
qed

theorem Remove_deletes_file_witness:
  "\<exists>fs bm t fs' bm' t'. fs_ok fs bm t \<and> dir_map t [104, 105] \<noteq> None \<and> FileSys_Remove sample_env fs [104, 105] = Inr (True, fs') \<and> fs_ok fs' bm' t'
    \<and> dir_map t' [104, 105] = None"
proof -
  obtain fs bm t s where f: "fs_ok fs bm t" "dir_map t [104, 105] = Some s" "visitorCnt (fdisk fs) ! nat s = 0"
      "is_directory (hdr_at (sectors (fdisk fs)) s) = (300 = (-1 :: int))" by (rule with_entry [of 300]) auto
  then show ?thesis using Remove_deletes_file [OF f(1) key_hi(3), of s sample_env] unfolding key_hi(2) by fastforce
qed

text \<open>C34: No directory is ever removed, not even an empty one that nobody uses: the handle opened on it to see whether it is
  empty counts as a visitor, and stays open.\<close>

theorem Remove_keeps_directories:
  assumes "fs_ok fs bm t" "env_ok env" "slash \<notin> set nm" "dir_map t (key nm) = Some s" "is_directory (hdr_at (sectors (fdisk fs)) s)"
    "0 \<le> visitorCnt (fdisk fs) ! nat s"
  shows "\<exists>fs'. FileSys_Remove env fs nm = Inr (False, fs') \<and> fs_ok fs' bm t"
  using Remove_directory [OF assms] by metis

theorem Remove_keeps_directories_witness:
  "\<exists>fs bm t fs'. fs_ok fs bm t \<and> dir_map t [104, 105] \<noteq> None \<and> FileSys_Remove sample_env fs [104, 105] = Inr (False, fs')"
proof -
  obtain fs bm t s where f: "fs_ok fs bm t" "dir_map t [104, 105] = Some s" "visitorCnt (fdisk fs) ! nat s = 0"
      "is_directory (hdr_at (sectors (fdisk fs)) s) = (-1 = (-1 :: int))" by (rule with_entry [of "-1"]) auto
  then show ?thesis using Remove_keeps_directories [OF f(1) sample_env_ok key_hi(3), of s] unfolding key_hi(2) by fastforce
qed

text \<open>What is written to an open file of the root directory is there after it has been closed: the file system's state
  after opening the file, overwriting it and closing it stands for the same files but for the new contents of this one, and
  the file counts as many visitors as before.\<close>

theorem written_file_persists:
  assumes "fs_ok fs bm t" "env_ok env" "slash \<notin> set nm" "files fs t (key nm) = Some c" "c \<noteq> []" "length bs = length c"
  shows "\<exists>f fs1 f1 d1 d2. Open env fs nm = Inr (Some f, fs1) \<and> WriteAt fuel env f (fdisk fs1) bs (int (length bs)) 0 = Inr (int (length bs), f1, d1)
    \<and> OpenFile_delete f1 d1 = Inr d2 \<and> fs_ok (fs1\<lparr>fdisk := d2\<rparr>) bm t \<and> files (fs1\<lparr>fdisk := d2\<rparr>) t (key nm) = Some bs
    \<and> (\<forall>k. key k \<noteq> key nm \<longrightarrow> files (fs1\<lparr>fdisk := d2\<rparr>) t (key k) = files fs t (key k)) \<and> visitorCnt d2 = visitorCnt (fdisk fs)"
proof -
  let ?st = "sectors (fdisk fs)" and ?ss = "all_files t"
  obtain s where s: "dir_map t (key nm) = Some s" and c: "c = content ?st (hdr_at ?st s)" using assms(4) by (auto simp: files_def)
  note L = listed_sector [OF assms(1) s]
  let ?f = "\<lparr>hdr = hdr_at ?st s, seekPosition = 0\<rparr>"
  obtain fs1 where o: "Open env fs nm = Inr (Some ?f, fs1)" "fs_ok fs1 bm t" and d1: "fdisk fs1 = visits (fdisk fs) s 1"
    using Open_root [OF assms(1,3), of env] s by auto
  have st1: "sectors (fdisk fs1) = ?st" by (simp add: d1)
  have D: "disk_files (sectors (fdisk fs1)) bm ?ss" by (rule fs_okD(1) [OF o(2)])
  have ok: "open_ok ?st bm (hdr_at ?st s)" using disk_filesD(3) [OF D L(2)] st1 by simp
  have sf: "same_file (hdr_at (sectors (fdisk fs1)) s) (hdr ?f)" by (simp add: st1 same_file_refl file_length10 [OF ok])
  have "0 < length c" using assms(5) by simp
  then have bs: "0 < length bs" "int (length bs) = numBytes (hdr_at (sectors (fdisk fs1)) s)"
    using assms(6) open_okD(4) [OF ok] unfolding st1 length_content [OF ok, folded c] by linarith+
  obtain f1 st' where w: "WriteAt fuel env ?f (fdisk fs1) bs (int (length bs)) 0 = Inr (int (length bs), f1, (fdisk fs1)\<lparr>sectors := st'\<rparr>)"
    and f1: "f1 = ?f\<lparr>hdr := (hdr ?f)\<lparr>lastVisitTime := now env, modifyTime := now env\<rparr>\<rparr>"
    and W: "disk_files st' bm ?ss" "kept_files {s} (sectors (fdisk fs1)) st' ?ss" "content st' (hdr_at st' s) = bs" "hdr_at st' s = hdr_at (sectors (fdisk fs1)) s"
    by (rule write_whole [OF D L(2) sf bs])
  let ?d = "(fdisk fs1)\<lparr>sectors := st'\<rparr>"
  have sz: "header_sized (hdr_at ?st s)" by (rule hdr_at_sized) (use disk_filesD(2) [OF D] st1 L(3,4) in simp_all)
  have C: "disk_files (sectors ?d) bm ?ss" "headerSector (hdr f1) = s" "header_sized (hdr f1)" "same_file (hdr_at (sectors ?d) s) (hdr f1)"
      "fileExtension (hdr f1) = fileExtension (hdr_at (sectors ?d) s)" "length (visitorCnt ?d) = 1024"
    using W(1,4) sz assms(2) fs_okD(2) [OF o(2)] by (simp_all add: f1 st1 same_file_refl file_length10 [OF ok] header_sized_def env_ok_def)
  obtain st2 where cl: "OpenFile_delete f1 ?d = Inr (visits (?d\<lparr>sectors := st2\<rparr>) s (-1))" and K: "kept_files {} (sectors ?d) st2 ?ss" "disk_files st2 bm ?ss"
    by (rule close_at [OF C(1) L(2) C(2-6)])
  let ?d2 = "visits (?d\<lparr>sectors := st2\<rparr>) s (-1)"
  have "kept_files {s} ?st st' ?ss" "kept_files {} st' st2 ?ss" using W(2) K(1) by (simp_all add: st1)
  then have kept: "kept_files {s} ?st st2 ?ss" using kept_trans by fastforce
  have v: "visitorCnt ?d2 = visitorCnt (fdisk fs)" using visits_back [of s "fdisk fs"] L(3,4) fs_okD(2) [OF assms(1)] by (simp add: d1 visits_def disk_consts)
  have "map_stored st2 bm (freeMapFile fs1)" "dir_stored st2 t (directoryFile fs1)"
    using stored_kept [OF kept] L(5,6) fs_okD(3,4) [OF o(2)] by (simp_all add: st1)
  then have fin: "fs_ok (fs1\<lparr>fdisk := ?d2\<rparr>) bm t" using K(2) fs_okD(2) [OF assms(1)] v by (simp add: fs_ok_def del: visits_simps(3))
  have new: "files (fs1\<lparr>fdisk := ?d2\<rparr>) t (key nm) = Some bs" using keptD(4) [OF K(1) L(2)] W(3) s by (simp add: files_def)
  have "files (fs1\<lparr>fdisk := ?d2\<rparr>) t (key k) = files fs t (key k)" if k: "key k \<noteq> key nm" for k
  proof (cases "dir_map t (key k)")
    case (Some x)
    have "x \<in> set ?ss" "x \<noteq> s" using listed_sector(2) [OF assms(1) Some] Some s k by (auto dest: dir_map_inj [OF assms(1)])
    then show ?thesis using keptD(4) [OF kept] Some by (simp add: files_def)
  qed (simp add: files_def)
  then show ?thesis using o(1) w cl fin new v by blast
qed

theorem written_file_persists_witness:
  "\<exists>fs bm t f fs1 bs. fs_ok fs bm t \<and> Open sample_env fs [104, 105] = Inr (Some f, fs1)
    \<and> (\<exists>f1 d1 d2. WriteAt 0 sample_env f (fdisk fs1) bs (int (length bs)) 0 = Inr (int (length bs), f1, d1) \<and> OpenFile_delete f1 d1 = Inr d2
      \<and> files (fs1\<lparr>fdisk := d2\<rparr>) t [104, 105] = Some bs) \<and> set bs = {7}"
proof -
  obtain fs bm t s where f: "fs_ok fs bm t" "dir_map t [104, 105] = Some s" "numBytes (hdr_at (sectors (fdisk fs)) s) = 300" by (rule with_entry [of 300]) auto
  let ?c = "content (sectors (fdisk fs)) (hdr_at (sectors (fdisk fs)) s)"
  have s: "dir_map t (key [104, 105]) = Some s" using f(2) by (simp add: key_hi)
  have "length ?c = 300" using length_content [OF disk_filesD(3) [OF fs_okD(1) [OF f(1)] listed_sector(2) [OF f(1) s]]] f(3) by simp
  then have c: "files fs t (key [104, 105]) = Some ?c" "?c \<noteq> []" "length (replicate 300 (7::byte)) = length ?c" "set (replicate 300 (7::byte)) = {7}"
    using s by (auto simp: files_def)
  show ?thesis using written_file_persists [OF f(1) sample_env_ok key_hi(3) c(1,2,3), of 0] f(1) c(4) unfolding key_hi(2) by blast
qed

end
