(* ===== verification/FsHandles.thy ===== *)
theory FsHandles
  imports FsFacts
begin

text \<open>
  What a client does with a file: the handle that \<open>Open\<close> gives stands for the file until it is closed; reads
  and writes through it are reads and writes of the file's contents, and the file system stays in good order.
\<close>

definition cont :: "file_system \<Rightarrow> int \<Rightarrow> byte list" where
  "cont fs x = content (sectors (fdisk fs)) (hdr_at (sectors (fdisk fs)) x)"

lemma files_cont: "files fs t k = map_option (cont fs) (dir_map t k)"
  by (cases "dir_map t k") (simp_all add: files_def cont_def)

text \<open>\<open>f\<close> is a handle on the file whose header is in sector \<open>x\<close>.\<close>

definition held :: "file_system \<Rightarrow> int \<Rightarrow> open_file \<Rightarrow> bool" where
  "held fs x f \<longleftrightarrow> (let h = hdr_at (sectors (fdisk fs)) x in
     same_file h (hdr f) \<and> headerSector (hdr f) = x \<and> header_sized (hdr f) \<and> fileExtension (hdr f) = fileExtension h)"

lemma heldD:
  assumes "held fs x f"
  shows "same_file (hdr_at (sectors (fdisk fs)) x) (hdr f)" "headerSector (hdr f) = x" "header_sized (hdr f)"
    "fileExtension (hdr f) = fileExtension (hdr_at (sectors (fdisk fs)) x)"
  using assms by (simp_all add: held_def Let_def)

abbreviation with_fdisk :: "file_system \<Rightarrow> fs_disk \<Rightarrow> file_system" where
  "with_fdisk fs d \<equiv> fs\<lparr>fdisk := d\<rparr>"

text \<open>A user file: one of the directory's.\<close>

lemma user_file:
  assumes "fs_ok fs bm t" "x \<in> set (file_list t)"
  shows "x \<in> set (all_files t)" "0 \<le> x" "x < NumSectors" "x \<noteq> 0" "x \<noteq> 1" "nat x < length (visitorCnt (fdisk fs))"
proof -
  have D: "disk_files (sectors (fdisk fs)) bm (all_files t)" by (rule fs_okD(1) [OF assms(1)])
  have d: "distinct (all_files t)" using distinct_concat_nonempty [OF disk_filesD(4) [OF D]] by (simp add: area_def)
  show x: "x \<in> set (all_files t)" using assms(2) by simp
  show r: "0 \<le> x" "x < NumSectors" using disk_filesD(6) [OF D x] by simp_all
  show "x \<noteq> 0" "x \<noteq> 1" using d assms(2) by auto
  show "nat x < length (visitorCnt (fdisk fs))" using r fs_okD(2) [OF assms(1)] by (simp add: disk_consts nat_less_iff)
qed

lemma user_file_open:
  assumes "fs_ok fs bm t" "x \<in> set (file_list t)"
  shows "open_ok (sectors (fdisk fs)) bm (hdr_at (sectors (fdisk fs)) x)" "int (length (cont fs x)) = numBytes (hdr_at (sectors (fdisk fs)) x)"
proof -
  show ok: "open_ok (sectors (fdisk fs)) bm (hdr_at (sectors (fdisk fs)) x)"
    by (rule disk_filesD(3) [OF fs_okD(1) [OF assms(1)] user_file(1) [OF assms]])
  show "int (length (cont fs x)) = numBytes (hdr_at (sectors (fdisk fs)) x)"
    using length_content [OF ok] open_okD(4) [OF ok] by (simp add: cont_def)
qed

section \<open>Opening and closing\<close>

lemma Open_held:
  assumes ok: "fs_ok fs bm t" and nm: "slash \<notin> set nm" and x: "dir_map t (key nm) = Some x"
  obtains f fs1 where "Open env fs nm = Inr (Some f, fs1)" "fs_ok fs1 bm t" "held fs1 x f" "fdisk fs1 = visits (fdisk fs) x 1"
    "seekPosition f = 0" "\<And>y. cont fs1 y = cont fs y"
proof -
  obtain fs1 where o: "Open env fs nm = Inr (Some \<lparr>hdr = hdr_at (sectors (fdisk fs)) x, seekPosition = 0\<rparr>, fs1)" "fs_ok fs1 bm t"
    and d: "fdisk fs1 = visits (fdisk fs) x 1"
    using Open_root [OF ok nm, of env] x by auto
  note L = listed_sector [OF ok x]
  have "header_sized (hdr_at (sectors (fdisk fs)) x)" by (rule hdr_at_sized) (use disk_filesD(2) [OF fs_okD(1) [OF ok]] L(3,4) in simp_all)
  then have "held fs1 x \<lparr>hdr = hdr_at (sectors (fdisk fs)) x, seekPosition = 0\<rparr>"
    using file_length10 [OF user_file_open(1) [OF ok L(1)]] by (simp add: held_def d same_file_refl)
  then show ?thesis using o d by (intro that [of "\<lparr>hdr = hdr_at (sectors (fdisk fs)) x, seekPosition = 0\<rparr>" fs1]) (simp_all add: cont_def)
qed

lemma close_held:
  assumes ok: "fs_ok fs bm t" and x: "x \<in> set (file_list t)" and f: "held fs x f"
  obtains d where "OpenFile_delete f (fdisk fs) = Inr d" "fs_ok (with_fdisk fs d) bm t" "\<And>y. y \<in> set (all_files t) \<Longrightarrow> cont (with_fdisk fs d) y = cont fs y"
    "visitorCnt d = visitorCnt (visits (fdisk fs) x (-1))"
    "\<And>y g. y \<in> set (all_files t) \<Longrightarrow> held fs y g \<Longrightarrow> held (with_fdisk fs d) y g"
proof -
  note U = user_file [OF ok x] and H = heldD [OF f]
  obtain st' where c: "OpenFile_delete f (fdisk fs) = Inr (visits ((fdisk fs)\<lparr>sectors := st'\<rparr>) x (-1))"
    and K: "kept_files {} (sectors (fdisk fs)) st' (all_files t)" "disk_files st' bm (all_files t)"
    by (rule close_at [OF fs_okD(1) [OF ok] U(1) H(2,3,1,4) fs_okD(2) [OF ok]])
  let ?d = "visits ((fdisk fs)\<lparr>sectors := st'\<rparr>) x (-1)"
  have held_y: "held (with_fdisk fs d) y g" if y: "y \<in> set (all_files t)" "held fs y g" "sectors d = st'" for y g d
    unfolding held_def Let_def
    by (simp add: y(3) keptD(3) [OF K(1) y(1)] heldD [OF y(2)] same_file_trans [OF same_file_sym [OF keptD(2) [OF K(1) y(1)]] heldD(1) [OF y(2)]])
  have "fs_ok (fs\<lparr>fdisk := (fdisk fs)\<lparr>sectors := st'\<rparr>\<rparr>) bm t" by (rule fs_ok_kept [OF ok K])
  then have "fs_ok (with_fdisk fs ?d) bm t" using fs_ok_visits [of "fs\<lparr>fdisk := (fdisk fs)\<lparr>sectors := st'\<rparr>\<rparr>" x "-1" bm t] by simp
  moreover have "cont (with_fdisk fs ?d) y = cont fs y" if "y \<in> set (all_files t)" for y using keptD(4) [OF K(1) that] by (simp add: cont_def)
  moreover have "held (with_fdisk fs ?d) y g" if y: "y \<in> set (all_files t)" "held fs y g" for y g by (rule held_y [OF y]) simp
  moreover have "visitorCnt ?d = visitorCnt (visits (fdisk fs) x (-1))" by (simp add: visits_def)
  ultimately show ?thesis using c by (intro that) blast+
qed

section \<open>Reading and writing\<close>

lemma read_held:
  assumes ok: "fs_ok fs bm t" and x: "x \<in> set (file_list t)" and f: "held fs x f" and env: "length (now env) = 25" and p: "0 \<le> p"
  obtains f' where "ReadAt env f (sectors (fdisk fs)) n p = Inr (take (nat n) (drop (nat p) (cont fs x)), f')" "held fs x f'" "seekPosition f' = seekPosition f"
proof -
  note H = heldD [OF f]
  have "open_ok (sectors (fdisk fs)) bm (hdr f)" using user_file_open(1) [OF ok x] same_file_sectors(5) [OF H(1)] by simp
  then obtain f' where r: "ReadAt env f (sectors (fdisk fs)) n p = Inr (take (nat n) (drop (nat p) (content (sectors (fdisk fs)) (hdr f))), f')"
    by (rule ReadAt_visited [OF _ p])
  have "held fs x f' \<and> seekPosition f' = seekPosition f" using ReadAt_time [OF r] f env by (auto simp: held_def Let_def header_sized_def)
  then show ?thesis using r same_file_sectors(4) [OF H(1)] by (intro that [of f']) (simp_all add: cont_def)
qed

lemma write_held:
  assumes ok: "fs_ok fs bm t" and x: "x \<in> set (file_list t)" and f: "held fs x f" and env: "length (now env) = 25"
    and p: "0 \<le> p" "bs \<noteq> []" "p + int (length bs) \<le> int (length (cont fs x))" "n = int (length bs)"
  obtains f' d where "WriteAt fuel env f (fdisk fs) bs n p = Inr (n, f', d)" "fs_ok (with_fdisk fs d) bm t"
    "held (with_fdisk fs d) x f'" "cont (with_fdisk fs d) x = overlay (cont fs x) (nat p) bs"
    "\<And>y. y \<in> set (all_files t) \<Longrightarrow> y \<noteq> x \<Longrightarrow> cont (with_fdisk fs d) y = cont fs y" "visitorCnt d = visitorCnt (fdisk fs)"
    "\<And>y g. y \<in> set (all_files t) \<Longrightarrow> held fs y g \<Longrightarrow> held (with_fdisk fs d) y g" "seekPosition f' = seekPosition f"
proof -
  note U = user_file [OF ok x] and H = heldD [OF f] and O = user_file_open [OF ok x] and D = fs_okD(1) [OF ok]
  let ?st = "sectors (fdisk fs)"
  note sf = same_file_sectors [OF H(1)]
  have okf: "open_ok ?st bm (hdr f)" using O(1) sf(5) by simp
  have n: "0 < int (length bs)" "p + int (length bs) \<le> numBytes (hdr f)" using p(2,3) O(2) sf(6) by simp_all
  obtain f' st' where w: "WriteAt fuel env f (fdisk fs) bs (int (length bs)) p = Inr (int (length bs), f', (fdisk fs)\<lparr>sectors := st'\<rparr>)" and ok': "open_ok st' bm (hdr f')"
    and t: "touches (set (blocks ?st (hdr f))) ?st st'"
    and c: "content st' (hdr f') = overlay (content ?st (hdr f)) (nat p) (take (nat (int (length bs))) bs)"
    and f': "f' = f\<lparr>hdr := (hdr f)\<lparr>lastVisitTime := now env, modifyTime := now env\<rparr>\<rparr>"
    by (rule WriteAt_in_file [OF okf p(1) n(1) order_refl n(2)])
  have t': "touches (set (blocks ?st (hdr_at ?st x))) ?st st'" using t sf(1) by simp
  note K = data_kept [OF D U(1) t' open_okD(3) [OF ok']]
  have "x \<notin> set (blocks ?st (hdr_at ?st x))" using area_distinct(1) [OF D U(1)] by (simp add: owned_def)
  then have h: "hdr_at st' x = hdr_at ?st x" using t' by (intro hdr_at_other) (simp add: touches_def)
  let ?d = "(fdisk fs)\<lparr>sectors := st'\<rparr>"
  have "map_stored st' bm (freeMapFile fs)" "dir_stored st' t (directoryFile fs)"
    using stored_kept [OF K(1)] U(4,5) fs_okD(3,4) [OF ok] by simp_all
  then have "fs_ok (with_fdisk fs ?d) bm t" using K(2) fs_okD(2) [OF ok] by (simp add: fs_ok_def)
  moreover have hy: "held (with_fdisk fs ?d) y g" if y: "y \<in> set (all_files t)" "held fs y g" for y g
    unfolding held_def Let_def
    by (simp add: keptD(3) [OF K(1) y(1)] heldD [OF y(2)] same_file_trans [OF same_file_sym [OF keptD(2) [OF K(1) y(1)]] heldD(1) [OF y(2)]])
  have "held (with_fdisk fs ?d) x f'" using hy [OF U(1) f] env by (auto simp: held_def Let_def f' header_sized_def)
  moreover have "cont (with_fdisk fs ?d) x = overlay (cont fs x) (nat p) bs"
    using c sf(4) same_file_sectors(4) [OF H(1), of st'] by (simp add: cont_def h f')
  moreover have "cont (with_fdisk fs ?d) y = cont fs y" if "y \<in> set (all_files t)" "y \<noteq> x" for y
    using keptD(4) [OF K(1) that(1)] that(2) by (simp add: cont_def)
  ultimately show ?thesis using w hy by (intro that [of f' ?d]) (simp_all add: p(4) f')
qed

text \<open>A handle does not see what happens to the counts.\<close>

lemma held_visits: "held (with_fdisk fs (visits (fdisk fs) s k)) x f = held fs x f" "held fs1 x f \<Longrightarrow> sectors (fdisk fs2) = sectors (fdisk fs1) \<Longrightarrow> held fs2 x f"
  by (simp_all add: held_def)

end
