(* ===== verification/FileTable.thy ===== *)
theory FileTable
  imports FileGrow
begin

text \<open>
  The table of open files of user programs (filesys/filesys.h, filesys/filesys.cc): which thread has
  which file open, and under which number. Numbers 0 and 1 are the console. A child made by the
  \<open>Fork\<close> system call gets copies of its parent's files; a copy remembers in \<open>ForkFileID\<close> the number
  the file had for the parent.
\<close>

section \<open>State\<close>

definition MAX_FILE_NUMBER :: nat where "MAX_FILE_NUMBER = 500"

record file_record =
  ofile :: "open_file option"
  TID :: int
  ForkFileID :: int
  in_use :: bool

type_synonym file_table = "file_record list"

text \<open>The loop of the constructor.\<close>

definition new_table :: file_table where
  "new_table = map (\<lambda>i. \<lparr>ofile = None, TID = -1, ForkFileID = -1, in_use = (i < 2)\<rparr>) [0..<MAX_FILE_NUMBER]"

text \<open>The numbers the loops below run through.\<close>

definition slots :: "nat list" where "slots = [2..<MAX_FILE_NUMBER]"

section \<open>Operations\<close>

text \<open>\<open>me\<close> is \<open>currentThread->getTID()\<close>.\<close>

definition AddNewFile :: "int \<Rightarrow> file_table \<Rightarrow> open_file \<Rightarrow> int \<times> file_table" where
  "AddNewFile me t f =
     (case find (\<lambda>i. \<not> in_use (t ! i)) slots of
        None \<Rightarrow> (-1, t)
      | Some pos \<Rightarrow> (int pos, t[pos := (t ! pos)\<lparr>in_use := True, ofile := Some f, TID := me\<rparr>]))"

text \<open>\<open>delete\<close> of a null pointer does nothing.\<close>

definition close_slot :: "file_table \<Rightarrow> nat \<Rightarrow> fs_disk \<Rightarrow> (file_table \<times> fs_disk) res" where
  "close_slot t i d =
     rbind (case ofile (t ! i) of None \<Rightarrow> Inr d | Some f \<Rightarrow> OpenFile_delete f d) (\<lambda>d.
     Inr (t[i := \<lparr>ofile = None, TID = -1, ForkFileID = -1, in_use = False\<rparr>], d))"

definition mine :: "int \<Rightarrow> file_record \<Rightarrow> bool" where
  "mine me r \<longleftrightarrow> in_use r \<and> TID r = me"

definition RemoveFile :: "int \<Rightarrow> file_table \<Rightarrow> int \<Rightarrow> fs_disk \<Rightarrow> (bool \<times> file_table \<times> fs_disk) res" where
  "RemoveFile me t openFileID d =
     (if openFileID < 2 then Inr (False, t, d)
      else
        rbind (aget t openFileID) (\<lambda>r.
        if mine me r then rbind (close_slot t (nat openFileID) d) (\<lambda>(t, d). Inr (True, t, d))
        else (case find (\<lambda>i. mine me (t ! i) \<and> ForkFileID (t ! i) = openFileID) slots of
            None \<Rightarrow> Inr (False, t, d)
          | Some i \<Rightarrow> rbind (close_slot t i d) (\<lambda>(t, d). Inr (True, t, d)))))"

text \<open>The second loop of \<open>GetFile\<close>: its test assigns \<open>TID\<close>. The result is the number of the entry
  whose file is returned.\<close>

fun get_copy :: "int \<Rightarrow> file_table \<Rightarrow> int \<Rightarrow> nat list \<Rightarrow> nat option \<times> file_table" where
  "get_copy me t openFileID [] = (None, t)"
| "get_copy me t openFileID (i # is) =
     (if in_use (t ! i) then
        let t = t[i := (t ! i)\<lparr>TID := me\<rparr>] in
        if me \<noteq> 0 \<and> ForkFileID (t ! i) = openFileID then (Some i, t)
        else get_copy me t openFileID is
      else get_copy me t openFileID is)"

definition GetFile :: "int \<Rightarrow> file_table \<Rightarrow> int \<Rightarrow> (nat option \<times> file_table) res" where
  "GetFile me t openFileID =
     (if openFileID < 2 then Inr (None, t)
      else
        rbind (aget t openFileID) (\<lambda>r.
        if mine me r then Inr (Some (nat openFileID), t)
        else Inr (get_copy me t openFileID slots)))"

fun close_mine :: "int \<Rightarrow> file_table \<Rightarrow> fs_disk \<Rightarrow> nat list \<Rightarrow> (file_table \<times> fs_disk) res" where
  "close_mine me t d [] = Inr (t, d)"
| "close_mine me t d (i # is) =
     (if mine me (t ! i) then rbind (close_slot t i d) (\<lambda>(t, d). close_mine me t d is)
      else close_mine me t d is)"

definition CloseAll :: "int \<Rightarrow> file_table \<Rightarrow> fs_disk \<Rightarrow> (file_table \<times> fs_disk) res" where
  "CloseAll me t d = close_mine me t d slots"

text \<open>A deep copy: the same file opened once more, at the same position.\<close>

fun copy_mine :: "fs_env \<Rightarrow> int \<Rightarrow> int \<Rightarrow> file_table \<Rightarrow> fs_disk \<Rightarrow> nat list \<Rightarrow> (file_table \<times> fs_disk) res" where
  "copy_mine env me newTID t d [] = Inr (t, d)"
| "copy_mine env me newTID t d (i # is) =
     (if mine me (t ! i) then
        (case ofile (t ! i) of None \<Rightarrow> Inl NullPointer
         | Some g \<Rightarrow>
             rbind (OpenFile_new env d (headerSector (hdr g))) (\<lambda>(f, d).
             let (fd, t) = AddNewFile me t (Seek f (seekPosition g)) in
             rbind (ASSERT (fd \<noteq> -1)) (\<lambda>_.
             copy_mine env me newTID (t[nat fd := (t ! nat fd)\<lparr>ForkFileID := int i, TID := newTID\<rparr>]) d is)))
      else copy_mine env me newTID t d is)"

definition CopyFile :: "fs_env \<Rightarrow> int \<Rightarrow> int \<Rightarrow> file_table \<Rightarrow> fs_disk \<Rightarrow> (bool \<times> file_table \<times> fs_disk) res" where
  "CopyFile env me newTID t d =
     (let leftNum = length (filter (\<lambda>i. \<not> in_use (t ! i)) slots);
          openNum = length (filter (\<lambda>i. mine me (t ! i)) slots)
      in if leftNum < openNum then Inr (False, t, d)
      else rbind (copy_mine env me newTID t d slots) (\<lambda>(t, d). Inr (True, t, d)))"


section \<open>The table in good order\<close>

definition table_ok :: "file_table \<Rightarrow> bool" where
  "table_ok t \<longleftrightarrow> length t = MAX_FILE_NUMBER \<and>
     (\<forall>i \<in> set slots. in_use (t ! i) \<longrightarrow> (\<exists>f. ofile (t ! i) = Some f \<and> 0 \<le> headerSector (hdr f) \<and> headerSector (hdr f) < NumSectors))"

lemma slot_range [simp]: "i \<in> set slots \<longleftrightarrow> 2 \<le> i \<and> i < 500"
  unfolding slots_def MAX_FILE_NUMBER_def set_upt by simp

lemma distinct_slots: "distinct slots"
  by (simp add: slots_def)

lemma table_okD:
  assumes "table_ok t" shows "length t = 500"
  using assms by (simp add: table_ok_def MAX_FILE_NUMBER_def)

lemma new_table_ok: "table_ok new_table"
proof -
  have "\<not> in_use (new_table ! i)" if "i \<in> set slots" for i using that by (simp add: new_table_def MAX_FILE_NUMBER_def)
  moreover have "length new_table = MAX_FILE_NUMBER" by (simp add: new_table_def)
  ultimately show ?thesis by (simp add: table_ok_def)
qed

lemma table_ok_update:
  assumes "table_ok t" "in_use r \<longrightarrow> (\<exists>f. ofile r = Some f \<and> 0 \<le> headerSector (hdr f) \<and> headerSector (hdr f) < NumSectors)"
  shows "table_ok (t[i := r])"
proof (cases "i < length t")
  case True
  then show ?thesis using assms by (auto simp: table_ok_def nth_list_update)
next
  case False
  then show ?thesis using assms(1) by (simp add: list_update_beyond)
qed

lemma find_Some: "find P xs = Some x \<Longrightarrow> x \<in> set xs \<and> P x"
  by (auto simp: find_Some_iff)

lemma OpenFile_new_at:
  assumes "0 \<le> s" "s < NumSectors" "length (visitorCnt d) = 1024"
  obtains h where "OpenFile_new env d s =
    Inr (\<lparr>hdr = h\<lparr>headerSector := s\<rparr>, seekPosition = 0\<rparr>, d\<lparr>visitorCnt := (visitorCnt d)[nat s := visitorCnt d ! nat s + 1]\<rparr>)"
proof -
  obtain h where "HdrFetchFrom (header_junk env) (sectors d) s = Inr h"
    using assms(1,2) by (auto simp: HdrFetchFrom_def ReadSector_def)
  then have "OpenFile_new env d s =
    Inr (\<lparr>hdr = h\<lparr>headerSector := s\<rparr>, seekPosition = 0\<rparr>, d\<lparr>visitorCnt := (visitorCnt d)[nat s := visitorCnt d ! nat s + 1]\<rparr>)"
    using assms by (simp add: OpenFile_new_def count_visitor_ok disk_consts)
  then show ?thesis by (rule that)
qed

section \<open>Copying\<close>

definition free_slots :: "file_table \<Rightarrow> nat set" where
  "free_slots t = {i \<in> set slots. \<not> in_use (t ! i)}"

lemma finite_free_slots [simp]: "finite (free_slots t)"
  by (simp add: free_slots_def)

lemma AddNewFile_free:
  assumes "free_slots t \<noteq> {}"
  obtains k where "AddNewFile me t f = (int k, t[k := (t ! k)\<lparr>in_use := True, ofile := Some f, TID := me\<rparr>])" "k \<in> free_slots t"
proof (cases "find (\<lambda>i. \<not> in_use (t ! i)) slots")
  case None
  then show ?thesis using assms by (auto simp: find_None_iff free_slots_def)
next
  case (Some k)
  from find_Some [OF Some] show ?thesis by (intro that [of k]) (auto simp: AddNewFile_def Some free_slots_def)
qed

text \<open>What a copy of entry \<open>i\<close> looks like: a record of the thread \<open>new\<close> that knows the number, with the
  same file at the same position.\<close>

definition copy_of :: "int \<Rightarrow> nat \<Rightarrow> file_record \<Rightarrow> file_record \<Rightarrow> bool" where
  "copy_of new i r c \<longleftrightarrow> mine new c \<and> ForkFileID c = int i \<and>
     (\<exists>f g. ofile r = Some g \<and> ofile c = Some f \<and> headerSector (hdr f) = headerSector (hdr g) \<and> seekPosition f = seekPosition g)"

lemma copy_mine_copies:
  assumes "table_ok t" "length (visitorCnt d) = 1024" "new \<noteq> me" "set is \<subseteq> set slots" "distinct is"
    and "length (filter (\<lambda>i. mine me (t ! i)) is) \<le> card (free_slots t)"
  shows "\<exists>t' d'. copy_mine env me new t d is = Inr (t', d') \<and> table_ok t' \<and> sectors d' = sectors d
    \<and> (\<forall>j. in_use (t ! j) \<longrightarrow> t' ! j = t ! j)
    \<and> (\<forall>i \<in> set is. mine me (t ! i) \<longrightarrow> (\<exists>k \<in> free_slots t. copy_of new i (t ! i) (t' ! k)))"
  using assms
proof (induction "is" arbitrary: t d)
  case (Cons i "is")
  show ?case
  proof (cases "mine me (t ! i)")
    case False
    then show ?thesis using Cons.IH [of t d] Cons.prems by auto
  next
    case True
    have i: "i \<in> set slots" using Cons.prems(4) by simp
    obtain g where g: "ofile (t ! i) = Some g" "0 \<le> headerSector (hdr g)" "headerSector (hdr g) < NumSectors"
      using Cons.prems(1) True i by (auto simp: table_ok_def mine_def)
    obtain h where o: "OpenFile_new env d (headerSector (hdr g)) = Inr (\<lparr>hdr = h\<lparr>headerSector := headerSector (hdr g)\<rparr>, seekPosition = 0\<rparr>,
        d\<lparr>visitorCnt := (visitorCnt d)[nat (headerSector (hdr g)) := visitorCnt d ! nat (headerSector (hdr g)) + 1]\<rparr>)"
      (is "_ = Inr (?f, ?d)") by (rule OpenFile_new_at [OF g(2,3) Cons.prems(2)])
    define f where "f = Seek ?f (seekPosition g)"
    have "0 < card (free_slots t)" using Cons.prems(6) True by simp
    then have "free_slots t \<noteq> {}" by (simp add: card_gt_0_iff)
    then obtain k where k: "AddNewFile me t f = (int k, t[k := (t ! k)\<lparr>in_use := True, ofile := Some f, TID := me\<rparr>])" "k \<in> free_slots t"
      by (rule AddNewFile_free)
    define r where "r = \<lparr>ofile = Some f, TID = new, ForkFileID = int i, in_use = True, \<dots> = file_record.more (t ! k)\<rparr>"
    define t1 where "t1 = t[k := r]"
    have kl: "k < length t" using k(2) table_okD [OF Cons.prems(1)] by (simp add: free_slots_def)
    have t1: "(t[k := (t ! k)\<lparr>in_use := True, ofile := Some f, TID := me\<rparr>])[k := ((t[k := (t ! k)\<lparr>in_use := True, ofile := Some f, TID := me\<rparr>]) ! k)\<lparr>ForkFileID := int i, TID := new\<rparr>] = t1"
      using kl by (cases "t ! k") (simp add: t1_def r_def)
    have step: "copy_mine env me new t d (i # is) = copy_mine env me new t1 ?d is"
      using True g(1) o k(1) t1 unfolding f_def by (simp add: Let_def)
    have t1k: "t1 ! j = (if j = k then r else t ! j)" for j using kl by (simp add: t1_def nth_list_update)
    have tk: "\<not> in_use (t ! k)" using k(2) by (simp add: free_slots_def)
    have fr: "free_slots t1 = free_slots t - {k}" by (auto simp: free_slots_def t1k r_def split: if_splits)
    have m: "mine me (t1 ! j) = mine me (t ! j)" for j using tk Cons.prems(3) by (auto simp: mine_def t1k r_def)
    have ok1: "table_ok t1" unfolding t1_def
      by (rule table_ok_update [OF Cons.prems(1)]) (use g in \<open>simp add: r_def f_def Seek_def\<close>)
    have c1: "length (filter (\<lambda>i. mine me (t1 ! i)) is) \<le> card (free_slots t1)"
      using Cons.prems(6) True k(2) unfolding m fr by simp
    obtain t' d' where R: "copy_mine env me new t1 ?d is = Inr (t', d')" "table_ok t'" "sectors d' = sectors d"
      "\<forall>j. in_use (t1 ! j) \<longrightarrow> t' ! j = t1 ! j"
      "\<forall>i \<in> set is. mine me (t1 ! i) \<longrightarrow> (\<exists>k \<in> free_slots t1. copy_of new i (t1 ! i) (t' ! k))"
      using Cons.IH [OF ok1 _ Cons.prems(3) _ _ c1, of ?d] Cons.prems(2,4,5) by auto
    have keep: "\<forall>j. in_use (t ! j) \<longrightarrow> t' ! j = t ! j" using R(4) tk by (metis t1k)
    have new: "copy_of new i (t ! i) (t' ! k)"
      using R(4) [rule_format, of k] g(1) by (simp add: copy_of_def t1k r_def mine_def f_def Seek_def)
    have "\<exists>k \<in> free_slots t. copy_of new i' (t ! i') (t' ! k)" if i': "i' \<in> set (i # is)" "mine me (t ! i')" for i'
    proof (cases "i' = i")
      case True
      then show ?thesis using new k(2) by blast
    next
      case False
      with i' have "i' \<in> set is" by simp
      then obtain k' where "k' \<in> free_slots t1" "copy_of new i' (t1 ! i') (t' ! k')" using R(5) i'(2) m by blast
      moreover have "t1 ! i' = t ! i'" using i'(2) tk by (auto simp: t1k mine_def)
      ultimately show ?thesis using fr by auto
    qed
    then show ?thesis using step R(1,2,3) keep by auto
  qed
qed (auto)

section \<open>Taking over files\<close>

lemma get_copy_takes:
  assumes "get_copy me t x is = (r, t')" "set is \<subseteq> {..<length t}" "sorted is" "distinct is"
  shows "length t' = length t \<and> (\<forall>j. j \<notin> set is \<or> \<not> in_use (t ! j) \<longrightarrow> t' ! j = t ! j)
    \<and> (case r of
        None \<Rightarrow> \<forall>j \<in> set is. in_use (t ! j) \<longrightarrow> t' ! j = (t ! j)\<lparr>TID := me\<rparr> \<and> (me = 0 \<or> ForkFileID (t ! j) \<noteq> x)
      | Some k \<Rightarrow> k \<in> set is \<and> in_use (t ! k) \<and> ForkFileID (t ! k) = x \<and> me \<noteq> 0
          \<and> (\<forall>j \<in> set is. t' ! j = (if in_use (t ! j) \<and> j \<le> k then (t ! j)\<lparr>TID := me\<rparr> else t ! j)))"
  using assms
proof (induction me t x "is" arbitrary: r t' rule: get_copy.induct)
  case (2 me t x i "is")
  show ?case
  proof (cases "in_use (t ! i)")
    case False
    then have g: "get_copy me t x is = (r, t')" using "2.prems"(1) by simp
    have "\<forall>j \<in> set is. i < j" using "2.prems"(3,4) by (auto simp: order_less_le)
    then show ?thesis using "2.IH"(2) [OF False g] "2.prems"(2-4) False by (auto split: option.splits)
  next
    case True
    define u where "u = t[i := (t ! i)\<lparr>TID := me\<rparr>]"
    have il: "i < length t" using "2.prems"(2) by simp
    have u: "u ! j = (if j = i then (t ! i)\<lparr>TID := me\<rparr> else t ! j)" for j using il by (simp add: u_def nth_list_update)
    have lt: "\<forall>j \<in> set is. i < j" using "2.prems"(3,4) by (auto simp: order_less_le)
    show ?thesis
    proof (cases "me \<noteq> 0 \<and> ForkFileID (u ! i) = x")
      case found: True
      have r: "r = Some i" "t' = u" using "2.prems"(1) True found by (simp_all add: u_def [symmetric])
      have "t' ! j = (if in_use (t ! j) \<and> j \<le> i then (t ! j)\<lparr>TID := me\<rparr> else t ! j)" if "j \<in> set (i # is)" for j
        using that lt True unfolding r u by auto
      moreover have "\<forall>j. j \<notin> set (i # is) \<or> \<not> in_use (t ! j) \<longrightarrow> t' ! j = t ! j" using True unfolding r u by auto
      moreover have "ForkFileID (t ! i) = x" "length t' = length t" using found u [of i] by (simp_all add: r u_def)
      ultimately show ?thesis using found True r(1) by simp
    next
      case no: False
      have g: "get_copy me u x is = (r, t')" using "2.prems"(1) True no by (auto simp: Let_def u_def [symmetric])
      have iu: "in_use (u ! j) = in_use (t ! j)" "ForkFileID (u ! j) = ForkFileID (t ! j)" for j by (simp_all add: u)
      have IH: "length t' = length u \<and> (\<forall>j. j \<notin> set is \<or> \<not> in_use (u ! j) \<longrightarrow> t' ! j = u ! j)
        \<and> (case r of
            None \<Rightarrow> \<forall>j \<in> set is. in_use (u ! j) \<longrightarrow> t' ! j = (u ! j)\<lparr>TID := me\<rparr> \<and> (me = 0 \<or> ForkFileID (u ! j) \<noteq> x)
          | Some k \<Rightarrow> k \<in> set is \<and> in_use (u ! k) \<and> ForkFileID (u ! k) = x \<and> me \<noteq> 0
              \<and> (\<forall>j \<in> set is. t' ! j = (if in_use (u ! j) \<and> j \<le> k then (u ! j)\<lparr>TID := me\<rparr> else u ! j)))"
        using "2.IH"(1) [OF True u_def _ g] no "2.prems"(2-4) by (auto simp: u_def)
      have ui: "t' ! i = (t ! i)\<lparr>TID := me\<rparr>" using IH lt u by auto
      have uj: "j \<in> set is \<Longrightarrow> u ! j = t ! j" for j using lt u by auto
      have len: "length t' = length t" using IH by (simp add: u_def)
      have "t' ! j = t ! j" if "j \<notin> set (i # is) \<or> \<not> in_use (t ! j)" for j
      proof -
        have j: "j \<noteq> i" using that True by auto
        have "j \<notin> set is \<or> \<not> in_use (u ! j)" using that iu(1) by auto
        then have "t' ! j = u ! j" using IH by blast
        then show ?thesis using j u by simp
      qed
      then have out: "\<forall>j. j \<notin> set (i # is) \<or> \<not> in_use (t ! j) \<longrightarrow> t' ! j = t ! j" by blast
      have fi: "me = 0 \<or> ForkFileID (t ! i) \<noteq> x" using no iu by simp
      show ?thesis
      proof (cases r)
        case None
        then show ?thesis using IH len out ui uj iu fi by simp
      next
        case (Some k)
        then have k: "k \<in> set is" "in_use (t ! k)" "ForkFileID (t ! k) = x" "me \<noteq> 0" "i < k"
          "\<forall>j \<in> set is. t' ! j = (if in_use (t ! j) \<and> j \<le> k then (t ! j)\<lparr>TID := me\<rparr> else t ! j)"
          using IH uj iu lt by auto
        then show ?thesis using Some len out ui True by simp
      qed
    qed
  qed
qed auto

section \<open>Properties\<close>

text \<open>C27: \<open>CopyFile\<close> refuses exactly when the table has fewer free entries than the parent has files open;
  otherwise it leaves every entry in use as it is, and gives the child, for every file of the parent, an
  entry of its own with the same file, the same position and the parent's number.\<close>

theorem CopyFile_copies:
  assumes "table_ok t" "length (visitorCnt d) = 1024" "newTID \<noteq> me"
  shows "if card (free_slots t) < card {i \<in> set slots. mine me (t ! i)} then CopyFile env me newTID t d = Inr (False, t, d)
    else \<exists>t' d'. CopyFile env me newTID t d = Inr (True, t', d') \<and> table_ok t' \<and> sectors d' = sectors d
      \<and> (\<forall>j. in_use (t ! j) \<longrightarrow> t' ! j = t ! j)
      \<and> (\<forall>i \<in> set slots. mine me (t ! i) \<longrightarrow> (\<exists>k \<in> free_slots t. copy_of newTID i (t ! i) (t' ! k)))"
proof -
  have len: "length (filter P slots) = card {i \<in> set slots. P i}" for P
    using distinct_card [OF distinct_filter [OF distinct_slots]] unfolding set_filter by (rule sym)
  have f: "length (filter (\<lambda>i. \<not> in_use (t ! i)) slots) = card (free_slots t)"
    "length (filter (\<lambda>i. mine me (t ! i)) slots) = card {i \<in> set slots. mine me (t ! i)}"
    unfolding free_slots_def by (rule len)+
  show ?thesis
  proof (cases "card (free_slots t) < card {i \<in> set slots. mine me (t ! i)}")
    case True
    then show ?thesis unfolding CopyFile_def f Let_def by simp
  next
    case False
    then have "length (filter (\<lambda>i. mine me (t ! i)) slots) \<le> card (free_slots t)" unfolding f by simp
    from copy_mine_copies [OF assms subset_refl distinct_slots this, of env] False
    show ?thesis unfolding CopyFile_def f Let_def by fastforce
  qed
qed

definition sample_table :: "file_record list \<Rightarrow> file_table" where
  "sample_table rs = take 2 new_table @ rs @ drop (2 + length rs) new_table"

definition open_record :: "int \<Rightarrow> int \<Rightarrow> file_record" where
  "open_record tid fork = \<lparr>ofile = Some (sample_file 3), TID = tid, ForkFileID = fork, in_use = True\<rparr>"

lemma slots_Cons: "slots = 2 # 3 # [4..<500]"
  by (simp add: slots_def MAX_FILE_NUMBER_def upt_conv_Cons)

lemma sample_table_nth:
  "length rs = 2 \<Longrightarrow> sample_table rs ! 2 = rs ! 0" "length rs = 2 \<Longrightarrow> sample_table rs ! 3 = rs ! 1"
  "length rs = 2 \<Longrightarrow> length (sample_table rs) = 500" "length rs = 2 \<Longrightarrow> 4 \<le> i \<Longrightarrow> i < 500 \<Longrightarrow> \<not> in_use (sample_table rs ! i)"
proof -
  have n: "length new_table = 500" by (simp add: new_table_def MAX_FILE_NUMBER_def)
  then have l: "length (take 2 new_table) = 2" by simp
  show "length rs = 2 \<Longrightarrow> sample_table rs ! 2 = rs ! 0" "length rs = 2 \<Longrightarrow> sample_table rs ! 3 = rs ! 1"
    "length rs = 2 \<Longrightarrow> length (sample_table rs) = 500"
    unfolding sample_table_def nth_append length_append l by (simp_all add: n)
  have "\<not> in_use (new_table ! i)" if "2 \<le> i" "i < 500" using that by (simp add: new_table_def MAX_FILE_NUMBER_def)
  then show "length rs = 2 \<Longrightarrow> 4 \<le> i \<Longrightarrow> i < 500 \<Longrightarrow> \<not> in_use (sample_table rs ! i)"
    unfolding sample_table_def nth_append l by (auto simp: n)
qed

lemma sample_table_ok:
  assumes "length rs = 2" "\<forall>r \<in> set rs. \<exists>a b. r = open_record a b" shows "table_ok (sample_table rs)"
proof -
  obtain r1 r2 where r: "rs = [r1, r2]" using assms(1) by (auto simp: numeral_2_eq_2 length_Suc_conv)
  have "\<exists>f. ofile (sample_table rs ! i) = Some f \<and> 0 \<le> headerSector (hdr f) \<and> headerSector (hdr f) < NumSectors"
    if "i \<in> set slots" "in_use (sample_table rs ! i)" for i
  proof -
    have "i < 4" using that sample_table_nth(4) [OF assms(1), of i] by (metis not_less slot_range)
    then have "i = 2 \<or> i = 3" using that(1) by (simp only: slot_range) linarith
    then show ?thesis using assms(2) sample_table_nth(1,2) [OF assms(1)]
      by (auto simp: r open_record_def sample_file_def sample_header_def disk_consts)
  qed
  then show ?thesis using sample_table_nth(3) [OF assms(1)] by (simp add: table_ok_def MAX_FILE_NUMBER_def)
qed

lemma CopyFile_copies_witness:
  "\<exists>t' d' k. CopyFile sample_env 1 2 (sample_table [open_record 1 (-1), open_record 7 (-1)]) \<lparr>sectors = zero_store, visitorCnt = replicate 1024 0\<rparr>
     = Inr (True, t', d') \<and> copy_of 2 2 (open_record 1 (-1)) (t' ! k)"
proof -
  let ?t = "sample_table [open_record 1 (-1), open_record 7 (-1)]"
  have ok: "table_ok ?t" by (rule sample_table_ok) auto
  have n: "?t ! 2 = open_record 1 (-1)" "?t ! 3 = open_record 7 (-1)" using sample_table_nth(1,2) [of "[open_record 1 (-1), open_record 7 (-1)]"] by simp_all
  have free: "free_slots ?t = {4..<500}"
  proof (rule set_eqI)
    fix i
    show "i \<in> free_slots ?t \<longleftrightarrow> i \<in> {4..<500}"
      using sample_table_nth(4) [of "[open_record 1 (-1), open_record 7 (-1)]" i] n
      unfolding free_slots_def mem_Collect_eq slot_range
      by (cases "i = 2 \<or> i = 3") (auto simp: open_record_def)
  qed
  have "{i \<in> set slots. mine 1 (?t ! i)} = {2}"
  proof (rule set_eqI)
    fix i
    show "i \<in> {i \<in> set slots. mine 1 (?t ! i)} \<longleftrightarrow> i \<in> {2}"
      using sample_table_nth(4) [of "[open_record 1 (-1), open_record 7 (-1)]" i] n
      unfolding mem_Collect_eq slot_range
      by (cases "i = 2 \<or> i = 3") (auto simp: open_record_def mine_def)
  qed
  then have "\<not> card (free_slots ?t) < card {i \<in> set slots. mine 1 (?t ! i)}" unfolding free by simp
  then obtain t' d' where "CopyFile sample_env 1 2 ?t \<lparr>sectors = zero_store, visitorCnt = replicate 1024 0\<rparr> = Inr (True, t', d')"
    and c: "\<forall>i \<in> set slots. mine 1 (?t ! i) \<longrightarrow> (\<exists>k \<in> free_slots ?t. copy_of 2 i (?t ! i) (t' ! k))"
    using CopyFile_copies [OF ok, of "\<lparr>sectors = zero_store, visitorCnt = replicate 1024 0\<rparr>" 2 1 sample_env] by auto
  moreover have "mine 1 (?t ! 2)" "2 \<in> set slots" using n(1) by (simp_all add: open_record_def mine_def)
  ultimately show ?thesis using n(1) by metis
qed

text \<open>C35: \<open>GetFile\<close> for a number that is not an entry of the calling thread, such as one inherited from a
  parent, makes the caller the owner of every open file in the entries up to the one it finds, and of every
  open file there is when it finds none: its loop assigns \<open>TID\<close> where it means to compare.\<close>

theorem GetFile_takes_over:
  assumes "GetFile me t x = Inr (r, t')" "length t = 500" "2 \<le> x" "\<not> mine me (t ! nat x)"
  shows "\<forall>j \<in> set slots. in_use (t ! j) \<and> (case r of None \<Rightarrow> True | Some k \<Rightarrow> j \<le> k) \<longrightarrow> t' ! j = (t ! j)\<lparr>TID := me\<rparr>"
proof -
  have g: "get_copy me t x slots = (r, t')" using assms by (auto simp: GetFile_def res_simps)
  have "set slots \<subseteq> {..<length t}" using assms(2) by (auto simp only: slot_range lessThan_iff)
  moreover have "sorted slots" by (simp add: slots_def)
  ultimately have "set slots \<subseteq> {..<length t}" "sorted slots" .
  from get_copy_takes [OF g this distinct_slots] show ?thesis by (auto split: option.splits)
qed

lemma GetFile_takes_over_witness:
  "\<exists>t'. GetFile 2 (sample_table [open_record 1 (-1), open_record 2 2]) 2 = Inr (Some 3, t') \<and> TID (t' ! 2) = 2"
proof -
  let ?t = "sample_table [open_record 1 (-1), open_record 2 2]"
  have n: "?t ! 2 = open_record 1 (-1)" "?t ! 3 = open_record 2 2" "length ?t = 500" using sample_table_nth(1-3) [of "[open_record 1 (-1), open_record 2 2]"] by simp_all
  obtain t' where g: "GetFile 2 ?t 2 = Inr (Some 3, t')"
    using n by (simp add: GetFile_def aget_def slots_Cons mine_def open_record_def)
  from GetFile_takes_over [OF this n(3)] n(1) have "t' ! 2 = (open_record 1 (-1))\<lparr>TID := 2\<rparr>"
    by (auto simp: mine_def open_record_def)
  then show ?thesis using g by simp
qed

end
