(* ===== verification/Paging.thy ===== *)
theory Paging
  imports Machine
begin

text \<open>
  The parts of demand paging that need no file: the three ways of replacing a TLB entry
  (userprog/exception.cc) and the bitmap of page frames (machine/machine.cc). The hand of the clock is the
  global variable \<open>Index\<close>.
\<close>

section \<open>Searching a table\<close>

text \<open>\<open>for (i = lo; i < n; ++i) if (P(t[i])) break;\<close> with the place found.\<close>

function find_entry :: "(translation_entry \<Rightarrow> bool) \<Rightarrow> translation_entry list \<Rightarrow> int \<Rightarrow> int \<Rightarrow> int option res" where
  "find_entry P t i n =
     (if i < n then rbind (aget t i) (\<lambda>e. if P e then Inr (Some i) else find_entry P t (i + 1) n)
      else Inr None)"
  by pat_completeness auto
termination by (relation "measure (\<lambda>(P, t, i, n). nat (n - i))") auto

declare find_entry.simps [simp del]

lemma find_entry_spec:
  "0 \<le> i \<Longrightarrow> n \<le> int (length t) \<Longrightarrow> \<exists>r. find_entry P t i n = Inr r \<and>
     (case r of None \<Rightarrow> (\<forall>j. i \<le> j \<and> j < n \<longrightarrow> \<not> P (t ! nat j))
      | Some k \<Rightarrow> i \<le> k \<and> k < n \<and> P (t ! nat k) \<and> (\<forall>j. i \<le> j \<and> j < k \<longrightarrow> \<not> P (t ! nat j)))"
proof (induction P t i n rule: find_entry.induct)
  case (1 P t i n)
  show ?case
  proof (cases "i < n \<and> \<not> P (t ! nat i)")
    case True
    have "aget t i = Inr (t ! nat i)" using 1(2,3) True by (simp add: aget_ok)
    then obtain r where r: "find_entry P t (i + 1) n = Inr r" and R: "case r of None \<Rightarrow> (\<forall>j. i + 1 \<le> j \<and> j < n \<longrightarrow> \<not> P (t ! nat j))
        | Some k \<Rightarrow> i + 1 \<le> k \<and> k < n \<and> P (t ! nat k) \<and> (\<forall>j. i + 1 \<le> j \<and> j < k \<longrightarrow> \<not> P (t ! nat j))"
      using 1(1) [of "t ! nat i"] 1(2,3) True by auto
    have step: "(i \<le> j \<and> j < k \<longrightarrow> \<not> P (t ! nat j)) = (i + 1 \<le> j \<and> j < k \<longrightarrow> \<not> P (t ! nat j))" for j k
      using True by (cases "i = j") auto
    have "find_entry P t i n = Inr r" using r True \<open>aget t i = _\<close> by (subst find_entry.simps) simp
    then show ?thesis using R unfolding step by (cases r) auto
  next
    case False
    then show ?thesis using 1(2,3) by (subst find_entry.simps) (auto simp: aget_ok)
  qed
qed

section \<open>Replacing TLB entries\<close>

text \<open>\<open>TLBFIFO\<close>: the first free entry, or the last one after a shift.\<close>

definition TLBFIFO :: "translation_entry \<Rightarrow> translation_entry list \<Rightarrow> translation_entry list res" where
  "TLBFIFO page t =
     rbind (find_entry (\<lambda>e. \<not> valid e) t 0 TLBSize) (\<lambda>free.
     case free of Some idx \<Rightarrow> aset t idx page
     | None \<Rightarrow> aset (tl t @ [last t]) (TLBSize - 1) page)"

text \<open>\<open>TLBClock\<close>: the loop ends because every round clears a use bit.\<close>

definition chances :: "translation_entry list \<Rightarrow> nat" where
  "chances t = length (filter (\<lambda>e. valid e \<and> use e) t)"

lemma chances_less:
  assumes "aget t i = Inr e" "valid e" "use e" "aset t i (e\<lparr>use := False\<rparr>) = Inr t'" shows "chances t' < chances t"
proof -
  have i: "0 \<le> i" "nat i < length t" "e = t ! nat i" "t' = t[nat i := e\<lparr>use := False\<rparr>]" using assms by (auto simp: aget_Inr aset_Inr)
  have t: "t = take (nat i) t @ e # drop (Suc (nat i)) t" using i(2,3) by (simp add: id_take_nth_drop)
  have "t' = take (nat i) t @ e\<lparr>use := False\<rparr> # drop (Suc (nat i)) t" using i(2,4) by (simp add: upd_conv_take_nth_drop)
  then have "chances t' = length (filter (\<lambda>e. valid e \<and> use e) (take (nat i) t)) + length (filter (\<lambda>e. valid e \<and> use e) (drop (Suc (nat i)) t))"
    by (simp add: chances_def)
  moreover have "chances t = Suc \<dots>" unfolding chances_def by (subst t) (simp add: assms(2,3))
  ultimately show ?thesis by simp
qed

function clock_sweep :: "translation_entry list \<Rightarrow> int \<Rightarrow> (translation_entry list \<times> int) res" where
  "clock_sweep t hand =
     rbind (aget t hand) (\<lambda>e.
     if valid e \<and> use e then
       rbind (aset t hand (e\<lparr>use := False\<rparr>)) (\<lambda>t. clock_sweep t ((hand + 1) smod TLBSize))
     else Inr (t, hand))"
  by pat_completeness auto
termination
  by (relation "measure (\<lambda>(t, hand). chances t)") (auto intro: chances_less)

declare clock_sweep.simps [simp del]

definition TLBClock :: "translation_entry \<Rightarrow> translation_entry list \<Rightarrow> int \<Rightarrow> (translation_entry list \<times> int) res" where
  "TLBClock page t hand =
     rbind (clock_sweep t hand) (\<lambda>(t, hand).
     rbind (aset t hand (page\<lparr>use := True\<rparr>)) (\<lambda>t. Inr (t, hand)))"

text \<open>Neither: the entries are replaced in turn.\<close>

definition TLBNext :: "translation_entry \<Rightarrow> translation_entry list \<Rightarrow> int \<Rightarrow> (translation_entry list \<times> int) res" where
  "TLBNext page t hand = rbind (aset t hand page) (\<lambda>t. Inr (t, (hand + 1) smod TLBSize))"

datatype tlb_policy = USE_FIFO | USE_CLOCK | USE_NEITHER

definition TLB_replace :: "tlb_policy \<Rightarrow> translation_entry \<Rightarrow> 'a machine_scheme \<Rightarrow> 'a machine_scheme res" where
  "TLB_replace policy page s =
     (case tlb s of None \<Rightarrow> Inl NullPointer
      | Some t \<Rightarrow>
          rbind (case policy of
              USE_FIFO \<Rightarrow> rbind (TLBFIFO page t) (\<lambda>t. Inr (t, Index s))
            | USE_CLOCK \<Rightarrow> TLBClock page t (Index s)
            | USE_NEITHER \<Rightarrow> TLBNext page t (Index s)) (\<lambda>(t, i). Inr (s\<lparr>tlb := Some t, Index := i\<rparr>)))"

section \<open>Page frames\<close>

definition allocateMem :: "'a machine_scheme \<Rightarrow> int \<times> 'a machine_scheme" where
  "allocateMem s =
     (case find (\<lambda>pos. frame_bitmap s AND push_bit pos 1 = 0) [0..<nat NumPhysPages] of
        None \<Rightarrow> (-1, s)
      | Some pos \<Rightarrow> (int pos, s\<lparr>frame_bitmap := frame_bitmap s OR push_bit pos 1\<rparr>))"

text \<open>A shift by a negative number, or by 32 or more, is not defined.\<close>

definition free_frame :: "32 word \<Rightarrow> translation_entry \<Rightarrow> 32 word res" where
  "free_frame b e =
     (if \<not> valid e then Inr b
      else if 0 \<le> physicalPage e \<and> physicalPage e < 32 then Inr (b AND NOT (push_bit (nat (physicalPage e)) 1))
      else Inl UndefinedArith)"

function free_frames :: "translation_entry list \<Rightarrow> int \<Rightarrow> int \<Rightarrow> 32 word \<Rightarrow> 32 word res" where
  "free_frames pt i n b =
     (if i < n then rbind (aget pt i) (\<lambda>e. rbind (free_frame b e) (\<lambda>b. free_frames pt (i + 1) n b)) else Inr b)"
  by pat_completeness auto
termination by (relation "measure (\<lambda>(pt, i, n, b). nat (n - i))") auto

declare free_frames.simps [simp del]

definition freeMem :: "'a machine_scheme \<Rightarrow> 'a machine_scheme res" where
  "freeMem s =
     (case pageTable s of None \<Rightarrow> Inl NullPointer
      | Some pt \<Rightarrow> rbind (free_frames pt 0 (pageTableSize s) (frame_bitmap s)) (\<lambda>b. Inr (s\<lparr>frame_bitmap := b\<rparr>)))"

end
