(* ===== verification/Vm.thy ===== *)
theory Vm
  imports FsHandles FileTable Paging
begin

text \<open>
  Running user programs: address spaces (userprog/addrspace.cc) and demand paging
  (userprog/exception.cc) in the configuration with a TLB, a bitmap of frames and a file of virtual memory
  for every program (\<open>USE_TLB\<close>, \<open>USE_BITMAP\<close>, \<open>USE_DISK\<close>). The state extends the machine's by what the
  kernel keeps for the running thread.
\<close>

section \<open>State\<close>

text \<open>While a space runs, its page table is the machine's; \<open>ownTable\<close> is the table it was made with.\<close>

record addr_space =
  VMName :: "byte list"
  exeSector :: int
  numPages :: int
  ownTable :: "translation_entry list"

text \<open>\<open>cin\<close> are the words typed at the console, \<open>cinPos\<close> how many were read; \<open>cout\<close> is the output.
  \<open>tid\<close> is \<open>currentThread->getTID()\<close>.\<close>

record user_machine = machine +
  fsys :: file_system
  opened :: file_table
  space :: "addr_space option"
  SpaceCnt :: nat
  tid :: int
  used_TID :: "bool list"
  end_state :: "int list"
  cin :: "nat \<Rightarrow> byte list"
  cinPos :: nat
  cout :: "byte list"

text \<open>The choices at compile time and what comes from outside: \<open>usable n\<close> is how many bytes the allocator
  provides for a request of \<open>n\<close>.\<close>

record user_env =
  fenv :: fs_env
  policy :: tlb_policy
  usable :: "int \<Rightarrow> int"

definition UserStackSize :: int where "UserStackSize = 1024"

section \<open>Files of the kernel\<close>

text \<open>\<open>OpenFile *f = fileSystem->Open(name); ASSERT(f != NULL)\<close>\<close>

definition open_named :: "fs_env \<Rightarrow> byte list \<Rightarrow> user_machine \<Rightarrow> (open_file \<times> user_machine) res" where
  "open_named env nm s =
     rbind (Open env (fsys s) nm) (\<lambda>(f, fs).
     case f of None \<Rightarrow> Inl AssertFailed | Some f \<Rightarrow> Inr (f, s\<lparr>fsys := fs\<rparr>))"

definition with_disk :: "fs_disk \<Rightarrow> user_machine \<Rightarrow> user_machine" where
  "with_disk d s = s\<lparr>fsys := (fsys s)\<lparr>fdisk := d\<rparr>\<rparr>"

definition close_file :: "open_file \<Rightarrow> user_machine \<Rightarrow> user_machine res" where
  "close_file f s = rbind (OpenFile_delete f (fdisk (fsys s))) (\<lambda>d. Inr (with_disk d s))"

text \<open>\<open>bcopy\<close> into and out of an array of bytes.\<close>

definition put_bytes :: "byte list \<Rightarrow> int \<Rightarrow> byte list \<Rightarrow> byte list res" where
  "put_bytes buf off bs =
     (if 0 \<le> off \<and> off + int (length bs) \<le> int (length buf) then Inr (overlay buf (nat off) bs) else Inl OutOfBounds)"

definition get_bytes :: "byte list \<Rightarrow> int \<Rightarrow> int \<Rightarrow> byte list res" where
  "get_bytes buf off n =
     (if 0 \<le> off \<and> 0 \<le> n \<and> off + n \<le> int (length buf) then Inr (take (nat n) (drop (nat off) buf)) else Inl OutOfBounds)"

definition current_space :: "user_machine \<Rightarrow> addr_space res" where
  "current_space s = (case space s of None \<Rightarrow> Inl NullPointer | Some sp \<Rightarrow> Inr sp)"

definition current_table :: "user_machine \<Rightarrow> translation_entry list res" where
  "current_table s = (case pageTable s of None \<Rightarrow> Inl NullPointer | Some pt \<Rightarrow> Inr pt)"

section \<open>Page faults\<close>

text \<open>\<open>vm->WriteAt(&mainMemory[PageSize * frame], PageSize, i * PageSize)\<close>\<close>

definition page_out :: "fs_env \<Rightarrow> open_file \<Rightarrow> int \<Rightarrow> int \<Rightarrow> user_machine \<Rightarrow> (open_file \<times> user_machine) res" where
  "page_out env vm frame i s =
     rbind (get_bytes (mainMemory s) (PageSize * frame) PageSize) (\<lambda>bs.
     rbind (WriteAt write_depth env vm (fdisk (fsys s)) bs PageSize (i * PageSize)) (\<lambda>(n, vm, d).
     Inr (vm, with_disk d s)))"

text \<open>\<open>vm->ReadAt(&mainMemory[PageSize * frame], PageSize, vpn * PageSize)\<close>\<close>

definition page_in :: "fs_env \<Rightarrow> open_file \<Rightarrow> int \<Rightarrow> int \<Rightarrow> user_machine \<Rightarrow> (open_file \<times> user_machine) res" where
  "page_in env vm frame vpn s =
     rbind (ReadAt env vm (sectors (fdisk (fsys s))) PageSize (vpn * PageSize)) (\<lambda>(bs, vm).
     rbind (put_bytes (mainMemory s) (PageSize * frame) bs) (\<lambda>m.
     Inr (vm, s\<lparr>mainMemory := m\<rparr>)))"

definition invalidate :: "translation_entry list \<Rightarrow> int \<Rightarrow> user_machine \<Rightarrow> int \<times> user_machine" where
  "invalidate pt i s =
     (physicalPage (pt ! nat i), s\<lparr>pageTable := Some (pt[nat i := (pt ! nat i)\<lparr>valid := False\<rparr>])\<rparr>)"

text \<open>The first page that is not dirty gives up its frame; if all are dirty the first one is written out.\<close>

definition ReplacePage :: "fs_env \<Rightarrow> user_machine \<Rightarrow> (int \<times> user_machine) res" where
  "ReplacePage env s =
     rbind (current_table s) (\<lambda>pt.
     rbind (find_entry (\<lambda>e. valid e \<and> \<not> dirty e) pt 0 (pageTableSize s)) (\<lambda>clean.
     case clean of Some i \<Rightarrow> Inr (invalidate pt i s)
     | None \<Rightarrow>
         rbind (find_entry valid pt 0 (pageTableSize s)) (\<lambda>any.
         case any of None \<Rightarrow> Inr (-1, s)
         | Some i \<Rightarrow>
             let (frame, s) = invalidate pt i s in
             rbind (current_space s) (\<lambda>sp.
             rbind (open_named env (VMName sp) s) (\<lambda>(vm, s).
             rbind (page_out env vm frame i s) (\<lambda>(vm, s).
             rbind (close_file vm s) (\<lambda>s. Inr (frame, s))))))))"

definition PageFaultHandler :: "fs_env \<Rightarrow> int \<Rightarrow> user_machine \<Rightarrow> user_machine res" where
  "PageFaultHandler env vpn s =
     (let (frame, s) = allocateMem s in
      rbind (if frame = -1 then ReplacePage env s else Inr (frame, s)) (\<lambda>(frame, s).
      rbind (current_table s) (\<lambda>pt.
      rbind (aget pt vpn) (\<lambda>e.
      let s = s\<lparr>pageTable := Some (pt[nat vpn := e\<lparr>physicalPage := frame\<rparr>])\<rparr> in
      rbind (current_space s) (\<lambda>sp.
      rbind (open_named env (VMName sp) s) (\<lambda>(vm, s).
      rbind (page_in env vm frame vpn s) (\<lambda>(vm, s).
      rbind (close_file vm s) (\<lambda>s.
      Inr (s\<lparr>pageTable := Some (pt[nat vpn := e\<lparr>physicalPage := frame, valid := True, use := False, dirty := False, readOnly := False\<rparr>])\<rparr>)))))))))"

text \<open>The entry is read before a page fault is handled, and that copy goes to the TLB.\<close>

definition TLBMissHandler :: "user_env \<Rightarrow> 32 word \<Rightarrow> user_machine \<Rightarrow> user_machine res" where
  "TLBMissHandler env addr s =
     (let vpn = uint addr div PageSize in
      rbind (current_table s) (\<lambda>pt.
      rbind (aget pt vpn) (\<lambda>page.
      rbind (if \<not> valid page then PageFaultHandler (fenv env) vpn s else Inr s) (\<lambda>s.
      TLB_replace (policy env) page s))))"

section \<open>Executable files\<close>

record segment =
  virtualAddr :: int
  inFileAddr :: int
  segSize :: int

record noff_header =
  noffMagic :: int
  code :: segment
  initData :: segment
  uninitData :: segment

definition NOFFMAGIC :: int where "NOFFMAGIC = 0xbadfad"
definition noff_size :: int where "noff_size = 40"

definition segment_of :: "int list \<Rightarrow> nat \<Rightarrow> segment" where
  "segment_of xs i = \<lparr>virtualAddr = xs ! i, inFileAddr = xs ! (i + 1), segSize = xs ! (i + 2)\<rparr>"

definition noff_of :: "byte list \<Rightarrow> noff_header" where
  "noff_of bs = (let xs = un_ints 10 bs in
     \<lparr>noffMagic = xs ! 0, code = segment_of xs 1, initData = segment_of xs 4, uninitData = segment_of xs 7\<rparr>)"

definition swap_int :: "int \<Rightarrow> int" where
  "swap_int x = sint (WordToHost (word_of_int x))"

definition swap_segment :: "segment \<Rightarrow> segment" where
  "swap_segment g = \<lparr>virtualAddr = swap_int (virtualAddr g), inFileAddr = swap_int (inFileAddr g), segSize = swap_int (segSize g)\<rparr>"

definition SwapHeader :: "noff_header \<Rightarrow> noff_header" where
  "SwapHeader h = \<lparr>noffMagic = swap_int (noffMagic h), code = swap_segment (code h),
     initData = swap_segment (initData h), uninitData = swap_segment (uninitData h)\<rparr>"

section \<open>Address spaces\<close>

text \<open>\<open>sprintf(str, "VirtualMemory%d", n)\<close> into 20 bytes.\<close>

fun decimal :: "nat \<Rightarrow> byte list" where
  "decimal n = (if n < 10 then [48 + of_nat n] else decimal (n div 10) @ [48 + of_nat (n mod 10)])"

declare decimal.simps [simp del]

definition vm_name :: "nat \<Rightarrow> byte list" where
  "vm_name n = [86, 105, 114, 116, 117, 97, 108, 77, 101, 109, 111, 114, 121] @ decimal n"

definition new_vm_name :: "nat \<Rightarrow> byte list res" where
  "new_vm_name n = (if length (vm_name n) < 20 then Inr (vm_name n) else Inl OutOfBounds)"

text \<open>One segment of the executable is read into the buffer for the virtual memory.\<close>

definition load_segment :: "fs_env \<Rightarrow> segment \<Rightarrow> open_file \<Rightarrow> user_machine \<Rightarrow> byte list \<Rightarrow> (open_file \<times> byte list) res" where
  "load_segment env g exe s buf =
     (if segSize g > 0 then
        rbind (ReadAt env exe (sectors (fdisk (fsys s))) (segSize g) (inFileAddr g)) (\<lambda>(bs, exe).
        rbind (put_bytes buf (virtualAddr g) bs) (\<lambda>buf. Inr (exe, buf)))
      else Inr (exe, buf))"

text \<open>\<open>new TranslationEntry[numPages]\<close> and the loop that sets all fields but \<open>physicalPage\<close>.\<close>

definition new_page_table :: "fs_env \<Rightarrow> int \<Rightarrow> translation_entry list" where
  "new_page_table env n = map (\<lambda>i. \<lparr>virtualPage = int i, physicalPage = sint (heap_junk env i),
     valid = False, readOnly = False, use = False, dirty = False\<rparr>) [0..<nat n]"

definition read_noff :: "fs_env \<Rightarrow> open_file \<Rightarrow> user_machine \<Rightarrow> (noff_header \<times> open_file) res" where
  "read_noff env exe s =
     rbind (ReadAt env exe (sectors (fdisk (fsys s))) noff_size 0) (\<lambda>(bs, exe).
     let h = noff_of (overlay (map (\<lambda>k. ucast (heap_junk env k)) [0..<nat noff_size]) 0 bs);
         h = (if noffMagic h \<noteq> NOFFMAGIC \<and> swap_int (noffMagic h) = NOFFMAGIC then SwapHeader h else h)
     in rbind (ASSERT (noffMagic h = NOFFMAGIC)) (\<lambda>_. Inr (h, exe)))"

definition space_size :: "noff_header \<Rightarrow> int" where
  "space_size h = u32 (segSize (code h) + segSize (initData h) + segSize (uninitData h) + UserStackSize)"

text \<open>The virtual memory file is filled: zeros, then code and data.\<close>

definition fill_vm :: "fs_env \<Rightarrow> byte list \<Rightarrow> noff_header \<Rightarrow> int \<Rightarrow> open_file \<Rightarrow> user_machine \<Rightarrow> (open_file \<times> user_machine) res" where
  "fill_vm env nm h sz exe s =
     rbind (Open env (fsys s) nm) (\<lambda>(vm, fs).
     let s = s\<lparr>fsys := fs\<rparr> in
     rbind (load_segment env (code h) exe s (replicate (nat sz) 0)) (\<lambda>(exe, buf).
     rbind (load_segment env (initData h) exe s buf) (\<lambda>(exe, buf).
     case vm of None \<Rightarrow> Inl NullPointer
     | Some vm \<Rightarrow>
         rbind (WriteAt write_depth env vm (fdisk (fsys s)) buf sz 0) (\<lambda>(n, vm, d).
         rbind (close_file vm (with_disk d s)) (\<lambda>s. Inr (exe, s))))))"

definition AddrSpace_new :: "fs_env \<Rightarrow> open_file \<Rightarrow> user_machine \<Rightarrow> (addr_space \<times> open_file \<times> user_machine) res" where
  "AddrSpace_new env exe s =
     rbind (read_noff env exe s) (\<lambda>(h, exe).
     let pages = divRoundUp (space_size h) PageSize; sz = u32 (pages * PageSize) in
     rbind (new_vm_name (SpaceCnt s)) (\<lambda>nm.
     rbind (Create env (fsys s) nm MemorySize) (\<lambda>(made, fs).
     rbind (ASSERT made) (\<lambda>_.
     rbind (fill_vm env nm h sz exe (s\<lparr>fsys := fs, SpaceCnt := SpaceCnt s + 1\<rparr>)) (\<lambda>(exe', s).
     Inr (\<lparr>VMName = nm, exeSector = headerSector (hdr exe), numPages = pages, ownTable = new_page_table env pages\<rparr>, exe', s))))))"

fun clear_registers :: "nat list \<Rightarrow> user_machine \<Rightarrow> user_machine res" where
  "clear_registers [] s = Inr s"
| "clear_registers (i # is) s = rbind (WriteRegister s (int i) 0) (\<lambda>s. clear_registers is s)"

definition InitRegisters :: "addr_space \<Rightarrow> user_machine \<Rightarrow> user_machine res" where
  "InitRegisters sp s =
     rbind (clear_registers [0..<nat NumTotalRegs] s) (\<lambda>s.
     rbind (WriteRegister s PCReg 0) (\<lambda>s.
     rbind (WriteRegister s NextPCReg 4) (\<lambda>s.
     WriteRegister s StackReg (word_of_int (numPages sp * PageSize - 16)))))"

definition SaveState :: "user_machine \<Rightarrow> user_machine res" where
  "SaveState s = (case tlb s of None \<Rightarrow> Inl NullPointer
     | Some t \<Rightarrow> Inr (s\<lparr>tlb := Some (map (\<lambda>e. e\<lparr>valid := False\<rparr>) t)\<rparr>))"

definition RestoreState :: "addr_space \<Rightarrow> user_machine \<Rightarrow> user_machine" where
  "RestoreState sp s = s\<lparr>pageTable := Some (ownTable sp), pageTableSize := numPages sp\<rparr>"

text \<open>\<open>CopyTable\<close>: the first \<open>numPages\<close> entries, field by field.\<close>

definition CopyTable :: "addr_space \<Rightarrow> translation_entry list \<Rightarrow> addr_space res" where
  "CopyTable sp table =
     (if numPages sp \<le> int (length table) \<and> int (length (ownTable sp)) = numPages sp
      then Inr (sp\<lparr>ownTable := take (nat (numPages sp)) table\<rparr>) else Inl OutOfBounds)"

text \<open>\<open>WriteBackAll\<close> of the space that runs.\<close>

function write_back :: "fs_env \<Rightarrow> translation_entry list \<Rightarrow> int \<Rightarrow> int \<Rightarrow> open_file \<Rightarrow> user_machine \<Rightarrow> (open_file \<times> user_machine) res" where
  "write_back env pt i n vm s =
     (if i < n then
        rbind (aget pt i) (\<lambda>e.
        rbind (if valid e then page_out env vm (physicalPage e) i s else Inr (vm, s)) (\<lambda>(vm, s).
        write_back env pt (i + 1) n vm s))
      else Inr (vm, s))"
  by pat_completeness auto
termination by (relation "measure (\<lambda>(env, pt, i, n, vm, s). nat (n - i))") auto

declare write_back.simps [simp del]

definition WriteBackAll :: "fs_env \<Rightarrow> user_machine \<Rightarrow> user_machine res" where
  "WriteBackAll env s =
     rbind (current_space s) (\<lambda>sp.
     rbind (open_named env (VMName sp) s) (\<lambda>(vm, s).
     rbind (current_table s) (\<lambda>pt.
     rbind (write_back env pt 0 (numPages sp) vm s) (\<lambda>(vm, s).
     close_file vm s))))"

end
