(* ===== verification/Syscalls.thy ===== *)
theory Syscalls
  imports Vm
begin

text \<open>
  The system calls and the entry of the kernel from user programs (userprog/exception.cc), and the start of
  a program (userprog/progtest.cc). A call of the thread system, between which and its return other threads
  run, is a parameter \<open>sched\<close>: it maps the call and the state to a number, which is the new thread's for
  \<open>ForkThread\<close>, and the state in which the calling thread goes on.
\<close>

section \<open>Calls of the thread system\<close>

text \<open>What a new thread runs: \<open>ExecFunc\<close> on the address of a name, or \<open>ForkFunc\<close> on a space and a program counter.\<close>

datatype thread_body = ExecBody "32 word" | ForkBody addr_space "32 word"

datatype thread_call = ForkThread thread_body | YieldThread | FinishThread | HaltMachine

type_synonym scheduler = "thread_call \<Rightarrow> user_machine \<Rightarrow> (int \<times> user_machine) res"

section \<open>Traps taken while the kernel accesses user memory\<close>

text \<open>\<open>ExceptionHandler\<close> with the system calls left open.\<close>

definition handle_exception :: "user_env \<Rightarrow> (user_machine \<Rightarrow> user_machine res) \<Rightarrow> ExceptionType \<Rightarrow> user_machine \<Rightarrow> user_machine res" where
  "handle_exception env syscall which s =
     (if which = PageFaultException then
        (case tlb s of None \<Rightarrow> Inl AssertFailed
         | Some _ \<Rightarrow> rbind (ReadRegister s BadVAddrReg) (\<lambda>badVAddr. TLBMissHandler env badVAddr s))
      else if which = SyscallException then syscall s
      else Inl AssertFailed)"

text \<open>An access to memory raises no \<open>SyscallException\<close>.\<close>

definition on_access :: "user_env \<Rightarrow> ExceptionType \<Rightarrow> user_machine \<Rightarrow> user_machine res" where
  "on_access env = handle_exception env (\<lambda>s. Inl AssertFailed)"

definition IncreasePC :: "user_machine \<Rightarrow> user_machine res" where
  "IncreasePC s =
     rbind (ReadRegister s PCReg) (\<lambda>PC.
     rbind (ReadRegister s NextPCReg) (\<lambda>NextPC.
     rbind (WriteRegister s PrevPCReg PC) (\<lambda>s.
     rbind (WriteRegister s PCReg NextPC) (\<lambda>s.
     WriteRegister s NextPCReg (NextPC + 4)))))"

section \<open>Names in user memory\<close>

text \<open>\<open>if (!ReadMem(addr, 1, &data)) ASSERT(ReadMem(addr, 1, &data));\<close>\<close>

definition read_twice :: "user_env \<Rightarrow> 32 word \<Rightarrow> user_machine \<Rightarrow> (32 word \<times> user_machine) res" where
  "read_twice env addr s =
     rbind (ReadMem (on_access env) s addr 1) (\<lambda>(ok, v, s).
     if ok then Inr (v, s)
     else rbind (ReadMem (on_access env) s addr 1) (\<lambda>(ok, v, s). rbind (ASSERT ok) (\<lambda>_. Inr (v, s))))"

text \<open>The loop, with the number of characters that may still come before the \<open>ASSERT\<close> fails.\<close>

fun get_name :: "user_env \<Rightarrow> nat \<Rightarrow> 32 word \<Rightarrow> user_machine \<Rightarrow> (byte list \<times> user_machine) res" where
  "get_name env 0 addr s = rbind (read_twice env addr s) (\<lambda>_. Inl AssertFailed)"
| "get_name env (Suc n) addr s =
     rbind (read_twice env addr s) (\<lambda>(data, s).
     if data = 0 then Inr ([], s)
     else rbind (get_name env n (addr + 1) s) (\<lambda>(cs, s). Inr (ucast data # cs, s)))"

definition GetFileName :: "user_env \<Rightarrow> 32 word \<Rightarrow> user_machine \<Rightarrow> (byte list \<times> user_machine) res" where
  "GetFileName env addr s = get_name env FileNameMaxLen addr s"

section \<open>Files\<close>

definition CreateHandler :: "user_env \<Rightarrow> user_machine \<Rightarrow> user_machine res" where
  "CreateHandler env s =
     rbind (ReadRegister s 4) (\<lambda>startAddr.
     rbind (GetFileName env startAddr s) (\<lambda>(fileName, s).
     rbind (Create (fenv env) (fsys s) fileName 0) (\<lambda>(made, fs).
     rbind (ASSERT made) (\<lambda>_. IncreasePC (s\<lparr>fsys := fs\<rparr>)))))"

definition OpenHandler :: "user_env \<Rightarrow> user_machine \<Rightarrow> user_machine res" where
  "OpenHandler env s =
     rbind (ReadRegister s 4) (\<lambda>startAddr.
     rbind (GetFileName env startAddr s) (\<lambda>(fileName, s).
     rbind (open_named (fenv env) fileName s) (\<lambda>(openFile, s).
     let (fid, t) = AddNewFile (tid s) (opened s) openFile in
     rbind (ASSERT (fid \<ge> 2)) (\<lambda>_.
     rbind (WriteRegister (s\<lparr>opened := t\<rparr>) 2 (word_of_int fid)) IncreasePC))))"

definition CloseHandler :: "user_machine \<Rightarrow> user_machine res" where
  "CloseHandler s =
     rbind (ReadRegister s 4) (\<lambda>fid.
     rbind (RemoveFile (tid s) (opened s) (sint fid) (fdisk (fsys s))) (\<lambda>(ok, t, d).
     rbind (ASSERT ok) (\<lambda>_. IncreasePC (with_disk d (s\<lparr>opened := t\<rparr>)))))"

text \<open>\<open>fileSystem->GetFile(id)\<close> and \<open>ASSERT(file != NULL)\<close>: the place of the file in the table, and the file.\<close>

definition file_of :: "int \<Rightarrow> user_machine \<Rightarrow> (nat \<times> open_file \<times> user_machine) res" where
  "file_of fid s =
     rbind (GetFile (tid s) (opened s) fid) (\<lambda>(i, t).
     case i of None \<Rightarrow> Inl AssertFailed
     | Some i \<Rightarrow> (case ofile (t ! i) of None \<Rightarrow> Inl AssertFailed | Some f \<Rightarrow> Inr (i, f, s\<lparr>opened := t\<rparr>)))"

text \<open>The object in the table is the one that was read or written.\<close>

definition put_file :: "nat \<Rightarrow> open_file \<Rightarrow> user_machine \<Rightarrow> user_machine" where
  "put_file i f s = s\<lparr>opened := (opened s)[i := (opened s ! i)\<lparr>ofile := Some f\<rparr>]\<rparr>"

text \<open>\<open>new char[n]\<close>; a negative size has no array.\<close>

definition new_buffer :: "user_env \<Rightarrow> int \<Rightarrow> byte list res" where
  "new_buffer env n =
     (if n < 0 then Inl OutOfBounds else Inr (map (\<lambda>k. ucast (heap_junk (fenv env) k)) [0..<nat (usable env n)]))"

text \<open>\<open>scanf("%s", buffer)\<close>: the next word, with a zero behind it.\<close>

definition scan_word :: "byte list \<Rightarrow> user_machine \<Rightarrow> (byte list \<times> user_machine) res" where
  "scan_word buf s = rbind (put_bytes buf 0 (cin s (cinPos s) @ [0])) (\<lambda>buf. Inr (buf, s\<lparr>cinPos := cinPos s + 1\<rparr>))"

text \<open>Each byte is written, and once more if the first attempt trapped; whether the second worked is not looked at.\<close>

fun copy_out :: "user_env \<Rightarrow> 32 word \<Rightarrow> byte list \<Rightarrow> user_machine \<Rightarrow> user_machine res" where
  "copy_out env addr [] s = Inr s"
| "copy_out env addr (b # bs) s =
     rbind (WriteMem (on_access env) s addr 1 (scast b)) (\<lambda>(ok, s).
     rbind (if ok then Inr s else rbind (WriteMem (on_access env) s addr 1 (scast b)) (\<lambda>(ok, s). Inr s)) (\<lambda>s.
     copy_out env (addr + 1) bs s))"

definition ReadHandler :: "user_env \<Rightarrow> user_machine \<Rightarrow> user_machine res" where
  "ReadHandler env s =
     rbind (ReadRegister s 4) (\<lambda>addr.
     rbind (ReadRegister s 5) (\<lambda>size.
     rbind (ReadRegister s 6) (\<lambda>fid.
     rbind (new_buffer env (sint size + 1)) (\<lambda>buffer.
     rbind (if fid = 0 then
              rbind (scan_word buffer s) (\<lambda>(buffer, s). Inr (int (length (cstr buffer)), buffer, s))
            else
              rbind (file_of (sint fid) s) (\<lambda>(i, f, s).
              rbind (OpenFile_Read (fenv env) f (sectors (fdisk (fsys s))) (sint size)) (\<lambda>(bs, f).
              rbind (put_bytes buffer 0 bs) (\<lambda>buffer. Inr (int (length bs), buffer, put_file i f s))))) (\<lambda>(numBytes, buffer, s).
     rbind (aset buffer numBytes 0) (\<lambda>buffer.
     rbind (copy_out env addr (take (nat numBytes) buffer) s) (\<lambda>s.
     rbind (WriteRegister s 2 (word_of_int numBytes)) IncreasePC)))))))"

text \<open>\<open>ReadMem(addr, 1, (int *) &buffer[i])\<close> stores four bytes, if it succeeds.\<close>

definition read_into :: "user_env \<Rightarrow> 32 word \<Rightarrow> byte list \<Rightarrow> int \<Rightarrow> user_machine \<Rightarrow> (byte list \<times> user_machine) res" where
  "read_into env addr buf i s =
     rbind (ReadMem (on_access env) s addr 1) (\<lambda>(ok, v, s).
     rbind (if ok then store32 buf i v else Inr buf) (\<lambda>buf. Inr (buf, s)))"

text \<open>A semicolon ends the \<open>if\<close>: every byte is read twice.\<close>

fun copy_in :: "user_env \<Rightarrow> 32 word \<Rightarrow> byte list \<Rightarrow> int \<Rightarrow> nat \<Rightarrow> user_machine \<Rightarrow> (byte list \<times> user_machine) res" where
  "copy_in env addr buf i 0 s = Inr (buf, s)"
| "copy_in env addr buf i (Suc n) s =
     rbind (read_into env addr buf i s) (\<lambda>(buf, s).
     rbind (read_into env addr buf i s) (\<lambda>(buf, s).
     copy_in env (addr + 1) buf (i + 1) n s))"

definition WriteHandler :: "user_env \<Rightarrow> user_machine \<Rightarrow> user_machine res" where
  "WriteHandler env s =
     rbind (ReadRegister s 4) (\<lambda>addr.
     rbind (ReadRegister s 5) (\<lambda>size.
     rbind (ReadRegister s 6) (\<lambda>fid.
     rbind (new_buffer env (sint size + 1)) (\<lambda>buffer.
     rbind (copy_in env addr buffer 0 (nat (sint size)) s) (\<lambda>(buffer, s).
     rbind (aset buffer (sint size) 0) (\<lambda>buffer.
     rbind (if fid = 1 then Inr (s\<lparr>cout := cout s @ cstr buffer\<rparr>)
            else
              rbind (file_of (sint fid) s) (\<lambda>(i, f, s).
              rbind (OpenFile_Write write_depth (fenv env) f (fdisk (fsys s)) (take (nat (sint size)) buffer) (sint size)) (\<lambda>(n, f, d).
              Inr (with_disk d (put_file i f s))))) IncreasePC))))))"

section \<open>Threads\<close>

text \<open>\<open>ExecFunc\<close> up to \<open>machine->Run()\<close>.\<close>

definition ExecFunc :: "user_env \<Rightarrow> 32 word \<Rightarrow> user_machine \<Rightarrow> user_machine res" where
  "ExecFunc env addr s =
     rbind (GetFileName env addr s) (\<lambda>(fileName, s).
     rbind (open_named (fenv env) fileName s) (\<lambda>(exe, s).
     rbind (AddrSpace_new (fenv env) exe s) (\<lambda>(sp, exe, s).
     rbind (InitRegisters sp s) (\<lambda>s.
     close_file exe ((RestoreState sp s)\<lparr>space := Some sp\<rparr>)))))"

definition ExecHandler :: "scheduler \<Rightarrow> user_machine \<Rightarrow> user_machine res" where
  "ExecHandler sched s =
     rbind (ReadRegister s 4) (\<lambda>addr.
     rbind (sched (ForkThread (ExecBody addr)) s) (\<lambda>(newTID, s).
     rbind (WriteRegister s 2 (word_of_int newTID)) IncreasePC))"

text \<open>The loop of \<open>Join\<close>: the other threads run in every \<open>Yield\<close>; \<open>fuel\<close> bounds how often.\<close>

fun wait_for :: "scheduler \<Rightarrow> nat \<Rightarrow> int \<Rightarrow> user_machine \<Rightarrow> user_machine res" where
  "wait_for sched fuel child s =
     rbind (aget (used_TID s) child) (\<lambda>running.
     if \<not> running then Inr s
     else (case fuel of 0 \<Rightarrow> Inl OutOfFuel
           | Suc fuel \<Rightarrow> rbind (sched YieldThread s) (\<lambda>(_, s). wait_for sched fuel child s)))"

definition JoinHandler :: "scheduler \<Rightarrow> nat \<Rightarrow> user_machine \<Rightarrow> user_machine res" where
  "JoinHandler sched fuel s =
     rbind (ReadRegister s 4) (\<lambda>child.
     rbind (wait_for sched fuel (sint child) s) (\<lambda>s.
     rbind (aget (end_state s) (sint child)) (\<lambda>v.
     rbind (WriteRegister s 2 (word_of_int v)) IncreasePC)))"

text \<open>\<open>ForkFunc\<close> up to \<open>machine->Run()\<close>.\<close>

definition ForkFunc :: "addr_space \<Rightarrow> 32 word \<Rightarrow> user_machine \<Rightarrow> user_machine res" where
  "ForkFunc sp PC s =
     rbind (InitRegisters sp (s\<lparr>space := Some sp\<rparr>)) (\<lambda>s.
     rbind (WriteRegister (RestoreState sp s) PCReg PC) (\<lambda>s.
     WriteRegister s NextPCReg (PC + 4)))"

text \<open>The new space, with the contents of the virtual memory of the current one.\<close>

definition copy_vm :: "fs_env \<Rightarrow> addr_space \<Rightarrow> addr_space \<Rightarrow> user_machine \<Rightarrow> user_machine res" where
  "copy_vm env sp new s =
     rbind (Open env (fsys s) (VMName sp)) (\<lambda>(vm, fs).
     rbind (Open env fs (VMName new)) (\<lambda>(nextvm, fs).
     case (vm, nextvm) of
       (Some vm, Some nextvm) \<Rightarrow>
         let size = numPages sp * PageSize; s = s\<lparr>fsys := fs\<rparr>;
             buf = map (\<lambda>k. ucast (heap_junk env k)) [0..<nat size] in
         rbind (OpenFile_Read env vm (sectors (fdisk (fsys s))) size) (\<lambda>(bs, vm).
         rbind (put_bytes buf 0 bs) (\<lambda>buf.
         rbind (OpenFile_Write write_depth env nextvm (fdisk (fsys s)) buf size) (\<lambda>(n, nextvm, d).
         rbind (close_file vm (with_disk d s)) (\<lambda>s. close_file nextvm s))))
     | _ \<Rightarrow> Inl AssertFailed))"

definition fork_space :: "fs_env \<Rightarrow> user_machine \<Rightarrow> (addr_space \<times> user_machine) res" where
  "fork_space env s =
     rbind (WriteBackAll env s) (\<lambda>s.
     rbind (current_space s) (\<lambda>sp.
     rbind (OpenFile_new env (fdisk (fsys s)) (exeSector sp)) (\<lambda>(exe, d).
     rbind (AddrSpace_new env exe (with_disk d s)) (\<lambda>(new, exe, s).
     rbind (close_file exe s) (\<lambda>s.
     rbind (copy_vm env sp new s) (\<lambda>s. Inr (new, s)))))))"

definition ForkHandler :: "user_env \<Rightarrow> scheduler \<Rightarrow> user_machine \<Rightarrow> user_machine res" where
  "ForkHandler env sched s =
     rbind (ReadRegister s 4) (\<lambda>addr.
     rbind (fork_space (fenv env) s) (\<lambda>(new, s).
     rbind (sched (ForkThread (ForkBody new addr)) s) (\<lambda>(newTID, s).
     rbind (CopyFile (fenv env) (tid s) newTID (opened s) (fdisk (fsys s))) (\<lambda>(ok, t, d).
     rbind (ASSERT ok) (\<lambda>_. IncreasePC (with_disk d (s\<lparr>opened := t\<rparr>)))))))"

definition YieldHandler :: "scheduler \<Rightarrow> user_machine \<Rightarrow> user_machine res" where
  "YieldHandler sched s = rbind (IncreasePC s) (\<lambda>s. rbind (sched YieldThread s) (\<lambda>(_, s). Inr s))"

text \<open>What \<open>Exit\<close> gives back: frames, TLB entries and the file of virtual memory.\<close>

definition release_space :: "fs_env \<Rightarrow> user_machine \<Rightarrow> user_machine res" where
  "release_space env s =
     (case space s of None \<Rightarrow> Inr s
      | Some sp \<Rightarrow>
          rbind (freeMem s) (\<lambda>s.
          rbind (SaveState s) (\<lambda>s.
          rbind (FileSys_Remove env (fsys s) (VMName sp)) (\<lambda>(removed, fs).
          Inr (s\<lparr>fsys := fs, space := None\<rparr>)))))"

definition ExitHandler :: "user_env \<Rightarrow> scheduler \<Rightarrow> user_machine \<Rightarrow> user_machine res" where
  "ExitHandler env sched s =
     rbind (ReadRegister s 4) (\<lambda>status.
     rbind (aset (end_state s) (tid s) (sint status)) (\<lambda>es.
     rbind (release_space (fenv env) (s\<lparr>end_state := es\<rparr>)) (\<lambda>s.
     rbind (CloseAll (tid s) (opened s) (fdisk (fsys s))) (\<lambda>(t, d).
     rbind (sched FinishThread (with_disk d (s\<lparr>opened := t\<rparr>))) (\<lambda>(_, s). Inr s)))))"

definition HaltHandler :: "scheduler \<Rightarrow> user_machine \<Rightarrow> user_machine res" where
  "HaltHandler sched s =
     rbind (case space s of None \<Rightarrow> Inr s | Some sp \<Rightarrow> rbind (freeMem s) (\<lambda>s. Inr (s\<lparr>space := None\<rparr>))) (\<lambda>s.
     rbind (sched HaltMachine s) (\<lambda>(_, s). Inr s))"

section \<open>The kernel's entry\<close>

text \<open>The numbers are those of userprog/syscall.h; any other is ignored.\<close>

definition syscall :: "user_env \<Rightarrow> scheduler \<Rightarrow> nat \<Rightarrow> user_machine \<Rightarrow> user_machine res" where
  "syscall env sched fuel s =
     rbind (ReadRegister s 2) (\<lambda>type.
     if type = 0 then HaltHandler sched s
     else if type = 1 then ExitHandler env sched s
     else if type = 4 then CreateHandler env s
     else if type = 5 then OpenHandler env s
     else if type = 6 then ReadHandler env s
     else if type = 7 then WriteHandler env s
     else if type = 8 then CloseHandler s
     else if type = 2 then ExecHandler sched s
     else if type = 3 then JoinHandler sched fuel s
     else if type = 9 then ForkHandler env sched s
     else if type = 10 then YieldHandler sched s
     else Inr s)"

definition ExceptionHandler :: "user_env \<Rightarrow> scheduler \<Rightarrow> nat \<Rightarrow> ExceptionType \<Rightarrow> user_machine \<Rightarrow> user_machine res" where
  "ExceptionHandler env sched fuel which s =
     rbind (ReadRegister s 2) (\<lambda>_. handle_exception env (syscall env sched fuel) which s)"

text \<open>\<open>StartProcess\<close> up to \<open>machine->Run()\<close>; a file that does not exist is reported and nothing changes.\<close>

definition StartProcess :: "fs_env \<Rightarrow> byte list \<Rightarrow> user_machine \<Rightarrow> (bool \<times> user_machine) res" where
  "StartProcess env filename s =
     rbind (Open env (fsys s) filename) (\<lambda>(exe, fs).
     let s = s\<lparr>fsys := fs\<rparr> in
     case exe of None \<Rightarrow> Inr (False, s)
     | Some exe \<Rightarrow>
         rbind (AddrSpace_new env exe s) (\<lambda>(sp, exe, s).
         rbind (close_file exe (s\<lparr>space := Some sp\<rparr>)) (\<lambda>s.
         rbind (InitRegisters sp s) (\<lambda>s.
         Inr (True, RestoreState sp s)))))"

end
