(* ===== verification/PagingFacts.thy ===== *)
theory PagingFacts
  imports Paging
begin

text \<open>
  TLB replacement: first in first out keeps the last four pages, the clock gives second chances and always
  ends. The bitmap of frames is a finite set.
\<close>

section \<open>First in, first out\<close>

text \<open>The valid entries come first; they are the queue.\<close>

definition packed :: "translation_entry list \<Rightarrow> bool" where
  "packed t \<longleftrightarrow> length t = 4 \<and> sorted_wrt (\<lambda>a b. valid b \<longrightarrow> valid a) t"

abbreviation tlb_queue :: "translation_entry list \<Rightarrow> translation_entry list" where
  "tlb_queue t \<equiv> filter valid t"

lemma four: "length t = 4 \<Longrightarrow> \<exists>a b c d. t = [a, b, c, d]"
  by (auto simp: numeral_eq_Suc length_Suc_conv)

lemma TLBFIFO_one:
  assumes "packed t" "valid p"
  shows "\<exists>t'. TLBFIFO p t = Inr t' \<and> packed t' \<and> tlb_queue t' = drop (length (tlb_queue t) + 1 - 4) (tlb_queue t @ [p])"
proof -
  obtain a b c d where t: "t = [a, b, c, d]" using four assms(1) unfolding packed_def by blast
  have g: "aget [a, b, c, d] 0 = Inr a" "aget [a, b, c, d] 1 = Inr b" "aget [a, b, c, d] 2 = Inr c" "aget [a, b, c, d] 3 = Inr d"
    by (simp_all add: aget_def numeral_eq_Suc)
  have f: "find_entry (\<lambda>e. \<not> valid e) t 0 TLBSize = Inr (if \<not> valid a then Some 0 else if \<not> valid b then Some 1 else if \<not> valid c then Some 2 else if \<not> valid d then Some 3 else None)"
    unfolding t mem_consts by (subst find_entry.simps, simp add: g)+
  show ?thesis
    using assms unfolding TLBFIFO_def f
    by (cases "valid a"; cases "valid b"; cases "valid c"; cases "valid d") (simp_all add: t packed_def aset_def mem_consts numeral_eq_Suc)
qed

lemma drop_drop_last: "drop (length (drop (length q - 4) q) + 1 - 4) (drop (length q - 4) q @ [p]) = drop (length q + 1 - 4) (q @ [p])"
proof (cases "length q < 4")
  case False
  then have "Suc (length q - 4) = length q - 3" by simp
  then show ?thesis using False by (simp add: drop_append)
qed simp

text \<open>Under first in first out, after any sequence of pages the TLB holds the four that came last, in the order in
  which they came, followed by the entries never used.\<close>

theorem TLBFIFO_keeps_last_four:
  assumes "packed t" "\<forall>p \<in> set ps. valid p"
  shows "\<exists>t'. fold (\<lambda>p m. rbind m (TLBFIFO p)) ps (Inr t) = Inr t' \<and> packed t'
    \<and> tlb_queue t' = drop (length (tlb_queue t @ ps) - 4) (tlb_queue t @ ps)"
  using assms(2)
proof (induction ps rule: rev_induct)
  case Nil
  have "length (tlb_queue t) \<le> 4" using assms(1) length_filter_le [of valid t] by (simp add: packed_def)
  then show ?case using assms(1) by simp
next
  case (snoc p ps)
  let ?q = "tlb_queue t @ ps"
  obtain t' where t': "fold (\<lambda>p m. rbind m (TLBFIFO p)) ps (Inr t) = Inr t'" "packed t'" "tlb_queue t' = drop (length ?q - 4) ?q"
    using snoc by auto
  obtain u where u: "TLBFIFO p t' = Inr u" "packed u" "tlb_queue u = drop (length (tlb_queue t') + 1 - 4) (tlb_queue t' @ [p])"
    using TLBFIFO_one [OF t'(2), of p] snoc.prems by auto
  have "tlb_queue u = drop (length ?q + 1 - 4) (?q @ [p])" using u(3) drop_drop_last [of ?q p] unfolding t'(3) by simp
  then show ?case using t'(1) u(1,2) by simp
qed

definition page :: "int \<Rightarrow> int \<Rightarrow> translation_entry" where
  "page v p = \<lparr>virtualPage = v, physicalPage = p, valid = True, readOnly = False, use = False, dirty = False\<rparr>"

theorem TLBFIFO_keeps_last_four_witness:
  "\<exists>t'. fold (\<lambda>p m. rbind m (TLBFIFO p)) [page 1 1, page 2 2, page 3 3, page 4 4, page 5 5] (Inr (replicate 4 ((page 0 0)\<lparr>valid := False\<rparr>))) = Inr t'
    \<and> packed t' \<and> tlb_queue t' = [page 2 2, page 3 3, page 4 4, page 5 5]"
proof -
  have "packed (replicate 4 ((page 0 0)\<lparr>valid := False\<rparr>))" by (simp add: packed_def numeral_eq_Suc)
  moreover have "tlb_queue (replicate 4 ((page 0 0)\<lparr>valid := False\<rparr>)) = []" by simp
  ultimately show ?thesis
    using TLBFIFO_keeps_last_four [of "replicate 4 ((page 0 0)\<lparr>valid := False\<rparr>)" "[page 1 1, page 2 2, page 3 3, page 4 4, page 5 5]"]
    by (simp add: page_def)
qed

section \<open>The clock\<close>

definition in_use_at :: "translation_entry list \<Rightarrow> nat \<Rightarrow> nat \<Rightarrow> bool" where
  "in_use_at t h j \<longleftrightarrow> valid (t ! ((h + j) mod 4)) \<and> use (t ! ((h + j) mod 4))"

text \<open>After \<open>k\<close> entries have been passed.\<close>

definition swept :: "translation_entry list \<Rightarrow> nat \<Rightarrow> nat \<Rightarrow> translation_entry list" where
  "swept t h k = map (\<lambda>i. if \<exists>j < k. i = (h + j) mod 4 then (t ! i)\<lparr>use := False\<rparr> else t ! i) [0..<4]"

lemma swept_nth: "i < 4 \<Longrightarrow> swept t h k ! i = (if \<exists>j < k. i = (h + j) mod 4 then (t ! i)\<lparr>use := False\<rparr> else t ! i)"
  by (auto simp: swept_def)

lemma length_swept: "length (swept t h k) = 4"
  by (simp add: swept_def)

lemma hand_next: "(int (h mod 4) + 1) smod TLBSize = int (Suc h mod 4)"
proof -
  have "(int (h mod 4) + 1) smod 4 = (int (h mod 4) + 1) mod 4" by (simp add: signed_modulo_int_def)
  also have "\<dots> = int (Suc (h mod 4) mod 4)" by (simp add: zmod_int add.commute)
  finally show ?thesis by (simp add: mem_consts mod_Suc_eq)
qed

lemma no_wrap: "j < k \<Longrightarrow> k < 4 \<Longrightarrow> (h + j) mod 4 \<noteq> (h + k) mod (4 :: nat)"
proof
  assume "j < k" "k < 4" "(h + j) mod 4 = (h + k) mod (4 :: nat)"
  then have "4 dvd (h + k) - (h + j)" by (metis less_imp_le add_le_cancel_left mod_eq_dvd_iff_nat)
  then have "4 dvd k - j" by simp
  then show False using \<open>j < k\<close> \<open>k < 4\<close> by (auto dest: dvd_imp_le)
qed

lemma passed_over: "k < 4 \<Longrightarrow> \<not> (\<exists>j < k. (h + k) mod 4 = (h + j) mod (4 :: nat))"
  using no_wrap by metis

lemma sweep_step:
  assumes "k < 4" "in_use_at t h k"
  shows "clock_sweep (swept t h k) (int ((h + k) mod 4)) = clock_sweep (swept t h (Suc k)) (int ((h + Suc k) mod 4))"
proof -
  let ?h = "(h + k) mod 4"
  have e: "swept t h k ! ?h = t ! ?h" using passed_over [OF assms(1)] by (auto simp: swept_nth)
  have "(swept t h k)[?h := (t ! ?h)\<lparr>use := False\<rparr>] = swept t h (Suc k)"
  proof (rule nth_equalityI)
    fix i assume "i < length ((swept t h k)[?h := (t ! ?h)\<lparr>use := False\<rparr>])"
    then have i: "i < 4" by (simp add: length_swept)
    show "(swept t h k)[?h := (t ! ?h)\<lparr>use := False\<rparr>] ! i = swept t h (Suc k) ! i"
      using i by (auto simp: nth_list_update length_swept swept_nth less_Suc_eq)
  qed (simp add: length_swept)
  then show ?thesis
    using e assms(2) hand_next [of "h + k"]
    by (subst clock_sweep.simps) (simp add: aget_def aset_def length_swept in_use_at_def)
qed

lemma sweep_steps: "k \<le> 4 \<Longrightarrow> \<forall>j < k. in_use_at t h j \<Longrightarrow> clock_sweep (swept t h 0) (int (h mod 4)) = clock_sweep (swept t h k) (int ((h + k) mod 4))"
proof (induction k)
  case (Suc k)
  have "clock_sweep (swept t h 0) (int (h mod 4)) = clock_sweep (swept t h k) (int ((h + k) mod 4))" using Suc by simp
  also have "\<dots> = clock_sweep (swept t h (Suc k)) (int ((h + Suc k) mod 4))" by (rule sweep_step) (use Suc.prems in auto)
  finally show ?case .
qed simp

text \<open>How many entries the hand passes: up to the first that is free or has had its chance, or all of them.\<close>

definition passed :: "translation_entry list \<Rightarrow> nat \<Rightarrow> nat" where
  "passed t h = length (takeWhile (in_use_at t h) [0..<4])"

lemma passed: "passed t h \<le> 4" "j < passed t h \<Longrightarrow> in_use_at t h j" "passed t h < 4 \<Longrightarrow> \<not> in_use_at t h (passed t h)"
proof -
  show "passed t h \<le> 4" using length_takeWhile_le [of "in_use_at t h" "[0..<4]"] by (simp add: passed_def)
  then show "j < passed t h \<Longrightarrow> in_use_at t h j"
    using nth_mem [of j "takeWhile (in_use_at t h) [0..<4]"] takeWhile_nth [of j "in_use_at t h" "[0..<4]"]
    by (auto simp: passed_def dest: set_takeWhileD)
  show "passed t h < 4 \<Longrightarrow> \<not> in_use_at t h (passed t h)"
    using nth_length_takeWhile [of "in_use_at t h" "[0..<4]"] by (simp add: passed_def)
qed

lemma clock_sweep_spec:
  assumes t: "length t = 4" and h: "h < 4"
  shows "clock_sweep t (int h) = Inr (swept t h (passed t h), int ((h + passed t h) mod 4))"
proof -
  let ?k = "passed t h"
  have s0: "swept t h 0 = t" using t by (intro nth_equalityI) (simp_all add: length_swept swept_nth)
  have "\<not> (valid (swept t h ?k ! ((h + ?k) mod 4)) \<and> use (swept t h ?k ! ((h + ?k) mod 4)))"
  proof (cases "?k = 4")
    case True
    have "\<exists>j < ?k. (h + ?k) mod 4 = (h + j) mod 4" unfolding True using h by (intro exI [of _ 0]) simp
    then have "swept t h ?k ! ((h + ?k) mod 4) = (t ! ((h + ?k) mod 4))\<lparr>use := False\<rparr>"
      using swept_nth [of "(h + ?k) mod 4" t h ?k] by simp
    then show ?thesis by simp
  next
    case False
    then have "?k < 4" using passed(1) [of t h] by simp
    then have "swept t h ?k ! ((h + ?k) mod 4) = t ! ((h + ?k) mod 4)" using passed_over [of ?k h] by (auto simp: swept_nth)
    then show ?thesis using passed(3) [OF \<open>?k < 4\<close>] by (simp add: in_use_at_def)
  qed
  then have "clock_sweep (swept t h ?k) (int ((h + ?k) mod 4)) = Inr (swept t h ?k, int ((h + ?k) mod 4))"
    by (subst clock_sweep.simps) (auto simp: aget_def length_swept)
  then show ?thesis using sweep_steps [where k = ?k and t = t and h = h] passed(1) [of t h] passed(2) [of _ t h] h s0 by simp
qed

text \<open>C28: The loop of the clock always ends, with a second chance for every page: the new page takes the first entry from the
  hand that is free or was not used since the hand last passed; the use bits of the entries passed over are cleared, and all
  other entries stay. If all four were used, the one at the hand is replaced. The new page is marked used, and the hand stays on it.\<close>

theorem TLBClock_second_chance:
  assumes "length t = 4" "h < 4"
  shows "\<exists>t'. TLBClock p t (int h) = Inr (t', int ((h + passed t h) mod 4)) \<and> length t' = 4 \<and> t' ! ((h + passed t h) mod 4) = p\<lparr>use := True\<rparr>
    \<and> (\<forall>i < 4. i \<noteq> (h + passed t h) mod 4 \<longrightarrow> t' ! i = (if \<exists>j < passed t h. i = (h + j) mod 4 then (t ! i)\<lparr>use := False\<rparr> else t ! i))"
  using assms by (simp add: TLBClock_def clock_sweep_spec aset_def length_swept swept_nth)

theorem TLBClock_second_chance_witness:
  "\<exists>t'. TLBClock (page 9 9) [page 1 1\<lparr>use := True\<rparr>, page 2 2\<lparr>use := True\<rparr>, page 3 3, page 4 4] (int 0) = Inr (t', 2) \<and> t' ! 2 = page 9 9\<lparr>use := True\<rparr> \<and> t' ! 0 = page 1 1"
proof -
  let ?t = "[page 1 1\<lparr>use := True\<rparr>, page 2 2\<lparr>use := True\<rparr>, page 3 3, page 4 4]"
  have "[0..<4] = [0, 1, 2, 3 :: nat]" by (simp add: upt_rec)
  then have p: "passed ?t 0 = 2" by (simp add: passed_def in_use_at_def page_def)
  have l: "length ?t = 4" "0 < (4::nat)" by simp_all
  obtain t' where t': "TLBClock (page 9 9) ?t (int 0) = Inr (t', int ((0 + 2) mod 4))" "t' ! ((0 + 2) mod 4) = page 9 9\<lparr>use := True\<rparr>"
    and o: "\<forall>i < 4. i \<noteq> (0 + 2) mod 4 \<longrightarrow> t' ! i = (if \<exists>j < 2. i = (0 + j) mod 4 then (?t ! i)\<lparr>use := False\<rparr> else ?t ! i)"
    using TLBClock_second_chance [OF l, of "page 9 9"] unfolding p by blast
  have "\<exists>j < 2. 0 = (0 + j) mod (4::nat)" by (intro exI [of _ 0]) simp
  then have "t' ! 0 = page 1 1" using o [rule_format, of 0] by (simp add: page_def)
  moreover have "(0 + 2) mod 4 = (2 :: nat)" "int 2 = 2" by simp_all
  ultimately show ?thesis using t' by (intro exI [of _ t']) (simp add: numeral_2_eq_2)
qed

section \<open>The set of frames\<close>

definition frames :: "'a machine_scheme \<Rightarrow> nat set" where
  "frames s = {i. i < 32 \<and> bit (frame_bitmap s) i}"

lemma frame_test: "pos < 32 \<Longrightarrow> (b :: 32 word) AND push_bit pos 1 = 0 \<longleftrightarrow> \<not> bit b pos"
  using bit_iff_and_push_bit_not_eq_0 [of b pos] by simp

lemma allocateMem_cases:
  "if frames s = {..<32} then allocateMem s = (-1, s)
   else \<exists>p s'. allocateMem s = (int p, s') \<and> p < 32 \<and> p \<notin> frames s \<and> {..<p} \<subseteq> frames s \<and> frames s' = insert p (frames s)
     \<and> s' = s\<lparr>frame_bitmap := frame_bitmap s'\<rparr>"
proof -
  have f: "find (\<lambda>pos. frame_bitmap s AND push_bit pos 1 = 0) [0..<32] = find (\<lambda>pos. \<not> bit (frame_bitmap s) pos) [0..<32]"
    by (rule find_cong) (simp_all add: frame_test del: push_bit_of_1)
  show ?thesis
  proof (cases "find (\<lambda>pos. \<not> bit (frame_bitmap s) pos) [0..<32]")
  case None
  then have "frames s = {..<32}" by (auto simp: find_None_iff frames_def)
  then show ?thesis using None by (simp add: allocateMem_def mem_consts f del: push_bit_of_1)
next
  case (Some p)
  then have p: "p < 32" "\<not> bit (frame_bitmap s) p" "\<And>j. j < p \<Longrightarrow> bit (frame_bitmap s) j"
    by (auto simp: find_Some_iff)
  then have "frames s \<noteq> {..<32}" "p \<notin> frames s" "{..<p} \<subseteq> frames s" by (auto simp: frames_def)
  moreover have "frames (s\<lparr>frame_bitmap := frame_bitmap s OR push_bit p 1\<rparr>) = insert p (frames s)"
    using p(1) by (auto simp: frames_def bit_simps simp del: push_bit_of_1)
  ultimately show ?thesis using Some p(1) by (auto simp: allocateMem_def mem_consts f simp del: push_bit_of_1)
qed
qed

text \<open>\<open>allocateMem\<close> takes the lowest frame that is free and marks it and no other; it answers -1, and changes nothing,
  exactly when all 32 frames are taken.\<close>

theorem allocateMem_lowest:
  "if frames s = {..<32} then allocateMem s = (-1, s)
   else \<exists>p s'. allocateMem s = (int p, s') \<and> p < 32 \<and> p \<notin> frames s \<and> {..<p} \<subseteq> frames s \<and> frames s' = insert p (frames s)
     \<and> s' = s\<lparr>frame_bitmap := frame_bitmap s'\<rparr>"
  by (rule allocateMem_cases)

lemma exists_entry: "(\<exists>j. 0 \<le> j \<and> j < int (length pt) \<and> P (pt ! nat j) \<and> Q (pt ! nat j)) \<longleftrightarrow> (\<exists>e \<in> set pt. P e \<and> Q e)"
proof
  assume "\<exists>e \<in> set pt. P e \<and> Q e"
  then obtain i where "i < length pt" "P (pt ! i)" "Q (pt ! i)" by (auto simp: in_set_conv_nth)
  then show "\<exists>j. 0 \<le> j \<and> j < int (length pt) \<and> P (pt ! nat j) \<and> Q (pt ! nat j)" by (intro exI [of _ "int i"]) simp
next
  assume "\<exists>j. 0 \<le> j \<and> j < int (length pt) \<and> P (pt ! nat j) \<and> Q (pt ! nat j)"
  then obtain j where "0 \<le> j" "nat j < length pt" "P (pt ! nat j)" "Q (pt ! nat j)" by (auto simp: nat_less_iff)
  then show "\<exists>e \<in> set pt. P e \<and> Q e" using nth_mem by blast
qed

lemma first_or_later: "i < n \<Longrightarrow> (\<exists>j. i \<le> j \<and> j < n \<and> P j \<and> Q j) \<longleftrightarrow> (P i \<and> Q i) \<or> (\<exists>j. i + 1 \<le> j \<and> j < n \<and> P j \<and> Q j)" for i n :: int
  by (metis add1_zle_eq less_le order_refl)

lemma free_frame_bits:
  assumes "valid e \<longrightarrow> 0 \<le> physicalPage e \<and> physicalPage e < 32"
  shows "\<exists>b'. free_frame b e = Inr b' \<and> (\<forall>k. bit b' k \<longleftrightarrow> bit b k \<and> \<not> (valid e \<and> physicalPage e = int k))"
proof (cases "valid e")
  case True
  define p where "p = nat (physicalPage e)"
  have p: "physicalPage e = int p" "p < 32" using assms True unfolding p_def by linarith+
  have "bit (b AND NOT (push_bit p 1)) k \<longleftrightarrow> bit b k \<and> p \<noteq> k" for k
  proof (cases "k < 32")
    case True
    then have "bit (push_bit p (1 :: 32 word)) k \<longleftrightarrow> p = k" by (auto simp: bit_simps)
    then show ?thesis using True by (simp add: bit_and_iff bit_not_iff_eq bit_simps del: push_bit_of_1)
  qed (use bit_imp_le_length [of b k] bit_imp_le_length [of "b AND NOT (push_bit p 1)" k] in auto)
  then show ?thesis using True p by (simp add: free_frame_def del: push_bit_of_1)
qed (simp add: free_frame_def)

lemma free_frames_spec:
  "0 \<le> i \<Longrightarrow> n \<le> int (length pt) \<Longrightarrow> \<forall>j. i \<le> j \<and> j < n \<and> valid (pt ! nat j) \<longrightarrow> 0 \<le> physicalPage (pt ! nat j) \<and> physicalPage (pt ! nat j) < 32 \<Longrightarrow>
   \<exists>b'. free_frames pt i n b = Inr b' \<and> (\<forall>k. bit b' k \<longleftrightarrow> bit b k \<and> \<not> (\<exists>j. i \<le> j \<and> j < n \<and> valid (pt ! nat j) \<and> physicalPage (pt ! nat j) = int k))"
proof (induction pt i n b rule: free_frames.induct)
  case (1 pt i n b)
  show ?case
  proof (cases "i < n")
    case True
    let ?e = "pt ! nat i"
    have g: "aget pt i = Inr ?e" using 1(2,3) True by (simp add: aget_ok)
    have "valid ?e \<longrightarrow> 0 \<le> physicalPage ?e \<and> physicalPage ?e < 32" using 1(2,4) True by auto
    then obtain b1 where b1: "free_frame b ?e = Inr b1" "\<forall>k. bit b1 k \<longleftrightarrow> bit b k \<and> \<not> (valid ?e \<and> physicalPage ?e = int k)"
      using free_frame_bits [of ?e b] by blast
    have "0 \<le> i + 1" "\<forall>j. i + 1 \<le> j \<and> j < n \<and> valid (pt ! nat j) \<longrightarrow> 0 \<le> physicalPage (pt ! nat j) \<and> physicalPage (pt ! nat j) < 32" using 1(2,4) by auto
    then obtain b2 where b2: "free_frames pt (i + 1) n b1 = Inr b2"
      "\<forall>k. bit b2 k \<longleftrightarrow> bit b1 k \<and> \<not> (\<exists>j. i + 1 \<le> j \<and> j < n \<and> valid (pt ! nat j) \<and> physicalPage (pt ! nat j) = int k)"
      using 1(1) [OF True g b1(1)] 1(3) by blast
    have "free_frames pt i n b = Inr b2" using True g b1(1) b2(1) by (subst free_frames.simps) simp
    moreover have "(\<exists>j. i \<le> j \<and> j < n \<and> valid (pt ! nat j) \<and> physicalPage (pt ! nat j) = int k)
        \<longleftrightarrow> (valid ?e \<and> physicalPage ?e = int k) \<or> (\<exists>j. i + 1 \<le> j \<and> j < n \<and> valid (pt ! nat j) \<and> physicalPage (pt ! nat j) = int k)" for k
      using True by (rule first_or_later)
    ultimately show ?thesis using b1(2) b2(2) by auto
  qed (auto simp: free_frames.simps)
qed

definition start_with :: "translation_entry list \<Rightarrow> 32 word \<Rightarrow> machine" where
  "start_with pt b = \<lparr>registers = replicate 40 0, mainMemory = replicate 4096 0, tlb = Some (replicate 4 ((page 0 0)\<lparr>valid := False\<rparr>)),
     pageTable = Some pt, pageTableSize = int (length pt), frame_bitmap = b, totalcnt = 0, misscnt = 0, Index = 0, status = UserMode\<rparr>"

text \<open>When a program ends, \<open>freeMem\<close> gives back exactly the frames of its valid pages.\<close>

theorem freeMem_gives_back:
  assumes "pageTable s = Some pt" "pageTableSize s = int (length pt)" "\<forall>e \<in> set pt. valid e \<longrightarrow> 0 \<le> physicalPage e \<and> physicalPage e < 32"
  shows "\<exists>s'. freeMem s = Inr s' \<and> frames s' = frames s - {nat (physicalPage e) |e. e \<in> set pt \<and> valid e}"
proof -
  have "\<forall>j. 0 \<le> j \<and> j < int (length pt) \<and> valid (pt ! nat j) \<longrightarrow> 0 \<le> physicalPage (pt ! nat j) \<and> physicalPage (pt ! nat j) < 32"
    using assms(3) by auto
  then obtain b' where b': "free_frames pt 0 (int (length pt)) (frame_bitmap s) = Inr b'"
    "\<forall>k. bit b' k \<longleftrightarrow> bit (frame_bitmap s) k \<and> \<not> (\<exists>j. 0 \<le> j \<and> j < int (length pt) \<and> valid (pt ! nat j) \<and> physicalPage (pt ! nat j) = int k)"
    using free_frames_spec [of 0 "int (length pt)" pt] by blast
  have "(\<exists>j. 0 \<le> j \<and> j < int (length pt) \<and> valid (pt ! nat j) \<and> physicalPage (pt ! nat j) = int k) \<longleftrightarrow> (\<exists>e \<in> set pt. valid e \<and> physicalPage e = int k)" for k
    by (rule exists_entry)
  moreover have "(\<exists>e \<in> set pt. valid e \<and> physicalPage e = int k) \<longleftrightarrow> k \<in> {nat (physicalPage e) |e. e \<in> set pt \<and> valid e}" for k
    using assms(3) by force
  ultimately have "frames (s\<lparr>frame_bitmap := b'\<rparr>) = frames s - {nat (physicalPage e) |e. e \<in> set pt \<and> valid e}"
    using b'(2) by (auto simp: frames_def)
  then show ?thesis using assms(1,2) b'(1) by (simp add: freeMem_def)
qed

theorem freeMem_gives_back_witness:
  "\<exists>s'. freeMem (start_with [page 0 3, page 1 5\<lparr>valid := False\<rparr>] 0xFF) = Inr s' \<and> frames s' = frames (start_with [] 0xFF) - {3}"
proof -
  have "valid (page 0 3)" "nat (physicalPage (page 0 3)) = 3" by (simp_all add: page_def)
  then have "{nat (physicalPage e) |e. e \<in> set [page 0 3, page 1 5\<lparr>valid := False\<rparr>] \<and> valid e} = {3}"
    by (auto intro!: exI [of _ "page 0 3"])
  then show ?thesis
    using freeMem_gives_back [of "start_with [page 0 3, page 1 5\<lparr>valid := False\<rparr>] 0xFF" "[page 0 3, page 1 5\<lparr>valid := False\<rparr>]"]
    by (simp add: start_with_def page_def frames_def)
qed

end
