(* ===== verification/VmFacts.thy ===== *)
theory VmFacts
  imports Syscalls PagingFacts
begin

text \<open>
  Demand paging: a page fault brings the page's bytes into a frame of its own while frames last, and what
  goes wrong then: pages are never written back, a page that lost its frame can stay in the TLB, and the
  first trap on an absent page leaves the TLB without the page.
\<close>

section \<open>A program in good order\<close>

text \<open>\<open>x\<close> is the header sector of the file of virtual memory, \<open>pt\<close> the page table.\<close>

definition vm_ok :: "user_machine \<Rightarrow> bitmap \<Rightarrow> directory \<Rightarrow> addr_space \<Rightarrow> int \<Rightarrow> translation_entry list \<Rightarrow> bool" where
  "vm_ok s bm t sp x pt \<longleftrightarrow> fs_ok (fsys s) bm t \<and> space s = Some sp \<and> slash \<notin> set (VMName sp) \<and> dir_map t (key (VMName sp)) = Some x
     \<and> pageTable s = Some pt \<and> pageTableSize s = int (length pt) \<and> 128 * length pt \<le> length (cont (fsys s) x) \<and> length (mainMemory s) = 4096"

lemma vm_okD:
  assumes "vm_ok s bm t sp x pt"
  shows "fs_ok (fsys s) bm t" "space s = Some sp" "slash \<notin> set (VMName sp)" "dir_map t (key (VMName sp)) = Some x" "pageTable s = Some pt"
    "pageTableSize s = int (length pt)" "128 * length pt \<le> length (cont (fsys s) x)" "length (mainMemory s) = 4096" "x \<in> set (file_list t)"
  using assms listed_sector(1) by (auto simp: vm_ok_def)

definition page_bytes :: "byte list \<Rightarrow> nat \<Rightarrow> byte list" where
  "page_bytes bs i = take 128 (drop (128 * i) bs)"

lemma length_page_bytes: "128 * i + 128 \<le> length bs \<Longrightarrow> length (page_bytes bs i) = 128"
  by (simp add: page_bytes_def)

lemma page_bytes_overlay:
  assumes "length bs = 128" "128 * i + 128 \<le> length m"
  shows "page_bytes (overlay m (128 * i) bs) i = bs" "j \<noteq> i \<Longrightarrow> page_bytes (overlay m (128 * i) bs) j = page_bytes m j"
    "length (overlay m (128 * i) bs) = length m"
proof -
  show "page_bytes (overlay m (128 * i) bs) i = bs" using assms by (simp add: page_bytes_def overlay_def)
  show l: "length (overlay m (128 * i) bs) = length m" using assms by (simp add: overlay_def)
  assume "j \<noteq> i"
  then consider "j < i" | "i < j" by linarith
  then show "page_bytes (overlay m (128 * i) bs) j = page_bytes m j"
  proof cases
    case 1
    then have "128 * j + 128 \<le> 128 * i" "128 \<le> 128 * i - 128 * j" by simp_all
    then show ?thesis using assms by (simp add: page_bytes_def overlay_def take_drop [symmetric] min_def add.commute drop_take)
  next
    case 2
    define k where "k = 128 * j - (128 * i + 128)"
    then have k: "128 * j = 128 * i + 128 + k" using 2 by simp
    then show ?thesis using assms by (simp add: page_bytes_def overlay_def ac_simps)
  qed
qed

text \<open>A state for the witnesses: a program with two pages, whose file of virtual memory is called ``hi''.\<close>

definition sample_space :: addr_space where
  "sample_space = \<lparr>VMName = [104, 105], exeSector = 5, numPages = 2, ownTable = []\<rparr>"

definition sample_user :: "file_system \<Rightarrow> translation_entry list \<Rightarrow> translation_entry list \<Rightarrow> 32 word \<Rightarrow> user_machine" where
  "sample_user fs pt T b = \<lparr>registers = replicate 40 0, mainMemory = replicate 4096 0, tlb = Some T, pageTable = Some pt,
     pageTableSize = int (length pt), frame_bitmap = b, totalcnt = 0, misscnt = 0, Index = 0, status = UserMode,
     fsys = fs, opened = new_table, space = Some sample_space, SpaceCnt = 1, tid = 1, used_TID = replicate 128 False, end_state = replicate 128 0,
     cin = (\<lambda>i. []), cinPos = 0, cout = []\<rparr>"

definition absent :: "int \<Rightarrow> translation_entry" where
  "absent v = (page v 0)\<lparr>valid := False\<rparr>"

lemma sample_vm_ok:
  obtains fs bm t x where "\<And>pt T b. length pt = 2 \<Longrightarrow> vm_ok (sample_user fs pt T b) bm t sample_space x pt"
proof -
  obtain fs bm t x where f: "fs_ok fs bm t" "dir_map t [104, 105] = Some x" "numBytes (hdr_at (sectors (fdisk fs)) x) = 300" by (rule with_entry [of 300]) auto
  have s: "dir_map t (key [104, 105]) = Some x" using f(2) by (simp add: key_hi)
  have "int (length (cont fs x)) = 300" using user_file_open(2) [OF f(1) listed_sector(1) [OF f(1) s]] f(3) by simp
  then show ?thesis using f(1) s by (intro that [of fs bm t x]) (simp add: vm_ok_def sample_user_def sample_space_def)
qed

section \<open>A page fault with a free frame\<close>

text \<open>Two states with the same files and the same counts of visits; handles on the files stay good.\<close>

definition same_files :: "file_system \<Rightarrow> file_system \<Rightarrow> directory \<Rightarrow> bool" where
  "same_files fs fs' t \<longleftrightarrow> (\<forall>y \<in> set (all_files t). cont fs' y = cont fs y \<and> (\<forall>g. held fs y g \<longrightarrow> held fs' y g))
     \<and> visitorCnt (fdisk fs') = visitorCnt (fdisk fs)"

lemma same_files_refl [simp]: "same_files fs fs t"
  by (simp add: same_files_def)

lemma same_files_trans: "same_files fs fs1 t \<Longrightarrow> same_files fs1 fs2 t \<Longrightarrow> same_files fs fs2 t"
  by (simp add: same_files_def)

lemma load_page:
  assumes V: "vm_ok s bm t sp x pt" and env: "length (now env) = 25" and v: "v < length pt" and p: "p < 32"
  shows "\<exists>vm s1 vm' s2 fs'. open_named env (VMName sp) s = Inr (vm, s1) \<and> page_in env vm (int p) (int v) s1 = Inr (vm', s2)
    \<and> close_file vm' s2 = Inr (s\<lparr>fsys := fs', mainMemory := overlay (mainMemory s) (128 * p) (page_bytes (cont (fsys s) x) v)\<rparr>)
    \<and> fs_ok fs' bm t \<and> same_files (fsys s) fs' t"
proof -
  note D = vm_okD [OF V]
  obtain f fs1 where o: "Open env (fsys s) (VMName sp) = Inr (Some f, fs1)" "fs_ok fs1 bm t" "held fs1 x f" "fdisk fs1 = visits (fdisk (fsys s)) x 1"
      "\<And>y. cont fs1 y = cont (fsys s) y"
    by (rule Open_held [OF D(1,3,4)]) blast
  have "0 \<le> int v * 128" by simp
  then obtain f' where r: "ReadAt env f (sectors (fdisk fs1)) 128 (int v * 128) = Inr (take (nat 128) (drop (nat (int v * 128)) (cont fs1 x)), f')" and h: "held fs1 x f'"
    by (rule read_held [OF o(2) D(9) o(3) env])
  have b: "take (nat 128) (drop (nat (int v * 128)) (cont fs1 x)) = page_bytes (cont (fsys s) x) v"
    using o(5) by (simp add: page_bytes_def nat_mult_distrib mult.commute)
  have l: "length (page_bytes (cont (fsys s) x) v) = 128" by (rule length_page_bytes) (use D(7) v in linarith)
  obtain d where c: "OpenFile_delete f' (fdisk fs1) = Inr d" "fs_ok (with_fdisk fs1 d) bm t" "\<And>y. y \<in> set (all_files t) \<Longrightarrow> cont (with_fdisk fs1 d) y = cont fs1 y"
      "visitorCnt d = visitorCnt (visits (fdisk fs1) x (-1))" "\<And>y g. y \<in> set (all_files t) \<Longrightarrow> held fs1 y g \<Longrightarrow> held (with_fdisk fs1 d) y g"
    by (rule close_held [OF o(2) D(9) h]) blast
  have "int x' * 128 = int (128 * x')" for x' by simp
  then have put: "put_bytes (mainMemory s) (128 * int p) (page_bytes (cont (fsys s) x) v) = Inr (overlay (mainMemory s) (128 * p) (page_bytes (cont (fsys s) x) v))"
    using l p D(8) by (simp add: put_bytes_def nat_mult_distrib)
  have vis: "visitorCnt d = visitorCnt (fdisk (fsys s))"
    using visits_back [of x "fdisk (fsys s)"] user_file(2,3) [OF D(1,9)] fs_okD(2) [OF D(1)] by (simp add: c(4) o(4) disk_consts)
  let ?s1 = "s\<lparr>fsys := fs1\<rparr>"
  have "open_named env (VMName sp) s = Inr (f, ?s1)" using o(1) by (simp add: open_named_def)
  moreover have "page_in env f (int p) (int v) ?s1 = Inr (f', ?s1\<lparr>mainMemory := overlay (mainMemory s) (128 * p) (page_bytes (cont (fsys s) x) v)\<rparr>)"
    using r put unfolding b by (simp add: page_in_def mem_consts)
  moreover have "close_file f' (?s1\<lparr>mainMemory := overlay (mainMemory s) (128 * p) (page_bytes (cont (fsys s) x) v)\<rparr>)
      = Inr (s\<lparr>fsys := with_fdisk fs1 d, mainMemory := overlay (mainMemory s) (128 * p) (page_bytes (cont (fsys s) x) v)\<rparr>)"
    using c(1) by (simp add: close_file_def with_disk_def)
  moreover have "held fs1 y g" if "held (fsys s) y g" for y g using that by (rule held_visits(2)) (simp add: o(4))
  then have "same_files (fsys s) (with_fdisk fs1 d) t" using c(3,5) o(5) vis by (simp add: same_files_def)
  ultimately show ?thesis using c(2) by blast
qed

definition loaded :: "translation_entry \<Rightarrow> nat \<Rightarrow> translation_entry" where
  "loaded e p = e\<lparr>physicalPage := int p, valid := True, use := False, dirty := False, readOnly := False\<rparr>"

lemma vm_ok_table:
  "vm_ok s bm t sp x pt \<Longrightarrow> length pt' = length pt \<Longrightarrow> vm_ok (s\<lparr>pageTable := Some pt'\<rparr>) bm t sp x pt'"
  by (simp add: vm_ok_def)

lemma vm_ok_loaded:
  assumes V: "vm_ok s bm t sp x pt" and p: "p < 32" and fs: "fs_ok fs' bm t" "same_files (fsys s) fs' t" and l: "length pt' = length pt" "v < length pt"
  shows "vm_ok (s\<lparr>fsys := fs', mainMemory := overlay (mainMemory s) (128 * p) (page_bytes (cont (fsys s) x) v), pageTable := Some pt'\<rparr>) bm t sp x pt'"
proof -
  note D = vm_okD [OF V]
  have "cont fs' x = cont (fsys s) x" using fs(2) user_file(1) [OF D(1,9)] unfolding same_files_def by blast
  moreover have "length (page_bytes (cont (fsys s) x) v) = 128" by (rule length_page_bytes) (use D(7) l(2) in linarith)
  then have "length (overlay (mainMemory s) (128 * p) (page_bytes (cont (fsys s) x) v)) = 4096"
    using page_bytes_overlay(3) D(8) p by simp
  ultimately show ?thesis using D fs(1) l(1) by (simp add: vm_ok_def)
qed

text \<open>The second half of \<open>PageFaultHandler\<close>, once there is a frame.\<close>

lemma fault_with_frame:
  assumes V: "vm_ok s1 bm t sp x pt" and env: "length (now env) = 25" and v: "v < length pt" and p: "p < 32"
    and fr: "(let (frame, s) = allocateMem s in if frame = -1 then ReplacePage env s else Inr (frame, s)) = Inr (int p, s1)"
  obtains fs' where "PageFaultHandler env (int v) s = Inr (s1\<lparr>fsys := fs', mainMemory := overlay (mainMemory s1) (128 * p) (page_bytes (cont (fsys s1) x) v),
      pageTable := Some (pt[v := loaded (pt ! v) p])\<rparr>)" "fs_ok fs' bm t" "same_files (fsys s1) fs' t"
proof -
  note D = vm_okD [OF V]
  let ?pt1 = "pt[v := (pt ! v)\<lparr>physicalPage := int p\<rparr>]"
  have V1: "vm_ok (s1\<lparr>pageTable := Some ?pt1\<rparr>) bm t sp x ?pt1" by (rule vm_ok_table [OF V]) simp
  have v1: "v < length ?pt1" using v by simp
  obtain vm s2 vm' s3 fs' where o: "open_named env (VMName sp) (s1\<lparr>pageTable := Some ?pt1\<rparr>) = Inr (vm, s2)" "page_in env vm (int p) (int v) s2 = Inr (vm', s3)"
    and c: "close_file vm' s3 = Inr (s1\<lparr>pageTable := Some ?pt1, fsys := fs', mainMemory := overlay (mainMemory s1) (128 * p) (page_bytes (cont (fsys s1) x) v)\<rparr>)"
    and fs': "fs_ok fs' bm t" "same_files (fsys s1) fs' t"
    using load_page [OF V1 env v1 p] by auto
  have "PageFaultHandler env (int v) s = Inr (s1\<lparr>pageTable := Some ?pt1, fsys := fs', mainMemory := overlay (mainMemory s1) (128 * p) (page_bytes (cont (fsys s1) x) v),
      pageTable := Some (pt[v := loaded (pt ! v) p])\<rparr>)"
    using fr D(2,5) v o c by (simp add: PageFaultHandler_def Let_def split_beta current_table_def current_space_def aget_def loaded_def)
  then show ?thesis using fs' by (intro that) simp_all
qed

lemma take_frame:
  assumes "frames s \<noteq> {..<32}"
  obtains p b where "allocateMem s = (int p, s\<lparr>frame_bitmap := b\<rparr>)" "p < 32" "p \<notin> frames s" "frames (s\<lparr>frame_bitmap := b\<rparr>) = insert p (frames s)"
  using allocateMem_cases [of s] assms by metis

definition paged_in :: "user_machine \<Rightarrow> 32 word \<Rightarrow> file_system \<Rightarrow> int \<Rightarrow> translation_entry list \<Rightarrow> nat \<Rightarrow> nat \<Rightarrow> user_machine" where
  "paged_in s b fs' x pt v p = s\<lparr>frame_bitmap := b, fsys := fs', mainMemory := overlay (mainMemory s) (128 * p) (page_bytes (cont (fsys s) x) v),
     pageTable := Some (pt[v := loaded (pt ! v) p])\<rparr>"

lemma paged_in_simps [simp]:
  "registers (paged_in s b fs' x pt v p) = registers s" "tlb (paged_in s b fs' x pt v p) = tlb s" "Index (paged_in s b fs' x pt v p) = Index s"
  "fsys (paged_in s b fs' x pt v p) = fs'" "pageTable (paged_in s b fs' x pt v p) = Some (pt[v := loaded (pt ! v) p])"
  "pageTableSize (paged_in s b fs' x pt v p) = pageTableSize s"
  "mainMemory (paged_in s b fs' x pt v p) = overlay (mainMemory s) (128 * p) (page_bytes (cont (fsys s) x) v)"
  by (simp_all add: paged_in_def)

lemma fault_free:
  assumes "vm_ok s bm t sp x pt" "length (now env) = 25" "v < length pt" "frames s \<noteq> {..<32}"
  obtains p b fs' where "PageFaultHandler env (int v) s = Inr (paged_in s b fs' x pt v p)" "p < 32" "p \<notin> frames s"
    "frames (paged_in s b fs' x pt v p) = insert p (frames s)" "vm_ok (paged_in s b fs' x pt v p) bm t sp x (pt[v := loaded (pt ! v) p])"
    "same_files (fsys s) fs' t"
proof -
  obtain p b where a: "allocateMem s = (int p, s\<lparr>frame_bitmap := b\<rparr>)" "p < 32" "p \<notin> frames s" "frames (s\<lparr>frame_bitmap := b\<rparr>) = insert p (frames s)"
    by (rule take_frame [OF assms(4)])
  let ?s1 = "s\<lparr>frame_bitmap := b\<rparr>"
  have V1: "vm_ok ?s1 bm t sp x pt" using assms(1) by (simp add: vm_ok_def)
  have fr: "(let (frame, s) = allocateMem s in if frame = -1 then ReplacePage env s else Inr (frame, s)) = Inr (int p, ?s1)"
    unfolding a(1) by simp
  obtain fs' where f: "PageFaultHandler env (int v) s = Inr (?s1\<lparr>fsys := fs', mainMemory := overlay (mainMemory ?s1) (128 * p) (page_bytes (cont (fsys ?s1) x) v),
      pageTable := Some (pt[v := loaded (pt ! v) p])\<rparr>)" "fs_ok fs' bm t" "same_files (fsys ?s1) fs' t"
    by (rule fault_with_frame [OF V1 assms(2,3) a(2) fr])
  have "vm_ok (paged_in s b fs' x pt v p) bm t sp x (pt[v := loaded (pt ! v) p])"
    using vm_ok_loaded [OF V1 a(2) f(2,3), of "pt[v := loaded (pt ! v) p]" v] assms(3) by (simp add: paged_in_def)
  moreover have "frames (paged_in s b fs' x pt v p) = insert p (frames s)" using a(4) by (simp add: frames_def paged_in_def)
  moreover have "PageFaultHandler env (int v) s = Inr (paged_in s b fs' x pt v p)" using f(1) by (simp add: paged_in_def)
  ultimately show ?thesis using f(3) a(2,3) by (intro that) simp_all
qed

text \<open>C9: A page fault while a frame is free: the page's 128 bytes of the file of virtual memory are brought into that frame,
  which no page had; the page table entry maps the page to it; no other frame, no file and no TLB entry changes.\<close>

theorem PageFaultHandler_loads:
  assumes "vm_ok s bm t sp x pt" "length (now env) = 25" "v < length pt" "frames s \<noteq> {..<32}"
  shows "\<exists>p s'. PageFaultHandler env (int v) s = Inr s' \<and> p < 32 \<and> p \<notin> frames s \<and> frames s' = insert p (frames s)
    \<and> vm_ok s' bm t sp x (pt[v := loaded (pt ! v) p]) \<and> page_bytes (mainMemory s') p = page_bytes (cont (fsys s) x) v
    \<and> (\<forall>q. q \<noteq> p \<longrightarrow> page_bytes (mainMemory s') q = page_bytes (mainMemory s) q) \<and> same_files (fsys s) (fsys s') t \<and> tlb s' = tlb s"
proof -
  note D = vm_okD [OF assms(1)]
  obtain p b fs' where f: "PageFaultHandler env (int v) s = Inr (paged_in s b fs' x pt v p)" "p < 32" "p \<notin> frames s"
    "frames (paged_in s b fs' x pt v p) = insert p (frames s)" "vm_ok (paged_in s b fs' x pt v p) bm t sp x (pt[v := loaded (pt ! v) p])"
    "same_files (fsys s) fs' t"
    by (rule fault_free [OF assms])
  have l: "length (page_bytes (cont (fsys s) x) v) = 128" by (rule length_page_bytes) (use D(7) assms(3) in linarith)
  have m: "128 * p + 128 \<le> length (mainMemory s)" using D(8) f(2) by simp
  show ?thesis
    by (intro exI [of _ p] exI [of _ "paged_in s b fs' x pt v p"]) (use f page_bytes_overlay(1,2) [OF l m] in simp)
qed

theorem PageFaultHandler_loads_witness:
  "\<exists>fs bm t x p s'. vm_ok (sample_user fs [absent 0, absent 1] [] 7) bm t sample_space x [absent 0, absent 1]
    \<and> PageFaultHandler sample_env 1 (sample_user fs [absent 0, absent 1] [] 7) = Inr s' \<and> frames s' = insert p (frames (sample_user fs [absent 0, absent 1] [] 7))
    \<and> page_bytes (mainMemory s') p = page_bytes (cont fs x) 1"
proof -
  obtain fs bm t x where "\<And>pt T b. length pt = 2 \<Longrightarrow> vm_ok (sample_user fs pt T b) bm t sample_space x pt" by (rule sample_vm_ok) blast
  then have V: "vm_ok (sample_user fs [absent 0, absent 1] [] 7) bm t sample_space x [absent 0, absent 1]" by simp
  have "\<not> bit (7 :: 32 word) 5" by simp
  then have "5 \<notin> frames (sample_user fs [absent 0, absent 1] [] 7)" by (simp add: frames_def sample_user_def)
  moreover have "(5 :: nat) \<in> {..<32}" by simp
  ultimately have "frames (sample_user fs [absent 0, absent 1] [] 7) \<noteq> {..<32}" by metis
  moreover have "length (now sample_env) = 25" by (simp add: sample_env_def)
  moreover have "1 < length [absent 0, absent 1]" by simp
  ultimately obtain p s' where "PageFaultHandler sample_env (int 1) (sample_user fs [absent 0, absent 1] [] 7) = Inr s'"
      "frames s' = insert p (frames (sample_user fs [absent 0, absent 1] [] 7))"
      "page_bytes (mainMemory s') p = page_bytes (cont (fsys (sample_user fs [absent 0, absent 1] [] 7)) x) 1"
    using PageFaultHandler_loads [OF V, of sample_env 1] by blast
  moreover have "fsys (sample_user fs pt T b) = fs" for pt T b by (simp add: sample_user_def)
  ultimately show ?thesis using V by (metis of_nat_1)
qed

section \<open>Giving up a page\<close>

definition first_valid :: "translation_entry list \<Rightarrow> nat \<Rightarrow> bool" where
  "first_valid pt i \<longleftrightarrow> i < length pt \<and> valid (pt ! i) \<and> (\<forall>j < i. \<not> valid (pt ! j))"

definition never_dirty :: "translation_entry list \<Rightarrow> bool" where
  "never_dirty pt \<longleftrightarrow> (\<forall>e \<in> set pt. valid e \<longrightarrow> \<not> dirty e)"

lemma find_entry_first:
  assumes "i < length t" "P (t ! i)" "\<forall>j < i. \<not> P (t ! j)"
  shows "find_entry P t 0 (int (length t)) = Inr (Some (int i))"
proof -
  obtain r where r: "find_entry P t 0 (int (length t)) = Inr r" and R: "case r of None \<Rightarrow> (\<forall>j. 0 \<le> j \<and> j < int (length t) \<longrightarrow> \<not> P (t ! nat j))
      | Some k \<Rightarrow> 0 \<le> k \<and> k < int (length t) \<and> P (t ! nat k) \<and> (\<forall>j. 0 \<le> j \<and> j < k \<longrightarrow> \<not> P (t ! nat j))"
    using find_entry_spec [of 0 "int (length t)" t P] by auto
  show ?thesis
  proof (cases r)
    case None
    then show ?thesis using R [simplified None option.case] assms(1,2) by (metis nat_int of_nat_0_le_iff of_nat_less_iff)
  next
    case (Some k)
    then have k: "0 \<le> k" "P (t ! nat k)" "\<not> (int i < k)"
      using R assms(2) by (simp_all, metis nat_int of_nat_0_le_iff)
    then have "nat k = i" using assms(3) by (metis linorder_neqE_nat not_less nat_less_iff zless_nat_eq_int_zless)
    then show ?thesis using r Some k(1) by (simp add: nat_eq_iff)
  qed
qed

lemma ReplacePage_first:
  assumes "pageTable s = Some pt" "pageTableSize s = int (length pt)" "never_dirty pt" "first_valid pt i"
  shows "ReplacePage env s = Inr (physicalPage (pt ! i), s\<lparr>pageTable := Some (pt[i := (pt ! i)\<lparr>valid := False\<rparr>])\<rparr>)"
proof -
  have "find_entry (\<lambda>e. valid e \<and> \<not> dirty e) pt 0 (int (length pt)) = Inr (Some (int i))"
    by (rule find_entry_first) (use assms(3,4) in \<open>auto simp: first_valid_def never_dirty_def\<close>)
  then show ?thesis using assms(1,2) by (simp add: ReplacePage_def current_table_def invalidate_def)
qed

lemma no_frame: "frames s = {..<32} \<Longrightarrow> allocateMem s = (-1, s)"
  using allocateMem_cases [of s] by simp

lemma evicting_fault:
  assumes V: "vm_ok s bm t sp x pt" and env: "length (now env) = 25" and v: "v < length pt" "\<not> valid (pt ! v)" and full: "frames s = {..<32}"
    and nd: "never_dirty pt" and i: "first_valid pt i" "physicalPage (pt ! i) = int p" "p < 32"
  obtains s' where "PageFaultHandler env (int v) s = Inr s'" "vm_ok s' bm t sp x (pt[i := (pt ! i)\<lparr>valid := False\<rparr>, v := loaded (pt ! v) p])"
    "page_bytes (mainMemory s') p = page_bytes (cont (fsys s) x) v" "same_files (fsys s) (fsys s') t" "tlb s' = tlb s" "registers s' = registers s" "frames s' = frames s" "Index s' = Index s"
    "opened s' = opened s" "tid s' = tid s" "cout s' = cout s" "space s' = space s"
proof -
  note D = vm_okD [OF V]
  let ?pt1 = "pt[i := (pt ! i)\<lparr>valid := False\<rparr>]"
  let ?s1 = "s\<lparr>pageTable := Some ?pt1\<rparr>"
  have iv: "i \<noteq> v" using i(1) v(2) by (auto simp: first_valid_def)
  have V1: "vm_ok ?s1 bm t sp x ?pt1" by (rule vm_ok_table [OF V]) simp
  have fr: "(let (frame, s) = allocateMem s in if frame = -1 then ReplacePage env s else Inr (frame, s)) = Inr (int p, ?s1)"
    unfolding no_frame [OF full] using ReplacePage_first [OF D(5,6) nd i(1), of env] i(2) by simp
  have v1: "v < length ?pt1" using v(1) by simp
  have e: "?pt1 ! v = pt ! v" using iv by simp
  obtain fs' where f: "PageFaultHandler env (int v) s = Inr (?s1\<lparr>fsys := fs', mainMemory := overlay (mainMemory ?s1) (128 * p) (page_bytes (cont (fsys ?s1) x) v),
      pageTable := Some (?pt1[v := loaded (pt ! v) p])\<rparr>)" "fs_ok fs' bm t" "same_files (fsys ?s1) fs' t"
    by (rule fault_with_frame [OF V1 env v1 i(3) fr, unfolded e])
  let ?s' = "?s1\<lparr>fsys := fs', mainMemory := overlay (mainMemory ?s1) (128 * p) (page_bytes (cont (fsys ?s1) x) v), pageTable := Some (?pt1[v := loaded (pt ! v) p])\<rparr>"
  have l: "length (page_bytes (cont (fsys s) x) v) = 128" by (rule length_page_bytes) (use D(7) v(1) in linarith)
  have m: "128 * p + 128 \<le> length (mainMemory s)" using D(8) i(3) by simp
  have w: "vm_ok ?s' bm t sp x (?pt1[v := loaded (pt ! v) p])"
    by (rule vm_ok_loaded [OF V1 i(3) f(2,3)]) (use v(1) in simp_all)
  show ?thesis by (rule that [OF f(1) w]) (use f(3) page_bytes_overlay(1) [OF l m] in \<open>simp_all add: frames_def\<close>)
qed

text \<open>The dirty bits of the page table.\<close>

definition clean_table :: "user_machine \<Rightarrow> bool" where
  "clean_table s \<longleftrightarrow> (\<forall>pt. pageTable s = Some pt \<longrightarrow> never_dirty pt)"

end
