(* ===== verification/VmTraps.thy ===== *)
theory VmTraps
  imports VmFacts
begin

text \<open>
  What a program and the kernel see of demand paging through the TLB: hits, misses, and the defects of the
  page fault path.
\<close>

section \<open>Hits and misses\<close>

definition no_hit :: "translation_entry list \<Rightarrow> int \<Rightarrow> bool" where
  "no_hit T vpn \<longleftrightarrow> (\<forall>e \<in> set T. \<not> (valid e \<and> u32 (virtualPage e) = vpn))"

definition hit_at :: "translation_entry list \<Rightarrow> int \<Rightarrow> nat \<Rightarrow> bool" where
  "hit_at T vpn k \<longleftrightarrow> k < 4 \<and> tlb_hit T vpn (int k) \<and> (\<forall>j. 0 \<le> j \<and> j < int k \<longrightarrow> \<not> tlb_hit T vpn j)"

lemma tlb_search_none: "length T = 4 \<Longrightarrow> no_hit T vpn \<Longrightarrow> tlb_search T vpn 0 = Inr None"
proof -
  assume T: "length T = 4" "no_hit T vpn"
  obtain r where r: "tlb_search T vpn 0 = Inr r" and R: "case r of None \<Rightarrow> (\<forall>j. 0 \<le> j \<longrightarrow> \<not> tlb_hit T vpn j)
    | Some k \<Rightarrow> 0 \<le> k \<and> tlb_hit T vpn k \<and> (\<forall>j. 0 \<le> j \<and> j < k \<longrightarrow> \<not> tlb_hit T vpn j)"
    using tlb_search_spec [of T 0 vpn] T(1) by (auto simp: mem_consts)
  show ?thesis
  proof (cases r)
    case (Some k)
    then have "nat k < length T" "valid (T ! nat k)" "u32 (virtualPage (T ! nat k)) = vpn" using R by (auto simp: tlb_hit_def)
    then show ?thesis using T(2) nth_mem unfolding no_hit_def by blast
  qed (simp add: r)
qed

lemma tlb_search_hit:
  assumes T: "length T = 4" "hit_at T vpn k"
  shows "tlb_search T vpn 0 = Inr (Some (int k))"
proof -
  obtain r where r: "tlb_search T vpn 0 = Inr r" and R: "case r of None \<Rightarrow> (\<forall>j. 0 \<le> j \<longrightarrow> \<not> tlb_hit T vpn j)
    | Some k \<Rightarrow> 0 \<le> k \<and> tlb_hit T vpn k \<and> (\<forall>j. 0 \<le> j \<and> j < k \<longrightarrow> \<not> tlb_hit T vpn j)"
    using tlb_search_spec [of T 0 vpn] T(1) by (auto simp: mem_consts)
  show ?thesis
  proof (cases r)
    case None
    then have "\<not> tlb_hit T vpn (int k)" using R by simp
    then show ?thesis using T(2) by (simp add: hit_at_def)
  next
    case (Some i)
    have "i = int k"
    proof (rule linorder_cases [of i "int k"])
      assume "i < int k"
      then show ?thesis using R T(2) Some by (auto simp: hit_at_def)
    next
      assume "int k < i"
      then show ?thesis using R T(2) Some by (auto simp: hit_at_def)
    qed
    then show ?thesis using r Some by simp
  qed
qed

lemma byte_aligned: "aligned a 1"
  by (simp add: aligned_def)

text \<open>An access of one byte through entry \<open>k\<close> of the TLB.\<close>

definition used_at :: "user_machine \<Rightarrow> nat \<Rightarrow> bool \<Rightarrow> user_machine" where
  "used_at s k w = (case tlb s of None \<Rightarrow> s
     | Some T \<Rightarrow> s\<lparr>totalcnt := totalcnt s + 1, tlb := Some (T[k := (T ! k)\<lparr>use := True, dirty := dirty (T ! k) \<or> w\<rparr>])\<rparr>)"

lemma Translate_hit:
  assumes "tlb s = Some T" "length T = 4" "hit_at T (uint a div 128) k" "physicalPage (T ! k) = int p" "p < 32" "\<not> readOnly (T ! k)"
  shows "Translate s a 1 w = Inr (NoException, 128 * int p + uint a mod 128, used_at s k w)"
proof -
  have m: "0 \<le> uint a mod 128" "uint a mod 128 < 128" by simp_all
  have u: "u32 (int p) = int p" using assms(5) by (simp add: u32_def)
  have k: "k < length T" using assms(2,3) by (simp add: hit_at_def)
  have "p * 128 + nat (uint a mod 128) + 1 \<le> 4096" using assms(5) m by linarith
  then have A: "ASSERT (0 \<le> int p * 128 + uint a mod 128 \<and> int p * 128 + uint a mod 128 + 1 \<le> 4096) = Inr ()" using m by simp
  have "access_entry (T ! k) (uint a mod 128) 1 w = Inr (Inr ((T ! k)\<lparr>use := True, dirty := dirty (T ! k) \<or> w\<rparr>, 128 * int p + uint a mod 128))"
    unfolding access_entry_def Let_def mem_consts assms(4) u A using assms(5,6) by (cases w) (simp_all add: mult.commute)
  then show ?thesis
    using tlb_search_hit [OF assms(2,3)] assms(1) k by (simp add: Translate_def Let_def mem_consts aget_def used_at_def)
qed

lemma ReadMem_hit:
  assumes "tlb s = Some T" "length T = 4" "hit_at T (uint a div 128) k" "physicalPage (T ! k) = int p" "p < 32" "\<not> readOnly (T ! k)"
    "length (mainMemory s) = 4096"
  shows "ReadMem h s a 1 = Inr (True, scast (page_bytes (mainMemory s) p ! nat (uint a mod 128)), used_at s k False)"
proof -
  have m: "0 \<le> uint a mod 128" "uint a mod 128 < 128" by simp_all
  define o' where "o' = nat (uint a mod 128)"
  have o: "uint a mod 128 = int o'" "o' < 128" using m by (simp_all add: o'_def)
  have "128 * int p + int o' = int (128 * p + o')" by simp
  moreover have lt: "128 * p + o' < 4096" using assms(5) o(2) by linarith
  ultimately have "aget (mainMemory s) (128 * int p + int o') = Inr (mainMemory s ! (128 * p + o'))"
    using assms(7) by (simp add: aget_def nat_add_distrib nat_mult_distrib)
  moreover have "page_bytes (mainMemory s) p ! o' = mainMemory s ! (128 * p + o')" using o(2) lt assms(7) by (simp add: page_bytes_def)
  moreover have "mainMemory (used_at s k False) = mainMemory s" by (simp add: used_at_def split: option.splits)
  ultimately show ?thesis using Translate_hit [OF assms(1-6), of False] by (simp add: ReadMem_def load8_def o)
qed

definition missed :: "user_machine \<Rightarrow> user_machine" where
  "missed s = s\<lparr>totalcnt := totalcnt s + 1, misscnt := misscnt s + 1\<rparr>"

lemma ReadMem_miss:
  assumes "tlb s = Some T" "length T = 4" "no_hit T (uint a div 128)"
  shows "ReadMem h s a 1 = rbind (RaiseException h (missed s) PageFaultException a) (\<lambda>s. Inr (False, 0, s))"
  using tlb_search_none [OF assms(2,3)] assms(1) by (simp add: ReadMem_def Translate_def mem_consts missed_def)

lemma WriteMem_miss:
  assumes "tlb s = Some T" "length T = 4" "no_hit T (uint a div 128)"
  shows "WriteMem h s a 1 v = rbind (RaiseException h (missed s) PageFaultException a) (\<lambda>s. Inr (False, s))"
  using tlb_search_none [OF assms(2,3)] assms(1) by (simp add: WriteMem_def Translate_def mem_consts missed_def)

text \<open>The registers as a trap leaves them.\<close>

definition regs_ok :: "32 word list \<Rightarrow> bool" where
  "regs_ok rs \<longleftrightarrow> length rs = 40 \<and> unat (rs ! 37) < 32"

lemma RaiseException_regs:
  fixes s :: user_machine
  assumes "regs_ok (registers s)"
  obtains rs where "\<And>h. RaiseException h s which a = rbind (h which (s\<lparr>registers := rs, status := SystemMode\<rparr>)) (\<lambda>s. Inr (s\<lparr>status := UserMode\<rparr>))"
    "regs_ok rs" "rs ! 39 = a"
proof -
  let ?rs = "registers s"
  have l: "length ?rs = 40" "unat (?rs ! 37) < 32" using assms by (simp_all add: regs_ok_def)
  have ur: "uint (?rs ! 37) < 40" "nat (uint (?rs ! 37)) = unat (?rs ! 37)" using l(2) uint_nat [of "?rs ! 37"] by linarith+
  have ne: "?rs \<noteq> []" using l(1) by auto
  have lr: "sint (?rs ! 37) = int (unat (?rs ! 37))" using l(2) by (intro sint_small) 
  define rs where "rs = ?rs[39 := a, unat (?rs ! 37) := ?rs ! 38, 37 := 0, 38 := 0, 0 := 0]"
  have "RaiseException h s which a = rbind (h which (s\<lparr>registers := rs, status := SystemMode\<rparr>)) (\<lambda>s. Inr (s\<lparr>status := UserMode\<rparr>))" for h
    using l lr ur ne by (simp add: RaiseException_def DelayedLoad_def set_reg_def reg_def aget_def aset_def rs_def)
  moreover have "regs_ok rs" using l by (simp add: regs_ok_def rs_def)
  moreover have "rs ! 39 = a" using l by (simp add: rs_def)
  ultimately show ?thesis by (rule that)
qed

lemma on_access_fault:
  "tlb s = Some T \<Longrightarrow> length (registers s) = 40 \<Longrightarrow> on_access env PageFaultException s = TLBMissHandler env (registers s ! 39) s"
  by (simp add: on_access_def handle_exception_def ReadRegister_def NumTotalRegs_def aget_def)

section \<open>Filling the TLB\<close>

lemma no_hit_subset: "no_hit T w \<Longrightarrow> \<not> (valid e \<and> u32 (virtualPage e) = w) \<Longrightarrow>
    \<forall>x \<in> set T'. \<exists>y \<in> insert e (set T). valid x = valid y \<and> virtualPage x = virtualPage y \<Longrightarrow> no_hit T' w"
  by (fastforce simp: no_hit_def)

definition from_tlb :: "translation_entry \<Rightarrow> translation_entry list \<Rightarrow> translation_entry list \<Rightarrow> bool" where
  "from_tlb e T T' \<longleftrightarrow> length T' = 4 \<and> (\<forall>x \<in> set T'. \<exists>y \<in> insert e (set T). valid x = valid y \<and> virtualPage x = virtualPage y
     \<and> physicalPage x = physicalPage y \<and> readOnly x = readOnly y)"

lemma from_tlb_update: "length T = 4 \<Longrightarrow> from_tlb e T (T[i := e])"
  using set_update_subset_insert [of T i e] by (auto simp: from_tlb_def)

lemma TLBFIFO_from:
  assumes "length T = 4" shows "\<exists>T'. TLBFIFO e T = Inr T' \<and> from_tlb e T T'"
proof -
  obtain r where r: "find_entry (\<lambda>e. \<not> valid e) T 0 4 = Inr r" "case r of None \<Rightarrow> True | Some k \<Rightarrow> 0 \<le> k \<and> k < 4"
    using find_entry_spec [of 0 4 T "\<lambda>e. \<not> valid e"] assms by (auto split: option.splits)
  obtain a b c d where T: "T = [a, b, c, d]" using four [OF assms] by blast
  show ?thesis
  proof (cases r)
    case None
    then have "TLBFIFO e T = Inr [b, c, d, e]" using r(1) by (simp add: TLBFIFO_def mem_consts T aset_def numeral_eq_Suc)
    then show ?thesis by (auto simp: from_tlb_def T)
  next
    case (Some k)
    then have "TLBFIFO e T = Inr (T[nat k := e])" using r assms by (simp add: TLBFIFO_def mem_consts aset_def)
    then show ?thesis using from_tlb_update [OF assms] by blast
  qed
qed

lemma swept_from: "length T = 4 \<Longrightarrow> from_tlb e T ((swept T h k)[i := e\<lparr>use := u\<rparr>])"
proof -
  assume T: "length T = 4"
  have "\<exists>y \<in> insert e (set T). valid x = valid y \<and> virtualPage x = virtualPage y \<and> physicalPage x = physicalPage y \<and> readOnly x = readOnly y" if x: "x \<in> set ((swept T h k)[i := e\<lparr>use := u\<rparr>])" for x
  proof (cases "x = e\<lparr>use := u\<rparr>")
    case False
    then have "x \<in> set (swept T h k)" using x set_update_subset_insert [of "swept T h k" i "e\<lparr>use := u\<rparr>"] by auto
    then obtain j where j: "j < 4" "x = swept T h k ! j" by (auto simp: in_set_conv_nth length_swept)
    then have "valid x = valid (T ! j)" "virtualPage x = virtualPage (T ! j)" "physicalPage x = physicalPage (T ! j)" "readOnly x = readOnly (T ! j)"
      by (auto simp: swept_nth)
    moreover have "T ! j \<in> set T" using j(1) T by simp
    ultimately show ?thesis by blast
  qed simp
  then show ?thesis by (simp add: from_tlb_def length_swept)
qed

lemma TLB_replace_ok:
  assumes "tlb s = Some T" "length T = 4" "0 \<le> Index s" "Index s < 4"
  obtains T' i where "TLB_replace pol e s = Inr (s\<lparr>tlb := Some T', Index := i\<rparr>)" "length T' = 4" "0 \<le> i" "i < 4"
    "\<And>w. no_hit T w \<Longrightarrow> \<not> (valid e \<and> u32 (virtualPage e) = w) \<Longrightarrow> no_hit T' w" "from_tlb e T T'"
proof -
  define h where "h = nat (Index s)"
  have h: "Index s = int h" "h < 4" using assms(3,4) by (simp_all add: h_def)
  have "\<exists>T' i. TLB_replace pol e s = Inr (s\<lparr>tlb := Some T', Index := i\<rparr>) \<and> 0 \<le> i \<and> i < 4 \<and> from_tlb e T T'"
  proof (cases pol)
    case USE_FIFO
    obtain T' where T': "TLBFIFO e T = Inr T'" "from_tlb e T T'" using TLBFIFO_from [OF assms(2)] by blast
    then have "TLB_replace pol e s = Inr (s\<lparr>tlb := Some T', Index := Index s\<rparr>)" using USE_FIFO assms(1) by (simp add: TLB_replace_def)
    then show ?thesis using T'(2) assms(3,4) by blast
  next
    case USE_CLOCK
    have "TLBClock e T (int h) = Inr ((swept T h (passed T h))[(h + passed T h) mod 4 := e\<lparr>use := True\<rparr>], int ((h + passed T h) mod 4))"
      using clock_sweep_spec [OF assms(2) h(2)] by (simp add: TLBClock_def aset_def length_swept)
    then have "TLB_replace pol e s = Inr (s\<lparr>tlb := Some ((swept T h (passed T h))[(h + passed T h) mod 4 := e\<lparr>use := True\<rparr>]), Index := int ((h + passed T h) mod 4)\<rparr>)"
      using USE_CLOCK assms(1) h(1) by (simp add: TLB_replace_def)
    then show ?thesis using swept_from [OF assms(2)] by (intro exI conjI) auto
  next
    case USE_NEITHER
    have "TLBNext e T (int h) = Inr (T[h := e], int (Suc h mod 4))"
      using hand_next [of h] h(2) assms(2) by (simp add: TLBNext_def aset_def)
    then have "TLB_replace pol e s = Inr (s\<lparr>tlb := Some (T[h := e]), Index := int (Suc h mod 4)\<rparr>)"
      using USE_NEITHER assms(1) h(1) by (simp add: TLB_replace_def)
    then show ?thesis using from_tlb_update [OF assms(2)] by (intro exI conjI) auto
  qed
  then obtain T' i where "TLB_replace pol e s = Inr (s\<lparr>tlb := Some T', Index := i\<rparr>)" "0 \<le> i" "i < 4" "from_tlb e T T'" by blast
  moreover from this have "no_hit T' w" if "no_hit T w" "\<not> (valid e \<and> u32 (virtualPage e) = w)" for w
    using no_hit_subset [OF that, of T'] by (auto simp: from_tlb_def)
  ultimately show ?thesis by (intro that [of i T']) (auto simp: from_tlb_def)
qed

section \<open>The first trap on an absent page\<close>

lemma vm_ok_cpu:
  "vm_ok (s\<lparr>registers := rs, status := st\<rparr>) bm t sp x pt = vm_ok s bm t sp x pt" "vm_ok (missed s) bm t sp x pt = vm_ok s bm t sp x pt"
  "frames (s\<lparr>registers := rs, status := st\<rparr>) = frames s" "frames (missed s) = frames s"
  by (simp_all add: vm_ok_def frames_def missed_def)

lemma vpn_of: "uint (a :: 32 word) div 128 = int v \<Longrightarrow> uint a div PageSize = int v"
  by (simp add: mem_consts)

text \<open>What paging leaves alone: the contents of the files and the handles on them, the table of open files and the output.\<close>

definition only_paging :: "user_machine \<Rightarrow> user_machine \<Rightarrow> directory \<Rightarrow> bool" where
  "only_paging s s' t \<longleftrightarrow> same_files (fsys s) (fsys s') t \<and> opened s' = opened s \<and> tid s' = tid s \<and> cout s' = cout s \<and> space s' = space s"

lemma only_paging_trans: "only_paging s s1 t \<Longrightarrow> only_paging s1 s2 t \<Longrightarrow> only_paging s s2 t"
  by (auto simp: only_paging_def intro: same_files_trans)

lemma only_paging_refl [simp]: "only_paging s s t"
  by (simp add: only_paging_def)

text \<open>The handler on a page that is absent: the page is brought in, but the TLB gets the entry from before.\<close>

lemma TLBMissHandler_absent:
  assumes V: "vm_ok s bm t sp x pt" and env: "length (now (fenv env)) = 25" and v: "v < length pt" "\<not> valid (pt ! v)" "uint a div 128 = int v"
    and fr: "frames s \<noteq> {..<32}" and T: "tlb s = Some T" "length T = 4" "no_hit T (int v)" "0 \<le> Index s" "Index s < 4"
  obtains s' p T' where "TLBMissHandler env a s = Inr s'" "vm_ok s' bm t sp x (pt[v := loaded (pt ! v) p])" "registers s' = registers s"
    "tlb s' = Some T'" "length T' = 4" "no_hit T' (int v)" "0 \<le> Index s'" "Index s' < 4" "page_bytes (mainMemory s') p = page_bytes (cont (fsys s) x) v"
    "only_paging s s' t"
proof -
  note D = vm_okD [OF V]
  obtain p b fs' where f: "PageFaultHandler (fenv env) (int v) s = Inr (paged_in s b fs' x pt v p)" and p: "p < 32" and
    fv: "vm_ok (paged_in s b fs' x pt v p) bm t sp x (pt[v := loaded (pt ! v) p])" and sf: "same_files (fsys s) fs' t"
    by (rule fault_free [OF V env v(1) fr])
  let ?s1 = "paged_in s b fs' x pt v p"
  have l: "length (page_bytes (cont (fsys s) x) v) = 128" by (rule length_page_bytes) (use D(7) v(1) in linarith)
  have m: "128 * p + 128 \<le> length (mainMemory s)" using D(8) p by simp
  have T1: "tlb ?s1 = Some T" "0 \<le> Index ?s1" "Index ?s1 < 4" using T by simp_all
  obtain T' i where r: "TLB_replace (policy env) (pt ! v) ?s1 = Inr (?s1\<lparr>tlb := Some T', Index := i\<rparr>)" "length T' = 4" "0 \<le> i" "i < 4"
    "\<And>w. no_hit T w \<Longrightarrow> \<not> (valid (pt ! v) \<and> u32 (virtualPage (pt ! v)) = w) \<Longrightarrow> no_hit T' w"
    by (rule TLB_replace_ok [OF T1(1) T(2) T1(2,3)]) blast
  have "TLBMissHandler env a s = Inr (?s1\<lparr>tlb := Some T', Index := i\<rparr>)"
    using f r(1) v vm_okD(5) [OF V] by (simp add: TLBMissHandler_def current_table_def mem_consts aget_def)
  moreover have "vm_ok (?s1\<lparr>tlb := Some T', Index := i\<rparr>) bm t sp x (pt[v := loaded (pt ! v) p])" using fv by (simp add: vm_ok_def)
  moreover have "only_paging s (?s1\<lparr>tlb := Some T', Index := i\<rparr>) t" using sf by (simp add: only_paging_def paged_in_def)
  ultimately show ?thesis using r(2-4) r(5) [OF T(3)] v(2) page_bytes_overlay(1) [OF l m]
    by (intro that [where s' = "?s1\<lparr>tlb := Some T', Index := i\<rparr>" and p = p and T' = T']) simp_all
qed

text \<open>The handler on a page that is there.\<close>

lemma TLBMissHandler_present:
  assumes "pageTable s = Some pt" "v < length pt" "valid (pt ! v)" "uint a div 128 = int v" "tlb s = Some T" "length T = 4" "0 \<le> Index s" "Index s < 4"
  obtains T' i where "TLBMissHandler env a s = Inr (s\<lparr>tlb := Some T', Index := i\<rparr>)"
proof -
  obtain T' i where r: "TLB_replace (policy env) (pt ! v) s = Inr (s\<lparr>tlb := Some T', Index := i\<rparr>)"
    by (rule TLB_replace_ok [OF assms(5-8)]) blast
  have "TLBMissHandler env a s = Inr (s\<lparr>tlb := Some T', Index := i\<rparr>)"
    using r assms(1-4) by (simp add: TLBMissHandler_def current_table_def mem_consts aget_def)
  then show ?thesis by (rule that)
qed

lemma absent_trap:
  assumes V: "vm_ok s bm t sp x pt" and env: "length (now (fenv env)) = 25" and v: "v < length pt" "\<not> valid (pt ! v)" "uint a div 128 = int v"
    and fr: "frames s \<noteq> {..<32}" and T: "tlb s = Some T" "length T = 4" "no_hit T (int v)" "0 \<le> Index s" "Index s < 4" and R: "regs_ok (registers s)"
  obtains s' p T' where "RaiseException (on_access env) (missed s) PageFaultException a = Inr s'" "vm_ok s' bm t sp x (pt[v := loaded (pt ! v) p])"
    "regs_ok (registers s')" "tlb s' = Some T'" "length T' = 4" "no_hit T' (int v)" "0 \<le> Index s'" "Index s' < 4"
    "page_bytes (mainMemory s') p = page_bytes (cont (fsys s) x) v" "only_paging s s' t"
proof -
  have "regs_ok (registers (missed s))" using R by (simp add: missed_def)
  then obtain rs where r: "\<And>h. RaiseException h (missed s) PageFaultException a
        = rbind (h PageFaultException ((missed s)\<lparr>registers := rs, status := SystemMode\<rparr>)) (\<lambda>s. Inr (s\<lparr>status := UserMode\<rparr>))" "regs_ok rs" "rs ! 39 = a"
    by (rule RaiseException_regs) blast
  let ?s1 = "(missed s)\<lparr>registers := rs, status := SystemMode\<rparr>"
  have V1: "vm_ok ?s1 bm t sp x pt" "frames ?s1 \<noteq> {..<32}" using V fr by (simp_all add: vm_ok_cpu)
  have T1: "tlb ?s1 = Some T" "0 \<le> Index ?s1" "Index ?s1 < 4" using T by (simp_all add: missed_def)
  obtain s' p T' where h: "TLBMissHandler env a ?s1 = Inr s'" "vm_ok s' bm t sp x (pt[v := loaded (pt ! v) p])" "registers s' = registers ?s1"
    "tlb s' = Some T'" "length T' = 4" "no_hit T' (int v)" "0 \<le> Index s'" "Index s' < 4" "page_bytes (mainMemory s') p = page_bytes (cont (fsys ?s1) x) v"
    "only_paging ?s1 s' t"
    by (rule TLBMissHandler_absent [OF V1(1) env v V1(2) T1(1) T(2,3) T1(2,3)]) blast
  have "on_access env PageFaultException ?s1 = Inr s'"
    using on_access_fault [OF T1(1), of env] r(2,3) h(1) by (simp add: regs_ok_def)
  then have "RaiseException (on_access env) (missed s) PageFaultException a = Inr (s'\<lparr>status := UserMode\<rparr>)" using r(1) [of "on_access env"] by simp
  moreover have "vm_ok (s'\<lparr>status := UserMode\<rparr>) bm t sp x (pt[v := loaded (pt ! v) p])" using h(2) by (simp add: vm_ok_def)
  moreover have "fsys ?s1 = fsys s" by (simp add: missed_def)
  moreover have "only_paging s (s'\<lparr>status := UserMode\<rparr>) t" using h(10) by (simp add: only_paging_def missed_def)
  ultimately show ?thesis using h(3-9) r(2) by (intro that [where s' = "s'\<lparr>status := UserMode\<rparr>" and p = p and T' = T']) simp_all
qed

lemma present_trap:
  assumes "pageTable s = Some pt" "v < length pt" "valid (pt ! v)" "uint a div 128 = int v" "tlb s = Some T" "length T = 4" "0 \<le> Index s" "Index s < 4"
    "regs_ok (registers s)"
  obtains s' where "RaiseException (on_access env) (missed s) PageFaultException a = Inr s'" "mainMemory s' = mainMemory s" "pageTable s' = pageTable s"
    "only_paging s s' t" "fsys s' = fsys s" "regs_ok (registers s')"
proof -
  have "regs_ok (registers (missed s))" using assms(9) by (simp add: missed_def)
  then obtain rs where r: "\<And>h. RaiseException h (missed s) PageFaultException a
        = rbind (h PageFaultException ((missed s)\<lparr>registers := rs, status := SystemMode\<rparr>)) (\<lambda>s. Inr (s\<lparr>status := UserMode\<rparr>))" "regs_ok rs" "rs ! 39 = a"
    by (rule RaiseException_regs) blast
  let ?s1 = "(missed s)\<lparr>registers := rs, status := SystemMode\<rparr>"
  have P: "pageTable ?s1 = Some pt" "tlb ?s1 = Some T" "0 \<le> Index ?s1" "Index ?s1 < 4" using assms by (simp_all add: missed_def)
  obtain T' i where h: "TLBMissHandler env a ?s1 = Inr (?s1\<lparr>tlb := Some T', Index := i\<rparr>)"
    by (rule TLBMissHandler_present [OF P(1) assms(2-4) P(2) assms(6) P(3,4)])
  have "on_access env PageFaultException ?s1 = Inr (?s1\<lparr>tlb := Some T', Index := i\<rparr>)"
    using on_access_fault [OF P(2), of env] r(2,3) h by (simp add: regs_ok_def)
  then show ?thesis using r(1) [of "on_access env"] r(2)
    by (intro that [where s' = "?s1\<lparr>tlb := Some T', Index := i, status := UserMode\<rparr>"]) (simp_all add: missed_def only_paging_def)
qed

text \<open>Two accesses in a row to a page that is absent both trap, and neither has an effect but the page fault itself.\<close>

lemma two_traps:
  assumes V: "vm_ok s bm t sp x pt" and env: "length (now (fenv env)) = 25" and v: "v < length pt" "\<not> valid (pt ! v)" "uint a div 128 = int v"
    and fr: "frames s \<noteq> {..<32}" and T: "tlb s = Some T" "length T = 4" "no_hit T (int v)" "0 \<le> Index s" "Index s < 4" and R: "regs_ok (registers s)"
  obtains s1 s2 p where "RaiseException (on_access env) (missed s) PageFaultException a = Inr s1" "RaiseException (on_access env) (missed s1) PageFaultException a = Inr s2"
    "\<exists>T. tlb s1 = Some T \<and> length T = 4 \<and> no_hit T (int v)" "pageTable s2 = Some (pt[v := loaded (pt ! v) p])"
    "page_bytes (mainMemory s2) p = page_bytes (cont (fsys s) x) v" "only_paging s s2 t" "fs_ok (fsys s2) bm t" "regs_ok (registers s2)"
proof -
  obtain s1 p T1 where s1: "RaiseException (on_access env) (missed s) PageFaultException a = Inr s1" "vm_ok s1 bm t sp x (pt[v := loaded (pt ! v) p])"
    "regs_ok (registers s1)" "tlb s1 = Some T1" "length T1 = 4" "no_hit T1 (int v)" "0 \<le> Index s1" "Index s1 < 4" "page_bytes (mainMemory s1) p = page_bytes (cont (fsys s) x) v"
    "only_paging s s1 t"
    by (rule absent_trap [OF V env v fr T R])
  have v': "v < length (pt[v := loaded (pt ! v) p])" "valid (pt[v := loaded (pt ! v) p] ! v)" using v(1) by (simp_all add: loaded_def)
  obtain s2 where "RaiseException (on_access env) (missed s1) PageFaultException a = Inr s2" "mainMemory s2 = mainMemory s1" "pageTable s2 = pageTable s1"
      "only_paging s1 s2 t" "fsys s2 = fsys s1" "regs_ok (registers s2)"
    by (rule present_trap [OF vm_okD(5) [OF s1(2)] v' v(3) s1(4,5,7,8,3)])
  then show ?thesis using s1(1,4-6,9) vm_okD(1,5) [OF s1(2)] only_paging_trans [OF s1(10)] by (intro that [where ?s1.0 = s1 and ?s2.0 = s2 and p = p]) simp_all
qed

text \<open>A system call with a name (\<open>Create\<close>, \<open>Open\<close>, \<open>Exec\<close>) whose first character lies on a page that is not in memory aborts
  the kernel: the page fault brings the page in but puts the entry from before the fault, which is not valid, into the
  TLB, so the second attempt traps as well, and it is inside an \<open>ASSERT\<close>.\<close>

theorem GetFileName_absent_aborts:
  assumes "vm_ok s bm t sp x pt" "length (now (fenv env)) = 25" "v < length pt" "\<not> valid (pt ! v)" "uint a div 128 = int v" "frames s \<noteq> {..<32}"
    "tlb s = Some T" "length T = 4" "no_hit T (int v)" "0 \<le> Index s" "Index s < 4" "regs_ok (registers s)"
  shows "GetFileName env a s = Inl AssertFailed"
proof -
  obtain s1 s2 where r: "RaiseException (on_access env) (missed s) PageFaultException a = Inr s1" "RaiseException (on_access env) (missed s1) PageFaultException a = Inr s2"
    "\<exists>T. tlb s1 = Some T \<and> length T = 4 \<and> no_hit T (int v)"
    by (rule two_traps [OF assms]) blast
  have n: "no_hit T (uint a div 128)" using assms(5,9) by simp
  have "ReadMem (on_access env) s a 1 = Inr (False, 0, s1)" using ReadMem_miss [OF assms(7,8) n] r(1) by simp
  moreover have "ReadMem (on_access env) s1 a 1 = Inr (False, 0, s2)" using ReadMem_miss r(2,3) assms(5) by auto
  ultimately have "read_twice env a s = Inl AssertFailed" by (simp add: read_twice_def)
  then show ?thesis by (simp add: GetFileName_def FileNameMaxLen_def numeral_eq_Suc)
qed

text \<open>A byte that \<open>Read\<close> copies to a page that is not in memory is lost: both attempts to write it trap for the same
  reason, and the result of the second is not looked at. The page itself arrives from the virtual memory unchanged.\<close>

theorem Read_loses_byte:
  assumes "vm_ok s bm t sp x pt" "length (now (fenv env)) = 25" "v < length pt" "\<not> valid (pt ! v)" "uint a div 128 = int v" "frames s \<noteq> {..<32}"
    "tlb s = Some T" "length T = 4" "no_hit T (int v)" "0 \<le> Index s" "Index s < 4" "regs_ok (registers s)"
  shows "\<exists>s' p. copy_out env a [b] s = Inr s' \<and> pageTable s' = Some (pt[v := loaded (pt ! v) p]) \<and> page_bytes (mainMemory s') p = page_bytes (cont (fsys s) x) v"
proof -
  obtain s1 s2 p where r: "RaiseException (on_access env) (missed s) PageFaultException a = Inr s1" "RaiseException (on_access env) (missed s1) PageFaultException a = Inr s2"
    "\<exists>T. tlb s1 = Some T \<and> length T = 4 \<and> no_hit T (int v)" "pageTable s2 = Some (pt[v := loaded (pt ! v) p])"
    "page_bytes (mainMemory s2) p = page_bytes (cont (fsys s) x) v"
    by (rule two_traps [OF assms])
  have n: "no_hit T (uint a div 128)" using assms(5,9) by simp
  have "WriteMem (on_access env) s a 1 (scast b) = Inr (False, s1)" using WriteMem_miss [OF assms(7,8) n] r(1) by simp
  moreover have "WriteMem (on_access env) s1 a 1 (scast b) = Inr (False, s2)" using WriteMem_miss r(2,3) assms(5) by auto
  ultimately show ?thesis using r(4,5) by auto
qed

end
