(* ===== verification/SyscallFacts.thy ===== *)
theory SyscallFacts
  imports VmTraps
begin

text \<open>
  Witnesses and further properties of traps and system calls: what eviction does to a page that is still in
  the TLB, why \<open>ReplacePage\<close> writes nothing back, reading names from user memory and the system call \<open>Create\<close>.
\<close>

section \<open>Witnesses of the trap properties\<close>

definition empty_tlb :: "translation_entry list" where
  "empty_tlb = replicate 4 (absent 0)"

lemma sample_user_simps [simp]:
  "tlb (sample_user fs pt T b) = Some T" "registers (sample_user fs pt T b) = replicate 40 0" "Index (sample_user fs pt T b) = 0"
  "fsys (sample_user fs pt T b) = fs" "pageTable (sample_user fs pt T b) = Some pt" "mainMemory (sample_user fs pt T b) = replicate 4096 0"
  "frame_bitmap (sample_user fs pt T b) = b" "pageTableSize (sample_user fs pt T b) = int (length pt)"
  by (simp_all add: sample_user_def)

lemma empty_tlb [simp]: "length empty_tlb = 4" "no_hit empty_tlb v"
  by (simp_all add: empty_tlb_def no_hit_def absent_def)

lemma sample_frames: "frames (sample_user fs pt T 7) \<noteq> {..<32}" "frames (sample_user fs pt T (-1)) = {..<32}"
proof -
  have "\<not> bit (7 :: 32 word) 5" by simp
  then have "5 \<notin> frames (sample_user fs pt T 7)" by (simp add: frames_def)
  moreover have "(5 :: nat) \<in> {..<32}" by simp
  ultimately show "frames (sample_user fs pt T 7) \<noteq> {..<32}" by metis
  show "frames (sample_user fs pt T (-1)) = {..<32}" by (auto simp: frames_def)
qed

definition sample_uenv :: "tlb_policy \<Rightarrow> user_env" where
  "sample_uenv pol = \<lparr>fenv = sample_env, policy = pol, usable = (\<lambda>n. n)\<rparr>"

lemma sample_uenv [simp]: "fenv (sample_uenv pol) = sample_env" "length (now sample_env) = 25" "usable (sample_uenv pol) = (\<lambda>n. n)"
  by (simp_all add: sample_uenv_def sample_env_def)

lemma sample_regs: "regs_ok (replicate 40 0)"
  by (simp add: regs_ok_def)

theorem GetFileName_absent_aborts_witness:
  "\<exists>fs. GetFileName (sample_uenv USE_CLOCK) 130 (sample_user fs [absent 0, absent 1] empty_tlb 7) = Inl AssertFailed"
proof -
  obtain fs bm t x where "\<And>pt T b. length pt = 2 \<Longrightarrow> vm_ok (sample_user fs pt T b) bm t sample_space x pt" by (rule sample_vm_ok) blast
  then have V: "vm_ok (sample_user fs [absent 0, absent 1] empty_tlb 7) bm t sample_space x [absent 0, absent 1]" by simp
  have "\<not> valid ([absent 0, absent 1] ! 1)" by (simp add: absent_def)
  then show ?thesis
    using GetFileName_absent_aborts [OF V, of "sample_uenv USE_CLOCK" 1 130 empty_tlb] sample_frames(1) sample_regs by (intro exI [of _ fs]) simp
qed

theorem Read_loses_byte_witness:
  "\<exists>fs bm t x s' p. vm_ok (sample_user fs [absent 0, absent 1] empty_tlb 7) bm t sample_space x [absent 0, absent 1]
    \<and> copy_out (sample_uenv USE_FIFO) 130 [65] (sample_user fs [absent 0, absent 1] empty_tlb 7) = Inr s'
    \<and> page_bytes (mainMemory s') p = page_bytes (cont fs x) 1"
proof -
  obtain fs bm t x where "\<And>pt T b. length pt = 2 \<Longrightarrow> vm_ok (sample_user fs pt T b) bm t sample_space x pt" by (rule sample_vm_ok) blast
  then have V: "vm_ok (sample_user fs [absent 0, absent 1] empty_tlb 7) bm t sample_space x [absent 0, absent 1]" by simp
  have "\<not> valid ([absent 0, absent 1] ! 1)" by (simp add: absent_def)
  then obtain s' p where "copy_out (sample_uenv USE_FIFO) 130 [65] (sample_user fs [absent 0, absent 1] empty_tlb 7) = Inr s'"
      "page_bytes (mainMemory s') p = page_bytes (cont fs x) 1"
    using Read_loses_byte [OF V, of "sample_uenv USE_FIFO" 1 130 empty_tlb 65] sample_frames(1) sample_regs by auto
  then show ?thesis using V by blast
qed

section \<open>Eviction\<close>

text \<open>When all frames are taken, a page fault evicts the first page that is in memory without saving it and without
  removing it from the TLB: an access to the evicted page that hits in the TLB then reads the bytes of the page that was
  brought in, and no file has changed.\<close>

theorem evicted_page_still_mapped:
  assumes "vm_ok s bm t sp x pt" "length (now (fenv env)) = 25" "v < length pt" "\<not> valid (pt ! v)" "frames s = {..<32}" "never_dirty pt"
    "first_valid pt i" "physicalPage (pt ! i) = int p" "p < 32" "tlb s = Some T" "length T = 4" "hit_at T (int i) k" "physicalPage (T ! k) = int p"
    "\<not> readOnly (T ! k)" "uint a div 128 = int i"
  shows "\<exists>s'. PageFaultHandler (fenv env) (int v) s = Inr s' \<and> pageTable s' = Some (pt[i := (pt ! i)\<lparr>valid := False\<rparr>, v := loaded (pt ! v) p])
    \<and> same_files (fsys s) (fsys s') t \<and> ReadMem h s' a 1 = Inr (True, scast (page_bytes (cont (fsys s) x) v ! nat (uint a mod 128)), used_at s' k False)"
proof -
  obtain s' where f: "PageFaultHandler (fenv env) (int v) s = Inr s'" "vm_ok s' bm t sp x (pt[i := (pt ! i)\<lparr>valid := False\<rparr>, v := loaded (pt ! v) p])"
    "page_bytes (mainMemory s') p = page_bytes (cont (fsys s) x) v" "same_files (fsys s) (fsys s') t" "tlb s' = tlb s"
    by (rule evicting_fault [OF assms(1-9)])
  have "tlb s' = Some T" "hit_at T (uint a div 128) k" using f(5) assms(10,12,15) by simp_all
  from ReadMem_hit [OF this(1) assms(11) this(2) assms(13,9,14) vm_okD(8) [OF f(2)], of h]
  show ?thesis using f(1,3,4) vm_okD(5) [OF f(2)] by auto
qed

theorem evicted_page_still_mapped_witness:
  "\<exists>fs bm t x s' k. vm_ok (sample_user fs [page 0 3, absent 1] [page 0 3, absent 0, absent 0, absent 0] (-1)) bm t sample_space x [page 0 3, absent 1]
    \<and> PageFaultHandler sample_env (int 1) (sample_user fs [page 0 3, absent 1] [page 0 3, absent 0, absent 0, absent 0] (-1)) = Inr s'
    \<and> ReadMem (on_access (sample_uenv USE_FIFO)) s' 17 1 = Inr (True, scast (page_bytes (cont fs x) 1 ! 17), used_at s' k False)"
proof -
  let ?pt = "[page 0 3, absent 1]" and ?T = "[page 0 3, absent 0, absent 0, absent 0]"
  obtain fs bm t x where "\<And>pt T b. length pt = 2 \<Longrightarrow> vm_ok (sample_user fs pt T b) bm t sample_space x pt" by (rule sample_vm_ok) blast
  then have V: "vm_ok (sample_user fs ?pt ?T (-1)) bm t sample_space x ?pt" by simp
  have P: "\<not> valid (?pt ! 1)" "never_dirty ?pt" "first_valid ?pt 0" "physicalPage (?pt ! 0) = int 3" "hit_at ?T (int 0) 0" "physicalPage (?T ! 0) = int 3" "\<not> readOnly (?T ! 0)"
    by (simp_all add: absent_def page_def never_dirty_def first_valid_def hit_at_def tlb_hit_def u32_def)
  have a: "uint (17 :: 32 word) div 128 = int 0" "nat (uint (17 :: 32 word) mod 128) = 17" by simp_all
  obtain s' where "PageFaultHandler sample_env (int 1) (sample_user fs ?pt ?T (-1)) = Inr s'"
    "ReadMem (on_access (sample_uenv USE_FIFO)) s' 17 1 = Inr (True, scast (page_bytes (cont fs x) 1 ! 17), used_at s' 0 False)"
    using evicted_page_still_mapped [OF V _ _ P(1) sample_frames(2) P(2-4) _ _ _ P(5-7) a(1), of "sample_uenv USE_FIFO" "on_access (sample_uenv USE_FIFO)"] a(2)
    by auto
  then show ?thesis using V by blast
qed

text \<open>While no entry of the table is dirty, \<open>ReplacePage\<close> takes the first page that is there, and the files and the memory stay as they are.\<close>

theorem ReplacePage_never_writes:
  assumes "clean_table s" "pageTable s = Some pt" "pageTableSize s = int (length pt)" "first_valid pt i"
  shows "\<exists>s'. ReplacePage env s = Inr (physicalPage (pt ! i), s') \<and> pageTable s' = Some (pt[i := (pt ! i)\<lparr>valid := False\<rparr>])
    \<and> fsys s' = fsys s \<and> mainMemory s' = mainMemory s \<and> tlb s' = tlb s"
  using ReplacePage_first [OF assms(2,3) _ assms(4), of env] assms(1,2) by (simp add: clean_table_def)

theorem ReplacePage_never_writes_witness:
  "\<exists>fs s'. ReplacePage sample_env (sample_user fs [absent 0, page 1 3] empty_tlb 8) = Inr (3, s') \<and> fsys s' = fs"
proof -
  have "clean_table (sample_user fs [absent 0, page 1 3] empty_tlb 8)" "first_valid [absent 0, page 1 3] 1" "physicalPage ([absent 0, page 1 3] ! 1) = 3" for fs
    by (simp_all add: clean_table_def never_dirty_def page_def absent_def first_valid_def)
  then show ?thesis
    using ReplacePage_never_writes [of "sample_user undefined [absent 0, page 1 3] empty_tlb 8" "[absent 0, page 1 3]" 1 sample_env]
    by (metis One_nat_def length_Cons list.size(3) sample_user_simps(4,5,8))
qed

section \<open>Names in user memory\<close>

text \<open>Only the TLB and the counter of translations have changed.\<close>

definition tlb_only :: "user_machine \<Rightarrow> user_machine \<Rightarrow> bool" where
  "tlb_only s s' \<longleftrightarrow> s' = s\<lparr>totalcnt := totalcnt s', tlb := tlb s'\<rparr>"

text \<open>Page \<open>vpn\<close> is in the TLB, mapped to frame \<open>p\<close>.\<close>

definition mapped :: "user_machine \<Rightarrow> int \<Rightarrow> nat \<Rightarrow> bool" where
  "mapped s vpn p \<longleftrightarrow> p < 32 \<and> length (mainMemory s) = 4096 \<and> (\<exists>T k. tlb s = Some T \<and> length T = 4 \<and> hit_at T vpn k
     \<and> physicalPage (T ! k) = int p \<and> \<not> readOnly (T ! k))"

lemma tlb_only_fields:
  assumes "tlb_only s s'"
  shows "mainMemory s' = mainMemory s" "registers s' = registers s" "fsys s' = fsys s" "tid s' = tid s" "opened s' = opened s" "cout s' = cout s"
    "space s' = space s"
proof -
  obtain c T where "s' = s\<lparr>totalcnt := c, tlb := T\<rparr>" using assms unfolding tlb_only_def by blast
  then show "mainMemory s' = mainMemory s" "registers s' = registers s" "fsys s' = fsys s" "tid s' = tid s" "opened s' = opened s" "cout s' = cout s"
    "space s' = space s" by simp_all
qed

lemma tlb_only_refl: "tlb_only s s"
  by (simp add: tlb_only_def)

lemma tlb_only_trans:
  assumes "tlb_only s s1" "tlb_only s1 s2" shows "tlb_only s s2"
proof -
  obtain c T where 1: "s1 = s\<lparr>totalcnt := c, tlb := T\<rparr>" using assms(1) unfolding tlb_only_def by blast
  obtain c' T' where 2: "s2 = s1\<lparr>totalcnt := c', tlb := T'\<rparr>" using assms(2) unfolding tlb_only_def by blast
  show ?thesis unfolding tlb_only_def 2 1 by simp
qed

lemma read_mapped:
  assumes m: "mapped s (uint a div 128) p"
  obtains s' where "ReadMem h s a 1 = Inr (True, scast (page_bytes (mainMemory s) p ! nat (uint a mod 128)), s')" "tlb_only s s'" "mapped s' (uint a div 128) p"
proof -
  obtain T k where T: "tlb s = Some T" "length T = 4" "hit_at T (uint a div 128) k" "physicalPage (T ! k) = int p" "\<not> readOnly (T ! k)"
    and p: "p < 32" "length (mainMemory s) = 4096" using m by (auto simp: mapped_def)
  let ?T = "T[k := (T ! k)\<lparr>use := True, dirty := dirty (T ! k) \<or> False\<rparr>]"
  have k: "k < 4" using T(3) by (simp add: hit_at_def)
  have "tlb_hit ?T v j = tlb_hit T v j" for v j by (cases "nat j = k") (auto simp: tlb_hit_def nth_list_update)
  then have "hit_at ?T (uint a div 128) k" using T(3) by (simp add: hit_at_def)
  then have "mapped (used_at s k False) (uint a div 128) p" using T p k unfolding mapped_def used_at_def by (auto intro!: exI [of _ ?T] exI [of _ k])
  moreover have "tlb_only s (used_at s k False)" using T(1) by (simp add: tlb_only_def used_at_def)
  ultimately show ?thesis using ReadMem_hit [OF T(1-4) p(1) T(5) p(2), of h] by (intro that [of "used_at s k False"])
qed

lemma next128:
  assumes "(x :: int) mod 128 < 127"
  shows "(x + 1) div 128 = x div 128" "(x + 1) mod 128 = x mod 128 + 1"
proof -
  define q r where "q = x div 128" and "r = x mod 128"
  have r: "0 \<le> r" "r < 127" using assms by (simp_all add: r_def)
  have e: "x = q * 128 + r" by (simp add: q_def r_def)
  have x: "x + 1 = 128 * q + (r + 1)" "0 \<le> r + 1" "r + 1 < 128" using e r by simp_all
  have "(x + 1) div 128 = q \<and> (x + 1) mod 128 = r + 1" using int_div_pos_eq [OF x] int_mod_pos_eq [OF x] by simp
  then show "(x + 1) div 128 = x div 128" "(x + 1) mod 128 = x mod 128 + 1" by (simp_all add: q_def r_def)
qed

lemma offset_next:
  assumes "uint (a :: 32 word) mod 128 < 127"
  shows "uint (a + 1) div 128 = uint a div 128" "uint (a + 1) mod 128 = uint a mod 128 + 1"
proof -
  have "uint a < 4294967296" using uint_bounded [of a] by simp
  moreover have "uint a \<noteq> 4294967295" using assms by auto
  ultimately have "uint a + 1 < 4294967296" by linarith
  then have "uint (a + 1) = uint a + 1" using uint_add_lem [of a 1] by simp
  then show "uint (a + 1) div 128 = uint a div 128" "uint (a + 1) mod 128 = uint a mod 128 + 1" using next128 [OF assms] by simp_all
qed

text \<open>A string of zero-terminated bytes from an address on, within one page.\<close>

definition string_at :: "byte list \<Rightarrow> int \<Rightarrow> byte list \<Rightarrow> bool" where
  "string_at m off cs \<longleftrightarrow> 0 \<le> off \<and> off + int (length cs) < 128 \<and> (\<forall>i < length cs. m ! (nat off + i) = cs ! i) \<and> m ! (nat off + length cs) = 0 \<and> 0 \<notin> set cs"

lemma string_at_Cons:
  assumes "string_at m off (c # cs)"
  shows "m ! nat off = c" "c \<noteq> 0" "off < 127" "string_at m (off + 1) cs"
proof -
  have r: "0 \<le> off" "off + 1 + int (length cs) < 128" using assms by (simp_all add: string_at_def)
  have e: "\<forall>i < Suc (length cs). m ! (nat off + i) = (c # cs) ! i" using assms by (simp add: string_at_def)
  show "m ! nat off = c" using e [rule_format, of 0] by simp
  show "c \<noteq> 0" "off < 127" using assms r by (auto simp: string_at_def)
  have "nat (off + 1) = Suc (nat off)" using r(1) by linarith
  then show "string_at m (off + 1) cs" using assms r e [rule_format, of "Suc i" for i] by (auto simp: string_at_def)
qed

lemma ucast_scast: "ucast (scast (b :: byte) :: 32 word) = b"
  by (rule bit_word_eqI) (auto simp: bit_simps)

lemma scast_zero: "scast (b :: byte) = (0 :: 32 word) \<longleftrightarrow> b = 0"
  using ucast_scast [of b] by auto

lemma get_name_reads:
  "mapped s (uint a div 128) p \<Longrightarrow> string_at (page_bytes (mainMemory s) p) (uint a mod 128) cs \<Longrightarrow> length cs < n \<Longrightarrow>
   \<exists>s'. get_name env n a s = Inr (cs, s') \<and> tlb_only s s' \<and> mapped s' (uint a div 128) p"
proof (induction cs arbitrary: n a s)
  case Nil
  obtain s' where r: "ReadMem (on_access env) s a 1 = Inr (True, scast (page_bytes (mainMemory s) p ! nat (uint a mod 128)), s')"
    "tlb_only s s'" "mapped s' (uint a div 128) p" by (rule read_mapped [OF Nil(1)])
  have "page_bytes (mainMemory s) p ! nat (uint a mod 128) = 0" using Nil(2) by (simp add: string_at_def)
  then show ?case using r Nil(3) by (cases n) (auto simp: read_twice_def)
next
  case (Cons c cs)
  note S = string_at_Cons [OF Cons.prems(2)]
  obtain s' where r: "ReadMem (on_access env) s a 1 = Inr (True, scast (page_bytes (mainMemory s) p ! nat (uint a mod 128)), s')"
    and t: "tlb_only s s'" and m: "mapped s' (uint a div 128) p" by (rule read_mapped [OF Cons.prems(1)])
  obtain k where n: "n = Suc k" "length cs < k" using Cons.prems(3) by (cases n) auto
  have o: "uint (a + 1) div 128 = uint a div 128" "uint (a + 1) mod 128 = uint a mod 128 + 1" using offset_next [of a] S(3) by simp_all
  have "mapped s' (uint (a + 1) div 128) p" "string_at (page_bytes (mainMemory s') p) (uint (a + 1) mod 128) cs"
    using m S(4) tlb_only_fields(1) [OF t] unfolding o by simp_all
  then obtain s2 where g: "get_name env k (a + 1) s' = Inr (cs, s2)" "tlb_only s' s2" "mapped s2 (uint (a + 1) div 128) p"
    using Cons.IH n(2) by blast
  have "get_name env n a s = Inr (c # cs, s2)" using r g(1) S(1,2) scast_zero [of c] ucast_scast [of c] by (simp add: n read_twice_def)
  then show ?case using tlb_only_trans [OF t g(2)] g(3) o(1) by simp
qed

text \<open>\<open>GetFileName\<close> returns the zero-terminated string at the address, up to 84 characters on a page that the TLB maps, and
  changes nothing but the TLB's use bits and the count of translations.\<close>

theorem GetFileName_reads:
  assumes "mapped s (uint a div 128) p" "string_at (page_bytes (mainMemory s) p) (uint a mod 128) cs" "length cs \<le> 84"
  shows "\<exists>s'. GetFileName env a s = Inr (cs, s') \<and> tlb_only s s'"
  using get_name_reads [OF assms(1,2), of 85 env] assms(3) by (auto simp: GetFileName_def FileNameMaxLen_def)

text \<open>A program whose page 0 holds the string ``hello'' at its beginning, in frame 0.\<close>

definition sample_caller :: "file_system \<Rightarrow> byte list \<Rightarrow> user_machine" where
  "sample_caller fs cs = (sample_user fs [page 0 0, absent 1] (replicate 4 (page 0 0)) 1)\<lparr>mainMemory := cs @ replicate (4096 - length cs) 0\<rparr>"

lemma sample_caller:
  assumes "length cs \<le> 84" "0 \<notin> set cs"
  shows "mapped (sample_caller fs cs) 0 0" "string_at (page_bytes (mainMemory (sample_caller fs cs)) 0) 0 cs"
    "registers (sample_caller fs cs) = replicate 40 0" "fsys (sample_caller fs cs) = fs"
proof -
  have h: "hit_at (replicate 4 (page 0 0)) 0 0" by (simp add: hit_at_def tlb_hit_def page_def u32_def)
  have "replicate 4 (page 0 0) ! 0 = page 0 0" by simp
  then show "mapped (sample_caller fs cs) 0 0" using h assms(1) unfolding mapped_def
    by (intro conjI exI [of _ "replicate 4 (page 0 0)"] exI [of _ 0]) (simp_all add: sample_caller_def page_def)
  show "string_at (page_bytes (mainMemory (sample_caller fs cs)) 0) 0 cs"
    using assms by (simp add: string_at_def page_bytes_def sample_caller_def nth_append)
  show "registers (sample_caller fs cs) = replicate 40 0" "fsys (sample_caller fs cs) = fs" by (simp_all add: sample_caller_def)
qed

theorem GetFileName_reads_witness:
  "\<exists>fs s'. GetFileName (sample_uenv USE_FIFO) 0 (sample_caller fs [104, 101, 108, 108, 111]) = Inr ([104, 101, 108, 108, 111], s')"
proof -
  have c: "length [104, 101, 108, 108, 111 :: byte] \<le> 84" "0 \<notin> set [104, 101, 108, 108, 111 :: byte]" by simp_all
  have "mapped (sample_caller undefined [104, 101, 108, 108, 111]) (uint (0 :: 32 word) div 128) 0"
    "string_at (page_bytes (mainMemory (sample_caller undefined [104, 101, 108, 108, 111])) 0) (uint (0 :: 32 word) mod 128) [104, 101, 108, 108, 111]"
    using sample_caller(1,2) [OF c, of undefined] by simp_all
  from GetFileName_reads [OF this c(1), of "sample_uenv USE_FIFO"] show ?thesis by blast
qed

section \<open>The system call Create\<close>

definition advanced :: "32 word list \<Rightarrow> 32 word list" where
  "advanced rs = rs[36 := rs ! 34, 34 := rs ! 35, 35 := rs ! 35 + 4]"

lemma IncreasePC_ok: "length (registers s) = 40 \<Longrightarrow> IncreasePC s = Inr (s\<lparr>registers := advanced (registers s)\<rparr>)"
  by (auto simp: IncreasePC_def ReadRegister_def WriteRegister_def NumTotalRegs_def aget_def aset_def advanced_def)

text \<open>C10: The system call \<open>Create\<close> with a new name, in mapped memory, makes an empty file of that name and moves on to the
  next instruction.\<close>

theorem CreateHandler_creates:
  assumes "fs_ok (fsys s) bm t" "env_ok (fenv env)" "length (registers s) = 40" "mapped s (uint (registers s ! 4) div 128) p"
    "string_at (page_bytes (mainMemory s) p) (uint (registers s ! 4) mod 128) cs" "length cs \<le> 84" "slash \<notin> set cs"
    "dir_map t (key cs) = None" "card (dom (dir_map t)) < 10" "0 < card (bm.free bm)" "length (cstr (GetFileExtension cs)) \<le> 4"
  shows "\<exists>s' bm' t'. CreateHandler env s = Inr s' \<and> fs_ok (fsys s') bm' t' \<and> dom (dir_map t') = insert (key cs) (dom (dir_map t))
    \<and> files (fsys s') t' (key cs) = Some [] \<and> (\<forall>k. key k \<noteq> key cs \<longrightarrow> files (fsys s') t' (key k) = files (fsys s) t (key k))
    \<and> registers s' = advanced (registers s)"
proof -
  obtain s1 where n: "GetFileName env (registers s ! 4) s = Inr (cs, s1)" and t1: "tlb_only s s1"
    using get_name_reads [OF assms(4,5), of 85 env] assms(6) by (auto simp: GetFileName_def FileNameMaxLen_def)
  note F = tlb_only_fields [OF t1]
  have z: "(0 :: int) \<le> 0 \<or> (0 :: int) = -1" "(0 :: nat) = nat (divRoundUp (if (0 :: int) = -1 then 960 else 0) SectorSize)"
    by (simp_all add: divRoundUp_def SectorSize_def)
  have room: "0 + index_sectors 0 < card (bm.free bm)" using assms(10) by (simp add: index_sectors_def)
  obtain fs' bm' t' x where c: "Create (fenv env) (fsys s) cs 0 = Inr (True, fs')" "fs_ok fs' bm' t'" "dir_map t' = (dir_map t)(key cs \<mapsto> x)"
    "numBytes (hdr_at (sectors (fdisk fs')) x) = (if (0 :: int) = -1 then 960 else 0)" "kept_files {0, 1} (sectors (fdisk (fsys s))) (sectors (fdisk fs')) (all_files t)"
    by (rule Create_root [OF assms(1,2,7) z assms(8,9) room assms(11)])
  have x: "dir_map t' (key cs) = Some x" using c(3) by simp
  have "int (length (cont fs' x)) = 0" using user_file_open(2) [OF c(2) listed_sector(1) [OF c(2) x]] c(4) by simp
  then have e: "files fs' t' (key cs) = Some []" by (simp add: files_cont x)
  have o: "files fs' t' (key k) = files (fsys s) t (key k)" if "key k \<noteq> key cs" for k
    using files_kept [OF assms(1) c(5), of t'] c(3) that by simp
  have "CreateHandler env s = Inr (s1\<lparr>fsys := fs', registers := advanced (registers s)\<rparr>)"
    using n c(1) IncreasePC_ok [of "s1\<lparr>fsys := fs'\<rparr>"] assms(3) F by (simp add: CreateHandler_def ReadRegister_def NumTotalRegs_def aget_def)
  moreover have "dom (dir_map t') = insert (key cs) (dom (dir_map t))" using c(3) by simp
  ultimately show ?thesis using c(2) e o by (intro exI [of _ "s1\<lparr>fsys := fs', registers := advanced (registers s)\<rparr>"] exI [of _ bm'] exI [of _ t']) simp
qed

theorem CreateHandler_creates_witness:
  "\<exists>fs bm t s' t'. fs_ok fs bm t \<and> CreateHandler (sample_uenv USE_FIFO) (sample_caller fs [104, 105]) = Inr s' \<and> files (fsys s') t' [104, 105] = Some []"
proof -
  obtain fs bm where f: "fs_ok fs bm (new_Directory sample_env)" "card (bm.free bm) = 1012" by (rule formatted)
  let ?s = "sample_caller fs [104, 105]"
  have c: "length [104, 105 :: byte] \<le> 84" "0 \<notin> set [104, 105 :: byte]" by simp_all
  note S = sample_caller [OF c, of fs]
  have r: "registers ?s ! 4 = 0" by (simp add: S(3))
  have P: "mapped ?s (uint (registers ?s ! 4) div 128) 0" "string_at (page_bytes (mainMemory ?s) 0) (uint (registers ?s ! 4) mod 128) [104, 105]"
    using S(1,2) unfolding r by simp_all
  have Q: "fs_ok (fsys ?s) bm (new_Directory sample_env)" "env_ok (fenv (sample_uenv USE_FIFO))" "length (registers ?s) = 40"
    "dir_map (new_Directory sample_env) (key [104, 105]) = None" "card (dom (dir_map (new_Directory sample_env))) < 10" "0 < card (bm.free bm)"
    "length (cstr (GetFileExtension [104, 105])) \<le> 4"
    using f S(3,4) sample_env_ok by (simp_all add: new_Directory_empty key_hi cstr_def)
  obtain s' bm' t' where "CreateHandler (sample_uenv USE_FIFO) ?s = Inr s'" "files (fsys s') t' (key [104, 105]) = Some []"
    using CreateHandler_creates [OF Q(1-3) P c(1) key_hi(3) Q(4-7)] by blast
  then show ?thesis using f(1) unfolding key_hi(2) by blast
qed

end
