(* ===== verification/Loading.thy ===== *)
theory Loading
  imports SyscallFacts
begin

text \<open>
  Loading a program: a new address space has a file of virtual memory that holds the program's image, and no
  page in memory.
\<close>

section \<open>Names of virtual memory\<close>

lemma decimal_digits: "c \<in> set (decimal n) \<Longrightarrow> \<exists>d < 10. c = 48 + of_nat d"
proof (induction n rule: decimal.induct)
  case (1 n)
  show ?case
  proof (cases "n < 10")
    case True
    then show ?thesis using 1(2) by (auto simp: decimal.simps [of n])
  next
    case False
    then have "c \<in> set (decimal (n div 10)) \<or> c = 48 + of_nat (n mod 10)" using 1(2) by (auto simp: decimal.simps [of n])
    moreover have "n mod 10 < 10" by simp
    ultimately show ?thesis using 1(1) [OF False] by blast
  qed
qed

lemma digit_not: "d < 10 \<Longrightarrow> (48 + of_nat d :: byte) \<noteq> slash \<and> (48 + of_nat d :: byte) \<noteq> dot"
proof -
  assume "d < 10"
  then have "d \<in> {0, 1, 2, 3, 4, 5, 6, 7, 8, 9}" by auto
  then show ?thesis by auto
qed

lemma vm_name_plain: "slash \<notin> set (vm_name n)" "dot \<notin> set (vm_name n)"
  using decimal_digits [of _ n] digit_not by (fastforce simp: vm_name_def)+

lemma no_dot_extension: "dot \<notin> set nm \<Longrightarrow> GetFileExtension nm = []"
proof -
  assume "dot \<notin> set nm"
  then have "dropWhile (\<lambda>x. x \<noteq> dot) (rev nm) = []" by (auto simp: dropWhile_eq_Nil_conv)
  then show ?thesis by (simp only: GetFileExtension_def upto_last_def Let_def) simp
qed

section \<open>The image of a program\<close>

definition put_segment :: "byte list \<Rightarrow> segment \<Rightarrow> byte list \<Rightarrow> byte list" where
  "put_segment c g buf = (if segSize g > 0 then overlay buf (nat (virtualAddr g)) (take (nat (segSize g)) (drop (nat (inFileAddr g)) c)) else buf)"

definition image :: "byte list \<Rightarrow> noff_header \<Rightarrow> nat \<Rightarrow> byte list" where
  "image c h n = put_segment c (initData h) (put_segment c (code h) (replicate n 0))"

definition segment_ok :: "byte list \<Rightarrow> nat \<Rightarrow> segment \<Rightarrow> bool" where
  "segment_ok c n g \<longleftrightarrow> (segSize g > 0 \<longrightarrow> 0 \<le> inFileAddr g \<and> inFileAddr g + segSize g \<le> int (length c)
     \<and> 0 \<le> virtualAddr g \<and> virtualAddr g + segSize g \<le> int n)"

lemma length_put_segment: "segment_ok c (length buf) g \<Longrightarrow> length (put_segment c g buf) = length buf"
  by (auto simp: put_segment_def segment_ok_def overlay_def)

lemma length_image: "segment_ok c n (code h) \<Longrightarrow> segment_ok c n (initData h) \<Longrightarrow> length (image c h n) = n"
  using length_put_segment [of c "put_segment c (code h) (replicate n 0)" "initData h"] length_put_segment [of c "replicate n 0" "code h"] by (simp add: image_def)

lemma load_segment_ok:
  assumes ok: "fs_ok (fsys s) bm t" and y: "y \<in> set (file_list t)" and f: "held (fsys s) y exe" and env: "length (now env) = 25"
    and g: "segment_ok (cont (fsys s) y) (length buf) g"
  obtains exe' where "load_segment env g exe s buf = Inr (exe', put_segment (cont (fsys s) y) g buf)" "held (fsys s) y exe'"
proof (cases "segSize g > 0")
  case True
  then have g': "0 \<le> inFileAddr g" "inFileAddr g + segSize g \<le> int (length (cont (fsys s) y))" "0 \<le> virtualAddr g" "virtualAddr g + segSize g \<le> int (length buf)"
    using g by (simp_all add: segment_ok_def)
  obtain exe' where r: "ReadAt env exe (sectors (fdisk (fsys s))) (segSize g) (inFileAddr g) = Inr (take (nat (segSize g)) (drop (nat (inFileAddr g)) (cont (fsys s) y)), exe')"
    and h: "held (fsys s) y exe'" by (rule read_held [OF ok y f env g'(1)])
  have "int (length (take (nat (segSize g)) (drop (nat (inFileAddr g)) (cont (fsys s) y)))) = segSize g" using g'(1,2) True by simp
  then show ?thesis using that [OF _ h] r True g' by (simp add: load_segment_def put_bytes_def put_segment_def)
next
  case False
  then show ?thesis using that [of exe] f by (simp add: load_segment_def put_segment_def)
qed

lemma held_kept:
  assumes "held fs y f" "kept_files X (sectors (fdisk fs)) (sectors (fdisk fs')) ss" "y \<in> set ss"
  shows "held fs' y f"
  unfolding held_def Let_def
  by (simp add: keptD(3) [OF assms(2,3)] heldD [OF assms(1)] same_file_trans [OF same_file_sym [OF keptD(2) [OF assms(2,3)]] heldD(1) [OF assms(1)]])

lemma read_noff_ok:
  assumes ok: "fs_ok (fsys s) bm t" and y: "y \<in> set (file_list t)" and f: "held (fsys s) y exe" and env: "length (now env) = 25"
    and c: "40 \<le> length (cont (fsys s) y)" "noffMagic (noff_of (cont (fsys s) y)) = NOFFMAGIC"
  obtains exe' where "read_noff env exe s = Inr (noff_of (cont (fsys s) y), exe')" "held (fsys s) y exe'"
proof -
  let ?c = "cont (fsys s) y"
  obtain exe' where r: "ReadAt env exe (sectors (fdisk (fsys s))) 40 0 = Inr (take (nat 40) (drop (nat 0) ?c), exe')" and h: "held (fsys s) y exe'"
    by (rule read_held [OF ok y f env order_refl])
  have "un_ints 10 (take 40 ?c) = un_ints 10 ?c" by (simp add: numeral_eq_Suc take_drop [symmetric] drop_take)
  then have "noff_of (take 40 ?c) = noff_of ?c" by (simp add: noff_of_def)
  moreover have "overlay (map (\<lambda>k. ucast (heap_junk env k)) [0..<40]) 0 (take 40 ?c) = take 40 ?c" using c(1) by (simp add: overlay_def)
  ultimately have "read_noff env exe s = Inr (noff_of ?c, exe')" using r c(2) by (simp add: read_noff_def noff_size_def Let_def)
  then show ?thesis using h by (rule that)
qed

text \<open>Opening the new file, copying the image into it and closing it.\<close>

lemma fill_vm_ok:
  assumes ok: "fs_ok (fsys s) bm t" and y: "y \<in> set (file_list t)" and f: "held (fsys s) y exe" and env: "length (now env) = 25"
    and nm: "slash \<notin> set nm" "dir_map t (key nm) = Some x" "x \<noteq> y" and n: "0 < n" "n \<le> length (cont (fsys s) x)"
    and g: "segment_ok (cont (fsys s) y) n (code h)" "segment_ok (cont (fsys s) y) n (initData h)"
  obtains exe' fs' where "fill_vm env nm h (int n) exe s = Inr (exe', s\<lparr>fsys := fs'\<rparr>)" "fs_ok fs' bm t" "held fs' y exe'"
    "cont fs' x = overlay (cont (fsys s) x) 0 (image (cont (fsys s) y) h n)" "\<And>z. z \<in> set (all_files t) \<Longrightarrow> z \<noteq> x \<Longrightarrow> cont fs' z = cont (fsys s) z"
    "visitorCnt (fdisk fs') = visitorCnt (fdisk (fsys s))"
proof -
  let ?c = "cont (fsys s) y"
  have x: "x \<in> set (file_list t)" by (rule listed_sector(1) [OF ok nm(2)])
  obtain vm fs1 where o: "Open env (fsys s) nm = Inr (Some vm, fs1)" and ok1: "fs_ok fs1 bm t" and v: "held fs1 x vm" and d1: "fdisk fs1 = visits (fdisk (fsys s)) x 1"
    and c1: "\<And>z. cont fs1 z = cont (fsys s) z" by (rule Open_held [where env = env, OF ok nm(1,2)]) blast
  let ?s1 = "s\<lparr>fsys := fs1\<rparr>"
  have e1: "held (fsys ?s1) y exe" "fs_ok (fsys ?s1) bm t" using held_visits(2) [OF f, of fs1] ok1 by (simp_all add: d1)
  have g1: "segment_ok (cont (fsys ?s1) y) (length (replicate n (0::byte))) (code h)" using g(1) c1 by simp
  obtain exe2 where l1: "load_segment env (code h) exe ?s1 (replicate n 0) = Inr (exe2, put_segment (cont (fsys ?s1) y) (code h) (replicate n 0))" and e2: "held (fsys ?s1) y exe2"
    by (rule load_segment_ok [OF e1(2) y e1(1) env g1])
  let ?b1 = "put_segment (cont (fsys ?s1) y) (code h) (replicate n 0)"
  have lb: "length ?b1 = n" using length_put_segment [OF g1] by simp
  have g2: "segment_ok (cont (fsys ?s1) y) (length ?b1) (initData h)" using g(2) c1 lb by simp
  obtain exe3 where l2: "load_segment env (initData h) exe2 ?s1 ?b1 = Inr (exe3, put_segment (cont (fsys ?s1) y) (initData h) ?b1)" and e3: "held (fsys ?s1) y exe3"
    by (rule load_segment_ok [OF e1(2) y e2 env g2])
  let ?im = "image ?c h n"
  have im: "put_segment (cont (fsys ?s1) y) (initData h) ?b1 = ?im" "length ?im = n" using c1 length_put_segment [OF g2] lb by (simp_all add: image_def)
  have w: "?im \<noteq> []" "(0 :: int) + int (length ?im) \<le> int (length (cont fs1 x))" "int n = int (length ?im)" using im(2) n c1 by auto
  obtain vm' d where wr: "WriteAt write_depth env vm (fdisk fs1) ?im (int n) 0 = Inr (int n, vm', d)" and ok2: "fs_ok (with_fdisk fs1 d) bm t"
    and v2: "held (with_fdisk fs1 d) x vm'" and c2: "cont (with_fdisk fs1 d) x = overlay (cont fs1 x) (nat 0) ?im"
    and k2: "\<And>z. z \<in> set (all_files t) \<Longrightarrow> z \<noteq> x \<Longrightarrow> cont (with_fdisk fs1 d) z = cont fs1 z" and vc: "visitorCnt d = visitorCnt (fdisk fs1)"
    and h2: "\<And>z g. z \<in> set (all_files t) \<Longrightarrow> held fs1 z g \<Longrightarrow> held (with_fdisk fs1 d) z g"
    by (rule write_held [where fuel = write_depth, OF ok1 x v env order_refl w]) blast
  obtain d' where cl: "OpenFile_delete vm' (fdisk (with_fdisk fs1 d)) = Inr d'" and ok3: "fs_ok (with_fdisk (with_fdisk fs1 d) d') bm t"
    and c3: "\<And>z. z \<in> set (all_files t) \<Longrightarrow> cont (with_fdisk (with_fdisk fs1 d) d') z = cont (with_fdisk fs1 d) z"
    and vc3: "visitorCnt d' = visitorCnt (visits (fdisk (with_fdisk fs1 d)) x (-1))"
    and h3: "\<And>z g. z \<in> set (all_files t) \<Longrightarrow> held (with_fdisk fs1 d) z g \<Longrightarrow> held (with_fdisk (with_fdisk fs1 d) d') z g"
    by (rule close_held [OF ok2 x v2]) blast
  have ya: "y \<in> set (all_files t)" "x \<in> set (all_files t)" using x y by simp_all
  have "visits (fdisk fs1) x (-1) = fdisk (fsys s)"
    unfolding d1 by (rule visits_back) (use user_file(2,3) [OF ok x] fs_okD(2) [OF ok] in \<open>simp_all add: disk_consts\<close>)
  moreover have "visitorCnt (visits d x (-1)) = visitorCnt (visits (fdisk fs1) x (-1))" by (simp add: visits_def vc)
  ultimately have vis: "visitorCnt d' = visitorCnt (fdisk (fsys s))" using vc3 by simp
  have "fill_vm env nm h (int n) exe s = Inr (exe3, s\<lparr>fsys := with_fdisk fs1 d'\<rparr>)"
    using o l1 l2 [unfolded im(1)] wr cl by (simp add: fill_vm_def with_disk_def close_file_def del: WriteAt.simps)
  moreover have "cont (with_fdisk fs1 d') x = overlay (cont (fsys s) x) 0 ?im" using c3 [OF ya(2)] c2 c1 by simp
  moreover have "cont (with_fdisk fs1 d') z = cont (fsys s) z" if "z \<in> set (all_files t)" "z \<noteq> x" for z using c3 [OF that(1)] k2 [OF that] c1 by simp
  ultimately show ?thesis using ok3 h3 [OF ya(1) h2 [OF ya(1)]] e3 vis by (intro that [of exe3 "with_fdisk fs1 d'"]) simp_all
qed

text \<open>The file for a new address space: 4096 bytes, in an entry of its own; files that are open stay open.\<close>

lemma vm_created:
  assumes ok: "fs_ok fs bm t" and env: "env_ok env" and y: "dir_map t (key exe_name) = Some y" and f: "held fs y exe"
    and new: "dir_map t (key nm) = None" "card (dom (dir_map t)) < 10" "33 < card (bm.free bm)" and nm: "slash \<notin> set nm" "GetFileExtension nm = []"
  obtains fs1 bm' t' x where "Create env fs nm 4096 = Inr (True, fs1)" "fs_ok fs1 bm' t'" "dir_map t' = (dir_map t)(key nm \<mapsto> x)" "length (cont fs1 x) = 4096"
    "y \<in> set (file_list t')" "x \<noteq> y" "held fs1 y exe" "cont fs1 y = cont fs y" "\<And>k. key k \<noteq> key nm \<Longrightarrow> files fs1 t' (key k) = files fs t (key k)"
proof -
  have z: "(0 :: int) \<le> 4096 \<or> (4096 :: int) = -1" "32 = nat (divRoundUp (if (4096 :: int) = -1 then 960 else 4096) SectorSize)"
    by (simp_all add: divRoundUp_def SectorSize_def)
  have room: "32 + index_sectors 32 < card (bm.free bm)" using new(3) by (simp add: index_sectors_def)
  have ext: "length (cstr (GetFileExtension nm)) \<le> 4" by (simp add: nm(2) cstr_def)
  obtain fs1 bm' t' x where cr: "Create env fs nm 4096 = Inr (True, fs1)" "fs_ok fs1 bm' t'" "dir_map t' = (dir_map t)(key nm \<mapsto> x)"
    "numBytes (hdr_at (sectors (fdisk fs1)) x) = (if (4096 :: int) = -1 then 960 else 4096)" "kept_files {0, 1} (sectors (fdisk fs)) (sectors (fdisk fs1)) (all_files t)"
    by (rule Create_root [OF ok env nm(1) z new(1,2) room ext])
  have yf: "y \<in> set (file_list t)" by (rule listed_sector(1) [OF ok y])
  have ya: "y \<in> set (all_files t)" "y \<noteq> 0" "y \<noteq> 1" using yf user_file(4,5) [OF ok yf] by simp_all
  have h: "held fs1 y exe" by (rule held_kept [OF f cr(5) ya(1)])
  have c: "cont fs1 y = cont fs y" using keptD(4) [OF cr(5) ya(1)] ya(2,3) by (simp add: cont_def)
  have x: "dir_map t' (key nm) = Some x" using cr(3) by simp
  have ky: "key exe_name \<noteq> key nm" using y new(1) by auto
  have y': "dir_map t' (key exe_name) = Some y" unfolding cr(3) using y ky by (simp only: fun_upd_apply if_False)
  have xy: "x \<noteq> y"
  proof
    assume "x = y"
    then have "key nm = key exe_name" using dir_map_inj [OF cr(2) x] y' by simp
    then show False using ky by simp
  qed
  have l: "length (cont fs1 x) = 4096" using user_file_open(2) [OF cr(2) listed_sector(1) [OF cr(2) x]] cr(4) by simp
  have k: "files fs1 t' (key k) = files fs t (key k)" if "key k \<noteq> key nm" for k
    by (rule files_kept [OF ok cr(5)]) (use cr(3) that in simp_all)
  show ?thesis by (rule that [OF cr(1,2,3) l listed_sector(1) [OF cr(2) y'] xy h c k])
qed

lemma files_other:
  assumes ok: "fs_ok fs bm t" and x: "dir_map t (key nm) = Some x" and k: "key k \<noteq> key nm"
    and c: "\<And>z. z \<in> set (all_files t) \<Longrightarrow> z \<noteq> x \<Longrightarrow> cont fs' z = cont fs z"
  shows "files fs' t (key k) = files fs t (key k)"
proof (cases "dir_map t (key k)")
  case (Some w)
  have "w \<noteq> x"
  proof
    assume "w = x"
    then show False using dir_map_inj [OF ok Some] x k by simp
  qed
  then show ?thesis using c [OF listed_sector(2) [OF ok Some]] Some by (simp add: files_cont)
qed (simp add: files_cont)

text \<open>C8: A new address space for an executable with the right magic number, whose segments lie within the file and within
  the space, gets a file of virtual memory of its own that begins with the program's image: zeros, overlaid by the code and the
  initialised data. All other files stay, the executable is still open, and no page of the space is in memory.\<close>

theorem AddrSpace_loads:
  fixes s :: user_machine and y :: int
  defines "c \<equiv> cont (fsys s) y" and "nm \<equiv> vm_name (SpaceCnt s)"
  defines "h \<equiv> noff_of c"
  defines "n \<equiv> nat (divRoundUp (space_size h) PageSize * 128)"
  assumes ok: "fs_ok (fsys s) bm t" and env: "env_ok env" and y: "dir_map t (key exe_name) = Some y" and f: "held (fsys s) y exe"
    and h: "40 \<le> length c" "noffMagic h = NOFFMAGIC" "segment_ok c n (code h)" "segment_ok c n (initData h)" "0 < n" "n \<le> 4096"
    and new: "length nm < 20" "dir_map t (key nm) = None" "card (dom (dir_map t)) < 10" "33 < card (bm.free bm)"
  shows "\<exists>sp exe' s' bm' t' x. AddrSpace_new env exe s = Inr (sp, exe', s') \<and> fs_ok (fsys s') bm' t' \<and> VMName sp = nm \<and> exeSector sp = y \<and> dir_map t' = (dir_map t)(key nm \<mapsto> x)
    \<and> length (cont (fsys s') x) = 4096 \<and> take n (cont (fsys s') x) = image c h n \<and> (\<forall>k. key k \<noteq> key nm \<longrightarrow> files (fsys s') t' (key k) = files (fsys s) t (key k))
    \<and> held (fsys s') y exe' \<and> 128 * length (ownTable sp) = n \<and> (\<forall>e \<in> set (ownTable sp). \<not> valid e) \<and> SpaceCnt s' = SpaceCnt s + 1"
proof -
  have E: "length (now env) = 25" using env by (simp add: env_ok_def)
  have yf: "y \<in> set (file_list t)" by (rule listed_sector(1) [OF ok y])
  obtain exe1 where r: "read_noff env exe s = Inr (h, exe1)" and f1: "held (fsys s) y exe1"
    using read_noff_ok [OF ok yf f E] h(1,2) unfolding c_def h_def by blast
  have pl: "slash \<notin> set nm" "GetFileExtension nm = []" using vm_name_plain no_dot_extension by (simp_all add: nm_def)
  obtain fs1 bm' t' x where cr: "Create env (fsys s) nm 4096 = Inr (True, fs1)" "fs_ok fs1 bm' t'" "dir_map t' = (dir_map t)(key nm \<mapsto> x)"
    "length (cont fs1 x) = 4096" "y \<in> set (file_list t')" "x \<noteq> y" and f2: "held fs1 y exe1" and cy: "cont fs1 y = cont (fsys s) y"
    and old: "\<And>k. key k \<noteq> key nm \<Longrightarrow> files fs1 t' (key k) = files (fsys s) t (key k)"
    by (rule vm_created [OF ok env y f1 new(2-4) pl]) blast
  let ?s1 = "s\<lparr>fsys := fs1, SpaceCnt := SpaceCnt s + 1\<rparr>"
  have x: "dir_map t' (key nm) = Some x" using cr(3) by simp
  have G: "fs_ok (fsys ?s1) bm' t'" "held (fsys ?s1) y exe1" "n \<le> length (cont (fsys ?s1) x)"
    "segment_ok (cont (fsys ?s1) y) n (code h)" "segment_ok (cont (fsys ?s1) y) n (initData h)"
    using h(3,4,6) cr(2,4) f2 by (simp_all add: cy c_def)
  obtain exe' fs2 where fi: "fill_vm env nm h (int n) exe1 ?s1 = Inr (exe', ?s1\<lparr>fsys := fs2\<rparr>)" and F: "fs_ok fs2 bm' t'" "held fs2 y exe'"
    "cont fs2 x = overlay (cont (fsys ?s1) x) 0 (image (cont (fsys ?s1) y) h n)" "\<And>z. z \<in> set (all_files t') \<Longrightarrow> z \<noteq> x \<Longrightarrow> cont fs2 z = cont (fsys ?s1) z"
    by (rule fill_vm_ok [OF G(1) cr(5) G(2) E pl(1) x cr(6) h(5) G(3-5)]) (rule that, assumption+)
  have cx: "cont fs2 x = overlay (cont fs1 x) 0 (image c h n)" using F(3) cy by (simp add: c_def)
  have pos: "0 \<le> divRoundUp (space_size h) PageSize" using h(5) by (auto simp: n_def)
  then have sz: "u32 (divRoundUp (space_size h) PageSize * PageSize) = int n" using h(6) by (simp add: n_def u32_def mem_consts)
  have as: "AddrSpace_new env exe s = Inr (\<lparr>VMName = nm, exeSector = headerSector (hdr exe1), numPages = divRoundUp (space_size h) PageSize,
      ownTable = new_page_table env (divRoundUp (space_size h) PageSize)\<rparr>, exe', ?s1\<lparr>fsys := fs2\<rparr>)" (is "_ = Inr (?sp, _, _)")
    using r cr(1) fi new(1) by (simp add: AddrSpace_new_def Let_def new_vm_name_def nm_def [symmetric] mem_consts sz [unfolded mem_consts])
  have lt: "128 * length (ownTable ?sp) = n" "\<forall>e \<in> set (ownTable ?sp). \<not> valid e" using pos by (auto simp: new_page_table_def n_def nat_mult_distrib)
  have "files fs2 t' (key k) = files (fsys s) t (key k)" if k: "key k \<noteq> key nm" for k
    using files_other [OF cr(2) x k, of fs2] F(4) old [OF k] by simp
  moreover have "take n (cont fs2 x) = image c h n" "length (cont fs2 x) = 4096" using cx length_image [OF h(3,4)] cr(4) h(6) by (simp_all add: overlay_def)
  ultimately show ?thesis using as lt F(1,2) cr(3)
    by (intro exI [of _ ?sp] exI [of _ exe'] exI [of _ "?s1\<lparr>fsys := fs2\<rparr>"] exI [of _ bm'] exI [of _ t'] exI [of _ x]) (simp add: heldD(2) [OF f1])
qed

text \<open>A program of four bytes of code, in a file of the root directory.\<close>

definition hello :: "byte list" where
  "hello = ints_bytes [NOFFMAGIC, 0, 40, 4, 0, 0, 0, 0, 0, 0] @ [1, 2, 3, 4]"

definition hello_header :: noff_header where
  "hello_header = \<lparr>noffMagic = NOFFMAGIC, code = \<lparr>virtualAddr = 0, inFileAddr = 40, segSize = 4\<rparr>,
     initData = \<lparr>virtualAddr = 0, inFileAddr = 0, segSize = 0\<rparr>, uninitData = \<lparr>virtualAddr = 0, inFileAddr = 0, segSize = 0\<rparr>\<rparr>"

lemma hello_noff: "noff_of (hello @ rest) = hello_header"
proof -
  let ?xs = "[NOFFMAGIC, 0, 40, 4, 0, 0, 0, 0, 0, 0]"
  have "\<forall>x \<in> set ?xs. in_int32 x" by (simp add: NOFFMAGIC_def in_int32_def)
  then have "un_ints (length ?xs) (ints_bytes ?xs @ [1, 2, 3, 4] @ rest) = ?xs" by (rule un_ints_ints_bytes)
  moreover have "length ?xs = 10" by simp
  ultimately have "un_ints 10 (hello @ rest) = ?xs" unfolding hello_def append_assoc by metis
  then show ?thesis unfolding noff_of_def Let_def by (simp only:) (simp add: hello_header_def segment_of_def)
qed

lemma hello_pages: "space_size hello_header = 1028" "nat (divRoundUp (space_size hello_header) PageSize * 128) = 1152"
  by (simp_all add: space_size_def hello_header_def UserStackSize_def u32_def mem_consts divRoundUp_def)

lemma hello_vm: "key (vm_name 1) \<noteq> key [104, 105]" "length (vm_name 1) < 20"
  by (simp_all add: vm_name_def decimal.simps [of "Suc 0"] key_def cstr_def FileNameMaxLen_def)

lemma hello_file:
  obtains fs bm t x f where "fs_ok fs bm t" "dir_map t (key [104, 105]) = Some x" "dom (dir_map t) = {[104, 105]}" "33 < card (bm.free bm)"
    "held fs x f" "take 44 (cont fs x) = hello" "length (cont fs x) = 300"
proof -
  obtain fs bm where f: "fs_ok fs bm (new_Directory sample_env)" "card (bm.free bm) = 1012" by (rule formatted)
  have n: "nat (divRoundUp 300 SectorSize) = 3" by (simp add: divRoundUp_def SectorSize_def)
  have P: "dir_map (new_Directory sample_env) (key [104, 105]) = None" "card (dom (dir_map (new_Directory sample_env))) < 10"
    "3 + index_sectors 3 < card (bm.free bm)" "length (cstr (GetFileExtension [104, 105])) \<le> 4"
    using f(2) by (simp_all add: new_Directory_empty index_sectors_def key_hi cstr_def)
  have q: "card (bm.free bm) - (1 + 3 + index_sectors 3) = 1008" using f(2) by (simp add: index_sectors_def)
  obtain fs1 bm1 t1 where c: "Create sample_env fs [104, 105] 300 = Inr (True, fs1)" "fs_ok fs1 bm1 t1"
      "dom (dir_map t1) = insert (key [104, 105]) (dom (dir_map (new_Directory sample_env)))" "card (bm.free bm1) = 1008"
      "map_option (\<lambda>c. int (length c)) (files fs1 t1 (key [104, 105])) = Some 300"
    using create_added [OF f(1) sample_env_ok key_hi(3) _ n [symmetric] P, unfolded q] by (metis zero_le_numeral)
  then obtain x where x: "dir_map t1 (key [104, 105]) = Some x" "length (cont fs1 x) = 300" by (auto simp: files_cont)
  obtain vm fs2 where o: "fs_ok fs2 bm1 t1" "held fs2 x vm" "\<And>y. cont fs2 y = cont fs1 y"
    by (rule Open_held [where env = sample_env, OF c(2) key_hi(3) x(1)]) blast
  have xl: "x \<in> set (file_list t1)" by (rule listed_sector(1) [OF c(2) x(1)])
  have e: "length (now sample_env) = 25" by (simp add: sample_env_def)
  have lh: "length hello = 44" by (simp add: hello_def)
  then have w: "hello \<noteq> []" "(0 :: int) + int (length hello) \<le> int (length (cont fs2 x))" using x(2) o(3) by auto
  obtain vm' d where W: "fs_ok (with_fdisk fs2 d) bm1 t1" "held (with_fdisk fs2 d) x vm'" "cont (with_fdisk fs2 d) x = overlay (cont fs2 x) (nat 0) hello"
    by (rule write_held [where fuel = write_depth, OF o(1) xl o(2) e order_refl w refl]) blast
  show ?thesis
    by (rule that [OF W(1) x(1) _ _ W(2)]) (use c(3,4) x(2) o(3) lh in \<open>simp_all add: W(3) overlay_def new_Directory_empty key_hi\<close>)
qed

theorem AddrSpace_loads_witness:
  "\<exists>fs exe bm t sp exe' s' x. AddrSpace_new sample_env exe (sample_user fs [] [] 0) = Inr (sp, exe', s') \<and> fs_ok (fsys s') bm t \<and> dir_map t (key (vm_name 1)) = Some x
    \<and> 128 * length (ownTable sp) = 1152 \<and> take 4 (cont (fsys s') x) = [1, 2, 3, 4]"
proof -
  obtain fs bm t y exe where f: "fs_ok fs bm t" "dir_map t (key [104, 105]) = Some y" and d: "dom (dir_map t) = {[104, 105]}" "33 < card (bm.free bm)"
    and h: "held fs y exe" and c: "take 44 (cont fs y) = hello" "length (cont fs y) = 300" by (rule hello_file)
  let ?s = "sample_user fs [] [] 0" and ?c = "cont fs y"
  have s: "fsys ?s = fs" "SpaceCnt ?s = 1" by (simp_all add: sample_user_def)
  have no: "noff_of ?c = hello_header" using hello_noff [of "drop 44 ?c"] unfolding c(1) [symmetric] append_take_drop_id .
  have "key (vm_name 1) \<notin> dom (dir_map t)" unfolding d(1) using hello_vm(1) by (simp add: key_hi)
  then have new: "dir_map t (key (vm_name 1)) = None" by auto
  have card: "card (dom (dir_map t)) < 10" by (simp add: d(1))
  have g: "segment_ok ?c 1152 (code hello_header)" "segment_ok ?c 1152 (initData hello_header)" "40 \<le> length ?c" "noffMagic hello_header = NOFFMAGIC"
    using c(2) by (simp_all add: segment_ok_def hello_header_def)
  have im: "take 4 (image ?c hello_header 1152) = [1, 2, 3, 4]"
  proof -
    have "take 4 (drop 40 ?c) = take 4 (drop 40 (take 44 ?c))" by (simp add: drop_take)
    then have "take 4 (drop 40 ?c) = [1, 2, 3, 4]" unfolding c(1) by (simp add: hello_def)
    then show ?thesis by (simp add: image_def put_segment_def hello_header_def overlay_def)
  qed
  obtain sp exe' s' bm' t' x where R: "AddrSpace_new sample_env exe ?s = Inr (sp, exe', s')" "fs_ok (fsys s') bm' t'" "dir_map t' = (dir_map t)(key (vm_name 1) \<mapsto> x)"
      "take 1152 (cont (fsys s') x) = image ?c hello_header 1152" "128 * length (ownTable sp) = 1152"
    using AddrSpace_loads [of ?s bm t sample_env "[104, 105]" y exe, unfolded s no hello_pages(2), OF f(1) sample_env_ok f(2) h g(3,4,1,2) _ _ hello_vm(2) new card d(2)]
    by auto
  have "take 4 (cont (fsys s') x) = [1, 2, 3, 4]" using im unfolding R(4) [symmetric] by simp
  moreover have "dir_map t' (key (vm_name 1)) = Some x" by (simp add: R(3))
  ultimately show ?thesis using R(1,2,5) by blast
qed

end
