(* ===== verification/UserExit.thy ===== *)
theory UserExit
  imports Loading
begin

text \<open>
  The end of a user program: the system call \<open>Exit\<close> gives back its frames, empties the TLB, removes its file of virtual memory
  and closes its files.
\<close>

section \<open>Closing a thread's files\<close>

text \<open>Every file that thread \<open>me\<close> has in the table is a handle on a file with a name other than \<open>nm\<close>.\<close>

definition table_held :: "file_system \<Rightarrow> directory \<Rightarrow> byte list \<Rightarrow> int \<Rightarrow> file_table \<Rightarrow> bool" where
  "table_held fs t nm me ot \<longleftrightarrow> length ot = MAX_FILE_NUMBER
     \<and> (\<forall>i \<in> set slots. mine me (ot ! i) \<longrightarrow> (\<exists>f k y. ofile (ot ! i) = Some f \<and> key k \<noteq> key nm \<and> dir_map t (key k) = Some y \<and> held fs y f))"

text \<open>What closing leaves: the thread has no file in the numbers \<open>js\<close>, and other threads keep theirs.\<close>

definition closed_mine :: "int \<Rightarrow> nat list \<Rightarrow> file_table \<Rightarrow> file_table \<Rightarrow> bool" where
  "closed_mine me js ot ot' \<longleftrightarrow> length ot' = length ot \<and> (\<forall>i \<in> set js. \<not> mine me (ot' ! i))
     \<and> (\<forall>i < length ot. i \<notin> set js \<or> \<not> mine me (ot ! i) \<longrightarrow> ot' ! i = ot ! i)"

lemma close_mine_held:
  assumes "fs_ok fs bm t" "0 \<le> me" "distinct js" "\<forall>i \<in> set js. i < length ot"
    "\<forall>i \<in> set js. mine me (ot ! i) \<longrightarrow> (\<exists>f y. ofile (ot ! i) = Some f \<and> y \<in> set (file_list t) \<and> held fs y f)"
  shows "\<exists>ot' d. close_mine me ot (fdisk fs) js = Inr (ot', d) \<and> fs_ok (with_fdisk fs d) bm t \<and> (\<forall>z \<in> set (all_files t). cont (with_fdisk fs d) z = cont fs z)
    \<and> closed_mine me js ot ot'"
  using assms
proof (induction js arbitrary: ot fs)
  case Nil
  then show ?case by (simp add: closed_mine_def)
next
  case (Cons i js)
  show ?case
  proof (cases "mine me (ot ! i)")
    case False
    obtain ot' d where IH: "close_mine me ot (fdisk fs) js = Inr (ot', d)" "fs_ok (with_fdisk fs d) bm t" "\<forall>z \<in> set (all_files t). cont (with_fdisk fs d) z = cont fs z"
      "closed_mine me js ot ot'" using Cons.IH [OF Cons.prems(1,2), of ot] Cons.prems(3-5) by auto
    have "closed_mine me (i # js) ot ot'" using IH(4) False Cons.prems(3,4) by (auto simp: closed_mine_def)
    then show ?thesis using IH(1-3) False by auto
  next
    case True
    then obtain f y where f: "ofile (ot ! i) = Some f" "y \<in> set (file_list t)" "held fs y f" using Cons.prems(5) by auto
    obtain d where c: "OpenFile_delete f (fdisk fs) = Inr d" "fs_ok (with_fdisk fs d) bm t" "\<And>z. z \<in> set (all_files t) \<Longrightarrow> cont (with_fdisk fs d) z = cont fs z"
      "\<And>z g. z \<in> set (all_files t) \<Longrightarrow> held fs z g \<Longrightarrow> held (with_fdisk fs d) z g" by (rule close_held [OF Cons.prems(1) f(2,3)]) blast
    let ?r = "\<lparr>ofile = None, TID = -1, ForkFileID = -1, in_use = False\<rparr>"
    let ?ot = "ot[i := ?r]"
    have P: "\<forall>j \<in> set js. j < length ?ot" "distinct js" using Cons.prems(3,4) by simp_all
    have same: "?ot ! j = ot ! j" if "j \<in> set js" for j using that Cons.prems(3) by (cases "i = j") auto
    have "\<forall>j \<in> set js. mine me (?ot ! j) \<longrightarrow> (\<exists>f y. ofile (?ot ! j) = Some f \<and> y \<in> set (file_list t) \<and> held (with_fdisk fs d) y f)"
    proof (intro ballI impI)
      fix j assume j: "j \<in> set js" "mine me (?ot ! j)"
      then obtain g z where "ofile (ot ! j) = Some g" "z \<in> set (file_list t)" "held fs z g" using Cons.prems(5) same [OF j(1)] by auto
      then show "\<exists>f y. ofile (?ot ! j) = Some f \<and> y \<in> set (file_list t) \<and> held (with_fdisk fs d) y f" using c(4) same [OF j(1)] by auto
    qed
    then obtain ot' d' where IH: "close_mine me ?ot (fdisk (with_fdisk fs d)) js = Inr (ot', d')" "fs_ok (with_fdisk (with_fdisk fs d) d') bm t"
      "\<forall>z \<in> set (all_files t). cont (with_fdisk (with_fdisk fs d) d') z = cont (with_fdisk fs d) z" "closed_mine me js ?ot ot'"
      using Cons.IH [OF c(2) Cons.prems(2) P(2,1)] by blast
    have "i < length ot" "i \<notin> set js" using Cons.prems(3,4) by simp_all
    then have "ot' ! i = ?r" using IH(4) by (simp add: closed_mine_def)
    then have free: "\<not> mine me (ot' ! i)" by (simp add: mine_def)
    have cm: "closed_mine me (i # js) ot ot'"
      unfolding closed_mine_def
    proof (intro conjI allI impI)
      show "length ot' = length ot" using IH(4) by (simp add: closed_mine_def)
      show "\<forall>k \<in> set (i # js). \<not> mine me (ot' ! k)" using free IH(4) by (simp add: closed_mine_def)
      fix k assume k: "k < length ot" "k \<notin> set (i # js) \<or> \<not> mine me (ot ! k)"
      then have "?ot ! k = ot ! k" using True by (cases "k = i") auto
      then show "ot' ! k = ot ! k" using IH(4) k unfolding closed_mine_def by (metis length_list_update list.set_intros(2))
    qed
    moreover have "close_mine me ot (fdisk fs) (i # js) = Inr (ot', d')" using True f(1) c(1) IH(1) by (simp add: close_slot_def)
    ultimately show ?thesis using IH(2,3) c(3) by (intro exI [of _ ot'] exI [of _ d']) simp
  qed
qed

section \<open>Giving back the space\<close>

lemma SaveState_ok: "tlb s = Some T \<Longrightarrow> SaveState s = Inr (s\<lparr>tlb := Some (map (\<lambda>e. e\<lparr>valid := False\<rparr>) T)\<rparr>)"
  by (simp add: SaveState_def)

lemma freeMem_fields:
  assumes "freeMem s = Inr s'" shows "s' = s\<lparr>frame_bitmap := frame_bitmap s'\<rparr>"
  using assms by (auto simp: freeMem_def elim: rbind_InrE split: option.splits)

text \<open>The frames of the valid pages of a page table.\<close>

definition frames_of :: "translation_entry list \<Rightarrow> nat set" where
  "frames_of pt = {nat (physicalPage e) |e. e \<in> set pt \<and> valid e}"

lemma release_space_ok:
  assumes V: "vm_ok s bm t sp x pt" and pt: "\<forall>e \<in> set pt. valid e \<longrightarrow> 0 \<le> physicalPage e \<and> physicalPage e < 32" and T: "tlb s = Some T"
    and plain: "\<not> is_directory (hdr_at (sectors (fdisk (fsys s))) x)" "visitorCnt (fdisk (fsys s)) ! nat x = 0"
  obtains fs' bm' t' b where "release_space env s = Inr (s\<lparr>frame_bitmap := b, tlb := Some (map (\<lambda>e. e\<lparr>valid := False\<rparr>) T), fsys := fs', space := None\<rparr>)"
    "frames (s\<lparr>frame_bitmap := b\<rparr>) = frames s - frames_of pt" "fs_ok fs' bm' t'" "dir_map t' = (dir_map t)(key (VMName sp) := None)"
    "kept_files {0, 1} (sectors (fdisk (fsys s))) (sectors (fdisk fs')) (all_files t')"
proof -
  note D = vm_okD [OF V]
  obtain s1 where m: "freeMem s = Inr s1" "frames s1 = frames s - frames_of pt"
    using freeMem_gives_back [OF D(5,6) pt] by (auto simp: frames_of_def)
  have s1: "s1 = s\<lparr>frame_bitmap := frame_bitmap s1\<rparr>" by (rule freeMem_fields [OF m(1)])
  obtain fs' bm' t' where r: "FileSys_Remove env (fsys s) (VMName sp) = Inr (True, fs')" "fs_ok fs' bm' t'" "dir_map t' = (dir_map t)(key (VMName sp) := None)"
    "kept_files {0, 1} (sectors (fdisk (fsys s))) (sectors (fdisk fs')) (all_files t')" by (rule Remove_file [OF D(1,3,4) plain])
  have "tlb s1 = Some T" "fsys s1 = fsys s" using T by (subst s1, simp)+
  then have "release_space env s = Inr (s1\<lparr>tlb := Some (map (\<lambda>e. e\<lparr>valid := False\<rparr>) T), fsys := fs', space := None\<rparr>)"
    using D(2) m(1) r(1) SaveState_ok [of s1 T] by (simp add: release_space_def)
  then have "release_space env s = Inr (s\<lparr>frame_bitmap := frame_bitmap s1, tlb := Some (map (\<lambda>e. e\<lparr>valid := False\<rparr>) T), fsys := fs', space := None\<rparr>)"
    by (subst (asm) s1) simp
  then show ?thesis using m(2) r(2-4) by (intro that) (simp_all add: frames_def)
qed

section \<open>The system call\<close>

text \<open>C12: \<open>Exit\<close> records the status, gives back exactly the frames of the program's valid pages, empties the TLB, removes the
  program's file of virtual memory, and closes all its files and nobody else's, before the thread finishes: the file system is
  in good order and every other file keeps its contents.\<close>

theorem Exit_releases:
  assumes V: "vm_ok s bm t sp x pt" and pt: "\<forall>e \<in> set pt. valid e \<longrightarrow> 0 \<le> physicalPage e \<and> physicalPage e < 32" and T: "tlb s = Some T"
    and plain: "\<not> is_directory (hdr_at (sectors (fdisk (fsys s))) x)" "visitorCnt (fdisk (fsys s)) ! nat x = 0"
    and me: "0 \<le> tid s" "tid s < int (length (end_state s))" "length (registers s) = 40" and ot: "table_held (fsys s) t (VMName sp) (tid s) (opened s)"
  shows "\<exists>s1 bm' t'. ExitHandler env sched s = rbind (sched FinishThread s1) (\<lambda>(_, s). Inr s)
    \<and> end_state s1 = (end_state s)[nat (tid s) := sint (registers s ! 4)] \<and> frames s1 = frames s - frames_of pt \<and> space s1 = None
    \<and> (\<exists>T'. tlb s1 = Some T' \<and> (\<forall>e \<in> set T'. \<not> valid e)) \<and> fs_ok (fsys s1) bm' t' \<and> dir_map t' = (dir_map t)(key (VMName sp) := None)
    \<and> (\<forall>k. key k \<noteq> key (VMName sp) \<longrightarrow> files (fsys s1) t' (key k) = files (fsys s) t (key k)) \<and> closed_mine (tid s) slots (opened s) (opened s1)"
proof -
  let ?s = "s\<lparr>end_state := (end_state s)[nat (tid s) := sint (registers s ! 4)]\<rparr>"
  have V': "vm_ok ?s bm t sp x pt" using V by (simp add: vm_ok_def)
  obtain fs' bm' t' b where r: "release_space (fenv env) ?s = Inr (?s\<lparr>frame_bitmap := b, tlb := Some (map (\<lambda>e. e\<lparr>valid := False\<rparr>) T), fsys := fs', space := None\<rparr>)"
    and b: "frames (?s\<lparr>frame_bitmap := b\<rparr>) = frames ?s - frames_of pt" and F: "fs_ok fs' bm' t'" "dir_map t' = (dir_map t)(key (VMName sp) := None)"
      "kept_files {0, 1} (sectors (fdisk (fsys s))) (sectors (fdisk fs')) (all_files t')"
    by (rule release_space_ok [OF V' pt]) (use T plain in simp_all)
  have H: "\<exists>f y. ofile (opened s ! i) = Some f \<and> y \<in> set (file_list t') \<and> held fs' y f" if "i \<in> set slots" "mine (tid s) (opened s ! i)" for i
  proof -
    have "\<exists>f k y. ofile (opened s ! i) = Some f \<and> key k \<noteq> key (VMName sp) \<and> dir_map t (key k) = Some y \<and> held (fsys s) y f"
      using ot that unfolding table_held_def by blast
    then obtain f k y where f: "ofile (opened s ! i) = Some f" "key k \<noteq> key (VMName sp)" "dir_map t (key k) = Some y" "held (fsys s) y f" by blast
    have "dir_map t' (key k) = Some y" using F(2) f(2,3) by simp
    from listed_sector(1,2) [OF F(1) this] show ?thesis using f(1) held_kept [OF f(4) F(3)] by blast
  qed
  have "\<forall>i \<in> set slots. i < length (opened s)" using ot by (auto simp: table_held_def MAX_FILE_NUMBER_def)
  then obtain ot' d where c: "close_mine (tid s) (opened s) (fdisk fs') slots = Inr (ot', d)" "fs_ok (with_fdisk fs' d) bm' t'"
    "\<forall>z \<in> set (all_files t'). cont (with_fdisk fs' d) z = cont fs' z" "closed_mine (tid s) slots (opened s) ot'"
    using close_mine_held [OF F(1) me(1) distinct_slots, of "opened s"] H by blast
  let ?s1 = "with_disk d (?s\<lparr>frame_bitmap := b, tlb := Some (map (\<lambda>e. e\<lparr>valid := False\<rparr>) T), fsys := fs', space := None, opened := ot'\<rparr>)"
  have S: "fsys ?s1 = with_fdisk fs' d" "opened ?s1 = ot'" "end_state ?s1 = end_state ?s" "space ?s1 = None" "tlb ?s1 = Some (map (\<lambda>e. e\<lparr>valid := False\<rparr>) T)"
    "frame_bitmap ?s1 = b" by (simp_all add: with_disk_def)
  have "ExitHandler env sched s = rbind (sched FinishThread ?s1) (\<lambda>(_, s). Inr s)"
    using r c(1) me by (simp add: ExitHandler_def ReadRegister_def NumTotalRegs_def aget_def aset_def CloseAll_def)
  moreover have "files (fsys ?s1) t' (key k) = files (fsys s) t (key k)" if k: "key k \<noteq> key (VMName sp)" for k
  proof (cases "dir_map t' (key k)")
    case (Some z)
    have z: "z \<in> set (all_files t')" "z \<notin> {0, 1}" using listed_sector [OF F(1) Some] by simp_all
    then have "cont (with_fdisk fs' d) z = cont (fsys s) z" using c(3) [rule_format, OF z(1)] keptD(4) [OF F(3) z] by (simp add: cont_def)
    then show ?thesis using Some F(2) k by (simp add: files_cont S)
  qed (use F(2) k in \<open>simp add: files_cont\<close>)
  moreover have "frames ?s1 = frames s - frames_of pt" using b by (simp add: frames_def S)
  moreover have "\<forall>e \<in> set (map (\<lambda>e. e\<lparr>valid := False\<rparr>) T). \<not> valid e" by simp
  ultimately show ?thesis using c(2,4) F(2) by (intro exI [of _ ?s1] exI [of _ bm'] exI [of _ t']) (simp add: S)
qed

theorem Exit_releases_witness:
  "\<exists>fs s1 bm t. ExitHandler (sample_uenv USE_FIFO) (\<lambda>c s. Inr (0, s)) (sample_user fs [page 0 3, absent 1] empty_tlb 8) = Inr s1 \<and> frames s1 = {}
    \<and> fs_ok (fsys s1) bm t \<and> files (fsys s1) t [104, 105] = None"
proof -
  obtain fs bm t x where f: "fs_ok fs bm t" "dir_map t [104, 105] = Some x" "visitorCnt (fdisk fs) ! nat x = 0"
    "is_directory (hdr_at (sectors (fdisk fs)) x) = (300 = (-1 :: int))" "numBytes (hdr_at (sectors (fdisk fs)) x) = 300" by (rule with_entry [of 300]) auto
  let ?pt = "[page 0 3, absent 1]" let ?s = "sample_user fs ?pt empty_tlb 8"
  have k: "dir_map t (key [104, 105]) = Some x" using f(2) by (simp add: key_hi)
  have "int (length (cont fs x)) = 300" using user_file_open(2) [OF f(1) listed_sector(1) [OF f(1) k]] f(5) by simp
  then have V: "vm_ok ?s bm t sample_space x ?pt" using f(1) k by (simp add: vm_ok_def sample_space_def) (simp add: sample_user_def sample_space_def)
  have none: "\<not> mine 1 (new_table ! i)" if "i \<in> set slots" for i using that by (simp add: new_table_def mine_def MAX_FILE_NUMBER_def)
  have O: "opened ?s = new_table" "tid ?s = 1" "length (end_state ?s) = 128" "fsys ?s = fs" by (simp_all add: sample_user_def)
  have "table_held fs t (VMName sample_space) 1 new_table" using none by (simp add: table_held_def new_table_def MAX_FILE_NUMBER_def)
  then have P: "\<forall>e \<in> set ?pt. valid e \<longrightarrow> 0 \<le> physicalPage e \<and> physicalPage e < 32" "\<not> is_directory (hdr_at (sectors (fdisk (fsys ?s))) x)"
    "visitorCnt (fdisk (fsys ?s)) ! nat x = 0" "0 \<le> tid ?s" "tid ?s < int (length (end_state ?s))" "length (registers ?s) = 40"
    "table_held (fsys ?s) t (VMName sample_space) (tid ?s) (opened ?s)" using f(3,4) O by (simp_all add: page_def absent_def)
  have "frames_of ?pt = {3}" by (auto simp: frames_of_def page_def absent_def intro!: exI [of _ "page 0 3"])
  moreover have "frames ?s = {3}"
  proof -
    have "(push_bit 3 1 :: 32 word) = 8" by simp
    moreover have "bit (push_bit 3 1 :: 32 word) k \<longleftrightarrow> k = 3" for k by (auto simp: bit_push_bit_iff bit_1_iff simp del: push_bit_of_1)
    ultimately have "bit (8 :: 32 word) k \<longleftrightarrow> k = 3" for k by (simp only:)
    then show ?thesis by (auto simp: frames_def)
  qed
  moreover obtain s1 bm' t' where "ExitHandler (sample_uenv USE_FIFO) (\<lambda>c s. Inr (0, s)) ?s = rbind (Inr (0, s1)) (\<lambda>(_, s). Inr s)"
      "frames s1 = frames ?s - frames_of ?pt" "fs_ok (fsys s1) bm' t'" "dir_map t' = (dir_map t)(key (VMName sample_space) := None)"
    using Exit_releases [OF V P(1) _ P(2-7), of empty_tlb "sample_uenv USE_FIFO" "\<lambda>c s. Inr (0, s)"] by (auto simp del: One_nat_def)
  ultimately show ?thesis by (intro exI [of _ fs] exI [of _ s1] exI [of _ bm'] exI [of _ t']) (simp add: files_def sample_space_def key_hi)
qed

end
