(* ===== verification/UserWrite.thy ===== *)
theory UserWrite
  imports SyscallFacts
begin

text \<open>
  The system call \<open>Write\<close> with its data in mapped memory: it copies the bytes into a buffer, by stores of four bytes each,
  and hands them to the file or to the console. The last stores need two bytes more than the buffer asks for. The first byte
  of a page that is not in memory is not read at all.
\<close>

section \<open>Copying user memory into the kernel's buffer\<close>

lemma store32_at:
  assumes "i + 4 \<le> length buf"
  obtains buf' where "store32 buf (int i) v = Inr buf'" "length buf' = length buf" "take (i + 1) buf' = take i buf @ [ucast v]"
proof -
  let ?b = "buf[i := ucast v, i + 1 := ucast (drop_bit 8 v), i + 2 := ucast (drop_bit 16 v), i + 3 := ucast (drop_bit 24 v)]"
  have n: "nat (int i + 1) = i + 1" "nat (int i + 2) = i + 2" "nat (int i + 3) = i + 3" by simp_all
  have s: "store32 buf (int i) v = Inr ?b" using assms by (simp add: store32_def aset_def n)
  have "take (i + 1) ?b = take (i + 1) (buf[i := ucast v])" by (simp add: take_update_ge)
  also have "\<dots> = take i buf @ [ucast v]" using assms by (simp add: take_Suc_conv_app_nth take_update_ge)
  finally show ?thesis by (rule that [OF s, rotated]) simp
qed

lemma store32_fails: "length buf < i + 4 \<Longrightarrow> store32 buf (int i) v = Inl OutOfBounds"
  by (auto simp: store32_def aset_def nat_add_distrib)

text \<open>The byte at an address whose page is in frame \<open>p\<close>.\<close>

definition byte_at :: "user_machine \<Rightarrow> nat \<Rightarrow> 32 word \<Rightarrow> byte" where
  "byte_at s p a = page_bytes (mainMemory s) p ! nat (uint a mod 128)"

definition user_bytes :: "user_machine \<Rightarrow> nat \<Rightarrow> 32 word \<Rightarrow> nat \<Rightarrow> byte list" where
  "user_bytes s p a n = take n (drop (nat (uint a mod 128)) (page_bytes (mainMemory s) p))"

lemma length_page [simp]: "mapped s v p \<Longrightarrow> length (page_bytes (mainMemory s) p) = 128"
  by (auto simp: mapped_def intro: length_page_bytes)

lemma user_bytes_Suc:
  assumes "mapped s (uint a div 128) p" "uint a mod 128 + int (Suc n) \<le> 128" "0 < n"
  shows "user_bytes s p a (Suc n) = byte_at s p a # user_bytes s p (a + 1) n"
proof -
  have o: "nat (uint (a + 1) mod 128) = Suc (nat (uint a mod 128))" using offset_next(2) [of a] assms(2,3) by (simp add: nat_add_distrib)
  have "nat (uint a mod 128) < length (page_bytes (mainMemory s) p)" using assms(1,2) by simp
  then have "drop (nat (uint a mod 128)) (page_bytes (mainMemory s) p) = byte_at s p a # drop (Suc (nat (uint a mod 128))) (page_bytes (mainMemory s) p)"
    by (simp add: byte_at_def Cons_nth_drop_Suc)
  then show ?thesis by (simp add: user_bytes_def o)
qed

lemma user_bytes_1: "mapped s (uint a div 128) p \<Longrightarrow> user_bytes s p a 1 = [byte_at s p a]"
proof -
  assume m: "mapped s (uint a div 128) p"
  have "nat (uint a mod 128) < length (page_bytes (mainMemory s) p)" using m by simp
  then show ?thesis by (simp add: user_bytes_def byte_at_def take_Suc_conv_app_nth Cons_nth_drop_Suc [symmetric])
qed

lemma length_user_bytes: "mapped s (uint a div 128) p \<Longrightarrow> uint a mod 128 + int n \<le> 128 \<Longrightarrow> length (user_bytes s p a n) = n"
  by (simp add: user_bytes_def)

text \<open>One byte is read twice, to the same place.\<close>

lemma read_into_mapped:
  assumes m: "mapped s (uint a div 128) p" and i: "i + 4 \<le> length buf"
  obtains s' buf' where "read_into env a buf (int i) s = Inr (buf', s')" "tlb_only s s'" "mapped s' (uint a div 128) p" "length buf' = length buf"
    "take (i + 1) buf' = take i buf @ [byte_at s p a]"
proof -
  obtain s' where r: "ReadMem (on_access env) s a 1 = Inr (True, scast (byte_at s p a), s')" "tlb_only s s'" "mapped s' (uint a div 128) p"
    unfolding byte_at_def by (rule read_mapped [OF m])
  obtain buf' where b: "store32 buf (int i) (scast (byte_at s p a)) = Inr buf'" "length buf' = length buf" "take (i + 1) buf' = take i buf @ [ucast (scast (byte_at s p a) :: 32 word)]"
    by (rule store32_at [OF i])
  show ?thesis using r b by (intro that [of buf' s']) (simp_all add: read_into_def ucast_scast)
qed

lemma byte_at_tlb_only: "tlb_only s s' \<Longrightarrow> byte_at s' p a = byte_at s p a" "tlb_only s s' \<Longrightarrow> user_bytes s' p a n = user_bytes s p a n"
  by (simp_all add: byte_at_def user_bytes_def tlb_only_fields)

lemma read_twice_into:
  assumes m: "mapped s (uint a div 128) p" and i: "i + 4 \<le> length buf"
  obtains s1 b1 s' buf' where "read_into env a buf (int i) s = Inr (b1, s1)" "read_into env a b1 (int i) s1 = Inr (buf', s')"
    "tlb_only s s'" "mapped s' (uint a div 128) p" "length buf' = length buf" "take (i + 1) buf' = take i buf @ [byte_at s p a]"
proof -
  obtain s1 b1 where 1: "read_into env a buf (int i) s = Inr (b1, s1)" "tlb_only s s1" "mapped s1 (uint a div 128) p" "length b1 = length buf"
    "take (i + 1) b1 = take i buf @ [byte_at s p a]" by (rule read_into_mapped [OF m i])
  have i1: "i + 4 \<le> length b1" using i 1(4) by simp
  obtain s2 b2 where 2: "read_into env a b1 (int i) s1 = Inr (b2, s2)" "tlb_only s1 s2" "mapped s2 (uint a div 128) p" "length b2 = length b1"
    "take (i + 1) b2 = take i b1 @ [byte_at s1 p a]" by (rule read_into_mapped [OF 1(3) i1])
  have "take i b1 = take i (take (i + 1) b1)" by simp
  also have "\<dots> = take i buf" unfolding 1(5) using i by simp
  finally have "take i b1 = take i buf" .
  then show ?thesis using 1 2 tlb_only_trans [OF 1(2) 2(2)] byte_at_tlb_only(1) [OF 1(2)] by (intro that [of b1 s1 b2 s2]) simp_all
qed

lemma copy_in_reads:
  assumes "mapped s (uint a div 128) p" "uint a mod 128 + int n \<le> 128" "n = 0 \<or> i + n + 3 \<le> length buf"
  shows "\<exists>s' buf'. copy_in env a buf (int i) n s = Inr (buf', s') \<and> tlb_only s s' \<and> length buf' = length buf \<and> (0 < n \<longrightarrow> take (i + n) buf' = take i buf @ user_bytes s p a n)
    \<and> (n = 0 \<longrightarrow> buf' = buf)"
  using assms
proof (induction n arbitrary: a i buf s)
  case 0
  then show ?case by (simp add: tlb_only_refl)
next
  case (Suc n)
  have i: "i + 4 \<le> length buf" using Suc.prems(3) by simp
  obtain s0 b0 s1 b1 where r: "read_into env a buf (int i) s = Inr (b0, s0)" "read_into env a b0 (int i) s0 = Inr (b1, s1)" and 1: "True"
    "tlb_only s s1" "mapped s1 (uint a div 128) p" "length b1 = length buf" "take (i + 1) b1 = take i buf @ [byte_at s p a]"
    by (rule read_twice_into [where env = env, OF Suc.prems(1) i]) blast
  have step: "copy_in env a buf (int i) (Suc n) s = copy_in env (a + 1) b1 (int (i + 1)) n s1" using r by (simp add: add.commute)
  show ?case
  proof (cases "n = 0")
    case True
    then show ?thesis using step 1 user_bytes_1 [OF Suc.prems(1)] by simp
  next
    case False
    have o: "uint (a + 1) div 128 = uint a div 128" "uint (a + 1) mod 128 = uint a mod 128 + 1" using offset_next [of a] Suc.prems(2) False by simp_all
    have "mapped s1 (uint (a + 1) div 128) p" "uint (a + 1) mod 128 + int n \<le> 128" "n = 0 \<or> i + 1 + n + 3 \<le> length b1"
      using 1(3,4) Suc.prems(2,3) unfolding o by simp_all
    then obtain s2 b2 where 2: "copy_in env (a + 1) b1 (int (i + 1)) n s1 = Inr (b2, s2)" "tlb_only s1 s2" "length b2 = length b1"
      "take (i + 1 + n) b2 = take (i + 1) b1 @ user_bytes s1 p (a + 1) n" using Suc.IH [of s1 "a + 1" "i + 1" b1] False by auto
    have "take (i + Suc n) b2 = take i buf @ user_bytes s p a (Suc n)"
      using 2(4) 1(5) user_bytes_Suc [OF Suc.prems(1,2)] False byte_at_tlb_only(2) [OF 1(2)] by simp
    then show ?thesis using step 2 1(4) tlb_only_trans [OF 1(2) 2(2)] by simp
  qed
qed

lemma copy_in_overruns:
  assumes "mapped s (uint a div 128) p" "uint a mod 128 + int n \<le> 128" "0 < n" "length buf < i + n + 3"
  shows "copy_in env a buf (int i) n s = Inl OutOfBounds"
  using assms
proof (induction n arbitrary: a i buf s)
  case (Suc n)
  show ?case
  proof (cases "i + 4 \<le> length buf")
    case True
    obtain s0 b0 s1 b1 where r: "read_into env a buf (int i) s = Inr (b0, s0)" "read_into env a b0 (int i) s0 = Inr (b1, s1)" and 1: "True"
      "mapped s1 (uint a div 128) p" "length b1 = length buf"
      by (rule read_twice_into [where env = env, OF Suc.prems(1) True]) blast
    have n: "0 < n" using True Suc.prems(4) by simp
    have o: "uint (a + 1) div 128 = uint a div 128" "uint (a + 1) mod 128 = uint a mod 128 + 1" using offset_next [of a] Suc.prems(2) n by simp_all
    have "mapped s1 (uint (a + 1) div 128) p" "uint (a + 1) mod 128 + int n \<le> 128" "length b1 < i + 1 + n + 3"
      using 1(2,3) Suc.prems(2,4) unfolding o by simp_all
    then have "copy_in env (a + 1) b1 (int (i + 1)) n s1 = Inl OutOfBounds" using Suc.IH [of s1 "a + 1" b1 "i + 1"] n by simp
    then show ?thesis using r by (simp add: add.commute)
  next
    case False
    obtain s1 where "ReadMem (on_access env) s a 1 = Inr (True, scast (page_bytes (mainMemory s) p ! nat (uint a mod 128)), s1)"
      by (rule read_mapped [OF Suc.prems(1)])
    then show ?thesis using store32_fails [of buf i] False by (simp add: read_into_def)
  qed
qed simp

section \<open>The system call\<close>

text \<open>The caller's registers ask for \<open>n\<close> bytes from \<open>a\<close>, which lie in one page, to file \<open>fd\<close>.\<close>

definition asks_write :: "user_machine \<Rightarrow> nat \<Rightarrow> 32 word \<Rightarrow> nat \<Rightarrow> 32 word \<Rightarrow> bool" where
  "asks_write s p a n fd \<longleftrightarrow> length (registers s) = 40 \<and> registers s ! 4 = a \<and> sint (registers s ! 5) = int n \<and> registers s ! 6 = fd
     \<and> mapped s (uint a div 128) p \<and> uint a mod 128 + int n \<le> 128"

lemma asks_writeD:
  assumes "asks_write s p a n fd"
  shows "ReadRegister s 4 = Inr a" "ReadRegister s 5 = Inr (registers s ! 5)" "ReadRegister s 6 = Inr fd" "sint (registers s ! 5) = int n"
    "mapped s (uint a div 128) p" "uint a mod 128 + int n \<le> 128" "length (registers s) = 40"
  using assms by (simp_all add: asks_write_def ReadRegister_def NumTotalRegs_def aget_def)

lemma new_buffer_ok:
  obtains buf where "new_buffer env (int n + 1) = Inr buf" "length buf = nat (usable env (int n + 1))"
  by (rule that [of "map (\<lambda>k. ucast (heap_junk (fenv env) k)) [0..<nat (usable env (int n + 1))]"]) (simp_all add: new_buffer_def)

lemma write_buffer:
  assumes A: "asks_write s p a n fd" and n: "0 < n" and u: "int n + 3 \<le> usable env (int n + 1)"
  obtains b0 s1 buf where "new_buffer env (int n + 1) = Inr b0" "copy_in env a b0 0 n s = Inr (buf, s1)"
    "tlb_only s s1" "take n buf = user_bytes s p a n" "n + 3 \<le> length buf"
proof -
  note D = asks_writeD [OF A]
  obtain b0 where b0: "new_buffer env (int n + 1) = Inr b0" "length b0 = nat (usable env (int n + 1))" by (rule new_buffer_ok)
  have l: "n + 3 \<le> length b0" using b0(2) u by linarith
  obtain s1 buf where "copy_in env a b0 0 n s = Inr (buf, s1)" "tlb_only s s1" "length buf = length b0" "take n buf = user_bytes s p a n"
    using copy_in_reads [OF D(5,6), of 0 b0 env] n l by auto
  then show ?thesis using b0(1) l by (intro that [of b0 buf s1]) simp_all
qed

text \<open>Entry \<open>i\<close> of the table is the caller's and holds the handle \<open>f\<close> on file \<open>y\<close>, at a position with \<open>n\<close> bytes of the file behind it.\<close>

definition writable :: "user_machine \<Rightarrow> bitmap \<Rightarrow> directory \<Rightarrow> nat \<Rightarrow> int \<Rightarrow> open_file \<Rightarrow> nat \<Rightarrow> bool" where
  "writable s bm t i y f n \<longleftrightarrow> fs_ok (fsys s) bm t \<and> 2 \<le> i \<and> i < length (opened s) \<and> mine (tid s) (opened s ! i) \<and> ofile (opened s ! i) = Some f
     \<and> y \<in> set (file_list t) \<and> held (fsys s) y f \<and> 0 \<le> seekPosition f \<and> seekPosition f + int n \<le> int (length (cont (fsys s) y))"

text \<open>The bytes \<open>bs\<close> are in the file at the position of the handle, the position is behind them, and no other file or entry has changed.\<close>

definition file_written :: "user_machine \<Rightarrow> user_machine \<Rightarrow> bitmap \<Rightarrow> directory \<Rightarrow> nat \<Rightarrow> int \<Rightarrow> open_file \<Rightarrow> byte list \<Rightarrow> bool" where
  "file_written s s' bm t i y f bs \<longleftrightarrow> fs_ok (fsys s') bm t \<and> cont (fsys s') y = overlay (cont (fsys s) y) (nat (seekPosition f)) bs
     \<and> (\<forall>z \<in> set (all_files t). z \<noteq> y \<longrightarrow> cont (fsys s') z = cont (fsys s) z)
     \<and> (\<exists>f'. held (fsys s') y f' \<and> seekPosition f' = seekPosition f + int (length bs) \<and> opened s' = (opened s)[i := (opened s ! i)\<lparr>ofile := Some f'\<rparr>])
     \<and> cout s' = cout s"

lemma listed_file: "y \<in> set (file_list t) \<Longrightarrow> y \<in> set (all_files t)"
  by simp

lemma paging_writable: "only_paging s s1 t \<Longrightarrow> fs_ok (fsys s1) bm t \<Longrightarrow> writable s bm t i y f n \<Longrightarrow> writable s1 bm t i y f n"
  using listed_file [of y t] unfolding writable_def only_paging_def same_files_def by force

lemma paging_written: "only_paging s s1 t \<Longrightarrow> y \<in> set (file_list t) \<Longrightarrow> file_written s1 s' bm t i y f bs \<Longrightarrow> file_written s s' bm t i y f bs"
  using listed_file [of y t] unfolding file_written_def only_paging_def same_files_def by force

lemma tlb_only_paging: "tlb_only s s1 \<Longrightarrow> only_paging s s1 t"
  by (simp add: only_paging_def tlb_only_fields)

text \<open>\<open>WriteHandler\<close> behind its loop.\<close>

definition write_out :: "user_env \<Rightarrow> 32 word \<Rightarrow> 32 word \<Rightarrow> byte list \<Rightarrow> user_machine \<Rightarrow> user_machine res" where
  "write_out env sw fid buffer s =
     rbind (aset buffer (sint sw) 0) (\<lambda>buffer.
     rbind (if fid = 1 then Inr (s\<lparr>cout := cout s @ cstr buffer\<rparr>)
            else
              rbind (file_of (sint fid) s) (\<lambda>(i, f, s).
              rbind (OpenFile_Write write_depth (fenv env) f (fdisk (fsys s)) (take (nat (sint sw)) buffer) (sint sw)) (\<lambda>(n, f, d).
              Inr (with_disk d (put_file i f s))))) IncreasePC)"

lemma write_out_file:
  assumes W: "writable s bm t i y f n" and env: "length (now (fenv env)) = 25" and fd: "sint fd = int i" and sz: "sint sw = int n" and n: "0 < n" "n < length buf"
    and R: "length (registers s) = 40"
  obtains s' where "write_out env sw fd buf s = Inr s'" "file_written s s' bm t i y f (take n buf)" "registers s' = advanced (registers s)"
    "mainMemory s' = mainMemory s" "pageTable s' = pageTable s"
proof -
  have w: "fs_ok (fsys s) bm t" "2 \<le> i" "i < length (opened s)" "mine (tid s) (opened s ! i)" "ofile (opened s ! i) = Some f" "y \<in> set (file_list t)"
    "held (fsys s) y f" "0 \<le> seekPosition f" "seekPosition f + int n \<le> int (length (cont (fsys s) y))" using W by (simp_all add: writable_def)
  let ?u = "take n buf"
  have u: "length ?u = n" using n(2) by simp
  have P: "?u \<noteq> []" "seekPosition f + int (length ?u) \<le> int (length (cont (fsys s) y))" using n w(9) u by auto
  obtain f1 d where r: "WriteAt write_depth (fenv env) f (fdisk (fsys s)) ?u (int n) (seekPosition f) = Inr (int n, f1, d)"
    and d: "fs_ok (with_fdisk (fsys s) d) bm t" "held (with_fdisk (fsys s) d) y f1" "cont (with_fdisk (fsys s) d) y = overlay (cont (fsys s) y) (nat (seekPosition f)) ?u"
      "\<And>z. z \<in> set (all_files t) \<Longrightarrow> z \<noteq> y \<Longrightarrow> cont (with_fdisk (fsys s) d) z = cont (fsys s) z"
    and sp: "seekPosition f1 = seekPosition f"
    by (rule write_held [where fuel = write_depth, OF w(1,6,7) env w(8) P u [symmetric, THEN arg_cong [where f = int]]]) blast
  let ?f = "f1\<lparr>seekPosition := seekPosition f1 + int n\<rparr>"
  have fd0: "fd \<noteq> 1" using fd w(2) by auto
  have g: "file_of (sint fd) s = Inr (i, f, s)" using fd w(2-5) by (simp add: file_of_def GetFile_def aget_def)
  let ?s = "with_disk d (put_file i ?f s)"
  have S: "fsys ?s = with_fdisk (fsys s) d" "opened ?s = (opened s)[i := (opened s ! i)\<lparr>ofile := Some ?f\<rparr>]" "cout ?s = cout s" "registers ?s = registers s"
    "mainMemory ?s = mainMemory s" "pageTable ?s = pageTable s"
    by (simp_all add: with_disk_def put_file_def)
  have "take n (buf[n := 0]) = ?u" by (simp add: take_update_ge)
  moreover have "aset buf (int n) 0 = Inr (buf[n := 0])" using n(2) by (simp add: aset_def)
  ultimately have "write_out env sw fd buf s = IncreasePC ?s"
    using fd0 g r sz by (simp add: write_out_def OpenFile_Write_def del: WriteAt.simps)
  then have o: "write_out env sw fd buf s = Inr (?s\<lparr>registers := advanced (registers s)\<rparr>)" using IncreasePC_ok [of ?s] R S(4) by simp
  have h: "held (with_fdisk (fsys s) d) y ?f" using d(2) by (simp add: held_def Let_def)
  show ?thesis
    by (rule that [OF o]) (use S d(1,3,4) h sp u in \<open>auto simp: file_written_def\<close>)
qed

lemma WriteHandler_parts:
  assumes "ReadRegister s 4 = Inr a" "ReadRegister s 5 = Inr sw" "ReadRegister s 6 = Inr fd"
  shows "WriteHandler env s = rbind (new_buffer env (sint sw + 1)) (\<lambda>buffer.
    rbind (copy_in env a buffer 0 (nat (sint sw)) s) (\<lambda>(buffer, s). write_out env sw fd buffer s))"
  using assms by (simp add: WriteHandler_def write_out_def)

text \<open>A program whose memory begins with ``hi'', and which asks to write \<open>n\<close> bytes of it to file 2.\<close>

definition sample_writer :: "file_system \<Rightarrow> 32 word \<Rightarrow> open_file \<Rightarrow> user_machine" where
  "sample_writer fs n f = (sample_caller fs [104, 105])\<lparr>registers := (replicate 40 0)[5 := n, 6 := 2],
     opened := new_table[2 := \<lparr>ofile = Some f, TID = 1, ForkFileID = -1, in_use = True\<rparr>]\<rparr>"

lemma mapped_update: "mapped (s\<lparr>registers := r, opened := t\<rparr>) v p = mapped s v p"
  by (simp add: mapped_def)

lemma sample_writer:
  "asks_write (sample_writer fs 2 f) 0 0 2 2" "user_bytes (sample_writer fs n f) 0 0 2 = [104, 105]" "fsys (sample_writer fs n f) = fs"
  "opened (sample_writer fs n f) ! 2 = \<lparr>ofile = Some f, TID = 1, ForkFileID = -1, in_use = True\<rparr>" "length (opened (sample_writer fs n f)) = 500"
  "tid (sample_writer fs n f) = 1"
proof -
  have c: "length [104, 105 :: byte] \<le> 84" "0 \<notin> set [104, 105 :: byte]" by simp_all
  have "mapped (sample_writer fs 2 f) 0 0" using sample_caller(1) [OF c, of fs] by (simp add: sample_writer_def mapped_update)
  then show "asks_write (sample_writer fs 2 f) 0 0 2 2" by (simp add: asks_write_def) (simp add: sample_writer_def)
  show "user_bytes (sample_writer fs n f) 0 0 2 = [104, 105]" by (simp add: user_bytes_def page_bytes_def sample_writer_def sample_caller_def)
  show "fsys (sample_writer fs n f) = fs" "tid (sample_writer fs n f) = 1" by (simp_all add: sample_writer_def sample_caller_def sample_user_def)
  show "opened (sample_writer fs n f) ! 2 = \<lparr>ofile = Some f, TID = 1, ForkFileID = -1, in_use = True\<rparr>" "length (opened (sample_writer fs n f)) = 500"
    by (simp_all add: sample_writer_def new_table_def MAX_FILE_NUMBER_def del: upt_conv_Cons_Cons)
qed

text \<open>If the allocator gives fewer than two bytes more than were asked for, a store goes behind the end of the buffer.\<close>

lemma write_overruns:
  assumes "asks_write s p a n fd" "0 < n" "usable env (int n + 1) < int n + 3"
  shows "WriteHandler env s = Inl OutOfBounds"
proof -
  note D = asks_writeD [OF assms(1)]
  obtain b0 where b0: "new_buffer env (int n + 1) = Inr b0" "length b0 = nat (usable env (int n + 1))" by (rule new_buffer_ok)
  have "length b0 < 0 + n + 3" using b0(2) assms(2,3) by linarith
  from copy_in_overruns [OF D(5,6) assms(2) this, of env] show ?thesis using b0(1) D(1-4) by (simp add: WriteHandler_def)
qed

text \<open>C11: \<open>Write\<close> of \<open>n\<close> bytes to an open file, where the bytes lie in one page that is in the TLB, for every allocator. The call asks \<open>new\<close> for
  \<open>n + 1\<close> bytes and stores four bytes at each of the places 0 to \<open>n - 1\<close>. If the allocator provides \<open>n + 3\<close> bytes or more, the file is overwritten at its current position with
  exactly the program's bytes, the position moves behind them, the program counter advances, and no other file, no other entry of the table and no output changes. If it
  provides less, as the \<open>n + 1\<close> bytes that \<open>new\<close> promises are, a store goes behind the end of the buffer.\<close>

theorem WriteHandler_writes_file:
  assumes A: "asks_write s p a n fd" and n: "0 < n" and env: "length (now (fenv env)) = 25" and fd: "sint fd = int i" and W: "writable s bm t i y f n"
  shows "if int n + 3 \<le> usable env (int n + 1)
    then \<exists>s'. WriteHandler env s = Inr s' \<and> file_written s s' bm t i y f (user_bytes s p a n) \<and> registers s' = advanced (registers s)
    else WriteHandler env s = Inl OutOfBounds"
proof (cases "int n + 3 \<le> usable env (int n + 1)")
  case True
  note D = asks_writeD [OF A]
  obtain b0 s1 buf where b: "new_buffer env (int n + 1) = Inr b0" "copy_in env a b0 0 n s = Inr (buf, s1)"
    and t1: "tlb_only s s1" and buf: "take n buf = user_bytes s p a n" "n + 3 \<le> length buf" by (rule write_buffer [OF A n True])
  note F = tlb_only_fields [OF t1] and O = tlb_only_paging [OF t1, of t]
  have fs: "fs_ok (fsys s1) bm t" "y \<in> set (file_list t)" using W F(3) by (simp_all add: writable_def)
  have nb: "n < length buf" and R: "length (registers s1) = 40" using buf(2) F(2) D(7) by simp_all
  obtain s' where s': "write_out env (registers s ! 5) fd buf s1 = Inr s'" "file_written s1 s' bm t i y f (take n buf)" "registers s' = advanced (registers s1)"
    by (rule write_out_file [OF paging_writable [OF O fs(1) W] env fd D(4) n nb R])
  have "WriteHandler env s = Inr s'" using WriteHandler_parts [OF D(1-3)] D(4) b s'(1) by simp
  then show ?thesis using True paging_written [OF O fs(2) s'(2)] s'(3) buf(1) F(2) by auto
next
  case False
  then show ?thesis using write_overruns [OF A n] by auto
qed

lemma sample_writable:
  obtains fs bm t y g where "fs_ok fs bm t" "dir_map t [104, 105] = Some y" "length (cont fs y) = 300" "y \<in> set (file_list t)" "held fs y g" "seekPosition g = 0"
proof -
  obtain fs bm t y where f: "fs_ok fs bm t" "dir_map t [104, 105] = Some y" "numBytes (hdr_at (sectors (fdisk fs)) y) = 300" by (rule with_entry [of 300]) auto
  have y: "dir_map t (key [104, 105]) = Some y" using f(2) by (simp add: key_hi)
  obtain g fs1 where o: "fs_ok fs1 bm t" "held fs1 y g" "seekPosition g = 0" "\<And>z. cont fs1 z = cont fs z"
    by (rule Open_held [where env = sample_env, OF f(1) key_hi(3) y]) blast
  have l: "length (cont fs1 y) = 300" using user_file_open(2) [OF f(1) listed_sector(1) [OF f(1) y]] f(3) o(4) by simp
  show ?thesis by (rule that [OF o(1) f(2) l listed_sector(1) [OF f(1) y] o(2,3)])
qed

theorem WriteHandler_writes_file_witness:
  "\<exists>fs y f s'. WriteHandler ((sample_uenv USE_FIFO)\<lparr>usable := (\<lambda>n. n + 2)\<rparr>) (sample_writer fs 2 f) = Inr s' \<and> take 2 (cont (fsys s') y) = [104, 105]
    \<and> WriteHandler ((sample_uenv USE_FIFO)\<lparr>usable := (\<lambda>n. n)\<rparr>) (sample_writer fs 2 f) = Inl OutOfBounds"
proof -
  obtain fs bm t y g where f: "fs_ok fs bm t" "length (cont fs y) = 300" "y \<in> set (file_list t)" "held fs y g" "seekPosition g = 0"
    by (rule sample_writable) blast
  let ?s = "sample_writer fs 2 g"
  note S = sample_writer [where fs = fs and f = g]
  have W: "writable ?s bm t 2 y g 2" using f by (simp add: writable_def S mine_def)
  have P: "(0 :: nat) < 2" "length (now (fenv ((sample_uenv USE_FIFO)\<lparr>usable := u\<rparr>))) = 25" "sint (2 :: 32 word) = int 2" for u by simp_all
  note T = WriteHandler_writes_file [OF S(1) P(1) P(2) P(3) W]
  obtain s' where "WriteHandler ((sample_uenv USE_FIFO)\<lparr>usable := (\<lambda>n. n + 2)\<rparr>) ?s = Inr s'" "file_written ?s s' bm t 2 y g (user_bytes ?s 0 0 2)"
    using T [of "\<lambda>n. n + 2"] by auto
  moreover from this have "take 2 (cont (fsys s') y) = [104, 105]" using f(5) by (simp add: file_written_def S overlay_def)
  moreover have "WriteHandler ((sample_uenv USE_FIFO)\<lparr>usable := (\<lambda>n. n)\<rparr>) ?s = Inl OutOfBounds" using T [of "\<lambda>n. n"] by simp
  ultimately show ?thesis by blast
qed

section \<open>A byte that is not in memory\<close>

lemma read_into_misses:
  "ReadMem (on_access env) s a 1 = Inr (False, v, s1) \<Longrightarrow> read_into env a buf i s = Inr (buf, s1)"
  by (simp add: read_into_def)

text \<open>C33: \<open>Write\<close> of one byte to an open file, where the byte's page is not in memory, writes a byte that is not the program's: both attempts to read it trap, nothing looks at
  the answer of the second, and the place of the buffer that goes to the file holds what \<open>new\<close> left there. The page fault does bring the program's byte into memory. The
  two bytes that are asked for are enough here, as no store is made.\<close>

theorem WriteHandler_writes_junk:
  assumes V: "vm_ok s bm t sp x pt" and env: "length (now (fenv env)) = 25" and v: "v < length pt" "\<not> valid (pt ! v)" "uint a div 128 = int v"
    and fr: "frames s \<noteq> {..<32}" and T: "tlb s = Some T" "length T = 4" "no_hit T (int v)" "0 \<le> Index s" "Index s < 4" and R: "regs_ok (registers s)"
    and args: "registers s ! 4 = a" "registers s ! 5 = 1" "registers s ! 6 = fd" and fd: "sint fd = int i"
    and W: "writable s bm t i y f 1" and u: "2 \<le> usable env 2"
  shows "\<exists>s' p. WriteHandler env s = Inr s' \<and> file_written s s' bm t i y f [ucast (heap_junk (fenv env) 0)]
    \<and> pageTable s' = Some (pt[v := loaded (pt ! v) p]) \<and> page_bytes (mainMemory s') p = page_bytes (cont (fsys s) x) v"
proof -
  obtain s1 s2 p where r: "RaiseException (on_access env) (missed s) PageFaultException a = Inr s1" "RaiseException (on_access env) (missed s1) PageFaultException a = Inr s2"
    "\<exists>T. tlb s1 = Some T \<and> length T = 4 \<and> no_hit T (int v)" "pageTable s2 = Some (pt[v := loaded (pt ! v) p])"
    "page_bytes (mainMemory s2) p = page_bytes (cont (fsys s) x) v" "only_paging s s2 t" "fs_ok (fsys s2) bm t" "regs_ok (registers s2)"
    by (rule two_traps [OF V env v fr T R])
  have n: "no_hit T (uint a div 128)" using v(3) T(3) by simp
  have m1: "ReadMem (on_access env) s a 1 = Inr (False, 0, s1)" using ReadMem_miss [OF T(1,2) n] r(1) by simp
  have m2: "ReadMem (on_access env) s1 a 1 = Inr (False, 0, s2)" using ReadMem_miss r(2,3) v(3) by auto
  define buf where "buf = map (\<lambda>k. ucast (heap_junk (fenv env) k) :: byte) [0..<nat (usable env 2)]"
  have c: "copy_in env a buf 0 1 s = Inr (buf, s2)" using read_into_misses [OF m1] read_into_misses [OF m2] by simp
  have b: "1 < length buf" using u by (simp add: buf_def)
  have "0 < nat (usable env 2)" using u by simp
  then have "[0..<nat (usable env 2)] = 0 # [1..<nat (usable env 2)]" using upt_conv_Cons by auto
  then have j: "take 1 buf = [ucast (heap_junk (fenv env) 0)]" by (simp add: buf_def)
  have S: "ReadRegister s 4 = Inr a" "ReadRegister s 5 = Inr 1" "ReadRegister s 6 = Inr fd"
    using R args by (simp_all add: regs_ok_def ReadRegister_def NumTotalRegs_def aget_def)
  have sz: "sint (1 :: 32 word) = int 1" and n1: "0 < (1 :: nat)" and R2: "length (registers s2) = 40" using r(8) by (simp_all add: regs_ok_def)
  obtain s' where s': "write_out env 1 fd buf s2 = Inr s'" "file_written s2 s' bm t i y f (take 1 buf)"
    "mainMemory s' = mainMemory s2" "pageTable s' = pageTable s2"
    by (rule write_out_file [OF paging_writable [OF r(6,7) W] env fd sz n1 b R2])
  have "new_buffer env (1 + 1) = Inr buf" by (simp add: new_buffer_def buf_def)
  then have "WriteHandler env s = Inr s'" using WriteHandler_parts [OF S] c s'(1) by (simp del: copy_in.simps)
  moreover have "y \<in> set (file_list t)" using W by (simp add: writable_def)
  note paging_written [OF r(6) this s'(2)]
  ultimately show ?thesis using j r(4,5) s'(3,4) by auto
qed

text \<open>A program with no page in memory, which asks to write the byte at 0 to file 2.\<close>

definition sample_junk_writer :: "file_system \<Rightarrow> open_file \<Rightarrow> user_machine" where
  "sample_junk_writer fs f = (sample_user fs [absent 0, absent 1] empty_tlb 7)\<lparr>registers := (replicate 40 0)[5 := 1, 6 := 2],
     opened := new_table[2 := \<lparr>ofile = Some f, TID = 1, ForkFileID = -1, in_use = True\<rparr>]\<rparr>"

theorem WriteHandler_writes_junk_witness:
  "\<exists>fs bm t y f s'. vm_ok (sample_junk_writer fs f) bm t sample_space y [absent 0, absent 1] \<and> WriteHandler (sample_uenv USE_FIFO) (sample_junk_writer fs f) = Inr s'
    \<and> file_written (sample_junk_writer fs f) s' bm t 2 y f [ucast (heap_junk sample_env 0)]"
proof -
  obtain fs bm t y g where f: "fs_ok fs bm t" "dir_map t [104, 105] = Some y" "length (cont fs y) = 300" "y \<in> set (file_list t)" "held fs y g" "seekPosition g = 0"
    by (rule sample_writable)
  let ?s = "sample_junk_writer fs g" and ?pt = "[absent 0, absent 1]"
  have S: "fsys ?s = fs" "opened ?s = new_table[2 := \<lparr>ofile = Some g, TID = 1, ForkFileID = -1, in_use = True\<rparr>]" "tid ?s = 1"
    "registers ?s = (replicate 40 0)[5 := 1, 6 := 2]" "tlb ?s = Some empty_tlb" "Index ?s = 0" "frames ?s = frames (sample_user fs ?pt empty_tlb 7)"
    by (simp_all add: sample_junk_writer_def sample_user_def frames_def)
  have V: "vm_ok ?s bm t sample_space y ?pt"
    using f(1-3) by (simp add: vm_ok_def sample_junk_writer_def sample_user_def sample_space_def key_hi)
  have l: "length new_table = 500" by (simp add: new_table_def MAX_FILE_NUMBER_def)
  have W: "writable ?s bm t 2 y g 1" using f l by (simp add: writable_def S mine_def)
  have P: "(0 :: nat) < length ?pt" "\<not> valid (?pt ! 0)" "uint (0 :: 32 word) div 128 = int 0" "frames ?s \<noteq> {..<32}" "regs_ok (registers ?s)"
    "registers ?s ! 4 = 0" "registers ?s ! 5 = 1" "registers ?s ! 6 = 2" "sint (2 :: 32 word) = int 2" "2 \<le> usable (sample_uenv USE_FIFO) 2"
    using sample_frames(1) by (simp_all add: S absent_def regs_ok_def)
  have E: "length (now (fenv (sample_uenv USE_FIFO))) = 25" "length empty_tlb = 4" "no_hit empty_tlb (int 0)" "0 \<le> Index ?s" "Index ?s < 4" by (simp_all add: S)
  obtain s' where "WriteHandler (sample_uenv USE_FIFO) ?s = Inr s'" "file_written ?s s' bm t 2 y g [ucast (heap_junk (fenv (sample_uenv USE_FIFO)) 0)]"
    using WriteHandler_writes_junk [OF V E(1) P(1-4) S(5) E(2-5) P(5-9) W P(10)] by blast
  then show ?thesis using V unfolding sample_uenv(1) by blast
qed

end
