(* ===== verification/FileService.thy ===== *)
theory FileService
  imports FsHandles
begin

text \<open>
  The interface between the file system and its clients in the kernel (demand paging, loading, system calls): open a file
  by name, read and write through the handle, close it. The contract is a locale; the file system of \<open>FileSys\<close> with the handles of
  \<open>OpenFile\<close> provides it.
\<close>

section \<open>The contract\<close>

text \<open>\<open>good\<close> is the invariant of the service, \<open>bytes s k\<close> the contents of the file \<open>k\<close>, and \<open>handle s k h\<close> says that \<open>h\<close> is open on \<open>k\<close>.\<close>

locale file_service =
  fixes good :: "'s \<Rightarrow> bool"
    and name_ok :: "'k \<Rightarrow> bool"
    and same :: "'k \<Rightarrow> 'k \<Rightarrow> bool"
    and bytes :: "'s \<Rightarrow> 'k \<Rightarrow> byte list"
    and handle :: "'s \<Rightarrow> 'k \<Rightarrow> 'h \<Rightarrow> bool"
    and open_file :: "'k \<Rightarrow> 's \<Rightarrow> ('h \<times> 's) res"
    and read_file :: "int \<Rightarrow> int \<Rightarrow> 'h \<Rightarrow> 's \<Rightarrow> (byte list \<times> 'h) res"
    and write_file :: "byte list \<Rightarrow> int \<Rightarrow> 'h \<Rightarrow> 's \<Rightarrow> ('h \<times> 's) res"
    and close_file :: "'h \<Rightarrow> 's \<Rightarrow> 's res"
  assumes open_law: "good s \<Longrightarrow> name_ok k \<Longrightarrow>
      \<exists>h s'. open_file k s = Inr (h, s') \<and> good s' \<and> handle s' k h \<and> (\<forall>j. name_ok j \<longrightarrow> bytes s' j = bytes s j)"
    and read_law: "good s \<Longrightarrow> name_ok k \<Longrightarrow> handle s k h \<Longrightarrow> 0 \<le> p \<Longrightarrow>
      \<exists>h'. read_file n p h s = Inr (take (nat n) (drop (nat p) (bytes s k)), h') \<and> handle s k h'"
    and write_law: "good s \<Longrightarrow> name_ok k \<Longrightarrow> handle s k h \<Longrightarrow> 0 \<le> p \<Longrightarrow> bs \<noteq> [] \<Longrightarrow> p + int (length bs) \<le> int (length (bytes s k)) \<Longrightarrow>
      \<exists>h' s'. write_file bs p h s = Inr (h', s') \<and> good s' \<and> handle s' k h' \<and> bytes s' k = overlay (bytes s k) (nat p) bs
        \<and> (\<forall>j. name_ok j \<longrightarrow> \<not> same j k \<longrightarrow> bytes s' j = bytes s j)"
    and close_law: "good s \<Longrightarrow> name_ok k \<Longrightarrow> handle s k h \<Longrightarrow>
      \<exists>s'. close_file h s = Inr s' \<and> good s' \<and> (\<forall>j. name_ok j \<longrightarrow> bytes s' j = bytes s j)"
begin

text \<open>What a client that writes does, and one that reads.\<close>

definition update :: "'k \<Rightarrow> byte list \<Rightarrow> int \<Rightarrow> 's \<Rightarrow> 's res" where
  "update k bs p s = rbind (open_file k s) (\<lambda>(h, s). rbind (write_file bs p h s) (\<lambda>(h, s). close_file h s))"

definition inspect :: "'k \<Rightarrow> int \<Rightarrow> int \<Rightarrow> 's \<Rightarrow> (byte list \<times> 's) res" where
  "inspect k n p s = rbind (open_file k s) (\<lambda>(h, s). rbind (read_file n p h s) (\<lambda>(bs, h). rbind (close_file h s) (\<lambda>s. Inr (bs, s))))"

lemma update_ok:
  assumes "good s" "name_ok k" "0 \<le> p" "bs \<noteq> []" "p + int (length bs) \<le> int (length (bytes s k))"
  shows "\<exists>s'. update k bs p s = Inr s' \<and> good s' \<and> bytes s' k = overlay (bytes s k) (nat p) bs \<and> (\<forall>j. name_ok j \<longrightarrow> \<not> same j k \<longrightarrow> bytes s' j = bytes s j)"
proof -
  obtain h s1 where o: "open_file k s = Inr (h, s1)" "good s1" "handle s1 k h" "\<forall>j. name_ok j \<longrightarrow> bytes s1 j = bytes s j"
    using open_law [OF assms(1,2)] by blast
  then obtain h' s2 where w: "write_file bs p h s1 = Inr (h', s2)" "good s2" "handle s2 k h'" "bytes s2 k = overlay (bytes s1 k) (nat p) bs"
    "\<forall>j. name_ok j \<longrightarrow> \<not> same j k \<longrightarrow> bytes s2 j = bytes s1 j" using write_law [of s1 k h p bs] assms(2-5) by auto
  then obtain s3 where "close_file h' s2 = Inr s3" "good s3" "\<forall>j. name_ok j \<longrightarrow> bytes s3 j = bytes s2 j" using close_law assms(2) by blast
  then show ?thesis using o w assms(2) by (simp add: update_def)
qed

lemma inspect_ok:
  assumes "good s" "name_ok k" "0 \<le> p"
  shows "\<exists>s'. inspect k n p s = Inr (take (nat n) (drop (nat p) (bytes s k)), s') \<and> good s' \<and> (\<forall>j. name_ok j \<longrightarrow> bytes s' j = bytes s j)"
proof -
  obtain h s1 where o: "open_file k s = Inr (h, s1)" "good s1" "handle s1 k h" "\<forall>j. name_ok j \<longrightarrow> bytes s1 j = bytes s j"
    using open_law [OF assms(1,2)] by blast
  then obtain h' where r: "read_file n p h s1 = Inr (take (nat n) (drop (nat p) (bytes s1 k)), h')" "handle s1 k h'" using read_law assms(2,3) by blast
  then obtain s2 where "close_file h' s1 = Inr s2" "good s2" "\<forall>j. name_ok j \<longrightarrow> bytes s2 j = bytes s1 j" using close_law o(2) assms(2) by blast
  then show ?thesis using o r assms(2) by (simp add: inspect_def)
qed

lemma inspect_updated:
  assumes "good s" "name_ok k" "0 \<le> p" "bs \<noteq> []" "p + int (length bs) \<le> int (length (bytes s k))"
  shows "\<exists>s1 s2. update k bs p s = Inr s1 \<and> inspect k (int (length bs)) p s1 = Inr (bs, s2)"
proof -
  obtain s1 where u: "update k bs p s = Inr s1" "good s1" "bytes s1 k = overlay (bytes s k) (nat p) bs" using update_ok [OF assms] by blast
  have "take (nat (int (length bs))) (drop (nat p) (overlay (bytes s k) (nat p) bs)) = bs"
    using assms(3,5) by (simp add: overlay_def)
  then show ?thesis using u inspect_ok [OF u(2) assms(2,3), of "int (length bs)"] by auto
qed

end

section \<open>The file system provides it\<close>

text \<open>The operations with the kernel's environment, on files of the directory \<open>t\<close>.\<close>

definition fs_open :: "fs_env \<Rightarrow> byte list \<Rightarrow> file_system \<Rightarrow> (open_file \<times> file_system) res" where
  "fs_open env nm fs = rbind (Open env fs nm) (\<lambda>(f, fs). case f of None \<Rightarrow> Inl NullPointer | Some f \<Rightarrow> Inr (f, fs))"

definition fs_read :: "fs_env \<Rightarrow> int \<Rightarrow> int \<Rightarrow> open_file \<Rightarrow> file_system \<Rightarrow> (byte list \<times> open_file) res" where
  "fs_read env n p f fs = ReadAt env f (sectors (fdisk fs)) n p"

definition fs_write :: "fs_env \<Rightarrow> byte list \<Rightarrow> int \<Rightarrow> open_file \<Rightarrow> file_system \<Rightarrow> (open_file \<times> file_system) res" where
  "fs_write env bs p f fs =
     rbind (WriteAt write_depth env f (fdisk fs) bs (int (length bs)) p) (\<lambda>(n, f, d). Inr (f, fs\<lparr>fdisk := d\<rparr>))"

definition fs_close :: "open_file \<Rightarrow> file_system \<Rightarrow> file_system res" where
  "fs_close f fs = rbind (OpenFile_delete f (fdisk fs)) (\<lambda>d. Inr (fs\<lparr>fdisk := d\<rparr>))"

definition listed :: "directory \<Rightarrow> byte list \<Rightarrow> bool" where
  "listed t nm \<longleftrightarrow> slash \<notin> set nm \<and> dir_map t (key nm) \<noteq> None"

definition sector_of_name :: "directory \<Rightarrow> byte list \<Rightarrow> int" where
  "sector_of_name t nm = the (dir_map t (key nm))"

lemma listedD:
  assumes "fs_ok fs bm t" "listed t nm"
  shows "slash \<notin> set nm" "dir_map t (key nm) = Some (sector_of_name t nm)" "sector_of_name t nm \<in> set (file_list t)" "sector_of_name t nm \<in> set (all_files t)"
proof -
  show s: "slash \<notin> set nm" "dir_map t (key nm) = Some (sector_of_name t nm)" using assms(2) by (auto simp: listed_def sector_of_name_def)
  show "sector_of_name t nm \<in> set (file_list t)" "sector_of_name t nm \<in> set (all_files t)" by (rule listed_sector [OF assms(1) s(2)])+
qed

lemma different_sector: "fs_ok fs bm t \<Longrightarrow> listed t nm \<Longrightarrow> listed t nm' \<Longrightarrow> key nm \<noteq> key nm' \<Longrightarrow> sector_of_name t nm \<noteq> sector_of_name t nm'"
  using dir_map_inj listedD(2) by metis

interpretation fsv: file_service "\<lambda>fs. fs_ok fs bm t \<and> length (now env) = 25" "listed t" "\<lambda>j k. key j = key k" "\<lambda>fs nm. cont fs (sector_of_name t nm)"
  "\<lambda>fs nm. held fs (sector_of_name t nm)" "fs_open env" "fs_read env" "fs_write env" fs_close for bm t env
proof (unfold_locales, goal_cases)
  case (1 fs nm)
  then have ok: "fs_ok fs bm t" "length (now env) = 25" by simp_all
  note L = listedD [OF ok(1) 1(2)]
  obtain f fs1 where "Open env fs nm = Inr (Some f, fs1)" "fs_ok fs1 bm t" "held fs1 (sector_of_name t nm) f" "\<And>y. cont fs1 y = cont fs y"
    by (rule Open_held [where env = env, OF ok(1) L(1,2)]) blast
  then show ?case using ok(2) by (simp add: fs_open_def)
next
  case (2 fs nm f p n)
  then have ok: "fs_ok fs bm t" "length (now env) = 25" by simp_all
  obtain f' where "ReadAt env f (sectors (fdisk fs)) n p = Inr (take (nat n) (drop (nat p) (cont fs (sector_of_name t nm))), f')" "held fs (sector_of_name t nm) f'"
    by (rule read_held [OF ok(1) listedD(3) [OF ok(1) 2(2)] 2(3) ok(2) 2(4)])
  then show ?case by (simp add: fs_read_def)
next
  case (3 fs nm f p bs)
  then have ok: "fs_ok fs bm t" "length (now env) = 25" by simp_all
  note L = listedD [OF ok(1) 3(2)]
  obtain f' d where w: "WriteAt write_depth env f (fdisk fs) bs (int (length bs)) p = Inr (int (length bs), f', d)" "fs_ok (with_fdisk fs d) bm t"
    "held (with_fdisk fs d) (sector_of_name t nm) f'" "cont (with_fdisk fs d) (sector_of_name t nm) = overlay (cont fs (sector_of_name t nm)) (nat p) bs"
    and k: "\<And>y. y \<in> set (all_files t) \<Longrightarrow> y \<noteq> sector_of_name t nm \<Longrightarrow> cont (with_fdisk fs d) y = cont fs y"
    by (rule write_held [where fuel = write_depth, OF ok(1) L(3) 3(3) ok(2) 3(4-6) refl]) blast
  have "cont (with_fdisk fs d) (sector_of_name t j) = cont fs (sector_of_name t j)" if "listed t j" "key j \<noteq> key nm" for j
    using k [OF listedD(4) [OF ok(1) that(1)] different_sector [OF ok(1) that(1) 3(2) that(2)]] .
  then show ?case using w ok(2) by (simp add: fs_write_def del: WriteAt.simps)
next
  case (4 fs nm f)
  then have ok: "fs_ok fs bm t" "length (now env) = 25" by simp_all
  obtain d where "OpenFile_delete f (fdisk fs) = Inr d" "fs_ok (with_fdisk fs d) bm t" "\<And>y. y \<in> set (all_files t) \<Longrightarrow> cont (with_fdisk fs d) y = cont fs y"
    by (rule close_held [OF ok(1) listedD(3) [OF ok(1) 4(2)] 4(3)]) blast
  then show ?case using ok(2) listedD(4) [OF ok(1)] by (simp add: fs_close_def)
qed

section \<open>The client's view\<close>

text \<open>C2: Bytes written anywhere within a file of the root directory, through a handle that is then closed, are read back by whoever opens the
  file by its name again; the other bytes of the file, all other files and the good order of the file system are kept.\<close>

theorem file_update_read_back:
  assumes "fs_ok fs bm t" "length (now env) = 25" "listed t nm" "0 \<le> p" "bs \<noteq> []" "p + int (length bs) \<le> int (length (cont fs (sector_of_name t nm)))"
  shows "\<exists>fs1 fs2. rbind (fs_open env nm fs) (\<lambda>(f, fs). rbind (fs_write env bs p f fs) (\<lambda>(f, fs). fs_close f fs)) = Inr fs1 \<and> fs_ok fs1 bm t
    \<and> rbind (fs_open env nm fs1) (\<lambda>(f, fs). rbind (fs_read env (int (length bs)) p f fs) (\<lambda>(bs, f). rbind (fs_close f fs) (\<lambda>fs. Inr (bs, fs)))) = Inr (bs, fs2)
    \<and> cont fs1 (sector_of_name t nm) = overlay (cont fs (sector_of_name t nm)) (nat p) bs
    \<and> (\<forall>k. listed t k \<longrightarrow> key k \<noteq> key nm \<longrightarrow> cont fs1 (sector_of_name t k) = cont fs (sector_of_name t k))"
proof -
  have ok: "fs_ok fs bm t \<and> length (now env) = 25" using assms(1,2) by simp
  obtain fs1 where u: "fsv.update env nm bs p fs = Inr fs1" "fs_ok fs1 bm t" "cont fs1 (sector_of_name t nm) = overlay (cont fs (sector_of_name t nm)) (nat p) bs"
    "\<forall>k. listed t k \<longrightarrow> key k \<noteq> key nm \<longrightarrow> cont fs1 (sector_of_name t k) = cont fs (sector_of_name t k)"
    using fsv.update_ok [OF ok assms(3-6)] by blast
  moreover obtain fs2 where "fsv.inspect env nm (int (length bs)) p fs1 = Inr (bs, fs2)"
    using fsv.inspect_updated [OF ok assms(3-6)] u(1) by auto
  ultimately show ?thesis unfolding fsv.update_def fsv.inspect_def by blast
qed

theorem file_update_read_back_witness:
  "\<exists>fs fs1 fs2. rbind (fs_open sample_env [104, 105] fs) (\<lambda>(f, fs). rbind (fs_write sample_env [1, 2, 3] 200 f fs) (\<lambda>(f, fs). fs_close f fs)) = Inr fs1
    \<and> rbind (fs_open sample_env [104, 105] fs1) (\<lambda>(f, fs). rbind (fs_read sample_env 3 200 f fs) (\<lambda>(bs, f). rbind (fs_close f fs) (\<lambda>fs. Inr (bs, fs)))) = Inr ([1, 2, 3], fs2)"
proof -
  obtain fs bm t x where f: "fs_ok fs bm t" "dir_map t [104, 105] = Some x" "numBytes (hdr_at (sectors (fdisk fs)) x) = 300" by (rule with_entry [of 300]) auto
  have s: "dir_map t (key [104, 105]) = Some x" using f(2) by (simp add: key_hi)
  have "int (length (cont fs x)) = 300" using user_file_open(2) [OF f(1) listed_sector(1) [OF f(1) s]] f(3) by simp
  then have "listed t [104, 105]" "(200 :: int) + int (length [1, 2, 3 :: byte]) \<le> int (length (cont fs (sector_of_name t [104, 105])))"
    using s by (simp_all add: listed_def sector_of_name_def)
  then obtain fs1 fs2 where "rbind (fs_open sample_env [104, 105] fs) (\<lambda>(f, fs). rbind (fs_write sample_env [1, 2, 3] 200 f fs) (\<lambda>(f, fs). fs_close f fs)) = Inr fs1"
      "rbind (fs_open sample_env [104, 105] fs1) (\<lambda>(f, fs). rbind (fs_read sample_env (int (length [1, 2, 3 :: byte])) 200 f fs)
        (\<lambda>(bs, f). rbind (fs_close f fs) (\<lambda>fs. Inr (bs, fs)))) = Inr ([1, 2, 3], fs2)"
    using file_update_read_back [OF f(1), of sample_env "[104, 105]" 200 "[1, 2, 3]"] by (auto simp: sample_env_def)
  then show ?thesis by auto
qed

end
