(* ===== verification/FileTools.thy ===== *)
theory FileTools
  imports FsHandles
begin

text \<open>
  Two commands of the kernel, \<open>-cp\<close> and \<open>-p\<close> (filesys/fstest.cc): \<open>Copy\<close> brings a file of the host into the file system,
  \<open>Print\<close> writes a file to the standard output, both in pieces of ten bytes. A host file is its bytes, \<open>None\<close> when it
  cannot be opened; what \<open>Print\<close> writes is a result.
\<close>

section \<open>Copy\<close>

definition TransferSize :: nat where "TransferSize = 10"

text \<open>The loop with \<open>fread\<close>: the result of \<open>Write\<close> is not looked at.\<close>

function copy_chunks :: "fs_env \<Rightarrow> open_file \<Rightarrow> byte list \<Rightarrow> fs_disk \<Rightarrow> (open_file \<times> fs_disk) res" where
  "copy_chunks env f source d =
     (let buffer = take TransferSize source; amountRead = length buffer in
      if amountRead > 0 then
        rbind (OpenFile_Write write_depth env f d buffer (int amountRead)) (\<lambda>(_, f, d). copy_chunks env f (drop TransferSize source) d)
      else Inr (f, d))"
  by pat_completeness auto
termination by (relation "measure (\<lambda>(env, f, source, d). length source)") (auto simp: TransferSize_def)

definition Copy :: "fs_env \<Rightarrow> byte list option \<Rightarrow> file_system \<Rightarrow> byte list \<Rightarrow> file_system res" where
  "Copy env source fs nm =
     (case source of None \<Rightarrow> Inr fs
      | Some bytes \<Rightarrow>
        rbind (Create env fs nm (int (length bytes))) (\<lambda>(ok, fs).
        if \<not> ok then Inr fs else
        rbind (Open env fs nm) (\<lambda>(f, fs).
        case f of None \<Rightarrow> Inl AssertFailed
        | Some f \<Rightarrow>
          rbind (copy_chunks env f bytes (fdisk fs)) (\<lambda>(f, d).
          rbind (OpenFile_delete f d) (\<lambda>d. Inr (fs\<lparr>fdisk := d\<rparr>))))))"

section \<open>Print\<close>

lemma Read_moves:
  assumes "OpenFile_Read env f st n = Inr (bs, f')" "bs \<noteq> []"
  shows "seekPosition f < FileLength (hdr f)" "seekPosition f' = seekPosition f + int (length bs)" "FileLength (hdr f') = FileLength (hdr f)"
proof -
  obtain g where r: "ReadAt env f st n (seekPosition f) = Inr (bs, g)" "f' = g\<lparr>seekPosition := seekPosition f + int (length bs)\<rparr> \<or> f' = g\<lparr>seekPosition := seekPosition g + int (length bs)\<rparr>"
    using assms(1) by (auto simp: OpenFile_Read_def rbind_eq_Inr)
  show "seekPosition f < FileLength (hdr f)" using r(1) assms(2) by (auto simp: ReadAt_def Let_def split: if_splits)
  show "seekPosition f' = seekPosition f + int (length bs)" "FileLength (hdr f') = FileLength (hdr f)"
    using ReadAt_time [OF r(1)] r(2) by (auto simp: FileLength_def)
qed

lemma Read_nearer:
  assumes "OpenFile_Read env f st n = Inr (bs, f')" "bs \<noteq> []"
  shows "FileLength (hdr f') - seekPosition f' < FileLength (hdr f) - seekPosition f" "seekPosition f < FileLength (hdr f)"
  using Read_moves [OF assms] assms(2) by simp_all

text \<open>The loop with \<open>Read\<close>: it ends, because each round moves the position towards the end of the file.\<close>

function print_chunks :: "fs_env \<Rightarrow> open_file \<Rightarrow> store \<Rightarrow> (byte list \<times> open_file) res" where
  "print_chunks env f st =
     (case OpenFile_Read env f st (int TransferSize) of
        Inl e \<Rightarrow> Inl e
      | Inr (buffer, f) \<Rightarrow>
          if buffer \<noteq> [] then rbind (print_chunks env f st) (\<lambda>(out, f). Inr (buffer @ out, f)) else Inr ([], f))"
  by pat_completeness auto
termination
  by (relation "measure (\<lambda>(env, f, st). nat (FileLength (hdr f) - seekPosition f))") (auto intro: Read_nearer)

definition Print :: "fs_env \<Rightarrow> file_system \<Rightarrow> byte list \<Rightarrow> (byte list option \<times> file_system) res" where
  "Print env fs nm =
     rbind (Open env fs nm) (\<lambda>(f, fs).
     case f of None \<Rightarrow> Inr (None, fs)
     | Some f \<Rightarrow>
       rbind (print_chunks env f (sectors (fdisk fs))) (\<lambda>(out, f).
       rbind (OpenFile_delete f (fdisk fs)) (\<lambda>d. Inr (Some out, fs\<lparr>fdisk := d\<rparr>))))"

declare copy_chunks.simps [simp del] print_chunks.simps [simp del]

section \<open>The loops on a file\<close>

lemma held_seek [simp]: "held fs x (f\<lparr>seekPosition := p\<rparr>) = held fs x f"
  by (simp add: held_def)

lemma overlay_then: "p \<le> length c \<Longrightarrow> take (p + length xs) (overlay c p xs) = take p c @ xs"
  by (simp add: overlay_def)

lemma copy_chunks_held:
  assumes "fs_ok fs bm t" "x \<in> set (file_list t)" "held fs x f" "length (now env) = 25" "0 \<le> seekPosition f"
    "seekPosition f + int (length source) = int (length (cont fs x))"
  shows "\<exists>f' d. copy_chunks env f source (fdisk fs) = Inr (f', d) \<and> fs_ok (with_fdisk fs d) bm t \<and> held (with_fdisk fs d) x f'
    \<and> cont (with_fdisk fs d) x = take (nat (seekPosition f)) (cont fs x) @ source
    \<and> (\<forall>y \<in> set (all_files t). y \<noteq> x \<longrightarrow> cont (with_fdisk fs d) y = cont fs y)"
  using assms
proof (induction source arbitrary: fs f rule: length_induct)
  case (1 source)
  let ?b = "take TransferSize source" and ?p = "seekPosition f"
  show ?case
  proof (cases "source = []")
    case True
    then have "copy_chunks env f source (fdisk fs) = Inr (f, fdisk fs)" by (simp add: copy_chunks.simps [of env f "[]"])
    then show ?thesis using 1(2-7) True by (intro exI [of _ f] exI [of _ "fdisk fs"]) simp
  next
    case False
    then have b: "?b \<noteq> []" "?p + int (length ?b) \<le> int (length (cont fs x))" using 1(7) by (simp_all add: TransferSize_def)
    obtain g d where w: "WriteAt write_depth env f (fdisk fs) ?b (int (length ?b)) ?p = Inr (int (length ?b), g, d)" and ok: "fs_ok (with_fdisk fs d) bm t"
      and g: "held (with_fdisk fs d) x g" "cont (with_fdisk fs d) x = overlay (cont fs x) (nat ?p) ?b"
      and y: "\<And>y. y \<in> set (all_files t) \<Longrightarrow> y \<noteq> x \<Longrightarrow> cont (with_fdisk fs d) y = cont fs y" and sp: "seekPosition g = ?p"
      by (rule write_held [where fuel = write_depth, OF 1(2-6) b refl]) blast
    let ?g = "g\<lparr>seekPosition := ?p + int (length ?b)\<rparr>" and ?rest = "drop TransferSize source"
    have "length ?rest < length source" using False by (simp add: TransferSize_def)
    moreover have "held (with_fdisk fs d) x ?g" "0 \<le> seekPosition ?g" "seekPosition ?g + int (length ?rest) = int (length (cont (with_fdisk fs d) x))"
      using g 1(6,7) b(2) by (simp_all add: overlay_def)
    ultimately obtain f' d' where r: "copy_chunks env ?g ?rest d = Inr (f', d')" "fs_ok (with_fdisk fs d') bm t" "held (with_fdisk fs d') x f'"
      "cont (with_fdisk fs d') x = take (nat (seekPosition ?g)) (cont (with_fdisk fs d) x) @ ?rest"
      "\<forall>y \<in> set (all_files t). y \<noteq> x \<longrightarrow> cont (with_fdisk fs d') y = cont (with_fdisk fs d) y"
      using 1(1) [rule_format, OF _ ok 1(3) _ 1(5), of ?rest ?g] by auto
    have "copy_chunks env f source (fdisk fs) = Inr (f', d')"
      using False b(1) w sp r(1) by (simp add: copy_chunks.simps [of env f source] OpenFile_Write_def Let_def del: WriteAt.simps)
    moreover have "nat (seekPosition ?g) = nat ?p + length ?b" using 1(6) by (simp add: nat_add_distrib)
    moreover have "nat ?p \<le> length (cont fs x)" using 1(7) by linarith
    ultimately show ?thesis using r(2-5) g(2) y overlay_then [of "nat ?p" "cont fs x" ?b] by simp
  qed
qed

lemma print_chunks_held:
  assumes "fs_ok fs bm t" "x \<in> set (file_list t)" "held fs x f" "length (now env) = 25" "0 \<le> seekPosition f"
  shows "\<exists>f'. print_chunks env f (sectors (fdisk fs)) = Inr (drop (nat (seekPosition f)) (cont fs x), f') \<and> held fs x f'"
  using assms
proof (induction "length (cont fs x) - nat (seekPosition f)" arbitrary: f rule: less_induct)
  case less
  let ?p = "seekPosition f" let ?b = "take 10 (drop (nat ?p) (cont fs x))"
  obtain g where r: "ReadAt env f (sectors (fdisk fs)) 10 ?p = Inr (take (nat 10) (drop (nat ?p) (cont fs x)), g)" and g: "held fs x g" "seekPosition g = ?p"
    by (rule read_held [OF less(2-6)])
  let ?g = "g\<lparr>seekPosition := ?p + int (length ?b)\<rparr>"
  have R: "OpenFile_Read env f (sectors (fdisk fs)) (int TransferSize) = Inr (?b, ?g)"
    using r g(2) by (simp add: OpenFile_Read_def TransferSize_def)
  show ?case
  proof (cases "?b = []")
    case True
    then show ?thesis using R g(1) by (simp add: print_chunks.simps [of env f])
  next
    case False
    then have l: "length (cont fs x) - nat (seekPosition ?g) < length (cont fs x) - nat ?p" and n: "nat (seekPosition ?g) = nat ?p + length ?b"
      using less(6) by (auto simp: nat_add_distrib)
    obtain f' where "print_chunks env ?g (sectors (fdisk fs)) = Inr (drop (nat (seekPosition ?g)) (cont fs x), f')" "held fs x f'"
      using less(1) [OF l less(2,3) _ less(5)] g(1) less(6) by auto
    moreover have "?b @ drop (nat ?p + length ?b) (cont fs x) = drop (nat ?p) (cont fs x)"
      by (metis append_take_drop_id drop_drop add.commute length_take min.cobounded2 take_all_iff nat_le_linear length_drop min_def)
    ultimately show ?thesis using R False n by (simp add: print_chunks.simps [of env f])
  qed
qed

section \<open>A file copied in is printed\<close>

text \<open>C3: A host file that fits on the disk is brought in whole by \<open>Copy\<close> under a new name: the file system stays in good order, the other files keep
  their contents, and \<open>Print\<close> then writes exactly the bytes of the host file.\<close>

theorem Copy_then_Print:
  assumes "fs_ok fs bm t" "env_ok env" "slash \<notin> set nm" "n = nat (divRoundUp (int (length source)) SectorSize)"
    "dir_map t (key nm) = None" "card (dom (dir_map t)) < 10" "n + index_sectors n < card (bm.free bm)" "length (cstr (GetFileExtension nm)) \<le> 4"
  shows "\<exists>fs1 bm1 t1 fs2. Copy env (Some source) fs nm = Inr fs1 \<and> fs_ok fs1 bm1 t1 \<and> files fs1 t1 (key nm) = Some source
    \<and> (\<forall>k. key k \<noteq> key nm \<longrightarrow> files fs1 t1 (key k) = files fs t (key k)) \<and> Print env fs1 nm = Inr (Some source, fs2) \<and> fs_ok fs2 bm1 t1"
proof -
  have now: "length (now env) = 25" using assms(2) by (simp add: env_ok_def)
  obtain fa bm1 t1 where c: "Create env fs nm (int (length source)) = Inr (True, fa)" "fs_ok fa bm1 t1"
    and l: "map_option (\<lambda>c. int (length c)) (files fa t1 (key nm)) = Some (int (length source))"
    and o: "\<forall>k. key k \<noteq> key nm \<longrightarrow> files fa t1 (key k) = files fs t (key k)"
    using create_added [OF assms(1-3) _ assms(4-8)] by auto
  obtain x where x: "dir_map t1 (key nm) = Some x" "length (cont fa x) = length source" using l by (auto simp: files_cont)
  note L = listed_sector [OF c(2) x(1)]
  obtain f fb where b: "Open env fa nm = Inr (Some f, fb)" "fs_ok fb bm1 t1" "held fb x f" "seekPosition f = 0" "\<And>y. cont fb y = cont fa y"
    by (rule Open_held [OF c(2) assms(3) x(1)]) blast
  obtain f' d where w: "copy_chunks env f source (fdisk fb) = Inr (f', d)" "fs_ok (with_fdisk fb d) bm1 t1" "held (with_fdisk fb d) x f'"
      "cont (with_fdisk fb d) x = source" "\<forall>y \<in> set (all_files t1). y \<noteq> x \<longrightarrow> cont (with_fdisk fb d) y = cont fb y"
    using copy_chunks_held [OF b(2) L(1) b(3) now, of source] b(4,5) x(2) by auto
  obtain e where e: "OpenFile_delete f' d = Inr e" "fs_ok (with_fdisk fb e) bm1 t1" "\<And>y. y \<in> set (all_files t1) \<Longrightarrow> cont (with_fdisk fb e) y = cont (with_fdisk fb d) y"
    by (rule close_held [OF w(2) L(1) w(3)]) simp
  let ?f1 = "with_fdisk fb e"
  have C: "Copy env (Some source) fs nm = Inr ?f1" using c(1) b(1) w(1) e(1) by (simp add: Copy_def)
  have F: "files ?f1 t1 (key nm) = Some source" using x(1) w(4) e(3) [OF L(2)] by (simp add: files_cont)
  have O: "files ?f1 t1 (key k) = files fs t (key k)" if k: "key k \<noteq> key nm" for k
  proof (cases "dir_map t1 (key k)")
    case (Some y)
    have "y \<in> set (all_files t1)" "y \<noteq> x" using listed_sector(2) [OF c(2) Some] dir_map_inj [OF c(2) _ x(1)] Some k by blast+
    then have "cont ?f1 y = cont fa y" using e(3) w(5) b(5) by metis
    then show ?thesis using o [rule_format, OF k] Some by (simp add: files_cont)
  qed (use o [rule_format, OF k] in \<open>simp add: files_cont\<close>)
  obtain g fc where g: "Open env ?f1 nm = Inr (Some g, fc)" "fs_ok fc bm1 t1" "held fc x g" "seekPosition g = 0" "\<And>y. cont fc y = cont ?f1 y"
    by (rule Open_held [OF e(2) assms(3) x(1)]) blast
  obtain g' where p: "print_chunks env g (sectors (fdisk fc)) = Inr (source, g')" "held fc x g'"
    using print_chunks_held [OF g(2) L(1) g(3) now] g(4,5) w(4) e(3) [OF L(2)] by auto
  obtain d2 where "OpenFile_delete g' (fdisk fc) = Inr d2" "fs_ok (with_fdisk fc d2) bm1 t1"
    by (rule close_held [OF g(2) L(1) p(2)])
  then have "Print env ?f1 nm = Inr (Some source, with_fdisk fc d2)" "fs_ok (with_fdisk fc d2) bm1 t1" using g(1) p(1) by (simp_all add: Print_def)
  then show ?thesis using C e(2) F O by blast
qed

theorem Copy_then_Print_witness:
  "\<exists>fs bm t fs1 fs2. fs_ok fs bm t \<and> Copy sample_env (Some [1, 2, 3, 4, 5, 6, 7, 8, 9, 10, 11, 12]) fs [104, 105] = Inr fs1
    \<and> Print sample_env fs1 [104, 105] = Inr (Some [1, 2, 3, 4, 5, 6, 7, 8, 9, 10, 11, 12], fs2)"
proof -
  let ?src = "[1, 2, 3, 4, 5, 6, 7, 8, 9, 10, 11, 12] :: byte list"
  obtain fs bm where f: "fs_ok fs bm (new_Directory sample_env)" "card (bm.free bm) = 1012" by (rule formatted)
  have n: "1 = nat (divRoundUp (int (length ?src)) SectorSize)" by (simp add: divRoundUp_def SectorSize_def)
  have P: "dir_map (new_Directory sample_env) (key [104, 105]) = None" "card (dom (dir_map (new_Directory sample_env))) < 10"
    "1 + index_sectors 1 < card (bm.free bm)" "length (cstr (GetFileExtension [104, 105])) \<le> 4"
    using f(2) by (simp_all add: new_Directory_empty index_sectors_def key_hi cstr_def)
  show ?thesis using Copy_then_Print [OF f(1) sample_env_ok key_hi(3) n P] f(1) by blast
qed

end
