(* ===== verification/TlbPolicies.thy ===== *)
theory TlbPolicies
  imports VmTraps
begin

text \<open>
  What the three ways of replacing a TLB entry (userprog/exception.cc) have in common: their contract as a locale, the run of
  misses as its client, and the three interpretations.
\<close>

section \<open>The contract\<close>

text \<open>Two entries that translate alike; the use bit may differ.\<close>

definition same_map :: "translation_entry \<Rightarrow> translation_entry \<Rightarrow> bool" where
  "same_map x y \<longleftrightarrow> x\<lparr>use := False\<rparr> = y\<lparr>use := False\<rparr>"

lemma same_map_refl [simp]: "same_map x x" "same_map (x\<lparr>use := u\<rparr>) x"
  by (simp_all add: same_map_def)

lemma same_map_trans: "same_map x y \<Longrightarrow> same_map y z \<Longrightarrow> same_map x z"
  by (simp add: same_map_def)

type_synonym replacement_routine = "translation_entry \<Rightarrow> translation_entry list \<Rightarrow> int \<Rightarrow> (translation_entry list \<times> int) res"

text \<open>A run of misses, each with the entry that goes into the TLB.\<close>

fun put_all :: "replacement_routine \<Rightarrow> translation_entry list \<Rightarrow> translation_entry list \<Rightarrow> int \<Rightarrow> (translation_entry list \<times> int) res" where
  "put_all put [] t h = Inr (t, h)"
| "put_all put (e # es) t h = rbind (put e t h) (\<lambda>(t, h). put_all put es t h)"

definition holds_from :: "translation_entry set \<Rightarrow> translation_entry list \<Rightarrow> int \<Rightarrow> bool" where
  "holds_from E t h \<longleftrightarrow> length t = 4 \<and> 0 \<le> h \<and> h < 4 \<and> (\<forall>x \<in> set t. \<exists>y \<in> E. same_map x y)"

definition holds :: "translation_entry \<Rightarrow> translation_entry list \<Rightarrow> bool" where
  "holds e t \<longleftrightarrow> (\<exists>x \<in> set t. same_map x e)"

locale replacement =
  fixes put :: replacement_routine
  assumes put_law: "length t = 4 \<Longrightarrow> 0 \<le> h \<Longrightarrow> h < 4 \<Longrightarrow> \<exists>t' h'. put e t h = Inr (t', h') \<and> holds_from (insert e (set t)) t' h' \<and> holds e t'"
begin

lemma put_all_ok:
  "holds_from E t h \<Longrightarrow> \<exists>t' h'. put_all put es t h = Inr (t', h') \<and> holds_from (E \<union> set es) t' h' \<and> (es \<noteq> [] \<longrightarrow> holds (last es) t')"
proof (induction es arbitrary: E t h)
  case (Cons e es)
  have c: "length t = 4" "0 \<le> h" "h < 4" using Cons.prems by (simp_all add: holds_from_def)
  obtain t1 h1 where p: "put e t h = Inr (t1, h1)" "holds_from (insert e (set t)) t1 h1" "holds e t1" using put_law [OF c, of e] by blast
  have "\<exists>y \<in> insert e E. same_map x y" if x: "x \<in> set t1" for x
  proof -
    obtain y where y: "y \<in> insert e (set t)" "same_map x y" using p(2) x by (auto simp: holds_from_def)
    show ?thesis
    proof (cases "y = e")
      case False
      then obtain z where "z \<in> E" "same_map y z" using y(1) Cons.prems by (auto simp: holds_from_def)
      then show ?thesis using same_map_trans [OF y(2)] by blast
    qed (use y(2) in blast)
  qed
  then have "holds_from (insert e E) t1 h1" using p(2) by (simp add: holds_from_def)
  from Cons.IH [OF this] show ?case using p(1,3) by auto
qed auto

end

section \<open>The three routines\<close>

definition put_fifo :: replacement_routine where
  "put_fifo e t h = rbind (TLBFIFO e t) (\<lambda>t. Inr (t, h))"

lemma holds_from_update:
  assumes "length t = 4" "0 \<le> h" "h < 4" "same_map x e" "i < 4" shows "holds_from (insert e (set t)) (t[i := x]) h" "holds e (t[i := x])"
proof -
  show "holds_from (insert e (set t)) (t[i := x]) h"
    using assms set_update_subset_insert [of t i x] same_map_refl by (fastforce simp: holds_from_def)
  have "x \<in> set (t[i := x])" using assms(1,5) by (simp add: set_update_memI)
  then show "holds e (t[i := x])" using assms(4) by (auto simp: holds_def)
qed

lemma put_fifo_law:
  assumes "length t = 4" "0 \<le> h" "h < 4"
  shows "\<exists>t' h'. put_fifo e t h = Inr (t', h') \<and> holds_from (insert e (set t)) t' h' \<and> holds e t'"
proof -
  obtain r where r: "find_entry (\<lambda>e. \<not> valid e) t 0 4 = Inr r" "case r of None \<Rightarrow> True | Some k \<Rightarrow> 0 \<le> k \<and> k < 4"
    using find_entry_spec [of 0 4 t "\<lambda>e. \<not> valid e"] assms(1) by (auto split: option.splits)
  show ?thesis
  proof (cases r)
    case None
    obtain a b c d where t: "t = [a, b, c, d]" using four [OF assms(1)] by blast
    then have "put_fifo e t h = Inr ([b, c, d, e], h)" using r(1) None by (simp add: put_fifo_def TLBFIFO_def mem_consts aset_def numeral_eq_Suc)
    moreover have "holds_from (insert e (set t)) [b, c, d, e] h" "holds e [b, c, d, e]" using assms same_map_refl(1) by (auto simp: holds_from_def holds_def t)
    ultimately show ?thesis by blast
  next
    case (Some k)
    then have "put_fifo e t h = Inr (t[nat k := e], h)" using r assms(1) by (simp add: put_fifo_def TLBFIFO_def mem_consts aset_def)
    moreover have "nat k < 4" using r(2) Some by (simp add: nat_less_iff)
    ultimately show ?thesis using holds_from_update [OF assms same_map_refl(1)] by blast
  qed
qed

lemma put_clock_law:
  assumes "length t = 4" "0 \<le> h" "h < 4"
  shows "\<exists>t' h'. TLBClock e t h = Inr (t', h') \<and> holds_from (insert e (set t)) t' h' \<and> holds e t'"
proof -
  define k where "k = nat h"
  have k: "h = int k" "k < 4" using assms(2,3) by (simp_all add: k_def)
  let ?s = "swept t k (passed t k)" and ?i = "(k + passed t k) mod 4"
  have c: "TLBClock e t h = Inr (?s[?i := e\<lparr>use := True\<rparr>], int ?i)"
    using clock_sweep_spec [OF assms(1) k(2)] by (simp add: k(1) TLBClock_def aset_def length_swept)
  have "\<exists>y \<in> set t. same_map x y" if x: "x \<in> set ?s" for x
  proof -
    obtain j where j: "j < 4" "x = ?s ! j" using x by (auto simp: in_set_conv_nth length_swept)
    then have "same_map x (t ! j)" by (auto simp: swept_nth)
    moreover have "t ! j \<in> set t" using j(1) assms(1) by simp
    ultimately show ?thesis by blast
  qed
  then have "\<forall>x \<in> set (?s[?i := e\<lparr>use := True\<rparr>]). \<exists>y \<in> insert e (set t). same_map x y"
    using set_update_subset_insert [of ?s ?i "e\<lparr>use := True\<rparr>"] same_map_refl(2) [where x = e and u = True] by blast
  then have "holds_from (insert e (set t)) (?s[?i := e\<lparr>use := True\<rparr>]) (int ?i)" by (simp add: holds_from_def length_swept)
  moreover have "holds e (?s[?i := e\<lparr>use := True\<rparr>])" using same_map_refl(2) [where x = e and u = True] unfolding holds_def
    by (intro bexI [of _ "e\<lparr>use := True\<rparr>"]) (simp_all add: set_update_memI length_swept)
  ultimately show ?thesis using c by blast
qed

lemma put_next_law:
  assumes "length t = 4" "0 \<le> h" "h < 4"
  shows "\<exists>t' h'. TLBNext e t h = Inr (t', h') \<and> holds_from (insert e (set t)) t' h' \<and> holds e t'"
proof -
  define k where "k = nat h"
  have k: "h = int k" "k < 4" using assms(2,3) by (simp_all add: k_def)
  have n: "TLBNext e t h = Inr (t[k := e], int (Suc k mod 4))" using hand_next [of k] k assms(1) by (simp add: TLBNext_def aset_def)
  have "0 \<le> int (Suc k mod 4)" "int (Suc k mod 4) < 4" by simp_all
  from holds_from_update [OF assms(1) this same_map_refl(1) k(2)] n show ?thesis by blast
qed

interpretation fifo: replacement put_fifo
  by unfold_locales (rule put_fifo_law)

interpretation clock: replacement TLBClock
  by unfold_locales (rule put_clock_law)

interpretation turn: replacement TLBNext
  by unfold_locales (rule put_next_law)

section \<open>Runs of misses\<close>

fun misses :: "tlb_policy \<Rightarrow> translation_entry list \<Rightarrow> 'a machine_scheme \<Rightarrow> 'a machine_scheme res" where
  "misses pol [] s = Inr s"
| "misses pol (e # es) s = rbind (TLB_replace pol e s) (misses pol es)"

definition routine_of :: "tlb_policy \<Rightarrow> replacement_routine" where
  "routine_of pol = (case pol of USE_FIFO \<Rightarrow> put_fifo | USE_CLOCK \<Rightarrow> TLBClock | USE_NEITHER \<Rightarrow> TLBNext)"

lemma TLB_replace_routine:
  "tlb s = Some t \<Longrightarrow> TLB_replace pol e s = rbind (routine_of pol e t (Index s)) (\<lambda>(t, i). Inr (s\<lparr>tlb := Some t, Index := i\<rparr>))"
  by (cases pol) (simp_all add: TLB_replace_def routine_of_def put_fifo_def)

lemma misses_put_all:
  "tlb s = Some t \<Longrightarrow> misses pol es s = rbind (put_all (routine_of pol) es t (Index s)) (\<lambda>(t, i). Inr (s\<lparr>tlb := Some t, Index := i\<rparr>))"
proof (induction es arbitrary: s t)
  case (Cons e es)
  show ?case
  proof (cases "routine_of pol e t (Index s)")
    case (Inr r)
    obtain t1 i1 where r: "r = (t1, i1)" by (cases r)
    then show ?thesis using Inr TLB_replace_routine [OF Cons.prems, of pol e] Cons.IH [of "s\<lparr>tlb := Some t1, Index := i1\<rparr>" t1]
      by (cases "put_all (routine_of pol) es t1 i1") (auto split: prod.splits)
  qed (simp add: TLB_replace_routine [OF Cons.prems])
qed simp

lemma routine_runs:
  "holds_from E t h \<Longrightarrow> \<exists>t' h'. put_all (routine_of pol) es t h = Inr (t', h') \<and> holds_from (E \<union> set es) t' h' \<and> (es \<noteq> [] \<longrightarrow> holds (last es) t')"
  using fifo.put_all_ok clock.put_all_ok turn.put_all_ok by (cases pol) (simp_all add: routine_of_def)

text \<open>C32: Whatever the policy and however many misses there were, the TLB has its four entries and a hand within them, it holds
  the entry of the last miss, and every entry it holds, up to the use bit, was there at the start or was put in by one of the misses; nothing
  else of the machine has changed.\<close>

theorem TLB_holds_what_was_put_in:
  assumes "tlb s = Some t" "length t = 4" "0 \<le> Index s" "Index s < 4"
  shows "\<exists>t' i. misses pol es s = Inr (s\<lparr>tlb := Some t', Index := i\<rparr>) \<and> holds_from (set t \<union> set es) t' i \<and> (es \<noteq> [] \<longrightarrow> holds (last es) t')"
proof -
  have "holds_from (set t) t (Index s)" using assms(2-4) same_map_refl(1) by (auto simp: holds_from_def intro!: bexI)
  then obtain t' i where r: "put_all (routine_of pol) es t (Index s) = Inr (t', i)" "holds_from (set t \<union> set es) t' i" "es \<noteq> [] \<longrightarrow> holds (last es) t'"
    using routine_runs by blast
  have "misses pol es s = Inr (s\<lparr>tlb := Some t', Index := i\<rparr>)" using misses_put_all [OF assms(1), of pol es] r(1) by simp
  then show ?thesis using r(2,3) by blast
qed

theorem TLB_holds_what_was_put_in_witness:
  "\<exists>t' i. misses USE_CLOCK [page 1 1, page 2 2, page 3 3, page 4 4, page 5 5] (start_with [] 0) = Inr ((start_with [] 0)\<lparr>tlb := Some t', Index := i\<rparr>) \<and> holds (page 5 5) t'"
  using TLB_holds_what_was_put_in [of "start_with [] 0" "replicate 4 ((page 0 0)\<lparr>valid := False\<rparr>)" USE_CLOCK "[page 1 1, page 2 2, page 3 3, page 4 4, page 5 5]"]
  by (auto simp: start_with_def)

end
