(* ===== verification/LostWakeup.thy ===== *)
theory LostWakeup
  imports KernelFacts
begin

text \<open>
  Under priority scheduling \<open>V\<close> does not wake a thread that is more urgent than its caller: followed point by point, from every state in which the two threads
  can be.
\<close>

section \<open>Two threads\<close>




lemma upd_fields [simp]:
  "length (threads (upd t f k)) = length (threads k)" "currentThread (upd t f k) = currentThread k" "readyList (upd t f k) = readyList k" "sems (upd t f k) = sems k"
  "RoundRobbin (upd t f k) = RoundRobbin k" "halted (upd t f k) = halted k" "threadToBeDestroyed (upd t f k) = threadToBeDestroyed k" "level (upd t f k) = level k"
  "inHandler (upd t f k) = inHandler k"
  by (simp_all add: upd_def)

lemma thr_fields [simp]:
  "thr (k\<lparr>level := l\<rparr>) u = thr k u" "thr (k\<lparr>readyList := r\<rparr>) u = thr k u" "thr (k\<lparr>sems := m\<rparr>) u = thr k u" "thr (k\<lparr>currentThread := n\<rparr>) u = thr k u"
  by (simp_all add: thr_def)

lemma CheckOverflow_frame [simp]: "CheckOverflow (t\<lparr>konts := ks\<rparr>) = CheckOverflow t" "CheckOverflow (t\<lparr>tstatus := st\<rparr>) = CheckOverflow t"
  by (simp_all add: CheckOverflow_def)



section \<open>The points of the caller\<close>









section \<open>The points of the waiting thread\<close>






section \<open>The wakeup is lost\<close>



end
