(* ===== verification/Elevator.thy ===== *)
theory Elevator
  imports Prelude
begin

text \<open>
  The bank of elevators (machine/elevator.h, machine/elevator.cc), a device that moves its elevators by
  interrupts and posts events for the threads of riders and controllers. The lists of events are queues
  (threads/list.cc). \<open>alarms\<close> are the times for which \<open>ElevatorDone\<close> is scheduled, \<open>now\<close> is
  \<open>stats->totalTicks\<close>, and the handlers that the bank calls back are parameters.
\<close>

section \<open>State\<close>

datatype Direction = Down | Up | Neither

datatype ElevatorEvent = NoEvent | DoorsOpened | UpButtonPressed | DownButtonPressed | FloorButtonPressed | ElevatorArrived

definition MaxRiders :: nat where "MaxRiders = 4"
definition DelayPerFloor :: int where "DelayPerFloor = 100"

record pending_event =
  event :: ElevatorEvent
  onFloor :: int
  ofElevator :: int

text \<open>Riders are named by their thread.\<close>

record elevator_info =
  display :: Direction
  doorsOpen :: bool
  inMotion :: bool
  lastFloor :: int
  willArrive :: int
  goingTo :: int
  riders :: "int list"

record elevator_bank =
  numElevators :: int
  numFloors :: int
  elevators :: "elevator_info list"
  riderEvents :: "pending_event list"
  controllerEvents :: "pending_event list"
  alarms :: "int list"

definition new_elevator :: elevator_info where
  "new_elevator = \<lparr>display = Neither, doorsOpen = False, inMotion = False, lastFloor = 0, willArrive = 0, goingTo = 0, riders = []\<rparr>"

definition ElevatorBank :: "int \<Rightarrow> int \<Rightarrow> elevator_bank" where
  "ElevatorBank numElvtr numFlr = \<lparr>numElevators = numElvtr, numFloors = numFlr, elevators = replicate (nat numElvtr) new_elevator,
     riderEvents = [], controllerEvents = [], alarms = []\<rparr>"

section \<open>One elevator\<close>

definition open_doors :: "elevator_info \<Rightarrow> (int \<times> elevator_info) res" where
  "open_doors e = rbind (ASSERT (\<not> doorsOpen e \<and> \<not> inMotion e)) (\<lambda>_. Inr (lastFloor e, e\<lparr>doorsOpen := True\<rparr>))"

definition close_doors :: "elevator_info \<Rightarrow> elevator_info res" where
  "close_doors e = rbind (ASSERT (doorsOpen e)) (\<lambda>_. Inr (e\<lparr>doorsOpen := False\<rparr>))"

definition move_to :: "int \<Rightarrow> int \<Rightarrow> elevator_info \<Rightarrow> (bool \<times> elevator_info) res" where
  "move_to now goingToFloor e =
     rbind (ASSERT (\<not> doorsOpen e \<and> (inMotion e \<or> lastFloor e \<noteq> goingToFloor))) (\<lambda>_.
     if \<not> inMotion e then Inr (True, e\<lparr>goingTo := goingToFloor, willArrive := now + DelayPerFloor, inMotion := True\<rparr>)
     else Inr (False, e\<lparr>goingTo := goingToFloor\<rparr>))"

definition enter :: "int \<Rightarrow> int \<Rightarrow> elevator_info \<Rightarrow> (bool \<times> elevator_info) res" where
  "enter me fl e =
     (if \<not> doorsOpen e \<or> lastFloor e \<noteq> fl then Inr (False, e)
      else rbind (ASSERT (\<not> inMotion e)) (\<lambda>_. rbind (ASSERT (length (riders e) < MaxRiders)) (\<lambda>_.
        Inr (True, e\<lparr>riders := riders e @ [me]\<rparr>))))"

text \<open>Taking an item out of an empty list dereferences a null pointer; an absent one fails an \<open>ASSERT\<close>.\<close>

definition leave :: "int \<Rightarrow> int \<Rightarrow> elevator_info \<Rightarrow> (bool \<times> elevator_info) res" where
  "leave me fl e =
     (if \<not> doorsOpen e \<or> lastFloor e \<noteq> fl then Inr (False, e)
      else rbind (ASSERT (\<not> inMotion e)) (\<lambda>_.
        if riders e = [] then Inl NullPointer
        else rbind (ASSERT (me \<in> set (riders e))) (\<lambda>_. Inr (True, e\<lparr>riders := remove1 me (riders e)\<rparr>))))"

definition reached_next_floor :: "int \<Rightarrow> elevator_info \<Rightarrow> bool \<times> elevator_info" where
  "reached_next_floor now e =
     (if inMotion e \<and> now \<ge> willArrive e
      then (True, e\<lparr>lastFloor := lastFloor e + (if goingTo e > lastFloor e then 1 else -1)\<rparr>)
      else (False, e))"

definition check_arrived :: "elevator_info \<Rightarrow> bool \<times> elevator_info" where
  "check_arrived e = (if inMotion e \<and> lastFloor e = goingTo e then (True, e\<lparr>inMotion := False\<rparr>) else (False, e))"

section \<open>The bank\<close>

definition set_alarm :: "int \<Rightarrow> elevator_bank \<Rightarrow> elevator_bank" where
  "set_alarm t b = b\<lparr>alarms := insort t (alarms b)\<rparr>"

definition PostEvent :: "bool \<Rightarrow> ElevatorEvent \<Rightarrow> int \<Rightarrow> int \<Rightarrow> bool \<Rightarrow> int \<Rightarrow> elevator_bank \<Rightarrow> elevator_bank" where
  "PostEvent toRiders ev fl el inHandler now b =
     (let p = \<lparr>event = ev, onFloor = fl, ofElevator = el\<rparr>;
          b = (if toRiders then b\<lparr>riderEvents := riderEvents b @ [p]\<rparr> else b\<lparr>controllerEvents := controllerEvents b @ [p]\<rparr>)
      in if \<not> inHandler then set_alarm (now + 1) b else b)"

text \<open>The check of the elevator's number, and the elevator.\<close>

definition elevator_at :: "elevator_bank \<Rightarrow> int \<Rightarrow> elevator_info res" where
  "elevator_at b el = rbind (ASSERT (el \<ge> 0 \<and> el < numElevators b)) (\<lambda>_. aget (elevators b) el)"

definition put_elevator :: "elevator_bank \<Rightarrow> int \<Rightarrow> elevator_info \<Rightarrow> elevator_bank" where
  "put_elevator b el e = b\<lparr>elevators := (elevators b)[nat el := e]\<rparr>"

definition OpenDoors :: "int \<Rightarrow> int \<Rightarrow> elevator_bank \<Rightarrow> elevator_bank res" where
  "OpenDoors now el b =
     rbind (elevator_at b el) (\<lambda>e.
     rbind (open_doors e) (\<lambda>(fl, e).
     Inr (PostEvent True DoorsOpened fl el False now (put_elevator b el e))))"

definition CloseDoors :: "int \<Rightarrow> elevator_bank \<Rightarrow> elevator_bank res" where
  "CloseDoors el b = rbind (elevator_at b el) (\<lambda>e. rbind (close_doors e) (\<lambda>e. Inr (put_elevator b el e)))"

definition MoveTo :: "int \<Rightarrow> int \<Rightarrow> int \<Rightarrow> elevator_bank \<Rightarrow> elevator_bank res" where
  "MoveTo now goingToFloor el b =
     rbind (elevator_at b el) (\<lambda>e.
     rbind (ASSERT (goingToFloor \<ge> 0 \<and> goingToFloor < numFloors b)) (\<lambda>_.
     rbind (move_to now goingToFloor e) (\<lambda>(started, e).
     let b = put_elevator b el e in Inr (if started then set_alarm (now + DelayPerFloor) b else b))))"

definition WhereIsElevator :: "int \<Rightarrow> elevator_bank \<Rightarrow> int res" where
  "WhereIsElevator el b = rbind (elevator_at b el) (\<lambda>e. Inr (lastFloor e))"

definition MarkDirection :: "int \<Rightarrow> Direction \<Rightarrow> elevator_bank \<Rightarrow> elevator_bank res" where
  "MarkDirection el dir b = rbind (elevator_at b el) (\<lambda>e. Inr (put_elevator b el (e\<lparr>display := dir\<rparr>)))"

definition PressButton :: "int \<Rightarrow> int \<Rightarrow> Direction \<Rightarrow> elevator_bank \<Rightarrow> elevator_bank res" where
  "PressButton now fl dir b =
     rbind (ASSERT (0 \<le> fl \<and> fl < numFloors b \<and> dir \<noteq> Neither)) (\<lambda>_.
     Inr (PostEvent False (if dir = Up then UpButtonPressed else DownButtonPressed) fl 0 False now b))"

definition getDirection :: "int \<Rightarrow> elevator_bank \<Rightarrow> Direction res" where
  "getDirection el b = rbind (elevator_at b el) (\<lambda>e. Inr (display e))"

definition EnterElevator :: "int \<Rightarrow> int \<Rightarrow> int \<Rightarrow> elevator_bank \<Rightarrow> (bool \<times> elevator_bank) res" where
  "EnterElevator me fl el b =
     rbind (ASSERT (fl \<ge> 0 \<and> fl < numFloors b)) (\<lambda>_.
     rbind (elevator_at b el) (\<lambda>e. rbind (enter me fl e) (\<lambda>(ok, e). Inr (ok, put_elevator b el e))))"

definition PressFloor :: "int \<Rightarrow> int \<Rightarrow> int \<Rightarrow> elevator_bank \<Rightarrow> elevator_bank res" where
  "PressFloor now goingToFloor el b =
     rbind (ASSERT (goingToFloor \<ge> 0 \<and> goingToFloor < numFloors b)) (\<lambda>_.
     rbind (ASSERT (el \<ge> 0 \<and> el < numElevators b)) (\<lambda>_.
     Inr (PostEvent False FloorButtonPressed goingToFloor el False now b)))"

definition ExitElevator :: "int \<Rightarrow> int \<Rightarrow> int \<Rightarrow> elevator_bank \<Rightarrow> (bool \<times> elevator_bank) res" where
  "ExitElevator me fl el b =
     rbind (ASSERT (fl \<ge> 0 \<and> fl < numFloors b)) (\<lambda>_.
     rbind (elevator_at b el) (\<lambda>e. rbind (leave me fl e) (\<lambda>(ok, e). Inr (ok, put_elevator b el e))))"

text \<open>The loop over the elevators. Only the first one that is still on its way gets a new time of arrival and an interrupt.\<close>

fun check_elevators :: "int \<Rightarrow> nat list \<Rightarrow> bool \<Rightarrow> elevator_bank \<Rightarrow> elevator_bank res" where
  "check_elevators now [] intSched b = Inr b"
| "check_elevators now (i # is) intSched b =
     rbind (aget (elevators b) (int i)) (\<lambda>e.
     let (reached, e) = reached_next_floor now e in
     if \<not> reached then check_elevators now is intSched b
     else
       let (arrived, e) = check_arrived e in
       if arrived then check_elevators now is intSched (PostEvent False ElevatorArrived (goingTo e) (int i) True now (put_elevator b (int i) e))
       else if \<not> intSched then
         check_elevators now is True (set_alarm (now + DelayPerFloor) (put_elevator b (int i) (e\<lparr>willArrive := willArrive e + DelayPerFloor\<rparr>)))
       else check_elevators now is intSched (put_elevator b (int i) e))"

definition HandleInterrupt_elevator :: "(elevator_bank \<Rightarrow> elevator_bank res) \<Rightarrow> (elevator_bank \<Rightarrow> elevator_bank res) \<Rightarrow> int \<Rightarrow> elevator_bank \<Rightarrow> elevator_bank res" where
  "HandleInterrupt_elevator handlerRiders handlerControllers now b =
     rbind (check_elevators now [0..<nat (numElevators b)] False b) (\<lambda>b.
     rbind (if riderEvents b \<noteq> [] then handlerRiders b else Inr b) (\<lambda>b.
     if controllerEvents b \<noteq> [] then handlerControllers b else Inr b))"

definition getNextEvent :: "bool \<Rightarrow> elevator_bank \<Rightarrow> ElevatorEvent \<times> (int \<times> int) option \<times> elevator_bank" where
  "getNextEvent forRiders b =
     (case (if forRiders then riderEvents b else controllerEvents b) of
        [] \<Rightarrow> (NoEvent, None, b)
      | p # ps \<Rightarrow> (event p, Some (onFloor p, ofElevator p),
          if forRiders then b\<lparr>riderEvents := ps\<rparr> else b\<lparr>controllerEvents := ps\<rparr>))"

end
