(* ===== verification/ElevatorFacts.thy ===== *)
theory ElevatorFacts
  imports Elevator
begin

text \<open>
  The elevators move: one that is alone on its way arrives after one interrupt per floor. Two on their way at the same time
  share one interrupt and one new time of arrival, so that the second one moves on too early.
\<close>

section \<open>Interrupts of the bank\<close>

text \<open>The interrupts that are pending, in their order, when no thread reacts to the events.\<close>

fun alarm_run :: "nat \<Rightarrow> elevator_bank \<Rightarrow> elevator_bank res" where
  "alarm_run 0 b = Inr b"
| "alarm_run (Suc n) b =
     (case alarms b of [] \<Rightarrow> Inr b | t # ts \<Rightarrow> rbind (HandleInterrupt_elevator Inr Inr t (b\<lparr>alarms := ts\<rparr>)) (alarm_run n))"

definition bank_ok :: "elevator_bank \<Rightarrow> bool" where
  "bank_ok b \<longleftrightarrow> int (length (elevators b)) = numElevators b"

text \<open>Elevator \<open>i\<close> is \<open>e\<close>, and no other is moving.\<close>

definition alone :: "elevator_bank \<Rightarrow> nat \<Rightarrow> elevator_info \<Rightarrow> bool" where
  "alone b i e \<longleftrightarrow> bank_ok b \<and> i < length (elevators b) \<and> elevators b ! i = e \<and> (\<forall>j < length (elevators b). j \<noteq> i \<longrightarrow> \<not> inMotion (elevators b ! j))"

lemma HandleInterrupt_quiet: "HandleInterrupt_elevator Inr Inr now b = check_elevators now [0..<nat (numElevators b)] False b"
  by (simp add: HandleInterrupt_elevator_def cong: if_cong) (cases "check_elevators now [0..<nat (numElevators b)] False b"; simp)

lemma check_idle:
  "\<forall>j \<in> set js. j < length (elevators b) \<and> \<not> inMotion (elevators b ! j) \<Longrightarrow> check_elevators now (js @ is) s b = check_elevators now is s b"
  by (induction js) (auto simp: aget_ok reached_next_floor_def)

lemma check_alone:
  assumes "alone b i e"
  shows "check_elevators now [0..<nat (numElevators b)] False b = check_elevators now (i # [Suc i..<length (elevators b)]) False b"
proof -
  have n: "nat (numElevators b) = length (elevators b)" "i < length (elevators b)" using assms by (simp_all add: alone_def bank_ok_def) linarith
  have "[0..<length (elevators b)] = [0..<i] @ i # [Suc i..<length (elevators b)]"
    using upt_add_eq_append [of 0 i "length (elevators b) - i"] n(2) by (simp add: upt_conv_Cons)
  moreover have "\<forall>j \<in> set [0..<i]. j < length (elevators b) \<and> \<not> inMotion (elevators b ! j)" using assms n(2) by (auto simp: alone_def)
  ultimately show ?thesis using check_idle n(1) by metis
qed

lemma check_rest:
  assumes "alone b i e" "elevators b' = (elevators b)[i := e']"
  shows "check_elevators now [Suc i..<length (elevators b)] s b' = Inr b'"
  using check_idle [of "[Suc i..<length (elevators b)]" b' now "[]" s] assms by (simp add: alone_def)

section \<open>One elevator on its way\<close>

definition arrived_at :: "elevator_bank \<Rightarrow> nat \<Rightarrow> elevator_info \<Rightarrow> int \<Rightarrow> int \<Rightarrow> elevator_bank" where
  "arrived_at b i e fl t = b\<lparr>elevators := (elevators b)[i := e\<lparr>lastFloor := fl, willArrive := t, goingTo := fl, inMotion := False\<rparr>], alarms := [],
     controllerEvents := controllerEvents b @ [\<lparr>event = ElevatorArrived, onFloor = fl, ofElevator = int i\<rparr>]\<rparr>"

definition onward :: "elevator_info \<Rightarrow> int" where
  "onward e = lastFloor e + (if goingTo e > lastFloor e then 1 else -1)"

lemma alone_step:
  assumes A: "alone b i e" and m: "inMotion e" "alarms b = []" "willArrive e \<le> now"
  shows "HandleInterrupt_elevator Inr Inr now b = Inr (if onward e = goingTo e then arrived_at b i e (goingTo e) (willArrive e)
    else b\<lparr>elevators := (elevators b)[i := e\<lparr>lastFloor := onward e, willArrive := willArrive e + 100\<rparr>], alarms := [now + 100]\<rparr>)"
proof -
  have i: "aget (elevators b) (int i) = Inr e" using A by (simp add: alone_def aget_ok)
  have r: "reached_next_floor now e = (True, e\<lparr>lastFloor := onward e\<rparr>)" using m by (simp add: reached_next_floor_def onward_def)
  show ?thesis
  proof (cases "onward e = goingTo e")
    case True
    let ?b = "arrived_at b i e (goingTo e) (willArrive e)"
    have "check_elevators now [Suc i..<length (elevators b)] False ?b = Inr ?b" by (rule check_rest [OF A]) (simp add: arrived_at_def)
    moreover have "PostEvent False ElevatorArrived (goingTo e) (int i) True now (put_elevator b (int i) (e\<lparr>lastFloor := goingTo e, inMotion := False\<rparr>)) = ?b"
      using m(2) by (simp add: PostEvent_def put_elevator_def arrived_at_def)
    ultimately show ?thesis using True m(1) i r by (simp add: HandleInterrupt_quiet check_alone [OF A] check_arrived_def)
  next
    case False
    let ?b = "b\<lparr>elevators := (elevators b)[i := e\<lparr>lastFloor := onward e, willArrive := willArrive e + 100\<rparr>], alarms := [now + 100]\<rparr>"
    have "check_elevators now [Suc i..<length (elevators b)] True ?b = Inr ?b" by (rule check_rest [OF A]) simp
    moreover have "set_alarm (now + DelayPerFloor) (put_elevator b (int i) (e\<lparr>lastFloor := onward e, willArrive := willArrive e + DelayPerFloor\<rparr>)) = ?b"
      using m(2) by (simp add: set_alarm_def put_elevator_def DelayPerFloor_def)
    ultimately show ?thesis using False i r by (simp add: HandleInterrupt_quiet check_alone [OF A] check_arrived_def)
  qed
qed

lemma alone_arrives:
  assumes "alone b i e" "inMotion e" "alarms b = [willArrive e]" "n = nat \<bar>goingTo e - lastFloor e\<bar>" "0 < n"
  shows "alarm_run n b = Inr (arrived_at b i e (goingTo e) (willArrive e + 100 * (int n - 1)))"
  using assms
proof (induction n arbitrary: b e)
  case (Suc n)
  let ?b = "b\<lparr>alarms := []\<rparr>"
  have A: "alone ?b i e" using Suc.prems(1) by (simp add: alone_def bank_ok_def)
  have dist: "int (Suc n) = \<bar>goingTo e - lastFloor e\<bar>" using Suc.prems(4) by linarith
  have step: "HandleInterrupt_elevator Inr Inr (willArrive e) ?b = Inr (if onward e = goingTo e then arrived_at ?b i e (goingTo e) (willArrive e)
    else ?b\<lparr>elevators := (elevators ?b)[i := e\<lparr>lastFloor := onward e, willArrive := willArrive e + 100\<rparr>], alarms := [willArrive e + 100]\<rparr>)"
    by (rule alone_step [OF A Suc.prems(2)]) simp_all
  show ?case
  proof (cases "n = 0")
    case True
    then have "onward e = goingTo e" using dist by (auto simp: onward_def)
    then show ?thesis using step Suc.prems(3) True by (simp add: arrived_at_def)
  next
    case False
    let ?e = "e\<lparr>lastFloor := onward e, willArrive := willArrive e + 100\<rparr>"
    let ?c = "?b\<lparr>elevators := (elevators b)[i := ?e], alarms := [willArrive ?e]\<rparr>"
    have no: "onward e \<noteq> goingTo e" "n = nat \<bar>goingTo ?e - lastFloor ?e\<bar>" using dist False by (auto simp: onward_def)
    have "alone ?c i ?e" using A by (simp add: alone_def bank_ok_def)
    then have "alarm_run n ?c = Inr (arrived_at ?c i ?e (goingTo ?e) (willArrive ?e + 100 * (int n - 1)))"
      by (rule Suc.IH) (use Suc.prems(2) no(2) False in simp_all)
    then show ?thesis using step no(1) Suc.prems(3) by (simp add: arrived_at_def algebra_simps)
  qed
qed simp

section \<open>The properties\<close>

text \<open>C38: An elevator that stands with its doors closed while no other moves, and is sent to another floor, gets there:
  after as many interrupts as there are floors to go, 100 ticks apart, it stands at that floor, the controllers find one new event that says so,
  and no interrupt is pending.\<close>

theorem lone_elevator_arrives:
  assumes "bank_ok b" "0 \<le> el" "el < numElevators b" "e = elevators b ! nat el" "\<not> doorsOpen e" "\<forall>x \<in> set (elevators b). \<not> inMotion x" "alarms b = []"
    "0 \<le> fl" "fl < numFloors b" "fl \<noteq> lastFloor e" "n = nat \<bar>fl - lastFloor e\<bar>"
  shows "\<exists>b1. MoveTo now fl el b = Inr b1 \<and> alarm_run n b1 = Inr (b\<lparr>
      elevators := (elevators b)[nat el := e\<lparr>lastFloor := fl, willArrive := now + 100 * int n, goingTo := fl\<rparr>],
      controllerEvents := controllerEvents b @ [\<lparr>event = ElevatorArrived, onFloor = fl, ofElevator = el\<rparr>]\<rparr>)"
proof -
  let ?i = "nat el" and ?e = "e\<lparr>goingTo := fl, willArrive := now + 100, inMotion := True\<rparr>"
  let ?b = "b\<lparr>elevators := (elevators b)[?i := ?e], alarms := [now + 100]\<rparr>"
  have i: "?i < length (elevators b)" "int ?i = el" using assms(1-3) by (simp_all add: bank_ok_def)
  then have e: "elevator_at b el = Inr e" "\<not> inMotion e" using assms(2-4,6) by (simp_all add: elevator_at_def aget_ok)
  have m: "MoveTo now fl el b = Inr ?b"
    using e assms(5,7-10) by (simp add: MoveTo_def move_to_def set_alarm_def put_elevator_def DelayPerFloor_def)
  have A: "alone ?b ?i ?e" using assms(1,6) i(1) by (simp add: alone_def bank_ok_def)
  have "alarm_run n ?b = Inr (arrived_at ?b ?i ?e (goingTo ?e) (willArrive ?e + 100 * (int n - 1)))"
    by (rule alone_arrives [OF A]) (use assms(10,11) in simp_all)
  moreover have "arrived_at ?b ?i ?e (goingTo ?e) (willArrive ?e + 100 * (int n - 1)) = b\<lparr>
      elevators := (elevators b)[?i := e\<lparr>lastFloor := fl, willArrive := now + 100 * int n, goingTo := fl\<rparr>],
      controllerEvents := controllerEvents b @ [\<lparr>event = ElevatorArrived, onFloor = fl, ofElevator = el\<rparr>]\<rparr>"
    using i(2) e(2) assms(7) by (cases b; cases e) (simp add: arrived_at_def algebra_simps)
  ultimately show ?thesis using m by auto
qed

theorem lone_elevator_arrives_witness:
  "\<exists>b1. MoveTo 7 3 1 (ElevatorBank 2 5) = Inr b1 \<and> alarm_run 3 b1 = Inr ((ElevatorBank 2 5)\<lparr>
     elevators := [new_elevator, new_elevator\<lparr>lastFloor := 3, willArrive := 307, goingTo := 3\<rparr>],
     controllerEvents := [\<lparr>event = ElevatorArrived, onFloor = 3, ofElevator = 1\<rparr>]\<rparr>)"
proof -
  have b: "elevators (ElevatorBank 2 5) = [new_elevator, new_elevator]" "numElevators (ElevatorBank 2 5) = 2" "numFloors (ElevatorBank 2 5) = 5"
    "alarms (ElevatorBank 2 5) = []" "controllerEvents (ElevatorBank 2 5) = []" by (simp_all add: ElevatorBank_def numeral_2_eq_2)
  show ?thesis
    using lone_elevator_arrives [of "ElevatorBank 2 5" 1 new_elevator 3 3 7] by (simp add: b bank_ok_def new_elevator_def)
qed

text \<open>When two elevators pass a floor in the same interrupt, only the first one gets a new time of arrival; the second one
  counts as due from then on, and any later interrupt of the bank, even one in the very next tick, moves it a further floor.\<close>

theorem second_elevator_too_fast:
  assumes "numElevators b = 2" "elevators b = [e0, e1]" "inMotion e0" "inMotion e1" "willArrive e0 \<le> now" "willArrive e1 \<le> now"
    "lastFloor e0 + 1 < goingTo e0" "lastFloor e1 + 2 < goingTo e1" "now \<le> later" "later < willArrive e0 + 100"
  shows "\<exists>b1 b2. HandleInterrupt_elevator Inr Inr now b = Inr b1 \<and> map lastFloor (elevators b1) = [lastFloor e0 + 1, lastFloor e1 + 1]
    \<and> HandleInterrupt_elevator Inr Inr later b1 = Inr b2 \<and> map lastFloor (elevators b2) = [lastFloor e0 + 1, lastFloor e1 + 2]"
proof -
  let ?b1 = "b\<lparr>elevators := [e0\<lparr>lastFloor := lastFloor e0 + 1, willArrive := willArrive e0 + 100\<rparr>, e1\<lparr>lastFloor := lastFloor e1 + 1\<rparr>],
    alarms := insort (now + 100) (alarms b)\<rparr>"
  let ?b2 = "?b1\<lparr>elevators := [e0\<lparr>lastFloor := lastFloor e0 + 1, willArrive := willArrive e0 + 100\<rparr>,
      e1\<lparr>lastFloor := lastFloor e1 + 2, willArrive := willArrive e1 + 100\<rparr>], alarms := insort (later + 100) (insort (now + 100) (alarms b))\<rparr>"
  have two: "[0..<2] = [0, Suc 0]" by (simp add: numeral_2_eq_2)
  have "HandleInterrupt_elevator Inr Inr now b = Inr ?b1"
    unfolding HandleInterrupt_quiet using assms
    by (simp add: two aget_def reached_next_floor_def check_arrived_def put_elevator_def set_alarm_def DelayPerFloor_def Let_def)
  moreover have "HandleInterrupt_elevator Inr Inr later ?b1 = Inr ?b2"
    unfolding HandleInterrupt_quiet using assms
    by (simp add: two aget_def reached_next_floor_def check_arrived_def put_elevator_def set_alarm_def DelayPerFloor_def Let_def)
  ultimately show ?thesis by auto
qed

theorem second_elevator_too_fast_witness:
  "\<exists>b b1 b2. rbind (MoveTo 0 3 0 (ElevatorBank 2 5)) (MoveTo 0 4 1) = Inr b \<and> HandleInterrupt_elevator Inr Inr 100 b = Inr b1 \<and> map lastFloor (elevators b1) = [1, 1]
    \<and> HandleInterrupt_elevator Inr Inr 101 b1 = Inr b2 \<and> map lastFloor (elevators b2) = [1, 2]"
proof -
  let ?m = "\<lambda>g. new_elevator\<lparr>goingTo := g, willArrive := 100, inMotion := True\<rparr>"
  let ?b = "(ElevatorBank 2 5)\<lparr>elevators := [?m 3, ?m 4], alarms := [100, 100]\<rparr>"
  have "rbind (MoveTo 0 3 0 (ElevatorBank 2 5)) (MoveTo 0 4 1) = Inr ?b"
    by (simp add: MoveTo_def elevator_at_def ElevatorBank_def numeral_2_eq_2 aget_def new_elevator_def move_to_def put_elevator_def set_alarm_def DelayPerFloor_def)
  then show ?thesis
    using second_elevator_too_fast [of ?b "?m 3" "?m 4" 100 101] by (simp add: ElevatorBank_def new_elevator_def)
qed

text \<open>An elevator that is told to go back to the floor it has just left goes beyond it: from the lowest floor, to one below.\<close>

theorem passes_its_destination:
  assumes "alone b i e" "inMotion e" "\<not> doorsOpen e" "0 \<le> lastFloor e" "lastFloor e < numFloors b" "willArrive e \<le> now" "alarms b = []"
  shows "\<exists>b1 b2. MoveTo t (lastFloor e) (int i) b = Inr b1 \<and> HandleInterrupt_elevator Inr Inr now b1 = Inr b2 \<and> lastFloor (elevators b2 ! i) = lastFloor e - 1"
proof -
  let ?e = "e\<lparr>goingTo := lastFloor e\<rparr>"
  let ?b = "b\<lparr>elevators := (elevators b)[i := ?e]\<rparr>"
  have "elevator_at b (int i) = Inr e" using assms(1) by (simp add: elevator_at_def alone_def bank_ok_def aget_ok)
  then have m: "MoveTo t (lastFloor e) (int i) b = Inr ?b" using assms(2-5) by (simp add: MoveTo_def move_to_def put_elevator_def)
  have A: "alone ?b i ?e" using assms(1) by (simp add: alone_def bank_ok_def)
  have "HandleInterrupt_elevator Inr Inr now ?b = Inr (?b\<lparr>elevators := (elevators ?b)[i := ?e\<lparr>lastFloor := lastFloor e - 1, willArrive := willArrive e + 100\<rparr>], alarms := [now + 100]\<rparr>)"
    using alone_step [OF A, of now] assms(2,6,7) by (simp add: onward_def)
  then show ?thesis using m assms(1) by (auto simp: alone_def)
qed

end
