(* ===== verification/Network.thy ===== *)
theory Network
  imports Prelude Complex_Main "HOL-Library.Sublist"
begin

text \<open>
  The network device (machine/network.h, machine/network.cc): it sends packets of fixed size, of which it may lose some on
  purpose, and polls its socket for packets that arrive. \<open>sock\<close> is what waits in the socket, in order;
  \<open>scheduled\<close> are the interrupts it has asked for, with their times; \<open>packetsSent\<close> and \<open>packetsRecvd\<close> count the calls of the two handlers.
\<close>

section \<open>Packets\<close>

definition NetworkTime :: int where "NetworkTime = 100"
definition MaxWireSize :: nat where "MaxWireSize = 64"
definition header_size :: nat where "header_size = 12"
definition MaxPacketSize :: nat where "MaxPacketSize = MaxWireSize - header_size"

record packet_header =
  toAddr :: int
  fromAddr :: int
  packetLength :: int

text \<open>The bytes of a header, and the header that bytes hold; the length is unsigned.\<close>

definition packet_header_bytes :: "packet_header \<Rightarrow> byte list" where
  "packet_header_bytes h = ints_bytes [toAddr h, fromAddr h, packetLength h]"

definition header_of :: "byte list \<Rightarrow> packet_header" where
  "header_of bs = (let xs = un_ints 3 bs in \<lparr>toAddr = xs ! 0, fromAddr = xs ! 1, packetLength = u32 (xs ! 2)\<rparr>)"

text \<open>Header and data in one buffer, which \<open>new\<close> has left as it was.\<close>

definition wire :: "byte list \<Rightarrow> packet_header \<Rightarrow> byte list \<Rightarrow> byte list" where
  "wire buffer h data = packet_header_bytes h @ take (nat (packetLength h)) data @ drop (header_size + nat (packetLength h)) buffer"

section \<open>The device\<close>

datatype network_int = NetworkReadPoll | NetworkSendDone

record network =
  ident :: int
  chanceToWork :: real
  sendBusy :: bool
  inHdr :: packet_header
  inbox :: "byte list"
  sock :: "byte list list"
  scheduled :: "(network_int \<times> int) list"
  packetsSent :: nat
  packetsRecvd :: nat

text \<open>The header and the inbox start with what the memory holds, but for the length.\<close>

definition Network_new :: "packet_header \<Rightarrow> byte list \<Rightarrow> int \<Rightarrow> int \<Rightarrow> real \<Rightarrow> network" where
  "Network_new h0 inbox0 now addr reliability =
     \<lparr>ident = addr, chanceToWork = (if reliability < 0 then 0 else if reliability > 1 then 1 else reliability), sendBusy = False,
      inHdr = h0\<lparr>packetLength := 0\<rparr>, inbox = inbox0, sock = [], scheduled = [(NetworkReadPoll, now + NetworkTime)], packetsSent = 0, packetsRecvd = 0\<rparr>"

definition CheckPktAvail :: "int \<Rightarrow> network \<Rightarrow> network res" where
  "CheckPktAvail now n =
     (let n = n\<lparr>scheduled := scheduled n @ [(NetworkReadPoll, now + NetworkTime)]\<rparr> in
      if packetLength (inHdr n) \<noteq> 0 then Inr n
      else case sock n of [] \<Rightarrow> Inr n
        | buffer # rest \<Rightarrow>
            rbind (ASSERT (length buffer = MaxWireSize)) (\<lambda>_.
            let h = header_of buffer; l = nat (packetLength h) in
            rbind (ASSERT (toAddr h = ident n \<and> packetLength h \<le> int MaxPacketSize)) (\<lambda>_.
            Inr (n\<lparr>sock := rest, inHdr := h, inbox := take l (drop header_size buffer) @ drop l (inbox n), packetsRecvd := packetsRecvd n + 1\<rparr>))))"

definition SendDone :: "network \<Rightarrow> network" where
  "SendDone n = n\<lparr>sendBusy := False, packetsSent := packetsSent n + 1\<rparr>"

text \<open>\<open>random\<close> is what \<open>Random()\<close> gives. The result names the address whose socket gets the packet, unless it is lost.\<close>

definition Send :: "int \<Rightarrow> int \<Rightarrow> byte list \<Rightarrow> packet_header \<Rightarrow> byte list \<Rightarrow> network \<Rightarrow> ((int \<times> byte list) option \<times> network) res" where
  "Send now random buffer hdr data n =
     rbind (ASSERT (\<not> sendBusy n \<and> packetLength hdr > 0 \<and> packetLength hdr \<le> int MaxPacketSize \<and> fromAddr hdr = ident n)) (\<lambda>_.
     let n = n\<lparr>scheduled := scheduled n @ [(NetworkSendDone, now + NetworkTime)]\<rparr> in
     if real_of_int (random smod 100) \<ge> chanceToWork n * 100 then Inr (None, n)
     else if int (length data) < packetLength hdr then Inl OutOfBounds
     else Inr (Some (toAddr hdr, wire buffer hdr data), n))"

definition Receive :: "network \<Rightarrow> packet_header \<times> byte list \<times> network" where
  "Receive n =
     (let hdr = inHdr n in
      (hdr, if packetLength hdr \<noteq> 0 then take (nat (packetLength hdr)) (inbox n) else [], n\<lparr>inHdr := hdr\<lparr>packetLength := 0\<rparr>\<rparr>))"

section \<open>Two machines\<close>

text \<open>A history of two machines: the first sends the given bytes, or hears that a packet has gone; the second polls, or takes a packet. A packet that is not
  lost goes to the end of the second one's socket. The result are the bytes taken.\<close>

datatype net_step = Sends int int "byte list" "byte list" | Gone | Polls int | Takes

fun net_run :: "net_step list \<Rightarrow> network \<Rightarrow> network \<Rightarrow> (byte list list \<times> network \<times> network) res" where
  "net_run [] a b = Inr ([], a, b)"
| "net_run (Sends now random buffer data # ks) a b =
     rbind (Send now random buffer \<lparr>toAddr = ident b, fromAddr = ident a, packetLength = int (length data)\<rparr> data a) (\<lambda>(w, a).
     net_run ks a (case w of None \<Rightarrow> b | Some (_, w) \<Rightarrow> b\<lparr>sock := sock b @ [w]\<rparr>))"
| "net_run (Gone # ks) a b = net_run ks (SendDone a) b"
| "net_run (Polls now # ks) a b = rbind (CheckPktAvail now b) (net_run ks a)"
| "net_run (Takes # ks) a b =
     (case Receive b of (h, d, b) \<Rightarrow> rbind (net_run ks a b) (\<lambda>(g, a, b). Inr (if packetLength h \<noteq> 0 then d # g else g, a, b)))"

fun sent :: "net_step list \<Rightarrow> byte list list" where
  "sent [] = []"
| "sent (Sends now random buffer data # ks) = data # sent ks"
| "sent (_ # ks) = sent ks"

text \<open>Packets of a size the device takes, in a buffer of the wire's size.\<close>

fun fits :: "net_step \<Rightarrow> bool" where
  "fits (Sends now random buffer data) \<longleftrightarrow> data \<noteq> [] \<and> length data \<le> 52 \<and> length buffer = 64"
| "fits _ \<longleftrightarrow> True"

text \<open>\<open>Random()\<close> gives no negative number.\<close>

fun drawn :: "net_step \<Rightarrow> bool" where
  "drawn (Sends now random buffer data) \<longleftrightarrow> 0 \<le> random"
| "drawn _ \<longleftrightarrow> True"

definition payload :: "byte list \<Rightarrow> byte list" where
  "payload w = take (nat (packetLength (header_of w))) (drop 12 w)"

definition arrived :: "network \<Rightarrow> byte list list" where
  "arrived n = (if packetLength (inHdr n) = 0 then [] else [take (nat (packetLength (inHdr n))) (inbox n)])"

definition packet_ok :: "network \<Rightarrow> byte list \<Rightarrow> bool" where
  "packet_ok n w \<longleftrightarrow> length w = 64 \<and> toAddr (header_of w) = ident n \<and> 0 < packetLength (header_of w) \<and> packetLength (header_of w) \<le> 52"

definition link_ok :: "network \<Rightarrow> bool" where
  "link_ok n \<longleftrightarrow> in_int32 (ident n) \<and> (\<forall>w \<in> set (sock n). packet_ok n w)"

lemma wire_header:
  assumes "in_int32 (toAddr h)" "in_int32 (fromAddr h)" "0 \<le> packetLength h" "packetLength h \<le> 52"
  shows "header_of (wire buffer h data) = h"
proof -
  have l: "in_int32 (packetLength h)" "u32 (packetLength h) = packetLength h" using assms(3,4) by (simp_all add: in_int32_def u32_id)
  have "un_ints (length [toAddr h, fromAddr h, packetLength h]) (wire buffer h data) = [toAddr h, fromAddr h, packetLength h]"
    unfolding wire_def packet_header_bytes_def by (rule un_ints_ints_bytes) (use assms(1,2) l(1) in simp)
  then have "un_ints 3 (wire buffer h data) = [toAddr h, fromAddr h, packetLength h]" by (simp add: eval_nat_numeral)
  then show ?thesis using l(2) by (simp add: header_of_def Let_def del: un_ints.simps)
qed

lemma wire_packet:
  assumes "in_int32 (ident n)" "in_int32 a" "data \<noteq> []" "length data \<le> 52" "length buffer = 64"
  defines "w \<equiv> wire buffer \<lparr>toAddr = ident n, fromAddr = a, packetLength = int (length data)\<rparr> data"
  shows "packet_ok n w" "payload w = data"
proof -
  have h: "header_of w = \<lparr>toAddr = ident n, fromAddr = a, packetLength = int (length data)\<rparr>"
    unfolding w_def by (rule wire_header) (use assms in simp_all)
  have "length w = 64" using assms(4,5) by (simp add: w_def wire_def packet_header_bytes_def header_size_def)
  then show "packet_ok n w" using h assms(3,4) by (simp add: packet_ok_def)
  have "drop 12 w = data @ drop (12 + length data) buffer" by (simp add: w_def wire_def packet_header_bytes_def header_size_def)
  then show "payload w = data" using h by (simp add: payload_def)
qed

lemma poll_ok:
  assumes "link_ok b"
  obtains b' where "CheckPktAvail now b = Inr b'" "link_ok b'" "ident b' = ident b" "arrived b' @ map payload (sock b') = arrived b @ map payload (sock b)"
proof (cases "packetLength (inHdr b) = 0 \<and> sock b \<noteq> []")
  case True
  then obtain w ws where w: "sock b = w # ws" "packetLength (inHdr b) = 0" by (cases "sock b") auto
  then have p: "packet_ok b w" using assms by (simp add: link_ok_def)
  let ?l = "nat (packetLength (header_of w))"
  let ?b = "b\<lparr>scheduled := scheduled b @ [(NetworkReadPoll, now + NetworkTime)], sock := ws, inHdr := header_of w,
     inbox := take ?l (drop header_size w) @ drop ?l (inbox b), packetsRecvd := packetsRecvd b + 1\<rparr>"
  have "CheckPktAvail now b = Inr ?b" using w p by (simp add: CheckPktAvail_def packet_ok_def Let_def MaxWireSize_def MaxPacketSize_def header_size_def)
  moreover have "link_ok ?b" using assms w(1) by (simp add: link_ok_def packet_ok_def)
  moreover have "arrived ?b = [payload w]" using p by (simp add: arrived_def payload_def packet_ok_def header_size_def nat_le_iff)
  ultimately show ?thesis using w that [of ?b] by (simp add: arrived_def)
next
  case False
  let ?b = "b\<lparr>scheduled := scheduled b @ [(NetworkReadPoll, now + NetworkTime)]\<rparr>"
  have "CheckPktAvail now b = Inr ?b" using False by (auto simp: CheckPktAvail_def Let_def split: list.split)
  then show ?thesis using that [of ?b] assms by (simp add: link_ok_def packet_ok_def arrived_def)
qed

lemma net_run_ok:
  assumes "list_all fits ks" "link_ok b" "in_int32 (ident a)" "\<not> sendBusy a"
  shows "\<exists>g a' b'. net_run ks a b = Inr (g, a', b') \<and> subseq (g @ arrived b' @ map payload (sock b')) (arrived b @ map payload (sock b) @ sent ks)
    \<and> (1 \<le> chanceToWork a \<longrightarrow> g @ arrived b' @ map payload (sock b') = arrived b @ map payload (sock b) @ sent ks)
    \<and> (chanceToWork a \<le> 0 \<and> list_all drawn ks \<longrightarrow> g @ arrived b' @ map payload (sock b') = arrived b @ map payload (sock b))"
  using assms
proof (induction ks arbitrary: a b)
  case Nil
  then show ?case by simp
next
  case (Cons k ks)
  have ks: "list_all fits ks" using Cons(2) by simp
  show ?case
  proof (cases k)
    case (Sends now random buffer data)
    then have d: "data \<noteq> []" "length data \<le> 52" "length buffer = 64" using Cons(2) by simp_all
    let ?h = "\<lparr>toAddr = ident b, fromAddr = ident a, packetLength = int (length data)\<rparr>"
    let ?a = "a\<lparr>scheduled := scheduled a @ [(NetworkSendDone, now + NetworkTime)]\<rparr>"
    have "0 \<le> \<bar>random\<bar> mod 100" "\<bar>random\<bar> mod 100 < 100" by simp_all
    then have r: "random smod 100 < 100" by (simp only: signed_modulo_int_def) (auto simp: sgn_if)
    note W = wire_packet [OF _ Cons(4) d, of b]
    have b: "in_int32 (ident b)" using Cons(3) by (simp add: link_ok_def)
    show ?thesis
    proof (cases "real_of_int (random smod 100) \<ge> chanceToWork a * 100")
      case True
      have s: "Send now random buffer ?h data a = Inr (None, ?a)"
        using True d(1,2) Cons(5) by (simp add: Send_def MaxPacketSize_def MaxWireSize_def header_size_def)
      have c: "\<not> 1 \<le> chanceToWork a" using True r by linarith
      obtain g a' b' where "net_run ks ?a b = Inr (g, a', b')" "subseq (g @ arrived b' @ map payload (sock b')) (arrived b @ map payload (sock b) @ sent ks)"
          "chanceToWork a \<le> 0 \<and> list_all drawn ks \<longrightarrow> g @ arrived b' @ map payload (sock b') = arrived b @ map payload (sock b)"
        using Cons(1) [OF ks Cons(3), of ?a] Cons(4,5) by auto
      moreover have "subseq (arrived b @ map payload (sock b) @ sent ks) (arrived b @ map payload (sock b) @ data # sent ks)"
        by (intro list_emb_append_mono list_emb_Cons subseq_order.order_refl)
      moreover have "subseq (g @ arrived b' @ map payload (sock b')) (arrived b @ map payload (sock b) @ data # sent ks)"
        using calculation(2,4) by (rule subseq_order.trans)
      ultimately show ?thesis using Sends s c by simp
    next
      case False
      let ?b = "b\<lparr>sock := sock b @ [wire buffer ?h data]\<rparr>"
      have c: "\<not> (chanceToWork a \<le> 0 \<and> 0 \<le> random)"
      proof
        assume z: "chanceToWork a \<le> 0 \<and> 0 \<le> random"
        then have "0 \<le> random smod 100" by (auto simp: signed_modulo_int_def sgn_if)
        then show False using False z by linarith
      qed
      have s: "Send now random buffer ?h data a = Inr (Some (ident b, wire buffer ?h data), ?a)"
        using False d(1,2) Cons(5) by (simp add: Send_def MaxPacketSize_def MaxWireSize_def header_size_def)
      have "link_ok ?b" using Cons(3) W(1) [OF b] by (simp add: link_ok_def packet_ok_def)
      then obtain g a' b' where "net_run ks ?a ?b = Inr (g, a', b')" "subseq (g @ arrived b' @ map payload (sock b')) (arrived ?b @ map payload (sock ?b) @ sent ks)"
          "1 \<le> chanceToWork ?a \<longrightarrow> g @ arrived b' @ map payload (sock b') = arrived ?b @ map payload (sock ?b) @ sent ks"
        using Cons(1) [OF ks, of ?b ?a] Cons(4,5) by auto
      moreover have "arrived ?b = arrived b" by (simp add: arrived_def)
      ultimately show ?thesis using Sends s c W(2) [OF b] by auto
    qed
  next
    case Gone
    then show ?thesis using Cons(1) [OF ks Cons(3), of "SendDone a"] Cons(4) by (simp add: SendDone_def)
  next
    case (Polls now)
    obtain b' where "CheckPktAvail now b = Inr b'" "link_ok b'" "arrived b' @ map payload (sock b') = arrived b @ map payload (sock b)"
      by (rule poll_ok [OF Cons(3)])
    then show ?thesis using Polls Cons(1) [OF ks _ Cons(4,5), of b'] by (simp flip: append_assoc)
  next
    case Takes
    let ?b = "b\<lparr>inHdr := (inHdr b)\<lparr>packetLength := 0\<rparr>\<rparr>"
    have "link_ok ?b" using Cons(3) by (simp add: link_ok_def packet_ok_def)
    then obtain g a' b' where "net_run ks a ?b = Inr (g, a', b')" "subseq (g @ arrived b' @ map payload (sock b')) (map payload (sock b) @ sent ks)"
        "1 \<le> chanceToWork a \<longrightarrow> g @ arrived b' @ map payload (sock b') = map payload (sock b) @ sent ks"
        "chanceToWork a \<le> 0 \<and> list_all drawn ks \<longrightarrow> g @ arrived b' @ map payload (sock b') = map payload (sock b)"
      using Cons(1) [OF ks _ Cons(4,5), of ?b] by (auto simp: arrived_def)
    then show ?thesis using Takes by (auto simp: Receive_def Let_def arrived_def)
  qed
qed

text \<open>C39: Whatever the order of sending, polling and receiving, no assertion of the two devices fails for packets of 1 to 52 bytes; the packets
  received, the one in the inbox and the ones in the socket are, in order and byte for byte, some of the packets sent. The code reads the constructor's number as the
  chance that a packet gets through: with 1 all packets arrive, and with 0 none does. network.h says the opposite, that the number is the
  chance that the network will lose a packet.\<close>

theorem packets_in_order:
  assumes "list_all fits ks" "in_int32 x" "in_int32 y"
  shows "\<exists>g a b. net_run ks (Network_new h i t x rel) (Network_new h' i' t' y rel') = Inr (g, a, b)
    \<and> subseq (g @ arrived b @ map payload (sock b)) (sent ks) \<and> (1 \<le> rel \<longrightarrow> g @ arrived b @ map payload (sock b) = sent ks)
    \<and> (rel \<le> 0 \<and> list_all drawn ks \<longrightarrow> g @ arrived b @ map payload (sock b) = [])"
proof -
  let ?a = "Network_new h i t x rel" and ?b = "Network_new h' i' t' y rel'"
  have "link_ok ?b" "in_int32 (ident ?a)" "\<not> sendBusy ?a" "arrived ?b = []" "sock ?b = []" "1 \<le> rel \<Longrightarrow> 1 \<le> chanceToWork ?a" "rel \<le> 0 \<Longrightarrow> chanceToWork ?a \<le> 0"
    using assms(2,3) by (simp_all add: Network_new_def link_ok_def arrived_def)
  then show ?thesis using net_run_ok [OF assms(1), of ?b ?a] by auto
qed

definition sample_net :: "real \<Rightarrow> (byte list list \<times> network \<times> network) res" where
  "sample_net rel = net_run [Sends 0 7 (replicate 64 9) [1, 2], Sends 5 99 (replicate 64 9) [3], Polls 100, Takes, Polls 200, Polls 300, Takes, Takes]
     (Network_new (header_of (replicate 64 0)) [] 0 1 rel) (Network_new (header_of (replicate 64 0)) [] 0 2 rel)"

theorem packets_in_order_witness:
  "(\<exists>g a b. sample_net 1 = Inr (g, a, b) \<and> g @ arrived b @ map payload (sock b) = [[1, 2], [3]])
   \<and> (\<exists>g a b. sample_net 0 = Inr (g, a, b) \<and> g @ arrived b @ map payload (sock b) = [])"
proof -
  let ?ks = "[Sends 0 7 (replicate 64 9) [1, 2], Sends 5 99 (replicate 64 9) [3], Polls 100, Takes, Polls 200, Polls 300, Takes, Takes]"
  have "list_all fits ?ks" "in_int32 1" "in_int32 2" by (simp_all add: in_int32_def)
  note T = packets_in_order [OF this, of "header_of (replicate 64 0)" "[]" 0 _ "header_of (replicate 64 0)" "[]" 0, folded sample_net_def]
  show ?thesis
  proof
    show "\<exists>g a b. sample_net 1 = Inr (g, a, b) \<and> g @ arrived b @ map payload (sock b) = [[1, 2], [3]]"
      using T [of 1 1, folded sample_net_def] by auto
    show "\<exists>g a b. sample_net 0 = Inr (g, a, b) \<and> g @ arrived b @ map payload (sock b) = []"
      using T [of 0 0, folded sample_net_def] by auto
  qed
qed

text \<open>\<open>Send\<close> never sets \<open>sendBusy\<close>: another packet is accepted while one is being sent.\<close>

theorem second_packet_accepted:
  assumes "Send now r buffer hdr data n = Inr (w, n')" "packetLength hdr \<le> int (length data)"
  shows "\<exists>w' n''. Send later r' buffer' hdr data n' = Inr (w', n'')"
  using assms by (auto simp: Send_def Let_def res_simps ASSERT_def split: if_splits)

end
