(* ===== verification/KernelDevices.thy ===== *)
theory KernelDevices
  imports KernelFacts
begin

text \<open>
  The synchronous devices: whatever the threads do, the disk and the display are never asked while they are busy. The
  semaphore of a device and the lock around it work together: the thread that has started a request holds the lock until its
  \<open>P\<close> has seen the \<open>V\<close> of the completion interrupt.

  The argument counts again. A device goes by its semaphore. Its count, a request that is under way, every
  \<open>V\<close> still to come and every start still to come, less every \<open>P\<close> still to come, add up to 0; and the completion interrupts that are
  pending or being handled are as many as the requests under way. Who is inside the lock follows from a scan of the points of each thread.
\<close>

section \<open>Points of a device\<close>

fun starts :: "sem \<Rightarrow> point \<Rightarrow> bool" where
  "starts s (DiskIssue d t) \<longleftrightarrow> s = DiskSem d"
| "starts s (ConsolePut c ch) \<longleftrightarrow> s = WriteSem c"
| "starts s _ \<longleftrightarrow> False"

fun completes :: "sem \<Rightarrow> point \<Rightarrow> bool" where
  "completes s (DiskDone d) \<longleftrightarrow> s = DiskSem d"
| "completes s (ConsoleWritten c) \<longleftrightarrow> s = WriteSem c"
| "completes s _ \<longleftrightarrow> False"

definition device :: "sem \<Rightarrow> bool" where
  "device s \<longleftrightarrow> (\<exists>d. s = DiskSem d) \<or> (\<exists>c. s = WriteSem c)"

definition busy :: "nachos \<Rightarrow> sem \<Rightarrow> bool" where
  "busy k s = (case s of DiskSem d \<Rightarrow> disk_active (synchdisks k d) | WriteSem c \<Rightarrow> putBusy (con_dev (synchconsoles k c)) | _ \<Rightarrow> False)"

definition dev_lock :: "nachos \<Rightarrow> sem \<Rightarrow> nat" where
  "dev_lock k s = (case s of DiskSem d \<Rightarrow> disk_lock (synchdisks k d) | WriteSem c \<Rightarrow> con_lock (synchconsoles k c) | _ \<Rightarrow> 0)"

definition dwt :: "sem \<Rightarrow> point \<Rightarrow> int" where
  "dwt s p = (if p = P s \<or> p = P_loop s then -1 else if p = V s \<or> p = V_inc s \<or> starts s p then 1 else 0)"

definition ewt :: "sem \<Rightarrow> point \<Rightarrow> int" where
  "ewt s p = (if completes s p then 1 else 0)"

definition plain :: "sem \<Rightarrow> point \<Rightarrow> bool" where
  "plain s p \<longleftrightarrow> p \<notin> {P s, P_loop s, V s, V_inc s} \<and> \<not> starts s p \<and> \<not> completes s p"

lemma plain_wt: "plain s p \<Longrightarrow> dwt s p = 0" "plain s p \<Longrightarrow> ewt s p = 0"
  by (simp_all add: plain_def dwt_def ewt_def)

section \<open>Inside the lock\<close>

text \<open>The points of the kernel itself, which may come on top of those of a thread inside lock \<open>L\<close>.\<close>

fun passes :: "nat \<Rightarrow> point \<Rightarrow> bool" where
  "passes L (SetLevel x) \<longleftrightarrow> True" | "passes L OneTick \<longleftrightarrow> True" | "passes L DueLoop \<longleftrightarrow> True" | "passes L (TickEnd m) \<longleftrightarrow> True"
| "passes L (SetStatus m) \<longleftrightarrow> True" | "passes L (EndHandler m) \<longleftrightarrow> True" | "passes L Idle \<longleftrightarrow> True" | "passes L IdleEnd \<longleftrightarrow> True"
| "passes L (TimerExpired r h) \<longleftrightarrow> True" | "passes L TimerInterruptHandler \<longleftrightarrow> True" | "passes L RRHandler \<longleftrightarrow> True"
| "passes L (ReadyToRun t) \<longleftrightarrow> True" | "passes L (RunThread t) \<longleftrightarrow> True" | "passes L AfterSwitch \<longleftrightarrow> True" | "passes L Yield \<longleftrightarrow> True"
| "passes L Sleep \<longleftrightarrow> True" | "passes L SleepLoop \<longleftrightarrow> True" | "passes L Finish \<longleftrightarrow> True" | "passes L (ThreadDelete t) \<longleftrightarrow> True"
| "passes L (FreeTID t) \<longleftrightarrow> True" | "passes L ClearDestroyed \<longleftrightarrow> True"
| "passes L (P u) \<longleftrightarrow> True" | "passes L (P_loop u) \<longleftrightarrow> True" | "passes L (V u) \<longleftrightarrow> True" | "passes L (V_inc u) \<longleftrightarrow> True"
| "passes L (Acquire l) \<longleftrightarrow> l \<noteq> L" | "passes L (SetOwner l) \<longleftrightarrow> l \<noteq> L" | "passes L (Release l) \<longleftrightarrow> l \<noteq> L"
| "passes L (DiskDone d) \<longleftrightarrow> True" | "passes L (ConsolePoll c) \<longleftrightarrow> True" | "passes L (ConsoleWritten c) \<longleftrightarrow> True"
| "passes L _ \<longleftrightarrow> False"

text \<open>Where a thread stands: outside lock \<open>L\<close>, inside it with the device idle, or inside it with its request under way.\<close>

datatype phase = Outside | Inside | Started

fun scan :: "nat \<Rightarrow> sem \<Rightarrow> phase \<Rightarrow> point list \<Rightarrow> bool" where
  "scan L s ph [] \<longleftrightarrow> True"
| "scan L s ph (p # ps) \<longleftrightarrow>
     (if starts s p then ph = Inside \<and> scan L s Started ps
      else if p = P s \<or> p = P_loop s then ph = Started \<and> scan L s Outside ps
      else if p = Acquire L \<or> p = SetOwner L then scan L s Inside ps
      else scan L s (if passes L p then ph else Outside) ps)"

lemma scan_weaken: "scan L s Outside ps \<Longrightarrow> scan L s ph ps"
  by (induction ps) (auto split: if_splits)

lemma scan_plain: "list_all (plain s) qs \<Longrightarrow> scan L s Outside ps \<Longrightarrow> scan L s ph (qs @ ps)"
  by (induction qs arbitrary: ph) (auto simp: plain_def scan_weaken)

definition transparent :: "nat \<Rightarrow> sem \<Rightarrow> point \<Rightarrow> bool" where
  "transparent L s q \<longleftrightarrow> passes L q \<and> q \<noteq> P s \<and> q \<noteq> P_loop s \<and> \<not> starts s q"

lemma scan_transparent: "list_all (transparent L s) qs \<Longrightarrow> scan L s ph (qs @ ps) = scan L s ph ps"
  by (induction qs) (auto simp: transparent_def)

lemma scan_sum: "scan L s ph ps \<Longrightarrow> (if ph = Started then -1 else 0) \<le> sum_list (map (dwt s) ps)"
proof (induction ps arbitrary: ph)
  case (Cons p ps)
  note IH = Cons.IH
  have i: "scan L s Outside ps \<Longrightarrow> 0 \<le> sum_list (map (dwt s) ps)" "scan L s Inside ps \<Longrightarrow> 0 \<le> sum_list (map (dwt s) ps)"
    "scan L s Started ps \<Longrightarrow> -1 \<le> sum_list (map (dwt s) ps)" using IH [of Outside] IH [of Inside] IH [of Started] by simp_all
  show ?case using Cons.prems i by (cases ph) (auto simp: dwt_def [of s p] split: if_splits)
qed simp

section \<open>Sums over the threads\<close>

definition tsum :: "(point \<Rightarrow> int) \<Rightarrow> point list list \<Rightarrow> int" where
  "tsum f kss = sum_list (map (\<lambda>ps. sum_list (map f ps)) kss)"

lemma tsum_simps [simp]: "tsum f [] = 0" "tsum f (ps # kss) = sum_list (map f ps) + tsum f kss" "tsum f (kss @ kss') = tsum f kss + tsum f kss'"
  by (simp_all add: tsum_def)

lemma tsum_update [simp]: "t < length kss \<Longrightarrow> tsum f (kss[t := ps]) = tsum f kss - sum_list (map f (kss ! t)) + sum_list (map f ps)"
  by (simp add: tsum_def map_update sum_list_update_int)

lemma sum_plain: "list_all (plain s) qs \<Longrightarrow> sum_list (map (dwt s) qs) = 0 \<and> sum_list (map (ewt s) qs) = 0"
  by (induction qs) (auto simp: plain_wt)

lemma tsum_empty: "set kss \<subseteq> {[]} \<Longrightarrow> tsum f kss = 0"
  by (induction kss) auto

text \<open>The completion interrupts that are pending.\<close>

definition due :: "sem \<Rightarrow> nachos \<Rightarrow> int" where
  "due s k = sum_list (map (\<lambda>h. sum_list (map (ewt s) (fst (fst h)))) (pending k))"

lemma due_insert: "sum_list (map f (sorted_insert x t hs)) = f (x, t) + (sum_list (map f hs) :: int)"
  unfolding sorted_insert_def by (metis (no_types, lifting) add.left_commute append_Cons append_Nil list.map(2) map_append sum_list.Cons sum_list_append takeWhile_dropWhile_id)

section \<open>Steps that have nothing to do with the device\<close>

text \<open>The current thread has gone to points that satisfy \<open>Q\<close>, and perhaps there are new threads, still empty.\<close>

definition pushes :: "(point \<Rightarrow> bool) \<Rightarrow> nachos \<Rightarrow> nachos \<Rightarrow> bool" where
  "pushes Q k k' \<longleftrightarrow> (\<exists>qs extra. ktab k' = (ktab k)[currentThread k := qs @ ktab k ! currentThread k] @ extra \<and> set extra \<subseteq> {[]} \<and> list_all Q qs)"

definition unchanged :: "sem \<Rightarrow> nachos \<Rightarrow> nachos \<Rightarrow> bool" where
  "unchanged s k k' \<longleftrightarrow> sem_value (sems k' s) = sem_value (sems k s) \<and> busy k' s = busy k s \<and> dev_lock k' s = dev_lock k s \<and> due s k' = due s k"

definition tame :: "sem \<Rightarrow> point \<Rightarrow> point \<Rightarrow> bool" where
  "tame s p q \<longleftrightarrow> plain s q \<and> (\<forall>L. L \<noteq> threadLock \<longrightarrow> passes L p \<longrightarrow> passes L q)"

definition mild :: "sem \<Rightarrow> point \<Rightarrow> nachos \<Rightarrow> nachos \<Rightarrow> bool" where
  "mild s p k k' \<longleftrightarrow> pushes (tame s p) k k' \<and> unchanged s k k'"

lemma ktab_frame [simp]:
  "ktab (k\<lparr>level := a1\<rparr>) = ktab k" "ktab (k\<lparr>inHandler := a2\<rparr>) = ktab k" "ktab (k\<lparr>yieldOnReturn := a3\<rparr>) = ktab k"
  "ktab (k\<lparr>mstatus := a4\<rparr>) = ktab k" "ktab (k\<lparr>totalTicks := a5\<rparr>) = ktab k" "ktab (k\<lparr>idleTicks := a6\<rparr>) = ktab k"
  "ktab (k\<lparr>systemTicks := a7\<rparr>) = ktab k" "ktab (k\<lparr>userTicks := a8\<rparr>) = ktab k" "ktab (k\<lparr>nrandom := a9\<rparr>) = ktab k"
  "ktab (k\<lparr>halted := b1\<rparr>) = ktab k" "ktab (k\<lparr>threadToBeDestroyed := b2\<rparr>) = ktab k" "ktab (k\<lparr>used_TID := b3\<rparr>) = ktab k"
  "ktab (k\<lparr>prevTick := b4\<rparr>) = ktab k" "ktab (k\<lparr>barriers := b5\<rparr>) = ktab k" "ktab (k\<lparr>synchlists := b6\<rparr>) = ktab k"
  "ktab (k\<lparr>Owner := b7\<rparr>) = ktab k" "ktab (k\<lparr>readyList := b8\<rparr>) = ktab k" "ktab (k\<lparr>pending := b9\<rparr>) = ktab k"
  "ktab (k\<lparr>currentThread := c1\<rparr>) = ktab k" "ktab (k\<lparr>waitQueue := c2\<rparr>) = ktab k" "ktab (k\<lparr>rwlocks := c3\<rparr>) = ktab k"
  "ktab (k\<lparr>synchdisks := c4\<rparr>) = ktab k" "ktab (k\<lparr>synchconsoles := c5\<rparr>) = ktab k" "ktab (upd_sem u g k) = ktab k"
  "ktab (setStatus t st k) = ktab k" "ktab (set_console c D k) = ktab k"
  by (simp_all add: ktab_def upd_sem_def set_console_def) (simp add: setStatus_def ktab_same flip: ktab_def)

lemma current_frame [simp]: "currentThread (upd_sem u g k) = currentThread k" "currentThread (setStatus t st k) = currentThread k"
  "currentThread (set_console c D k) = currentThread k" "currentThread (calls ps k) = currentThread k"
  by (simp_all add: upd_sem_def setStatus_def set_console_def calls_def)

lemma unchanged_refl [simp]: "unchanged s k k"
  by (simp add: unchanged_def)

lemma unchanged_frame [simp]:
  "unchanged s k (k'\<lparr>level := a1\<rparr>) = unchanged s k k'" "unchanged s k (k'\<lparr>inHandler := a2\<rparr>) = unchanged s k k'" "unchanged s k (k'\<lparr>yieldOnReturn := a3\<rparr>) = unchanged s k k'"
  "unchanged s k (k'\<lparr>mstatus := a4\<rparr>) = unchanged s k k'" "unchanged s k (k'\<lparr>totalTicks := a5\<rparr>) = unchanged s k k'" "unchanged s k (k'\<lparr>idleTicks := a6\<rparr>) = unchanged s k k'"
  "unchanged s k (k'\<lparr>systemTicks := a7\<rparr>) = unchanged s k k'" "unchanged s k (k'\<lparr>userTicks := a8\<rparr>) = unchanged s k k'" "unchanged s k (k'\<lparr>nrandom := a9\<rparr>) = unchanged s k k'"
  "unchanged s k (k'\<lparr>halted := b1\<rparr>) = unchanged s k k'" "unchanged s k (k'\<lparr>threadToBeDestroyed := b2\<rparr>) = unchanged s k k'" "unchanged s k (k'\<lparr>used_TID := b3\<rparr>) = unchanged s k k'"
  "unchanged s k (k'\<lparr>prevTick := b4\<rparr>) = unchanged s k k'" "unchanged s k (k'\<lparr>barriers := b5\<rparr>) = unchanged s k k'" "unchanged s k (k'\<lparr>synchlists := b6\<rparr>) = unchanged s k k'"
  "unchanged s k (k'\<lparr>Owner := b7\<rparr>) = unchanged s k k'" "unchanged s k (k'\<lparr>readyList := b8\<rparr>) = unchanged s k k'" "unchanged s k (k'\<lparr>threads := b9\<rparr>) = unchanged s k k'"
  "unchanged s k (k'\<lparr>currentThread := c1\<rparr>) = unchanged s k k'" "unchanged s k (k'\<lparr>waitQueue := c2\<rparr>) = unchanged s k k'" "unchanged s k (k'\<lparr>rwlocks := c3\<rparr>) = unchanged s k k'"
  "unchanged s k (k'\<lparr>Thread_Pointer := c4\<rparr>) = unchanged s k k'" "unchanged s k (upd t f k') = unchanged s k k'" "unchanged s k (calls ps k') = unchanged s k k'"
  "unchanged s k (atomically ps k') = unchanged s k k'" "unchanged s k (setStatus t st k') = unchanged s k k'"
  by (simp_all add: unchanged_def busy_def dev_lock_def due_def upd_def calls_def atomically_def setStatus_def split: sem.split)

lemma unchanged_sem: "u \<noteq> s \<or> sem_value (g (sems k u)) = sem_value (sems k u) \<Longrightarrow> unchanged s k (upd_sem u g k)"
  by (auto simp: unchanged_def busy_def dev_lock_def due_def upd_sem_def split: sem.split)

lemma unchanged_disk: "s \<noteq> DiskSem d \<or> disk_active D = disk_active (synchdisks k d) \<Longrightarrow> disk_lock D = disk_lock (synchdisks k d) \<Longrightarrow>
    unchanged s k (k\<lparr>synchdisks := (synchdisks k)(d := D)\<rparr>)"
  by (auto simp: unchanged_def busy_def dev_lock_def due_def split: sem.split)

lemma unchanged_console: "s \<noteq> WriteSem c \<or> putBusy D = putBusy (con_dev (synchconsoles k c)) \<Longrightarrow> unchanged s k (set_console c D k)"
  by (auto simp: unchanged_def busy_def dev_lock_def due_def set_console_def split: sem.split)

lemma Schedule_unchanged: "Schedule h t ty k = Inr k' \<Longrightarrow> sum_list (map (ewt s) h) = 0 \<Longrightarrow> unchanged s k k' \<and> ktab k' = ktab k \<and> currentThread k' = currentThread k"
  by (auto simp: Schedule_def Let_def unchanged_def busy_def dev_lock_def due_def due_insert elim!: rbind_InrE split: sem.split)

lemma unchanged_trans: "unchanged s k1 k2 \<Longrightarrow> unchanged s k2 k3 \<Longrightarrow> unchanged s k1 k3"
  by (simp add: unchanged_def)

lemma pushes_same: "ktab k' = ktab k \<Longrightarrow> pushes Q k k'"
  unfolding pushes_def by (intro exI [of _ "[]"]) simp

lemma pushes_calls: "ktab k1 = ktab k \<Longrightarrow> currentThread k1 = currentThread k \<Longrightarrow> currentThread k < length (ktab k) \<Longrightarrow> list_all Q ps \<Longrightarrow> pushes Q k (calls ps k1)"
  unfolding pushes_def
  by (intro exI [of _ ps] exI [of _ "[]"]) (simp add: calls_def ktab_upd, metis ktab_nth)

lemma pushes_atomically:
  "ktab k1 = ktab k \<Longrightarrow> currentThread k1 = currentThread k \<Longrightarrow> currentThread k < length (ktab k) \<Longrightarrow> list_all Q ps \<Longrightarrow> (\<And>x. Q (SetLevel x)) \<Longrightarrow> pushes Q k (atomically ps k1)"
  unfolding atomically_def by (rule pushes_calls) simp_all

lemmas mild_intros = pushes_same pushes_calls pushes_atomically

lemma tame_level [simp]: "tame s p (SetLevel x)"
  by (simp add: tame_def plain_def)

lemma ktab_sems [simp]: "ktab (k\<lparr>sems := x\<rparr>) = ktab k"
  by (simp add: ktab_def)

lemma pushes_frame [simp]: "pushes Q k (setStatus t st k') = pushes Q k k'" "pushes Q k (k'\<lparr>currentThread := u\<rparr>) = pushes Q k k'"
  by (simp_all add: pushes_def)

lemma mild_interrupts:
  assumes d: "device s" and c: "currentThread k < length (threads k)" and e: "exec p k = Inr k'"
    and p: "p \<in> {OneTick, IdleEnd, TimerInterruptHandler, RRHandler} \<or> (\<exists>x. p = SetLevel x) \<or> (\<exists>m. p \<in> {TickEnd m, SetStatus m, EndHandler m})
      \<or> (\<exists>r h. p = TimerExpired r h \<and> h \<in> {TimerInterruptHandler, RRHandler})"
  shows "mild s p k k'"
proof -
  have t: "mild s p k k'" if x: "p = TimerExpired r h" "h \<in> {TimerInterruptHandler, RRHandler}" for r h
  proof -
    obtain w k1 where t: "TimeOfNextInterrupt r k = (w, k1)" by force
    then have 1: "unchanged s k k1" "ktab k1 = ktab k" "currentThread k1 = currentThread k"
      by (auto simp: TimeOfNextInterrupt_def split: if_split_asm)
    obtain k2 where 2: "Schedule [TimerExpired r h] w TimerInt k1 = Inr k2" "k' = calls [h] k2"
      using e t x(1) by (auto simp: Timer_expired_def elim!: rbind_InrE)
    have 3: "unchanged s k1 k2" "ktab k2 = ktab k" "currentThread k2 = currentThread k" using Schedule_unchanged [OF 2(1), of s] 1(2,3) by (simp_all add: ewt_def)
    have "list_all (tame s p) [h]" using x by (auto simp: tame_def plain_def)
    then show ?thesis using 2(2) 3 unchanged_trans [OF 1(1) 3(1)] c by (simp add: mild_def pushes_calls)
  qed
  show ?thesis
    using p t e c
    by (auto simp: mild_def Interrupt_OneTick_def Idle_end_def Timer_interrupt_handler_def RR_handler_def YieldOnReturn_def Interrupt_SetLevel_def
        OneTick_end_def EndHandler_ret_def Let_def tame_def plain_def elim!: rbind_InrE split: if_split_asm simp: mild_intros)
qed

lemma mild_threads:
  assumes d: "device s" and c: "currentThread k < length (threads k)" and e: "exec p k = Inr k'"
    and p: "p \<in> {AfterSwitch, Yield, Sleep, SleepLoop, Finish, ClearDestroyed} \<or> (\<exists>t. p \<in> {ReadyToRun t, RunThread t, ThreadDelete t, FreeTID t})
      \<or> (\<exists>i body. p = NewThread i body)"
  shows "mild s p k k'"
proof -
  have n: "mild s p k k'" if p: "p = NewThread i body" for i body
  proof -
    from e p obtain t k1 where n: "Thread_new i k = Inr (t, k1)" and k': "k' = calls [SetLevel (level k), Fork t body] (k1\<lparr>level := IntOff\<rparr>)"
      by (auto simp: Thread_create_def elim!: rbind_InrE)
    from n have 1: "unchanged s k k1" "ktab k1 = ktab k @ [[]]" "currentThread k1 = currentThread k"
      by (auto simp: Thread_new_def Let_def ktab_def new_thread_def unchanged_def busy_def dev_lock_def due_def elim!: rbind_InrE split: sem.split)
    have "ktab k' = (ktab k)[currentThread k := [SetLevel (level k), Fork t body] @ ktab k ! currentThread k] @ [[]]"
    proof -
      have "length (threads k1) = Suc (length (threads k))" using arg_cong [OF 1(2), of length] by simp
      then have "konts (thr k1 (currentThread k)) = ktab k1 ! currentThread k" using c by simp
      then show ?thesis using 1(2,3) c unfolding k' by (simp add: calls_def ktab_upd list_update_append nth_append thr_def)
    qed
    moreover have "list_all (tame s p) [SetLevel (level k), Fork t body]" using p by (simp add: tame_def plain_def)
    ultimately have "pushes (tame s p) k k'" unfolding pushes_def
      by (intro exI [of _ "[SetLevel (level k), Fork t body]"] exI [of _ "[[]]"]) simp
    then show ?thesis using 1(1) k' by (simp add: mild_def)
  qed
  show ?thesis
    using p n e c
    by (auto simp: mild_def After_switch_def Thread_Yield_def FindNextToRun_def Thread_Sleep_def Sleep_loop_def Thread_Finish_def Scheduler_ReadyToRun_def
        Scheduler_Run_def Thread_delete_def Free_TID_def Let_def ktab_same tame_def plain_def elim!: rbind_InrE
        split: if_split_asm list.split_asm prod.split_asm option.split simp: mild_intros)
qed

lemma mild_semaphores:
  assumes d: "device s" and c: "currentThread k < length (threads k)" and e: "exec p k = Inr k'"
    and p: "\<exists>u. u \<noteq> s \<and> p \<in> {P u, P_loop u, V u, V_inc u}"
  shows "mild s p k k'"
  using p e c unchanged_sem
  by (auto simp: mild_def Semaphore_P_def Semaphore_P_loop_def Semaphore_V_def Semaphore_V_inc_def tame_def plain_def
      split: if_split_asm list.split_asm simp: mild_intros)

lemma mild_locks:
  assumes d: "device s" and c: "currentThread k < length (threads k)" and e: "exec p k = Inr k'"
    and p: "(\<exists>l. p \<in> {Acquire l, Release l, SetOwner l}) \<or> (\<exists>c l. p \<in> {Wait c l, WaitSleep c, Signal c l, Broadcast c l, BroadcastLoop c})
      \<or> (\<exists>b. p \<in> {ArriveAndWait b, BarrierCheck b, BarrierReset b})"
  shows "mild s p k k'"
  using p d e c
  by (auto simp: mild_def device_def Lock_Acquire_def Lock_Release_def Lock_set_owner_def Condition_Wait_def Condition_wait_sleep_def Condition_Signal_def
      Condition_Broadcast_def Broadcast_loop_def Barrier_ArriveAndWait_def Barrier_check_def Barrier_reset_def Let_def tame_def plain_def elim!: rbind_InrE
      split: if_split_asm list.split_asm simp: mild_intros)

lemma mild_objects:
  assumes d: "device s" and g: "good k" and e: "exec p k = Inr k'"
    and p: "(\<exists>r. p \<in> {AcquireReaderLock r, ReaderIn r, ReleaseReaderLock r, ReaderOut r, AcquireWriterLock r, ReleaseWriterLock r})
      \<or> (\<exists>n x. p \<in> {SL_Append n x, SL_Put n x, SL_Remove n, SL_Loop n})
      \<or> (\<exists>d s. p \<in> {PlusReader d s, MinusReader d s, PlusReaderIn d s, MinusReaderOut d s, PlusWriter d s, MinusWriter d s})"
  shows "mild s p k k'"
proof -
  have c: "currentThread k < length (threads k)" using goodD(1) [OF g] .
  have w: "WriterLock (rwlocks k r) \<noteq> s" "mutex (synchdisks k x) y \<noteq> s" for r x y
    using goodD2(6) [OF g, of r] goodD2(7) [OF g, of x y] d by (auto simp: device_def)
  show ?thesis
    using p e c w d unchanged_disk
    by (auto simp: mild_def RW_AcquireReaderLock_def Reader_in_def RW_ReleaseReaderLock_def Reader_out_def RW_AcquireWriterLock_def RW_ReleaseWriterLock_def
        SynchList_Append_def SynchList_put_def SynchList_Remove_def SynchList_loop_def SD_PlusReader_def SD_reader_in_def SD_MinusReader_def SD_reader_out_def
        SD_PlusWriter_def SD_MinusWriter_def Let_def ktab_same tame_def plain_def elim!: rbind_InrE split: if_split_asm list.split_asm simp: mild_intros)
qed

lemma mild_devices:
  assumes d: "device s" and c: "currentThread k < length (threads k)" and e: "exec p k = Inr k'"
    and p: "(\<exists>c. p \<in> {ConsoleStart c, ConsolePoll c, SynchGetChar c, ConsoleGet c}) \<or> (\<exists>d t. s \<noteq> DiskSem d \<and> p \<in> {DiskRequest d t, DiskIssue d t, DiskDone d})
      \<or> (\<exists>c ch. s \<noteq> WriteSem c \<and> p \<in> {SynchPutChar c ch, ConsolePut c ch, ConsoleWritten c})"
  shows "mild s p k k'"
proof -
  have same: "mild s p k k2" if "unchanged s k k1" "ktab k1 = ktab k" "currentThread k1 = currentThread k" "k2 = k1 \<or> (\<exists>ps. k2 = calls ps k1 \<and> list_all (tame s p) ps)" for k1 k2
    using that c by (auto simp: mild_def mild_intros)
  have sched: "unchanged s k k1 \<and> ktab k1 = ktab k \<and> currentThread k1 = currentThread k"
    if "Schedule h t ty k0 = Inr k1" "list_all (\<lambda>q. \<not> completes s q) h" "unchanged s k k0" "ktab k0 = ktab k" "currentThread k0 = currentThread k" for h t ty k0 k1
  proof -
    have "sum_list (map (ewt s) h) = 0" using that(2) by (induction h) (auto simp: ewt_def)
    from Schedule_unchanged [OF that(1) this] show ?thesis using that(3-5) unchanged_trans by auto
  qed
  have con: "unchanged s k1 (set_console c D k1)" if "putBusy D = putBusy (con_dev (synchconsoles k1 c)) \<or> s \<noteq> WriteSem c" for c D k1
    using that unchanged_console by blast
  consider c where "p = ConsoleStart c" | c where "p = ConsolePoll c" | c where "p = ConsoleGet c" | d t where "s \<noteq> DiskSem d" "p = DiskIssue d t"
    | c ch where "s \<noteq> WriteSem c" "p = ConsolePut c ch"
    | "(\<exists>c. p = SynchGetChar c) \<or> (\<exists>d t. s \<noteq> DiskSem d \<and> p \<in> {DiskRequest d t, DiskDone d}) \<or> (\<exists>c ch. s \<noteq> WriteSem c \<and> p \<in> {SynchPutChar c ch, ConsoleWritten c})"
    using p by blast
  then show ?thesis
  proof cases
    case (1 c)
    then have "Schedule [ConsolePoll c] ConsoleTime ConsoleReadInt k = Inr k'" using e by (simp add: Console_start_def)
    from sched [OF this] show ?thesis by (intro same [of k' k']) simp_all
  next
    case (2 c)
    let ?C = "synchconsoles k c"
    obtain k1 D where k1: "Schedule [ConsolePoll c] ConsoleTime ConsoleReadInt k = Inr k1" and D: "CheckCharAvail (totalTicks k1) (con_ready ?C (totalTicks k1)) (con_dev ?C) = Inr D"
      and k': "k' = set_console c D k1 \<or> k' = calls [V (ReadSem c)] (set_console c D k1)"
      using e 2 by (auto simp: Console_poll_def Let_def elim!: rbind_InrE split: if_split_asm)
    have "putBusy D = putBusy (con_dev ?C)" using D by (auto simp: CheckCharAvail_def Let_def elim!: rbind_InrE split: if_split_asm list.split_asm)
    moreover have "synchconsoles k1 = synchconsoles k" using k1 by (auto simp: Schedule_def Let_def elim!: rbind_InrE)
    ultimately have u: "unchanged s k1 (set_console c D k1)" by (intro con) simp
    have "list_all (tame s p) [V (ReadSem c)]" using d 2 by (auto simp: device_def tame_def plain_def)
    then show ?thesis using sched [OF k1] k' unchanged_trans [OF _ u] by (intro same [of "set_console c D k1" k']) auto
  next
    case (3 c)
    then show ?thesis using e con [of "con_dev (synchconsoles k c)\<lparr>incoming := EOF\<rparr>" k c]
      by (auto simp: Console_get_def GetChar_def mild_def pushes_same ktab_same)
  next
    case (4 d t)
    let ?k = "k\<lparr>synchdisks := (synchdisks k)(d := synchdisks k d\<lparr>disk_active := True\<rparr>)\<rparr>"
    have "Schedule [DiskDone d] t DiskInt ?k = Inr k'" using e 4 by (auto simp: Disk_issue_def Let_def elim!: rbind_InrE)
    from sched [OF this] show ?thesis using 4 unchanged_disk [of s d _ k] by (intro same [of k' k']) auto
  next
    case (5 c ch)
    then obtain D where "Schedule [ConsoleWritten c] ConsoleTime ConsoleWriteInt (set_console c D k) = Inr k'" using e by (auto simp: Console_put_def elim!: rbind_InrE)
    from sched [OF this] show ?thesis using 5 con [of D k c] by (intro same [of k' k']) auto
  next
    case 6
    then show ?thesis using e c d unchanged_disk con
      by (auto simp: mild_def SynchConsole_GetChar_def SynchDisk_request_def Disk_done_def SynchConsole_PutChar_def Console_written_def Let_def device_def
          tame_def plain_def mild_intros)
  qed
qed

end
