(* ===== verification/DeviceSafety.thy ===== *)
theory DeviceSafety
  imports KernelDevices
begin

text \<open>
  The devices are never asked while they are busy: the invariant of a device, one step of the kernel, and every run.
\<close>

section \<open>Starts and completions\<close>

lemma starts_facts:
  assumes "starts s p"
  shows "\<not> completes s p" "p \<noteq> Release l" "dwt s p = 1" "ewt s p = 0"
proof -
  show c: "\<not> completes s p" "p \<noteq> Release l" using assms by (cases p; simp)+
  have "p \<noteq> P s" "p \<noteq> P_loop s" using assms by auto
  then show "dwt s p = 1" "ewt s p = 0" using assms c(1) by (simp_all add: dwt_def ewt_def)
qed

lemma completes_facts:
  assumes "completes s p"
  shows "passes l p" "p \<noteq> Release l" "dwt s p = 0" "ewt s p = 1"
proof -
  show "passes l p" "p \<noteq> Release l" using assms by (cases p; simp)+
  have "\<not> starts s p" using starts_facts(1) assms by blast
  moreover have "p \<notin> {P s, P_loop s, V s, V_inc s}" using assms by auto
  ultimately show "dwt s p = 0" "ewt s p = 1" using assms by (simp_all add: dwt_def ewt_def)
qed

section \<open>The invariant\<close>

definition dev_ok :: "sem \<Rightarrow> nachos \<Rightarrow> bool" where
  "dev_ok s k \<longleftrightarrow> dev_lock k s \<noteq> threadLock
     \<and> (\<forall>t < length (ktab k). \<exists>ph. scan (dev_lock k s) s ph (ktab k ! t) \<and> (ph \<noteq> Outside \<longrightarrow> Owner k (dev_lock k s) = Some t))
     \<and> sem_value (sems k s) + (if busy k s then 1 else 0) + tsum (dwt s) (ktab k) = 0
     \<and> due s k + tsum (ewt s) (ktab k) = (if busy k s then 1 else 0)"

text \<open>A step of the current thread, as far as the invariant can see it: \<open>p\<close> is replaced by the points \<open>qs\<close>.\<close>

lemma settle:
  assumes ok: "dev_ok s k" and c: "currentThread k < length (ktab k)" and p: "ktab k ! currentThread k = p # ps"
    and t: "ktab k' = (ktab k)[currentThread k := qs @ ps] @ extra" "set extra \<subseteq> {[]}" and l: "dev_lock k' s = dev_lock k s"
    and o: "\<And>t. t \<noteq> currentThread k \<Longrightarrow> Owner k (dev_lock k s) = Some t \<Longrightarrow> Owner k' (dev_lock k s) = Some t"
    and ph: "scan (dev_lock k s) s ph (qs @ ps)" "ph \<noteq> Outside \<Longrightarrow> Owner k' (dev_lock k s) = Some (currentThread k)"
    and v: "sem_value (sems k' s) + (if busy k' s then 1 else 0) + sum_list (map (dwt s) qs) = sem_value (sems k s) + (if busy k s then 1 else 0) + dwt s p"
    and n: "due s k' + sum_list (map (ewt s) qs) - (if busy k' s then 1 else 0) = due s k + ewt s p - (if busy k s then 1 else 0)"
  shows "dev_ok s k'"
proof -
  let ?L = "dev_lock k s"
  have "\<exists>ph. scan ?L s ph (ktab k' ! u) \<and> (ph \<noteq> Outside \<longrightarrow> Owner k' ?L = Some u)" if u: "u < length (ktab k')" for u
  proof (cases "u < length (ktab k) \<and> u \<noteq> currentThread k")
    case True
    then have "ktab k' ! u = ktab k ! u" using t(1) by (simp add: nth_append)
    then show ?thesis using ok True o [of u] unfolding dev_ok_def by metis
  next
    case False
    then consider "u = currentThread k" | "length (ktab k) \<le> u" by fastforce
    then show ?thesis
    proof cases
      case 1
      then have "ktab k' ! u = qs @ ps" using t(1) c by (simp add: nth_append)
      then show ?thesis using ph 1 by auto
    next
      case 2
      then have "ktab k' ! u = extra ! (u - length (ktab k))" "u - length (ktab k) < length extra" using t(1) u by (simp_all add: nth_append)
      then have "ktab k' ! u = []" using t(2) nth_mem by fastforce
      then show ?thesis by (intro exI [of _ Outside]) simp
    qed
  qed
  moreover have "tsum f (ktab k') = tsum f (ktab k) - f p + sum_list (map f qs)" for f :: "point \<Rightarrow> int"
    using t c p by (simp add: tsum_empty)
  ultimately show ?thesis using ok l v n unfolding dev_ok_def by auto
qed

text \<open>At the start of a request the device is idle.\<close>

lemma start_idle:
  assumes ok: "dev_ok s k" and c: "currentThread k < length (ktab k)" and p: "ktab k ! currentThread k = p # ps" "starts s p" and v: "0 \<le> sem_value (sems k s)"
  shows "\<not> busy k s"
proof -
  let ?L = "dev_lock k s" and ?c = "currentThread k"
  have ph: "\<exists>ph. scan ?L s ph (ktab k ! t) \<and> (ph \<noteq> Outside \<longrightarrow> Owner k ?L = Some t)" if "t < length (ktab k)" for t using ok that by (simp add: dev_ok_def)
  obtain ph where 1: "scan ?L s ph (p # ps)" "ph \<noteq> Outside \<longrightarrow> Owner k ?L = Some ?c" using ph [OF c] p(1) by auto
  then have i: "ph = Inside" using p(2) by simp
  have "0 \<le> sum_list (map (dwt s) (ktab k ! t))" if t: "t < length (ktab k)" for t
  proof (cases "t = ?c")
    case True
    then show ?thesis using scan_sum [OF 1(1)] i p(1) by simp
  next
    case False
    then show ?thesis using ph [OF t] 1(2) i scan_sum by fastforce
  qed
  then have "0 \<le> tsum (dwt s) (ktab k)" unfolding tsum_def by (intro sum_list_nonneg) (auto simp: in_set_conv_nth)
  then show ?thesis using ok v by (auto simp: dev_ok_def split: if_splits)
qed

section \<open>One step\<close>

definition does :: "sem \<Rightarrow> nachos \<Rightarrow> point \<Rightarrow> point list \<Rightarrow> nachos \<Rightarrow> bool" where
  "does s k p ps k' \<longleftrightarrow> device s \<and> dev_ok s k \<and> locks_ok k \<and> step k = Inr k' \<and> konts (thr k (currentThread k)) = p # ps \<and> exec p (pop k) = Inr k'"

lemma pop_frame: "currentThread (pop k) = currentThread k" "unchanged s k (pop k)" "length (threads (pop k)) = length (threads k)" "level (pop k) = level k"
  "sems (pop k) = sems k" "Owner (pop k) = Owner k" "synchdisks (pop k) = synchdisks k" "synchconsoles (pop k) = synchconsoles k" "pending (pop k) = pending k"
  "busy (pop k) s = busy k s" "due s (pop k) = due s k" "dev_lock (pop k) s = dev_lock k s"
  by (simp_all add: pop_def unchanged_def busy_def dev_lock_def due_def split: sem.split) (simp_all add: upd_def)

lemma doesD:
  assumes "does s k p ps k'"
  shows "device s" "dev_ok s k" "locks_ok k" "good k" "good (pop k)" "exec p (pop k) = Inr k'" "currentThread k < length (ktab k)" "ktab k ! currentThread k = p # ps"
    "ktab (pop k) = (ktab k)[currentThread k := ps]" "dev_lock k s \<noteq> threadLock"
    "\<exists>ph. scan (dev_lock k s) s ph (p # ps) \<and> (ph \<noteq> Outside \<longrightarrow> Owner k (dev_lock k s) = Some (currentThread k))"
    "t \<noteq> currentThread k \<Longrightarrow> Owner k l = Some t \<Longrightarrow> Owner k' l = Some t"
    "Owner k l = Some (currentThread k) \<Longrightarrow> p \<noteq> Release l \<Longrightarrow> Owner k' l = Some (currentThread k)"
proof -
  note D = assms [unfolded does_def]
  show s: "device s" "dev_ok s k" "locks_ok k" "exec p (pop k) = Inr k'" using D by simp_all
  show g: "good k" using s(3) by (simp add: locks_ok_def)
  then show "good (pop k)" by (rule good_pop)
  show c: "currentThread k < length (ktab k)" using goodD(1) [OF g] by simp
  then show p: "ktab k ! currentThread k = p # ps" using D by simp
  show "ktab (pop k) = (ktab k)[currentThread k := ps]" using D by (simp add: pop_def ktab_upd)
  show "dev_lock k s \<noteq> threadLock" "\<exists>ph. scan (dev_lock k s) s ph (p # ps) \<and> (ph \<noteq> Outside \<longrightarrow> Owner k (dev_lock k s) = Some (currentThread k))"
    using s(2) c p unfolding dev_ok_def by metis+
  have st: "step k = Inr k'" "hd (konts (thr k (currentThread k))) = p" using D by simp_all
  show "t \<noteq> currentThread k \<Longrightarrow> Owner k l = Some t \<Longrightarrow> Owner k' l = Some t" using step_Owner [OF s(3) st(1)] by blast
  show "Owner k l = Some (currentThread k) \<Longrightarrow> p \<noteq> Release l \<Longrightarrow> Owner k' l = Some (currentThread k)" using step_Owner [OF s(3) st(1)] st(2) by blast
qed

lemma does_settle:
  assumes d: "does s k p ps k'" and t: "ktab k' = (ktab (pop k))[currentThread k := qs @ ps] @ extra" "set extra \<subseteq> {[]}" and l: "dev_lock k' s = dev_lock k s"
    and ph: "scan (dev_lock k s) s ph (qs @ ps)" "ph \<noteq> Outside \<Longrightarrow> Owner k' (dev_lock k s) = Some (currentThread k)"
    and v: "sem_value (sems k' s) + (if busy k' s then 1 else 0) + sum_list (map (dwt s) qs) = sem_value (sems k s) + (if busy k s then 1 else 0) + dwt s p"
    and n: "due s k' + sum_list (map (ewt s) qs) - (if busy k' s then 1 else 0) = due s k + ewt s p - (if busy k s then 1 else 0)"
  shows "dev_ok s k'"
proof -
  note D = doesD [OF d]
  have "ktab k' = (ktab k)[currentThread k := qs @ ps] @ extra" using t(1) D(9) by simp
  from settle [OF D(2,7,8) this t(2) l D(12) ph v n] show ?thesis by simp
qed

text \<open>The same for a step that only makes calls, in a state \<open>k1\<close> with the same threads.\<close>

lemma does_calls:
  assumes d: "does s k p ps k'" and k': "k' = calls qs k1" "ktab k1 = ktab (pop k)" "currentThread k1 = currentThread k"
    and l: "dev_lock k1 s = dev_lock k s" and ph: "scan (dev_lock k s) s ph (qs @ ps)" "ph \<noteq> Outside \<Longrightarrow> Owner k' (dev_lock k s) = Some (currentThread k)"
    and v: "sem_value (sems k1 s) + (if busy k1 s then 1 else 0) + sum_list (map (dwt s) qs) = sem_value (sems k s) + (if busy k s then 1 else 0) + dwt s p"
    and n: "due s k1 + sum_list (map (ewt s) qs) - (if busy k1 s then 1 else 0) = due s k + ewt s p - (if busy k s then 1 else 0)"
  shows "dev_ok s k'"
proof -
  note D = doesD [OF d]
  have u: "unchanged s k1 k'" using k'(1) by simp
  have "length (ktab k1) = length (ktab k)" using k'(2) D(9) by simp
  then have "konts (thr k1 (currentThread k)) = ps" using k'(2) D(7,9) by (metis ktab_nth(1,2) nth_list_update_eq)
  then have "ktab k' = (ktab (pop k))[currentThread k := qs @ ps] @ []" using k' by (simp add: calls_def ktab_upd)
  then show ?thesis using l v n u by (intro does_settle [where extra = "[]", OF d _ _ _ ph]) (simp_all add: unchanged_def)
qed

lemma does_mild:
  assumes d: "does s k p ps k'" and p: "plain s p" and m: "mild s p (pop k) k'" and l: "p \<noteq> Acquire (dev_lock k s)" "p \<noteq> SetOwner (dev_lock k s)"
  shows "dev_ok s k'"
proof -
  note D = doesD [OF d]
  let ?L = "dev_lock k s"
  obtain qs extra where q: "ktab k' = (ktab (pop k))[currentThread k := qs @ ktab (pop k) ! currentThread k] @ extra" "set extra \<subseteq> {[]}" "list_all (tame s p) qs"
    and u: "unchanged s (pop k) k'" using m by (auto simp: mild_def pushes_def pop_frame)
  have t: "ktab k' = (ktab (pop k))[currentThread k := qs @ ps] @ extra" using q(1) D(7,9) by simp
  obtain ph where ph: "scan ?L s ph (p # ps)" "ph \<noteq> Outside \<longrightarrow> Owner k ?L = Some (currentThread k)" using D(11) by blast
  then have sc: "scan ?L s (if passes ?L p then ph else Outside) ps" using p l by (simp add: plain_def)
  have pl: "list_all (plain s) qs" using q(3) by (auto simp: list_all_iff tame_def)
  have "\<exists>ph. scan ?L s ph (qs @ ps) \<and> (ph \<noteq> Outside \<longrightarrow> Owner k' ?L = Some (currentThread k))"
  proof (cases "passes ?L p")
    case True
    then have "list_all (transparent ?L s) qs" using q(3) D(10) by (auto simp: list_all_iff tame_def plain_def transparent_def)
    then have "scan ?L s ph (qs @ ps)" using sc True scan_transparent by simp
    moreover have "p \<noteq> Release ?L" using True by auto
    ultimately show ?thesis using ph(2) D(13) by blast
  next
    case False
    then show ?thesis using sc scan_plain [OF pl] by (intro exI [of _ Outside]) simp
  qed
  then obtain ph' where ph': "scan ?L s ph' (qs @ ps)" "ph' \<noteq> Outside \<Longrightarrow> Owner k' ?L = Some (currentThread k)" by blast
  show ?thesis by (rule does_settle [OF d t q(2) _ ph']) (use u sum_plain [OF pl] plain_wt [OF p] in \<open>simp_all add: unchanged_def pop_frame\<close>)
qed

lemma does_lock:
  assumes d: "does s k p ps k'" and p: "p = Acquire (dev_lock k s) \<or> p = SetOwner (dev_lock k s)"
  shows "dev_ok s k'"
proof -
  note D = doesD [OF d]
  let ?L = "dev_lock k s"
  have s: "LockSem l \<noteq> s" for l using D(1) by (auto simp: device_def)
  have sc: "scan ?L s Inside ps" using D(11) p by auto
  show ?thesis
  proof (cases "p = Acquire ?L")
    case True
    then have k': "k' = calls [P (LockSem ?L), SetOwner ?L, SetLevel (level k)] ((pop k)\<lparr>level := IntOff\<rparr>)"
      using D(6) by (simp add: Lock_Acquire_def atomically_def pop_frame)
    show ?thesis by (rule does_calls [OF d k', of Outside]) (use True s sc in \<open>simp_all add: pop_frame dwt_def ewt_def busy_def dev_lock_def due_def split: sem.split\<close>)
  next
    case False
    then have k': "p = SetOwner ?L" "k' = (pop k)\<lparr>Owner := (Owner k)(?L := Some (currentThread k))\<rparr>" using p D(6) by (simp_all add: Lock_set_owner_def pop_frame)
    have "unchanged s k k'" using k'(2) pop_frame(2) [of s k] by simp
    moreover have "ktab k' = (ktab (pop k))[currentThread k := [] @ ps] @ []" using D(9) k'(2) by simp
    ultimately show ?thesis using k' sc by (intro does_settle [OF d, of "[]" "[]" Inside]) (simp_all add: unchanged_def dwt_def ewt_def)
  qed
qed

lemma does_semaphore:
  assumes d: "does s k p ps k'" and p: "p \<in> {P s, P_loop s, V s, V_inc s}"
  shows "dev_ok s k'"
proof -
  note D = doesD [OF d]
  let ?L = "dev_lock k s" and ?k = "pop k"
  obtain ph where ph: "scan ?L s ph (p # ps)" "ph \<noteq> Outside \<longrightarrow> Owner k ?L = Some (currentThread k)" using D(11) by blast
  have s: "\<not> starts s q" "\<not> completes s q" if "q \<in> {P u, P_loop u, V u, V_inc u, SetLevel x, Sleep, ReadyToRun t}" for q u x t using that by auto
  have o: "ph \<noteq> Outside \<Longrightarrow> Owner k' ?L = Some (currentThread k)" using ph(2) D(13) p by auto
  have us: "unchanged s k (upd_sem s g ?k)" if "sem_value (g (sems k s)) = sem_value (sems k s)" for g
    using unchanged_trans [OF pop_frame(2) unchanged_sem [of s s g ?k]] that pop_frame by simp
  have c: "dev_ok s k'" if "k' = calls qs k1" "ktab k1 = ktab ?k" "currentThread k1 = currentThread k" "unchanged s k k1" "scan ?L s ph (qs @ ps)"
    "sum_list (map (dwt s) qs) = dwt s p" "sum_list (map (ewt s) qs) = 0" for qs k1
    by (rule does_calls [OF d that(1-3) _ that(5) o]) (use that(4,6,7) p in \<open>auto simp: unchanged_def ewt_def\<close>)
  have val: "dev_ok s k'" if "k' = upd_sem s (\<lambda>m. m\<lparr>sem_value := sem_value m + x\<rparr>) ?k" "x = dwt s p" "scan ?L s ph' ps" "ph' = Outside \<or> ph' = ph" for x ph'
    by (rule does_settle [where qs = "[]" and extra = "[]" and ph = ph', OF d])
      (use that D(9) p o in \<open>auto simp: upd_sem_def pop_frame ewt_def busy_def dev_lock_def due_def split: sem.split\<close>)
  consider "p = P s" | "p = P_loop s" "sem_value (sems k s) = 0" | "p = P_loop s" "sem_value (sems k s) \<noteq> 0" | "p = V s" | "p = V_inc s" using p by blast
  then show ?thesis
  proof cases
    case 1
    have "k' = calls [P_loop s, SetLevel (level k)] (?k\<lparr>level := IntOff\<rparr>)" using D(6) 1 by (simp add: Semaphore_P_def atomically_def pop_frame)
    from c [OF this] show ?thesis using ph(1) 1 s by (simp add: pop_frame dwt_def ewt_def)
  next
    case 2
    have "k' = calls [Sleep, P_loop s] (upd_sem s (\<lambda>m. m\<lparr>queue := queue m @ [currentThread k]\<rparr>) ?k)" using D(6) 2 by (simp add: Semaphore_P_loop_def pop_frame)
    from c [OF this] show ?thesis using ph(1) 2 s us by (simp add: pop_frame dwt_def ewt_def)
  next
    case 3
    then have "k' = upd_sem s (\<lambda>m. m\<lparr>sem_value := sem_value m + -1\<rparr>) ?k" using D(6) by (simp add: Semaphore_P_loop_def pop_frame)
    from val [OF this _ _ disjI1 [OF refl]] show ?thesis using ph(1) 3 by (simp add: dwt_def)
  next
    case 4
    show ?thesis
    proof (cases "queue (sems k s)")
      case Nil
      have "k' = calls [V_inc s, SetLevel (level k)] (?k\<lparr>level := IntOff\<rparr>)" using D(6) 4 Nil by (simp add: Semaphore_V_def atomically_def pop_frame)
      from c [OF this] show ?thesis using ph(1) 4 s by (simp add: pop_frame dwt_def ewt_def)
    next
      case (Cons t ts)
      have "k' = calls [ReadyToRun t, V_inc s, SetLevel (level k)] ((upd_sem s (\<lambda>m. m\<lparr>queue := ts\<rparr>) ?k)\<lparr>level := IntOff\<rparr>)"
        using D(6) 4 Cons by (simp add: Semaphore_V_def atomically_def pop_frame) (simp add: upd_sem_def pop_frame)
      from c [OF this] show ?thesis using ph(1) 4 s us by (simp add: pop_frame dwt_def ewt_def)
    qed
  next
    case 5
    then have "k' = upd_sem s (\<lambda>m. m\<lparr>sem_value := sem_value m + 1\<rparr>) ?k" using D(6) by (simp add: Semaphore_V_inc_def)
    from val [OF this _ _ disjI2 [OF refl]] show ?thesis using ph(1) 5 by (simp add: dwt_def)
  qed
qed

lemma does_request:
  assumes d: "does s k p ps k'" and p: "(\<exists>d t. p = DiskRequest d t \<and> s = DiskSem d) \<or> (\<exists>c ch. p = SynchPutChar c ch \<and> s = WriteSem c)"
  shows "dev_ok s k'"
proof -
  note D = doesD [OF d]
  let ?L = "dev_lock k s"
  have sc: "scan ?L s Outside ps" using D(11) p by auto
  have gen: "dev_ok s k'" if q: "starts s q" and k': "k' = calls [Acquire ?L, q, P s, Release ?L] (pop k)" for q
  proof -
    have q': "q \<noteq> P u" "q \<noteq> P_loop u" "q \<noteq> V u" "q \<noteq> V_inc u" "\<not> completes s q" for u using q starts_facts(1) by auto
    show ?thesis by (rule does_calls [OF d k', of Outside]) (use q q' sc p in \<open>auto simp: pop_frame dwt_def ewt_def\<close>)
  qed
  consider d t where "p = DiskRequest d t" "s = DiskSem d" | c ch where "p = SynchPutChar c ch" "s = WriteSem c" using p by blast
  then show ?thesis
  proof cases
    case (1 d t)
    then show ?thesis using D(6) by (intro gen [of "DiskIssue d t"]) (simp_all add: SynchDisk_request_def Let_def dev_lock_def pop_frame)
  next
    case (2 c ch)
    then show ?thesis using D(6) by (intro gen [of "ConsolePut c ch"]) (simp_all add: SynchConsole_PutChar_def Let_def dev_lock_def pop_frame)
  qed
qed

lemma Schedule_adds:
  assumes "Schedule h t ty k = Inr k'"
  shows "ktab k' = ktab k \<and> busy k' s = busy k s \<and> dev_lock k' s = dev_lock k s \<and> sems k' = sems k \<and> due s k' = due s k + sum_list (map (ewt s) h)"
proof -
  have "k' = k\<lparr>pending := sorted_insert (h, ty) (totalTicks k + t) (pending k)\<rparr>" using assms by (auto simp: Schedule_def Let_def elim!: rbind_InrE)
  then show ?thesis by (simp add: busy_def dev_lock_def due_def due_insert split: sem.split)
qed

lemma does_start:
  assumes d: "does s k p ps k'" and p: "starts s p"
  shows "dev_ok s k'"
proof -
  note D = doesD [OF d]
  let ?L = "dev_lock k s"
  obtain ph where ph: "scan ?L s ph (p # ps)" "ph \<noteq> Outside \<longrightarrow> Owner k ?L = Some (currentThread k)" using D(11) by blast
  then have st: "ph = Inside" "scan ?L s Started ps" using p by simp_all
  have b: "\<not> busy k s" using start_idle [OF D(2,7,8) p] goodD2(5) [OF D(4)] by simp
  have o: "Owner k' ?L = Some (currentThread k)" using ph(2) st(1) D(13) starts_facts(2) [OF p] by simp
  have k': "ktab k' = ktab (pop k) \<and> busy k' s \<and> dev_lock k' s = ?L \<and> sem_value (sems k' s) = sem_value (sems k s) \<and> due s k' = due s k + 1"
  proof (cases p)
    case (DiskIssue d t)
    let ?k = "(pop k)\<lparr>synchdisks := (synchdisks k)(d := synchdisks k d\<lparr>disk_active := True\<rparr>)\<rparr>"
    have s: "s = DiskSem d" using p DiskIssue by simp
    have "Schedule [DiskDone d] t DiskInt ?k = Inr k'" using D(6) DiskIssue by (auto simp: Disk_issue_def Let_def pop_frame elim!: rbind_InrE)
    from Schedule_adds [OF this, of s] show ?thesis by (simp add: s busy_def dev_lock_def due_def pop_frame ewt_def)
  next
    case (ConsolePut c ch)
    then obtain E where "PutChar (totalTicks (pop k)) ch (con_dev (synchconsoles k c)) = Inr E" "Schedule [ConsoleWritten c] ConsoleTime ConsoleWriteInt (set_console c E (pop k)) = Inr k'"
      using D(6) by (auto simp: Console_put_def pop_frame elim!: rbind_InrE)
    moreover from this have "putBusy E" by (auto simp: PutChar_def elim!: rbind_InrE)
    moreover have s: "s = WriteSem c" using p ConsolePut by simp
    ultimately show ?thesis using Schedule_adds [of "[ConsoleWritten c]" _ _ _ k' s]
      by (fastforce simp: s busy_def dev_lock_def due_def set_console_def pop_frame ewt_def)
  qed (use p in simp_all)
  show ?thesis
    by (rule does_settle [where qs = "[]" and extra = "[]" and ph = Started, OF d]) (use k' D(9) st(2) o b starts_facts(3,4) [OF p] in simp_all)
qed

lemma tsum_member: "t < length kss \<Longrightarrow> (\<And>p. 0 \<le> f p) \<Longrightarrow> sum_list (map f (kss ! t)) \<le> tsum f kss"
  unfolding tsum_def by (rule member_le_sum_list) (auto intro!: sum_list_nonneg)

lemma ewt_nonneg: "0 \<le> sum_list (map (ewt s) ps)"
  by (induction ps) (simp_all add: ewt_def)

lemma due_nonneg: "0 \<le> due s k"
proof -
  have "0 \<le> sum_list (map (\<lambda>h. sum_list (map (ewt s) (fst (fst h)))) hs)" for hs :: "((point list \<times> IntType) \<times> int) list"
    by (induction hs) (simp_all add: ewt_nonneg)
  then show ?thesis by (simp add: due_def)
qed

lemma does_end:
  assumes d: "does s k p ps k'" and p: "completes s p"
  shows "dev_ok s k'"
proof -
  note D = doesD [OF d]
  let ?L = "dev_lock k s"
  obtain ph where ph: "scan ?L s ph (p # ps)" "ph \<noteq> Outside \<longrightarrow> Owner k ?L = Some (currentThread k)" using D(11) by blast
  have "\<not> starts s p" "p \<notin> {P s, P_loop s}" "p \<notin> {Acquire ?L, SetOwner ?L}" using p starts_facts(1) by auto
  then have sc: "scan ?L s ph ps" using ph(1) completes_facts(1) [OF p, of ?L] by simp
  have e: "0 \<le> ewt s q" for q by (simp add: ewt_def)
  have "sum_list (map (ewt s) (p # ps)) \<le> tsum (ewt s) (ktab k)" using tsum_member [OF D(7), of "ewt s"] e unfolding D(8) by blast
  moreover have "0 \<le> sum_list (map (ewt s) ps)" "0 \<le> due s k" by (rule ewt_nonneg due_nonneg)+
  moreover have "due s k + tsum (ewt s) (ktab k) = (if busy k s then 1 else 0)" using D(2) by (simp add: dev_ok_def)
  moreover have "sum_list (map (ewt s) (p # ps)) = 1 + sum_list (map (ewt s) ps)" using completes_facts(4) [OF p] by simp
  ultimately have "(if busy k s then 1 else 0) \<ge> (1 :: int)" by linarith
  then have b: "busy k s" by (rule contrapos_pp) simp
  have o: "ph \<noteq> Outside \<Longrightarrow> Owner k' ?L = Some (currentThread k)" using ph(2) D(13) completes_facts(2) [OF p] by simp
  have V: "\<not> starts s (V s)" "\<not> completes s (V s)" by simp_all
  obtain k1 where k1: "k' = calls [V s] k1" "ktab k1 = ktab (pop k)" "currentThread k1 = currentThread k" "\<not> busy k1 s" "dev_lock k1 s = ?L" "sems k1 = sems k" "due s k1 = due s k"
  proof (cases p)
    case (DiskDone d)
    let ?k = "(pop k)\<lparr>synchdisks := (synchdisks k)(d := synchdisks k d\<lparr>disk_active := False\<rparr>)\<rparr>"
    show ?thesis by (rule that [of ?k]) (use D(6) DiskDone p in \<open>simp_all add: Disk_done_def Let_def pop_frame busy_def dev_lock_def due_def\<close>)
  next
    case (ConsoleWritten c)
    let ?k = "set_console c (WriteDone (con_dev (synchconsoles k c))) (pop k)"
    show ?thesis by (rule that [of ?k])
      (use D(6) ConsoleWritten p in \<open>simp_all add: Console_written_def pop_frame busy_def dev_lock_def due_def\<close>,
       simp_all add: set_console_def WriteDone_def pop_frame)
  qed (use p in simp_all)
  show ?thesis
    by (rule does_calls [OF d k1(1-3,5), of ph]) (use k1 sc o b completes_facts(3,4) [OF p] in \<open>simp_all add: dwt_def [of s "V s"] ewt_def [of s "V s"]\<close>)
qed

lemma CheckIfDue_device:
  assumes g: "good k" and c: "CheckIfDue adv k = Inr (h, k1)"
  shows "ktab k1 = ktab k" "currentThread k1 = currentThread k" "sems k1 = sems k" "busy k1 s = busy k s" "dev_lock k1 s = dev_lock k s" "Owner k1 = Owner k"
    "due s k1 + (case h of None \<Rightarrow> 0 | Some qs \<Rightarrow> sum_list (map (ewt s) qs)) = due s k"
    "h = Some qs \<Longrightarrow> list_all (transparent L s) qs \<and> sum_list (map (dwt s) qs) = 0"
proof -
  have hs: "\<forall>e \<in> set (pending k). handler_ok (fst (fst e))" using g by (simp add: good_def)
  have t: "list_all (transparent L s) qs \<and> sum_list (map (dwt s) qs) = 0" if "handler_ok ps" "qs = ps @ [EndHandler m]" for ps qs m
    using that by (auto simp: handler_ok_def transparent_def dwt_def)
  have "ktab k1 = ktab k \<and> currentThread k1 = currentThread k \<and> sems k1 = sems k \<and> busy k1 s = busy k s \<and> dev_lock k1 s = dev_lock k s \<and> Owner k1 = Owner k
    \<and> due s k1 + (case h of None \<Rightarrow> 0 | Some qs \<Rightarrow> sum_list (map (ewt s) qs)) = due s k
    \<and> (\<forall>qs. h = Some qs \<longrightarrow> list_all (transparent L s) qs \<and> sum_list (map (dwt s) qs) = 0)"
  proof (cases "pending k")
    case Nil
    then show ?thesis using c by (auto simp: CheckIfDue_def elim!: rbind_InrE)
  next
    case (Cons e rest)
    obtain hd ty w where e: "e = ((hd, ty), w)" by (metis surj_pair)
    have r: "handler_ok hd" using hs Cons e by auto
    have "h = None \<or> (\<exists>m. h = Some (hd @ [EndHandler m]))" using c Cons e by (auto simp: CheckIfDue_def Let_def elim!: rbind_InrE split: if_split_asm)
    then have "\<forall>qs. h = Some qs \<longrightarrow> list_all (transparent L s) qs \<and> sum_list (map (dwt s) qs) = 0" using t [OF r] by auto
    moreover have "ktab k1 = ktab k \<and> currentThread k1 = currentThread k \<and> sems k1 = sems k \<and> synchdisks k1 = synchdisks k \<and> synchconsoles k1 = synchconsoles k \<and> Owner k1 = Owner k"
      using c Cons e by (auto simp: CheckIfDue_def Let_def elim!: rbind_InrE split: if_split_asm)
    moreover have "due s k1 + (case h of None \<Rightarrow> 0 | Some qs \<Rightarrow> sum_list (map (ewt s) qs)) = due s k"
      using c Cons e by (auto simp: CheckIfDue_def Let_def due_def due_insert ewt_def [of s "EndHandler _"] elim!: rbind_InrE split: if_split_asm)
    ultimately show ?thesis by (simp add: busy_def dev_lock_def split: sem.split)
  qed
  then show "ktab k1 = ktab k" "currentThread k1 = currentThread k" "sems k1 = sems k" "busy k1 s = busy k s" "dev_lock k1 s = dev_lock k s" "Owner k1 = Owner k"
    "due s k1 + (case h of None \<Rightarrow> 0 | Some qs \<Rightarrow> sum_list (map (ewt s) qs)) = due s k"
    "h = Some qs \<Longrightarrow> list_all (transparent L s) qs \<and> sum_list (map (dwt s) qs) = 0" by simp_all
qed

lemma does_due:
  assumes d: "does s k p ps k'" and p: "p = DueLoop \<or> p = Idle"
  shows "dev_ok s k'"
proof -
  note D = doesD [OF d]
  let ?L = "dev_lock k s"
  obtain ph where ph: "scan ?L s ph (p # ps)" "ph \<noteq> Outside \<longrightarrow> Owner k ?L = Some (currentThread k)" using D(11) by blast
  have sc: "scan ?L s ph ps" using ph(1) p by auto
  have o: "ph \<noteq> Outside \<Longrightarrow> Owner k' ?L = Some (currentThread k)" using ph(2) D(13) p by auto
  have w: "dwt s p = 0" "ewt s p = 0" using p by (auto simp: dwt_def ewt_def)
  obtain adv k0 h k1 rest where c: "CheckIfDue adv k0 = Inr (h, k1)" and k0: "good k0" "ktab k0 = ktab (pop k)" "unchanged s k k0" "currentThread k0 = currentThread k"
    and k': "h = None \<Longrightarrow> k' = k1 \<or> k' = k1\<lparr>halted := True\<rparr>" "\<And>qs. h = Some qs \<Longrightarrow> k' = calls (qs @ rest) k1" and rest: "rest = [DueLoop] \<or> rest = [DueLoop, IdleEnd]"
  proof (cases "p = DueLoop")
    case True
    then obtain h k1 where "CheckIfDue False (pop k) = Inr (h, k1)" "k' = (case h of None \<Rightarrow> k1 | Some ps \<Rightarrow> calls (ps @ [DueLoop]) k1)"
      using D(6) by (auto simp: Due_loop_def elim!: rbind_InrE)
    then show ?thesis using D(5) pop_frame(1,2) by (intro that [of False "pop k" h k1 "[DueLoop]"]) (auto split: option.splits)
  next
    case False
    let ?k = "(pop k)\<lparr>mstatus := IdleMode\<rparr>"
    obtain h k1 where "CheckIfDue True ?k = Inr (h, k1)" "k' = (case h of None \<Rightarrow> k1\<lparr>halted := True\<rparr> | Some ps \<Rightarrow> calls (ps @ [DueLoop, IdleEnd]) k1)"
      using D(6) False p by (auto simp: Interrupt_Idle_def elim!: rbind_InrE)
    then show ?thesis using D(5) pop_frame(1,2) by (intro that [of True ?k h k1 "[DueLoop, IdleEnd]"]) (auto split: option.splits)
  qed
  note C = CheckIfDue_device [OF k0(1) c]
  have r: "list_all (transparent ?L s) rest" "sum_list (map (dwt s) rest) = 0" "sum_list (map (ewt s) rest) = 0" using rest by (auto simp: transparent_def dwt_def ewt_def)
  show ?thesis
  proof (cases h)
    case None
    have u: "unchanged s k1 k'" "ktab k' = ktab k1" using k'(1) [OF None] by auto
    show ?thesis
      by (rule does_settle [where qs = "[]" and extra = "[]" and ph = ph, OF d]) (use u C(1-7) None k0(2,3) sc o w D(9) in \<open>simp_all add: unchanged_def\<close>)
  next
    case (Some qs)
    have t: "list_all (transparent ?L s) (qs @ rest)" "sum_list (map (dwt s) qs) = 0" using C(8) [OF Some, of ?L] r(1) by simp_all
    have "scan ?L s ph ((qs @ rest) @ ps)" using scan_transparent [OF t(1)] sc by blast
    then show ?thesis using C(1-7) Some k0(2-4) o w r(2,3) t(2)
      by (intro does_calls [where ph = ph, OF d k'(2) [OF Some]]) (simp_all add: unchanged_def)
  qed
qed

lemma client_plain: "device s \<Longrightarrow> client p \<Longrightarrow> plain s p"
  by (cases p) (auto simp: plain_def device_def)

lemma upd_level: "level (upd t f k) = level k"
  by (simp add: upd_def)

lemma does_fork:
  assumes d: "does s k p ps k'" and p: "p = Fork t body" and f: "forks_fresh k"
  shows "dev_ok s k'"
proof -
  note D = doesD [OF d]
  let ?L = "dev_lock k s" and ?b = "SetLevel IntOn # body @ [Finish]"
  have kt: "konts (thr k (currentThread k)) = p # ps" using d by (simp add: does_def)
  then have t: "t < length (threads k)" "t \<noteq> currentThread k" "ktab k ! t = []" using f p by (auto simp: forks_fresh_def)
  have "guarded (p # ps)" using goodD(2) [OF D(4)] kt by simp
  then have "list_all client body" using p by simp
  then have b: "list_all (plain s) ?b" using client_plain [OF D(1)] by (auto simp: list_all_iff plain_def)
  let ?k = "upd t (\<lambda>r. r\<lparr>konts := ?b\<rparr>) k"
  have k: "ktab ?k = (ktab k)[t := ?b]" "dev_lock ?k s = ?L" "Owner ?k = Owner k" "sems ?k = sems k" "busy ?k s = busy k s" "due s ?k = due s k"
    by (simp_all add: ktab_upd) (simp_all add: upd_def busy_def dev_lock_def due_def split: sem.split)
  have "\<exists>ph. scan ?L s ph (ktab ?k ! u) \<and> (ph \<noteq> Outside \<longrightarrow> Owner ?k ?L = Some u)" if u: "u < length (ktab ?k)" for u
  proof (cases "u = t")
    case True
    have "scan ?L s Outside (?b @ [])" by (rule scan_plain [OF b]) simp
    then show ?thesis using True t(1) k(1) by (intro exI [of _ Outside]) simp
  next
    case False
    then have "u < length (ktab k)" "ktab ?k ! u = ktab k ! u" using u k(1) by simp_all
    then show ?thesis using D(2) unfolding dev_ok_def k(2,3) by metis
  qed
  moreover have "tsum (dwt s) (ktab ?k) = tsum (dwt s) (ktab k)" "tsum (ewt s) (ktab ?k) = tsum (ewt s) (ktab k)"
    using t(1,3) sum_plain [OF b] by (simp_all add: k(1))
  ultimately have ok: "dev_ok s ?k" using D(2) unfolding dev_ok_def k by simp
  have k': "k' = calls [ReadyToRun t, SetLevel (level k)] ((StackAllocate t body (pop k))\<lparr>level := IntOff\<rparr>)"
    using D(6) p by (simp add: Thread_Fork_def atomically_def StackAllocate_def pop_frame upd_level)
  have tab: "ktab k' = (ktab ?k)[currentThread ?k := [ReadyToRun t, SetLevel (level k)] @ ps] @ []"
  proof -
    have "ktab (StackAllocate t body (pop k)) = (ktab k)[t := ?b, currentThread k := ps]"
      using t(2) list_update_swap [of "currentThread k" t "ktab k" ps ?b] by (simp add: StackAllocate_def ktab_upd D(9))
    moreover from this have "konts (thr (StackAllocate t body (pop k)) (currentThread k)) = ps"
      using t D(7) by (metis ktab_nth(1,2) length_list_update nth_list_update_eq)
    ultimately show ?thesis using t(2) unfolding k' by (simp add: calls_def ktab_upd k(1) StackAllocate_def pop_frame thr_def)
  qed
  have u: "unchanged s k k'" unfolding k' using pop_frame(2) by (simp add: StackAllocate_def)
  have "scan ?L s Outside (p # ps)" if "scan ?L s ph (p # ps)" for ph using that p by simp
  then have sc: "scan ?L s Outside ps" using D(11) p by auto
  show ?thesis
    by (rule settle [where k = ?k and p = p and ph = Outside, OF ok _ _ tab])
      (use u k D(7,8,12) t sc p in \<open>simp_all add: unchanged_def dwt_def ewt_def\<close>)
qed

lemma step_dev_ok:
  assumes s: "device s" and ok: "dev_ok s k" and l: "locks_ok k" and f: "forks_fresh k" and st: "step k = Inr k'"
  shows "dev_ok s k'"
proof (cases "halted k \<or> konts (thr k (currentThread k)) = []")
  case True
  then show ?thesis using ok st by (auto simp: step_def split: list.split_asm)
next
  case False
  then obtain p ps where h: "konts (thr k (currentThread k)) = p # ps" by (cases "konts (thr k (currentThread k))") auto
  with False st have e: "exec p (pop k) = Inr k'" by (simp add: step_def)
  have d: "does s k p ps k'" using s ok l st h e by (simp add: does_def)
  note D = doesD [OF d]
  have c: "currentThread (pop k) < length (threads (pop k))" using goodD(1) [OF D(5)] .
  have tm: "h \<in> {TimerInterruptHandler, RRHandler}" if "p = TimerExpired r h" for r h using goodD(2) [OF D(4)] h that by auto
  consider "starts s p" | "completes s p" | "p \<in> {P s, P_loop s, V s, V_inc s}" | "p = DueLoop \<or> p = Idle" | t body where "p = Fork t body"
    | "p = Acquire (dev_lock k s) \<or> p = SetOwner (dev_lock k s)" | "(\<exists>d t. p = DiskRequest d t \<and> s = DiskSem d) \<or> (\<exists>c ch. p = SynchPutChar c ch \<and> s = WriteSem c)"
    | "plain s p" "p \<noteq> DueLoop" "p \<noteq> Idle" "\<nexists>t body. p = Fork t body" "p \<noteq> Acquire (dev_lock k s)" "p \<noteq> SetOwner (dev_lock k s)"
      "\<nexists>d t. p = DiskRequest d t \<and> s = DiskSem d" "\<nexists>c ch. p = SynchPutChar c ch \<and> s = WriteSem c" unfolding plain_def by blast
  then show ?thesis
  proof cases
    case 8
    note m = mild_interrupts [OF s c e] mild_threads [OF s c e] mild_semaphores [OF s c e] mild_locks [OF s c e] mild_objects [OF s D(5) e] mild_devices [OF s c e]
    have "mild s p (pop k) k'"
      by (cases p) (rule m; use 8 tm in \<open>simp add: plain_def\<close>)+
    then show ?thesis using does_mild [OF d 8(1)] 8(5,6) by blast
  qed (use does_start [OF d] does_end [OF d] does_semaphore [OF d] does_due [OF d] does_fork [OF d _ f] does_lock [OF d] does_request [OF d] in blast)+
qed

section \<open>Every run\<close>

lemma Timer_new_unchanged: "Timer_new r h k = Inr k' \<Longrightarrow> unchanged s k k' \<and> ktab k' = ktab k"
proof -
  assume n: "Timer_new r h k = Inr k'"
  obtain w k1 where t: "TimeOfNextInterrupt r k = (w, k1)" by force
  then have "unchanged s k k1" "ktab k1 = ktab k" by (auto simp: TimeOfNextInterrupt_def split: if_split_asm)
  moreover have "unchanged s k1 k'" "ktab k' = ktab k1"
    using n t Schedule_unchanged [of "[TimerExpired r h]" w TimerInt k1 k' s] by (simp_all add: Timer_new_def ewt_def)
  ultimately show ?thesis using unchanged_trans by auto
qed

lemma Initialize_start:
  assumes "Initialize ry k body = Inr k0" "threads k = []"
  shows "unchanged s k k0" "ktab k0 = [SetLevel IntOn # body @ [Finish]]"
proof -
  from assms(1) obtain k1 where k1: "(if ry then Timer_new ry TimerInterruptHandler k else Inr k) = Inr k1"
    and r: "rbind (if RoundRobbin k1 then Timer_new False RRHandler k1 else Inr k1) (\<lambda>k. rbind (Thread_new 0 k) (\<lambda>(t, k).
      Inr (upd t (\<lambda>r. r\<lparr>tstatus := RUNNING, konts := SetLevel IntOn # body @ [Finish]\<rparr>) (k\<lparr>currentThread := t\<rparr>)))) = Inr k0"
    unfolding Initialize_def by (rule rbind_InrE)
  have 1: "unchanged s k k1 \<and> ktab k1 = ktab k" using k1 Timer_new_unchanged by (auto split: if_split_asm)
  from r obtain k2 where k2: "(if RoundRobbin k1 then Timer_new False RRHandler k1 else Inr k1) = Inr k2"
    and r2: "rbind (Thread_new 0 k2) (\<lambda>(t, k).
      Inr (upd t (\<lambda>r. r\<lparr>tstatus := RUNNING, konts := SetLevel IntOn # body @ [Finish]\<rparr>) (k\<lparr>currentThread := t\<rparr>))) = Inr k0"
    by (rule rbind_InrE)
  have "unchanged s k1 k2 \<and> ktab k2 = ktab k1" using k2 Timer_new_unchanged by (auto split: if_split_asm)
  then have 2: "unchanged s k k2" "ktab k2 = []" using 1 unchanged_trans assms(2) by (auto simp: ktab_def)
  then have "threads k2 = []" by (simp add: ktab_def)
  then show "ktab k0 = [SetLevel IntOn # body @ [Finish]]"
    using r2 by (auto simp: Thread_new_def Let_def ktab_def upd_def elim!: rbind_InrE)
  show "unchanged s k k0" using r2 2(1) by (auto simp: Thread_new_def Let_def elim!: rbind_InrE)
qed

lemma Initialize_dev_ok:
  assumes i: "Initialize ry (Interrupt_new rr rnd vals bs rws sls sds scs) body = Inr k0" and b: "list_all client body" and s: "device s"
    and c: "\<forall>d. disk_lock (sds d) \<noteq> threadLock \<and> \<not> disk_active (sds d)" "\<forall>c. con_lock (scs c) \<noteq> threadLock \<and> \<not> putBusy (con_dev (scs c))"
  shows "dev_ok s k0"
proof -
  let ?k = "Interrupt_new rr rnd vals bs rws sls sds scs" and ?m = "SetLevel IntOn # body @ [Finish]"
  have "threads ?k = []" by (simp add: Interrupt_new_def)
  note S = Initialize_start [OF i this]
  have k: "sem_value (sems ?k s) = 0" "\<not> busy ?k s" "due s ?k = 0" "dev_lock ?k s \<noteq> threadLock"
    using s c by (auto simp: device_def Interrupt_new_def Semaphore_new_def busy_def due_def dev_lock_def)
  have p: "list_all (plain s) ?m" using client_plain [OF s] b by (auto simp: list_all_iff plain_def)
  have "scan L s Outside (?m @ [])" for L by (rule scan_plain [OF p]) simp
  then have "\<exists>ph. scan L s ph ?m \<and> (ph \<noteq> Outside \<longrightarrow> X)" for L X by (intro exI [of _ Outside]) simp
  moreover have "sum_list (map (dwt s) ?m) = 0" "sum_list (map (ewt s) ?m) = 0" using sum_plain [OF p] by simp_all
  ultimately show ?thesis using S k by (simp add: dev_ok_def unchanged_def)
qed

lemma runs_dev_ok: "runs k0 k \<Longrightarrow> device s \<Longrightarrow> locks_ok k0 \<Longrightarrow> dev_ok s k0 \<Longrightarrow> dev_ok s k"
  by (induction rule: runs.induct) (auto intro: step_dev_ok runs_locks_ok)

lemma runs_start_idle:
  assumes "Initialize ry (Interrupt_new rr rnd vals bs rws sls sds scs) body = Inr k0" "list_all client body"
    "\<forall>n. 0 \<le> vals n" "\<forall>r. \<exists>n. WriterLock (rws r) = Sem n" "\<forall>d s. \<exists>n. mutex (sds d) s = Sem n"
    "\<forall>d. disk_lock (sds d) \<noteq> threadLock \<and> \<not> disk_active (sds d)" "\<forall>c. con_lock (scs c) \<noteq> threadLock \<and> \<not> putBusy (con_dev (scs c))"
    "runs k0 k" "konts (thr k (currentThread k)) = p # ps" "starts s p"
  shows "\<not> busy k s"
proof -
  have l: "locks_ok k0" by (rule Initialize_locks_ok [OF assms(1-5)])
  then have g: "good k" using runs_locks_ok [OF assms(8)] by (simp add: locks_ok_def)
  have s: "device s" using assms(10) by (cases p) (auto simp: device_def)
  have ok: "dev_ok s k" by (rule runs_dev_ok [OF assms(8) s l Initialize_dev_ok [OF assms(1,2) s assms(6,7)]])
  have c: "currentThread k < length (ktab k)" "ktab k ! currentThread k = p # ps" using goodD(1) [OF g] assms(9) by simp_all
  show ?thesis by (rule start_idle [OF ok c assms(10)]) (use goodD2(5) [OF g] in simp)
qed

text \<open>C17: In every run of the kernel, whatever the threads, the scheduler and the interrupts do, a thread that is about to hand a request to a disk or a
  character to a display finds the device idle: the assertions in \<open>ReadRequest\<close>, \<open>WriteRequest\<close> and \<open>PutChar\<close> never fail.\<close>

theorem devices_never_busy:
  assumes "Initialize ry (Interrupt_new rr rnd vals bs rws sls sds scs) body = Inr k0" "list_all client body"
    "\<forall>n. 0 \<le> vals n" "\<forall>r. \<exists>n. WriterLock (rws r) = Sem n" "\<forall>d s. \<exists>n. mutex (sds d) s = Sem n"
    "\<forall>d. disk_lock (sds d) \<noteq> threadLock \<and> \<not> disk_active (sds d)" "\<forall>c. con_lock (scs c) \<noteq> threadLock \<and> \<not> putBusy (con_dev (scs c))" "runs k0 k"
  shows "(\<forall>d t ps. konts (thr k (currentThread k)) = DiskIssue d t # ps \<longrightarrow> \<not> disk_active (synchdisks k d))
    \<and> (\<forall>c ch ps. konts (thr k (currentThread k)) = ConsolePut c ch # ps \<longrightarrow> \<not> putBusy (con_dev (synchconsoles k c)))"
proof (intro conjI allI impI)
  fix d t ps assume "konts (thr k (currentThread k)) = DiskIssue d t # ps"
  from runs_start_idle [OF assms this, of "DiskSem d"] show "\<not> disk_active (synchdisks k d)" by (simp add: busy_def)
next
  fix c ch ps assume "konts (thr k (currentThread k)) = ConsolePut c ch # ps"
  from runs_start_idle [OF assms this, of "WriteSem c"] show "\<not> putBusy (con_dev (synchconsoles k c))" by (simp add: busy_def)
qed

text \<open>Two threads write to the same display.\<close>

definition two_writers :: "point list" where
  "two_writers = [ConsoleStart 0, NewThread 0 [SynchPutChar 0 104], SynchPutChar 0 105, SynchGetChar 0]"

theorem devices_never_busy_witness:
  "case boot True 26 two_writers of Inl e \<Rightarrow> False
   | Inr k \<Rightarrow> hd (konts (thr k (currentThread k))) = ConsolePut 0 105 \<and> \<not> putBusy (con_dev (synchconsoles k 0))"
proof -
  have c: "case boot True 26 two_writers of Inl e \<Rightarrow> False | Inr k \<Rightarrow> take 1 (konts (thr k (currentThread k))) = [ConsolePut 0 105]" by code_simp
  then obtain k where k: "boot True 26 two_writers = Inr k" by (auto split: sum.split_asm)
  have b: "list_all client two_writers" by (simp add: two_writers_def)
  from boot_runs [OF k b] obtain k0 where i: "Initialize False (sample_objects True) two_writers = Inr k0" and r: "runs k0 k" .
  from c k obtain ps where ps: "konts (thr k (currentThread k)) = ConsolePut 0 105 # ps" by (cases "konts (thr k (currentThread k))") auto
  have "\<not> putBusy (con_dev (synchconsoles k 0))"
    using devices_never_busy [OF i [unfolded sample_objects_def] b _ _ _ _ _ r] ps
    by (auto simp: ReaderWriterLock_new_def SynchDisk_new_def SynchConsole_new_def Console_new_def threadLock_def)
  then show ?thesis using k ps by simp
qed

end
