(* ===== verification/Spec2Isabelle.thy ===== *)
theory Spec2Isabelle
  imports MipsExec KernelFacts Paths UserExit UserWrite FileService FileTools TlbPolicies PageHistory LostWakeup ElevatorFacts Network DeviceSafety
begin

text \<open>
  The Nachos operating system of the PKU course (\<open>src/Nachos Lab/codes\<close>), an instructional kernel that runs
  as one UNIX process: a simulated MIPS machine with a disk and a timer, a thread kernel, a file system with
  directories of several levels and indexed files, and user programs with demand paging and system calls.

  \<^bold>\<open>Configurations.\<close> The code is configured by macros. The file system, the machine and the user programs are
  modelled as vm/Makefile compiles them: \<open>USER_PROGRAM\<close>, \<open>VM\<close>, \<open>FILESYS\<close>, \<open>USE_INDIRECT\<close>, \<open>MULTI_LEVEL_DIR\<close>,
  \<open>USE_TLB\<close>, \<open>USE_BITMAP\<close>, \<open>USE_DISK\<close>, on a little endian host with 32 bit integers; the choice between
  \<open>USE_FIFO\<close>, \<open>USE_CLOCK\<close> and neither is the argument \<open>policy\<close>. The thread kernel is modelled as threads/Makefile
  compiles it, without user programs, for all four combinations of the flags \<open>-rs\<close> and \<open>-rr\<close>.

  \<^bold>\<open>How code becomes definitions.\<close> A class is a record, with pointers to owned objects unfolded, and a method a function from the old
  state to a result (\<open>Prelude.res\<close>): \<open>Inl\<close> a fault, which is a failed \<open>ASSERT\<close>, an access out of an array's bounds, a null
  pointer, undefined arithmetic or exhausted fuel, or \<open>Inr\<close> the returned value and the new state; \<open>rbind\<close> is
  sequencing. An \<open>int\<close> of the code is a HOL \<open>int\<close> where the code keeps it in range (sector numbers, sizes,
  times, with \<open>u32\<close> where it is converted to unsigned) and a \<open>32 word\<close> where it wraps or is used bitwise (registers, words of a bitmap, the
  frame bitmap). Memory, sectors and files are lists of bytes; what is written to the disk is encoded to bytes and decoded
  again, so that records survive only as far as their bytes do. Uninitialised memory is not zero: the heap and the stack
  hold whatever the parameters \<open>heap_junk\<close>, \<open>stack_junk\<close> and \<open>header_junk\<close> of \<open>fs_env\<close> say.

  \<^bold>\<open>Theories.\<close>

  \<^item> \<open>Prelude\<close>: results and faults, C integer arithmetic, arrays, little endian integers, \<open>divRoundUp\<close>
    (threads/utility.h).
  \<^item> \<open>Disk\<close>: the raw disk of machine/disk.cc with its timing, and the synchronous sectors of filesys/synchdisk.cc. The
    locale \<open>sector_store\<close> is the interface the file system uses; it is interpreted on the store of sectors and on the device
    (\<open>SynchDisk_refines_store\<close>).
  \<^item> \<open>Allocator\<close>, \<open>Bitmap\<close>: the locale \<open>slot_allocator\<close> and its instance, the bitmap of userprog/bitmap.cc.
  \<^item> \<open>FileHeader\<close>, \<open>FileLayout\<close>, \<open>FileOps\<close>, \<open>FileExpand\<close>, \<open>FileSamples\<close>: i-nodes (filesys/filehdr.cc) with direct sectors, one single and one
    double index. \<open>FileLayout\<close> has the abstraction, the list \<open>blocks\<close> of a file's data sectors and the list \<open>tables\<close> of its index
    sectors; allocation, release, growth and \<open>ByteToSector\<close> are stated on these lists.
  \<^item> \<open>OpenFile\<close>, \<open>FileContent\<close>, \<open>FileGrow\<close>: open files (filesys/openfile.cc). \<open>content\<close> is the list of a file's bytes; reads and
    writes of any range are a slice and an overlay of it, and a write behind the end grows the file through the
    bitmap that is itself a file.
  \<^item> \<open>Directory\<close>: directories (filesys/directory.cc), which implement the locale \<open>bounded_map\<close>, and their bytes on disk.
  \<^item> \<open>FileSys\<close>, \<open>Paths\<close>: the class \<open>FileSystem\<close> (filesys/filesys.cc) and the parser of paths (filesys/filehdr.cc).
    \<open>FsInv\<close>, \<open>FsOps\<close>, \<open>FsFormat\<close>, \<open>FsFacts\<close>: the invariant \<open>fs_ok\<close> (no sector belongs to two files, the bitmap on disk marks the sectors of every
    file, the two open files agree with the disk), its preservation, and the abstraction \<open>files\<close>, a finite
    map from names to contents on which \<open>Create\<close>, \<open>Open\<close> and \<open>Remove\<close> act. \<open>FsHandles\<close> is what a client sees of an open file; \<open>FileService\<close>
    states it as the locale \<open>file_service\<close> with the file system as its instance. \<open>FileTools\<close> has the commands that copy a host file in and print a file (filesys/fstest.cc).
  \<^item> \<open>FileTable\<close>: the table of open files of user programs (filesys/filesys.cc).
  \<^item> \<open>Machine\<close>, \<open>Mips\<close>, \<open>MipsMult\<close>, \<open>MipsExec\<close>, \<open>MachineSamples\<close>: the simulated CPU (machine/machine.cc, translate.cc,
    mipssim.cc): memory access through TLB or page table, the decoder, every instruction, delayed loads and branches.
  \<^item> \<open>Paging\<close>, \<open>PagingFacts\<close>, \<open>TlbPolicies\<close>: TLB replacement, with the locale \<open>replacement\<close> that its three policies implement, and page frames. \<open>Vm\<close>, \<open>VmFacts\<close>, \<open>VmTraps\<close>, \<open>Loading\<close>: page faults and address
    spaces (userprog/exception.cc, userprog/addrspace.cc, bin/noff.h). \<open>Syscalls\<close>, \<open>SyscallFacts\<close>, \<open>UserWrite\<close>, \<open>UserExit\<close>: the system calls (userprog/exception.cc)
    and \<open>StartProcess\<close> (userprog/progtest.cc). \<open>PageHistory\<close>: the invariant \<open>paging_ok\<close> of a program under demand paging, kept by every load, store and trap.
  \<^item> \<open>Lists\<close>: the pointer lists of threads/list.cc on an explicit heap, and the locale \<open>keyed_list\<close> they implement.
  \<^item> \<open>Kernel\<close>, \<open>KernelLocks\<close>, \<open>KernelFacts\<close>: threads, scheduler, interrupts, timer, semaphores, locks, conditions, barriers, readers and writers,
    the synchronous disk (threads/, machine/interrupt.cc, machine/timer.cc, filesys/synchdisk.cc). A thread that is
    switched out is the list of calls it has still to make; \<open>step\<close> runs one of them and \<open>runs\<close> is an inductive
    relation over all interleavings.
    \<open>KernelDevices\<close>, \<open>DeviceSafety\<close>: the lock and the semaphore around a disk or a console keep its device from being asked while it is busy. \<open>LostWakeup\<close>: \<open>V\<close> followed point by point when the thread it wakes is more urgent.
  \<^item> \<open>Console\<close>: the console device (machine/console.cc), which \<open>Kernel\<close> wraps as the synchronous console. \<open>Elevator\<close>, \<open>ElevatorFacts\<close>: the
    bank of elevators (machine/elevator.cc). \<open>Network\<close>: the network device (machine/network.cc).

  \<^bold>\<open>How the parts meet.\<close> The file system calls disk, bitmap and headers as functions on one \<open>fs_disk\<close>. The state
  \<open>user_machine\<close> extends the machine's by the file system, the table of open files and the space of the running thread; the
  kernel enters the simulator as the trap handler that \<open>ReadMem\<close>, \<open>WriteMem\<close> and \<open>OneInstruction\<close> take, so a
  system call that touches user memory can itself trap, be handled and be retried. Two things cross between
  user programs and the thread kernel as parameters: \<open>sched\<close> is what the other threads do while the caller of
  \<open>Fork\<close>, \<open>Yield\<close> or \<open>Finish\<close> waits, and \<open>usable\<close> is how many bytes the allocator gives for a request.

  \<^bold>\<open>What the theorems show.\<close> Every operation of the file layers is proved to do what its abstract counterpart does, on success
  and on refusal, and to keep the invariant; from formatting on, the file system is a map from names to
  contents. Address spaces begin with the program's image and page faults bring in the right bytes. The simulator decodes every word and only fails
  in two named ways. Locks exclude in every interleaving, no device is asked while it is busy, interrupts come in order. Where the code does not do what it means to, a
  theorem says exactly what it does instead: file growth can overcommit, a directory is never removed, a lookup of a file can steal other
  threads' files, a program's stores never reach the file of virtual memory when a page is replaced, a name on an absent page stops the kernel,
  \<open>Write\<close> stores behind its buffer unless the allocator gives more than was asked for and writes an indeterminate byte for one that is not in memory, \<open>V\<close> loses its wakeup of a more urgent thread, a finished
  thread can stay undeleted.

  \<^bold>\<open>Fuel.\<close> \<open>WriteAt\<close> calls itself through the bitmap's file; the bitmap's file never grows, so depth \<open>write_depth\<close>, one, is
  enough, and the theorems about growth show that it is. \<open>JoinHandler\<close> takes the number of yields it may wait, since whether a
  child ever exits is up to the child. All other loops are structural or have a termination proof; the clock's
  loop ends because each round clears a use bit.

  \<^bold>\<open>Assumptions on the model.\<close> A thread body is given at \<open>Fork\<close> and forks nothing else than what its list of calls says; there is one timer; the
  field \<open>prevTick\<close>, which the code does not initialise, starts at 0; paths hold no zero byte. The values of semaphores and the times of interrupts are integers
  without a bound; the code's overflow after 2^31 ticks or \<open>V\<close>s is left out. \<open>new char[n]\<close> gives \<open>usable n\<close> bytes, where the language promises \<open>n\<close> of them: the theorems about
  \<open>Write\<close> hold for every value of it and say what it decides.

  \<^bold>\<open>Not modelled.\<close> Printing (\<open>Print\<close>, \<open>DEBUG\<close>, the statistics); for the system calls, the console is a sequence of words and
  a string; machine/sysdep.cc, the calls of
  the host; \<open>SWITCH\<close>, which is assembler; the tests (threads/threadtest.cc, the performance tests of filesys/fstest.cc) and the tools in bin/; the other
  configurations (inverted page table, one level directories, stub file system).
\<close>

end
